(* ===== verification/Prelude.thy ===== *)
theory Prelude
  imports Complex_Main "HOL-Library.Multiset" "HOL-Library.Word" "HOL-Library.List_Lexorder"
    "HOL-Library.Char_ord" "HOL-Library.Product_Lexorder"
begin

text \<open>
  Vocabulary shared by every component: JavaScript numbers and strings as far as the
  sources use them, results with an error branch, JSON values, the list facts and the
  collections of rewrite rules the component theories rely on.

  Strings.  A JavaScript string is a sequence of UTF-16 code units; here it is a
  \<^typ>\<open>string\<close>, one \<^typ>\<open>char\<close> for one code unit, so only code units below 256 occur.
  Character classes (white space, letter case) are exactly those of JavaScript on that
  range.

  Numbers.  A JavaScript number is NaN, an infinity or a finite double; a finite double is
  a rational number, so comparisons and integrality tests are exact on \<^typ>\<open>rat\<close>.
\<close>

section \<open>Rule collections\<close>

named_theorems str_simps \<open>string helpers unfolded\<close>
named_theorems fence_simps \<open>lease fences and the tests that read them\<close>
named_theorems store_simps \<open>table operations unfolded\<close>

section \<open>Results\<close>

text \<open>\<^typ>\<open>'e + 'a\<close>: \<^const>\<open>Inl\<close> is a thrown error, \<^const>\<open>Inr\<close> a normal return.\<close>

definition and_then :: "'e + 'a \<Rightarrow> ('a \<Rightarrow> 'e + 'b) \<Rightarrow> 'e + 'b" where
  "and_then r f = (case r of Inl e \<Rightarrow> Inl e | Inr a \<Rightarrow> f a)"

lemma and_then_simps [simp]:
  "and_then (Inl e) f = Inl e"
  "and_then (Inr a) f = f a"
  by (simp_all add: and_then_def)

lemma and_then_eq_Inr: "and_then r f = Inr b \<longleftrightarrow> (\<exists>a. r = Inr a \<and> f a = Inr b)"
  by (cases r) auto

lemma and_then_eq_Inl: "and_then r f = Inl e \<longleftrightarrow> r = Inl e \<or> (\<exists>a. r = Inr a \<and> f a = Inl e)"
  by (cases r) auto

text \<open>\<open>xs.map(f)\<close> with an \<open>f\<close> that may throw: the first throw leaves the map.\<close>

fun map_result :: "('a \<Rightarrow> 'e + 'b) \<Rightarrow> 'a list \<Rightarrow> 'e + 'b list" where
  "map_result f [] = Inr []"
| "map_result f (x # xs) =
     (case f x of
        Inl e \<Rightarrow> Inl e
      | Inr y \<Rightarrow> (case map_result f xs of Inl e \<Rightarrow> Inl e | Inr ys \<Rightarrow> Inr (y # ys)))"

lemma map_result_Inr:
  "map_result f xs = Inr ys \<longleftrightarrow> list_all2 (\<lambda>x y. f x = Inr y) xs ys"
proof (induction xs arbitrary: ys)
  case (Cons x xs)
  show ?case
  proof (cases "f x")
    case (Inr y)
    then show ?thesis
      by (cases "map_result f xs") (auto simp: list_all2_Cons1 Cons.IH [symmetric])
  qed (auto simp: list_all2_Cons1)
qed auto

lemma map_result_length: "map_result f xs = Inr ys \<Longrightarrow> length ys = length xs"
  by (simp add: map_result_Inr list_all2_lengthD)

lemma map_result_map:
  "(\<And>x. x \<in> set xs \<Longrightarrow> f (g x) = Inr x) \<Longrightarrow> map_result f (map g xs) = Inr xs"
  by (induction xs) auto

section \<open>Numbers\<close>

datatype jsnum = JNaN | JPosInf | JNegInf | JFin rat

fun js_is_finite :: "jsnum \<Rightarrow> bool" where
  "js_is_finite (JFin r) = True"
| "js_is_finite _ = False"

text \<open>\<open>Number.isInteger\<close> and \<open>Number.isSafeInteger\<close>.\<close>

fun js_is_integer :: "jsnum \<Rightarrow> bool" where
  "js_is_integer (JFin r) = (of_int \<lfloor>r\<rfloor> = r)"
| "js_is_integer _ = False"

definition max_safe_integer :: int where
  "max_safe_integer = 9007199254740991"

fun js_is_safe_integer :: "jsnum \<Rightarrow> bool" where
  "js_is_safe_integer (JFin r) = (of_int \<lfloor>r\<rfloor> = r \<and> \<bar>\<lfloor>r\<rfloor>\<bar> \<le> max_safe_integer)"
| "js_is_safe_integer _ = False"

text \<open>The comparison \<open>a < b\<close>: false as soon as one side is NaN.\<close>

fun js_less :: "jsnum \<Rightarrow> jsnum \<Rightarrow> bool" where
  "js_less (JFin a) (JFin b) = (a < b)"
| "js_less JNegInf (JFin b) = True"
| "js_less JNegInf JPosInf = True"
| "js_less (JFin a) JPosInf = True"
| "js_less _ _ = False"

fun js_less_eq :: "jsnum \<Rightarrow> jsnum \<Rightarrow> bool" where
  "js_less_eq (JFin a) (JFin b) = (a \<le> b)"
| "js_less_eq JNegInf b = (b \<noteq> JNaN)"
| "js_less_eq a JPosInf = (a \<noteq> JNaN)"
| "js_less_eq _ _ = False"

text \<open>
  The sign of \<open>a - b\<close>, as a comparator uses it: 0 stands for both a zero and a NaN
  difference, the two falsy outcomes.
\<close>

fun js_diff_sign :: "jsnum \<Rightarrow> jsnum \<Rightarrow> int" where
  "js_diff_sign (JFin a) (JFin b) = (if a < b then - 1 else if a > b then 1 else 0)"
| "js_diff_sign JPosInf JPosInf = 0"
| "js_diff_sign JNegInf JNegInf = 0"
| "js_diff_sign JNaN _ = 0"
| "js_diff_sign _ JNaN = 0"
| "js_diff_sign JPosInf _ = 1"
| "js_diff_sign _ JPosInf = - 1"
| "js_diff_sign JNegInf _ = - 1"
| "js_diff_sign _ JNegInf = 1"

text \<open>The integer a number that passed an integrality guard denotes.\<close>

fun js_to_int :: "jsnum \<Rightarrow> int" where
  "js_to_int (JFin r) = \<lfloor>r\<rfloor>"
| "js_to_int _ = 0"

lemma js_is_integer_of_int [simp]: "js_is_integer (JFin (of_int n))"
  by simp

lemma js_safe_of_int [simp]:
  "js_is_safe_integer (JFin (of_int n)) \<longleftrightarrow> \<bar>n\<bar> \<le> max_safe_integer"
  by simp

lemma js_is_safe_integer_is_integer: "js_is_safe_integer x \<Longrightarrow> js_is_integer x"
  by (cases x) auto

lemma js_is_integer_cases: "js_is_integer x \<longleftrightarrow> (\<exists>n. x = JFin (of_int n))"
proof (cases x)
  case (JFin r)
  have "of_int \<lfloor>r\<rfloor> = r \<longleftrightarrow> (\<exists>n::int. r = of_int n)"
    by (metis floor_of_int)
  with JFin show ?thesis by simp
qed auto

section \<open>Strings\<close>

text \<open>
  The white space of \<open>\s\<close> and \<open>trim\<close>: TAB, LF, VT, FF, CR, space and NBSP are the
  members of that class among the code units below 256.
\<close>

definition is_ws :: "char \<Rightarrow> bool" where
  "is_ws c \<longleftrightarrow> c = CHR 0x09 \<or> c = CHR 0x0A \<or> c = CHR 0x0B \<or> c = CHR 0x0C \<or> c = CHR 0x0D
     \<or> c = CHR 0x20 \<or> c = CHR 0xA0"

definition js_trim :: "string \<Rightarrow> string" where
  "js_trim s = rev (dropWhile is_ws (rev (dropWhile is_ws s)))"

text \<open>\<open>replace(/\s+/g, ' ')\<close>: every maximal run of white space becomes one space.\<close>

fun collapse_ws :: "string \<Rightarrow> string" where
  "collapse_ws [] = []"
| "collapse_ws (c # s) =
     (if is_ws c
      then (case s of [] \<Rightarrow> [CHR 0x20]
            | d # _ \<Rightarrow> if is_ws d then collapse_ws s else CHR 0x20 # collapse_ws s)
      else c # collapse_ws s)"

text \<open>\<open>toLowerCase\<close>: A to Z, and the capital letters of the range 0xC0 to 0xDE but the sign 0xD7.\<close>

definition char_lower :: "char \<Rightarrow> char" where
  "char_lower c =
     (let n = (of_char c :: nat)
      in if 65 \<le> n \<and> n \<le> 90 \<or> 192 \<le> n \<and> n \<le> 222 \<and> n \<noteq> 215 then char_of (n + 32) else c)"

definition js_lower :: "string \<Rightarrow> string" where
  "js_lower s = map char_lower s"

definition starts_with :: "string \<Rightarrow> string \<Rightarrow> bool" where
  "starts_with p s \<longleftrightarrow> take (length p) s = p"

definition ends_with :: "string \<Rightarrow> string \<Rightarrow> bool" where
  "ends_with p s \<longleftrightarrow> length p \<le> length s \<and> drop (length s - length p) s = p"

text \<open>\<open>s.slice(i, j)\<close> for \<open>0 \<le> i\<close>: clipped to the string, empty when \<open>j \<le> i\<close>.\<close>

definition slice :: "nat \<Rightarrow> nat \<Rightarrow> 'a list \<Rightarrow> 'a list" where
  "slice i j s = take (j - i) (drop i s)"

text \<open>\<open>xs.join(sep)\<close> and \<open>s.split(c)\<close> for a one-character separator.\<close>

fun join_with :: "string \<Rightarrow> string list \<Rightarrow> string" where
  "join_with sep [] = []"
| "join_with sep [x] = x"
| "join_with sep (x # y # ys) = x @ sep @ join_with sep (y # ys)"

fun split_char :: "char \<Rightarrow> string \<Rightarrow> string list" where
  "split_char c [] = [[]]"
| "split_char c (x # xs) =
     (if x = c then [] # split_char c xs
      else (case split_char c xs of [] \<Rightarrow> [[x]] | w # ws \<Rightarrow> (x # w) # ws))"

text \<open>Decimal digits: what a template literal prints for an integer below \<open>10 ^ 21\<close>.\<close>

definition digit_char :: "nat \<Rightarrow> char" where
  "digit_char d = char_of (48 + d)"

fun nat_str :: "nat \<Rightarrow> string" where
  "nat_str n = (if n < 10 then [digit_char n] else nat_str (n div 10) @ [digit_char (n mod 10)])"

declare nat_str.simps [simp del]

definition int_str :: "int \<Rightarrow> string" where
  "int_str n = (if n < 0 then CHR ''-'' # nat_str (nat (- n)) else nat_str (nat n))"

lemmas [str_simps] = js_trim_def js_lower_def starts_with_def ends_with_def slice_def

lemma digit_char_inj: "a < 10 \<Longrightarrow> b < 10 \<Longrightarrow> digit_char a = digit_char b \<Longrightarrow> a = b"
proof -
  assume ab: "a < 10" "b < 10" and eq: "digit_char a = digit_char b"
  have "(of_char (char_of (48 + a) :: char) :: nat) = of_char (char_of (48 + b) :: char)"
    using eq by (simp add: digit_char_def)
  with ab show "a = b" by simp
qed

lemma nat_str_nonempty [simp]: "nat_str n \<noteq> []"
  by (subst nat_str.simps) simp

lemma nat_str_inj: "nat_str m = nat_str n \<Longrightarrow> m = n"
proof (induction m arbitrary: n rule: less_induct)
  case (less m)
  show ?case
  proof (cases "m < 10 \<or> n < 10")
    case True
    with less.prems show ?thesis
      by (auto simp: nat_str.simps [of m] nat_str.simps [of n] append_eq_Cons_conv Cons_eq_append_conv
          split: if_splits dest: digit_char_inj)
  next
    case False
    with less.prems have "nat_str (m div 10) = nat_str (n div 10)"
      and "digit_char (m mod 10) = digit_char (n mod 10)"
      by (simp_all add: nat_str.simps [of m] nat_str.simps [of n])
    with False less.IH [of "m div 10" "n div 10"] have "m div 10 = n div 10" "m mod 10 = n mod 10"
      by (auto dest: digit_char_inj [rotated 2])
    then show ?thesis by (metis div_mult_mod_eq)
  qed
qed

lemma digit_char_code: "d < 10 \<Longrightarrow> (of_char (digit_char d) :: nat) = 48 + d"
  by (simp add: digit_char_def)

lemma nat_str_digits: "c \<in> set (nat_str n) \<Longrightarrow> \<exists>d < 10. c = digit_char d"
proof (induction n rule: nat_str.induct)
  case (1 n)
  then show ?case
    by (cases "n < 10") (auto simp: nat_str.simps [of n] intro: exI [of _ "n mod 10"])
qed

lemma colon_not_in_nat_str: "CHR '':'' \<notin> set (nat_str n)"
proof
  assume "CHR '':'' \<in> set (nat_str n)"
  then obtain d where "d < 10" "CHR '':'' = digit_char d" by (blast dest: nat_str_digits)
  then have "(of_char (CHR '':'') :: nat) = 48 + d" by (metis digit_char_code)
  with \<open>d < 10\<close> show False by simp
qed

lemma digit_char_minus: "d < 10 \<Longrightarrow> digit_char d \<noteq> CHR ''-''"
  using digit_char_code [of d] by auto

lemma int_str_inj: "int_str m = int_str n \<Longrightarrow> m = n"
proof -
  have minus: "CHR ''-'' \<notin> set (nat_str k)" for k
    using nat_str_digits [of "CHR ''-''" k] digit_char_minus by metis
  assume "int_str m = int_str n"
  then show "m = n"
    using minus [of "nat m"] minus [of "nat n"]
    by (auto simp: int_str_def split: if_splits dest!: nat_str_inj) (metis list.set_intros(1))+
qed

lemma colon_not_in_int_str: "CHR '':'' \<notin> set (int_str n)"
  by (simp add: int_str_def colon_not_in_nat_str)

text \<open>Two strings cut at their last \<open>:\<close> agree on both sides.\<close>

lemma append_colon_inj:
  assumes "a @ CHR '':'' # x = b @ CHR '':'' # y"
    and "CHR '':'' \<notin> set x" and "CHR '':'' \<notin> set y"
  shows "a = b \<and> x = y"
  using assms by (auto simp: append_eq_append_conv2 Cons_eq_append_conv append_eq_Cons_conv)

lemma js_trim_Nil: "js_trim s = [] \<longleftrightarrow> (\<forall>c\<in>set s. is_ws c)"
proof
  assume "js_trim s = []"
  then have d: "\<forall>c\<in>set (dropWhile is_ws s). is_ws c" by (auto simp: js_trim_def dest: set_dropWhileD)
  have "dropWhile is_ws s = []"
  proof (rule ccontr)
    assume n: "dropWhile is_ws s \<noteq> []"
    then have "\<not> is_ws (hd (dropWhile is_ws s))" by (rule hd_dropWhile)
    with d n show False by simp
  qed
  then show "\<forall>c\<in>set s. is_ws c" by simp
next
  assume "\<forall>c\<in>set s. is_ws c"
  then show "js_trim s = []" by (auto simp: js_trim_def dest: set_dropWhileD)
qed

lemma js_trim_idem [simp]: "js_trim (js_trim s) = js_trim s"
proof -
  have d: "dropWhile P (dropWhile P xs) = dropWhile P xs" for P and xs :: string
    by (induction xs) auto
  have k: "dropWhile P (rev (dropWhile P (rev (dropWhile P xs)))) = rev (dropWhile P (rev (dropWhile P xs)))"
    for P and xs :: string
  proof (cases "dropWhile P xs")
    case (Cons y ys)
    then have "\<not> P y" by (metis hd_dropWhile list.distinct(1) list.sel(1))
    then have "dropWhile P (rev ys @ [y]) = dropWhile P (rev ys) @ [y]"
      by (simp add: dropWhile_append3)
    with \<open>\<not> P y\<close> Cons show ?thesis by simp
  next
    case Nil
    show ?thesis unfolding Nil by simp
  qed
  show ?thesis by (simp add: js_trim_def k d)
qed

section \<open>Sorting\<close>

text \<open>
  \<open>xs.sort(cmp)\<close>: the stable sort of the language, \<open>cmp x y \<le> 0\<close> leaving \<open>x\<close> before \<open>y\<close>.
\<close>

fun insert_by :: "('a \<Rightarrow> 'a \<Rightarrow> int) \<Rightarrow> 'a \<Rightarrow> 'a list \<Rightarrow> 'a list" where
  "insert_by cmp x [] = [x]"
| "insert_by cmp x (y # ys) = (if cmp x y \<le> 0 then x # y # ys else y # insert_by cmp x ys)"

definition js_sort :: "('a \<Rightarrow> 'a \<Rightarrow> int) \<Rightarrow> 'a list \<Rightarrow> 'a list" where
  "js_sort cmp xs = foldr (insert_by cmp) xs []"

text \<open>A comparator consistent on the values it is used on: what the language asks of \<open>cmp\<close>.\<close>

definition consistent_on :: "'a set \<Rightarrow> ('a \<Rightarrow> 'a \<Rightarrow> int) \<Rightarrow> bool" where
  "consistent_on A cmp \<longleftrightarrow>
     (\<forall>x\<in>A. \<forall>y\<in>A. cmp x y \<le> 0 \<or> cmp y x \<le> 0) \<and>
     (\<forall>x\<in>A. \<forall>y\<in>A. \<forall>z\<in>A. cmp x y \<le> 0 \<longrightarrow> cmp y z \<le> 0 \<longrightarrow> cmp x z \<le> 0)"

lemma consistent_on_subset: "consistent_on A cmp \<Longrightarrow> B \<subseteq> A \<Longrightarrow> consistent_on B cmp"
  unfolding consistent_on_def by blast

lemma mset_insert_by [simp]: "mset (insert_by cmp x ys) = add_mset x (mset ys)"
  by (induction ys) auto

lemma mset_js_sort [simp]: "mset (js_sort cmp xs) = mset xs"
  by (induction xs) (auto simp: js_sort_def)

lemma set_js_sort [simp]: "set (js_sort cmp xs) = set xs"
  by (metis mset_js_sort set_mset_mset)

lemma length_js_sort [simp]: "length (js_sort cmp xs) = length xs"
  by (metis mset_js_sort size_mset)

lemma set_insert_by [simp]: "set (insert_by cmp x ys) = insert x (set ys)"
  by (induction ys) (auto simp: insert_commute)

lemma sorted_insert_by:
  assumes "consistent_on A cmp" and "x \<in> A" and "set ys \<subseteq> A"
    and "sorted_wrt (\<lambda>x y. cmp x y \<le> 0) ys"
  shows "sorted_wrt (\<lambda>x y. cmp x y \<le> 0) (insert_by cmp x ys)"
  using assms(3,4)
proof (induction ys)
  case (Cons y ys)
  have tot: "cmp a b \<le> 0 \<or> cmp b a \<le> 0" if "a \<in> A" "b \<in> A" for a b
    using assms(1) that unfolding consistent_on_def by blast
  have trans: "cmp a b \<le> 0 \<Longrightarrow> cmp b c \<le> 0 \<Longrightarrow> cmp a c \<le> 0" if "a \<in> A" "b \<in> A" "c \<in> A" for a b c
    using assms(1) that unfolding consistent_on_def by blast
  show ?case
  proof (cases "cmp x y \<le> 0")
    case True
    with Cons.prems assms(2) show ?thesis by (auto intro: trans [of x y])
  next
    case False
    with tot assms(2) Cons.prems(1) have "cmp y x \<le> 0" by auto
    with False Cons show ?thesis by auto
  qed
qed simp

lemma sorted_js_sort:
  assumes "consistent_on (set xs) cmp"
  shows "sorted_wrt (\<lambda>x y. cmp x y \<le> 0) (js_sort cmp xs)"
  using assms
proof (induction xs)
  case (Cons x xs)
  have "set (foldr (insert_by cmp) xs []) = set xs"
    using set_js_sort [of cmp xs] by (simp add: js_sort_def)
  moreover have "consistent_on (set xs) cmp"
    using Cons.prems by (rule consistent_on_subset) auto
  ultimately show ?case
    using Cons by (auto simp: js_sort_def intro: sorted_insert_by [of "set (x # xs)"])
qed (simp add: js_sort_def)

text \<open>
  Two sorted lists with the same elements are equal when no two different elements compare
  equal: the result of the sort does not depend on the order of its input.
\<close>

lemma sorted_wrt_unique:
  assumes "sorted_wrt R xs" and "sorted_wrt R ys" and "mset xs = mset ys"
    and "\<And>x y. x \<in> set xs \<Longrightarrow> y \<in> set xs \<Longrightarrow> R x y \<Longrightarrow> R y x \<Longrightarrow> x = y"
  shows "xs = ys"
  using assms
proof (induction xs arbitrary: ys)
  case Nil
  then show ?case by simp
next
  case (Cons x xs)
  then obtain y ys' where ys: "ys = y # ys'" by (cases ys) auto
  have sets: "insert x (set xs) = insert y (set ys')"
    using Cons.prems(3) unfolding ys by (metis list.simps(15) mset_eq_setD)
  have "x = y"
  proof (rule ccontr)
    assume "x \<noteq> y"
    with sets have "y \<in> set xs" "x \<in> set ys'" by auto
    with Cons.prems(1,2) have "R x y" "R y x" unfolding ys by auto
    with Cons.prems(4) \<open>y \<in> set xs\<close> \<open>x \<noteq> y\<close> show False by auto
  qed
  moreover have "xs = ys'"
  proof (rule Cons.IH)
    show "mset xs = mset ys'" using Cons.prems(3) \<open>x = y\<close> unfolding ys by simp
  qed (use Cons.prems ys in auto)
  ultimately show ?case by (simp add: ys)
qed

lemma js_sort_perm:
  assumes "consistent_on (set xs) cmp" and "mset xs = mset ys"
    and "\<And>x y. x \<in> set xs \<Longrightarrow> y \<in> set xs \<Longrightarrow> cmp x y \<le> 0 \<Longrightarrow> cmp y x \<le> 0 \<Longrightarrow> x = y"
  shows "js_sort cmp xs = js_sort cmp ys"
  using assms mset_eq_setD [OF assms(2)]
  by (intro sorted_wrt_unique [of "\<lambda>x y. cmp x y \<le> 0"]) (auto simp: sorted_js_sort)

section \<open>JSON values\<close>

text \<open>An object is its list of entries in \<open>Object.keys\<close> order; an absent key reads as \<^const>\<open>None\<close>.\<close>

datatype json =
    JNull
  | JBool bool
  | JNum jsnum
  | JStr string
  | JArr "json list"
  | JObj "(string \<times> json) list"

definition obj_get :: "(string \<times> json) list \<Rightarrow> string \<Rightarrow> json option" where
  "obj_get kvs k = map_of kvs k"

definition obj_keys :: "(string \<times> json) list \<Rightarrow> string list" where
  "obj_keys kvs = map fst kvs"

text \<open>Every object of the value has pairwise different keys, as any JavaScript object has.\<close>

fun json_wf :: "json \<Rightarrow> bool" where
  "json_wf (JArr xs) = list_all json_wf xs"
| "json_wf (JObj kvs) = (distinct (map fst kvs) \<and> list_all (\<lambda>kv. json_wf (snd kv)) kvs)"
| "json_wf _ = True"

section \<open>Lists\<close>

lemma find_SomeD: "List.find P xs = Some x \<Longrightarrow> x \<in> set xs \<and> P x"
  by (auto simp: find_Some_iff)

lemma find_unique:
  assumes "x \<in> set xs" and "P x" and "\<And>y. y \<in> set xs \<Longrightarrow> P y \<Longrightarrow> y = x"
  shows "List.find P xs = Some x"
proof (cases "List.find P xs")
  case None
  with assms(1,2) show ?thesis by (auto simp: find_None_iff)
next
  case (Some y)
  then have "y = x" by (blast dest: find_SomeD intro: assms(3))
  with Some show ?thesis by blast
qed

lemma find_by_key:
  "distinct (map f xs) \<Longrightarrow> x \<in> set xs \<Longrightarrow> List.find (\<lambda>y. f y = f x) xs = Some x"
proof (induction xs)
  case (Cons a xs)
  then show ?case by (cases "f a = f x") (auto simp: rev_image_eqI)
qed simp

lemma find_map_pair: "List.find P (map f xs) = map_option f (List.find (P \<circ> f) xs)"
  by (induction xs) auto

lemma those_map_Some: "those (map f xs) = Some ys \<longleftrightarrow> list_all2 (\<lambda>x y. f x = Some y) xs ys"
proof (induction xs arbitrary: ys)
  case (Cons x xs)
  then show ?case
    by (cases "f x"; cases "those (map f xs)"; cases ys) auto
qed auto

lemma those_map_None: "those (map f xs) = None \<longleftrightarrow> (\<exists>x\<in>set xs. f x = None)"
  by (induction xs) (auto split: option.splits)

lemma mset_eq_of_distinct:
  assumes "distinct xs" and "distinct ys" and "length xs = length ys" and "set ys \<subseteq> set xs"
  shows "mset xs = mset ys"
proof -
  have "card (set ys) = card (set xs)"
    using assms(1-3) by (simp add: distinct_card)
  with assms(4) have "set ys = set xs"
    by (intro card_subset_eq) auto
  with assms(1,2) show ?thesis by (metis set_eq_iff_mset_eq_distinct)
qed

lemma distinct_map_eqD:
  "distinct (map f xs) \<Longrightarrow> x \<in> set xs \<Longrightarrow> y \<in> set xs \<Longrightarrow> f x = f y \<Longrightarrow> x = y"
  by (auto simp: distinct_map dest: inj_onD)

lemma list_all2_in2: "list_all2 P xs ys \<Longrightarrow> y \<in> set ys \<Longrightarrow> \<exists>x\<in>set xs. P x y"
  by (induction rule: list_all2_induct) auto

lemma list_all2_in1: "list_all2 P xs ys \<Longrightarrow> x \<in> set xs \<Longrightarrow> \<exists>y\<in>set ys. P x y"
  by (induction rule: list_all2_induct) auto

section \<open>Tables\<close>

text \<open>
  A table of the database is the list of its rows in insertion order.  A transaction maps the
  state to an error or to a result with the next state; on an error the state is the one the
  transaction began with.
\<close>

definition in_transaction :: "('s \<Rightarrow> 'e + ('a \<times> 's)) \<Rightarrow> 's \<Rightarrow> ('e + 'a) \<times> 's" where
  "in_transaction f s = (case f s of Inl e \<Rightarrow> (Inl e, s) | Inr (a, s') \<Rightarrow> (Inr a, s'))"

lemma in_transaction_error: "in_transaction f s = (Inl e, s') \<Longrightarrow> s' = s"
  by (auto simp: in_transaction_def split: sum.splits prod.splits)

text \<open>
  \<open>manager.save(Entity, rows)\<close>: a row whose primary key is in the table updates that row
  (\<open>merge old new\<close> keeps the columns the save does not write), another is inserted; the same
  new key twice in one save violates the primary key.
\<close>

definition save_rows :: "('r \<Rightarrow> 'k) \<Rightarrow> ('r \<Rightarrow> 'r \<Rightarrow> 'r) \<Rightarrow> 'r list \<Rightarrow> 'r list \<Rightarrow> 'r list option" where
  "save_rows key merge rows table =
     (if distinct (map key rows)
      then Some (map (\<lambda>r. case List.find (\<lambda>n. key n = key r) rows of None \<Rightarrow> r | Some n \<Rightarrow> merge r n) table
                 @ filter (\<lambda>n. key n \<notin> set (map key table)) rows)
      else None)"

lemma save_rows_fresh:
  assumes "distinct (map key rows)" and "set (map key rows) \<inter> set (map key table) = {}"
  shows "save_rows key merge rows table = Some (table @ rows)"
proof -
  have "List.find (\<lambda>n. key n = key r) rows = None" if "r \<in> set table" for r
    using assms(2) that by (fastforce simp: find_None_iff)
  moreover have "filter (\<lambda>n. key n \<notin> set (map key table)) rows = rows"
    using assms(2) by (auto simp: filter_id_conv)
  ultimately show ?thesis
    using assms(1) by (simp add: save_rows_def map_idI)
qed

text \<open>The columns of type \<open>integer\<close> hold 32-bit values; \<open>length(btrim(x)) > 0\<close>.\<close>

definition fits_int4 :: "int \<Rightarrow> bool" where
  "fits_int4 n \<longleftrightarrow> - 2147483648 \<le> n \<and> n \<le> 2147483647"

definition nonblank :: "string \<Rightarrow> bool" where
  "nonblank s \<longleftrightarrow> list_ex (\<lambda>c. c \<noteq> CHR 0x20) s"

lemma js_trim_nonblank:
  assumes "js_trim s \<noteq> []"
  shows "nonblank s"
proof (rule ccontr)
  assume "\<not> nonblank s"
  then have "\<forall>c\<in>set s. is_ws c" by (auto simp: nonblank_def list_ex_iff is_ws_def)
  then have "dropWhile is_ws s = []" by simp
  with assms show False by (simp add: js_trim_def)
qed

lemma filter_none: "(\<And>x. x \<in> set xs \<Longrightarrow> \<not> P x) \<Longrightarrow> filter P xs = []"
  by simp

lemma filter_all: "(\<And>x. x \<in> set xs \<Longrightarrow> P x) \<Longrightarrow> filter P xs = xs"
  by simp

lemma find_append: "List.find P (xs @ ys) = (case List.find P xs of None \<Rightarrow> List.find P ys | Some x \<Rightarrow> Some x)"
  by (induction xs) auto

lemma find_NoneI: "(\<And>x. x \<in> set xs \<Longrightarrow> \<not> P x) \<Longrightarrow> List.find P xs = None"
  by (auto simp: find_None_iff)

lemma those_map_related:
  "list_all2 (\<lambda>x z. \<exists>y. f x = Some y \<and> t y = z \<and> P y) xs zs \<Longrightarrow>
     \<exists>ys. those (map f xs) = Some ys \<and> map t ys = zs \<and> (\<forall>y\<in>set ys. P y)"
proof (induction rule: list_all2_induct)
  case (Cons x xs z zs)
  then obtain y ys where "f x = Some y" "t y = z" "P y"
      "those (map f xs) = Some ys" "map t ys = zs" "\<forall>y\<in>set ys. P y" by blast
  then show ?case by (intro exI [of _ "y # ys"]) simp
qed simp

lemma insort_key_map_commute: "insort_key f (g x) (map g xs) = map g (insort_key (f \<circ> g) x xs)"
  by (induction xs) auto

lemma sort_key_map_commute: "sort_key f (map g xs) = map g (sort_key (f \<circ> g) xs)"
  by (induction xs) (simp_all add: insort_key_map_commute comp_def)

end
