(* ===== verification/DeterministicId.thy ===== *)
theory DeterministicId imports Prelude begin

text \<open>
  Deterministic identifiers: \<open>sha256\<close> and \<open>uuidFromSha256\<close> of
  \<open>app/src/modules/assessment/domain/deterministic-id.ts\<close>, and the second, independent routine
  \<open>deterministicUuid\<close> of \<open>app/src/modules/ai/chunk.service.ts\<close>.

  The digest itself is not code of the repository: every definition takes it as the argument
  \<open>dg\<close>, a function from strings to the 256 bits of the digest.  Nothing is assumed of it; where
  a fact needs that some strings do not collide, it says so with \<^const>\<open>inj_on\<close> on exactly these
  strings.
\<close>

section \<open>Definitions\<close>

type_synonym digest = "string \<Rightarrow> 256 word"

definition hex_char :: "nat \<Rightarrow> char" where
  "hex_char d = (if d < 10 then char_of (48 + d) else char_of (87 + d))"

definition hex_value :: "char \<Rightarrow> nat" where
  "hex_value c = (let n = (of_char c :: nat) in if n < 58 then n - 48 else n - 87)"

definition is_hex :: "char \<Rightarrow> bool" where
  "is_hex c = (let n = (of_char c :: nat) in 48 \<le> n \<and> n \<le> 57 \<or> 97 \<le> n \<and> n \<le> 102)"

definition nibble :: "'a::len word \<Rightarrow> nat \<Rightarrow> nat" where
  "nibble w i = unat (take_bit 4 (drop_bit (LENGTH('a) - 4 * (i + 1)) w))"

text \<open>\<open>digest('hex')\<close>: the bits four at a time, the most significant first.\<close>

definition to_hex :: "'a::len word \<Rightarrow> string" where
  "to_hex w = map (\<lambda>i. hex_char (nibble w i)) [0..<LENGTH('a) div 4]"

definition sha256 :: "digest \<Rightarrow> string \<Rightarrow> string" where
  "sha256 dg v = to_hex (dg v)"

datatype id_error = ExpectedSha256HexDigest

definition is_sha256_hex :: "string \<Rightarrow> bool" where
  "is_sha256_hex h \<longleftrightarrow> length h = 64 \<and> list_all is_hex h"

definition uuidFromSha256 :: "string \<Rightarrow> id_error + string" where
  "uuidFromSha256 h =
     (if \<not> is_sha256_hex h then Inl ExpectedSha256HexDigest
      else
        let variant = ''89ab'' ! (hex_value (h ! 16) mod 4)
        in Inr (slice 0 8 h @ ''-'' @ slice 8 12 h @ ''-5'' @ slice 13 16 h @ ''-'' @ [variant]
                @ slice 17 20 h @ ''-'' @ slice 20 32 h))"

text \<open>
  The call sites apply \<^const>\<open>uuidFromSha256\<close> to a digest, where its guard never throws
  (\<open>uuidFromSha256_sha256\<close> below), so they read the identifier off the normal branch.
\<close>

definition derived_uuid :: "digest \<Rightarrow> string \<Rightarrow> string" where
  "derived_uuid dg v = projr (uuidFromSha256 (sha256 dg v))"

text \<open>
  \<open>deterministicUuid\<close> of the chunk service: the first sixteen bytes of the digest, the version and
  variant bits overwritten in bytes 6 and 8, then printed as hexadecimal in five groups.
\<close>

definition digest_byte :: "256 word \<Rightarrow> nat \<Rightarrow> 8 word" where
  "digest_byte w i = ucast (drop_bit (8 * (31 - i)) w)"

definition deterministicUuid :: "digest \<Rightarrow> string \<Rightarrow> string" where
  "deterministicUuid dg v =
     (let bytes = map (digest_byte (dg v)) [0..<16];
          bytes6 = bytes[6 := or (and (bytes ! 6) 0x0f) 0x50];
          bytes8 = bytes6[8 := or (and (bytes6 ! 8) 0x3f) 0x80];
          hex = concat (map to_hex bytes8)
      in slice 0 8 hex @ ''-'' @ slice 8 12 hex @ ''-'' @ slice 12 16 hex @ ''-''
         @ slice 16 20 hex @ ''-'' @ slice 20 32 hex)"

section \<open>Hexadecimal digits\<close>

lemma nibble_less: "nibble (w :: 'a::len word) i < 16"
  using take_bit_nat_less_exp [of 4 "unat (drop_bit (LENGTH('a) - 4 * (i + 1)) w)"]
  by (simp add: nibble_def unsigned_take_bit_eq)

lemma hex_cases: "d < (16::nat) \<Longrightarrow> d \<in> {0,1,2,3,4,5,6,7,8,9,10,11,12,13,14,15}"
  unfolding insert_iff empty_iff by presburger

lemma is_hex_hex_char: "d < 16 \<Longrightarrow> is_hex (hex_char d)"
  by (drule hex_cases) (auto simp: is_hex_def hex_char_def)

lemma hex_value_hex_char: "d < 16 \<Longrightarrow> hex_value (hex_char d) = d"
  by (drule hex_cases) (auto simp: hex_value_def hex_char_def)

lemma hex_char_not_colon: "d < 16 \<Longrightarrow> hex_char d \<noteq> CHR '':''"
proof
  assume "d < 16" and "hex_char d = CHR '':''"
  then have "is_hex CHR '':''" by (metis is_hex_hex_char)
  then show False by (simp add: is_hex_def)
qed

lemma length_to_hex [simp]: "length (to_hex (w :: 'a::len word)) = LENGTH('a) div 4"
  by (simp add: to_hex_def)

lemma to_hex_is_sha256_hex: "is_sha256_hex (to_hex (w :: 256 word))"
  by (auto simp: is_sha256_hex_def to_hex_def list_all_iff intro: is_hex_hex_char nibble_less)

lemma uuidFromSha256_sha256: "uuidFromSha256 (sha256 dg v) = Inr (derived_uuid dg v)"
  using to_hex_is_sha256_hex [of "dg v"] by (simp add: derived_uuid_def uuidFromSha256_def sha256_def Let_def)

lemma to_hex_inj: "to_hex (v :: 256 word) = to_hex w \<Longrightarrow> v = w"
proof -
  assume "to_hex v = to_hex w"
  then have "hex_char (nibble v i) = hex_char (nibble w i)" if "i < 64" for i
    using that by (simp add: to_hex_def list_eq_iff_nth_eq)
  then have nib: "nibble v i = nibble w i" if "i < 64" for i
    using that by (metis hex_value_hex_char nibble_less)
  have len256: "LENGTH(256) = 256" by simp
  show "v = w"
  proof (rule bit_word_eqI)
    fix n
    assume "n < LENGTH(256)"
    then have n: "n < 256" by simp
    define i where "i = 63 - n div 4"
    have i: "i < 64" and pos: "256 - 4 * (i + 1) = 4 * (n div 4)"
      using n by (auto simp: i_def)
    have "take_bit 4 (drop_bit (4 * (n div 4)) v) = take_bit 4 (drop_bit (4 * (n div 4)) w)"
      using nib [OF i] pos unfolding nibble_def len256 by (simp only: word_unat_eq_iff)
    then have "bit (take_bit 4 (drop_bit (4 * (n div 4)) v)) (n mod 4)
        = bit (take_bit 4 (drop_bit (4 * (n div 4)) w)) (n mod 4)" by simp
    then show "bit v n = bit w n"
      by (simp add: bit_take_bit_iff bit_drop_bit_eq)
  qed
qed

lemma sha256_inj_on: "inj_on (sha256 dg) S \<longleftrightarrow> inj_on dg S"
  by (auto simp: inj_on_def sha256_def dest: to_hex_inj)

lemma sha256_eq_iff: "inj_on dg S \<Longrightarrow> a \<in> S \<Longrightarrow> b \<in> S \<Longrightarrow> sha256 dg a = sha256 dg b \<longleftrightarrow> a = b"
  by (metis inj_on_def sha256_inj_on)

section \<open>Shape of an identifier\<close>

text \<open>A version 5 UUID in its canonical lower-case form: \<open>x\<close> a digit, \<open>v\<close> the variant digit.\<close>

definition uuid5_position :: "char \<Rightarrow> char \<Rightarrow> bool" where
  "uuid5_position p c =
     (if p = CHR ''x'' then is_hex c else if p = CHR ''v'' then c \<in> set ''89ab'' else c = p)"

definition is_uuid5 :: "string \<Rightarrow> bool" where
  "is_uuid5 u \<longleftrightarrow> list_all2 uuid5_position ''xxxxxxxx-xxxx-5xxx-vxxx-xxxxxxxxxxxx'' u"

lemma length_derived_uuid: "length (derived_uuid dg v) = 36"
  using to_hex_is_sha256_hex [of "dg v"]
  by (simp add: derived_uuid_def sha256_def uuidFromSha256_def is_sha256_hex_def slice_def Let_def)

lemma colon_not_in_derived_uuid: "CHR '':'' \<notin> set (derived_uuid dg v)"
proof
  have hex: "CHR '':'' \<notin> set (to_hex (dg v))"
    by (auto simp: to_hex_def) (metis hex_char_not_colon nibble_less)
  have var: "''89ab'' ! (k mod 4) \<noteq> CHR '':''" for k :: nat
  proof -
    have "k mod 4 < 4" by simp
    then have "k mod 4 \<in> {0, 1, 2, 3}" by auto
    then show ?thesis by auto
  qed
  assume "CHR '':'' \<in> set (derived_uuid dg v)"
  then show False
    using hex var [of "hex_value (to_hex (dg v) ! 16)"] to_hex_is_sha256_hex [of "dg v"]
    by (auto simp: derived_uuid_def sha256_def uuidFromSha256_def slice_def Let_def
        dest!: in_set_takeD in_set_dropD)
qed

section \<open>The two routines agree\<close>

lemma nibble_byte:
  assumes "i < 32"
  shows "nibble (digest_byte w i) 0 = nibble w (2 * i)" "nibble (digest_byte w i) (Suc 0) = nibble w (2 * i + 1)"
proof -
  have "take_bit 4 (drop_bit 4 (ucast (drop_bit (8 * (31 - i)) w) :: 8 word))
      = (ucast (take_bit 4 (drop_bit (256 - 4 * (2 * i + 1)) w)) :: 8 word)"
    using assms by (intro bit_word_eqI)
      (auto simp: bit_simps algebra_simps intro!: arg_cong [of _ _ "bit w"])
  moreover have "take_bit 4 (ucast (drop_bit (8 * (31 - i)) w) :: 8 word)
      = (ucast (take_bit 4 (drop_bit (256 - 4 * (2 * i + 2)) w)) :: 8 word)"
    using assms by (intro bit_word_eqI)
      (auto simp: bit_simps algebra_simps intro!: arg_cong [of _ _ "bit w"])
  moreover have "unat (ucast (take_bit 4 x) :: 8 word) = unat (take_bit 4 x)" for x :: "256 word"
    by (simp add: unsigned_ucast_eq unsigned_take_bit_eq)
  ultimately show "nibble (digest_byte w i) 0 = nibble w (2 * i)"
      "nibble (digest_byte w i) (Suc 0) = nibble w (2 * i + 1)"
    by (simp_all add: nibble_def digest_byte_def)
qed

lemma to_hex_byte: "to_hex (b :: 8 word) = [hex_char (nibble b 0), hex_char (nibble b (Suc 0))]"
  by (simp add: to_hex_def upt_rec)

lemma version_byte:
  "nibble (or (and b 0x0f) 0x50 :: 8 word) 0 = 5"
  "nibble (or (and b 0x0f) 0x50 :: 8 word) (Suc 0) = nibble b (Suc 0)"
proof -
  have "take_bit 4 (drop_bit 4 (or (and b 0x0f) 0x50)) = (5 :: 8 word)"
    by (simp add: drop_bit_and drop_bit_or take_bit_and take_bit_or)
  moreover have "take_bit 4 (or (and b 0x0f) 0x50) = (take_bit 4 b :: 8 word)"
    by (simp add: take_bit_eq_mask and.assoc bit.conj_disj_distrib2 mask_eq_exp_minus_1)
  ultimately show "nibble (or (and b 0x0f) 0x50 :: 8 word) 0 = 5"
      "nibble (or (and b 0x0f) 0x50 :: 8 word) (Suc 0) = nibble b (Suc 0)"
    by (simp_all add: nibble_def)
qed

lemma variant_byte:
  "nibble (or (and b 0x3f) 0x80 :: 8 word) 0 = nibble b 0 mod 4 + 8"
  "nibble (or (and b 0x3f) 0x80 :: 8 word) (Suc 0) = nibble b (Suc 0)"
proof -
  have hi: "take_bit 4 (drop_bit 4 (or (and b 0x3f) 0x80)) = or (and (take_bit 4 (drop_bit 4 b)) 3) (8 :: 8 word)"
    by (simp add: drop_bit_and drop_bit_or take_bit_and take_bit_or)
  define d where "d = nibble b 0"
  have "d < 16" by (simp add: d_def nibble_less)
  moreover have "take_bit 4 (drop_bit 4 b) = (of_nat d :: 8 word)"
    by (simp add: d_def nibble_def)
  ultimately show "nibble (or (and b 0x3f) 0x80 :: 8 word) 0 = nibble b 0 mod 4 + 8"
    using hi unfolding d_def [symmetric] by (drule_tac hex_cases) (auto simp: nibble_def)
  have "take_bit 4 (or (and b 0x3f) 0x80) = (take_bit 4 b :: 8 word)"
    by (simp add: take_bit_eq_mask and.assoc bit.conj_disj_distrib2 mask_eq_exp_minus_1)
  then show "nibble (or (and b 0x3f) 0x80 :: 8 word) (Suc 0) = nibble b (Suc 0)"
    by (simp add: nibble_def)
qed

lemma variant_char: "''89ab'' ! (d mod 4) = hex_char (d mod 4 + 8)"
proof -
  have "hex_char (k + 8) = ''89ab'' ! k" if "k \<in> {0, 1, 2, 3}" for k :: nat
    using that by (auto simp: hex_char_def char_of_eq_iff take_bit_eq_mod)
  moreover have "d mod 4 \<in> {0, 1, 2, 3}"
    by auto
  ultimately show ?thesis by metis
qed

lemma hex_char_5: "hex_char 5 = CHR ''5''"
  by (simp add: hex_char_def char_of_eq_iff take_bit_eq_mod)

lemma upt_16: "[0..<16] = [0,1,2,3,4,5,6,7,8,9,10,11,12,13,14,15::nat]"
  by (simp add: upt_rec)

lemma upt_32: "[0..<32] = [0,1,2,3,4,5,6,7,8,9,10,11,12,13,14,15,16,17,18,19,20,21,22,23,24,25,26,27,28,29,30,31::nat]"
  by (simp add: upt_rec)

lemma upt_64: "[0..<64] = [0..<32] @ [32..<64::nat]"
  using upt_add_eq_append [of 0 32 32] by simp

definition uuid_chars :: "(nat \<Rightarrow> nat) \<Rightarrow> string" where
  "uuid_chars n =
     map (hex_char \<circ> n) [0,1,2,3,4,5,6,7] @ ''-'' @ map (hex_char \<circ> n) [8,9,10,11] @ ''-5''
     @ map (hex_char \<circ> n) [13,14,15] @ ''-'' @ [hex_char (n 16 mod 4 + 8)] @ map (hex_char \<circ> n) [17,18,19]
     @ ''-'' @ map (hex_char \<circ> n) [20,21,22,23,24,25,26,27,28,29,30,31]"

lemma deterministicUuid_chars: "deterministicUuid dg v = uuid_chars (nibble (dg v))"
proof -
  define n where "n = nibble (dg v)"
  have bytes: "to_hex (digest_byte (dg v) i) = [hex_char (n (2 * i)), hex_char (n (2 * i + 1))]" if "i < 32" for i
    using that by (simp only: to_hex_byte nibble_byte n_def)
  have b6: "to_hex (or (and (digest_byte (dg v) 6) 0x0f) 0x50) = [CHR ''5'', hex_char (n 13)]"
    by (simp add: to_hex_byte version_byte nibble_byte n_def hex_char_5)
  have b8: "to_hex (or (and (digest_byte (dg v) 8) 0x3f) 0x80) = [hex_char (n 16 mod 4 + 8), hex_char (n 17)]"
    by (simp add: to_hex_byte variant_byte nibble_byte n_def)
  show ?thesis
    by (simp add: deterministicUuid_def upt_16 Let_def b6 b8 bytes slice_def uuid_chars_def n_def [symmetric])
qed

lemma derived_uuid_chars: "derived_uuid dg v = uuid_chars (nibble (dg v))"
proof -
  define n where "n = nibble (dg v)"
  have n: "n i < 16" for i by (simp add: n_def nibble_less)
  have "map f [0..<64] = map f [0,1,2,3,4,5,6,7] @ map f [8,9,10,11] @ f 12 # map f [13,14,15] @ f 16
      # map f [17,18,19] @ map f [20,21,22,23,24,25,26,27,28,29,30,31] @ map f [32..<64]" for f :: "nat \<Rightarrow> char"
    unfolding upt_64 upt_32 by simp
  then show ?thesis
    using to_hex_is_sha256_hex [of "dg v"] n [of 16]
    by (simp add: derived_uuid_def sha256_def uuidFromSha256_def Let_def to_hex_def slice_def n_def [symmetric]
        hex_value_hex_char variant_char uuid_chars_def)
qed

lemma variant_char_mem: "hex_char (d mod 4 + 8) \<in> set ''89ab''"
  unfolding variant_char [symmetric] by (rule nth_mem) simp

lemma is_uuid5_chars: "(\<And>i. n i < 16) \<Longrightarrow> is_uuid5 (uuid_chars n)"
  using variant_char_mem [of "n 16"]
  by (simp add: is_uuid5_def uuid_chars_def uuid5_position_def is_hex_hex_char)

text \<open>The two routines that derive an identifier from a digest, the one of the assessment
  module that slices the hexadecimal digest and the one of the chunk service that patches the
  version and variant bits of the first sixteen bytes, give the same identifier for every
  string; it is a well-formed version 5 UUID, and the guard of \<open>uuidFromSha256\<close> never throws on
  a digest.\<close>

theorem uuid_routines_agree:
  "uuidFromSha256 (sha256 dg v) = Inr (deterministicUuid dg v) \<and> is_uuid5 (deterministicUuid dg v)"
  by (metis uuidFromSha256_sha256 derived_uuid_chars deterministicUuid_chars is_uuid5_chars nibble_less)

end
