(* ===== verification/QuizDomain.thy ===== *)
theory QuizDomain imports DeterministicId begin

text \<open>
  The quiz aggregate: \<open>Question.create\<close> (\<open>domain/question.ts\<close>), \<open>Quiz.create\<close>
  (\<open>domain/quiz.ts\<close>) and the errors of \<open>domain/assessment.error.ts\<close>, over the handoff types of
  \<open>contracts/quiz-generation-handoff.contract.ts\<close>.  A rejected candidate is \<^const>\<open>None\<close>, a
  rejected handoff an \<open>AssessmentError\<close> on the left of the sum.  \<open>lc\<close> stands for
  \<open>localeCompare\<close>, \<open>dg\<close> for the digest.
\<close>

section \<open>Data\<close>

datatype citation_locator =
    PageLocator jsnum
  | TextRangeLocator jsnum jsnum
  | TimeLocator jsnum jsnum
  | MalformedLocator

text \<open>\<^const>\<open>MalformedLocator\<close> is any stored or received object outside the declared union.\<close>

record citation =
  cit_chunkId :: string
  cit_locator :: citation_locator
  cit_snippet :: string

record option_candidate =
  oc_content :: string
  oc_isCorrect :: bool

record question_candidate =
  qc_chunkId :: string
  qc_chunkIndex :: jsnum
  qc_ordinal :: jsnum
  qc_stem :: string
  qc_explanation :: string
  qc_options :: "option_candidate list"
  qc_citation :: citation

record quiz_handoff =
  h_documentId :: string
  h_ownerId :: string
  h_promptVersion :: string
  h_minimumQuestionCount :: jsnum
  h_questions :: "question_candidate list"

record question_option =
  opt_content :: string
  opt_id :: string
  opt_isCorrect :: bool
  opt_optionIndex :: nat

text \<open>The indices of an accepted question passed \<open>Number.isSafeInteger\<close>: they are integers.\<close>

record question =
  qu_chunkId :: string
  qu_chunkIndex :: int
  qu_citation :: citation
  qu_explanation :: string
  qu_id :: string
  qu_idempotencyKey :: string
  qu_normalizedStem :: string
  qu_options :: "question_option list"
  qu_ordinal :: int
  qu_stem :: string

record quiz =
  qz_documentId :: string
  qz_id :: string
  qz_idempotencyKey :: string
  qz_ownerId :: string
  qz_promptVersion :: string
  qz_questions :: "question list"

datatype assessment_error_code = IDEMPOTENCY_OWNER_CONFLICT | INSUFFICIENT_VALID_QUESTIONS

datatype assessment_error =
  AssessmentError (ae_code: assessment_error_code) (ae_accepted: "nat option") (ae_total: "nat option")

section \<open>Question\<close>

fun isValidLocator :: "citation_locator \<Rightarrow> bool" where
  "isValidLocator (PageLocator page) = (js_is_integer page \<and> js_less (JFin 0) page)"
| "isValidLocator (TextRangeLocator start end') =
     (js_is_integer start \<and> js_less_eq (JFin 0) start \<and> js_is_integer end' \<and> js_less start end')"
| "isValidLocator (TimeLocator startSec endSec) =
     (js_is_finite startSec \<and> js_less_eq (JFin 0) startSec \<and> js_is_finite endSec
      \<and> js_less_eq startSec endSec)"
| "isValidLocator MalformedLocator = False"

definition normalize_text :: "string \<Rightarrow> string" where
  "normalize_text v = js_lower (collapse_ws (js_trim v))"

definition question_key :: "digest \<Rightarrow> string \<Rightarrow> string \<Rightarrow> int \<Rightarrow> string" where
  "question_key dg quizId chunkId ordinal =
     sha256 dg (quizId @ '':'' @ chunkId @ '':'' @ int_str ordinal)"

definition option_uuid :: "digest \<Rightarrow> string \<Rightarrow> nat \<Rightarrow> string" where
  "option_uuid dg questionId optionIndex = derived_uuid dg (questionId @ '':'' @ nat_str optionIndex)"

text \<open>
  The guard of \<open>Question.create\<close>, negated: the conditions under which a candidate is kept.
  \<open>contents\<close> are the trimmed contents of the options.
\<close>

definition acceptable :: "question_candidate \<Rightarrow> string list \<Rightarrow> bool" where
  "acceptable c contents \<longleftrightarrow>
     js_trim (qc_stem c) \<noteq> [] \<and>
     js_trim (qc_explanation c) \<noteq> [] \<and>
     js_trim (cit_snippet (qc_citation c)) \<noteq> [] \<and>
     cit_chunkId (qc_citation c) = qc_chunkId c \<and>
     isValidLocator (cit_locator (qc_citation c)) \<and>
     js_is_safe_integer (qc_chunkIndex c) \<and> \<not> js_less (qc_chunkIndex c) (JFin 0) \<and>
     js_is_safe_integer (qc_ordinal c) \<and> \<not> js_less (qc_ordinal c) (JFin 0) \<and>
     \<not> length contents < 2 \<and>
     \<not> list_ex (\<lambda>content. content = []) contents \<and>
     card (set (map normalize_text contents)) = length contents \<and>
     length (filter oc_isCorrect (qc_options c)) = 1"

text \<open>
  The source computes the key before the guard, from whatever number the ordinal is; it is only
  used behind the guard, where the ordinal is an integer.
\<close>

definition question_of :: "digest \<Rightarrow> question_candidate \<Rightarrow> string \<Rightarrow> question" where
  "question_of dg c quizId =
     (let key = question_key dg quizId (qc_chunkId c) (js_to_int (qc_ordinal c));
          id = projr (uuidFromSha256 key)
      in \<lparr>qu_chunkId = qc_chunkId c,
          qu_chunkIndex = js_to_int (qc_chunkIndex c),
          qu_citation = (qc_citation c)\<lparr>cit_snippet := js_trim (cit_snippet (qc_citation c))\<rparr>,
          qu_explanation = js_trim (qc_explanation c),
          qu_id = id,
          qu_idempotencyKey = key,
          qu_normalizedStem = normalize_text (js_trim (qc_stem c)),
          qu_options = map (\<lambda>(i, p). \<lparr>opt_content = js_trim (oc_content p),
                                      opt_id = option_uuid dg id i,
                                      opt_isCorrect = oc_isCorrect p,
                                      opt_optionIndex = i\<rparr>)
                         (enumerate 0 (qc_options c)),
          qu_ordinal = js_to_int (qc_ordinal c),
          qu_stem = js_trim (qc_stem c)\<rparr>)"

definition Question_create :: "digest \<Rightarrow> question_candidate \<Rightarrow> string \<Rightarrow> question option" where
  "Question_create dg c quizId =
     (if \<not> acceptable c (map (\<lambda>p. js_trim (oc_content p)) (qc_options c)) then None
      else Some (question_of dg c quizId))"

section \<open>Quiz\<close>

text \<open>Each \<open>||\<close> falls through on a zero or NaN difference.\<close>

definition compareCandidates ::
  "(string \<Rightarrow> string \<Rightarrow> int) \<Rightarrow> question_candidate \<Rightarrow> question_candidate \<Rightarrow> int" where
  "compareCandidates lc left right =
     (let byIndex = js_diff_sign (qc_chunkIndex left) (qc_chunkIndex right);
          byOrdinal = js_diff_sign (qc_ordinal left) (qc_ordinal right);
          byChunk = lc (qc_chunkId left) (qc_chunkId right)
      in if byIndex \<noteq> 0 then byIndex
         else if byOrdinal \<noteq> 0 then byOrdinal
         else if byChunk \<noteq> 0 then byChunk
         else lc (qc_stem left) (qc_stem right))"

text \<open>The loop over the sorted candidates, its two sets and the accepted questions.\<close>

definition with_ordinal :: "nat \<Rightarrow> question_candidate \<Rightarrow> question_candidate" where
  "with_ordinal n c = c\<lparr>qc_ordinal := JFin (of_nat n)\<rparr>"

fun collect_questions ::
  "digest \<Rightarrow> string \<Rightarrow> question_candidate list \<Rightarrow> string set \<Rightarrow> string set \<Rightarrow> question list \<Rightarrow> question list"
where
  "collect_questions dg quizId [] stems keys questions = questions"
| "collect_questions dg quizId (c # cs) stems keys questions =
     (case Question_create dg c quizId of
        None \<Rightarrow> collect_questions dg quizId cs stems keys questions
      | Some q \<Rightarrow>
          if qu_normalizedStem q \<in> stems \<or> qu_idempotencyKey q \<in> keys
          then collect_questions dg quizId cs stems keys questions
          else
            collect_questions dg quizId cs
              (insert (qu_normalizedStem q) stems) (insert (qu_idempotencyKey q) keys)
              (case Question_create dg (with_ordinal (length questions) c) quizId of
                 None \<Rightarrow> questions
               | Some compacted \<Rightarrow> questions @ [compacted]))"

definition quiz_key :: "digest \<Rightarrow> quiz_handoff \<Rightarrow> string" where
  "quiz_key dg h = sha256 dg (h_documentId h @ '':'' @ h_promptVersion h)"

definition accepted_questions ::
  "digest \<Rightarrow> (string \<Rightarrow> string \<Rightarrow> int) \<Rightarrow> quiz_handoff \<Rightarrow> question list" where
  "accepted_questions dg lc h =
     collect_questions dg (projr (uuidFromSha256 (quiz_key dg h)))
       (js_sort (compareCandidates lc) (h_questions h)) {} {} []"

definition Quiz_create ::
  "digest \<Rightarrow> (string \<Rightarrow> string \<Rightarrow> int) \<Rightarrow> quiz_handoff \<Rightarrow> assessment_error + quiz" where
  "Quiz_create dg lc h =
     (let key = quiz_key dg h;
          questions = accepted_questions dg lc h
      in if \<not> js_is_safe_integer (h_minimumQuestionCount h)
            \<or> js_less (h_minimumQuestionCount h) (JFin 1)
            \<or> js_less (JFin (of_nat (length questions))) (h_minimumQuestionCount h)
         then Inl (AssessmentError INSUFFICIENT_VALID_QUESTIONS
                     (Some (length questions)) (Some (length (h_questions h))))
         else Inr \<lparr>qz_documentId = h_documentId h,
                   qz_id = projr (uuidFromSha256 key),
                   qz_idempotencyKey = key,
                   qz_ownerId = h_ownerId h,
                   qz_promptVersion = h_promptVersion h,
                   qz_questions = questions\<rparr>)"

section \<open>What an accepted question guarantees\<close>

definition trimmed :: "string \<Rightarrow> bool" where
  "trimmed s \<longleftrightarrow> s \<noteq> [] \<and> js_trim s = s"

definition mcq_wf :: "question \<Rightarrow> bool" where
  "mcq_wf q \<longleftrightarrow>
     trimmed (qu_stem q) \<and> trimmed (qu_explanation q) \<and> trimmed (cit_snippet (qu_citation q)) \<and>
     cit_chunkId (qu_citation q) = qu_chunkId q \<and> isValidLocator (cit_locator (qu_citation q)) \<and>
     0 \<le> qu_chunkIndex q \<and> qu_chunkIndex q \<le> max_safe_integer \<and>
     2 \<le> length (qu_options q) \<and>
     list_all trimmed (map opt_content (qu_options q)) \<and>
     distinct (map (normalize_text \<circ> opt_content) (qu_options q)) \<and>
     length (filter opt_isCorrect (qu_options q)) = 1 \<and>
     map opt_optionIndex (qu_options q) = [0..<length (qu_options q)] \<and>
     qu_normalizedStem q = normalize_text (qu_stem q)"

definition ids_derived :: "digest \<Rightarrow> string \<Rightarrow> question \<Rightarrow> bool" where
  "ids_derived dg quizId q \<longleftrightarrow>
     qu_idempotencyKey q = question_key dg quizId (qu_chunkId q) (qu_ordinal q) \<and>
     qu_id q = derived_uuid dg (quizId @ '':'' @ qu_chunkId q @ '':'' @ int_str (qu_ordinal q)) \<and>
     map opt_id (qu_options q) = map (option_uuid dg (qu_id q)) [0..<length (qu_options q)]"

lemma map_enumerate_cong:
  "map (\<lambda>(i, x). f i x) (enumerate n xs) = map2 f [n..<n + length xs] xs"
  by (simp add: enumerate_eq_zip)

lemma map_opt_fields:
  defines "mk \<equiv> (\<lambda>dg id (i, p). \<lparr>opt_content = js_trim (oc_content p), opt_id = option_uuid dg id i,
      opt_isCorrect = oc_isCorrect p, opt_optionIndex = i\<rparr>)"
  shows "map opt_content (map (mk dg qid) (enumerate n ps)) = map (\<lambda>p. js_trim (oc_content p)) ps"
    and "map opt_optionIndex (map (mk dg qid) (enumerate n ps)) = [n..<n + length ps]"
    and "map opt_id (map (mk dg qid) (enumerate n ps)) = map (option_uuid dg qid) [n..<n + length ps]"
    and "length (filter opt_isCorrect (map (mk dg qid) (enumerate n ps))) = length (filter oc_isCorrect ps)"
  unfolding mk_def by (induction ps arbitrary: n) (auto simp: upt_conv_Cons simp del: upt_Suc)

lemma question_key_uuid:
  "projr (uuidFromSha256 (question_key dg qid cid n)) = derived_uuid dg (qid @ '':'' @ cid @ '':'' @ int_str n)"
  by (simp add: question_key_def derived_uuid_def)

lemma js_nonneg_safe:
  "js_is_safe_integer x \<Longrightarrow> \<not> js_less x (JFin 0) \<Longrightarrow> 0 \<le> js_to_int x \<and> js_to_int x \<le> max_safe_integer"
  by (cases x) (auto simp: not_less)

lemma question_of_simps [simp]:
  "qu_chunkId (question_of dg c qid) = qc_chunkId c"
  "qu_chunkIndex (question_of dg c qid) = js_to_int (qc_chunkIndex c)"
  "qu_ordinal (question_of dg c qid) = js_to_int (qc_ordinal c)"
  "qu_normalizedStem (question_of dg c qid) = normalize_text (js_trim (qc_stem c))"
  "qu_idempotencyKey (question_of dg c qid) = question_key dg qid (qc_chunkId c) (js_to_int (qc_ordinal c))"
  "qu_id (question_of dg c qid) = derived_uuid dg (qid @ '':'' @ qc_chunkId c @ '':'' @ int_str (js_to_int (qc_ordinal c)))"
  "length (qu_options (question_of dg c qid)) = length (qc_options c)"
  by (simp_all add: question_of_def Let_def question_key_uuid)

lemma question_of_options:
  "map opt_content (qu_options (question_of dg c qid)) = map (\<lambda>p. js_trim (oc_content p)) (qc_options c)"
  "map opt_optionIndex (qu_options (question_of dg c qid)) = [0..<length (qc_options c)]"
  "map opt_id (qu_options (question_of dg c qid)) =
     map (option_uuid dg (qu_id (question_of dg c qid))) [0..<length (qc_options c)]"
  "length (filter opt_isCorrect (qu_options (question_of dg c qid))) = length (filter oc_isCorrect (qc_options c))"
  using map_opt_fields [of dg _ 0 "qc_options c"] by (simp_all add: question_of_def Let_def)

lemma Question_create_Some:
  "Question_create dg c qid = Some q \<longleftrightarrow>
     acceptable c (map (\<lambda>p. js_trim (oc_content p)) (qc_options c)) \<and> q = question_of dg c qid"
  by (auto simp: Question_create_def)

lemma ids_derived_question_of: "ids_derived dg qid (question_of dg c qid)"
  by (simp add: ids_derived_def question_of_options)

lemma mcq_wf_question_of:
  assumes acc: "acceptable c (map (\<lambda>p. js_trim (oc_content p)) (qc_options c))"
  shows "mcq_wf (question_of dg c qid)"
proof -
  let ?q = "question_of dg c qid"
  have "distinct (map normalize_text (map opt_content (qu_options ?q)))"
    using acc unfolding acceptable_def question_of_options by (intro card_distinct) simp
  then have "distinct (map (normalize_text \<circ> opt_content) (qu_options ?q))"
    by simp
  moreover have "list_all trimmed (map opt_content (qu_options ?q))"
    using acc unfolding question_of_options by (force simp: acceptable_def list_ex_iff list_all_iff trimmed_def)
  moreover have "0 \<le> qu_chunkIndex ?q \<and> qu_chunkIndex ?q \<le> max_safe_integer"
    using acc js_nonneg_safe by (simp add: acceptable_def)
  moreover have "length (filter opt_isCorrect (qu_options ?q)) = 1"
    using acc by (simp add: acceptable_def question_of_options)
  moreover have "qu_stem ?q = js_trim (qc_stem c)" "qu_explanation ?q = js_trim (qc_explanation c)"
      "qu_citation ?q = (qc_citation c)\<lparr>cit_snippet := js_trim (cit_snippet (qc_citation c))\<rparr>"
    by (simp_all add: question_of_def Let_def)
  ultimately show ?thesis
    using acc by (auto simp: mcq_wf_def acceptable_def question_of_options trimmed_def)
qed

lemma acceptable_with_ordinal:
  "acceptable c contents \<Longrightarrow> int n \<le> max_safe_integer \<Longrightarrow> acceptable (with_ordinal n c) contents"
  using js_safe_of_int [of "int n"] by (simp add: acceptable_def with_ordinal_def)

lemma with_ordinal_simps [simp]:
  "qc_options (with_ordinal n c) = qc_options c" "qc_stem (with_ordinal n c) = qc_stem c"
  "qc_chunkId (with_ordinal n c) = qc_chunkId c" "qc_chunkIndex (with_ordinal n c) = qc_chunkIndex c"
  "qc_citation (with_ordinal n c) = qc_citation c" "qc_explanation (with_ordinal n c) = qc_explanation c"
  "js_to_int (qc_ordinal (with_ordinal n c)) = int n"
proof -
  have "\<lfloor>rat_of_nat n\<rfloor> = int n" by (metis floor_of_int of_int_of_nat_eq)
  then show "js_to_int (qc_ordinal (with_ordinal n c)) = int n" by (simp add: with_ordinal_def)
qed (simp_all add: with_ordinal_def)

section \<open>The loop of the quiz\<close>

definition quiz_questions_wf :: "digest \<Rightarrow> string \<Rightarrow> question list \<Rightarrow> bool" where
  "quiz_questions_wf dg quizId qs \<longleftrightarrow>
     (\<forall>q\<in>set qs. mcq_wf q \<and> ids_derived dg quizId q) \<and>
     map qu_ordinal qs = map int [0..<length qs] \<and>
     distinct (map qu_normalizedStem qs)"

lemma quiz_questions_wf_snoc:
  assumes "quiz_questions_wf dg qid qs" and "mcq_wf q" and "ids_derived dg qid q"
    and "qu_ordinal q = int (length qs)" and "qu_normalizedStem q \<notin> set (map qu_normalizedStem qs)"
  shows "quiz_questions_wf dg qid (qs @ [q])"
  using assms by (auto simp: quiz_questions_wf_def)

lemma collect_questions_wf:
  assumes "quiz_questions_wf dg qid qs" and "set (map qu_normalizedStem qs) \<subseteq> stems"
  shows "quiz_questions_wf dg qid (collect_questions dg qid cs stems keys qs)"
  using assms
proof (induction cs arbitrary: stems keys qs)
  case (Cons c cs)
  show ?case
  proof (cases "Question_create dg c qid")
    case None
    with Cons show ?thesis by simp
  next
    case (Some q)
    then have q: "q = question_of dg c qid" by (simp add: Question_create_Some)
    let ?c = "with_ordinal (length qs) c"
    let ?qs = "case Question_create dg ?c qid of None \<Rightarrow> qs | Some x \<Rightarrow> qs @ [x]"
    show ?thesis
    proof (cases "qu_normalizedStem q \<in> stems \<or> qu_idempotencyKey q \<in> keys")
      case True
      with Cons Some show ?thesis by simp
    next
      case False
      have "quiz_questions_wf dg qid ?qs \<and> set (map qu_normalizedStem ?qs) \<subseteq> insert (qu_normalizedStem q) stems"
      proof (cases "Question_create dg ?c qid")
        case (Some x)
        then have "x = question_of dg ?c qid" "mcq_wf x" "ids_derived dg qid x"
          by (auto simp: Question_create_Some ids_derived_question_of intro!: mcq_wf_question_of)
        moreover have "qu_normalizedStem x \<notin> set (map qu_normalizedStem qs)"
          using False Cons.prems(2) \<open>x = _\<close> by (auto simp: q)
        ultimately show ?thesis
          using Cons.prems Some by (auto simp: q intro!: quiz_questions_wf_snoc)
      qed (use Cons.prems in auto)
      with False Some show ?thesis by (simp add: Cons.IH)
    qed
  qed
qed simp

lemma collect_questions_prefix:
  "\<exists>zs. collect_questions dg qid cs stems keys qs = qs @ zs \<and> length zs \<le> length cs"
proof (induction cs arbitrary: stems keys qs)
  case (Cons c cs)
  show ?case
  proof (cases "Question_create dg c qid")
    case (Some q)
    show ?thesis
      using Cons.IH [of stems keys qs]
        Cons.IH [of "insert (qu_normalizedStem q) stems" "insert (qu_idempotencyKey q) keys" qs]
        Cons.IH [of "insert (qu_normalizedStem q) stems" "insert (qu_idempotencyKey q) keys"
          "qs @ [x]" for x]
      by (auto simp: Some split: option.split) (fastforce intro: le_SucI)+
  qed (use Cons.IH [of stems keys qs] in \<open>auto intro: le_SucI\<close>)
qed simp

text \<open>
  Which candidates are kept: walking the sorted list, a valid candidate is kept unless an
  earlier kept one has its normalised stem or its key.  \<open>kept\<close> gives the kept candidates; the
  loop turns the \<open>i\<close>-th of them into the question with ordinal \<open>i\<close>.
\<close>

definition clashes :: "digest \<Rightarrow> string \<Rightarrow> question_candidate \<Rightarrow> question_candidate \<Rightarrow> bool" where
  "clashes dg quizId c d \<longleftrightarrow>
     normalize_text (js_trim (qc_stem c)) = normalize_text (js_trim (qc_stem d)) \<or>
     question_key dg quizId (qc_chunkId c) (js_to_int (qc_ordinal c))
       = question_key dg quizId (qc_chunkId d) (js_to_int (qc_ordinal d))"

fun kept :: "digest \<Rightarrow> string \<Rightarrow> question_candidate list \<Rightarrow> question_candidate list \<Rightarrow> question_candidate list" where
  "kept dg quizId acc [] = acc"
| "kept dg quizId acc (c # cs) =
     kept dg quizId
       (if Question_create dg c quizId \<noteq> None \<and> list_all (\<lambda>d. \<not> clashes dg quizId c d) acc
        then acc @ [c] else acc) cs"

lemma collect_questions_kept:
  assumes "int (length acc + length cs) \<le> max_safe_integer"
    and "stems = set (map (\<lambda>d. normalize_text (js_trim (qc_stem d))) acc)"
    and "keys = set (map (\<lambda>d. question_key dg qid (qc_chunkId d) (js_to_int (qc_ordinal d))) acc)"
    and "qs = map (\<lambda>(i, d). question_of dg (with_ordinal i d) qid) (enumerate 0 acc)"
  shows "collect_questions dg qid cs stems keys qs =
    map (\<lambda>(i, d). question_of dg (with_ordinal i d) qid) (enumerate 0 (kept dg qid acc cs))"
  using assms
proof (induction cs arbitrary: acc stems keys qs)
  case (Cons c cs)
  show ?case
  proof (cases "Question_create dg c qid")
    case None
    with Cons show ?thesis by simp
  next
    case (Some q)
    then have q: "q = question_of dg c qid"
      and acc: "acceptable c (map (\<lambda>p. js_trim (oc_content p)) (qc_options c))"
      by (simp_all add: Question_create_Some)
    have new: "(qu_normalizedStem q \<in> stems \<or> qu_idempotencyKey q \<in> keys)
        \<longleftrightarrow> \<not> list_all (\<lambda>d. \<not> clashes dg qid c d) acc"
      using Cons.prems(2,3) by (auto simp: q list_all_iff clashes_def image_iff)
    have "length qs = length acc"
      using Cons.prems(4) by simp
    then have compacted: "Question_create dg (with_ordinal (length qs) c) qid
        = Some (question_of dg (with_ordinal (length acc) c) qid)"
      using acc Cons.prems(1) by (simp add: Question_create_Some acceptable_with_ordinal)
    show ?thesis
    proof (cases "qu_normalizedStem q \<in> stems \<or> qu_idempotencyKey q \<in> keys")
      case True
      with Cons.prems new Some show ?thesis by (auto intro!: Cons.IH)
    next
      case False
      have "collect_questions dg qid cs (insert (qu_normalizedStem q) stems) (insert (qu_idempotencyKey q) keys)
          (qs @ [question_of dg (with_ordinal (length acc) c) qid]) =
        map (\<lambda>(i, d). question_of dg (with_ordinal i d) qid) (enumerate 0 (kept dg qid (acc @ [c]) cs))"
        using Cons.prems by (intro Cons.IH) (auto simp: q enumerate_append_eq)
      with False new Some compacted show ?thesis by simp
    qed
  qed
qed simp

lemma kept_mono: "set acc \<subseteq> set (kept dg qid acc cs)"
proof (induction cs arbitrary: acc)
  case (Cons c cs)
  show ?case using Cons.IH [of acc] Cons.IH [of "acc @ [c]"] by auto
qed simp

lemma kept_set: "set (kept dg qid acc cs) \<subseteq> set acc \<union> set cs"
proof (induction cs arbitrary: acc)
  case (Cons c cs)
  show ?case using Cons.IH [of acc] Cons.IH [of "acc @ [c]"] by auto
qed simp

lemma kept_unclashing:
  "sorted_wrt (\<lambda>d c. \<not> clashes dg qid c d) acc \<Longrightarrow> sorted_wrt (\<lambda>d c. \<not> clashes dg qid c d) (kept dg qid acc cs)"
proof (induction cs arbitrary: acc)
  case (Cons c cs)
  then show ?case by (auto simp: sorted_wrt_append list_all_iff)
qed simp

lemma kept_complete:
  "c \<in> set cs \<Longrightarrow> Question_create dg c qid \<noteq> None \<Longrightarrow>
     \<exists>d\<in>set (kept dg qid acc cs). d = c \<or> clashes dg qid c d"
proof (induction cs arbitrary: acc)
  case (Cons e cs)
  let ?acc = "if Question_create dg e qid \<noteq> None \<and> list_all (\<lambda>d. \<not> clashes dg qid e d) acc
    then acc @ [e] else acc"
  show ?case
  proof (cases "c \<in> set cs")
    case True
    with Cons show ?thesis by simp
  next
    case False
    with Cons.prems have "\<exists>d\<in>set ?acc. d = c \<or> clashes dg qid c d"
      by (auto simp: list_all_iff)
    then show ?thesis
      unfolding kept.simps using kept_mono [of ?acc dg qid cs] by blast
  qed
qed simp

section \<open>Comparison of candidates\<close>

text \<open>What \<open>localeCompare\<close> is documented to be: a consistent order, up to equivalence.\<close>

definition comparator_on :: "'a set \<Rightarrow> ('a \<Rightarrow> 'a \<Rightarrow> int) \<Rightarrow> bool" where
  "comparator_on A f \<longleftrightarrow>
     (\<forall>x\<in>A. \<forall>y\<in>A. f x y < 0 \<longleftrightarrow> 0 < f y x) \<and>
     (\<forall>x\<in>A. \<forall>y\<in>A. \<forall>z\<in>A. f x y \<le> 0 \<longrightarrow> f y z \<le> 0 \<longrightarrow> f x z \<le> 0)"

definition collation :: "(string \<Rightarrow> string \<Rightarrow> int) \<Rightarrow> bool" where
  "collation lc \<longleftrightarrow> comparator_on UNIV lc"

lemma comparator_on_consistent: "comparator_on A f \<Longrightarrow> consistent_on A f"
  unfolding comparator_on_def consistent_on_def by (metis linorder_not_less order_less_imp_le)

lemma comparator_on_lex:
  assumes f: "comparator_on A f" and g: "comparator_on A g"
  shows "comparator_on A (\<lambda>x y. if f x y \<noteq> 0 then f x y else g x y)"
proof -
  have sgn: "f x y < 0 \<longleftrightarrow> 0 < f y x" "g x y < 0 \<longleftrightarrow> 0 < g y x" "f x y = 0 \<longleftrightarrow> f y x = 0"
    if "x \<in> A" "y \<in> A" for x y
  proof -
    have "f x y < 0 \<longleftrightarrow> 0 < f y x" "f y x < 0 \<longleftrightarrow> 0 < f x y" "g x y < 0 \<longleftrightarrow> 0 < g y x"
      using f g that unfolding comparator_on_def by blast+
    then show "f x y < 0 \<longleftrightarrow> 0 < f y x" "g x y < 0 \<longleftrightarrow> 0 < g y x" "f x y = 0 \<longleftrightarrow> f y x = 0"
      by linarith+
  qed
  have tr: "f x y \<le> 0 \<Longrightarrow> f y z \<le> 0 \<Longrightarrow> f x z \<le> 0" "g x y \<le> 0 \<Longrightarrow> g y z \<le> 0 \<Longrightarrow> g x z \<le> 0"
    if "x \<in> A" "y \<in> A" "z \<in> A" for x y z
    using f g that unfolding comparator_on_def by blast+
  have strict: "f x z < 0" if "x \<in> A" "y \<in> A" "z \<in> A" "f x y \<le> 0" "f y z \<le> 0" "f x y < 0 \<or> f y z < 0" for x y z
  proof (rule ccontr)
    assume "\<not> f x z < 0"
    with tr(1) [of x y z] that have "f x z = 0" by auto
    then have "f z x = 0" using sgn(3) that by auto
    then have "f y x \<le> 0" "f z y \<le> 0" using tr(1) [of y z x] tr(1) [of z x y] that by auto
    with that(6) sgn(1) [of x y] sgn(1) [of y z] that(1-3) show False by auto
  qed
  show ?thesis
    unfolding comparator_on_def
  proof (intro conjI ballI impI)
    fix x y assume "x \<in> A" "y \<in> A"
    then show "((if f x y \<noteq> 0 then f x y else g x y) < 0) = (0 < (if f y x \<noteq> 0 then f y x else g y x))"
      using sgn [of x y] by auto
  next
    fix x y z
    assume A: "x \<in> A" "y \<in> A" "z \<in> A"
      and "(if f x y \<noteq> 0 then f x y else g x y) \<le> 0" "(if f y z \<noteq> 0 then f y z else g y z) \<le> 0"
    then have le: "f x y \<le> 0" "f y z \<le> 0" and eq: "f x y = 0 \<Longrightarrow> g x y \<le> 0" "f y z = 0 \<Longrightarrow> g y z \<le> 0"
      by (auto split: if_splits)
    show "(if f x z \<noteq> 0 then f x z else g x z) \<le> 0"
    proof (cases "f x y < 0 \<or> f y z < 0")
      case True
      with strict [OF A le] show ?thesis by simp
    next
      case False
      with le have "f x y = 0" "f y z = 0" by auto
      with eq tr(2) [OF A] tr(1) [OF A le] show ?thesis by auto
    qed
  qed
qed

lemma comparator_on_diff_sign: "(\<And>x. x \<in> A \<Longrightarrow> js_is_finite (k x)) \<Longrightarrow> comparator_on A (\<lambda>x y. js_diff_sign (k x) (k y))"
proof -
  assume fin: "\<And>x. x \<in> A \<Longrightarrow> js_is_finite (k x)"
  define r where "r = (\<lambda>x. case k x of JFin q \<Rightarrow> q | _ \<Rightarrow> 0)"
  have "k x = JFin (r x)" if "x \<in> A" for x
    using fin [OF that] by (cases "k x") (auto simp: r_def)
  then show ?thesis by (auto simp: comparator_on_def split: if_splits)
qed

lemma comparator_on_image: "comparator_on UNIV f \<Longrightarrow> comparator_on A (\<lambda>x y. f (k x) (k y))"
  unfolding comparator_on_def by blast

lemma compareCandidates_comparator:
  assumes "collation lc" and "\<And>c. c \<in> A \<Longrightarrow> js_is_finite (qc_chunkIndex c) \<and> js_is_finite (qc_ordinal c)"
  shows "comparator_on A (compareCandidates lc)"
proof -
  note index = comparator_on_diff_sign [of A qc_chunkIndex]
    and ordinal = comparator_on_diff_sign [of A qc_ordinal]
  have lc: "comparator_on A (\<lambda>x y. lc (k x) (k y))" for k
    using assms(1) unfolding collation_def by (rule comparator_on_image)
  have "comparator_on A (\<lambda>x y. js_diff_sign (qc_chunkIndex x) (qc_chunkIndex y))"
    and "comparator_on A (\<lambda>x y. js_diff_sign (qc_ordinal x) (qc_ordinal y))"
    using assms(2) by (blast intro: index, blast intro: ordinal)
  from comparator_on_lex [OF this(1) comparator_on_lex [OF this(2)
      comparator_on_lex [OF lc [of qc_chunkId] lc [of qc_stem]]]]
  show ?thesis unfolding compareCandidates_def [abs_def] Let_def .
qed

section \<open>Properties\<close>

lemma quiz_uuid: "projr (uuidFromSha256 (quiz_key dg h)) = derived_uuid dg (h_documentId h @ '':'' @ h_promptVersion h)"
  by (simp add: quiz_key_def derived_uuid_def)

lemma accepted_questions_wf: "quiz_questions_wf dg (projr (uuidFromSha256 (quiz_key dg h))) (accepted_questions dg lc h)"
  unfolding accepted_questions_def by (rule collect_questions_wf) (auto simp: quiz_questions_wf_def)

lemma accepted_questions_length: "length (accepted_questions dg lc h) \<le> length (h_questions h)"
  unfolding accepted_questions_def
  using collect_questions_prefix [of dg _ "js_sort (compareCandidates lc) (h_questions h)" "{}" "{}" "[]"]
  by (auto simp del: collect_questions.simps)

text \<open>C1 The outcome of \<open>Quiz.create\<close>: it either throws INSUFFICIENT_VALID_QUESTIONS with the two
  counts, exactly when the requested minimum is not a positive safe integer or exceeds what was
  accepted, or it builds a quiz of at least the minimum, whose questions are numbered from zero
  without gaps, have pairwise different normalised stems, each satisfy the multiple-choice rules
  (one correct option, at least two, different contents, valid locator, citation of its own
  chunk), and carry the identifiers derived from the digest.\<close>

theorem quiz_create_outcome:
  "case Quiz_create dg lc h of
     Inl e \<Rightarrow> e = AssessmentError INSUFFICIENT_VALID_QUESTIONS
                   (Some (length (accepted_questions dg lc h))) (Some (length (h_questions h)))
             \<and> \<not> (js_is_safe_integer (h_minimumQuestionCount h) \<and> js_less_eq (JFin 1) (h_minimumQuestionCount h)
                  \<and> js_less_eq (h_minimumQuestionCount h) (JFin (of_nat (length (accepted_questions dg lc h)))))
   | Inr z \<Rightarrow> quiz_questions_wf dg (qz_id z) (qz_questions z)
             \<and> qz_questions z \<noteq> [] \<and> length (qz_questions z) \<le> length (h_questions h)
             \<and> js_less_eq (h_minimumQuestionCount h) (JFin (of_nat (length (qz_questions z))))
             \<and> qz_id z = derived_uuid dg (h_documentId h @ '':'' @ h_promptVersion h)
             \<and> qz_idempotencyKey z = sha256 dg (h_documentId h @ '':'' @ h_promptVersion h)
             \<and> qz_documentId z = h_documentId h \<and> qz_ownerId z = h_ownerId h"
proof (cases "h_minimumQuestionCount h")
  case (JFin m)
  have "1 \<le> m \<Longrightarrow> m \<le> of_nat (length (accepted_questions dg lc h)) \<Longrightarrow> accepted_questions dg lc h \<noteq> []"
    by auto
  with JFin accepted_questions_wf [of dg h lc] accepted_questions_length [of dg lc h] show ?thesis
    by (auto simp: Quiz_create_def Let_def quiz_uuid not_less quiz_questions_wf_def)
      (simp add: quiz_key_def)
qed (simp_all add: Quiz_create_def Let_def)

text \<open>Which questions a handoff yields: walking the candidates in comparator order, a candidate
  that validates is kept unless an earlier kept one has its normalised stem or its key, and the
  i-th kept candidate becomes the question with ordinal i.  No valid candidate is lost for any
  other reason, and no two kept candidates clash.\<close>

theorem quiz_questions_selected:
  assumes "int (length (h_questions h)) \<le> max_safe_integer"
  shows "\<exists>ks. accepted_questions dg lc h
             = map (\<lambda>(i, c). question_of dg (with_ordinal i c) (projr (uuidFromSha256 (quiz_key dg h)))) (enumerate 0 ks)
       \<and> set ks \<subseteq> set (h_questions h)
       \<and> sorted_wrt (\<lambda>d c. \<not> clashes dg (projr (uuidFromSha256 (quiz_key dg h))) c d) ks
       \<and> (\<forall>c\<in>set (h_questions h). Question_create dg c (projr (uuidFromSha256 (quiz_key dg h))) \<noteq> None \<longrightarrow>
            (\<exists>d\<in>set ks. d = c \<or> clashes dg (projr (uuidFromSha256 (quiz_key dg h))) c d))"
proof -
  let ?qid = "projr (uuidFromSha256 (quiz_key dg h))"
  let ?cs = "js_sort (compareCandidates lc) (h_questions h)"
  have "accepted_questions dg lc h =
      map (\<lambda>(i, c). question_of dg (with_ordinal i c) ?qid) (enumerate 0 (kept dg ?qid [] ?cs))"
    unfolding accepted_questions_def using assms by (intro collect_questions_kept) auto
  moreover have "set (kept dg ?qid [] ?cs) \<subseteq> set (h_questions h)"
    using kept_set [of dg ?qid "[]" ?cs] by simp
  moreover have "sorted_wrt (\<lambda>d c. \<not> clashes dg ?qid c d) (kept dg ?qid [] ?cs)"
    by (rule kept_unclashing) simp
  ultimately show ?thesis
    using kept_complete [of _ ?cs dg ?qid "[]"] by (intro exI [of _ "kept dg ?qid [] ?cs"]) auto
qed

text \<open>A two-question handoff used to instantiate the properties.\<close>

definition sample_candidate :: "nat \<Rightarrow> string \<Rightarrow> question_candidate" where
  "sample_candidate n stem =
     \<lparr>qc_chunkId = ''c'', qc_chunkIndex = JFin (of_nat n), qc_ordinal = JFin (of_nat n), qc_stem = stem,
      qc_explanation = ''because'',
      qc_options = [\<lparr>oc_content = ''yes'', oc_isCorrect = True\<rparr>, \<lparr>oc_content = ''no'', oc_isCorrect = False\<rparr>],
      qc_citation = \<lparr>cit_chunkId = ''c'', cit_locator = PageLocator (JFin 1), cit_snippet = ''text''\<rparr>\<rparr>"

definition sample_handoff :: quiz_handoff where
  "sample_handoff = \<lparr>h_documentId = ''d'', h_ownerId = ''w'', h_promptVersion = ''p'',
     h_minimumQuestionCount = JFin 1,
     h_questions = [sample_candidate 0 ''one'', sample_candidate 1 ''two'']\<rparr>"

lemmas sample_simps = sample_handoff_def sample_candidate_def

definition by_length :: "string \<Rightarrow> string \<Rightarrow> int" where
  "by_length a b = int (length a) - int (length b)"

lemma collation_by_length: "collation by_length"
  by (auto simp: collation_def comparator_on_def by_length_def)

text \<open>A digest for the instances: the length and the last character of the string in the leading byte.\<close>

definition sample_digest :: digest where
  "sample_digest s = push_bit 248 (of_nat (length s * 4 + of_char (last s) mod 4))"

lemma quiz_questions_selected_witness:
  "\<exists>ks. accepted_questions sample_digest by_length sample_handoff
      = map (\<lambda>(i, c). question_of sample_digest (with_ordinal i c) (projr (uuidFromSha256 (quiz_key sample_digest sample_handoff))))
          (enumerate 0 ks) \<and> set ks \<subseteq> set (h_questions sample_handoff)"
proof -
  have "int (length (h_questions sample_handoff)) \<le> max_safe_integer"
    by (simp add: sample_simps max_safe_integer_def)
  from quiz_questions_selected [OF this, of sample_digest by_length] show ?thesis by blast
qed

text \<open>The quiz does not depend on the order in which the generator emitted its candidates:
  every permutation of the candidates gives the same quiz, or the same error, provided the
  comparator separates different candidates.\<close>

theorem quiz_create_order_independent:
  assumes "collation lc" and "mset qs = mset (h_questions h)"
    and "\<And>c. c \<in> set qs \<Longrightarrow> js_is_finite (qc_chunkIndex c) \<and> js_is_finite (qc_ordinal c)"
    and "\<And>c d. c \<in> set qs \<Longrightarrow> d \<in> set qs \<Longrightarrow> compareCandidates lc c d = 0 \<Longrightarrow> c = d"
  shows "Quiz_create dg lc (h\<lparr>h_questions := qs\<rparr>) = Quiz_create dg lc h"
proof -
  have cmp: "comparator_on (set qs) (compareCandidates lc)"
    using assms(1,3) by (rule compareCandidates_comparator)
  have "js_sort (compareCandidates lc) qs = js_sort (compareCandidates lc) (h_questions h)"
  proof (rule js_sort_perm)
    fix x y
    assume xy: "x \<in> set qs" "y \<in> set qs"
      and "compareCandidates lc x y \<le> 0" "compareCandidates lc y x \<le> 0"
    with cmp have "compareCandidates lc x y = 0" unfolding comparator_on_def by (metis not_less order_antisym)
    with assms(4) xy show "x = y" by blast
  qed (use assms(2) cmp comparator_on_consistent in auto)
  moreover have "length qs = length (h_questions h)"
    using assms(2) by (metis size_mset)
  ultimately show ?thesis
    by (simp add: Quiz_create_def accepted_questions_def quiz_key_def Let_def)
qed

lemma quiz_create_order_independent_witness:
  "Quiz_create sample_digest by_length (sample_handoff\<lparr>h_questions := [sample_candidate 1 ''two'', sample_candidate 0 ''one'']\<rparr>)
     = Quiz_create sample_digest by_length sample_handoff"
  by (rule quiz_create_order_independent [OF collation_by_length])
    (auto simp: sample_simps compareCandidates_def)

text \<open>Identifiers: what is hashed for the questions and options of a quiz.\<close>

definition id_preimages :: "quiz \<Rightarrow> string list" where
  "id_preimages z =
     map (\<lambda>q. qz_id z @ '':'' @ qu_chunkId q @ '':'' @ int_str (qu_ordinal q)) (qz_questions z)
     @ concat (map (\<lambda>q. map (\<lambda>i. qu_id q @ '':'' @ nat_str i) [0..<length (qu_options q)]) (qz_questions z))"

lemma distinct_question_preimages:
  assumes "distinct (map qu_ordinal qs)"
  shows "distinct (map (\<lambda>q. z @ '':'' @ qu_chunkId q @ '':'' @ int_str (qu_ordinal q)) qs)"
  using assms
proof (induction qs)
  case (Cons q qs)
  have "r = q \<or> qu_ordinal q \<noteq> qu_ordinal r \<longrightarrow>
      z @ '':'' @ qu_chunkId q @ '':'' @ int_str (qu_ordinal q) \<noteq> z @ '':'' @ qu_chunkId r @ '':'' @ int_str (qu_ordinal r)
      \<or> r = q" for r
    using append_colon_inj [of "z @ '':'' @ qu_chunkId q" "int_str (qu_ordinal q)"
        "z @ '':'' @ qu_chunkId r" "int_str (qu_ordinal r)"] int_str_inj
    by (auto simp: colon_not_in_int_str)
  with Cons show ?case by (auto simp: image_iff)
qed simp

lemma distinct_option_preimages:
  assumes "distinct (map qu_id qs)"
  shows "distinct (concat (map (\<lambda>q. map (\<lambda>i. qu_id q @ '':'' @ nat_str i) [0..<length (qu_options q)]) qs))"
  using assms
proof (induction qs)
  case (Cons q qs)
  have "qu_id q @ '':'' @ nat_str i = qu_id r @ '':'' @ nat_str j \<Longrightarrow> qu_id q = qu_id r \<and> i = j" for r i j
    using append_colon_inj [of "qu_id q" "nat_str i" "qu_id r" "nat_str j"] nat_str_inj [of i j]
    by (simp add: colon_not_in_nat_str)
  then have "inj_on (\<lambda>i. qu_id q @ '':'' @ nat_str i) A" and
    "q' \<in> set qs \<Longrightarrow> qu_id q @ '':'' @ nat_str i \<noteq> qu_id q' @ '':'' @ nat_str j" for A q' i j
    using Cons.prems by (fastforce simp: inj_on_def, fastforce)
  with Cons show ?case
    by (simp add: distinct_map del: append_Cons append.simps) blast
qed simp

lemma id_preimages_uuids:
  assumes "\<forall>q\<in>set (qz_questions z). ids_derived dg (qz_id z) q"
  shows "map (derived_uuid dg) (id_preimages z) =
    map qu_id (qz_questions z) @ concat (map (\<lambda>q. map opt_id (qu_options q)) (qz_questions z))"
proof -
  have "map (derived_uuid dg) (map (\<lambda>q. qz_id z @ '':'' @ qu_chunkId q @ '':'' @ int_str (qu_ordinal q)) qs) = map qu_id qs"
    and "map (derived_uuid dg) (concat (map (\<lambda>q. map (\<lambda>i. qu_id q @ '':'' @ nat_str i) [0..<length (qu_options q)]) qs))
      = concat (map (\<lambda>q. map opt_id (qu_options q)) qs)"
    if "\<forall>q\<in>set qs. ids_derived dg (qz_id z) q" for qs
    using that by (induction qs) (auto simp: ids_derived_def option_uuid_def)
  with assms show ?thesis by (simp add: id_preimages_def)
qed

lemma quiz_ids_distinct_of:
  assumes wf: "quiz_questions_wf dg (qz_id z) (qz_questions z)" and inj: "inj_on (derived_uuid dg) (set (id_preimages z))"
  shows "distinct (map qu_id (qz_questions z) @ concat (map (\<lambda>q. map opt_id (qu_options q)) (qz_questions z)))"
proof -
  have "distinct (map qu_ordinal (qz_questions z))"
    using wf by (simp add: quiz_questions_wf_def distinct_map)
  then have q: "distinct (map (\<lambda>q. qz_id z @ '':'' @ qu_chunkId q @ '':'' @ int_str (qu_ordinal q)) (qz_questions z))"
    by (rule distinct_question_preimages)
  have eq: "map (derived_uuid dg) (id_preimages z) =
      map qu_id (qz_questions z) @ concat (map (\<lambda>q. map opt_id (qu_options q)) (qz_questions z))"
    using wf by (intro id_preimages_uuids) (simp add: quiz_questions_wf_def)
  have "map qu_id (qz_questions z) =
      map (derived_uuid dg) (map (\<lambda>q. qz_id z @ '':'' @ qu_chunkId q @ '':'' @ int_str (qu_ordinal q)) (qz_questions z))"
    using wf by (auto simp: quiz_questions_wf_def ids_derived_def)
  moreover from inj have "inj_on (derived_uuid dg)
      (set (map (\<lambda>q. qz_id z @ '':'' @ qu_chunkId q @ '':'' @ int_str (qu_ordinal q)) (qz_questions z)))"
    by (rule inj_on_subset) (auto simp: id_preimages_def)
  with q have "distinct (map (derived_uuid dg)
      (map (\<lambda>q. qz_id z @ '':'' @ qu_chunkId q @ '':'' @ int_str (qu_ordinal q)) (qz_questions z)))"
    by (simp only: distinct_map [of "derived_uuid dg"])
  ultimately have "distinct (map qu_id (qz_questions z))"
    by (simp only:)
  then have o: "distinct (concat (map (\<lambda>q. map (\<lambda>i. qu_id q @ '':'' @ nat_str i) [0..<length (qu_options q)]) (qz_questions z)))"
    by (rule distinct_option_preimages)
  have "qz_id z @ '':'' @ c @ '':'' @ int_str n \<noteq> qu_id q @ '':'' @ nat_str i" if "q \<in> set (qz_questions z)" for c n q i
  proof
    assume "qz_id z @ '':'' @ c @ '':'' @ int_str n = qu_id q @ '':'' @ nat_str i"
    then have "qz_id z @ '':'' @ c = qu_id q"
      using append_colon_inj [of "qz_id z @ '':'' @ c" "int_str n" "qu_id q" "nat_str i"]
      by (simp add: colon_not_in_int_str colon_not_in_nat_str)
    moreover have "CHR '':'' \<notin> set (qu_id q)"
      using wf that colon_not_in_derived_uuid by (simp add: quiz_questions_wf_def ids_derived_def)
    ultimately show False by (metis append_Cons in_set_conv_decomp)
  qed
  with q o have "distinct (id_preimages z)"
    by (auto simp: id_preimages_def)
  with inj show ?thesis unfolding eq [symmetric] by (simp add: distinct_map)
qed

text \<open>Identifiers do not collide inside a quiz: as long as the digest does not collide on the
  strings hashed for this quiz (each question's quiz, chunk and ordinal, each option's question
  and index), all question identifiers and all option identifiers are pairwise different.  The
  strings themselves are different because the separator cannot occur in the printed numbers.\<close>

theorem quiz_ids_distinct:
  assumes "Quiz_create dg lc h = Inr z" and "inj_on (derived_uuid dg) (set (id_preimages z))"
  shows "distinct (map qu_id (qz_questions z) @ concat (map (\<lambda>q. map opt_id (qu_options q)) (qz_questions z)))"
proof (rule quiz_ids_distinct_of [OF _ assms(2)])
  have "qz_id z = projr (uuidFromSha256 (quiz_key dg h))" "qz_questions z = accepted_questions dg lc h"
    using assms(1) by (auto simp: Quiz_create_def Let_def split: if_splits)
  then show "quiz_questions_wf dg (qz_id z) (qz_questions z)"
    using accepted_questions_wf by metis
qed

lemma sample_uuid_neq:
  assumes "nibble (sample_digest a) 0 \<noteq> nibble (sample_digest b) 0 \<or> nibble (sample_digest a) 1 \<noteq> nibble (sample_digest b) 1"
  shows "derived_uuid sample_digest a \<noteq> derived_uuid sample_digest b"
proof
  assume "derived_uuid sample_digest a = derived_uuid sample_digest b"
  then have "hex_char (nibble (sample_digest a) 0) = hex_char (nibble (sample_digest b) 0)"
    and "hex_char (nibble (sample_digest a) 1) = hex_char (nibble (sample_digest b) 1)"
    by (simp_all add: derived_uuid_chars uuid_chars_def)
  with assms show False by (metis hex_value_hex_char nibble_less)
qed

definition single_handoff :: quiz_handoff where
  "single_handoff = sample_handoff\<lparr>h_questions := [sample_candidate 0 ''one'']\<rparr>"

lemma acceptable_sample: "acceptable (sample_candidate 0 ''one'') (map (\<lambda>p. js_trim (oc_content p)) (qc_options (sample_candidate 0 ''one'')))"
  by code_simp

lemma accepted_single:
  "accepted_questions dg lc single_handoff
     = [question_of dg (with_ordinal 0 (sample_candidate 0 ''one'')) (projr (uuidFromSha256 (quiz_key dg single_handoff)))]"
proof -
  have "acceptable (with_ordinal 0 (sample_candidate 0 ''one''))
      (map (\<lambda>p. js_trim (oc_content p)) (qc_options (sample_candidate 0 ''one'')))"
    using acceptable_sample by (intro acceptable_with_ordinal) (auto simp: max_safe_integer_def)
  with acceptable_sample show ?thesis
    by (simp add: accepted_questions_def single_handoff_def js_sort_def Question_create_def)
qed

lemma Quiz_create_single: "\<exists>z. Quiz_create dg lc single_handoff = Inr z \<and>
    qz_id z = projr (uuidFromSha256 (quiz_key dg single_handoff)) \<and>
    qz_questions z = accepted_questions dg lc single_handoff"
  by (simp add: Quiz_create_def accepted_single Let_def)
    (simp add: single_handoff_def sample_handoff_def max_safe_integer_def)

lemma single_preimages_inj:
  assumes zid: "qz_id z = projr (uuidFromSha256 (quiz_key sample_digest single_handoff))"
    and qs: "qz_questions z = accepted_questions sample_digest lc single_handoff"
  shows "inj_on (derived_uuid sample_digest) (set (id_preimages z))"
proof -
  have len: "length (qz_id z) = 36"
    by (simp add: zid quiz_uuid length_derived_uuid)
  have s: "int_str 0 = ''0''" "nat_str 0 = ''0''" "nat_str (Suc 0) = ''1''"
    by (simp_all add: int_str_def nat_str.simps digit_char_def char_of_eq_iff take_bit_eq_mod)
  have S: "sample_digest (u @ '':0'') = push_bit 248 152" "sample_digest (u @ '':1'') = push_bit 248 153"
      "sample_digest (u @ '':c:0'') = push_bit 248 160" if "length u = 36" for u
    using that by (simp_all add: sample_digest_def)
  show ?thesis
    by (auto simp: inj_on_def id_preimages_def qs accepted_single s len length_derived_uuid S
        sample_candidate_def with_ordinal_def nibble_def push_bit_eq_mult
        dest!: sample_uuid_neq [THEN notE, rotated])
qed

lemma quiz_ids_distinct_witness:
  "\<exists>z. Quiz_create sample_digest by_length single_handoff = Inr z \<and> length (qz_questions z) = 1 \<and>
     distinct (map qu_id (qz_questions z) @ concat (map (\<lambda>q. map opt_id (qu_options q)) (qz_questions z)))"
proof -
  obtain z where z: "Quiz_create sample_digest by_length single_handoff = Inr z"
    and zid: "qz_id z = projr (uuidFromSha256 (quiz_key sample_digest single_handoff))"
    and qs: "qz_questions z = accepted_questions sample_digest by_length single_handoff"
    using Quiz_create_single by blast
  from quiz_ids_distinct [OF z single_preimages_inj [OF zid qs]] z show ?thesis
    by (auto simp: qs accepted_single)
qed

end
