(* ===== verification/Attempt.thy ===== *)
theory Attempt imports QuizDomain begin

text \<open>
  Grading: \<open>gradePracticeFeedback\<close> and \<open>gradeAttempt\<close> of \<open>domain/attempt.ts\<close> over the quiz views
  of \<open>contracts/quiz-attempt-store.port.ts\<close>.  The lemmas characterise when a submission is
  graded, and show that a graded attempt agrees question by question with practice feedback.
\<close>

section \<open>Data\<close>

record attempt_selection =
  sel_optionId :: string
  sel_questionId :: string

record served_option =
  so_content :: string
  so_id :: string
  so_optionIndex :: int

record served_question =
  sq_id :: string
  sq_ordinal :: int
  sq_options :: "served_option list"
  sq_stem :: string

record served_quiz =
  sv_id :: string
  sv_questions :: "served_question list"

text \<open>\<open>GradingOption extends ServedOption\<close>: a record extension.\<close>

record grading_option = served_option +
  go_isCorrect :: bool

record grading_question =
  gq_citation :: citation
  gq_explanation :: string
  gq_id :: string
  gq_ordinal :: int
  gq_options :: "grading_option list"
  gq_stem :: string

record grading_quiz =
  gz_id :: string
  gz_questions :: "grading_question list"

record graded_answer =
  ga_citation :: citation
  ga_explanation :: string
  ga_isCorrect :: bool
  ga_questionId :: string
  ga_selectedOptionId :: string

record persisted_attempt =
  pa_id :: string
  pa_ownerId :: string
  pa_questionCount :: nat
  pa_quizId :: string
  pa_results :: "graded_answer list"
  pa_score :: nat

datatype 'a graded = GInvalid | Graded 'a

section \<open>Operations\<close>

definition answer_for :: "grading_question \<Rightarrow> grading_option \<Rightarrow> graded_answer" where
  "answer_for q p =
     \<lparr>ga_citation = gq_citation q, ga_explanation = gq_explanation q, ga_isCorrect = go_isCorrect p,
      ga_questionId = gq_id q, ga_selectedOptionId = so_id p\<rparr>"

definition gradePracticeFeedback :: "grading_quiz \<Rightarrow> attempt_selection \<Rightarrow> graded_answer graded" where
  "gradePracticeFeedback quiz s =
     (case List.find (\<lambda>q. gq_id q = sel_questionId s) (gz_questions quiz) of
        None \<Rightarrow> GInvalid
      | Some q \<Rightarrow>
          (case List.find (\<lambda>p. so_id p = sel_optionId s) (gq_options q) of
             None \<Rightarrow> GInvalid
           | Some p \<Rightarrow> Graded (answer_for q p)))"

text \<open>The first loop: the map from question to selection, \<^const>\<open>None\<close> on a repeated question.\<close>

fun selections_by_question ::
  "attempt_selection list \<Rightarrow> (string \<rightharpoonup> attempt_selection) \<Rightarrow> (string \<rightharpoonup> attempt_selection) option" where
  "selections_by_question [] m = Some m"
| "selections_by_question (s # ss) m =
     (if m (sel_questionId s) \<noteq> None then None
      else selections_by_question ss (m(sel_questionId s \<mapsto> s)))"

text \<open>The second loop, over the questions of the quiz.\<close>

fun grade_questions ::
  "(string \<rightharpoonup> attempt_selection) \<Rightarrow> grading_question list \<Rightarrow> graded_answer list \<Rightarrow> graded_answer list option" where
  "grade_questions m [] answers = Some answers"
| "grade_questions m (q # qs) answers =
     (case m (gq_id q) of
        None \<Rightarrow> None
      | Some s \<Rightarrow>
          (case List.find (\<lambda>p. so_id p = sel_optionId s) (gq_options q) of
             None \<Rightarrow> None
           | Some p \<Rightarrow> grade_questions m qs (answers @ [answer_for q p])))"

definition gradeAttempt ::
  "string \<Rightarrow> string \<Rightarrow> grading_quiz \<Rightarrow> attempt_selection list \<Rightarrow> persisted_attempt graded" where
  "gradeAttempt attemptId ownerId quiz selections =
     (if length selections \<noteq> length (gz_questions quiz) then GInvalid
      else
        case selections_by_question selections Map.empty of
          None \<Rightarrow> GInvalid
        | Some m \<Rightarrow>
            (case grade_questions m (gz_questions quiz) [] of
               None \<Rightarrow> GInvalid
             | Some answers \<Rightarrow>
                 Graded \<lparr>pa_id = attemptId, pa_ownerId = ownerId,
                         pa_questionCount = length (gz_questions quiz), pa_quizId = gz_id quiz,
                         pa_results = answers, pa_score = length (filter ga_isCorrect answers)\<rparr>))"

section \<open>The two loops\<close>

lemma map_of_selections_None:
  "map_of (map (\<lambda>s. (sel_questionId s, s)) ss) k = None \<longleftrightarrow> k \<notin> sel_questionId ` set ss"
  by (induction ss) auto

lemma selections_by_question_Some:
  "selections_by_question ss m = Some m' \<longleftrightarrow>
     distinct (map sel_questionId ss) \<and> (\<forall>s\<in>set ss. m (sel_questionId s) = None)
     \<and> m' = m ++ map_of (map (\<lambda>s. (sel_questionId s, s)) ss)"
proof (induction ss arbitrary: m)
  case (Cons s ss)
  show ?case
  proof (cases "sel_questionId s \<in> sel_questionId ` set ss")
    case True
    then obtain r where r: "r \<in> set ss" "sel_questionId r = sel_questionId s" by auto
    then have "\<not> (\<forall>s'\<in>set ss. (m(sel_questionId s \<mapsto> s)) (sel_questionId s') = None)"
      by (auto intro!: bexI [of _ r])
    then have "selections_by_question ss (m(sel_questionId s \<mapsto> s)) \<noteq> Some m'"
      unfolding Cons.IH by blast
    with True show ?thesis by simp
  next
    case False
    then have "map_of (map (\<lambda>s. (sel_questionId s, s)) ss) (sel_questionId s) = None"
      by (simp add: map_of_selections_None)
    then have "m(sel_questionId s \<mapsto> s) ++ map_of (map (\<lambda>s. (sel_questionId s, s)) ss)
        = m ++ map_of (map (\<lambda>s. (sel_questionId s, s)) (s # ss))"
      by (intro ext) (auto simp: map_add_def split: option.split)
    moreover have notin: "sel_questionId r \<noteq> sel_questionId s" if "r \<in> set ss" for r
      using False that by (metis imageI)
    moreover have "(\<forall>r\<in>set ss. (m(sel_questionId s \<mapsto> s)) (sel_questionId r) = None)
        \<longleftrightarrow> (\<forall>r\<in>set ss. m (sel_questionId r) = None)"
      using notin by simp
    ultimately show ?thesis
      using False by (simp add: Cons.IH del: fun_upd_apply)
  qed
qed auto

lemma map_of_selections:
  "distinct (map sel_questionId ss) \<Longrightarrow>
     map_of (map (\<lambda>s. (sel_questionId s, s)) ss) k = Some s \<longleftrightarrow> s \<in> set ss \<and> sel_questionId s = k"
  by (subst map_of_eq_Some_iff) (auto simp: comp_def)

definition question_answer :: "(string \<rightharpoonup> attempt_selection) \<Rightarrow> grading_question \<Rightarrow> graded_answer option" where
  "question_answer m q =
     (case m (gq_id q) of None \<Rightarrow> None
      | Some s \<Rightarrow> map_option (answer_for q) (List.find (\<lambda>p. so_id p = sel_optionId s) (gq_options q)))"

lemma grade_questions_those:
  "grade_questions m qs acc = map_option ((@) acc) (those (map (question_answer m) qs))"
proof (induction qs arbitrary: acc)
  case (Cons q qs)
  then show ?case
    by (auto simp: question_answer_def option.map_comp comp_def split: option.splits)
qed simp

lemma gradeAttempt_Graded:
  "gradeAttempt aid w quiz ss = Graded a \<longleftrightarrow>
     length ss = length (gz_questions quiz) \<and> distinct (map sel_questionId ss) \<and>
     those (map (question_answer (map_of (map (\<lambda>s. (sel_questionId s, s)) ss))) (gz_questions quiz))
       = Some (pa_results a) \<and>
     pa_id a = aid \<and> pa_ownerId a = w \<and> pa_questionCount a = length (gz_questions quiz) \<and>
     pa_quizId a = gz_id quiz \<and> pa_score a = length (filter ga_isCorrect (pa_results a))"
proof (cases "selections_by_question ss Map.empty")
  case None
  then have "\<not> distinct (map sel_questionId ss)"
    using selections_by_question_Some [of ss Map.empty] by auto
  with None show ?thesis by (simp add: gradeAttempt_def)
next
  case (Some m)
  then have "distinct (map sel_questionId ss)" and m: "m = map_of (map (\<lambda>s. (sel_questionId s, s)) ss)"
    using selections_by_question_Some [of ss Map.empty] by auto
  with Some show ?thesis
    by (cases a; cases "those (map (question_answer m) (gz_questions quiz))")
      (auto simp: gradeAttempt_def grade_questions_those)
qed

lemma gradePracticeFeedback_question:
  assumes "distinct (map gq_id (gz_questions quiz))" and "q \<in> set (gz_questions quiz)" and "sel_questionId s = gq_id q"
  shows "gradePracticeFeedback quiz s =
    (case List.find (\<lambda>p. so_id p = sel_optionId s) (gq_options q) of None \<Rightarrow> GInvalid | Some p \<Rightarrow> Graded (answer_for q p))"
  using find_by_key [OF assms(1,2)] assms(3) by (simp add: gradePracticeFeedback_def)

section \<open>Properties\<close>

text \<open>A submission covers a quiz: each question is answered exactly once, by one of its options.\<close>

definition complete_submission :: "grading_quiz \<Rightarrow> attempt_selection list \<Rightarrow> bool" where
  "complete_submission quiz ss \<longleftrightarrow>
     mset (map sel_questionId ss) = mset (map gq_id (gz_questions quiz)) \<and>
     (\<forall>s\<in>set ss. \<exists>q\<in>set (gz_questions quiz). gq_id q = sel_questionId s \<and> sel_optionId s \<in> so_id ` set (gq_options q))"

lemma question_answer_Some:
  assumes "distinct (map gq_id (gz_questions quiz))" and "q \<in> set (gz_questions quiz)"
    and "distinct (map sel_questionId ss)"
  shows "question_answer (map_of (map (\<lambda>s. (sel_questionId s, s)) ss)) q = Some x \<longleftrightarrow>
    (\<exists>s\<in>set ss. sel_questionId s = gq_id q \<and> gradePracticeFeedback quiz s = Graded x)"
proof (cases "map_of (map (\<lambda>s. (sel_questionId s, s)) ss) (gq_id q)")
  case None
  then have "gq_id q \<notin> sel_questionId ` set ss"
    by (simp add: map_of_selections_None)
  with None show ?thesis by (force simp: question_answer_def)
next
  case (Some s)
  then have s: "s \<in> set ss" "sel_questionId s = gq_id q"
    using map_of_selections [OF assms(3)] by auto
  have uniq: "s' = s" if "s' \<in> set ss" "sel_questionId s' = gq_id q" for s'
    using map_of_selections [OF assms(3), of "gq_id q" s'] that Some by simp
  have "(\<exists>s'\<in>set ss. sel_questionId s' = gq_id q \<and> gradePracticeFeedback quiz s' = Graded x)
      \<longleftrightarrow> gradePracticeFeedback quiz s = Graded x"
    using s uniq by blast
  with s(2) Some gradePracticeFeedback_question [OF assms(1,2) s(2)] show ?thesis
    by (simp add: question_answer_def split: option.split)
qed

lemma complete_submission_iff:
  assumes d: "distinct (map gq_id (gz_questions quiz))"
  shows "complete_submission quiz ss \<longleftrightarrow>
    length ss = length (gz_questions quiz) \<and> distinct (map sel_questionId ss) \<and>
    (\<forall>q\<in>set (gz_questions quiz). question_answer (map_of (map (\<lambda>s. (sel_questionId s, s)) ss)) q \<noteq> None)"
    (is "_ \<longleftrightarrow> ?R")
proof
  assume c: "complete_submission quiz ss"
  then have ms: "mset (map sel_questionId ss) = mset (map gq_id (gz_questions quiz))"
    by (simp add: complete_submission_def)
  then have ds: "distinct (map sel_questionId ss)"
    using d by (metis mset_eq_imp_distinct_iff)
  have "question_answer (map_of (map (\<lambda>s. (sel_questionId s, s)) ss)) q \<noteq> None" if q: "q \<in> set (gz_questions quiz)" for q
  proof -
    have "gq_id q \<in> set (map sel_questionId ss)"
      using q mset_eq_setD [OF ms] by auto
    then obtain s where s: "s \<in> set ss" "sel_questionId s = gq_id q" by auto
    with c obtain q' where q': "q' \<in> set (gz_questions quiz)" "gq_id q' = gq_id q"
        "sel_optionId s \<in> so_id ` set (gq_options q')"
      unfolding complete_submission_def by metis
    then have "q' = q" using d q by (blast dest: distinct_map_eqD)
    with q'(3) have "List.find (\<lambda>p. so_id p = sel_optionId s) (gq_options q) \<noteq> None"
      by (auto simp: find_None_iff)
    moreover have "map_of (map (\<lambda>s. (sel_questionId s, s)) ss) (gq_id q) = Some s"
      using map_of_selections [OF ds] s by simp
    ultimately show ?thesis by (simp add: question_answer_def)
  qed
  with ds ms show ?R by (metis length_map size_mset)
next
  assume r: ?R
  then have ds: "distinct (map sel_questionId ss)" by blast
  have ans: "\<exists>s\<in>set ss. sel_questionId s = gq_id q \<and> (\<exists>x. gradePracticeFeedback quiz s = Graded x)"
    if "q \<in> set (gz_questions quiz)" for q
  proof -
    from r that obtain x where "question_answer (map_of (map (\<lambda>s. (sel_questionId s, s)) ss)) q = Some x"
      by blast
    then show ?thesis unfolding question_answer_Some [OF d that ds] by blast
  qed
  then have sub: "set (map gq_id (gz_questions quiz)) \<subseteq> set (map sel_questionId ss)" by force
  have ms: "mset (map sel_questionId ss) = mset (map gq_id (gz_questions quiz))"
    using r d sub by (intro mset_eq_of_distinct) simp_all
  have "\<exists>q\<in>set (gz_questions quiz). gq_id q = sel_questionId s \<and> sel_optionId s \<in> so_id ` set (gq_options q)"
    if s: "s \<in> set ss" for s
  proof -
    have "sel_questionId s \<in> set (map gq_id (gz_questions quiz))"
      using s mset_eq_setD [OF ms] by auto
    then obtain q where q: "q \<in> set (gz_questions quiz)" "gq_id q = sel_questionId s" by auto
    from ans [OF q(1)] obtain s' x where s': "s' \<in> set ss" "sel_questionId s' = gq_id q"
      and x: "gradePracticeFeedback quiz s' = Graded x" by blast
    have "s' = s" using distinct_map_eqD [OF ds s' (1) s] s'(2) q(2) by simp
    with x gradePracticeFeedback_question [OF d q(1)] q(2) have "\<exists>p\<in>set (gq_options q). so_id p = sel_optionId s"
      by (auto split: option.splits dest: find_SomeD)
    with q show ?thesis by (metis image_eqI)
  qed
  with ms show "complete_submission quiz ss" by (simp add: complete_submission_def)
qed

lemma question_answer_id: "question_answer m q = Some x \<Longrightarrow> ga_questionId x = gq_id q"
  by (auto simp: question_answer_def answer_for_def split: option.splits)

lemma grade_attempt_total:
  assumes "distinct (map gq_id (gz_questions quiz))"
  shows "case gradeAttempt aid w quiz ss of
      GInvalid \<Rightarrow> \<not> complete_submission quiz ss
    | Graded a \<Rightarrow> complete_submission quiz ss
        \<and> map ga_questionId (pa_results a) = map gq_id (gz_questions quiz)
        \<and> (\<forall>x\<in>set (pa_results a). \<exists>s\<in>set ss. sel_questionId s = ga_questionId x \<and> gradePracticeFeedback quiz s = Graded x)
        \<and> pa_score a = length (filter ga_isCorrect (pa_results a)) \<and> pa_score a \<le> pa_questionCount a
        \<and> pa_questionCount a = length (gz_questions quiz)
        \<and> pa_id a = aid \<and> pa_ownerId a = w \<and> pa_quizId a = gz_id quiz"
proof (cases "gradeAttempt aid w quiz ss")
  case GInvalid
  have "\<not> complete_submission quiz ss"
  proof
    assume "complete_submission quiz ss"
    then have c: "length ss = length (gz_questions quiz)" "distinct (map sel_questionId ss)"
        "those (map (question_answer (map_of (map (\<lambda>s. (sel_questionId s, s)) ss))) (gz_questions quiz)) \<noteq> None"
      unfolding complete_submission_iff [OF assms] those_map_None by blast+
    from c(3) obtain zs where
      "those (map (question_answer (map_of (map (\<lambda>s. (sel_questionId s, s)) ss))) (gz_questions quiz)) = Some zs"
      by blast
    with c have "gradeAttempt aid w quiz ss = Graded \<lparr>pa_id = aid, pa_ownerId = w,
        pa_questionCount = length (gz_questions quiz), pa_quizId = gz_id quiz, pa_results = zs,
        pa_score = length (filter ga_isCorrect zs)\<rparr>"
      by (simp add: gradeAttempt_Graded)
    with GInvalid show False by simp
  qed
  with GInvalid show ?thesis by simp
next
  case (Graded a)
  let ?m = "map_of (map (\<lambda>s. (sel_questionId s, s)) ss)"
  from Graded have ds: "distinct (map sel_questionId ss)"
    and th: "those (map (question_answer ?m) (gz_questions quiz)) = Some (pa_results a)"
    and len: "length ss = length (gz_questions quiz)" and score: "pa_score a = length (filter ga_isCorrect (pa_results a))"
    and cnt: "pa_questionCount a = length (gz_questions quiz)"
    by (simp_all add: gradeAttempt_Graded)
  from th have all2: "list_all2 (\<lambda>q x. question_answer ?m q = Some x) (gz_questions quiz) (pa_results a)"
    by (simp add: those_map_Some)
  then have ids: "map ga_questionId (pa_results a) = map gq_id (gz_questions quiz)"
    by (induction rule: list_all2_induct) (auto simp: question_answer_id)
  have fb: "\<exists>s\<in>set ss. sel_questionId s = ga_questionId x \<and> gradePracticeFeedback quiz s = Graded x"
    if "x \<in> set (pa_results a)" for x
  proof -
    from all2 that obtain q where q: "q \<in> set (gz_questions quiz)" "question_answer ?m q = Some x"
      by (blast dest: list_all2_in2)
    with question_answer_Some [OF assms q(1) ds] question_answer_id [OF q(2)] show ?thesis by auto
  qed
  have "complete_submission quiz ss"
    using th ds len those_map_None [of "question_answer ?m" "gz_questions quiz"]
    unfolding complete_submission_iff [OF assms] by auto
  moreover have "pa_score a \<le> pa_questionCount a"
    using score cnt ids by (metis length_filter_le length_map)
  ultimately show ?thesis
    using ids fb score cnt Graded [unfolded gradeAttempt_Graded] by (simp add: Graded)
qed

text \<open>When a submission is graded, for any quiz whose question identifiers are different:
  exactly when it answers every question once, each by an option of that question.  The graded
  attempt then has one result per question, in quiz order, each equal to the practice feedback
  for the selection on that question, and the score is the number of correct results.\<close>

theorem grade_attempt_complete:
  assumes "distinct (map gq_id (gz_questions quiz))"
  shows "case gradeAttempt aid w quiz ss of
      GInvalid \<Rightarrow> \<not> complete_submission quiz ss
    | Graded a \<Rightarrow> complete_submission quiz ss
        \<and> map ga_questionId (pa_results a) = map gq_id (gz_questions quiz)
        \<and> (\<forall>x\<in>set (pa_results a). \<exists>s\<in>set ss. sel_questionId s = ga_questionId x \<and> gradePracticeFeedback quiz s = Graded x)
        \<and> pa_score a = length (filter ga_isCorrect (pa_results a)) \<and> pa_score a \<le> pa_questionCount a
        \<and> pa_questionCount a = length (gz_questions quiz)
        \<and> pa_id a = aid \<and> pa_ownerId a = w \<and> pa_quizId a = gz_id quiz"
  using assms by (rule grade_attempt_total)

definition sample_grading_quiz :: grading_quiz where
  "sample_grading_quiz =
     \<lparr>gz_id = ''z'',
      gz_questions = [\<lparr>gq_citation = \<lparr>cit_chunkId = ''c'', cit_locator = PageLocator (JFin 1), cit_snippet = ''s''\<rparr>,
        gq_explanation = ''e'', gq_id = ''q'', gq_ordinal = 0,
        gq_options = [\<lparr>so_content = ''yes'', so_id = ''a'', so_optionIndex = 0, go_isCorrect = True\<rparr>,
                      \<lparr>so_content = ''no'', so_id = ''b'', so_optionIndex = 1, go_isCorrect = False\<rparr>],
        gq_stem = ''stem''\<rparr>]\<rparr>"

lemma grade_attempt_complete_witness:
  "complete_submission sample_grading_quiz [\<lparr>sel_optionId = ''a'', sel_questionId = ''q''\<rparr>]
   \<and> \<not> complete_submission sample_grading_quiz [\<lparr>sel_optionId = ''x'', sel_questionId = ''q''\<rparr>]"
proof -
  have d: "distinct (map gq_id (gz_questions sample_grading_quiz))"
    by (simp add: sample_grading_quiz_def)
  show ?thesis
    using grade_attempt_complete [OF d, where ss = "[\<lparr>sel_optionId = ''a'', sel_questionId = ''q''\<rparr>]"]
      grade_attempt_complete [OF d, where ss = "[\<lparr>sel_optionId = ''x'', sel_questionId = ''q''\<rparr>]"]
    by (simp add: sample_grading_quiz_def gradeAttempt_def)
qed

end
