(* ===== verification/QuizStore.thy ===== *)
theory QuizStore imports Attempt begin

text \<open>
  The quiz schema and its repositories: \<open>repositories/quiz.repository.ts\<close>,
  \<open>repositories/attempt-result.repository.ts\<close>, the entities they read and write and the
  constraints of the tables (the unique indexes of the entity decorators, the CHECK and
  REFERENCES clauses of the migrations that create the tables).

  The state is \<open>quiz_db\<close>, one list of rows per table.  A statement that breaks a constraint
  fails with \<open>StoreDb\<close> and aborts its transaction.  The timestamps no code reads back are left
  out; \<open>created_at\<close> of an attempt is the argument \<open>now\<close>.
\<close>

section \<open>Tables\<close>

record quiz_row =
  zr_id :: string
  zr_documentId :: string
  zr_ownerId :: string
  zr_promptVersion :: string
  zr_idempotencyKey :: string

record question_row =
  qr_id :: string
  qr_quizId :: string
  qr_ownerId :: string
  qr_chunkId :: string
  qr_chunkIndex :: int
  qr_ordinal :: int
  qr_stem :: string
  qr_explanation :: string
  qr_citation :: citation
  qr_idempotencyKey :: string

record option_row =
  or_id :: string
  or_questionId :: string
  or_ownerId :: string
  or_optionIndex :: int
  or_content :: string
  or_isCorrect :: bool

record attempt_row =
  ar_id :: string
  ar_quizId :: string
  ar_ownerId :: string
  ar_score :: int
  ar_questionCount :: int
  ar_createdAt :: int

record answer_row =
  aa_attemptId :: string
  aa_questionId :: string
  aa_selectedOptionId :: string
  aa_ownerId :: string
  aa_isCorrect :: bool

record quiz_db =
  db_quizzes :: "quiz_row list"
  db_questions :: "question_row list"
  db_options :: "option_row list"
  db_attempts :: "attempt_row list"
  db_answers :: "answer_row list"

definition empty_quiz_db :: quiz_db where
  "empty_quiz_db = \<lparr>db_quizzes = [], db_questions = [], db_options = [], db_attempts = [], db_answers = []\<rparr>"

datatype store_error = StoreAssessment assessment_error | StoreDb

section \<open>Constraints\<close>

definition quiz_row_ok :: "quiz_row \<Rightarrow> bool" where
  "quiz_row_ok r \<longleftrightarrow>
     nonblank (zr_promptVersion r) \<and> length (zr_promptVersion r) \<le> 128 \<and> length (zr_idempotencyKey r) = 64"

definition question_row_ok :: "question_row \<Rightarrow> bool" where
  "question_row_ok r \<longleftrightarrow>
     fits_int4 (qr_chunkIndex r) \<and> 0 \<le> qr_chunkIndex r \<and> fits_int4 (qr_ordinal r) \<and> 0 \<le> qr_ordinal r \<and>
     nonblank (qr_stem r) \<and> nonblank (qr_explanation r) \<and>
     nonblank (cit_chunkId (qr_citation r)) \<and> nonblank (cit_snippet (qr_citation r)) \<and>
     cit_chunkId (qr_citation r) = qr_chunkId r \<and> length (qr_idempotencyKey r) = 64"

definition option_row_ok :: "option_row \<Rightarrow> bool" where
  "option_row_ok r \<longleftrightarrow> fits_int4 (or_optionIndex r) \<and> 0 \<le> or_optionIndex r \<and> nonblank (or_content r)"

definition attempt_row_ok :: "attempt_row \<Rightarrow> bool" where
  "attempt_row_ok r \<longleftrightarrow>
     fits_int4 (ar_questionCount r) \<and> 0 \<le> ar_score r \<and> 0 < ar_questionCount r \<and> ar_score r \<le> ar_questionCount r"

definition quiz_keys :: "quiz_row list \<Rightarrow> bool" where
  "quiz_keys rows \<longleftrightarrow>
     list_all quiz_row_ok rows \<and> distinct (map zr_id rows) \<and> distinct (map zr_idempotencyKey rows)"

definition question_keys :: "string set \<Rightarrow> question_row list \<Rightarrow> bool" where
  "question_keys quizzes rows \<longleftrightarrow>
     list_all question_row_ok rows \<and> distinct (map qr_id rows) \<and> distinct (map qr_idempotencyKey rows) \<and>
     distinct (map (\<lambda>r. (qr_quizId r, qr_chunkId r, qr_ordinal r)) rows) \<and>
     list_all (\<lambda>r. qr_quizId r \<in> quizzes) rows"

definition option_keys :: "string set \<Rightarrow> option_row list \<Rightarrow> bool" where
  "option_keys questions rows \<longleftrightarrow>
     list_all option_row_ok rows \<and> distinct (map or_id rows) \<and>
     distinct (map (\<lambda>r. (or_questionId r, or_optionIndex r)) rows) \<and>
     list_all (\<lambda>r. or_questionId r \<in> questions) rows"

definition attempt_keys :: "string set \<Rightarrow> attempt_row list \<Rightarrow> bool" where
  "attempt_keys quizzes rows \<longleftrightarrow>
     list_all attempt_row_ok rows \<and> distinct (map ar_id rows) \<and> list_all (\<lambda>r. ar_quizId r \<in> quizzes) rows"

definition answer_keys :: "string set \<Rightarrow> string set \<Rightarrow> string set \<Rightarrow> answer_row list \<Rightarrow> bool" where
  "answer_keys attempts questions options rows \<longleftrightarrow>
     distinct (map (\<lambda>r. (aa_attemptId r, aa_questionId r)) rows) \<and>
     list_all (\<lambda>r. aa_attemptId r \<in> attempts \<and> aa_questionId r \<in> questions \<and> aa_selectedOptionId r \<in> options) rows"

definition db_constraints :: "quiz_db \<Rightarrow> bool" where
  "db_constraints db \<longleftrightarrow>
     quiz_keys (db_quizzes db) \<and>
     question_keys (set (map zr_id (db_quizzes db))) (db_questions db) \<and>
     option_keys (set (map qr_id (db_questions db))) (db_options db) \<and>
     attempt_keys (set (map zr_id (db_quizzes db))) (db_attempts db) \<and>
     answer_keys (set (map ar_id (db_attempts db))) (set (map qr_id (db_questions db)))
       (set (map or_id (db_options db))) (db_answers db)"

definition checked :: "quiz_db \<Rightarrow> store_error + quiz_db" where
  "checked db = (if db_constraints db then Inr db else Inl StoreDb)"

section \<open>Writing a quiz\<close>

record persisted_quiz =
  pq_quizId :: string
  pq_questionCount :: nat
  pq_optionCount :: nat
  pq_questionIds :: "string list"

definition quiz_row_of :: "quiz \<Rightarrow> quiz_row" where
  "quiz_row_of z =
     \<lparr>zr_id = qz_id z, zr_documentId = qz_documentId z, zr_ownerId = qz_ownerId z,
      zr_promptVersion = qz_promptVersion z, zr_idempotencyKey = qz_idempotencyKey z\<rparr>"

definition question_row_of :: "quiz \<Rightarrow> question \<Rightarrow> question_row" where
  "question_row_of z q =
     \<lparr>qr_id = qu_id q, qr_quizId = qz_id z, qr_ownerId = qz_ownerId z, qr_chunkId = qu_chunkId q,
      qr_chunkIndex = qu_chunkIndex q, qr_ordinal = qu_ordinal q, qr_stem = qu_stem q,
      qr_explanation = qu_explanation q, qr_citation = qu_citation q,
      qr_idempotencyKey = qu_idempotencyKey q\<rparr>"

definition option_row_of :: "quiz \<Rightarrow> question \<Rightarrow> question_option \<Rightarrow> option_row" where
  "option_row_of z q p =
     \<lparr>or_id = opt_id p, or_questionId = qu_id q, or_ownerId = qz_ownerId z,
      or_optionIndex = int (opt_optionIndex p), or_content = opt_content p, or_isCorrect = opt_isCorrect p\<rparr>"

definition ordered_questions :: "quiz_db \<Rightarrow> string \<Rightarrow> string \<Rightarrow> question_row list" where
  "ordered_questions db ownerId quizId =
     sort_key (\<lambda>r. (qr_ordinal r, qr_id r))
       (filter (\<lambda>r. qr_ownerId r = ownerId \<and> qr_quizId r = quizId) (db_questions db))"

definition options_of :: "quiz_db \<Rightarrow> string \<Rightarrow> question_row list \<Rightarrow> option_row list" where
  "options_of db ownerId questions =
     filter (\<lambda>r. or_ownerId r = ownerId \<and> or_questionId r \<in> set (map qr_id questions)) (db_options db)"

text \<open>\<open>existingResult\<close>: what an earlier handoff with the same key has stored.\<close>

definition existingResult :: "quiz_db \<Rightarrow> string \<Rightarrow> string \<Rightarrow> store_error + persisted_quiz" where
  "existingResult db idempotencyKey ownerId =
     (case List.find (\<lambda>r. zr_idempotencyKey r = idempotencyKey \<and> zr_ownerId r = ownerId) (db_quizzes db) of
        None \<Rightarrow> Inl (StoreAssessment (AssessmentError IDEMPOTENCY_OWNER_CONFLICT None None))
      | Some r \<Rightarrow>
          let questions = ordered_questions db ownerId (zr_id r);
              optionCount = (if questions = [] then 0 else length (options_of db ownerId questions))
          in Inr \<lparr>pq_quizId = zr_id r, pq_questionCount = length questions,
                  pq_optionCount = optionCount, pq_questionIds = map qr_id questions\<rparr>)"

definition save_questions :: "question_row list \<Rightarrow> quiz_db \<Rightarrow> store_error + quiz_db" where
  "save_questions rows db =
     (case save_rows qr_id (\<lambda>_ n. n) rows (db_questions db) of
        None \<Rightarrow> Inl StoreDb | Some t \<Rightarrow> checked (db\<lparr>db_questions := t\<rparr>))"

definition save_options :: "option_row list \<Rightarrow> quiz_db \<Rightarrow> store_error + quiz_db" where
  "save_options rows db =
     (case save_rows or_id (\<lambda>_ n. n) rows (db_options db) of
        None \<Rightarrow> Inl StoreDb | Some t \<Rightarrow> checked (db\<lparr>db_options := t\<rparr>))"

definition quiz_persist_tx :: "quiz \<Rightarrow> quiz_db \<Rightarrow> store_error + (persisted_quiz \<times> quiz_db)" where
  "quiz_persist_tx z db =
     (let row = quiz_row_of z in
      if \<not> quiz_row_ok row then Inl StoreDb
      else if list_ex (\<lambda>r. zr_id r = zr_id row \<or> zr_idempotencyKey r = zr_idempotencyKey row) (db_quizzes db)
      then and_then (existingResult db (qz_idempotencyKey z) (qz_ownerId z)) (\<lambda>r. Inr (r, db))
      else
        and_then (checked (db\<lparr>db_quizzes := db_quizzes db @ [row]\<rparr>)) (\<lambda>db1.
        and_then (save_questions (map (question_row_of z) (qz_questions z)) db1) (\<lambda>db2.
        and_then (save_options (concat (map (\<lambda>q. map (option_row_of z q) (qu_options q)) (qz_questions z))) db2)
          (\<lambda>db3.
            Inr (\<lparr>pq_quizId = qz_id z, pq_questionCount = length (qz_questions z),
                  pq_optionCount = sum_list (map (\<lambda>q. length (qu_options q)) (qz_questions z)),
                  pq_questionIds = map qu_id (qz_questions z)\<rparr>, db3)))))"

definition quiz_persist :: "quiz \<Rightarrow> quiz_db \<Rightarrow> (store_error + persisted_quiz) \<times> quiz_db" where
  "quiz_persist z = in_transaction (quiz_persist_tx z)"

section \<open>Reading a quiz\<close>

definition find_owned_quiz :: "quiz_db \<Rightarrow> string \<Rightarrow> string \<Rightarrow> quiz_row option" where
  "find_owned_quiz db ownerId quizId =
     List.find (\<lambda>r. zr_id r = quizId \<and> zr_ownerId r = ownerId) (db_quizzes db)"

definition loaded_options :: "quiz_db \<Rightarrow> string \<Rightarrow> question_row list \<Rightarrow> option_row list" where
  "loaded_options db ownerId questions =
     (if questions = [] then [] else sort_key or_optionIndex (options_of db ownerId questions))"

definition findServedByOwnerId :: "string \<Rightarrow> string \<Rightarrow> quiz_db \<Rightarrow> served_quiz option" where
  "findServedByOwnerId ownerId quizId db =
     (case find_owned_quiz db ownerId quizId of
        None \<Rightarrow> None
      | Some r \<Rightarrow>
          let questions = ordered_questions db ownerId quizId;
              options = loaded_options db ownerId questions
          in Some \<lparr>sv_id = zr_id r,
                   sv_questions = map (\<lambda>q.
                     \<lparr>sq_id = qr_id q, sq_ordinal = qr_ordinal q,
                      sq_options = map (\<lambda>p. \<lparr>so_content = or_content p, so_id = or_id p,
                                             so_optionIndex = or_optionIndex p\<rparr>)
                                     (filter (\<lambda>p. or_questionId p = qr_id q) options),
                      sq_stem = qr_stem q\<rparr>) questions\<rparr>)"

definition findForGradingByOwnerId :: "string \<Rightarrow> string \<Rightarrow> quiz_db \<Rightarrow> grading_quiz option" where
  "findForGradingByOwnerId ownerId quizId db =
     (case find_owned_quiz db ownerId quizId of
        None \<Rightarrow> None
      | Some r \<Rightarrow>
          let questions = ordered_questions db ownerId quizId;
              options = loaded_options db ownerId questions
          in Some \<lparr>gz_id = zr_id r,
                   gz_questions = map (\<lambda>q.
                     \<lparr>gq_citation = qr_citation q, gq_explanation = qr_explanation q, gq_id = qr_id q,
                      gq_ordinal = qr_ordinal q,
                      gq_options = map (\<lambda>p. \<lparr>so_content = or_content p, so_id = or_id p,
                                             so_optionIndex = or_optionIndex p, go_isCorrect = or_isCorrect p\<rparr>)
                                     (filter (\<lambda>p. or_questionId p = qr_id q) options),
                      gq_stem = qr_stem q\<rparr>) questions\<rparr>)"

record quiz_summary =
  qs_documentId :: string
  qs_questionCount :: nat
  qs_quizId :: string

definition findByOwnerAndDocumentId :: "string \<Rightarrow> string \<Rightarrow> quiz_db \<Rightarrow> quiz_summary option" where
  "findByOwnerAndDocumentId ownerId documentId db =
     (case List.find (\<lambda>r. zr_documentId r = documentId \<and> zr_ownerId r = ownerId) (db_quizzes db) of
        None \<Rightarrow> None
      | Some r \<Rightarrow> Some \<lparr>qs_documentId = zr_documentId r,
          qs_questionCount = length (filter (\<lambda>q. qr_ownerId q = ownerId \<and> qr_quizId q = zr_id r) (db_questions db)),
          qs_quizId = zr_id r\<rparr>)"

section \<open>Attempts\<close>

definition attempt_row_of :: "int \<Rightarrow> persisted_attempt \<Rightarrow> attempt_row" where
  "attempt_row_of now a =
     \<lparr>ar_id = pa_id a, ar_quizId = pa_quizId a, ar_ownerId = pa_ownerId a, ar_score = int (pa_score a),
      ar_questionCount = int (pa_questionCount a), ar_createdAt = now\<rparr>"

definition answer_row_of :: "persisted_attempt \<Rightarrow> graded_answer \<Rightarrow> answer_row" where
  "answer_row_of a x =
     \<lparr>aa_attemptId = pa_id a, aa_questionId = ga_questionId x, aa_selectedOptionId = ga_selectedOptionId x,
      aa_ownerId = pa_ownerId a, aa_isCorrect = ga_isCorrect x\<rparr>"

definition save_attempts :: "attempt_row list \<Rightarrow> quiz_db \<Rightarrow> store_error + quiz_db" where
  "save_attempts rows db =
     (case save_rows ar_id (\<lambda>r n. n\<lparr>ar_createdAt := ar_createdAt r\<rparr>) rows (db_attempts db) of
        None \<Rightarrow> Inl StoreDb | Some t \<Rightarrow> checked (db\<lparr>db_attempts := t\<rparr>))"

definition save_answers :: "answer_row list \<Rightarrow> quiz_db \<Rightarrow> store_error + quiz_db" where
  "save_answers rows db =
     (case save_rows (\<lambda>r. (aa_attemptId r, aa_questionId r)) (\<lambda>_ n. n) rows (db_answers db) of
        None \<Rightarrow> Inl StoreDb | Some t \<Rightarrow> checked (db\<lparr>db_answers := t\<rparr>))"

definition persistAttempt_tx :: "int \<Rightarrow> persisted_attempt \<Rightarrow> quiz_db \<Rightarrow> store_error + (bool \<times> quiz_db)" where
  "persistAttempt_tx now a db =
     (case find_owned_quiz db (pa_ownerId a) (pa_quizId a) of
        None \<Rightarrow> Inr (False, db)
      | Some _ \<Rightarrow>
          and_then (save_attempts [attempt_row_of now a] db) (\<lambda>db1.
          and_then (save_answers (map (answer_row_of a) (pa_results a)) db1) (\<lambda>db2. Inr (True, db2))))"

definition persistAttempt :: "int \<Rightarrow> persisted_attempt \<Rightarrow> quiz_db \<Rightarrow> (store_error + bool) \<times> quiz_db" where
  "persistAttempt now a = in_transaction (persistAttempt_tx now a)"

record attempt_question_result = graded_answer +
  aq_correctOptionContent :: string
  aq_correctOptionId :: string
  aq_ordinal :: int
  aq_selectedOptionContent :: string
  aq_stem :: string

record attempt_result =
  at_id :: string
  at_questionCount :: int
  at_quizId :: string
  at_results :: "attempt_question_result list"
  at_score :: int
  at_submittedAt :: int

text \<open>The loop of \<open>AttemptResultRepository\<close>: one result per question, \<^const>\<open>None\<close> on a gap.\<close>

definition question_result ::
  "answer_row list \<Rightarrow> option_row list \<Rightarrow> question_row \<Rightarrow> attempt_question_result option" where
  "question_result answers options q =
     (case List.find (\<lambda>a. aa_questionId a = qr_id q) answers of
        None \<Rightarrow> None
      | Some answer \<Rightarrow>
          (case (List.find (\<lambda>p. or_id p = aa_selectedOptionId answer \<and> or_questionId p = qr_id q) options,
                 List.find (\<lambda>p. or_questionId p = qr_id q \<and> or_isCorrect p) options) of
             (Some selected, Some correct) \<Rightarrow>
               Some \<lparr>ga_citation = qr_citation q, ga_explanation = qr_explanation q,
                     ga_isCorrect = aa_isCorrect answer, ga_questionId = qr_id q,
                     ga_selectedOptionId = or_id selected, aq_correctOptionContent = or_content correct,
                     aq_correctOptionId = or_id correct, aq_ordinal = qr_ordinal q,
                     aq_selectedOptionContent = or_content selected, aq_stem = qr_stem q\<rparr>
           | _ \<Rightarrow> None))"

definition findByOwnerQuizAndAttemptId :: "string \<Rightarrow> string \<Rightarrow> string \<Rightarrow> quiz_db \<Rightarrow> attempt_result option" where
  "findByOwnerQuizAndAttemptId ownerId quizId attemptId db =
     (case List.find (\<lambda>r. ar_id r = attemptId \<and> ar_ownerId r = ownerId \<and> ar_quizId r = quizId) (db_attempts db) of
        None \<Rightarrow> None
      | Some attempt \<Rightarrow>
          let answers = filter (\<lambda>a. aa_attemptId a = attemptId \<and> aa_ownerId a = ownerId) (db_answers db);
              questions = (if answers = [] then []
                else sort_key (\<lambda>r. (qr_ordinal r, qr_id r))
                  (filter (\<lambda>r. qr_id r \<in> set (map aa_questionId answers) \<and> qr_ownerId r = ownerId \<and> qr_quizId r = quizId)
                    (db_questions db)))
          in if length questions \<noteq> length answers then None
             else
               let options = (if questions = [] then [] else options_of db ownerId questions)
               in case those (map (question_result answers options) questions) of
                    None \<Rightarrow> None
                  | Some results \<Rightarrow>
                      Some \<lparr>at_id = ar_id attempt, at_questionCount = ar_questionCount attempt,
                            at_quizId = ar_quizId attempt, at_results = results,
                            at_score = ar_score attempt, at_submittedAt = ar_createdAt attempt\<rparr>)"

section \<open>Storing a new quiz\<close>

text \<open>What the constraints ask of a quiz on its own, and of a quiz against the database.\<close>

definition storable :: "quiz \<Rightarrow> bool" where
  "storable z \<longleftrightarrow>
     quiz_row_ok (quiz_row_of z) \<and>
     (\<forall>q\<in>set (qz_questions z). mcq_wf q \<and> qu_chunkIndex q \<le> 2147483647 \<and> nonblank (qu_chunkId q) \<and>
        length (qu_idempotencyKey q) = 64 \<and> length (qu_options q) \<le> 2147483647) \<and>
     map qu_ordinal (qz_questions z) = map int [0..<length (qz_questions z)] \<and>
     length (qz_questions z) \<le> 2147483647 \<and>
     distinct (map qu_id (qz_questions z)) \<and> distinct (map qu_idempotencyKey (qz_questions z)) \<and>
     distinct (concat (map (\<lambda>q. map opt_id (qu_options q)) (qz_questions z)))"

definition unused :: "quiz \<Rightarrow> quiz_db \<Rightarrow> bool" where
  "unused z db \<longleftrightarrow>
     qz_id z \<notin> zr_id ` set (db_quizzes db) \<and> qz_idempotencyKey z \<notin> zr_idempotencyKey ` set (db_quizzes db) \<and>
     set (map qu_id (qz_questions z)) \<inter> qr_id ` set (db_questions db) = {} \<and>
     set (map qu_idempotencyKey (qz_questions z)) \<inter> qr_idempotencyKey ` set (db_questions db) = {} \<and>
     set (concat (map (\<lambda>q. map opt_id (qu_options q)) (qz_questions z))) \<inter> or_id ` set (db_options db) = {}"

definition question_rows :: "quiz \<Rightarrow> question_row list" where
  "question_rows z = map (question_row_of z) (qz_questions z)"

definition option_rows :: "quiz \<Rightarrow> option_row list" where
  "option_rows z = concat (map (\<lambda>q. map (option_row_of z q) (qu_options q)) (qz_questions z))"

definition stored :: "quiz \<Rightarrow> quiz_db \<Rightarrow> quiz_db" where
  "stored z db = db\<lparr>db_quizzes := db_quizzes db @ [quiz_row_of z],
                    db_questions := db_questions db @ question_rows z,
                    db_options := db_options db @ option_rows z\<rparr>"

lemma row_simps [simp]:
  "zr_id (quiz_row_of z) = qz_id z" "zr_idempotencyKey (quiz_row_of z) = qz_idempotencyKey z"
  "zr_ownerId (quiz_row_of z) = qz_ownerId z" "zr_documentId (quiz_row_of z) = qz_documentId z"
  "qr_id (question_row_of z q) = qu_id q" "qr_quizId (question_row_of z q) = qz_id z"
  "qr_ownerId (question_row_of z q) = qz_ownerId z" "qr_ordinal (question_row_of z q) = qu_ordinal q"
  "qr_idempotencyKey (question_row_of z q) = qu_idempotencyKey q"
  "qr_chunkId (question_row_of z q) = qu_chunkId q"
  "qr_stem (question_row_of z q) = qu_stem q" "qr_explanation (question_row_of z q) = qu_explanation q"
  "qr_citation (question_row_of z q) = qu_citation q"
  "or_id (option_row_of z q p) = opt_id p" "or_questionId (option_row_of z q p) = qu_id q"
  "or_ownerId (option_row_of z q p) = qz_ownerId z"
  "or_optionIndex (option_row_of z q p) = int (opt_optionIndex p)"
  "or_content (option_row_of z q p) = opt_content p" "or_isCorrect (option_row_of z q p) = opt_isCorrect p"
  by (simp_all add: quiz_row_of_def question_row_of_def option_row_of_def)

lemma trimmed_nonblank: "trimmed s \<Longrightarrow> nonblank s"
  using js_trim_nonblank [of s] by (auto simp: trimmed_def)

lemma question_row_ok_of:
  "storable z \<Longrightarrow> q \<in> set (qz_questions z) \<Longrightarrow> question_row_ok (question_row_of z q)"
proof -
  assume st: "storable z" and q: "q \<in> set (qz_questions z)"
  then have "qu_ordinal q \<in> set (map int [0..<length (qz_questions z)])"
    unfolding storable_def by (metis imageI list.set_map)
  with st q show ?thesis
    by (auto simp: storable_def question_row_ok_def mcq_wf_def question_row_of_def fits_int4_def
        intro: trimmed_nonblank)
qed

lemma option_row_ok_of:
  assumes "storable z" and "q \<in> set (qz_questions z)" and p: "p \<in> set (qu_options q)"
  shows "option_row_ok (option_row_of z q p)"
proof -
  from assms have wf: "mcq_wf q" and len: "length (qu_options q) \<le> 2147483647" by (auto simp: storable_def)
  from p have "opt_optionIndex p \<in> set (map opt_optionIndex (qu_options q))" by simp
  with wf have "opt_optionIndex p < length (qu_options q)" by (simp add: mcq_wf_def)
  with wf len p show ?thesis
    by (auto simp: option_row_ok_def fits_int4_def mcq_wf_def list_all_iff intro: trimmed_nonblank)
qed

lemma distinct_option_index:
  assumes "\<And>q. q \<in> set qs \<Longrightarrow> mcq_wf q" and "distinct (map qu_id qs)"
  shows "distinct (map (\<lambda>r. (or_questionId r, or_optionIndex r))
    (concat (map (\<lambda>q. map (option_row_of z q) (qu_options q)) qs)))"
  using assms
proof (induction qs)
  case (Cons q qs)
  have "distinct (map opt_optionIndex (qu_options q))"
    using Cons.prems(1) [of q] by (simp add: mcq_wf_def)
  then have "distinct (map (\<lambda>p. (qu_id q, int (opt_optionIndex p))) (qu_options q))"
    by (auto simp: distinct_map inj_on_def)
  moreover have "\<forall>r\<in>set (concat (map (\<lambda>q. map (option_row_of z q) (qu_options q)) qs)). or_questionId r \<noteq> qu_id q"
    using Cons.prems(2) by (auto simp: image_iff)
  ultimately show ?case
    using Cons by (auto simp: comp_def)
qed simp

lemma option_row_ids:
  "map or_id (option_rows z) = concat (map (\<lambda>q. map opt_id (qu_options q)) (qz_questions z))"
  by (simp add: option_rows_def map_concat comp_def)

lemma question_keys_mono: "question_keys A rows \<Longrightarrow> A \<subseteq> B \<Longrightarrow> question_keys B rows"
  by (auto simp: question_keys_def list_all_iff)

lemma attempt_keys_mono: "attempt_keys A rows \<Longrightarrow> A \<subseteq> B \<Longrightarrow> attempt_keys B rows"
  by (auto simp: attempt_keys_def list_all_iff)

lemma option_keys_mono: "option_keys A rows \<Longrightarrow> A \<subseteq> B \<Longrightarrow> option_keys B rows"
  by (auto simp: option_keys_def list_all_iff)

lemma answer_keys_mono:
  "answer_keys A B C rows \<Longrightarrow> A \<subseteq> A' \<Longrightarrow> B \<subseteq> B' \<Longrightarrow> C \<subseteq> C' \<Longrightarrow> answer_keys A' B' C' rows"
  by (auto simp: answer_keys_def list_all_iff)

lemmas keys_mono = question_keys_mono attempt_keys_mono option_keys_mono answer_keys_mono

lemma stage_quiz:
  assumes "db_constraints db" and "storable z" and "unused z db"
  shows "db_constraints (db\<lparr>db_quizzes := db_quizzes db @ [quiz_row_of z]\<rparr>)"
  using assms by (auto simp: db_constraints_def quiz_keys_def storable_def unused_def elim: keys_mono)

lemma question_keys_stored:
  assumes "db_constraints db" and "storable z" and "unused z db"
  shows "question_keys (set (map zr_id (db_quizzes (stored z db)))) (db_questions (stored z db))"
proof -
  have old: "question_keys (set (map zr_id (db_quizzes db))) (db_questions db)"
    using assms(1) by (simp add: db_constraints_def)
  have "distinct (map qu_ordinal (qz_questions z))"
    using assms(2) by (simp add: storable_def distinct_map)
  then have "distinct (map (\<lambda>q. (qz_id z, qu_chunkId q, qu_ordinal q)) (qz_questions z))"
    by (auto simp: distinct_map inj_on_def)
  moreover have "\<forall>r\<in>set (db_questions db). qr_quizId r \<noteq> qz_id z"
    using old assms(3) unfolding question_keys_def unused_def list_all_iff by (metis list.set_map)
  ultimately show ?thesis
    using old assms(2,3) question_row_ok_of [OF assms(2)]
    by (auto simp: question_keys_def stored_def question_rows_def storable_def unused_def list_all_iff comp_def)
qed

lemma option_keys_stored:
  assumes "db_constraints db" and "storable z" and "unused z db"
  shows "option_keys (set (map qr_id (db_questions (stored z db)))) (db_options (stored z db))"
proof -
  have old: "option_keys (set (map qr_id (db_questions db))) (db_options db)"
    using assms(1) by (simp add: db_constraints_def)
  have index: "distinct (map (\<lambda>r. (or_questionId r, or_optionIndex r)) (option_rows z))"
    unfolding option_rows_def using assms(2) by (intro distinct_option_index) (auto simp: storable_def)
  have new: "option_row_ok r \<and> or_questionId r \<in> set (map qu_id (qz_questions z))" if "r \<in> set (option_rows z)" for r
    using option_row_ok_of [OF assms(2)] that by (auto simp: option_rows_def)
  have ex: "or_questionId r \<in> set (map qr_id (db_questions db))" if "r \<in> set (db_options db)" for r
    using old that unfolding option_keys_def list_all_iff by blast
  have disj: "set (map qu_id (qz_questions z)) \<inter> set (map qr_id (db_questions db)) = {}"
    using assms(3) by (simp add: unused_def)
  then have "(or_questionId r, or_optionIndex r) \<noteq> (or_questionId n, or_optionIndex n)"
    if "r \<in> set (db_options db)" "n \<in> set (option_rows z)" for r n
    using ex [OF that(1)] new [OF that(2)] by auto
  with index old have "distinct (map (\<lambda>r. (or_questionId r, or_optionIndex r)) (db_options (stored z db)))"
    by (auto simp: option_keys_def stored_def)
  moreover have "distinct (map or_id (option_rows z))"
      "or_id ` set (db_options db) \<inter> set (map or_id (option_rows z)) = {}"
    unfolding option_row_ids using assms(2,3) by (simp_all add: storable_def unused_def Int_commute)
  with old have "distinct (map or_id (db_options (stored z db)))"
    by (simp add: option_keys_def stored_def)
  moreover have "list_all option_row_ok (db_options (stored z db))"
    using old new by (auto simp: option_keys_def stored_def list_all_iff)
  moreover have "list_all (\<lambda>r. or_questionId r \<in> set (map qr_id (db_questions (stored z db)))) (db_options (stored z db))"
    using ex new by (auto simp: stored_def question_rows_def list_all_iff)
  ultimately show ?thesis by (simp add: option_keys_def)
qed

lemma stored_constraints:
  assumes "db_constraints db" and "storable z" and "unused z db"
  shows "db_constraints (stored z db)"
    and "db_constraints (db\<lparr>db_quizzes := db_quizzes db @ [quiz_row_of z], db_questions := db_questions db @ question_rows z\<rparr>)"
proof -
  note st = stage_quiz [OF assms] question_keys_stored [OF assms] option_keys_stored [OF assms]
  from st show "db_constraints (stored z db)"
    by (auto simp: db_constraints_def stored_def elim: answer_keys_mono)
  from st assms(1) show "db_constraints (db\<lparr>db_quizzes := db_quizzes db @ [quiz_row_of z], db_questions := db_questions db @ question_rows z\<rparr>)"
    by (auto simp: db_constraints_def stored_def elim: keys_mono)
qed

lemma quiz_persist_new:
  assumes "db_constraints db" and "storable z" and "unused z db"
  shows "quiz_persist z db =
    (Inr \<lparr>pq_quizId = qz_id z, pq_questionCount = length (qz_questions z),
          pq_optionCount = length (option_rows z), pq_questionIds = map qu_id (qz_questions z)\<rparr>, stored z db)"
proof -
  let ?db1 = "db\<lparr>db_quizzes := db_quizzes db @ [quiz_row_of z]\<rparr>"
  have ok: "quiz_row_ok (quiz_row_of z)" using assms(2) by (simp add: storable_def)
  have fresh: "\<not> list_ex (\<lambda>r. zr_id r = qz_id z \<or> zr_idempotencyKey r = qz_idempotencyKey z) (db_quizzes db)"
    using assms(3) by (auto simp: unused_def list_ex_iff image_iff)
  have q: "save_rows qr_id (\<lambda>_ n. n) (question_rows z) (db_questions db) = Some (db_questions db @ question_rows z)"
    using assms(2,3) by (intro save_rows_fresh) (auto simp: question_rows_def storable_def unused_def comp_def)
  have p: "save_rows or_id (\<lambda>_ n. n) (option_rows z) (db_options db) = Some (db_options db @ option_rows z)"
    using assms(2,3) unfolding storable_def unused_def option_row_ids [symmetric]
    by (intro save_rows_fresh) auto
  have len: "sum_list (map (\<lambda>q. length (qu_options q)) (qz_questions z)) = length (option_rows z)"
    by (simp add: option_rows_def length_concat comp_def)
  show ?thesis
    using ok fresh q p stage_quiz [OF assms] stored_constraints [OF assms] len
    by (simp add: quiz_persist_def in_transaction_def quiz_persist_tx_def checked_def save_questions_def
        save_options_def stored_def Let_def flip: question_rows_def option_rows_def)
qed

section \<open>Reading it back\<close>

definition grading_option_of :: "question_option \<Rightarrow> grading_option" where
  "grading_option_of p = \<lparr>so_content = opt_content p, so_id = opt_id p,
     so_optionIndex = int (opt_optionIndex p), go_isCorrect = opt_isCorrect p\<rparr>"

definition grading_view :: "quiz \<Rightarrow> grading_quiz" where
  "grading_view z =
     \<lparr>gz_id = qz_id z,
      gz_questions = map (\<lambda>q. \<lparr>gq_citation = qu_citation q, gq_explanation = qu_explanation q, gq_id = qu_id q,
        gq_ordinal = qu_ordinal q, gq_options = map grading_option_of (qu_options q), gq_stem = qu_stem q\<rparr>)
        (qz_questions z)\<rparr>"

text \<open>What a learner is shown of a quiz: no citation, no explanation, no correct answer.\<close>

definition served_view :: "grading_quiz \<Rightarrow> served_quiz" where
  "served_view g =
     \<lparr>sv_id = gz_id g,
      sv_questions = map (\<lambda>q. \<lparr>sq_id = gq_id q, sq_ordinal = gq_ordinal q,
        sq_options = map served_option.truncate (gq_options q), sq_stem = gq_stem q\<rparr>) (gz_questions g)\<rparr>"

lemma served_is_stripped_grading:
  "findServedByOwnerId w i db = map_option served_view (findForGradingByOwnerId w i db)"
  by (simp add: findServedByOwnerId_def findForGradingByOwnerId_def served_view_def Let_def
      served_option.truncate_def comp_def split: option.split)

lemma ordered_questions_stored:
  assumes "db_constraints db" and "storable z" and "unused z db"
  shows "ordered_questions (stored z db) (qz_ownerId z) (qz_id z) = question_rows z"
proof -
  have "qr_quizId r \<noteq> qz_id z" if "r \<in> set (db_questions db)" for r
    using assms(1,3) that unfolding db_constraints_def question_keys_def unused_def list_all_iff by (metis list.set_map)
  then have "filter (\<lambda>r. qr_ownerId r = qz_ownerId z \<and> qr_quizId r = qz_id z) (db_questions (stored z db))
      = question_rows z"
    by (auto simp: stored_def question_rows_def filter_empty_conv)
  moreover have "sorted (map (\<lambda>r. (qr_ordinal r, qr_id r)) (question_rows z))"
  proof -
    have "sorted_wrt (\<lambda>a b. qu_ordinal a < qu_ordinal b) (qz_questions z)"
      using assms(2) unfolding storable_def sorted_wrt_map [of _ qu_ordinal, symmetric]
      by (simp add: sorted_wrt_map)
    then show ?thesis
      by (auto simp: question_rows_def sorted_wrt_map comp_def less_eq_prod_def elim: sorted_wrt_mono_rel [rotated])
  qed
  ultimately show ?thesis
    by (simp add: ordered_questions_def sort_key_id_if_sorted)
qed

lemma options_of_stored:
  assumes "db_constraints db" and "storable z" and "unused z db"
  shows "options_of (stored z db) (qz_ownerId z) (question_rows z) = option_rows z"
proof -
  have "or_questionId r \<notin> set (map qu_id (qz_questions z))" if "r \<in> set (db_options db)" for r
  proof -
    have "or_questionId r \<in> set (map qr_id (db_questions db))"
      using assms(1) that by (auto simp: db_constraints_def option_keys_def list_all_iff)
    moreover have "set (map qu_id (qz_questions z)) \<inter> set (map qr_id (db_questions db)) = {}"
      using assms(3) by (simp add: unused_def)
    ultimately show ?thesis by blast
  qed
  then show ?thesis
    by (auto simp: options_of_def stored_def question_rows_def option_rows_def filter_empty_conv filter_id_conv)
qed

lemma filter_option_rows:
  assumes "distinct (map qu_id qs)" and "q \<in> set qs"
  shows "filter (\<lambda>r. or_questionId r = qu_id q) (concat (map (\<lambda>q. map (option_row_of z q) (qu_options q)) qs))
    = map (option_row_of z q) (qu_options q)"
  using assms
proof (induction qs)
  case (Cons a qs)
  show ?case
  proof (cases "a = q")
    case True
    with Cons.prems have "filter (\<lambda>r. or_questionId r = qu_id q) (concat (map (\<lambda>q. map (option_row_of z q) (qu_options q)) qs)) = []"
      by (auto simp: filter_empty_conv image_iff)
    with True show ?thesis by (simp add: comp_def)
  next
    case False
    with Cons.prems have "qu_id a \<noteq> qu_id q" by (auto simp: image_iff)
    with False Cons show ?thesis by (simp add: comp_def)
  qed
qed simp

lemma question_options_stored:
  assumes "storable z" and "q \<in> set (qz_questions z)"
  shows "filter (\<lambda>r. or_questionId r = qu_id q) (sort_key or_optionIndex (option_rows z))
    = map (option_row_of z q) (qu_options q)"
proof -
  have "filter (\<lambda>r. or_questionId r = qu_id q) (option_rows z) = map (option_row_of z q) (qu_options q)"
    unfolding option_rows_def using assms by (intro filter_option_rows) (auto simp: storable_def)
  moreover have "sorted (map or_optionIndex (map (option_row_of z q) (qu_options q)))"
  proof -
    have "map opt_optionIndex (qu_options q) = [0..<length (qu_options q)]"
      using assms by (auto simp: storable_def mcq_wf_def)
    then have "sorted (map opt_optionIndex (qu_options q))" by simp
    then show ?thesis by (simp add: comp_def sorted_wrt_map)
  qed
  ultimately show ?thesis
    by (simp add: filter_sort sort_key_id_if_sorted del: map_map)
qed

lemma find_owned_quiz_stored:
  "unused z db \<Longrightarrow> find_owned_quiz (stored z db) (qz_ownerId z) (qz_id z) = Some (quiz_row_of z)"
  unfolding find_owned_quiz_def stored_def
  by (subst find_unique [of "quiz_row_of z"]) (auto simp: unused_def image_iff)

lemma grading_stored:
  assumes "db_constraints db" and "storable z" and "unused z db" and "qz_questions z \<noteq> []"
  shows "findForGradingByOwnerId (qz_ownerId z) (qz_id z) (stored z db) = Some (grading_view z)"
proof -
  have "loaded_options (stored z db) (qz_ownerId z) (question_rows z) = sort_key or_optionIndex (option_rows z)"
    using options_of_stored [OF assms(1-3)] assms(4) by (simp add: loaded_options_def question_rows_def)
  with ordered_questions_stored [OF assms(1-3)] find_owned_quiz_stored [OF assms(3)] show ?thesis
    by (auto simp: findForGradingByOwnerId_def grading_view_def question_rows_def grading_option_of_def comp_def
        question_options_stored [OF assms(2)] Let_def)
qed

section \<open>Invariants\<close>

lemma checked_Inr: "checked db = Inr db' \<longleftrightarrow> db_constraints db \<and> db' = db"
  by (auto simp: checked_def)

lemma save_Inr:
  "save_questions r1 db = Inr db' \<Longrightarrow> db_constraints db'"
  "save_options r2 db = Inr db' \<Longrightarrow> db_constraints db'"
  "save_attempts r3 db = Inr db' \<Longrightarrow> db_constraints db'"
  "save_answers r4 db = Inr db' \<Longrightarrow> db_constraints db'"
  by (auto simp: save_questions_def save_options_def save_attempts_def save_answers_def checked_Inr split: option.splits)

lemma quiz_persist_constraints:
  assumes "db_constraints db"
  shows "db_constraints (snd (quiz_persist z db))"
proof (cases "quiz_persist_tx z db")
  case (Inr x)
  then obtain r db' where "quiz_persist_tx z db = Inr (r, db')" by (cases x) auto
  with assms show ?thesis
    by (auto simp: quiz_persist_def in_transaction_def quiz_persist_tx_def Let_def and_then_eq_Inr
        dest: save_Inr split: if_splits)
qed (use assms in \<open>simp add: quiz_persist_def in_transaction_def\<close>)

lemma persistAttempt_constraints:
  assumes "db_constraints db"
  shows "db_constraints (snd (persistAttempt now a db))"
proof (cases "persistAttempt_tx now a db")
  case (Inr x)
  then obtain r db' where "persistAttempt_tx now a db = Inr (r, db')" by (cases x) auto
  with assms show ?thesis
    by (auto simp: persistAttempt_def in_transaction_def persistAttempt_tx_def and_then_eq_Inr
        dest: save_Inr split: option.splits)
qed (use assms in \<open>simp add: persistAttempt_def in_transaction_def\<close>)

lemma existingResult_stored:
  assumes "db_constraints db" and "storable z" and "unused z db" and "qz_questions z \<noteq> []"
  shows "existingResult (stored z db) (qz_idempotencyKey z) (qz_ownerId z) =
    Inr \<lparr>pq_quizId = qz_id z, pq_questionCount = length (qz_questions z),
         pq_optionCount = length (option_rows z), pq_questionIds = map qu_id (qz_questions z)\<rparr>"
proof -
  have "List.find (\<lambda>r. zr_idempotencyKey r = qz_idempotencyKey z \<and> zr_ownerId r = qz_ownerId z) (db_quizzes (stored z db))
      = Some (quiz_row_of z)"
    using assms(3) by (intro find_unique) (auto simp: unused_def image_iff stored_def)
  then show ?thesis
    using ordered_questions_stored [OF assms(1-3)] options_of_stored [OF assms(1-3)] assms(4)
    by (simp add: existingResult_def question_rows_def comp_def)
qed

lemma quiz_persist_again:
  assumes "db_constraints db" and "storable z" and "unused z db" and "qz_questions z \<noteq> []"
  shows "quiz_persist z (stored z db) =
    (Inr \<lparr>pq_quizId = qz_id z, pq_questionCount = length (qz_questions z),
          pq_optionCount = length (option_rows z), pq_questionIds = map qu_id (qz_questions z)\<rparr>, stored z db)"
proof -
  have "quiz_row_ok (quiz_row_of z)"
    using assms(2) by (simp add: storable_def)
  moreover have "list_ex (\<lambda>r. zr_id r = qz_id z \<or> zr_idempotencyKey r = qz_idempotencyKey z) (db_quizzes (stored z db))"
    by (simp add: stored_def)
  ultimately show ?thesis
    using existingResult_stored [OF assms]
    by (simp add: quiz_persist_def in_transaction_def quiz_persist_tx_def Let_def)
qed

text \<open>C7 Persisting a quiz that fits the constraints of the tables succeeds, keeps the
  constraints, and is read back unchanged: grading sees exactly the aggregate that was
  persisted, learners the same quiz without its answers.  A second persist of the same quiz (a
  redelivered handoff) returns the same result and changes nothing, and a quiz of another owner
  under the same key is refused without a change.\<close>

theorem quiz_persist_roundtrip:
  assumes "db_constraints db" and "storable z" and "unused z db" and "qz_questions z \<noteq> []"
  shows "\<exists>r db'. quiz_persist z db = (Inr r, db') \<and> db_constraints db'
    \<and> findForGradingByOwnerId (qz_ownerId z) (qz_id z) db' = Some (grading_view z)
    \<and> findServedByOwnerId (qz_ownerId z) (qz_id z) db' = Some (served_view (grading_view z))
    \<and> quiz_persist z db' = (Inr r, db')
    \<and> (\<forall>other. other \<noteq> qz_ownerId z \<longrightarrow> quiz_persist (z\<lparr>qz_ownerId := other\<rparr>) db'
         = (Inl (StoreAssessment (AssessmentError IDEMPOTENCY_OWNER_CONFLICT None None)), db'))"
proof -
  have ok: "quiz_row_ok (quiz_row_of z)"
    using assms(2) by (simp add: storable_def)
  have present: "list_ex (\<lambda>r. zr_id r = qz_id z \<or> zr_idempotencyKey r = qz_idempotencyKey z) (db_quizzes (stored z db))"
    by (simp add: stored_def)
  have conflict: "quiz_persist (z\<lparr>qz_ownerId := other\<rparr>) (stored z db) =
      (Inl (StoreAssessment (AssessmentError IDEMPOTENCY_OWNER_CONFLICT None None)), stored z db)"
    if "other \<noteq> qz_ownerId z" for other
  proof -
    have "List.find (\<lambda>r. zr_idempotencyKey r = qz_idempotencyKey z \<and> zr_ownerId r = other) (db_quizzes (stored z db)) = None"
      using assms(3) that by (intro find_NoneI) (auto simp: stored_def unused_def image_iff)
    then show ?thesis
      using ok present
      by (simp add: quiz_persist_def in_transaction_def quiz_persist_tx_def existingResult_def Let_def
          quiz_row_ok_def quiz_row_of_def)
  qed
  show ?thesis
    using quiz_persist_new [OF assms(1-3)] grading_stored [OF assms] quiz_persist_again [OF assms] conflict stored_constraints(1) [OF assms(1-3)]
    by (intro exI conjI allI impI) (assumption | simp add: served_is_stripped_grading)+
qed

definition sample_quiz :: quiz where
  "sample_quiz =
     \<lparr>qz_documentId = ''d'', qz_id = ''z'', qz_idempotencyKey = replicate 64 CHR ''a'', qz_ownerId = ''w'',
      qz_promptVersion = ''p'',
      qz_questions = [\<lparr>qu_chunkId = ''c'', qu_chunkIndex = 0,
        qu_citation = \<lparr>cit_chunkId = ''c'', cit_locator = PageLocator (JFin 1), cit_snippet = ''s''\<rparr>,
        qu_explanation = ''e'', qu_id = ''q'', qu_idempotencyKey = replicate 64 CHR ''b'',
        qu_normalizedStem = ''stem'',
        qu_options = [\<lparr>opt_content = ''yes'', opt_id = ''a'', opt_isCorrect = True, opt_optionIndex = 0\<rparr>,
                      \<lparr>opt_content = ''no'', opt_id = ''b'', opt_isCorrect = False, opt_optionIndex = 1\<rparr>],
        qu_ordinal = 0, qu_stem = ''stem''\<rparr>]\<rparr>"

lemma storable_sample: "storable sample_quiz"
  by (simp add: storable_def sample_quiz_def quiz_row_ok_def quiz_row_of_def nonblank_def mcq_wf_def
      trimmed_def js_trim_def is_ws_def max_safe_integer_def normalize_text_def js_lower_def char_lower_def)

lemma empty_db_constraints: "db_constraints empty_quiz_db"
  by (simp add: db_constraints_def empty_quiz_db_def quiz_keys_def question_keys_def option_keys_def
      attempt_keys_def answer_keys_def)

lemma unused_empty: "unused z empty_quiz_db"
  by (simp add: unused_def empty_quiz_db_def)

lemma quiz_persist_roundtrip_witness:
  "\<exists>r db'. quiz_persist sample_quiz empty_quiz_db = (Inr r, db')
     \<and> findForGradingByOwnerId ''w'' ''z'' db' = Some (grading_view sample_quiz)"
proof -
  have "qz_questions sample_quiz \<noteq> []" "qz_ownerId sample_quiz = ''w''" "qz_id sample_quiz = ''z''"
    by (simp_all add: sample_quiz_def)
  then show ?thesis
    using quiz_persist_roundtrip [OF empty_db_constraints storable_sample unused_empty] by metis
qed

section \<open>Attempts\<close>

text \<open>Every stored question has a correct option of its owner: kept by both writers.\<close>

definition answerable :: "quiz_db \<Rightarrow> bool" where
  "answerable db \<longleftrightarrow>
     (\<forall>q\<in>set (db_questions db). \<exists>p\<in>set (db_options db).
        or_questionId p = qr_id q \<and> or_ownerId p = qr_ownerId q \<and> or_isCorrect p)"

lemma answerable_stored:
  assumes "answerable db" and "storable z"
  shows "answerable (stored z db)"
proof -
  have "\<exists>p\<in>set (qu_options q). opt_isCorrect p" if "q \<in> set (qz_questions z)" for q
  proof -
    have "length (filter opt_isCorrect (qu_options q)) = 1"
      using assms(2) that by (simp add: storable_def mcq_wf_def)
    then have "filter opt_isCorrect (qu_options q) \<noteq> []" by auto
    then show ?thesis by (simp add: filter_empty_conv)
  qed
  then have "\<exists>r\<in>set (option_rows z). or_questionId r = qu_id q \<and> or_ownerId r = qz_ownerId z \<and> or_isCorrect r"
    if "q \<in> set (qz_questions z)" for q
    using that by (fastforce simp: option_rows_def)
  with assms(1) show ?thesis
    unfolding answerable_def stored_def question_rows_def by (auto simp: Bex_def) (metis UnI1 UnI2)+
qed

lemma persistAttempt_catalogue:
  "db_quizzes (snd (persistAttempt now a db)) = db_quizzes db"
  "db_questions (snd (persistAttempt now a db)) = db_questions db"
  "db_options (snd (persistAttempt now a db)) = db_options db"
  by (auto simp: persistAttempt_def in_transaction_def persistAttempt_tx_def and_then_def save_attempts_def
      save_answers_def checked_def split: option.splits sum.splits)

definition attempt_stored :: "int \<Rightarrow> persisted_attempt \<Rightarrow> quiz_db \<Rightarrow> quiz_db" where
  "attempt_stored now a db =
     db\<lparr>db_attempts := db_attempts db @ [attempt_row_of now a],
        db_answers := db_answers db @ map (answer_row_of a) (pa_results a)\<rparr>"

lemma attempt_row_simps [simp]:
  "ar_id (attempt_row_of now a) = pa_id a" "ar_quizId (attempt_row_of now a) = pa_quizId a"
  "ar_ownerId (attempt_row_of now a) = pa_ownerId a" "ar_score (attempt_row_of now a) = int (pa_score a)"
  "ar_questionCount (attempt_row_of now a) = int (pa_questionCount a)" "ar_createdAt (attempt_row_of now a) = now"
  "aa_attemptId (answer_row_of a x) = pa_id a" "aa_questionId (answer_row_of a x) = ga_questionId x"
  "aa_selectedOptionId (answer_row_of a x) = ga_selectedOptionId x" "aa_ownerId (answer_row_of a x) = pa_ownerId a"
  "aa_isCorrect (answer_row_of a x) = ga_isCorrect x"
  by (simp_all add: attempt_row_of_def answer_row_of_def)

definition attempt_fits :: "persisted_attempt \<Rightarrow> quiz_db \<Rightarrow> bool" where
  "attempt_fits a db \<longleftrightarrow>
     find_owned_quiz db (pa_ownerId a) (pa_quizId a) \<noteq> None \<and> pa_id a \<notin> ar_id ` set (db_attempts db) \<and>
     0 < pa_questionCount a \<and> pa_questionCount a \<le> 2147483647 \<and> pa_score a \<le> pa_questionCount a \<and>
     distinct (map ga_questionId (pa_results a)) \<and>
     (\<forall>x\<in>set (pa_results a). ga_questionId x \<in> set (map qr_id (db_questions db))
        \<and> ga_selectedOptionId x \<in> set (map or_id (db_options db)))"

lemma attempt_answers_fresh:
  assumes "db_constraints db" and "attempt_fits a db" and "r \<in> set (db_answers db)"
  shows "aa_attemptId r \<noteq> pa_id a"
proof -
  have "aa_attemptId r \<in> set (map ar_id (db_attempts db))"
    using assms(1,3) by (auto simp: db_constraints_def answer_keys_def list_all_iff)
  with assms(2) show ?thesis by (auto simp: attempt_fits_def)
qed

lemma attempt_stored_constraints:
  assumes "db_constraints db" and fits: "attempt_fits a db"
  shows "db_constraints (db\<lparr>db_attempts := db_attempts db @ [attempt_row_of now a]\<rparr>)"
    and "db_constraints (attempt_stored now a db)"
proof -
  obtain r where "find_owned_quiz db (pa_ownerId a) (pa_quizId a) = Some r"
    using fits by (auto simp: attempt_fits_def)
  then have "pa_quizId a \<in> set (map zr_id (db_quizzes db))"
    by (auto simp: find_owned_quiz_def intro: rev_image_eqI dest!: find_SomeD)
  then have att: "attempt_keys (set (map zr_id (db_quizzes db))) (db_attempts db @ [attempt_row_of now a])"
    using assms by (auto simp: db_constraints_def attempt_keys_def attempt_row_ok_def attempt_fits_def fits_int4_def)
  with assms(1) show "db_constraints (db\<lparr>db_attempts := db_attempts db @ [attempt_row_of now a]\<rparr>)"
    by (auto simp: db_constraints_def elim: answer_keys_mono)
  have "distinct (map (\<lambda>r. (aa_attemptId r, aa_questionId r)) (db_answers db @ map (answer_row_of a) (pa_results a)))"
  proof -
    have "distinct (map (\<lambda>r. (aa_attemptId r, aa_questionId r)) (map (answer_row_of a) (pa_results a)))"
      using fits by (auto simp: attempt_fits_def distinct_map inj_on_def)
    with assms(1) attempt_answers_fresh [OF assms] show ?thesis
      by (auto simp: db_constraints_def answer_keys_def simp del: map_map)
  qed
  then have "answer_keys (set (map ar_id (db_attempts (attempt_stored now a db)))) (set (map qr_id (db_questions db)))
      (set (map or_id (db_options db))) (db_answers (attempt_stored now a db))"
    using assms by (auto simp: answer_keys_def attempt_stored_def db_constraints_def attempt_fits_def list_all_iff)
  with att assms(1) show "db_constraints (attempt_stored now a db)"
    by (simp add: db_constraints_def attempt_stored_def)
qed

lemma persistAttempt_new:
  assumes "db_constraints db" and fits: "attempt_fits a db"
  shows "persistAttempt now a db = (Inr True, attempt_stored now a db)"
proof -
  have "save_rows ar_id m [attempt_row_of now a] (db_attempts db) = Some (db_attempts db @ [attempt_row_of now a])" for m
    using fits by (intro save_rows_fresh) (auto simp: attempt_fits_def)
  moreover have "save_rows (\<lambda>r. (aa_attemptId r, aa_questionId r)) (\<lambda>_ n. n) (map (answer_row_of a) (pa_results a)) (db_answers db)
      = Some (db_answers db @ map (answer_row_of a) (pa_results a))"
  proof (rule save_rows_fresh)
    show "distinct (map (\<lambda>r. (aa_attemptId r, aa_questionId r)) (map (answer_row_of a) (pa_results a)))"
      using fits by (auto simp: attempt_fits_def distinct_map inj_on_def)
    show "set (map (\<lambda>r. (aa_attemptId r, aa_questionId r)) (map (answer_row_of a) (pa_results a)))
        \<inter> set (map (\<lambda>r. (aa_attemptId r, aa_questionId r)) (db_answers db)) = {}"
      by (auto dest!: attempt_answers_fresh [OF assms])
  qed
  moreover obtain r where "find_owned_quiz db (pa_ownerId a) (pa_quizId a) = Some r"
    using fits by (auto simp: attempt_fits_def)
  ultimately show ?thesis
    using attempt_stored_constraints [OF assms, of now]
    by (simp add: persistAttempt_def in_transaction_def persistAttempt_tx_def save_attempts_def save_answers_def
        checked_def attempt_stored_def)
qed

definition result_matches :: "grading_quiz \<Rightarrow> attempt_question_result \<Rightarrow> bool" where
  "result_matches g x \<longleftrightarrow>
     (\<exists>q\<in>set (gz_questions g). gq_id q = ga_questionId x \<and> gq_stem q = aq_stem x \<and> gq_ordinal q = aq_ordinal x \<and>
        (\<exists>p\<in>set (gq_options q). so_id p = ga_selectedOptionId x \<and> so_content p = aq_selectedOptionContent x
           \<and> go_isCorrect p = ga_isCorrect x) \<and>
        (\<exists>p\<in>set (gq_options q). so_id p = aq_correctOptionId x \<and> so_content p = aq_correctOptionContent x \<and> go_isCorrect p))"

definition grading_question_of :: "option_row list \<Rightarrow> question_row \<Rightarrow> grading_question" where
  "grading_question_of options q =
     \<lparr>gq_citation = qr_citation q, gq_explanation = qr_explanation q, gq_id = qr_id q,
      gq_ordinal = qr_ordinal q,
      gq_options = map (\<lambda>p. \<lparr>so_content = or_content p, so_id = or_id p,
                             so_optionIndex = or_optionIndex p, go_isCorrect = or_isCorrect p\<rparr>)
                     (filter (\<lambda>p. or_questionId p = qr_id q) options),
      gq_stem = qr_stem q\<rparr>"

lemma findForGrading_Some:
  "findForGradingByOwnerId w i db = Some g \<longleftrightarrow>
     find_owned_quiz db w i \<noteq> None \<and> gz_id g = i \<and>
     gz_questions g = map (grading_question_of (loaded_options db w (ordered_questions db w i))) (ordered_questions db w i)"
  by (cases g) (auto simp: findForGradingByOwnerId_def grading_question_of_def [abs_def] Let_def find_owned_quiz_def
      split: option.splits dest: find_SomeD)

lemma set_ordered_questions:
  "set (ordered_questions db w i) = {r \<in> set (db_questions db). qr_ownerId r = w \<and> qr_quizId r = i}"
  by (auto simp: ordered_questions_def)

lemma set_loaded_options:
  "set (loaded_options db w qs) = {p \<in> set (db_options db). or_ownerId p = w \<and> or_questionId p \<in> qr_id ` set qs}"
  by (auto simp: loaded_options_def options_of_def)

lemma distinct_grading_ids:
  assumes "db_constraints db" and "findForGradingByOwnerId w i db = Some g"
  shows "distinct (map gq_id (gz_questions g))"
proof -
  have "distinct (map qr_id (db_questions db))"
    using assms(1) by (simp add: db_constraints_def question_keys_def)
  then have "distinct (map qr_id (ordered_questions db w i))"
    unfolding ordered_questions_def by (simp add: distinct_map inj_on_def)
  moreover have "map gq_id (gz_questions g) = map qr_id (ordered_questions db w i)"
    using assms(2) by (simp add: findForGrading_Some grading_question_of_def comp_def)
  ultimately show ?thesis by simp
qed

lemma question_result_found:
  assumes con: "db_constraints db" and ans: "answerable db"
    and q: "q \<in> set (ordered_questions db w i)" and qs: "qs = ordered_questions db w i"
    and a: "List.find (\<lambda>a. aa_questionId a = qr_id q) answers = Some answer"
    and x: "x = answer_for (grading_question_of (loaded_options db w qs) q) p"
    and p: "p \<in> set (gq_options (grading_question_of (loaded_options db w qs) q))"
    and sel: "aa_selectedOptionId answer = so_id p" and cor: "aa_isCorrect answer = go_isCorrect p"
  shows "\<exists>y. question_result answers (options_of db w qs) q = Some y \<and> graded_answer.truncate y = x \<and>
    aq_stem y = qr_stem q \<and> aq_ordinal y = qr_ordinal q \<and> aq_selectedOptionContent y = so_content p \<and>
    (\<exists>c\<in>set (gq_options (grading_question_of (loaded_options db w qs) q)).
       so_id c = aq_correctOptionId y \<and> so_content c = aq_correctOptionContent y \<and> go_isCorrect c)"
proof -
  from p obtain r where r: "r \<in> set (loaded_options db w qs)" "or_questionId r = qr_id q"
      "p = \<lparr>so_content = or_content r, so_id = or_id r, so_optionIndex = or_optionIndex r, go_isCorrect = or_isCorrect r\<rparr>"
    by (auto simp: grading_question_of_def)
  have opts: "set (options_of db w qs) = set (loaded_options db w qs)"
    using q by (auto simp: loaded_options_def qs)
  have "distinct (map or_id (db_options db))"
    using con by (simp add: db_constraints_def option_keys_def)
  then have "r' = r" if "r' \<in> set (options_of db w qs)" "or_id r' = or_id r" for r'
    using that r(1) by (auto simp: opts set_loaded_options dest: distinct_map_eqD)
  then have selected: "List.find (\<lambda>p. or_id p = aa_selectedOptionId answer \<and> or_questionId p = qr_id q) (options_of db w qs) = Some r"
    using r sel by (intro find_unique) (auto simp: opts)
  obtain c where "c \<in> set (db_options db)" "or_questionId c = qr_id q" "or_ownerId c = qr_ownerId q" "or_isCorrect c"
    using ans q by (auto simp: answerable_def set_ordered_questions)
  then have "\<exists>c\<in>set (options_of db w qs). or_questionId c = qr_id q \<and> or_isCorrect c"
    using q unfolding opts unfolding set_loaded_options qs by (auto simp: set_ordered_questions)
  then obtain d where d: "List.find (\<lambda>p. or_questionId p = qr_id q \<and> or_isCorrect p) (options_of db w qs) = Some d"
    by (metis (mono_tags, lifting) find_None_iff not_None_eq)
  then have "d \<in> set (loaded_options db w qs)" "or_questionId d = qr_id q" "or_isCorrect d"
    by (auto simp: opts dest!: find_SomeD)
  then show ?thesis
    using a selected d r x cor
    by (auto simp: question_result_def answer_for_def grading_question_of_def graded_answer.truncate_def intro!: bexI [of _ d])
qed

lemma attempt_fits_of_graded:
  assumes con: "db_constraints db" and g: "findForGradingByOwnerId w i db = Some g"
    and graded: "gradeAttempt aid w g ss = Graded a" and fresh: "aid \<notin> ar_id ` set (db_attempts db)"
    and count: "gz_questions g \<noteq> []" "length (gz_questions g) \<le> 2147483647"
  shows "attempt_fits a db"
proof -
  note graded [unfolded gradeAttempt_Graded]
  then have all2: "list_all2 (\<lambda>q x. question_answer (map_of (map (\<lambda>s. (sel_questionId s, s)) ss)) q = Some x)
      (gz_questions g) (pa_results a)"
    and flds: "pa_id a = aid" "pa_ownerId a = w" "pa_questionCount a = length (gz_questions g)" "pa_quizId a = i"
      "pa_score a = length (filter ga_isCorrect (pa_results a))"
    using g by (simp_all add: those_map_Some findForGrading_Some)
  have ids: "map ga_questionId (pa_results a) = map gq_id (gz_questions g)"
    using all2 by (induction rule: list_all2_induct) (auto simp: question_answer_id)
  have len: "length (pa_results a) = length (gz_questions g)"
    using all2 by (simp add: list_all2_lengthD)
  let ?opts = "loaded_options db w (ordered_questions db w i)"
  have "ga_questionId x \<in> set (map qr_id (db_questions db)) \<and> ga_selectedOptionId x \<in> set (map or_id (db_options db))"
    if "x \<in> set (pa_results a)" for x
  proof -
    from all2 that obtain q where q: "q \<in> set (gz_questions g)"
        "question_answer (map_of (map (\<lambda>s. (sel_questionId s, s)) ss)) q = Some x"
      by (blast dest: list_all2_in2)
    from q(1) g obtain r where "r \<in> set (ordered_questions db w i)" "q = grading_question_of ?opts r"
      by (auto simp: findForGrading_Some)
    with q(2) show ?thesis
      by (auto simp: question_answer_def answer_for_def grading_question_of_def set_ordered_questions set_loaded_options
          split: option.splits dest!: find_SomeD) (metis image_eqI)
  qed
  moreover have "pa_score a \<le> length (gz_questions g)"
    using flds(5) len by (metis length_filter_le)
  ultimately show ?thesis
    using flds fresh count ids distinct_grading_ids [OF con g] g
    by (auto simp: attempt_fits_def findForGrading_Some simp flip: length_greater_0_conv)
qed

lemma attempt_result_questions:
  fixes now :: int
  assumes con: "db_constraints db" and fits: "attempt_fits a db"
    and ids: "map ga_questionId (pa_results a) = map qr_id (ordered_questions db (pa_ownerId a) (pa_quizId a))"
  defines "db' \<equiv> attempt_stored now a db"
  shows "filter (\<lambda>r. aa_attemptId r = pa_id a \<and> aa_ownerId r = pa_ownerId a) (db_answers db') = map (answer_row_of a) (pa_results a)"
    and "sort_key (\<lambda>r. (qr_ordinal r, qr_id r))
        (filter (\<lambda>r. qr_id r \<in> set (map aa_questionId (map (answer_row_of a) (pa_results a))) \<and> qr_ownerId r = pa_ownerId a \<and> qr_quizId r = pa_quizId a)
          (db_questions db')) = ordered_questions db (pa_ownerId a) (pa_quizId a)"
    and "List.find (\<lambda>r. ar_id r = pa_id a \<and> ar_ownerId r = pa_ownerId a \<and> ar_quizId r = pa_quizId a) (db_attempts db')
      = Some (attempt_row_of now a)"
proof -
  show "filter (\<lambda>r. aa_attemptId r = pa_id a \<and> aa_ownerId r = pa_ownerId a) (db_answers db') = map (answer_row_of a) (pa_results a)"
    using attempt_answers_fresh [OF con fits] by (auto simp: db'_def attempt_stored_def filter_empty_conv filter_id_conv)
  have "ga_questionId ` set (pa_results a) = qr_id ` set (ordered_questions db (pa_ownerId a) (pa_quizId a))"
    using arg_cong [OF ids, of set] by simp
  then have "filter (\<lambda>r. qr_id r \<in> set (map aa_questionId (map (answer_row_of a) (pa_results a))) \<and> qr_ownerId r = pa_ownerId a \<and> qr_quizId r = pa_quizId a)
          (db_questions db') = filter (\<lambda>r. qr_ownerId r = pa_ownerId a \<and> qr_quizId r = pa_quizId a) (db_questions db)"
    by (auto simp: db'_def attempt_stored_def image_image set_ordered_questions intro!: filter_cong)
  then show "sort_key (\<lambda>r. (qr_ordinal r, qr_id r))
        (filter (\<lambda>r. qr_id r \<in> set (map aa_questionId (map (answer_row_of a) (pa_results a))) \<and> qr_ownerId r = pa_ownerId a \<and> qr_quizId r = pa_quizId a)
          (db_questions db')) = ordered_questions db (pa_ownerId a) (pa_quizId a)"
    by (simp add: ordered_questions_def)
  show "List.find (\<lambda>r. ar_id r = pa_id a \<and> ar_ownerId r = pa_ownerId a \<and> ar_quizId r = pa_quizId a) (db_attempts db')
      = Some (attempt_row_of now a)"
    using fits by (intro find_unique) (auto simp: db'_def attempt_stored_def attempt_fits_def image_iff)
qed

lemma attempt_question_results:
  assumes con: "db_constraints db" and ans: "answerable db" and g: "findForGradingByOwnerId w i db = Some g"
    and all2: "list_all2 (\<lambda>q x. question_answer m q = Some x) (gz_questions g) (pa_results a)"
  defines "qs \<equiv> ordered_questions db w i"
  shows "\<exists>ys. those (map (question_result (map (answer_row_of a) (pa_results a)) (options_of db w qs)) qs) = Some ys
    \<and> map graded_answer.truncate ys = pa_results a \<and> (\<forall>y\<in>set ys. result_matches g y)"
proof -
  let ?opts = "loaded_options db w qs" and ?answers = "map (answer_row_of a) (pa_results a)"
  have gq: "gz_questions g = map (grading_question_of ?opts) qs"
    using g by (simp add: findForGrading_Some qs_def)
  have ids: "map ga_questionId (pa_results a) = map gq_id (gz_questions g)"
    using all2 by (induction rule: list_all2_induct) (auto simp: question_answer_id)
  have dist: "distinct (map ga_questionId (pa_results a))"
    using distinct_grading_ids [OF con g] ids by simp
  have step: "\<exists>y. question_result ?answers (options_of db w qs) q = Some y \<and> graded_answer.truncate y = x \<and> result_matches g y"
    if q: "q \<in> set qs" and x: "x \<in> set (pa_results a)" and qa: "question_answer m (grading_question_of ?opts q) = Some x" for q x
  proof -
    from qa obtain p where p: "p \<in> set (gq_options (grading_question_of ?opts q))" "x = answer_for (grading_question_of ?opts q) p"
      by (auto simp: question_answer_def split: option.splits dest!: find_SomeD)
    have xid: "ga_questionId x = qr_id q"
      using question_answer_id [OF qa] by (simp add: grading_question_of_def)
    have "List.find (\<lambda>r. aa_questionId r = qr_id q) ?answers = Some (answer_row_of a x)"
      using dist x xid by (intro find_unique) (auto dest: distinct_map_eqD)
    from question_result_found [OF con ans _ qs_def [THEN meta_eq_to_obj_eq] this p(2) p(1)] q p(2)
    obtain y where y: "question_result ?answers (options_of db w qs) q = Some y" "graded_answer.truncate y = x"
        "aq_stem y = qr_stem q" "aq_ordinal y = qr_ordinal q" "aq_selectedOptionContent y = so_content p"
        "\<exists>c\<in>set (gq_options (grading_question_of ?opts q)).
           so_id c = aq_correctOptionId y \<and> so_content c = aq_correctOptionContent y \<and> go_isCorrect c"
      by (auto simp: qs_def answer_for_def)
    have "ga_questionId y = ga_questionId x" "ga_selectedOptionId y = ga_selectedOptionId x" "ga_isCorrect y = ga_isCorrect x"
      using y(2) by (auto simp: graded_answer.truncate_def)
    then have "result_matches g y"
      using q y p xid unfolding result_matches_def gq
      by (intro bexI [of _ "grading_question_of ?opts q"]) (auto simp: answer_for_def grading_question_of_def)
    with y show ?thesis by blast
  qed
  have "list_all2 (\<lambda>q x. question_answer m (grading_question_of ?opts q) = Some x) qs (pa_results a)"
    using all2 unfolding gq by (simp add: list.rel_map)
  then have "list_all2 (\<lambda>q x. q \<in> set qs \<and> x \<in> set (pa_results a) \<and> question_answer m (grading_question_of ?opts q) = Some x) qs (pa_results a)"
    by (auto simp: list_all2_conv_all_nth)
  then have "list_all2 (\<lambda>q x. \<exists>y. question_result ?answers (options_of db w qs) q = Some y \<and> graded_answer.truncate y = x \<and> result_matches g y) qs (pa_results a)"
    by (rule list_all2_mono) (use step in blast)
  then show ?thesis by (rule those_map_related)
qed

text \<open>A graded attempt on a stored quiz is persisted, and the attempt-result reader returns it.\<close>

lemma attempt_roundtrip:
  assumes "db_constraints db" and "answerable db" and "findForGradingByOwnerId w i db = Some g"
    and "gradeAttempt aid w g ss = Graded a" and "aid \<notin> ar_id ` set (db_attempts db)"
    and "gz_questions g \<noteq> []" and "length (gz_questions g) \<le> 2147483647"
  shows "\<exists>db' r. persistAttempt now a db = (Inr True, db') \<and> db_constraints db'
    \<and> findByOwnerQuizAndAttemptId w i aid db' = Some r
    \<and> map graded_answer.truncate (at_results r) = pa_results a \<and> (\<forall>x\<in>set (at_results r). result_matches g x)
    \<and> at_score r = int (pa_score a) \<and> at_questionCount r = int (length (gz_questions g)) \<and> at_submittedAt r = now"
proof -
  have fits: "attempt_fits a db"
    using assms by (intro attempt_fits_of_graded)
  have flds: "pa_id a = aid" "pa_ownerId a = w" "pa_questionCount a = length (gz_questions g)" "pa_quizId a = i"
    using assms(3,4) by (simp_all add: gradeAttempt_Graded findForGrading_Some)
  let ?m = "map_of (map (\<lambda>s. (sel_questionId s, s)) ss)" and ?qs = "ordered_questions db w i"
  have all2: "list_all2 (\<lambda>q x. question_answer ?m q = Some x) (gz_questions g) (pa_results a)"
    using assms(4) by (simp add: gradeAttempt_Graded those_map_Some)
  then have "map ga_questionId (pa_results a) = map gq_id (gz_questions g)"
    by (induction rule: list_all2_induct) (auto simp: question_answer_id)
  then have ids: "map ga_questionId (pa_results a) = map qr_id ?qs"
    using assms(3) by (simp add: findForGrading_Some grading_question_of_def comp_def)
  have ne: "pa_results a \<noteq> []"
    using all2 assms(6) by auto
  then have len: "length ?qs = length (pa_results a)" "?qs \<noteq> []"
    using arg_cong [OF ids, of length] by auto
  obtain ys where ys: "those (map (question_result (map (answer_row_of a) (pa_results a)) (options_of db w ?qs)) ?qs) = Some ys"
      "map graded_answer.truncate ys = pa_results a" "\<forall>y\<in>set ys. result_matches g y"
    using attempt_question_results [OF assms(1-3) all2] by blast
  have "findByOwnerQuizAndAttemptId w i aid (attempt_stored now a db) =
      Some \<lparr>at_id = aid, at_questionCount = int (length (gz_questions g)), at_quizId = i, at_results = ys,
            at_score = int (pa_score a), at_submittedAt = now\<rparr>"
    using attempt_result_questions [OF assms(1) fits, of now] ids len ne ys(1)
    unfolding findByOwnerQuizAndAttemptId_def flds
    by (simp add: flds options_of_def) (simp add: attempt_stored_def flds)
  with persistAttempt_new [OF assms(1) fits, of now] attempt_stored_constraints(2) [OF assms(1) fits, of now] ys
  show ?thesis by auto
qed

lemma sample_quiz_simps:
  "qz_questions sample_quiz \<noteq> []" "qz_ownerId sample_quiz = ''w''" "qz_id sample_quiz = ''z''"
  by (simp_all add: sample_quiz_def)

lemma answerable_sample: "answerable (stored sample_quiz empty_quiz_db)"
  by (rule answerable_stored [OF _ storable_sample]) (simp add: answerable_def empty_quiz_db_def)

lemma grading_sample:
  "findForGradingByOwnerId ''w'' ''z'' (stored sample_quiz empty_quiz_db) = Some (grading_view sample_quiz)"
  using grading_stored [OF empty_db_constraints storable_sample unused_empty sample_quiz_simps(1)]
  by (simp add: sample_quiz_simps)

lemma sample_constraints: "db_constraints (stored sample_quiz empty_quiz_db)"
  by (rule stored_constraints(1) [OF empty_db_constraints storable_sample unused_empty])

end
