(* ===== verification/AssessmentService.thy ===== *)
theory AssessmentService imports QuizStore begin

text \<open>
  The services and the controller of the assessment module: \<open>assessment.service.ts\<close>,
  \<open>quiz-generation-handoff.service.ts\<close>, \<open>assessment.controller.ts\<close> with the request checks of its
  DTOs and the response mappings of \<open>mappings/assessment-mapping.profile.ts\<close>.

  The services depend on ports; each operation takes the port operations it calls as arguments.
  The contracts of the ports are the locales \<open>quiz_attempt_store\<close>, \<open>attempt_reader\<close> and
  \<open>quiz_persistence\<close>, interpreted at the end on the repositories of \<open>QuizStore\<close>.
\<close>

section \<open>Operations\<close>

datatype 'e service_error =
    NotFoundException string
  | BadRequestException string
  | StoreFailure 'e

type_synonym served_quiz_result = served_quiz
type_synonym practice_feedback_result = graded_answer

record graded_attempt_result =
  gr_id :: string
  gr_questionCount :: nat
  gr_results :: "graded_answer list"
  gr_score :: nat

definition getQuiz ::
  "(string \<Rightarrow> string \<Rightarrow> 's \<Rightarrow> served_quiz option) \<Rightarrow> string \<Rightarrow> string \<Rightarrow> 's \<Rightarrow> 'e service_error + served_quiz_result"
where
  "getQuiz findServed ownerId quizId s =
     (case findServed ownerId quizId s of
        None \<Rightarrow> Inl (NotFoundException (''Quiz '' @ quizId @ '' not found''))
      | Some quiz \<Rightarrow>
          Inr \<lparr>sv_id = sv_id quiz,
               sv_questions = map (\<lambda>q. \<lparr>sq_id = sq_id q, sq_ordinal = sq_ordinal q,
                 sq_options = sq_options q, sq_stem = sq_stem q\<rparr>) (sv_questions quiz)\<rparr>)"

definition submitAttempt ::
  "(string \<Rightarrow> string \<Rightarrow> 's \<Rightarrow> grading_quiz option) \<Rightarrow> (persisted_attempt \<Rightarrow> 's \<Rightarrow> ('e + bool) \<times> 's) \<Rightarrow>
   string \<Rightarrow> string \<Rightarrow> string \<Rightarrow> attempt_selection list \<Rightarrow> 's \<Rightarrow> ('e service_error + graded_attempt_result) \<times> 's"
where
  "submitAttempt findForGrading persist randomUUID ownerId quizId selections s =
     (case findForGrading ownerId quizId s of
        None \<Rightarrow> (Inl (NotFoundException (''Quiz '' @ quizId @ '' not found'')), s)
      | Some quiz \<Rightarrow>
          (case gradeAttempt randomUUID ownerId quiz selections of
             GInvalid \<Rightarrow> (Inl (BadRequestException ''Every Question must have one valid selected Option''), s)
           | Graded attempt \<Rightarrow>
               (case persist attempt s of
                  (Inl e, s') \<Rightarrow> (Inl (StoreFailure e), s')
                | (Inr False, s') \<Rightarrow> (Inl (NotFoundException (''Quiz '' @ quizId @ '' not found'')), s')
                | (Inr True, s') \<Rightarrow>
                    (Inr \<lparr>gr_id = pa_id attempt, gr_questionCount = pa_questionCount attempt,
                          gr_results = pa_results attempt, gr_score = pa_score attempt\<rparr>, s'))))"

definition getPracticeFeedback ::
  "(string \<Rightarrow> string \<Rightarrow> 's \<Rightarrow> grading_quiz option) \<Rightarrow> string \<Rightarrow> string \<Rightarrow> attempt_selection \<Rightarrow> 's \<Rightarrow>
   'e service_error + practice_feedback_result"
where
  "getPracticeFeedback findForGrading ownerId quizId selection s =
     (case findForGrading ownerId quizId s of
        None \<Rightarrow> Inl (NotFoundException (''Quiz '' @ quizId @ '' not found''))
      | Some quiz \<Rightarrow>
          (case gradePracticeFeedback quiz selection of
             GInvalid \<Rightarrow> Inl (BadRequestException ''Selected Option must belong to the specified Question'')
           | Graded feedback \<Rightarrow> Inr feedback))"

definition getAttemptResult ::
  "(string \<Rightarrow> string \<Rightarrow> string \<Rightarrow> 's \<Rightarrow> attempt_result option) \<Rightarrow> string \<Rightarrow> string \<Rightarrow> string \<Rightarrow> 's \<Rightarrow>
   'e service_error + attempt_result"
where
  "getAttemptResult findAttempt ownerId quizId attemptId s =
     (case findAttempt ownerId quizId attemptId s of
        None \<Rightarrow> Inl (NotFoundException (''Attempt '' @ attemptId @ '' not found''))
      | Some attempt \<Rightarrow>
          Inr \<lparr>at_id = at_id attempt, at_questionCount = at_questionCount attempt, at_quizId = at_quizId attempt,
               at_results = at_results attempt, at_score = at_score attempt, at_submittedAt = at_submittedAt attempt\<rparr>)"

section \<open>Handoff of a generated quiz\<close>

text \<open>One warning: accepted, dropped and total question counts.\<close>

record rejection_log =
  rl_accepted :: nat
  rl_dropped :: int
  rl_total :: nat

definition logRejectedQuestions :: "nat \<Rightarrow> nat \<Rightarrow> rejection_log" where
  "logRejectedQuestions acceptedQuestionCount totalQuestionCount =
     \<lparr>rl_accepted = acceptedQuestionCount,
      rl_dropped = int totalQuestionCount - int acceptedQuestionCount, rl_total = totalQuestionCount\<rparr>"

definition handoff_persist ::
  "(quiz \<Rightarrow> 's \<Rightarrow> (store_error + persisted_quiz) \<times> 's) \<Rightarrow> digest \<Rightarrow> (string \<Rightarrow> string \<Rightarrow> int) \<Rightarrow> quiz_handoff \<Rightarrow> 's \<Rightarrow>
   (store_error + persisted_quiz) \<times> rejection_log list \<times> 's"
where
  "handoff_persist persist dg lc h s =
     (case Quiz_create dg lc h of
        Inl e \<Rightarrow>
          (Inl (StoreAssessment e),
           (if ae_code e = INSUFFICIENT_VALID_QUESTIONS
            then [logRejectedQuestions (case ae_accepted e of None \<Rightarrow> 0 | Some n \<Rightarrow> n)
                    (case ae_total e of None \<Rightarrow> length (h_questions h) | Some n \<Rightarrow> n)]
            else []), s)
      | Inr z \<Rightarrow>
          let log = (if length (h_questions h) > length (qz_questions z)
                     then [logRejectedQuestions (length (qz_questions z)) (length (h_questions h))] else []);
              (r, s') = persist z s
          in (r, log, s'))"

section \<open>Controller\<close>

text \<open>
  \<open>CurrentUser\<close>, \<open>ParseUUIDPipe\<close> and the \<open>IsUUID\<close> decorators delegate to packages; the model
  takes the three predicates as a record.  A request that fails one is answered 400 before the
  service runs.
\<close>

record uuid_checks =
  uc_header :: "string \<Rightarrow> bool"
  uc_param :: "string \<Rightarrow> bool"
  uc_body :: "string \<Rightarrow> bool"

definition current_user :: "uuid_checks \<Rightarrow> string option \<Rightarrow> 'e service_error + string" where
  "current_user uc header =
     (case header of
        None \<Rightarrow> Inl (BadRequestException ''Missing or invalid X-User-Id header'')
      | Some ownerId \<Rightarrow>
          if uc_header uc ownerId then Inr ownerId
          else Inl (BadRequestException ''Missing or invalid X-User-Id header''))"

definition parse_uuid :: "uuid_checks \<Rightarrow> string \<Rightarrow> 'e service_error + string" where
  "parse_uuid uc v =
     (if uc_param uc v then Inr v else Inl (BadRequestException ''Validation failed (uuid is expected)''))"

definition check_answer :: "uuid_checks \<Rightarrow> attempt_selection \<Rightarrow> bool" where
  "check_answer uc a \<longleftrightarrow> uc_body uc (sel_questionId a) \<and> uc_body uc (sel_optionId a)"

definition check_submission :: "uuid_checks \<Rightarrow> attempt_selection list \<Rightarrow> bool" where
  "check_submission uc answers \<longleftrightarrow> 1 \<le> length answers \<and> list_all (check_answer uc) answers"

record graded_attempt_response =
  gd_attemptId :: string
  gd_questionCount :: nat
  gd_results :: "graded_answer list"
  gd_score :: nat

definition to_graded_attempt_response :: "graded_attempt_result \<Rightarrow> graded_attempt_response" where
  "to_graded_attempt_response r =
     \<lparr>gd_attemptId = gr_id r, gd_questionCount = gr_questionCount r, gd_results = gr_results r, gd_score = gr_score r\<rparr>"

record attempt_result_response =
  rd_attemptId :: string
  rd_quizId :: string
  rd_submittedAt :: string
  rd_score :: int
  rd_questionCount :: int
  rd_results :: "attempt_question_result list"

definition to_attempt_result_response :: "(int \<Rightarrow> string) \<Rightarrow> attempt_result \<Rightarrow> attempt_result_response" where
  "to_attempt_result_response toUtcIsoString r =
     \<lparr>rd_attemptId = at_id r, rd_quizId = at_quizId r, rd_submittedAt = toUtcIsoString (at_submittedAt r),
      rd_score = at_score r, rd_questionCount = at_questionCount r, rd_results = at_results r\<rparr>"

definition controller_submitAttempt ::
  "uuid_checks \<Rightarrow> (string \<Rightarrow> string \<Rightarrow> 's \<Rightarrow> grading_quiz option) \<Rightarrow>
   (persisted_attempt \<Rightarrow> 's \<Rightarrow> ('e + bool) \<times> 's) \<Rightarrow> string \<Rightarrow> string option \<Rightarrow> string \<Rightarrow> attempt_selection list \<Rightarrow> 's \<Rightarrow>
   ('e service_error + graded_attempt_response) \<times> 's"
where
  "controller_submitAttempt uc findForGrading persist uuid header idParam answers s =
     (case current_user uc header of
        Inl e \<Rightarrow> (Inl e, s)
      | Inr ownerId \<Rightarrow>
          (case parse_uuid uc idParam of
             Inl e \<Rightarrow> (Inl e, s)
           | Inr quizId \<Rightarrow>
               if \<not> check_submission uc answers then (Inl (BadRequestException ''Bad Request''), s)
               else
                 let (r, s') = submitAttempt findForGrading persist uuid ownerId quizId answers s
                 in (map_sum id to_graded_attempt_response r, s')))"

definition controller_getQuiz ::
  "uuid_checks \<Rightarrow> (string \<Rightarrow> string \<Rightarrow> 's \<Rightarrow> served_quiz option) \<Rightarrow> string option \<Rightarrow> string \<Rightarrow> 's \<Rightarrow>
   'e service_error + served_quiz_result"
where
  "controller_getQuiz uc findServed header idParam s =
     and_then (current_user uc header) (\<lambda>ownerId.
     and_then (parse_uuid uc idParam) (\<lambda>quizId. getQuiz findServed ownerId quizId s))"

definition controller_getPracticeFeedback ::
  "uuid_checks \<Rightarrow> (string \<Rightarrow> string \<Rightarrow> 's \<Rightarrow> grading_quiz option) \<Rightarrow> string option \<Rightarrow> string \<Rightarrow> attempt_selection \<Rightarrow> 's \<Rightarrow>
   'e service_error + practice_feedback_result"
where
  "controller_getPracticeFeedback uc findForGrading header idParam body s =
     and_then (current_user uc header) (\<lambda>ownerId.
     and_then (parse_uuid uc idParam) (\<lambda>quizId.
       if \<not> check_answer uc body then Inl (BadRequestException ''Bad Request'')
       else getPracticeFeedback findForGrading ownerId quizId body s))"

definition controller_getAttemptResult ::
  "uuid_checks \<Rightarrow> (int \<Rightarrow> string) \<Rightarrow> (string \<Rightarrow> string \<Rightarrow> string \<Rightarrow> 's \<Rightarrow> attempt_result option) \<Rightarrow>
   string option \<Rightarrow> string \<Rightarrow> string \<Rightarrow> 's \<Rightarrow> 'e service_error + attempt_result_response"
where
  "controller_getAttemptResult uc toUtcIsoString findAttempt header idParam attemptId s =
     and_then (current_user uc header) (\<lambda>ownerId.
     and_then (parse_uuid uc idParam) (\<lambda>quizId.
     and_then (parse_uuid uc attemptId) (\<lambda>aid.
     and_then (getAttemptResult findAttempt ownerId quizId aid s)
       (\<lambda>r. Inr (to_attempt_result_response toUtcIsoString r)))))"

section \<open>The port of quizzes and attempts\<close>

text \<open>
  \<open>QuizAttemptStore\<close>: a served quiz is the grading quiz without its answers, question
  identifiers are different, a quiz the owner does not have cannot receive an attempt, and
  persisting an attempt changes no quiz.
\<close>

locale quiz_attempt_store =
  fixes wf :: "'s \<Rightarrow> bool"
    and findServed :: "string \<Rightarrow> string \<Rightarrow> 's \<Rightarrow> served_quiz option"
    and findForGrading :: "string \<Rightarrow> string \<Rightarrow> 's \<Rightarrow> grading_quiz option"
    and persist :: "persisted_attempt \<Rightarrow> 's \<Rightarrow> ('e + bool) \<times> 's"
  assumes served_grading: "findServed w i s = map_option served_view (findForGrading w i s)"
    and grading_ids: "wf s \<Longrightarrow> findForGrading w i s = Some g \<Longrightarrow> distinct (map gq_id (gz_questions g)) \<and> gz_id g = i"
    and persist_wf: "wf s \<Longrightarrow> wf (snd (persist a s))"
    and persist_missing: "findForGrading (pa_ownerId a) (pa_quizId a) s = None \<Longrightarrow> persist a s = (Inr False, s)"
    and persist_owned: "findForGrading (pa_ownerId a) (pa_quizId a) s = Some g \<Longrightarrow> fst (persist a s) \<noteq> Inr False"
    and persist_quizzes: "findForGrading w i (snd (persist a s)) = findForGrading w i s"
    and persist_failed: "persist a s = (Inl e, s') \<Longrightarrow> s' = s"
begin

lemma served_owner: "(\<exists>q. getQuiz findServed w i s = Inr q) \<longleftrightarrow> (\<exists>g. findForGrading w i s = Some g)"
  by (auto simp: getQuiz_def served_grading split: option.splits)

text \<open>The answer to a submission, whatever the state: one of the four branches of the code.\<close>

lemma submit_outcome:
  assumes "wf s"
  shows "case submitAttempt findForGrading persist uuid w i ss s of
      (Inl (NotFoundException m), s') \<Rightarrow> findForGrading w i s = None \<and> s' = s
    | (Inl (BadRequestException m), s') \<Rightarrow>
        s' = s \<and> (case findForGrading w i s of None \<Rightarrow> False | Some g \<Rightarrow> \<not> complete_submission g ss)
    | (Inl (StoreFailure e), s') \<Rightarrow> s' = s
    | (Inr r, s') \<Rightarrow> wf s' \<and> gr_id r = uuid \<and>
        (case findForGrading w i s of None \<Rightarrow> False
         | Some g \<Rightarrow> complete_submission g ss \<and> findForGrading w i s' = Some g
            \<and> gr_questionCount r = length (gz_questions g)
            \<and> gr_score r = length (filter ga_isCorrect (gr_results r)) \<and> gr_score r \<le> gr_questionCount r
            \<and> map ga_questionId (gr_results r) = map gq_id (gz_questions g)
            \<and> (\<forall>x\<in>set (gr_results r). \<exists>a\<in>set ss. sel_questionId a = ga_questionId x
                 \<and> getPracticeFeedback findForGrading w i a s = (Inr x :: 'e service_error + graded_answer)))"
proof (cases "findForGrading w i s")
  case None
  then show ?thesis by (simp add: submitAttempt_def)
next
  case (Some g)
  have ids: "distinct (map gq_id (gz_questions g))" "gz_id g = i"
    using grading_ids [OF assms Some] by auto
  have fb: "getPracticeFeedback findForGrading w i a s = (Inr x :: 'e service_error + graded_answer)
      \<longleftrightarrow> gradePracticeFeedback g a = Graded x" for a x
    by (simp add: getPracticeFeedback_def Some split: graded.split)
  note graded = grade_attempt_total [OF ids(1), where aid = uuid and w = w and ss = ss]
  show ?thesis
  proof (cases "gradeAttempt uuid w g ss")
    case GInvalid
    with Some graded show ?thesis by (simp add: submitAttempt_def)
  next
    case (Graded a)
    with graded ids have "pa_ownerId a = w" "pa_quizId a = i" by simp_all
    with Some have own: "fst (persist a s) \<noteq> Inr False" using persist_owned by metis
    show ?thesis
    proof (cases "persist a s")
      case (Pair r s')
      with persist_wf [OF assms, of a] persist_quizzes [of w i a s] have s': "wf s'" "findForGrading w i s' = Some g"
        using Some by simp_all
      from Pair own Graded Some graded s' show ?thesis
        by (cases r) (auto simp: submitAttempt_def fb dest: persist_failed)
    qed
  qed
qed

end

text \<open>\<open>AttemptResultReader\<close>, beside the store: a persisted attempt can be read back.\<close>

locale attempt_reader = quiz_attempt_store wf findServed findForGrading persist
  for wf :: "'s \<Rightarrow> bool" and findServed findForGrading and persist :: "persisted_attempt \<Rightarrow> 's \<Rightarrow> ('e + bool) \<times> 's" +
  fixes findAttempt :: "string \<Rightarrow> string \<Rightarrow> string \<Rightarrow> 's \<Rightarrow> attempt_result option"
    and attemptIds :: "'s \<Rightarrow> string set"
  assumes reads_back:
    "wf s \<Longrightarrow> findForGrading w i s = Some g \<Longrightarrow> gradeAttempt aid w g ss = Graded a \<Longrightarrow> aid \<notin> attemptIds s \<Longrightarrow>
     gz_questions g \<noteq> [] \<Longrightarrow> length (gz_questions g) \<le> 2147483647 \<Longrightarrow>
     \<exists>s' r. persist a s = (Inr True, s') \<and> findAttempt w i aid s' = Some r
       \<and> map graded_answer.truncate (at_results r) = pa_results a \<and> (\<forall>x\<in>set (at_results r). result_matches g x)
       \<and> at_score r = int (pa_score a) \<and> at_questionCount r = int (length (gz_questions g))"
begin

lemma submit_then_read:
  assumes "wf s" and "findForGrading w i s = Some g" and "complete_submission g ss" and "aid \<notin> attemptIds s"
    and "gz_questions g \<noteq> []" and "length (gz_questions g) \<le> 2147483647"
  shows "\<exists>r s' a. submitAttempt findForGrading persist aid w i ss s = (Inr r, s')
    \<and> getAttemptResult findAttempt w i aid s' = (Inr a :: 'e service_error + attempt_result)
    \<and> map graded_answer.truncate (at_results a) = gr_results r \<and> (\<forall>x\<in>set (at_results a). result_matches g x)
    \<and> at_score a = int (gr_score r) \<and> at_questionCount a = int (gr_questionCount r)"
proof -
  have ids: "distinct (map gq_id (gz_questions g))" using grading_ids [OF assms(1,2)] by simp
  note total = grade_attempt_total [OF ids, where aid = aid and w = w and ss = ss]
  then obtain a where a: "gradeAttempt aid w g ss = Graded a"
    using assms(3) by (cases "gradeAttempt aid w g ss") auto
  from reads_back [OF assms(1,2) a assms(4-6)] obtain s' r where
    "persist a s = (Inr True, s')" "findAttempt w i aid s' = Some r"
    "map graded_answer.truncate (at_results r) = pa_results a" "\<forall>x\<in>set (at_results r). result_matches g x"
    "at_score r = int (pa_score a)" "at_questionCount r = int (length (gz_questions g))" by blast
  with a total assms(2) show ?thesis
    by (simp add: submitAttempt_def getAttemptResult_def)
qed

end

section \<open>The port of quiz persistence\<close>

text \<open>
  \<open>QuizPersistence\<close>: a quiz that fits is stored, storing it again changes nothing and returns
  the same, and a failure leaves the state alone.
\<close>

locale quiz_persistence =
  fixes fits :: "quiz \<Rightarrow> 's \<Rightarrow> bool"
    and persist :: "quiz \<Rightarrow> 's \<Rightarrow> (store_error + persisted_quiz) \<times> 's"
  assumes persist_fits: "fits z s \<Longrightarrow> \<exists>r s'. persist z s = (Inr r, s') \<and> pq_quizId r = qz_id z
      \<and> pq_questionCount r = length (qz_questions z) \<and> persist z s' = (Inr r, s')"
    and persist_failed: "persist z s = (Inl e, s') \<Longrightarrow> s' = s"
begin

lemma handoff_redelivery:
  assumes "Quiz_create dg lc h = Inr z" and "fits z s"
  shows "\<exists>r logs s'. handoff_persist persist dg lc h s = (Inr r, logs, s')
    \<and> handoff_persist persist dg lc h s' = (Inr r, logs, s')
    \<and> pq_quizId r = qz_id z \<and> pq_questionCount r = length (qz_questions z)"
  using persist_fits [OF assms(2)] assms(1) by (fastforce simp: handoff_persist_def)

lemma handoff_failure: "handoff_persist persist dg lc h s = (Inl e, logs, s') \<Longrightarrow> s' = s"
  using persist_failed by (auto simp: handoff_persist_def Let_def split: sum.splits prod.splits)

end

section \<open>The repositories provide the ports\<close>

definition quiz_db_wf :: "quiz_db \<Rightarrow> bool" where
  "quiz_db_wf db \<longleftrightarrow> db_constraints db \<and> answerable db"

lemma grading_cong:
  "db_quizzes d = db_quizzes e \<Longrightarrow> db_questions d = db_questions e \<Longrightarrow> db_options d = db_options e \<Longrightarrow>
     findForGradingByOwnerId w i d = findForGradingByOwnerId w i e"
  by (simp add: findForGradingByOwnerId_def find_owned_quiz_def ordered_questions_def loaded_options_def options_of_def
      Let_def split: option.split)

lemma grading_None: "findForGradingByOwnerId w i db = None \<longleftrightarrow> find_owned_quiz db w i = None"
  by (auto simp: findForGradingByOwnerId_def Let_def split: option.splits)

lemma persistAttempt_wf: "quiz_db_wf db \<Longrightarrow> quiz_db_wf (snd (persistAttempt now a db))"
  using persistAttempt_constraints [of db now a] persistAttempt_catalogue [of now a db]
  by (simp add: quiz_db_wf_def answerable_def)

lemma persistAttempt_owned:
  "find_owned_quiz db (pa_ownerId a) (pa_quizId a) \<noteq> None \<Longrightarrow> fst (persistAttempt now a db) \<noteq> Inr False"
  by (auto simp: persistAttempt_def in_transaction_def persistAttempt_tx_def and_then_eq_Inr split: sum.splits option.splits)

interpretation quiz_store: quiz_attempt_store quiz_db_wf findServedByOwnerId findForGradingByOwnerId "persistAttempt now"
  for now :: int
proof
  show "quiz_db_wf s \<Longrightarrow> findForGradingByOwnerId w i s = Some g \<Longrightarrow> distinct (map gq_id (gz_questions g)) \<and> gz_id g = i" for w i s g
    using distinct_grading_ids [of s w i g] by (simp add: quiz_db_wf_def findForGrading_Some)
  show "findForGradingByOwnerId (pa_ownerId a) (pa_quizId a) s = None \<Longrightarrow> persistAttempt now a s = (Inr False, s)" for a s
    by (simp add: grading_None persistAttempt_def in_transaction_def persistAttempt_tx_def)
  show "findForGradingByOwnerId (pa_ownerId a) (pa_quizId a) s = Some g \<Longrightarrow> fst (persistAttempt now a s) \<noteq> Inr False" for a s g
    by (intro persistAttempt_owned) (metis grading_None option.distinct(1))
  show "persistAttempt now a s = (Inl e, s') \<Longrightarrow> s' = s" for a s e s'
    unfolding persistAttempt_def by (rule in_transaction_error)
qed (auto simp: served_is_stripped_grading persistAttempt_wf persistAttempt_catalogue intro: grading_cong)

interpretation attempt_results: attempt_reader quiz_db_wf findServedByOwnerId findForGradingByOwnerId "persistAttempt now"
  findByOwnerQuizAndAttemptId "\<lambda>db. ar_id ` set (db_attempts db)"
  for now :: int
proof
  fix s w i g aid ss a
  assume "quiz_db_wf s" "findForGradingByOwnerId w i s = Some g" "gradeAttempt aid w g ss = Graded a"
    "aid \<notin> ar_id ` set (db_attempts s)" "gz_questions g \<noteq> []" "length (gz_questions g) \<le> 2147483647"
  then show "\<exists>s' r. persistAttempt now a s = (Inr True, s') \<and> findByOwnerQuizAndAttemptId w i aid s' = Some r
       \<and> map graded_answer.truncate (at_results r) = pa_results a \<and> (\<forall>x\<in>set (at_results r). result_matches g x)
       \<and> at_score r = int (pa_score a) \<and> at_questionCount r = int (length (gz_questions g))"
    using attempt_roundtrip [of s w i g aid ss a now] unfolding quiz_db_wf_def by blast
qed

definition quiz_fits :: "quiz \<Rightarrow> quiz_db \<Rightarrow> bool" where
  "quiz_fits z db \<longleftrightarrow> db_constraints db \<and> storable z \<and> unused z db \<and> qz_questions z \<noteq> []"

interpretation quiz_writer: quiz_persistence quiz_fits quiz_persist
proof
  fix z s
  assume "quiz_fits z s"
  then have fit: "db_constraints s" "storable z" "unused z s" "qz_questions z \<noteq> []" by (simp_all add: quiz_fits_def)
  from quiz_persist_new [OF fit(1-3)] quiz_persist_again [OF fit]
  show "\<exists>r s'. quiz_persist z s = (Inr r, s') \<and> pq_quizId r = qz_id z
      \<and> pq_questionCount r = length (qz_questions z) \<and> quiz_persist z s' = (Inr r, s')" by auto
next
  show "quiz_persist z s = (Inl e, s') \<Longrightarrow> s' = s" for z s e s'
    unfolding quiz_persist_def by (rule in_transaction_error)
qed

section \<open>Properties\<close>

text \<open>What a submission leaves behind.\<close>

lemma persistAttempt_stored:
  assumes "db_constraints db" and fresh: "pa_id a \<notin> ar_id ` set (db_attempts db)"
    and "distinct (map ga_questionId (pa_results a))" and "persistAttempt now a db = (Inr True, db')"
  shows "db' = attempt_stored now a db"
proof -
  have attempts: "save_rows ar_id m [attempt_row_of now a] (db_attempts db) = Some (db_attempts db @ [attempt_row_of now a])" for m
    using fresh by (intro save_rows_fresh) (auto simp: attempt_row_of_def)
  have free: "aa_attemptId r \<noteq> pa_id a" if "r \<in> set (db_answers db)" for r
  proof -
    have "aa_attemptId r \<in> set (map ar_id (db_attempts db))"
      using assms(1) that by (auto simp: db_constraints_def answer_keys_def list_all_iff)
    with fresh show ?thesis by auto
  qed
  have keys: "map (\<lambda>r. (aa_attemptId r, aa_questionId r)) (map (answer_row_of a) (pa_results a))
      = map (Pair (pa_id a)) (map ga_questionId (pa_results a))" by (simp add: answer_row_of_def)
  have answers: "save_rows (\<lambda>r. (aa_attemptId r, aa_questionId r)) (\<lambda>_ n. n) (map (answer_row_of a) (pa_results a)) (db_answers db)
      = Some (db_answers db @ map (answer_row_of a) (pa_results a))"
  proof (rule save_rows_fresh)
    show "distinct (map (\<lambda>r. (aa_attemptId r, aa_questionId r)) (map (answer_row_of a) (pa_results a)))"
      unfolding keys using assms(3) by (subst distinct_map) (simp add: inj_on_def)
    show "set (map (\<lambda>r. (aa_attemptId r, aa_questionId r)) (map (answer_row_of a) (pa_results a)))
        \<inter> set (map (\<lambda>r. (aa_attemptId r, aa_questionId r)) (db_answers db)) = {}"
      unfolding keys using free by (auto dest: sym)
  qed
  from assms(4) have tx: "persistAttempt_tx now a db = Inr (True, db')"
    by (simp add: persistAttempt_def in_transaction_def split: sum.splits prod.splits)
  then obtain db1 where "save_attempts [attempt_row_of now a] db = Inr db1"
    and "save_answers (map (answer_row_of a) (pa_results a)) db1 = Inr db'"
    by (cases "find_owned_quiz db (pa_ownerId a) (pa_quizId a)") (auto simp: persistAttempt_tx_def and_then_eq_Inr)
  moreover have "db1 = db\<lparr>db_attempts := db_attempts db @ [attempt_row_of now a]\<rparr>"
    using calculation(1) by (simp add: save_attempts_def attempts checked_def split: if_splits)
  ultimately show ?thesis
    by (simp add: save_answers_def answers checked_def attempt_stored_def split: if_splits)
qed

lemma submit_stores:
  assumes "quiz_db_wf s" and "uuid \<notin> ar_id ` set (db_attempts s)"
    and "submitAttempt findForGradingByOwnerId (persistAttempt now) uuid w i ss s = (Inr r, s')"
  shows "s' = s\<lparr>
      db_attempts := db_attempts s @ [\<lparr>ar_id = uuid, ar_quizId = i, ar_ownerId = w, ar_score = int (gr_score r),
        ar_questionCount = int (gr_questionCount r), ar_createdAt = now\<rparr>],
      db_answers := db_answers s @ map (\<lambda>x. \<lparr>aa_attemptId = uuid, aa_questionId = ga_questionId x,
        aa_selectedOptionId = ga_selectedOptionId x, aa_ownerId = w, aa_isCorrect = ga_isCorrect x\<rparr>) (gr_results r)\<rparr>"
proof -
  from assms(3) obtain g a where g: "findForGradingByOwnerId w i s = Some g" and a: "gradeAttempt uuid w g ss = Graded a"
    and p: "persistAttempt now a s = (Inr True, s')"
    and r: "r = \<lparr>gr_id = pa_id a, gr_questionCount = pa_questionCount a, gr_results = pa_results a, gr_score = pa_score a\<rparr>"
    by (auto simp: submitAttempt_def split: option.splits graded.splits prod.splits sum.splits bool.splits)
  have ids: "distinct (map gq_id (gz_questions g))" "gz_id g = i" using quiz_store.grading_ids [OF assms(1) g] by simp_all
  from grade_attempt_total [OF ids(1), where aid = uuid and w = w and ss = ss] a ids(2)
  have f: "pa_id a = uuid" "pa_ownerId a = w" "pa_quizId a = i" "map ga_questionId (pa_results a) = map gq_id (gz_questions g)" by simp_all
  have "s' = attempt_stored now a s"
    using assms(1,2) p f ids(1) by (intro persistAttempt_stored) (simp_all add: quiz_db_wf_def)
  then show ?thesis by (simp add: attempt_stored_def attempt_row_of_def answer_row_of_def [abs_def] r f(1-3))
qed

lemma submit_not_refused:
  assumes "quiz_db_wf s" and "submitAttempt findForGradingByOwnerId (persistAttempt now) uuid w i ss s = (Inl (StoreFailure e), s')"
    and "findForGradingByOwnerId w i s = Some g" and "gz_questions g \<noteq> []" and "length (gz_questions g) \<le> 2147483647"
  shows "complete_submission g ss \<and> uuid \<in> ar_id ` set (db_attempts s)"
proof -
  have con: "db_constraints s" using assms(1) by (simp add: quiz_db_wf_def)
  have ids: "distinct (map gq_id (gz_questions g))" using quiz_store.grading_ids [OF assms(1,3)] by simp
  from assms(2,3) obtain a where a: "gradeAttempt uuid w g ss = Graded a" and p: "fst (persistAttempt now a s) = Inl e"
    by (auto simp: submitAttempt_def split: graded.splits prod.splits sum.splits bool.splits)
  have "uuid \<in> ar_id ` set (db_attempts s)"
  proof (rule ccontr)
    assume "uuid \<notin> ar_id ` set (db_attempts s)"
    from persistAttempt_new [OF con attempt_fits_of_graded [OF con assms(3) a this assms(4,5)], of now] p show False by simp
  qed
  with grade_attempt_total [OF ids, where aid = uuid and w = w and ss = ss] a show ?thesis by simp
qed

text \<open>C2 The answer to a submission, over the repository, in every case: 404 exactly when the owner
  has no such quiz, 400 exactly when the answers do not cover the quiz, both without a change; on
  success the result is one graded answer per question in quiz order, each what practice feedback
  says of the submitted selection, the score the number of correct ones, and for a new identifier the database has gained
  exactly the row of this attempt, with the owner, the quiz, the score and the count, and one row per
  graded answer, with the option chosen and whether it is right.  A quiz that has questions, as many as
  a column can count, and a new identifier never fail in the store.\<close>

theorem submit_attempt_outcome:
  assumes "quiz_db_wf s"
  shows "case submitAttempt findForGradingByOwnerId (persistAttempt now) uuid w i ss s of
      (Inl (NotFoundException m), s') \<Rightarrow> findForGradingByOwnerId w i s = None \<and> s' = s
    | (Inl (BadRequestException m), s') \<Rightarrow>
        s' = s \<and> (case findForGradingByOwnerId w i s of None \<Rightarrow> False | Some g \<Rightarrow> \<not> complete_submission g ss)
    | (Inl (StoreFailure e), s') \<Rightarrow> s' = s \<and>
        (case findForGradingByOwnerId w i s of None \<Rightarrow> False
         | Some g \<Rightarrow> gz_questions g = [] \<or> 2147483647 < length (gz_questions g) \<or>
            complete_submission g ss \<and> uuid \<in> ar_id ` set (db_attempts s))
    | (Inr r, s') \<Rightarrow> quiz_db_wf s' \<and> gr_id r = uuid \<and>
        (uuid \<notin> ar_id ` set (db_attempts s) \<longrightarrow>
          s' = s\<lparr>
            db_attempts := db_attempts s @ [\<lparr>ar_id = uuid, ar_quizId = i, ar_ownerId = w, ar_score = int (gr_score r),
              ar_questionCount = int (gr_questionCount r), ar_createdAt = now\<rparr>],
            db_answers := db_answers s @ map (\<lambda>x. \<lparr>aa_attemptId = uuid, aa_questionId = ga_questionId x,
              aa_selectedOptionId = ga_selectedOptionId x, aa_ownerId = w, aa_isCorrect = ga_isCorrect x\<rparr>) (gr_results r)\<rparr>) \<and>
        (case findForGradingByOwnerId w i s of None \<Rightarrow> False
         | Some g \<Rightarrow> complete_submission g ss \<and> findForGradingByOwnerId w i s' = Some g
            \<and> gr_questionCount r = length (gz_questions g)
            \<and> gr_score r = length (filter ga_isCorrect (gr_results r)) \<and> gr_score r \<le> gr_questionCount r
            \<and> map ga_questionId (gr_results r) = map gq_id (gz_questions g)
            \<and> (\<forall>x\<in>set (gr_results r). \<exists>a\<in>set ss. sel_questionId a = ga_questionId x
                 \<and> getPracticeFeedback findForGradingByOwnerId w i a s = (Inr x :: store_error service_error + graded_answer)))"
proof (cases "submitAttempt findForGradingByOwnerId (persistAttempt now) uuid w i ss s")
  case (Pair x s')
  note out = quiz_store.submit_outcome [OF assms, where now = now and uuid = uuid and w = w and i = i and ss = ss, unfolded Pair]
  show ?thesis
  proof (cases x)
    case (Inr r)
    have "uuid \<notin> ar_id ` set (db_attempts s) \<longrightarrow> s' = s\<lparr>
      db_attempts := db_attempts s @ [\<lparr>ar_id = uuid, ar_quizId = i, ar_ownerId = w, ar_score = int (gr_score r),
        ar_questionCount = int (gr_questionCount r), ar_createdAt = now\<rparr>],
      db_answers := db_answers s @ map (\<lambda>x. \<lparr>aa_attemptId = uuid, aa_questionId = ga_questionId x,
        aa_selectedOptionId = ga_selectedOptionId x, aa_ownerId = w, aa_isCorrect = ga_isCorrect x\<rparr>) (gr_results r)\<rparr>"
      by (rule impI, rule submit_stores [OF assms _ Pair [unfolded Inr]])
    with out [unfolded Inr prod.case sum.case] show ?thesis unfolding Pair Inr prod.case sum.case
      by (elim conjE) (intro conjI; assumption)
  next
    case (Inl e)
    show ?thesis
    proof (cases e)
      case (StoreFailure d)
      have found: "findForGradingByOwnerId w i s \<noteq> None"
        using Pair unfolding Inl StoreFailure by (cases "findForGradingByOwnerId w i s") (simp_all add: submitAttempt_def)
      then obtain g where g: "findForGradingByOwnerId w i s = Some g" by blast
      have "gz_questions g = [] \<or> 2147483647 < length (gz_questions g) \<or>
          complete_submission g ss \<and> uuid \<in> ar_id ` set (db_attempts s)"
        using submit_not_refused [OF assms Pair [unfolded Inl StoreFailure] g] by linarith
      with out g show ?thesis unfolding Pair Inl StoreFailure by simp
    qed (use out in \<open>simp_all add: Pair Inl\<close>)
  qed
qed

lemma sample_wf: "quiz_db_wf (stored sample_quiz empty_quiz_db)"
  by (simp add: quiz_db_wf_def sample_constraints answerable_sample)

lemma submit_attempt_outcome_witness:
  "\<exists>r s'. submitAttempt findForGradingByOwnerId (persistAttempt 7) ''t'' ''w'' ''z''
      [\<lparr>sel_optionId = ''a'', sel_questionId = ''q''\<rparr>] (stored sample_quiz empty_quiz_db) = (Inr r, s')
    \<and> quiz_db_wf s' \<and> gr_score r \<le> gr_questionCount r
    \<and> map ar_id (db_attempts s') = [''t''] \<and> map aa_questionId (db_answers s') = [''q'']"
proof -
  let ?ss = "[\<lparr>sel_optionId = ''a'', sel_questionId = ''q''\<rparr>]" and ?db = "stored sample_quiz empty_quiz_db"
  have "\<exists>a. gradeAttempt ''t'' ''w'' (grading_view sample_quiz) ?ss = Graded a \<and> attempt_fits a ?db"
    using attempt_fits_of_graded [OF sample_constraints grading_sample, where aid = "''t''" and ss = ?ss]
    by (simp add: grading_view_def sample_quiz_def gradeAttempt_def grading_option_of_def stored_def empty_quiz_db_def)
  then obtain r s' where s': "submitAttempt findForGradingByOwnerId (persistAttempt 7) ''t'' ''w'' ''z'' ?ss ?db = (Inr r, s')"
    using persistAttempt_new [OF sample_constraints, where now = 7] by (auto simp: submitAttempt_def grading_sample)
  have none: "db_attempts ?db = []" "db_answers ?db = []" by (simp_all add: stored_def empty_quiz_db_def)
  have q: "map gq_id (gz_questions (grading_view sample_quiz)) = [''q'']" by (simp add: grading_view_def sample_quiz_def)
  from submit_attempt_outcome [OF sample_wf, where now = 7 and uuid = "''t''" and w = "''w''" and i = "''z''" and ss = ?ss]
  have out: "quiz_db_wf s' \<and> gr_score r \<le> gr_questionCount r \<and> map ga_questionId (gr_results r) = [''q''] \<and>
      map ar_id (db_attempts s') = [''t''] \<and> map aa_questionId (db_answers s') = map ga_questionId (gr_results r)"
    unfolding s' prod.case sum.case grading_sample option.case q none
    by (elim conjE) (simp add: comp_def)
  then have "quiz_db_wf s'" "gr_score r \<le> gr_questionCount r" "map ar_id (db_attempts s') = [''t'']"
      "map aa_questionId (db_answers s') = [''q'']" by simp_all
  with s' show ?thesis by (intro exI conjI)
qed

text \<open>A submission that covers the quiz is accepted and can be read back: the stored result
  lists the same graded answers in the same order, with the score and the count the submission
  returned, and for every answer the stem, the selected option and a correct option of its
  question.\<close>

theorem submit_then_read_back:
  assumes "quiz_db_wf s" and "findForGradingByOwnerId w i s = Some g" and "complete_submission g ss"
    and "aid \<notin> ar_id ` set (db_attempts s)" and "gz_questions g \<noteq> []" and "length (gz_questions g) \<le> 2147483647"
  shows "\<exists>r s' a. submitAttempt findForGradingByOwnerId (persistAttempt now) aid w i ss s = (Inr r, s')
    \<and> getAttemptResult findByOwnerQuizAndAttemptId w i aid s' = (Inr a :: store_error service_error + attempt_result)
    \<and> map graded_answer.truncate (at_results a) = gr_results r \<and> (\<forall>x\<in>set (at_results a). result_matches g x)
    \<and> at_score a = int (gr_score r) \<and> at_questionCount a = int (gr_questionCount r)"
  using assms by (rule attempt_results.submit_then_read)

lemma submit_then_read_back_witness:
  "\<exists>r s' a. submitAttempt findForGradingByOwnerId (persistAttempt 7) ''t'' ''w'' ''z''
      [\<lparr>sel_optionId = ''a'', sel_questionId = ''q''\<rparr>] (stored sample_quiz empty_quiz_db) = (Inr r, s')
    \<and> getAttemptResult findByOwnerQuizAndAttemptId ''w'' ''z'' ''t'' s' = (Inr a :: store_error service_error + attempt_result)
    \<and> at_score a = int (gr_score r)"
proof -
  let ?ss = "[\<lparr>sel_optionId = ''a'', sel_questionId = ''q''\<rparr>]" and ?db = "stored sample_quiz empty_quiz_db"
  have "complete_submission (grading_view sample_quiz) ?ss" "''t'' \<notin> ar_id ` set (db_attempts ?db)"
      "gz_questions (grading_view sample_quiz) \<noteq> []" "length (gz_questions (grading_view sample_quiz)) \<le> 2147483647"
    by (simp_all add: complete_submission_def grading_view_def sample_quiz_def grading_option_of_def stored_def empty_quiz_db_def)
  from submit_then_read_back [OF sample_wf grading_sample this, of 7] show ?thesis by blast
qed

text \<open>What a served quiz must not depend on, erased.\<close>

definition redact :: "quiz_db \<Rightarrow> quiz_db" where
  "redact db = db
     \<lparr>db_questions := map (\<lambda>q. q\<lparr>qr_explanation := [], qr_citation :=
         \<lparr>cit_chunkId = [], cit_locator = MalformedLocator, cit_snippet = []\<rparr>\<rparr>) (db_questions db),
      db_options := map (\<lambda>p. p\<lparr>or_isCorrect := False\<rparr>) (db_options db)\<rparr>"

lemma filter_map_same: "(\<And>x. P (f x) = P x) \<Longrightarrow> filter P (map f xs) = map f (filter P xs)"
  by (induction xs) auto

lemma sort_key_map_same: "(\<And>x. k (f x) = k x) \<Longrightarrow> sort_key k (map f xs) = map f (sort_key k xs)"
  by (simp add: sort_key_map_commute comp_def)

text \<open>C11 A learner cannot learn the answers from the served quiz: erasing every correct-answer flag,
  explanation and citation from the database leaves what \<open>getQuiz\<close> answers unchanged, for every
  owner and quiz.\<close>

theorem served_quiz_hides_answers:
  "getQuiz findServedByOwnerId w i (redact db) = (getQuiz findServedByOwnerId w i db :: 'e service_error + served_quiz)"
proof -
  let ?fq = "\<lambda>q. q\<lparr>qr_explanation := [], qr_citation := \<lparr>cit_chunkId = [], cit_locator = MalformedLocator, cit_snippet = []\<rparr>\<rparr>"
    and ?fo = "\<lambda>p. p\<lparr>or_isCorrect := False\<rparr>"
  have q: "ordered_questions (redact db) w i = map ?fq (ordered_questions db w i)"
    by (simp add: ordered_questions_def redact_def filter_map_same sort_key_map_same)
  have p: "loaded_options (redact db) w (map ?fq qs) = map ?fo (loaded_options db w qs)" for qs
    by (simp add: loaded_options_def options_of_def redact_def filter_map_same sort_key_map_same comp_def)
  have "find_owned_quiz (redact db) w i = find_owned_quiz db w i"
    by (simp add: find_owned_quiz_def redact_def)
  with q p have "findServedByOwnerId w i (redact db) = findServedByOwnerId w i db"
    by (simp add: findServedByOwnerId_def Let_def filter_map_same comp_def split: option.split)
  then show ?thesis by (simp add: getQuiz_def)
qed

text \<open>Redelivering a generated quiz is harmless: when the quiz built from the handoff fits the
  database, the first delivery stores it, and a second delivery of the same handoff returns the
  same identifiers and counts and leaves the database as it is.\<close>

theorem handoff_redelivered:
  assumes "Quiz_create dg lc h = Inr z" and "quiz_fits z db"
  shows "\<exists>r logs db'. handoff_persist quiz_persist dg lc h db = (Inr r, logs, db')
    \<and> handoff_persist quiz_persist dg lc h db' = (Inr r, logs, db')
    \<and> pq_quizId r = qz_id z \<and> pq_questionCount r = length (qz_questions z)"
  using assms by (rule quiz_writer.handoff_redelivery)

lemma single_fits:
  assumes z: "Quiz_create sample_digest lc single_handoff = Inr z"
  shows "quiz_fits z empty_quiz_db"
proof -
  obtain y where "Quiz_create sample_digest lc single_handoff = Inr y"
    and yid: "qz_id y = projr (uuidFromSha256 (quiz_key sample_digest single_handoff))"
    and qs: "qz_questions y = accepted_questions sample_digest lc single_handoff"
    using Quiz_create_single by blast
  with z have y: "y = z" by simp
  have wf: "quiz_questions_wf sample_digest (qz_id z) (qz_questions z)"
    using accepted_questions_wf [of sample_digest single_handoff lc] yid qs by (simp add: y)
  have ids: "distinct (map qu_id (qz_questions z) @ concat (map (\<lambda>q. map opt_id (qu_options q)) (qz_questions z)))"
    using quiz_ids_distinct_of [OF wf] single_preimages_inj [OF yid qs] by (simp add: y)
  have row: "quiz_row_ok (quiz_row_of z)"
    using z by (auto simp: Quiz_create_def Let_def quiz_row_ok_def quiz_row_of_def quiz_key_def sha256_def
        single_handoff_def sample_handoff_def nonblank_def split: if_splits)
  have "storable z"
    using wf row ids unfolding storable_def quiz_questions_wf_def
    by (auto simp: qs [unfolded y] accepted_single question_key_def sha256_def sample_candidate_def with_ordinal_def nonblank_def)
  moreover have "qz_questions z \<noteq> []"
    by (simp add: qs [unfolded y] accepted_single)
  ultimately show ?thesis
    by (simp add: quiz_fits_def empty_db_constraints unused_empty)
qed

lemma handoff_redelivered_witness:
  "\<exists>r logs db'. handoff_persist quiz_persist sample_digest by_length single_handoff empty_quiz_db = (Inr r, logs, db')
    \<and> handoff_persist quiz_persist sample_digest by_length single_handoff db' = (Inr r, logs, db')"
proof -
  obtain z where "Quiz_create sample_digest by_length single_handoff = Inr z"
    using Quiz_create_single by blast
  from handoff_redelivered [OF this single_fits [OF this]] show ?thesis by blast
qed

end
