(* ===== verification/ProcessingJobs.thy ===== *)
theory ProcessingJobs imports Prelude begin

text \<open>
  The durable job queue: \<open>repositories/processing-job.repository.ts\<close> over the entity
  \<open>entities/processing-job.entity.ts\<close>, the result events of
  \<open>contracts/document-processing-result.ts\<close> and the table they are written to.

  The state \<open>ai_db\<close> holds the jobs, the dead-letter queue and the outbox.  A transaction runs
  at one instant \<open>now\<close> (milliseconds, \<open>now()\<close> of its transaction) and is atomic: row locks and
  \<open>SKIP LOCKED\<close> make concurrent transactions serial.  Random identifiers are arguments.
  A statement that breaks a constraint is \<open>DbFailure\<close> and changes nothing.
\<close>

section \<open>Data\<close>

datatype job_status = PENDING | RUNNING | COMPLETED | FAILED

datatype failure_code =
    CHUNK_RESOURCE_LIMIT_EXCEEDED
  | BUDGET_EXHAUSTED
  | EXTRACTION_OBJECT_NOT_FOUND
  | EXTRACTION_OBJECT_TOO_LARGE
  | GENERATION_OUTPUT_INVALID
  | GENERATION_OUTPUT_TRUNCATED
  | INSUFFICIENT_QUESTIONS
  | PDF_INVALID
  | PDF_TEXT_NOT_FOUND
  | PROCESSING_FAILED
  | PROCESSING_TIMED_OUT
  | PROVIDER_UNAVAILABLE

fun failure_code_str :: "failure_code \<Rightarrow> string" where
  "failure_code_str CHUNK_RESOURCE_LIMIT_EXCEEDED = ''CHUNK_RESOURCE_LIMIT_EXCEEDED''"
| "failure_code_str BUDGET_EXHAUSTED = ''BUDGET_EXHAUSTED''"
| "failure_code_str EXTRACTION_OBJECT_NOT_FOUND = ''EXTRACTION_OBJECT_NOT_FOUND''"
| "failure_code_str EXTRACTION_OBJECT_TOO_LARGE = ''EXTRACTION_OBJECT_TOO_LARGE''"
| "failure_code_str GENERATION_OUTPUT_INVALID = ''GENERATION_OUTPUT_INVALID''"
| "failure_code_str GENERATION_OUTPUT_TRUNCATED = ''GENERATION_OUTPUT_TRUNCATED''"
| "failure_code_str INSUFFICIENT_QUESTIONS = ''INSUFFICIENT_VALID_QUESTIONS''"
| "failure_code_str PDF_INVALID = ''PDF_INVALID''"
| "failure_code_str PDF_TEXT_NOT_FOUND = ''PDF_TEXT_NOT_FOUND''"
| "failure_code_str PROCESSING_FAILED = ''PROCESSING_FAILED''"
| "failure_code_str PROCESSING_TIMED_OUT = ''PROCESSING_TIMED_OUT''"
| "failure_code_str PROVIDER_UNAVAILABLE = ''PROVIDER_UNAVAILABLE''"

definition all_failure_codes :: "failure_code list" where
  "all_failure_codes =
     [CHUNK_RESOURCE_LIMIT_EXCEEDED, BUDGET_EXHAUSTED, EXTRACTION_OBJECT_NOT_FOUND, EXTRACTION_OBJECT_TOO_LARGE,
      GENERATION_OUTPUT_INVALID, GENERATION_OUTPUT_TRUNCATED, INSUFFICIENT_QUESTIONS, PDF_INVALID,
      PDF_TEXT_NOT_FOUND, PROCESSING_FAILED, PROCESSING_TIMED_OUT, PROVIDER_UNAVAILABLE]"

definition isDocumentProcessingFailureRetryable :: "failure_code option \<Rightarrow> bool" where
  "isDocumentProcessingFailureRetryable c \<longleftrightarrow>
     c = Some BUDGET_EXHAUSTED \<or> c = Some GENERATION_OUTPUT_INVALID \<or> c = Some GENERATION_OUTPUT_TRUNCATED \<or>
     c = Some PROCESSING_TIMED_OUT \<or> c = Some PROVIDER_UNAVAILABLE"

datatype selection_kind = PLAN | CUSTOM

record model_selection =
  ms_customModelConfigId :: "string option"
  ms_kind :: selection_kind
  ms_platformModelId :: "string option"

record job_row =
  j_id :: string
  j_documentId :: string
  j_ownerId :: string
  j_jobType :: string
  j_status :: job_status
  j_idempotencyKey :: string
  j_correlationId :: string
  j_attempts :: nat
  j_leaseId :: "string option"
  j_leaseUntil :: "int option"
  j_nextVisibleAt :: int
  j_technicalRetryCount :: nat
  j_failureCode :: "failure_code option"
  j_completedAt :: "int option"
  j_errorMessage :: "string option"
  j_modelSelectionKind :: "selection_kind option"
  j_platformModelId :: "string option"
  j_customModelConfigId :: "string option"
  j_estimatedCredits :: "int option"
  j_settledCredits :: "int option"
  j_budgetStatus :: "string option"
  j_createdAt :: int
  j_updatedAt :: int

record dlq_row =
  dq_jobId :: string
  dq_documentId :: string
  dq_ownerId :: string
  dq_correlationId :: string
  dq_idempotencyKey :: string
  dq_lastAttempt :: nat
  dq_reasonCode :: failure_code

record outbox_row =
  ob_id :: nat
  ob_aggregateId :: string
  ob_eventType :: string
  ob_payload :: "(string \<times> json) list"
  ob_createdAt :: int
  ob_publishedAt :: "int option"

record ai_db =
  ai_jobs :: "job_row list"
  ai_dlq :: "dlq_row list"
  ai_outbox :: "outbox_row list"
  ai_nextEventId :: nat

record enqueue_command =
  ec_correlationId :: string
  ec_documentId :: string
  ec_jobType :: string
  ec_ownerId :: string
  ec_selection :: "model_selection option"

record job_attempt =
  ja_attempts :: nat
  ja_id :: string
  ja_leaseId :: string

datatype db_failure = DbFailure | EntityNotFound

section \<open>Result events\<close>

definition failureMessage :: "failure_code option \<Rightarrow> string option" where
  "failureMessage c =
     (if c = Some PROCESSING_TIMED_OUT then Some ''Processing timed out''
      else if c = Some PROVIDER_UNAVAILABLE
        then Some ''Document processing is temporarily unavailable. Please try again later.''
      else if c = Some CHUNK_RESOURCE_LIMIT_EXCEEDED
        then Some ''Document exceeds configured chunk processing limits''
      else if c = Some BUDGET_EXHAUSTED then Some ''Processing budget was exhausted''
      else if c = Some PROCESSING_FAILED then Some ''Processing failed''
      else if c = Some EXTRACTION_OBJECT_NOT_FOUND then Some ''Uploaded object could not be read''
      else if c = Some EXTRACTION_OBJECT_TOO_LARGE
        then Some ''Uploaded object exceeds the extraction size limit''
      else if c = Some GENERATION_OUTPUT_INVALID then Some ''Generated question output is invalid''
      else if c = Some GENERATION_OUTPUT_TRUNCATED
        then Some ''Generated question output was truncated. Please try again later.''
      else if c = Some INSUFFICIENT_QUESTIONS then Some ''Not enough valid questions were generated''
      else if c = Some PDF_INVALID then Some ''Uploaded PDF could not be parsed''
      else if c = Some PDF_TEXT_NOT_FOUND then Some ''Uploaded PDF has no extractable text layer''
      else None)"

datatype result_status = READY_RESULT | FAILED_RESULT

fun result_status_str :: "result_status \<Rightarrow> string" where
  "result_status_str READY_RESULT = ''READY''"
| "result_status_str FAILED_RESULT = ''FAILED''"

definition nullable_str :: "string option \<Rightarrow> json" where
  "nullable_str v = (case v of None \<Rightarrow> JNull | Some s \<Rightarrow> JStr s)"

text \<open>\<open>Number(bigint text)\<close>: exact for credits within the safe integers.\<close>

definition nullable_int :: "int option \<Rightarrow> json" where
  "nullable_int v = (case v of None \<Rightarrow> JNull | Some n \<Rightarrow> JNum (JFin (of_int n)))"

definition result_event_type :: string where
  "result_event_type = ''DocumentProcessingResult''"

definition createResultEvent ::
  "job_row \<Rightarrow> result_status \<Rightarrow> failure_code option \<Rightarrow> (string \<times> json) list" where
  "createResultEvent job documentStatus errorCode =
     [(''documentId'', JStr (j_documentId job)),
      (''budgetStatus'', nullable_str
         (case j_budgetStatus job of
            Some s \<Rightarrow> Some s
          | None \<Rightarrow> if errorCode = Some BUDGET_EXHAUSTED then Some ''EXHAUSTED'' else None)),
      (''estimatedCredits'', nullable_int (j_estimatedCredits job)),
      (''estimateStatus'', nullable_str (if j_estimatedCredits job = None then None else Some ''AUTHORITATIVE'')),
      (''errorCode'', nullable_str (map_option failure_code_str errorCode)),
      (''errorMessage'', nullable_str (failureMessage errorCode)),
      (''ownerId'', JStr (j_ownerId job)),
      (''settledCredits'', nullable_int (j_settledCredits job)),
      (''status'', JStr (result_status_str documentStatus)),
      (''version'', JNum (JFin 1))]"

definition append_event :: "int \<Rightarrow> string \<Rightarrow> (string \<times> json) list \<Rightarrow> ai_db \<Rightarrow> ai_db" where
  "append_event now aggregateId payload db =
     db\<lparr>ai_outbox := ai_outbox db @
          [\<lparr>ob_id = ai_nextEventId db, ob_aggregateId = aggregateId, ob_eventType = result_event_type,
            ob_payload = payload, ob_createdAt = now, ob_publishedAt = None\<rparr>],
        ai_nextEventId := Suc (ai_nextEventId db)\<rparr>"

section \<open>Operations\<close>

definition update_jobs :: "(job_row \<Rightarrow> bool) \<Rightarrow> (job_row \<Rightarrow> job_row) \<Rightarrow> job_row list \<Rightarrow> job_row list" where
  "update_jobs P f jobs = map (\<lambda>j. if P j then f j else j) jobs"

definition new_job :: "string \<Rightarrow> int \<Rightarrow> enqueue_command \<Rightarrow> string \<Rightarrow> job_row" where
  "new_job newId now c key =
     \<lparr>j_id = newId, j_documentId = ec_documentId c, j_ownerId = ec_ownerId c, j_jobType = ec_jobType c,
          j_status = PENDING, j_idempotencyKey = key, j_correlationId = ec_correlationId c,
          j_attempts = 0, j_leaseId = None, j_leaseUntil = None, j_nextVisibleAt = now,
          j_technicalRetryCount = 0, j_failureCode = None, j_completedAt = None, j_errorMessage = None,
          j_modelSelectionKind = map_option ms_kind (ec_selection c),
          j_platformModelId = Option.bind (ec_selection c) ms_platformModelId,
          j_customModelConfigId = Option.bind (ec_selection c) ms_customModelConfigId,
          j_estimatedCredits = None, j_settledCredits = None, j_budgetStatus = None,
          j_createdAt = now, j_updatedAt = now\<rparr>"

definition enqueue :: "string \<Rightarrow> int \<Rightarrow> enqueue_command \<Rightarrow> string \<Rightarrow> ai_db \<Rightarrow> (db_failure + unit) \<times> ai_db" where
  "enqueue newId now c key db =
     (if list_ex (\<lambda>j. j_documentId j = ec_documentId c \<and> j_jobType j = ec_jobType c) (ai_jobs db)
      then (Inr (), db\<lparr>ai_jobs := update_jobs
              (\<lambda>j. j_documentId j = ec_documentId c \<and> j_jobType j = ec_jobType c \<and> j_status j = FAILED)
              (\<lambda>j. j\<lparr>j_status := PENDING, j_attempts := j_attempts j + 1, j_technicalRetryCount := 0,
                     j_updatedAt := now\<rparr>) (ai_jobs db)\<rparr>)
      else if list_ex (\<lambda>j. j_idempotencyKey j = key \<or> j_id j = newId) (ai_jobs db) then (Inl DbFailure, db)
      else (Inr (), db\<lparr>ai_jobs := ai_jobs db @
              [new_job newId now c key]\<rparr>))"

text \<open>The test \<open>lease_until > now()\<close>, false on NULL.\<close>

definition lease_live :: "int \<Rightarrow> job_row \<Rightarrow> bool" where
  "lease_live now j \<longleftrightarrow> (case j_leaseUntil j of None \<Rightarrow> False | Some t \<Rightarrow> now < t)"

definition lease_expired :: "int \<Rightarrow> job_row \<Rightarrow> bool" where
  "lease_expired now j \<longleftrightarrow> (case j_leaseUntil j of None \<Rightarrow> False | Some t \<Rightarrow> t \<le> now)"

definition claimable :: "int \<Rightarrow> job_row \<Rightarrow> bool" where
  "claimable now j \<longleftrightarrow>
     j_status j = PENDING \<and> j_nextVisibleAt j \<le> now \<or> j_status j = RUNNING \<and> lease_expired now j"

text \<open>
  \<open>manager.query\<close> of an UPDATE: TypeORM answers the pair of the returned rows and their count
  (the other statements of this file destructure it as \<open>[rows]\<close>), an INSERT or SELECT the rows.
  \<open>claimPending\<close> indexes the answer itself with \<open>[0]\<close> and reads three fields off the result;
  \<open>first_of\<close> is what that yields: \<^const>\<open>None\<close> when it is falsy, otherwise the three fields, each
  \<^const>\<open>None\<close> when undefined.
\<close>

record claimed_fields =
  cf_attempts :: "nat option"
  cf_id :: "string option"
  cf_leaseId :: "string option"

type_synonym update_answer = "job_attempt list \<Rightarrow> claimed_fields option"

definition rows_and_count :: update_answer where
  "rows_and_count rows = Some \<lparr>cf_attempts = None, cf_id = None, cf_leaseId = None\<rparr>"

definition rows_only :: update_answer where
  "rows_only rows =
     (case rows of [] \<Rightarrow> None
      | r # _ \<Rightarrow> Some \<lparr>cf_attempts = Some (ja_attempts r), cf_id = Some (ja_id r), cf_leaseId = Some (ja_leaseId r)\<rparr>)"

text \<open>\<open>findOneBy\<close> ignores a condition whose argument is undefined.\<close>

definition matches :: "'a option \<Rightarrow> 'a \<Rightarrow> bool" where
  "matches c v \<longleftrightarrow> (case c of None \<Rightarrow> True | Some x \<Rightarrow> v = x)"

definition lease_ttl :: int where
  "lease_ttl = 900000"

definition take_lease :: "string \<Rightarrow> int \<Rightarrow> job_row \<Rightarrow> job_row" where
  "take_lease lease now j =
     j\<lparr>j_attempts := j_attempts j + 1, j_leaseId := Some lease, j_leaseUntil := Some (now + lease_ttl),
       j_status := RUNNING, j_updatedAt := now\<rparr>"

definition claimPending_tx ::
  "update_answer \<Rightarrow> string \<Rightarrow> int \<Rightarrow> ai_db \<Rightarrow> db_failure + (job_row option \<times> ai_db)" where
  "claimPending_tx first_of lease now db =
     (case sort_key j_createdAt (filter (claimable now) (ai_jobs db)) of
        [] \<Rightarrow> Inr (None, db)
      | j # _ \<Rightarrow>
          let sel = (\<lambda>k. j_id k = j_id j \<and> claimable now k);
              rows = map (\<lambda>k. \<lparr>ja_attempts = j_attempts k + 1, ja_id = j_id k, ja_leaseId = lease\<rparr>)
                       (filter sel (ai_jobs db));
              db' = db\<lparr>ai_jobs := update_jobs sel (take_lease lease now) (ai_jobs db)\<rparr>
          in case first_of rows of
               None \<Rightarrow> Inr (None, db')
             | Some attempt \<Rightarrow>
                 (case List.find (\<lambda>k. matches (cf_attempts attempt) (j_attempts k) \<and> matches (cf_id attempt) (j_id k)
                          \<and> matches (map_option Some (cf_leaseId attempt)) (j_leaseId k) \<and> j_status k = RUNNING)
                         (ai_jobs db') of
                    None \<Rightarrow> Inl EntityNotFound
                  | Some k \<Rightarrow> Inr (Some k, db')))"

definition claimPending ::
  "update_answer \<Rightarrow> string \<Rightarrow> int \<Rightarrow> ai_db \<Rightarrow> (db_failure + job_row option) \<times> ai_db" where
  "claimPending first_of lease now = in_transaction (claimPending_tx first_of lease now)"

text \<open>The fence every later write carries: same job, same attempt, same lease, still running.\<close>

definition fenced :: "job_attempt \<Rightarrow> job_row \<Rightarrow> bool" where
  "fenced a j \<longleftrightarrow>
     j_id j = ja_id a \<and> j_attempts j = ja_attempts a \<and> j_leaseId j = Some (ja_leaseId a) \<and> j_status j = RUNNING"

definition finalized_row :: "job_status \<Rightarrow> failure_code option \<Rightarrow> int \<Rightarrow> job_row \<Rightarrow> job_row" where
  "finalized_row status code now j =
     j\<lparr>j_status := status, j_failureCode := code, j_errorMessage := failureMessage code,
       j_leaseId := None, j_leaseUntil := None, j_completedAt := Some now, j_updatedAt := now\<rparr>"

definition finalize ::
  "job_attempt \<Rightarrow> job_status \<Rightarrow> result_status \<Rightarrow> failure_code option \<Rightarrow> int \<Rightarrow> ai_db \<Rightarrow> bool \<times> ai_db" where
  "finalize a status documentStatus code now db =
     (case List.find (fenced a) (ai_jobs db) of
        None \<Rightarrow> (False, db)
      | Some job \<Rightarrow>
          let sel = (\<lambda>j. fenced a j \<and> lease_live now j)
          in if length (filter sel (ai_jobs db)) \<noteq> 1 then (False, db)
             else (True, append_event now (j_id job) (createResultEvent job documentStatus code)
                     (db\<lparr>ai_jobs := update_jobs sel (finalized_row status code now) (ai_jobs db)\<rparr>)))"

definition complete :: "job_attempt \<Rightarrow> int \<Rightarrow> ai_db \<Rightarrow> bool \<times> ai_db" where
  "complete a = finalize a COMPLETED READY_RESULT None"

definition fail :: "job_attempt \<Rightarrow> failure_code \<Rightarrow> int \<Rightarrow> ai_db \<Rightarrow> bool \<times> ai_db" where
  "fail a code = finalize a FAILED FAILED_RESULT (Some code)"

definition ensureDefaultPlatformModel :: "job_attempt \<Rightarrow> string \<Rightarrow> string \<Rightarrow> int \<Rightarrow> ai_db \<Rightarrow> bool \<times> ai_db" where
  "ensureDefaultPlatformModel a ownerId modelId now db =
     (let sel = (\<lambda>j. fenced a j \<and> j_ownerId j = ownerId \<and> lease_live now j \<and> j_modelSelectionKind j = None
                   \<and> j_platformModelId j = None \<and> j_customModelConfigId j = None)
      in (length (filter sel (ai_jobs db)) = 1,
          db\<lparr>ai_jobs := update_jobs sel (\<lambda>j. j\<lparr>j_modelSelectionKind := Some PLAN,
               j_platformModelId := Some modelId, j_updatedAt := now\<rparr>) (ai_jobs db)\<rparr>))"

definition record_budget ::
  "job_attempt \<Rightarrow> int \<Rightarrow> int \<Rightarrow> string \<Rightarrow> int \<Rightarrow> ai_db \<Rightarrow> bool \<times> ai_db" where
  "record_budget a estimatedCredits settledCredits budgetStatus now db =
     (let sel = (\<lambda>j. fenced a j \<and> lease_live now j)
      in (length (filter sel (ai_jobs db)) = 1,
          db\<lparr>ai_jobs := update_jobs sel (\<lambda>j. j\<lparr>j_estimatedCredits := Some estimatedCredits,
               j_settledCredits := Some settledCredits, j_budgetStatus := Some budgetStatus,
               j_updatedAt := now\<rparr>) (ai_jobs db)\<rparr>))"

definition technical_retry_delays :: "int list" where
  "technical_retry_delays = [5000, 30000, 300000]"

definition add_dlq :: "job_row \<Rightarrow> failure_code \<Rightarrow> dlq_row list \<Rightarrow> dlq_row list" where
  "add_dlq j reason rows =
     (if list_ex (\<lambda>r. dq_jobId r = j_id j) rows then rows
      else rows @ [\<lparr>dq_jobId = j_id j, dq_documentId = j_documentId j, dq_ownerId = j_ownerId j,
        dq_correlationId = j_correlationId j, dq_idempotencyKey = j_idempotencyKey j,
        dq_lastAttempt = j_attempts j, dq_reasonCode = reason\<rparr>])"

definition requeued_row :: "failure_code \<Rightarrow> int \<Rightarrow> int \<Rightarrow> job_row \<Rightarrow> job_row" where
  "requeued_row reason delay now j =
     j\<lparr>j_status := PENDING, j_technicalRetryCount := j_technicalRetryCount j + 1, j_failureCode := Some reason,
       j_leaseId := None, j_leaseUntil := None, j_nextVisibleAt := now + delay, j_updatedAt := now\<rparr>"

definition retryTechnical_tx ::
  "job_attempt \<Rightarrow> failure_code \<Rightarrow> int \<Rightarrow> ai_db \<Rightarrow> db_failure + (bool \<times> ai_db)" where
  "retryTechnical_tx a reason now db =
     (let sel = (\<lambda>j. fenced a j \<and> lease_live now j)
      in case List.find sel (ai_jobs db) of
           None \<Rightarrow> Inr (False, db)
         | Some job \<Rightarrow>
             if length technical_retry_delays \<le> j_technicalRetryCount job then
               if length (filter sel (ai_jobs db)) \<noteq> 1 then Inr (False, db)
               else
                 let jobs' = update_jobs sel (finalized_row FAILED (Some reason) now) (ai_jobs db);
                     dlq' = fold (\<lambda>j. add_dlq j reason) (filter (\<lambda>j. j_id j = ja_id a) jobs') (ai_dlq db)
                 in (case List.find (\<lambda>j. j_id j = ja_id a) jobs' of
                       None \<Rightarrow> Inl EntityNotFound
                     | Some processingJob \<Rightarrow>
                         Inr (True, append_event now (j_id processingJob)
                           (createResultEvent processingJob FAILED_RESULT (Some reason))
                           (db\<lparr>ai_jobs := jobs', ai_dlq := dlq'\<rparr>)))
             else
               Inr (length (filter sel (ai_jobs db)) = 1,
                    db\<lparr>ai_jobs := update_jobs sel
                         (requeued_row reason (technical_retry_delays ! j_technicalRetryCount job) now) (ai_jobs db)\<rparr>))"

definition retryTechnical ::
  "job_attempt \<Rightarrow> failure_code \<Rightarrow> int \<Rightarrow> ai_db \<Rightarrow> (db_failure + bool) \<times> ai_db" where
  "retryTechnical a reason now = in_transaction (retryTechnical_tx a reason now)"

definition requeueExpiredLeases :: "nat \<Rightarrow> int \<Rightarrow> ai_db \<Rightarrow> nat \<times> ai_db" where
  "requeueExpiredLeases limit now db =
     (let expired = take limit (sort_key j_updatedAt
            (filter (\<lambda>j. j_status j = RUNNING \<and> lease_expired now j) (ai_jobs db)));
          sel = (\<lambda>j. j_id j \<in> set (map j_id expired) \<and> j_status j = RUNNING \<and> lease_expired now j)
      in (length (filter sel (ai_jobs db)),
          db\<lparr>ai_jobs := update_jobs sel (\<lambda>j. j\<lparr>j_status := PENDING, j_leaseId := None, j_leaseUntil := None,
               j_nextVisibleAt := now, j_updatedAt := now\<rparr>) (ai_jobs db)\<rparr>))"

section \<open>Invariant of the queue\<close>

definition job_row_ok :: "job_row \<Rightarrow> bool" where
  "job_row_ok j \<longleftrightarrow>
     (j_status j = RUNNING \<longleftrightarrow> j_leaseId j \<noteq> None) \<and> (j_leaseId j = None \<longleftrightarrow> j_leaseUntil j = None) \<and>
     (j_status j = RUNNING \<longrightarrow> 0 < j_attempts j) \<and>
     j_technicalRetryCount j \<le> length technical_retry_delays \<and>
     (j_status j = COMPLETED \<or> j_status j = FAILED \<longrightarrow> j_completedAt j \<noteq> None) \<and>
     (j_status j = FAILED \<longrightarrow> j_failureCode j \<noteq> None)"

definition events_of :: "string \<Rightarrow> ai_db \<Rightarrow> outbox_row list" where
  "events_of jobId db = filter (\<lambda>e. ob_aggregateId e = jobId) (ai_outbox db)"

text \<open>At most one result event per attempt: a running attempt has none yet.\<close>

definition events_bounded :: "ai_db \<Rightarrow> job_row \<Rightarrow> bool" where
  "events_bounded db j \<longleftrightarrow>
     (if j_status j = RUNNING then length (events_of (j_id j) db) < j_attempts j
      else length (events_of (j_id j) db) \<le> j_attempts j)"

definition job_keys_ok :: "job_row list \<Rightarrow> bool" where
  "job_keys_ok jobs \<longleftrightarrow>
     distinct (map j_id jobs) \<and> distinct (map (\<lambda>j. (j_documentId j, j_jobType j)) jobs) \<and>
     distinct (map j_idempotencyKey jobs)"

definition outbox_ok :: "ai_db \<Rightarrow> bool" where
  "outbox_ok db \<longleftrightarrow>
     (\<forall>e\<in>set (ai_outbox db). ob_aggregateId e \<in> j_id ` set (ai_jobs db) \<and> ob_id e < ai_nextEventId db) \<and>
     distinct (map ob_id (ai_outbox db))"

definition queue_ok :: "ai_db \<Rightarrow> bool" where
  "queue_ok db \<longleftrightarrow>
     job_keys_ok (ai_jobs db) \<and> (\<forall>j\<in>set (ai_jobs db). job_row_ok j \<and> events_bounded db j) \<and>
     outbox_ok db \<and> distinct (map dq_jobId (ai_dlq db))"

definition keeps_identity :: "(job_row \<Rightarrow> job_row) \<Rightarrow> bool" where
  "keeps_identity f \<longleftrightarrow>
     (\<forall>j. j_id (f j) = j_id j \<and> j_documentId (f j) = j_documentId j \<and> j_jobType (f j) = j_jobType j
        \<and> j_idempotencyKey (f j) = j_idempotencyKey j)"

lemma keeps_identity_simps [simp]:
  "keeps_identity (take_lease l now)" "keeps_identity (finalized_row s c now)" "keeps_identity (requeued_row r d now)"
  "keeps_identity (\<lambda>j. j\<lparr>j_status := PENDING, j_attempts := j_attempts j + 1, j_technicalRetryCount := 0, j_updatedAt := now\<rparr>)"
  "keeps_identity (\<lambda>j. j\<lparr>j_modelSelectionKind := Some k, j_platformModelId := Some m, j_updatedAt := now\<rparr>)"
  "keeps_identity (\<lambda>j. j\<lparr>j_estimatedCredits := Some e, j_settledCredits := Some t, j_budgetStatus := Some b, j_updatedAt := now\<rparr>)"
  "keeps_identity (\<lambda>j. j\<lparr>j_status := PENDING, j_leaseId := None, j_leaseUntil := None, j_nextVisibleAt := now, j_updatedAt := now\<rparr>)"
  by (simp_all add: keeps_identity_def take_lease_def finalized_row_def requeued_row_def)

lemma update_jobs_identity:
  assumes "keeps_identity f"
  shows "map j_id (update_jobs P f jobs) = map j_id jobs"
    and "job_keys_ok (update_jobs P f jobs) = job_keys_ok jobs"
proof -
  have eqs: "map j_id (update_jobs P f jobs) = map j_id jobs"
    "map (\<lambda>j. (j_documentId j, j_jobType j)) (update_jobs P f jobs) = map (\<lambda>j. (j_documentId j, j_jobType j)) jobs"
    "map j_idempotencyKey (update_jobs P f jobs) = map j_idempotencyKey jobs"
    using assms by (simp_all add: update_jobs_def keeps_identity_def)
  then show "map j_id (update_jobs P f jobs) = map j_id jobs"
    "job_keys_ok (update_jobs P f jobs) = job_keys_ok jobs"
    unfolding job_keys_ok_def by simp_all
qed

lemma update_jobs_ids: "keeps_identity f \<Longrightarrow> j_id ` set (update_jobs P f jobs) = j_id ` set jobs"
  using update_jobs_identity(1) [of f P jobs] by (metis list.set_map)

lemma update_jobs_none: "(\<And>j. j \<in> set jobs \<Longrightarrow> \<not> P j) \<Longrightarrow> update_jobs P f jobs = jobs"
  by (simp add: update_jobs_def map_idI)

lemma set_update_jobs: "set (update_jobs P f jobs) = (\<lambda>j. if P j then f j else j) ` set jobs"
  by (simp add: update_jobs_def)

text \<open>An update that leaves the outbox alone keeps the invariant row by row.\<close>

lemma queue_ok_update:
  assumes "queue_ok db" and "keeps_identity f"
    and row: "\<And>j. j \<in> set (ai_jobs db) \<Longrightarrow> P j \<Longrightarrow> job_row_ok j \<Longrightarrow> events_bounded db j \<Longrightarrow> job_row_ok (f j) \<and> events_bounded db (f j)"
  shows "queue_ok (db\<lparr>ai_jobs := update_jobs P f (ai_jobs db)\<rparr>)"
proof -
  let ?jobs = "update_jobs P f (ai_jobs db)"
  let ?db = "db\<lparr>ai_jobs := ?jobs\<rparr>"
  have "job_keys_ok ?jobs"
    using assms(1) update_jobs_identity(2) [OF assms(2)] by (simp add: queue_ok_def)
  moreover have "events_bounded ?db = events_bounded db"
    by (simp add: events_bounded_def [abs_def] events_of_def)
  then have "\<forall>j\<in>set ?jobs. job_row_ok j \<and> events_bounded ?db j"
    using assms(1) row by (auto simp: set_update_jobs queue_ok_def)
  moreover have "outbox_ok ?db"
    using assms(1) update_jobs_ids [OF assms(2)] by (simp add: queue_ok_def outbox_ok_def)
  ultimately show ?thesis
    using assms(1) by (simp add: queue_ok_def)
qed

lemma new_job_simps [simp]:
  "j_id (new_job i now c key) = i" "j_documentId (new_job i now c key) = ec_documentId c"
  "j_jobType (new_job i now c key) = ec_jobType c" "j_idempotencyKey (new_job i now c key) = key"
  "j_status (new_job i now c key) = PENDING" "j_attempts (new_job i now c key) = 0"
  "j_budgetStatus (new_job i now c key) = None" "j_createdAt (new_job i now c key) = now"
  by (simp_all add: new_job_def)

lemma queue_ok_enqueue: "queue_ok db \<Longrightarrow> queue_ok (snd (enqueue newId now c key db))"
proof -
  assume ok: "queue_ok db"
  consider (conflict) "list_ex (\<lambda>j. j_documentId j = ec_documentId c \<and> j_jobType j = ec_jobType c) (ai_jobs db)"
    | (dup) "\<not> list_ex (\<lambda>j. j_documentId j = ec_documentId c \<and> j_jobType j = ec_jobType c) (ai_jobs db)"
        "list_ex (\<lambda>j. j_idempotencyKey j = key \<or> j_id j = newId) (ai_jobs db)"
    | (fresh) "\<not> list_ex (\<lambda>j. j_documentId j = ec_documentId c \<and> j_jobType j = ec_jobType c) (ai_jobs db)"
        "\<not> list_ex (\<lambda>j. j_idempotencyKey j = key \<or> j_id j = newId) (ai_jobs db)" by blast
  then show ?thesis
  proof cases
    case conflict
    have "queue_ok (db\<lparr>ai_jobs := update_jobs
              (\<lambda>j. j_documentId j = ec_documentId c \<and> j_jobType j = ec_jobType c \<and> j_status j = FAILED)
              (\<lambda>j. j\<lparr>j_status := PENDING, j_attempts := j_attempts j + 1, j_technicalRetryCount := 0,
                     j_updatedAt := now\<rparr>) (ai_jobs db)\<rparr>)"
      using ok by (rule queue_ok_update) (auto simp: keeps_identity_def job_row_ok_def events_bounded_def)
    with conflict show ?thesis by (simp add: enqueue_def)
  next
    case dup
    with ok show ?thesis by (simp add: enqueue_def)
  next
    case fresh
    have "newId \<notin> j_id ` set (ai_jobs db)"
      using fresh(2) by (auto simp: list_ex_iff)
    then have "events_of newId db = []"
      using ok by (auto simp: queue_ok_def outbox_ok_def events_of_def filter_empty_conv)
    then have "queue_ok (db\<lparr>ai_jobs := ai_jobs db @ [new_job newId now c key]\<rparr>)"
      using ok fresh unfolding queue_ok_def outbox_ok_def job_keys_ok_def
      by (auto simp: new_job_def list_ex_iff job_row_ok_def events_bounded_def events_of_def image_iff)
    with fresh show ?thesis by (simp add: enqueue_def)
  qed
qed

lemma append_event_simps [simp]:
  "ai_jobs (append_event now i p db) = ai_jobs db" "ai_dlq (append_event now i p db) = ai_dlq db"
  by (simp_all add: append_event_def)

lemma events_of_append:
  "events_of k (append_event now i p db) = events_of k db @
     (if k = i then [\<lparr>ob_id = ai_nextEventId db, ob_aggregateId = i, ob_eventType = result_event_type,
        ob_payload = p, ob_createdAt = now, ob_publishedAt = None\<rparr>] else [])"
  by (simp add: events_of_def append_event_def)

text \<open>Leaving RUNNING with one event: the attempt's budget of one event is spent.\<close>

lemma queue_ok_finalizing:
  assumes ok: "queue_ok db" and keep: "keeps_identity f"
    and sel: "\<And>j. P j \<Longrightarrow> j_id j = i \<and> j_status j = RUNNING" and ex: "\<exists>j\<in>set (ai_jobs db). P j"
    and row: "\<And>j. j \<in> set (ai_jobs db) \<Longrightarrow> P j \<Longrightarrow> job_row_ok j \<Longrightarrow>
      job_row_ok (f j) \<and> j_status (f j) \<noteq> RUNNING \<and> j_attempts (f j) = j_attempts j"
    and dlq: "distinct (map dq_jobId dlq')"
  shows "queue_ok (append_event now i p (db\<lparr>ai_jobs := update_jobs P f (ai_jobs db), ai_dlq := dlq'\<rparr>))"
proof -
  let ?jobs = "update_jobs P f (ai_jobs db)"
  let ?db = "append_event now i p (db\<lparr>ai_jobs := ?jobs, ai_dlq := dlq'\<rparr>)"
  obtain k where k: "k \<in> set (ai_jobs db)" "P k" using ex by blast
  have ev: "events_of x ?db = events_of x db @ (if x = i then [\<lparr>ob_id = ai_nextEventId db, ob_aggregateId = i,
      ob_eventType = result_event_type, ob_payload = p, ob_createdAt = now, ob_publishedAt = None\<rparr>] else [])" for x
    unfolding events_of_append by (simp add: events_of_def)
  have dist: "distinct (map j_id (ai_jobs db))" using ok by (simp add: queue_ok_def job_keys_ok_def)
  have "job_row_ok x \<and> events_bounded ?db x" if x: "x \<in> set ?jobs" for x
  proof -
    from x obtain j where j: "j \<in> set (ai_jobs db)" "x = (if P j then f j else j)" by (auto simp: set_update_jobs)
    from ok j(1) have jok: "job_row_ok j" "events_bounded db j" by (simp_all add: queue_ok_def)
    show ?thesis
    proof (cases "P j")
      case True
      with row [OF j(1) True jok(1)] sel [OF True] keep j jok(2) show ?thesis
        by (simp add: events_bounded_def ev keeps_identity_def)
    next
      case False
      have "j_id j \<noteq> i"
        using False k sel [OF k(2)] distinct_map_eqD [OF dist j(1) k(1)] by auto
      with False j jok show ?thesis by (simp add: events_bounded_def ev)
    qed
  qed
  moreover have "job_keys_ok ?jobs"
    using ok update_jobs_identity(2) [OF keep] by (simp add: queue_ok_def)
  moreover have "outbox_ok ?db"
  proof -
    have "i \<in> j_id ` set (ai_jobs db)" using k sel by force
    then show ?thesis
      using ok update_jobs_ids [OF keep, of P "ai_jobs db"]
      by (fastforce simp: queue_ok_def outbox_ok_def append_event_def)
  qed
  ultimately show ?thesis using dlq by (simp add: queue_ok_def)
qed

lemma fenced_unique:
  assumes "queue_ok db"
  shows "length (filter (\<lambda>j. fenced a j \<and> Q j) (ai_jobs db)) = 1 \<longleftrightarrow> (\<exists>j\<in>set (ai_jobs db). fenced a j \<and> Q j)"
proof -
  have "distinct (map j_id (ai_jobs db))" using assms by (simp add: queue_ok_def job_keys_ok_def)
  then have "length (filter (\<lambda>j. fenced a j \<and> Q j) (ai_jobs db)) \<le> 1"
  proof (induction "ai_jobs db" arbitrary: db)
    case Nil
    then show ?case by simp
  next
    case (Cons x xs)
    have d: "distinct (map j_id (x # xs))" using Cons.prems Cons.hyps(2) by simp
    have le: "length (filter (\<lambda>j. fenced a j \<and> Q j) xs) \<le> 1"
      using Cons.hyps(1) [of "db\<lparr>ai_jobs := xs\<rparr>"] d by simp
    show ?case
    proof (cases "fenced a x \<and> Q x")
      case True
      then have "filter (\<lambda>j. fenced a j \<and> Q j) xs = []"
        using d by (auto simp: filter_empty_conv fenced_def image_iff)
      then show ?thesis unfolding Cons.hyps(2) [symmetric] by simp
    next
      case False
      with le show ?thesis unfolding Cons.hyps(2) [symmetric] by auto
    qed
  qed
  moreover have "length (filter (\<lambda>j. fenced a j \<and> Q j) (ai_jobs db)) = 0 \<longleftrightarrow> \<not> (\<exists>j\<in>set (ai_jobs db). fenced a j \<and> Q j)"
    by (auto simp: filter_empty_conv)
  ultimately show ?thesis by linarith
qed

lemma queue_ok_finalize:
  assumes "queue_ok db" and "status = COMPLETED \<or> status = FAILED \<and> code \<noteq> None"
  shows "queue_ok (snd (finalize a status ds code now db))"
proof (cases "List.find (fenced a) (ai_jobs db)")
  case (Some job)
  then have job: "job \<in> set (ai_jobs db)" "fenced a job" by (auto dest: find_SomeD)
  show ?thesis
  proof (cases "length (filter (\<lambda>j. fenced a j \<and> lease_live now j) (ai_jobs db)) = 1")
    case True
    then have "queue_ok (append_event now (ja_id a) p (db\<lparr>ai_jobs := update_jobs (\<lambda>j. fenced a j \<and> lease_live now j)
        (finalized_row status code now) (ai_jobs db), ai_dlq := ai_dlq db\<rparr>))" for p
      using assms fenced_unique [OF assms(1), of a "lease_live now"]
      by (intro queue_ok_finalizing) (auto simp: fenced_def job_row_ok_def finalized_row_def queue_ok_def)
    with Some True job show ?thesis by (simp add: finalize_def Let_def fenced_def)
  qed (use assms Some in \<open>simp add: finalize_def\<close>)
qed (use assms in \<open>simp add: finalize_def\<close>)

lemma distinct_add_dlq_one: "distinct (map dq_jobId rows) \<Longrightarrow> distinct (map dq_jobId (add_dlq j r rows))"
  by (auto simp: add_dlq_def list_ex_iff)

lemma distinct_add_dlq: "distinct (map dq_jobId rows) \<Longrightarrow> distinct (map dq_jobId (fold (\<lambda>j. add_dlq j r) js rows))"
  by (induction js arbitrary: rows) (simp_all add: distinct_add_dlq_one)

lemma queue_ok_retry:
  assumes ok: "queue_ok db"
  shows "queue_ok (snd (retryTechnical a reason now db))"
proof (cases "List.find (\<lambda>j. fenced a j \<and> lease_live now j) (ai_jobs db)")
  case None
  with ok show ?thesis by (simp add: retryTechnical_def in_transaction_def retryTechnical_tx_def)
next
  case (Some job)
  let ?sel = "\<lambda>j. fenced a j \<and> lease_live now j"
  from Some have job: "job \<in> set (ai_jobs db)" "fenced a job" "lease_live now job" by (auto dest: find_SomeD)
  have len: "length (filter ?sel (ai_jobs db)) = 1"
    using fenced_unique [OF ok] job by blast
  have dist: "distinct (map j_id (ai_jobs db))" using ok by (simp add: queue_ok_def job_keys_ok_def)
  show ?thesis
  proof (cases "length technical_retry_delays \<le> j_technicalRetryCount job")
    case True
    let ?jobs = "update_jobs ?sel (finalized_row FAILED (Some reason) now) (ai_jobs db)"
    have "queue_ok (append_event now (ja_id a) p (db\<lparr>ai_jobs := ?jobs,
        ai_dlq := fold (\<lambda>j. add_dlq j reason) (filter (\<lambda>j. j_id j = ja_id a) ?jobs) (ai_dlq db)\<rparr>))" for p
      using ok job by (intro queue_ok_finalizing) (auto simp: fenced_def job_row_ok_def finalized_row_def queue_ok_def
          intro!: distinct_add_dlq)
    with Some True len ok show ?thesis
      by (auto simp: retryTechnical_def in_transaction_def retryTechnical_tx_def Let_def dest!: find_SomeD split: option.splits)
  next
    case False
    have "queue_ok (db\<lparr>ai_jobs := update_jobs ?sel
        (requeued_row reason (technical_retry_delays ! j_technicalRetryCount job) now) (ai_jobs db)\<rparr>)"
    proof (rule queue_ok_update [OF ok])
      fix j assume j: "j \<in> set (ai_jobs db)" "?sel j" "job_row_ok j" "events_bounded db j"
      then have "j = job" using distinct_map_eqD [OF dist _ job(1)] job(2) by (auto simp: fenced_def)
      with j False show "job_row_ok (requeued_row reason (technical_retry_delays ! j_technicalRetryCount job) now j)
          \<and> events_bounded db (requeued_row reason (technical_retry_delays ! j_technicalRetryCount job) now j)"
        by (auto simp: job_row_ok_def events_bounded_def requeued_row_def fenced_def)
    qed simp
    with Some False show ?thesis by (simp add: retryTechnical_def in_transaction_def retryTechnical_tx_def Let_def)
  qed
qed

lemma queue_ok_claim:
  assumes ok: "queue_ok db"
  shows "queue_ok (snd (claimPending first_of lease now db))"
proof -
  have upd: "queue_ok (db\<lparr>ai_jobs := update_jobs (\<lambda>k. j_id k = i \<and> claimable now k) (take_lease lease now) (ai_jobs db)\<rparr>)" for i
    using ok by (rule queue_ok_update) (auto simp: job_row_ok_def events_bounded_def take_lease_def claimable_def split: if_splits)
  then show ?thesis
    using ok by (auto simp: claimPending_def in_transaction_def claimPending_tx_def Let_def split: list.split option.split)
qed

lemma queue_ok_ensure: "queue_ok db \<Longrightarrow> queue_ok (snd (ensureDefaultPlatformModel a w m now db))"
  unfolding ensureDefaultPlatformModel_def Let_def snd_conv
  by (erule queue_ok_update) (auto simp: job_row_ok_def events_bounded_def)

lemma queue_ok_record: "queue_ok db \<Longrightarrow> queue_ok (snd (record_budget a e t b now db))"
  unfolding record_budget_def Let_def snd_conv
  by (erule queue_ok_update) (auto simp: job_row_ok_def events_bounded_def)

lemma queue_ok_requeue: "queue_ok db \<Longrightarrow> queue_ok (snd (requeueExpiredLeases n now db))"
  unfolding requeueExpiredLeases_def Let_def snd_conv
  by (erule queue_ok_update) (auto simp: job_row_ok_def events_bounded_def)

section \<open>Runs of the queue\<close>

text \<open>One transaction of any process, at its instant \<open>now\<close>.\<close>

inductive job_step :: "ai_db \<Rightarrow> ai_db \<Rightarrow> bool" where
  step_enqueue: "job_step db (snd (enqueue newId now c key db))"
| step_claim: "job_step db (snd (claimPending first_of lease now db))"
| step_complete: "job_step db (snd (complete a now db))"
| step_fail: "job_step db (snd (fail a code now db))"
| step_retry: "job_step db (snd (retryTechnical a reason now db))"
| step_ensure: "job_step db (snd (ensureDefaultPlatformModel a ownerId modelId now db))"
| step_record: "job_step db (snd (record_budget a estimated settled status now db))"
| step_requeue: "job_step db (snd (requeueExpiredLeases limit now db))"

inductive_cases job_step_cases: "job_step db db'"

abbreviation job_steps :: "ai_db \<Rightarrow> ai_db \<Rightarrow> bool" where
  "job_steps \<equiv> job_step\<^sup>*\<^sup>*"

definition empty_ai_db :: ai_db where
  "empty_ai_db = \<lparr>ai_jobs = [], ai_dlq = [], ai_outbox = [], ai_nextEventId = 1\<rparr>"

lemma queue_ok_empty: "queue_ok empty_ai_db"
  by (simp add: queue_ok_def empty_ai_db_def job_keys_ok_def outbox_ok_def)

lemma queue_ok_complete: "queue_ok db \<Longrightarrow> queue_ok (snd (complete a now db))"
  unfolding complete_def by (rule queue_ok_finalize) auto

lemma queue_ok_fail: "queue_ok db \<Longrightarrow> queue_ok (snd (fail a code now db))"
  unfolding fail_def by (rule queue_ok_finalize) auto

lemmas queue_ok_ops = queue_ok_enqueue queue_ok_claim queue_ok_complete queue_ok_fail queue_ok_retry
  queue_ok_ensure queue_ok_record queue_ok_requeue

lemma job_step_ok: "job_step db db' \<Longrightarrow> queue_ok db \<Longrightarrow> queue_ok db'"
  by (induction rule: job_step.induct) (auto intro: queue_ok_ops)

lemma job_steps_ok: "job_steps db db' \<Longrightarrow> queue_ok db \<Longrightarrow> queue_ok db'"
  by (induction rule: rtranclp_induct) (auto intro: job_step_ok)

section \<open>Fences\<close>

text \<open>A fence is live when some job is in the attempt it names, under an unexpired lease.\<close>

definition live :: "job_attempt \<Rightarrow> int \<Rightarrow> ai_db \<Rightarrow> bool" where
  "live a now db \<longleftrightarrow> (\<exists>j\<in>set (ai_jobs db). fenced a j \<and> lease_live now j)"

lemma not_live_filter: "\<not> live a now db \<Longrightarrow> filter (\<lambda>j. fenced a j \<and> lease_live now j) (ai_jobs db) = []"
  by (auto simp: live_def filter_empty_conv)

lemma not_live_update: "\<not> live a now db \<Longrightarrow> (\<And>j. P j \<Longrightarrow> fenced a j \<and> lease_live now j) \<Longrightarrow>
    update_jobs P f (ai_jobs db) = ai_jobs db"
  by (rule update_jobs_none) (auto simp: live_def)

lemma stale_finalize: "\<not> live a now db \<Longrightarrow> finalize a s d c now db = (False, db)"
  by (simp add: finalize_def not_live_filter split: option.split)

lemma stale_record: "\<not> live a now db \<Longrightarrow> record_budget a e t b now db = (False, db)"
  by (simp add: record_budget_def Let_def not_live_filter not_live_update)

lemma stale_ensure: "\<not> live a now db \<Longrightarrow> ensureDefaultPlatformModel a w m now db = (False, db)"
proof -
  assume n: "\<not> live a now db"
  let ?sel = "\<lambda>j. fenced a j \<and> j_ownerId j = w \<and> lease_live now j \<and> j_modelSelectionKind j = None
                   \<and> j_platformModelId j = None \<and> j_customModelConfigId j = None"
  have none: "\<not> ?sel j" if "j \<in> set (ai_jobs db)" for j using n that by (auto simp: live_def)
  then have "filter ?sel (ai_jobs db) = []" "update_jobs ?sel f (ai_jobs db) = ai_jobs db" for f
    by (simp add: filter_empty_conv, intro update_jobs_none)
  then show ?thesis by (simp add: ensureDefaultPlatformModel_def Let_def)
qed

lemma stale_retry: "\<not> live a now db \<Longrightarrow> retryTechnical a r now db = (Inr False, db)"
proof -
  assume "\<not> live a now db"
  then have "List.find (\<lambda>j. fenced a j \<and> lease_live now j) (ai_jobs db) = None"
    by (intro find_NoneI) (auto simp: live_def)
  then show ?thesis by (simp add: retryTechnical_def in_transaction_def retryTechnical_tx_def)
qed

lemma live_finalize: "queue_ok db \<Longrightarrow> live a now db \<Longrightarrow> fst (finalize a s d c now db)"
proof -
  assume ok: "queue_ok db" and l: "live a now db"
  then have "List.find (fenced a) (ai_jobs db) \<noteq> None" by (auto simp: live_def find_None_iff)
  moreover have "length (filter (\<lambda>j. fenced a j \<and> lease_live now j) (ai_jobs db)) = 1"
    using fenced_unique [OF ok] l by (simp add: live_def)
  ultimately show ?thesis by (auto simp: finalize_def Let_def)
qed

lemma live_record: "queue_ok db \<Longrightarrow> live a now db \<Longrightarrow> fst (record_budget a e t b now db)"
  using fenced_unique [of db a "lease_live now"] by (simp add: record_budget_def Let_def live_def)

text \<open>
  The contract of a fenced write, as every holder of a lease relies on it: it is accepted on a
  live fence, and a stale one is told so and changes nothing.
\<close>

locale fenced_write =
  fixes valid :: "'s \<Rightarrow> bool" and alive :: "job_attempt \<Rightarrow> int \<Rightarrow> 's \<Rightarrow> bool"
    and wr :: "job_attempt \<Rightarrow> int \<Rightarrow> 's \<Rightarrow> bool \<times> 's"
  assumes stale: "\<not> alive a now s \<Longrightarrow> wr a now s = (False, s)"
    and accepted: "valid s \<Longrightarrow> alive a now s \<Longrightarrow> fst (wr a now s)"
begin

lemma answer_iff_live: "valid s \<Longrightarrow> fst (wr a now s) \<longleftrightarrow> alive a now s"
  using stale accepted by fastforce

lemma rejected_unchanged: "valid s \<Longrightarrow> wr a now s = (False, s') \<Longrightarrow> s' = s"
  using stale accepted by (metis fst_conv prod.inject)

end

interpretation complete_write: fenced_write queue_ok live complete
  by unfold_locales (simp_all add: complete_def stale_finalize live_finalize)

interpretation fail_write: fenced_write queue_ok live "\<lambda>a. fail a code" for code
  by unfold_locales (simp_all add: fail_def stale_finalize live_finalize)

interpretation record_write: fenced_write queue_ok live "\<lambda>a. record_budget a e t b" for e t b
  by unfold_locales (simp_all add: stale_record live_record)

section \<open>An attempt ends once\<close>

text \<open>An attempt is spent when its job has moved on: a later attempt, or this one no longer running.\<close>

definition spent :: "job_attempt \<Rightarrow> job_row list \<Rightarrow> bool" where
  "spent a jobs \<longleftrightarrow>
     ja_id a \<in> j_id ` set jobs \<and>
     (\<forall>j\<in>set jobs. j_id j = ja_id a \<longrightarrow>
        ja_attempts a < j_attempts j \<or> ja_attempts a = j_attempts j \<and> j_status j \<noteq> RUNNING)"

lemma spent_not_live: "spent a (ai_jobs db) \<Longrightarrow> \<not> live a now db"
  by (auto simp: spent_def live_def fenced_def)

definition advances :: "(job_row \<Rightarrow> bool) \<Rightarrow> (job_row \<Rightarrow> job_row) \<Rightarrow> bool" where
  "advances P f \<longleftrightarrow>
     (\<forall>j. P j \<longrightarrow> j_id (f j) = j_id j \<and>
        (j_attempts j < j_attempts (f j) \<or>
         j_attempts (f j) = j_attempts j \<and> (j_status (f j) = RUNNING \<longrightarrow> j_status j = RUNNING)))"

lemma spent_update: "spent a jobs \<Longrightarrow> advances P f \<Longrightarrow> spent a (update_jobs P f jobs)"
proof -
  assume s: "spent a jobs" and adv: "advances P f"
  have id: "j_id (if P j then f j else j) = j_id j" for j using adv by (simp add: advances_def)
  then have "j_id ` set (update_jobs P f jobs) = j_id ` set jobs"
    unfolding set_update_jobs image_image by (simp only: id)
  moreover have "ja_attempts a < j_attempts x \<or> ja_attempts a = j_attempts x \<and> j_status x \<noteq> RUNNING"
    if x: "x \<in> set (update_jobs P f jobs)" "j_id x = ja_id a" for x
  proof -
    from x obtain j where j: "j \<in> set jobs" "x = (if P j then f j else j)" by (auto simp: set_update_jobs)
    with s id x have b: "ja_attempts a < j_attempts j \<or> ja_attempts a = j_attempts j \<and> j_status j \<noteq> RUNNING"
      unfolding spent_def by metis
    show ?thesis
    proof (cases "P j")
      case True
      with adv have "j_attempts j < j_attempts (f j) \<or>
          j_attempts (f j) = j_attempts j \<and> (j_status (f j) = RUNNING \<longrightarrow> j_status j = RUNNING)"
        by (simp add: advances_def)
      with b j True show ?thesis by auto
    next
      case False
      with b j show ?thesis by simp
    qed
  qed
  ultimately show ?thesis using s by (simp add: spent_def)
qed

lemma finalize_jobs:
  "ai_jobs (snd (finalize a s d c now db)) = ai_jobs db \<or>
   ai_jobs (snd (finalize a s d c now db)) = update_jobs (\<lambda>j. fenced a j \<and> lease_live now j) (finalized_row s c now) (ai_jobs db)"
  by (auto simp: finalize_def Let_def split: option.split)

lemma retry_jobs:
  "ai_jobs (snd (retryTechnical a r now db)) = ai_jobs db \<or>
   ai_jobs (snd (retryTechnical a r now db)) = update_jobs (\<lambda>j. fenced a j \<and> lease_live now j) (finalized_row FAILED (Some r) now) (ai_jobs db) \<or>
   (\<exists>d. ai_jobs (snd (retryTechnical a r now db)) = update_jobs (\<lambda>j. fenced a j \<and> lease_live now j) (requeued_row r d now) (ai_jobs db))"
  by (auto simp: retryTechnical_def in_transaction_def retryTechnical_tx_def Let_def split: option.split)

lemma claim_jobs:
  "ai_jobs (snd (claimPending first_of lease now db)) = ai_jobs db \<or>
   (\<exists>i. ai_jobs (snd (claimPending first_of lease now db)) =
      update_jobs (\<lambda>k. j_id k = i \<and> claimable now k) (take_lease lease now) (ai_jobs db))"
  by (auto simp: claimPending_def in_transaction_def claimPending_tx_def Let_def split: list.split option.split)

lemma advances_rows:
  "s \<noteq> RUNNING \<Longrightarrow> advances P (finalized_row s c now)" "advances P (requeued_row r d now)" "advances P (take_lease l now)"
  by (simp_all add: advances_def finalized_row_def requeued_row_def take_lease_def)

lemma spent_finalize: "s \<noteq> RUNNING \<Longrightarrow> spent a (ai_jobs db) \<Longrightarrow> spent a (ai_jobs (snd (finalize b s d c now db)))"
  using finalize_jobs [of b s d c now db] by (elim disjE) (simp_all add: spent_update advances_rows)

lemma spent_enqueue: "spent a (ai_jobs db) \<Longrightarrow> spent a (ai_jobs (snd (enqueue newId now c key db)))"
  unfolding enqueue_def
  by (auto simp: advances_def list_ex_iff spent_def [of _ "_ @ _"] intro!: spent_update)
    (auto simp: spent_def)

lemma spent_step: "job_step db db' \<Longrightarrow> spent a (ai_jobs db) \<Longrightarrow> spent a (ai_jobs db')"
proof (induction rule: job_step.induct)
  case (step_enqueue db newId now c key)
  then show ?case by (rule spent_enqueue)
next
  case (step_claim db first_of lease now)
  then show ?case using claim_jobs [of first_of lease now db] by (elim disjE exE) (simp_all add: spent_update advances_rows)
next
  case (step_retry db b reason now)
  then show ?case using retry_jobs [of b reason now db] by (elim disjE exE) (simp_all add: spent_update advances_rows)
qed (auto simp: complete_def fail_def ensureDefaultPlatformModel_def record_budget_def requeueExpiredLeases_def Let_def
    advances_def intro!: spent_finalize spent_update)

lemma spent_steps: "job_steps db db' \<Longrightarrow> spent a (ai_jobs db) \<Longrightarrow> spent a (ai_jobs db')"
  by (induction rule: rtranclp_induct) (auto intro: spent_step)

text \<open>The row a fence selects leaves RUNNING, so the attempt is spent.\<close>

lemma spent_after:
  assumes ok: "queue_ok db" and l: "live a now db"
    and f: "\<And>j. j_id (f j) = j_id j \<and> j_attempts (f j) = j_attempts j \<and> j_status (f j) \<noteq> RUNNING"
  shows "spent a (update_jobs (\<lambda>j. fenced a j \<and> lease_live now j) f (ai_jobs db))"
proof -
  obtain k where k: "k \<in> set (ai_jobs db)" "fenced a k" "lease_live now k" using l by (auto simp: live_def)
  have dist: "distinct (map j_id (ai_jobs db))" using ok by (simp add: queue_ok_def job_keys_ok_def)
  let ?jobs = "update_jobs (\<lambda>j. fenced a j \<and> lease_live now j) f (ai_jobs db)"
  have only: "j = k" if "j \<in> set (ai_jobs db)" "j_id j = ja_id a" for j
    using distinct_map_eqD [OF dist that(1) k(1)] that(2) k(2) by (simp add: fenced_def)
  have "f k \<in> set ?jobs" using k by (auto simp: set_update_jobs)
  then have "ja_id a \<in> j_id ` set ?jobs" using k(2) f by (metis fenced_def image_eqI)
  moreover have "x = f k" if "x \<in> set ?jobs" "j_id x = ja_id a" for x
  proof -
    from that(1) obtain j where j: "j \<in> set (ai_jobs db)" "x = (if fenced a j \<and> lease_live now j then f j else j)"
      by (auto simp: set_update_jobs)
    then have "j_id j = ja_id a" using that(2) f by (simp split: if_splits)
    with only j(1) have "j = k" by blast
    with j(2) k show ?thesis by simp
  qed
  moreover have "j_attempts (f k) = ja_attempts a" "j_status (f k) \<noteq> RUNNING"
    using k(2) f by (simp_all add: fenced_def)
  ultimately show ?thesis unfolding spent_def by metis
qed

lemma finalize_True:
  "finalize a s d c now db = (True, db') \<Longrightarrow> live a now db
     \<and> ai_jobs db' = update_jobs (\<lambda>j. fenced a j \<and> lease_live now j) (finalized_row s c now) (ai_jobs db)"
  using stale_finalize [of a now db s d c]
  by (cases "live a now db") (auto simp: finalize_def Let_def split: option.splits if_splits)

lemma spent_finalized:
  "queue_ok db \<Longrightarrow> finalize a s d c now db = (True, db') \<Longrightarrow> s \<noteq> RUNNING \<Longrightarrow> spent a (ai_jobs db')"
  by (drule finalize_True) (simp add: spent_after finalized_row_def)

lemma spent_retried:
  assumes ok: "queue_ok db" and "retryTechnical a r now db = (Inr True, db')"
  shows "spent a (ai_jobs db')"
proof -
  have l: "live a now db" using assms stale_retry [of a now db r] by (cases "live a now db") auto
  from l obtain j where "List.find (\<lambda>j. fenced a j \<and> lease_live now j) (ai_jobs db) = Some j"
    unfolding live_def by (metis (mono_tags, lifting) find_None_iff not_None_eq)
  then have "ai_jobs db' = update_jobs (\<lambda>j. fenced a j \<and> lease_live now j) (finalized_row FAILED (Some r) now) (ai_jobs db) \<or>
      (\<exists>d. ai_jobs db' = update_jobs (\<lambda>j. fenced a j \<and> lease_live now j) (requeued_row r d now) (ai_jobs db))"
    using assms(2) by (auto simp: retryTechnical_def in_transaction_def retryTechnical_tx_def Let_def split: option.splits if_splits)
  with spent_after [OF ok l] show ?thesis by (auto simp: finalized_row_def requeued_row_def)
qed

section \<open>Claiming\<close>

lemma hd_sort_key:
  assumes "sort_key k xs = y # ys"
  shows "y \<in> set xs \<and> (\<forall>x\<in>set xs. k y \<le> k x)"
proof -
  have "sorted (map k (y # ys))" by (metis assms sorted_sort_key)
  moreover have "set (y # ys) = set xs" by (metis assms set_sort)
  ultimately show ?thesis by auto
qed

lemma claim_rows_only_row:
  assumes ok: "queue_ok db" and c: "claimPending rows_only lease now db = (Inr (Some k), db')"
  shows "\<exists>j\<in>set (ai_jobs db). claimable now j \<and> k = take_lease lease now j
    \<and> (\<forall>i\<in>set (ai_jobs db). claimable now i \<longrightarrow> j_createdAt j \<le> j_createdAt i)
    \<and> ai_jobs db' = update_jobs (\<lambda>i. i = j) (take_lease lease now) (ai_jobs db)"
proof -
  have dist: "distinct (map j_id (ai_jobs db))" using ok by (simp add: queue_ok_def job_keys_ok_def)
  show ?thesis
  proof (cases "sort_key j_createdAt (filter (claimable now) (ai_jobs db))")
    case Nil
    with c show ?thesis by (simp add: claimPending_def in_transaction_def claimPending_tx_def)
  next
    case (Cons j js)
    have j: "j \<in> set (ai_jobs db)" "claimable now j" "\<forall>i\<in>set (ai_jobs db). claimable now i \<longrightarrow> j_createdAt j \<le> j_createdAt i"
      using hd_sort_key [OF Cons] by auto
    let ?sel = "\<lambda>k. j_id k = j_id j \<and> claimable now k"
    have sel: "?sel i \<longleftrightarrow> i = j" if "i \<in> set (ai_jobs db)" for i
      using that j distinct_map_eqD [OF dist that j(1)] by auto
    have fil: "filter ?sel (ai_jobs db) \<noteq> []" "set (filter ?sel (ai_jobs db)) \<subseteq> {j}"
      using j sel by (auto simp: filter_empty_conv)
    then obtain rest where r: "filter ?sel (ai_jobs db) = j # rest"
      by (cases "filter ?sel (ai_jobs db)") auto
    have upd: "update_jobs ?sel (take_lease lease now) (ai_jobs db) = update_jobs (\<lambda>i. i = j) (take_lease lease now) (ai_jobs db)"
      using sel by (auto simp: update_jobs_def)
    let ?jobs = "update_jobs (\<lambda>i. i = j) (take_lease lease now) (ai_jobs db)"
    have "List.find (\<lambda>k. j_attempts k = j_attempts j + 1 \<and> j_id k = j_id j \<and> j_leaseId k = Some lease \<and> j_status k = RUNNING) ?jobs
        = Some (take_lease lease now j)"
    proof (rule find_unique)
      show "take_lease lease now j \<in> set ?jobs" using j(1) by (auto simp: set_update_jobs)
      show "y = take_lease lease now j"
        if "y \<in> set ?jobs" "j_attempts y = j_attempts j + 1 \<and> j_id y = j_id j \<and> j_leaseId y = Some lease \<and> j_status y = RUNNING" for y
        using that distinct_map_eqD [OF dist _ j(1)] by (auto simp: set_update_jobs split: if_splits)
    qed (simp add: take_lease_def)
    with c Cons r upd j show ?thesis
      by (auto simp: claimPending_def in_transaction_def claimPending_tx_def Let_def rows_only_def matches_def conj_ac
          intro!: bexI [of _ j])
  qed
qed

section \<open>Properties\<close>

text \<open>C3 The queue invariant holds after every sequence of transactions of any processes: one job
  per document and type, one per idempotency key, a job holds a lease exactly while it runs, at
  most three technical retries, a terminal job has its completion time (and a failed one its
  code), a job is dead-lettered at most once, and the outbox never holds more result events of a
  job than it had attempts (strictly fewer while an attempt is running).\<close>

theorem queue_reachable_ok:
  assumes "job_steps empty_ai_db db"
  shows "queue_ok db"
  using assms queue_ok_empty by (rule job_steps_ok)

definition sample_command :: enqueue_command where
  "sample_command = \<lparr>ec_correlationId = ''r'', ec_documentId = ''d'', ec_jobType = ''FULL_PIPELINE'',
     ec_ownerId = ''w'', ec_selection = None\<rparr>"

definition one_pending :: ai_db where
  "one_pending = snd (enqueue ''j'' 0 sample_command ''k'' empty_ai_db)"

definition one_running :: ai_db where
  "one_running = snd (claimPending rows_only ''l'' 1 one_pending)"

lemma queue_reachable_ok_witness: "queue_ok one_running \<and> map j_status (ai_jobs one_running) = [RUNNING]"
proof -
  have "job_steps empty_ai_db one_running"
    unfolding one_running_def one_pending_def
    by (meson rtranclp.rtrancl_into_rtrancl rtranclp.rtrancl_refl step_enqueue step_claim)
  moreover have "map j_status (ai_jobs one_running) = [RUNNING]" by code_simp
  ultimately show ?thesis using queue_reachable_ok [of one_running] by simp
qed

text \<open>C5 An attempt ends at most once: after a completion, a failure or a technical retry was
  accepted, no later write under the same attempt is accepted, at any time and after any
  transactions of any processes.  So an attempt emits at most one result event and a worker that
  lost its lease cannot resurrect the job.\<close>

theorem attempt_ends_once:
  assumes "queue_ok db"
    and "complete a now db = (True, db1) \<or> fail a code now db = (True, db1) \<or> retryTechnical a reason now db = (Inr True, db1)"
    and "job_steps db1 db2"
  shows "complete a t db2 = (False, db2) \<and> fail a code' t db2 = (False, db2)
    \<and> retryTechnical a reason' t db2 = (Inr False, db2) \<and> record_budget a e s b t db2 = (False, db2)
    \<and> ensureDefaultPlatformModel a w m t db2 = (False, db2)"
proof -
  have "spent a (ai_jobs db1)"
    using assms(1,2) by (auto simp: complete_def fail_def intro: spent_finalized spent_retried)
  then have "\<not> live a t db2"
    using spent_steps [OF assms(3)] by (blast dest: spent_not_live)
  then show ?thesis
    by (simp add: complete_def fail_def stale_finalize stale_retry stale_record stale_ensure)
qed

lemma attempt_ends_once_witness:
  "\<exists>db1. complete \<lparr>ja_attempts = 1, ja_id = ''j'', ja_leaseId = ''l''\<rparr> 2 one_running = (True, db1)
     \<and> fail \<lparr>ja_attempts = 1, ja_id = ''j'', ja_leaseId = ''l''\<rparr> PROCESSING_FAILED 3 db1 = (False, db1)"
proof -
  let ?a = "\<lparr>ja_attempts = 1, ja_id = ''j'', ja_leaseId = ''l''\<rparr>"
  have ok: "queue_ok one_running"
    unfolding one_running_def one_pending_def by (intro queue_ok_claim queue_ok_enqueue queue_ok_empty)
  have "fst (complete ?a 2 one_running)" by code_simp
  then obtain db1 where c: "complete ?a 2 one_running = (True, db1)" by (metis prod.collapse)
  have "job_steps db1 db1" by simp
  with attempt_ends_once [OF ok] c show ?thesis by blast
qed

lemma find_live:
  assumes ok: "queue_ok db" and j: "j \<in> set (ai_jobs db)" "fenced a j" "lease_live now j"
  shows "List.find (\<lambda>j. fenced a j \<and> lease_live now j) (ai_jobs db) = Some j"
    and "length (filter (\<lambda>j. fenced a j \<and> lease_live now j) (ai_jobs db)) = 1"
    and "update_jobs (\<lambda>j. fenced a j \<and> lease_live now j) f (ai_jobs db) = update_jobs (\<lambda>i. i = j) f (ai_jobs db)"
proof -
  have dist: "distinct (map j_id (ai_jobs db))" using ok by (simp add: queue_ok_def job_keys_ok_def)
  have only: "i = j" if "i \<in> set (ai_jobs db)" "fenced a i" for i
    using distinct_map_eqD [OF dist that(1) j(1)] that(2) j(2) by (simp add: fenced_def)
  then show "List.find (\<lambda>j. fenced a j \<and> lease_live now j) (ai_jobs db) = Some j"
    by (intro find_unique [OF j(1)]) (use j only in blast)+
  show "length (filter (\<lambda>j. fenced a j \<and> lease_live now j) (ai_jobs db)) = 1"
    using fenced_unique [OF ok] j by blast
  show "update_jobs (\<lambda>j. fenced a j \<and> lease_live now j) f (ai_jobs db) = update_jobs (\<lambda>i. i = j) f (ai_jobs db)"
    unfolding update_jobs_def by (rule map_cong [OF refl]) (use only j in metis)
qed

text \<open>Technical failures: on a live fence the first three put the job back to PENDING, invisible
  for 5 seconds, 30 seconds and 5 minutes, with nothing sent; the fourth ends the job as FAILED,
  with one failure event and one dead-letter entry.\<close>

theorem retry_technical_outcome:
  assumes "queue_ok db" and "j \<in> set (ai_jobs db)" and "fenced a j" and "lease_live now j"
  shows "\<exists>db'. retryTechnical a reason now db = (Inr True, db') \<and>
    (if j_technicalRetryCount j < 3
     then ai_jobs db' = update_jobs (\<lambda>i. i = j)
            (requeued_row reason ([5000, 30000, 300000] ! j_technicalRetryCount j) now) (ai_jobs db)
        \<and> ai_outbox db' = ai_outbox db \<and> ai_dlq db' = ai_dlq db
     else ai_jobs db' = update_jobs (\<lambda>i. i = j) (finalized_row FAILED (Some reason) now) (ai_jobs db)
        \<and> (\<exists>e. ai_outbox db' = ai_outbox db @ [e] \<and> ob_aggregateId e = j_id j
             \<and> ob_payload e = createResultEvent j FAILED_RESULT (Some reason))
        \<and> j_id j \<in> dq_jobId ` set (ai_dlq db'))"
proof (cases "j_technicalRetryCount j < 3")
  case True
  then show ?thesis
    using find_live [OF assms]
    by (simp add: retryTechnical_def in_transaction_def retryTechnical_tx_def Let_def technical_retry_delays_def)
next
  case False
  let ?f = "finalized_row FAILED (Some reason) now"
  let ?jobs = "update_jobs (\<lambda>i. i = j) ?f (ai_jobs db)"
  have dist: "distinct (map j_id (ai_jobs db))" using assms(1) by (simp add: queue_ok_def job_keys_ok_def)
  have jid: "ja_id a = j_id j" using assms(3) by (simp add: fenced_def)
  have found: "List.find (\<lambda>i. j_id i = j_id j) ?jobs = Some (?f j)"
  proof (rule find_unique)
    show "?f j \<in> set ?jobs" using assms(2) by (auto simp: set_update_jobs)
    show "y = ?f j" if "y \<in> set ?jobs" "j_id y = j_id j" for y
      using that distinct_map_eqD [OF dist _ assms(2)] by (auto simp: set_update_jobs finalized_row_def split: if_splits)
  qed (simp add: finalized_row_def)
  have ev: "createResultEvent (?f j) FAILED_RESULT (Some reason) = createResultEvent j FAILED_RESULT (Some reason)"
    by (simp add: createResultEvent_def finalized_row_def)
  have dead: "k \<in> set js \<Longrightarrow> j_id k \<in> dq_jobId ` set (fold (\<lambda>j. add_dlq j reason) js rows)" for k js rows
  proof (induction js arbitrary: rows)
    case (Cons x xs)
    have mono: "dq_jobId ` set rs \<subseteq> dq_jobId ` set (fold (\<lambda>j. add_dlq j reason) ys rs)" for ys rs
      by (induction ys arbitrary: rs) (auto simp: add_dlq_def, force)
    have "j_id x \<in> dq_jobId ` set (add_dlq x reason rows)"
      by (auto simp: add_dlq_def list_ex_iff) (metis image_eqI)
    with Cons mono [of "add_dlq x reason rows" xs] show ?case by auto
  qed simp
  have "j_id (?f j) \<in> dq_jobId ` set (fold (\<lambda>j. add_dlq j reason) (filter (\<lambda>i. j_id i = j_id j) ?jobs) (ai_dlq db))"
    using assms(2) by (intro dead) (auto simp: set_update_jobs finalized_row_def)
  then have "j_id j \<in> dq_jobId ` set (fold (\<lambda>j. add_dlq j reason) (filter (\<lambda>i. j_id i = j_id j) ?jobs) (ai_dlq db))"
    by (simp add: finalized_row_def)
  with False found ev find_live [OF assms] show ?thesis
    by (simp add: retryTechnical_def in_transaction_def retryTechnical_tx_def Let_def technical_retry_delays_def jid append_event_def)
      (simp add: finalized_row_def)
qed

definition sample_job :: job_row where
  "sample_job = hd (ai_jobs one_running)"

definition sample_attempt :: job_attempt where
  "sample_attempt = \<lparr>ja_attempts = 1, ja_id = ''j'', ja_leaseId = ''l''\<rparr>"

lemma one_running_ok: "queue_ok one_running"
  unfolding one_running_def one_pending_def by (intro queue_ok_claim queue_ok_enqueue queue_ok_empty)

lemma sample_job_live: "sample_job \<in> set (ai_jobs one_running)" "fenced sample_attempt sample_job" "lease_live 2 sample_job"
  unfolding sample_job_def sample_attempt_def by code_simp+

lemma retry_technical_outcome_witness:
  "\<exists>db'. retryTechnical sample_attempt PROVIDER_UNAVAILABLE 2 one_running = (Inr True, db') \<and> ai_outbox db' = ai_outbox one_running"
proof -
  have "j_technicalRetryCount sample_job < 3" unfolding sample_job_def by code_simp
  with retry_technical_outcome [OF one_running_ok sample_job_live, of PROVIDER_UNAVAILABLE] show ?thesis by auto
qed

text \<open>Enqueueing is idempotent: in a consistent queue, delivering the same command twice in a row
  (whatever identifiers and times the two deliveries use) leaves the queue exactly as the first
  delivery left it; a job that is already pending, running or completed is not touched at all.\<close>

theorem enqueue_idempotent:
  assumes "queue_ok db" and "enqueue id1 t1 c key db = (Inr (), db1)"
  shows "enqueue id2 t2 c key db1 = (Inr (), db1)
    \<and> ((\<exists>j\<in>set (ai_jobs db). j_documentId j = ec_documentId c \<and> j_jobType j = ec_jobType c \<and> j_status j \<noteq> FAILED)
        \<longrightarrow> db1 = db)"
proof -
  let ?same = "\<lambda>j. j_documentId j = ec_documentId c \<and> j_jobType j = ec_jobType c"
  have dist: "distinct (map (\<lambda>j. (j_documentId j, j_jobType j)) (ai_jobs db))"
    using assms(1) by (simp add: queue_ok_def job_keys_ok_def)
  show ?thesis
  proof (cases "list_ex ?same (ai_jobs db)")
    case False
    then have none: "\<not> (\<exists>j\<in>set (ai_jobs db). ?same j)" by (simp add: list_ex_iff)
    have db1: "db1 = db\<lparr>ai_jobs := ai_jobs db @ [new_job id1 t1 c key]\<rparr>"
      using assms(2) False by (simp add: enqueue_def split: if_splits)
    have "list_ex ?same (ai_jobs db1)" by (simp add: db1)
    moreover have "update_jobs (\<lambda>j. j_documentId j = ec_documentId c \<and> j_jobType j = ec_jobType c \<and> j_status j = FAILED) f (ai_jobs db1) = ai_jobs db1" for f
      using none by (intro update_jobs_none) (auto simp: db1)
    ultimately have "enqueue id2 t2 c key db1 = (Inr (), db1)" by (simp add: enqueue_def)
    with none show ?thesis by blast
  next
    case True
    let ?rearm = "\<lambda>j. j\<lparr>j_status := PENDING, j_attempts := j_attempts j + 1, j_technicalRetryCount := 0, j_updatedAt := t1\<rparr>"
    let ?jobs = "update_jobs (\<lambda>j. ?same j \<and> j_status j = FAILED) ?rearm (ai_jobs db)"
    have db1: "db1 = db\<lparr>ai_jobs := ?jobs\<rparr>"
      using assms(2) True by (simp add: enqueue_def conj_assoc)
    obtain j where j: "j \<in> set (ai_jobs db)" "?same j" using True by (auto simp: list_ex_iff)
    have "(if ?same j \<and> j_status j = FAILED then ?rearm j else j) \<in> set ?jobs"
      unfolding set_update_jobs using j(1) by (rule imageI)
    then have "list_ex ?same ?jobs"
      unfolding list_ex_iff by (rule bexI [rotated]) (use j(2) in simp)
    moreover have "\<not> (?same j \<and> j_status j = FAILED)" if "j \<in> set ?jobs" for j
      using that by (auto simp: set_update_jobs split: if_splits)
    then have "update_jobs (\<lambda>j. ?same j \<and> j_status j = FAILED) f ?jobs = ?jobs" for f
      by (rule update_jobs_none)
    ultimately have "enqueue id2 t2 c key db1 = (Inr (), db1)"
      by (simp add: enqueue_def db1 conj_assoc)
    moreover have "db1 = db" if j: "j \<in> set (ai_jobs db)" "?same j" "j_status j \<noteq> FAILED" for j
    proof -
      have "\<not> (?same i \<and> j_status i = FAILED)" if i: "i \<in> set (ai_jobs db)" for i
        using distinct_map_eqD [OF dist i j(1)] j by auto
      then have "?jobs = ai_jobs db" by (rule update_jobs_none)
      then show ?thesis by (simp add: db1)
    qed
    ultimately show ?thesis by blast
  qed
qed

lemma enqueue_idempotent_witness:
  "enqueue ''x'' 9 sample_command ''k'' one_pending = (Inr (), one_pending)"
proof -
  have "fst (enqueue ''j'' 0 sample_command ''k'' empty_ai_db) = Inr ()" by code_simp
  then have "enqueue ''j'' 0 sample_command ''k'' empty_ai_db = (Inr (), one_pending)"
    unfolding one_pending_def by (metis prod.collapse)
  from enqueue_idempotent [OF queue_ok_empty this] show ?thesis by blast
qed

text \<open>Claiming, when the update answers its rows: the job returned was claimable (pending and
  visible, or running under an expired lease), is the oldest such job, now runs its next attempt
  under the fresh lease for fifteen minutes, and no other job is touched; so a live lease is
  never taken away.\<close>

theorem claim_takes_oldest:
  assumes "queue_ok db" and "claimPending rows_only lease now db = (Inr (Some k), db')"
  shows "\<exists>j\<in>set (ai_jobs db). claimable now j \<and> k = take_lease lease now j
    \<and> (\<forall>i\<in>set (ai_jobs db). claimable now i \<longrightarrow> j_createdAt j \<le> j_createdAt i)
    \<and> ai_jobs db' = update_jobs (\<lambda>i. i = j) (take_lease lease now) (ai_jobs db)
    \<and> live \<lparr>ja_attempts = j_attempts k, ja_id = j_id k, ja_leaseId = lease\<rparr> now db'"
proof -
  obtain j where j: "j \<in> set (ai_jobs db)" "claimable now j" "k = take_lease lease now j"
    "\<forall>i\<in>set (ai_jobs db). claimable now i \<longrightarrow> j_createdAt j \<le> j_createdAt i"
    "ai_jobs db' = update_jobs (\<lambda>i. i = j) (take_lease lease now) (ai_jobs db)"
    using claim_rows_only_row [OF assms] by blast
  have "take_lease lease now j \<in> set (ai_jobs db')"
    using j(1) unfolding j(5) by (auto simp: set_update_jobs)
  then have "live \<lparr>ja_attempts = j_attempts k, ja_id = j_id k, ja_leaseId = lease\<rparr> now db'"
    unfolding live_def using j(3) by (intro bexI [of _ k]) (auto simp: fenced_def take_lease_def lease_live_def lease_ttl_def)
  with j show ?thesis by blast
qed

lemma claim_takes_oldest_witness:
  "\<exists>j\<in>set (ai_jobs one_pending). claimable 1 j \<and> ai_jobs one_running = update_jobs (\<lambda>i. i = j) (take_lease ''l'' 1) (ai_jobs one_pending)"
proof -
  have ok: "queue_ok one_pending" unfolding one_pending_def by (intro queue_ok_enqueue queue_ok_empty)
  have "fst (claimPending rows_only ''l'' 1 one_pending) = Inr (Some sample_job)"
    unfolding sample_job_def by code_simp
  then have "claimPending rows_only ''l'' 1 one_pending = (Inr (Some sample_job), one_running)"
    unfolding one_running_def by (metis prod.collapse)
  from claim_takes_oldest [OF ok this] show ?thesis by blast
qed

text \<open>
  TypeORM answers an UPDATE with the pair of rows and count, so the three fields read off its
  first component are undefined and the reload of the claimed job falls back to any running job.
  With a single runner that is the claimed one; with two it need not be.
\<close>

lemma find_running_unique:
  assumes "\<And>i. i \<in> set jobs \<Longrightarrow> j_status i \<noteq> RUNNING" and "distinct (map j_id jobs)" and "j \<in> set jobs" and "claimable now j"
  shows "List.find (\<lambda>k. j_status k = RUNNING)
     (update_jobs (\<lambda>k. j_id k = j_id j \<and> claimable now k) (take_lease lease now) jobs) = Some (take_lease lease now j)"
proof (rule find_unique)
  show "take_lease lease now j \<in> set (update_jobs (\<lambda>k. j_id k = j_id j \<and> claimable now k) (take_lease lease now) jobs)"
    using assms(3,4) by (auto simp: set_update_jobs)
  show "j_status (take_lease lease now j) = RUNNING" by (simp add: take_lease_def)
  fix y assume "y \<in> set (update_jobs (\<lambda>k. j_id k = j_id j \<and> claimable now k) (take_lease lease now) jobs)"
    and run: "j_status y = RUNNING"
  then obtain i where i: "i \<in> set jobs" "y = (if j_id i = j_id j \<and> claimable now i then take_lease lease now i else i)"
    by (auto simp: set_update_jobs)
  with run assms(1) [OF i(1)] have "j_id i = j_id j" "y = take_lease lease now i" by (auto split: if_splits)
  with distinct_map_eqD [OF assms(2) i(1) assms(3)] show "y = take_lease lease now j" by simp
qed

lemma filter_unique_key: "distinct (map f xs) \<Longrightarrow> x \<in> set xs \<Longrightarrow> P x \<Longrightarrow> filter (\<lambda>y. f y = f x \<and> P y) xs = [x]"
proof (induction xs)
  case (Cons y ys)
  show ?case
  proof (cases "y = x")
    case True
    then have "filter (\<lambda>z. f z = f x \<and> P z) ys = []" using Cons.prems(1) by (auto simp: filter_empty_conv image_iff)
    with True Cons.prems(3) show ?thesis by simp
  next
    case False
    with Cons show ?thesis by (auto simp: image_iff)
  qed
qed simp

lemma claim_single_runner_eq:
  assumes "queue_ok db" and "\<And>i. i \<in> set (ai_jobs db) \<Longrightarrow> j_status i \<noteq> RUNNING"
  shows "claimPending rows_and_count lease now db = claimPending rows_only lease now db"
proof (cases "sort_key j_createdAt (filter (claimable now) (ai_jobs db))")
  case Nil
  then show ?thesis by (simp add: claimPending_def claimPending_tx_def in_transaction_def)
next
  case (Cons j rest)
  have "j \<in> set (sort_key j_createdAt (filter (claimable now) (ai_jobs db)))" by (simp add: Cons)
  then have j: "j \<in> set (ai_jobs db)" "claimable now j" by simp_all
  have dist: "distinct (map j_id (ai_jobs db))" using assms(1) by (simp add: queue_ok_def job_keys_ok_def)
  let ?jobs' = "update_jobs (\<lambda>k. j_id k = j_id j \<and> claimable now k) (take_lease lease now) (ai_jobs db)"
  let ?strict = "\<lambda>k. j_attempts k = Suc (j_attempts j) \<and> j_id k = j_id j \<and> j_leaseId k = Some lease \<and> j_status k = RUNNING"
  have find: "List.find (\<lambda>k. j_status k = RUNNING) ?jobs' = Some (take_lease lease now j)"
    by (rule find_running_unique [OF assms(2) dist j])
  then have "take_lease lease now j \<in> set ?jobs'" by (blast dest: find_SomeD)
  note mem = this
  have uniq: "y = take_lease lease now j" if "y \<in> set ?jobs'" "?strict y" for y
  proof -
    from that obtain i where i: "i \<in> set (ai_jobs db)" "y = (if j_id i = j_id j \<and> claimable now i then take_lease lease now i else i)"
      by (auto simp: set_update_jobs)
    with that(2) assms(2) [OF i(1)] have "j_id i = j_id j" "y = take_lease lease now i" by (auto split: if_splits)
    with distinct_map_eqD [OF dist i(1) j(1)] show ?thesis by simp
  qed
  have "?strict (take_lease lease now j)" by (simp add: take_lease_def)
  then have strict: "List.find ?strict ?jobs' = Some (take_lease lease now j)"
    by (rule find_unique [OF mem _ uniq])
  have sel: "filter (\<lambda>k. j_id k = j_id j \<and> claimable now k) (ai_jobs db) = [j]"
    by (rule filter_unique_key [OF dist j(1), of "claimable now", OF j(2)])
  let ?db' = "db\<lparr>ai_jobs := ?jobs'\<rparr>"
  have sel_db: "ai_jobs ?db' = ?jobs'" by simp
  have "claimPending_tx rows_and_count lease now db = Inr (Some (take_lease lease now j), ?db')"
    unfolding claimPending_tx_def Cons list.case Let_def rows_and_count_def option.case matches_def claimed_fields.simps
      option.map simp_thms sel_db find ..
  moreover have "claimPending_tx rows_only lease now db = Inr (Some (take_lease lease now j), ?db')"
    unfolding claimPending_tx_def Cons list.case Let_def rows_only_def sel list.map job_attempt.simps option.case matches_def
      claimed_fields.simps option.map sel_db Suc_eq_plus1 [symmetric] strict ..
  ultimately show ?thesis by (simp only: claimPending_def in_transaction_def)
qed

text \<open>A claim as TypeORM answers it (rows and count) is the intended claim whenever no job is
  running at that moment: the answers and the queues agree, so \<open>claim_takes_oldest\<close> applies.\<close>

theorem claim_single_runner:
  assumes "queue_ok db" and "\<forall>i\<in>set (ai_jobs db). j_status i \<noteq> RUNNING"
  shows "claimPending rows_and_count lease now db = claimPending rows_only lease now db"
  using assms by (intro claim_single_runner_eq) auto

lemma claim_single_runner_witness:
  "claimPending rows_and_count ''l'' 1 one_pending = (Inr (Some sample_job), one_running)"
proof -
  have ok: "queue_ok one_pending" unfolding one_pending_def by (intro queue_ok_enqueue queue_ok_empty)
  have no: "\<forall>i\<in>set (ai_jobs one_pending). j_status i \<noteq> RUNNING" by code_simp
  have "fst (claimPending rows_only ''l'' 1 one_pending) = Inr (Some sample_job)"
    unfolding sample_job_def by code_simp
  then have "claimPending rows_only ''l'' 1 one_pending = (Inr (Some sample_job), one_running)"
    unfolding one_running_def by (metis prod.collapse)
  with claim_single_runner [OF ok no] show ?thesis by simp
qed

definition other_command :: enqueue_command where
  "other_command = \<lparr>ec_correlationId = ''c2'', ec_documentId = ''d2'', ec_jobType = ''document-processing'',
     ec_ownerId = ''u2'', ec_selection = None\<rparr>"

definition running_and_pending :: ai_db where
  "running_and_pending = snd (enqueue ''j2'' 3 other_command ''k2'' one_running)"

text \<open>With two runners the claim can return the other runner's job: one job runs under an
  unexpired lease, a second one is pending; the claim marks the second one running but answers
  the first one, whose fence is live, so both runners now hold the same valid fence.\<close>

theorem claim_returns_foreign_job:
  "queue_ok running_and_pending
   \<and> (\<exists>k. fst (claimPending rows_and_count ''l2'' 4 running_and_pending) = Inr (Some k)
        \<and> \<not> claimable 4 k \<and> k \<in> set (ai_jobs running_and_pending) \<and> j_id k = ''j''
        \<and> fenced sample_attempt k \<and> lease_live 4 k)
   \<and> map j_status (ai_jobs (snd (claimPending rows_and_count ''l2'' 4 running_and_pending))) = [RUNNING, RUNNING]"
proof -
  have "queue_ok running_and_pending"
    unfolding running_and_pending_def by (intro queue_ok_enqueue one_running_ok)
  moreover have "fst (claimPending rows_and_count ''l2'' 4 running_and_pending) = Inr (Some sample_job)"
    unfolding sample_job_def by code_simp
  moreover have "\<not> claimable 4 sample_job" "sample_job \<in> set (ai_jobs running_and_pending)" "j_id sample_job = ''j''"
    "fenced sample_attempt sample_job" "lease_live 4 sample_job"
    unfolding sample_job_def sample_attempt_def by code_simp+
  moreover have "map j_status (ai_jobs (snd (claimPending rows_and_count ''l2'' 4 running_and_pending))) = [RUNNING, RUNNING]"
    by code_simp
  ultimately show ?thesis by blast
qed

definition settled_then_exhausted :: ai_db where
  "settled_then_exhausted =
     (let db1 = snd (record_budget sample_attempt 5 3 ''SETTLED'' 2 one_running);
          db2 = snd (fail sample_attempt PROVIDER_UNAVAILABLE 3 db1);
          db3 = snd (enqueue ''x'' 4 sample_command ''k'' db2);
          db4 = snd (claimPending rows_only ''l2'' 5 db3)
      in snd (fail \<lparr>ja_attempts = 3, ja_id = ''j'', ja_leaseId = ''l2''\<rparr> BUDGET_EXHAUSTED 6 db4))"

text \<open>A re-armed job keeps the budget of its former attempt: after a settled attempt failed and
  the job was enqueued again, a later failure for an exhausted budget is reported with the
  status SETTLED of the former attempt, not EXHAUSTED.\<close>

theorem rearmed_budget_is_stale:
  "map (\<lambda>e. (map_of (ob_payload e) ''errorCode'', map_of (ob_payload e) ''budgetStatus'')) (ai_outbox settled_then_exhausted)
   = [(Some (JStr ''PROVIDER_UNAVAILABLE''), Some (JStr ''SETTLED'')),
      (Some (JStr ''BUDGET_EXHAUSTED''), Some (JStr ''SETTLED''))]"
  by code_simp

lemma length_filter_keys:
  assumes "distinct (map f xs)" and "distinct ys" and "set ys \<subseteq> set (filter Q xs)"
  shows "length (filter (\<lambda>x. f x \<in> set (map f ys) \<and> Q x) xs) = length ys"
proof -
  have "x \<in> set ys" if "x \<in> set xs" "f x \<in> f ` set ys" for x
  proof -
    from that(2) obtain y where "y \<in> set ys" "f x = f y" by blast
    with distinct_map_eqD [OF assms(1) that(1)] assms(3) show ?thesis by auto
  qed
  then have "set (filter (\<lambda>x. f x \<in> set (map f ys) \<and> Q x) xs) = set ys"
    using assms(3) by auto
  moreover have "distinct (filter (\<lambda>x. f x \<in> set (map f ys) \<and> Q x) xs)"
    using assms(1) by (simp add: distinct_map)
  ultimately show ?thesis using distinct_card [OF assms(2)] distinct_card by fastforce
qed

text \<open>Lease recovery: at most \<open>limit\<close> jobs are requeued, exactly \<open>limit\<close> of the expired ones when
  there are that many, every job it changes was running under an expired lease and is claimable
  at once, and all others are left as they were.\<close>

theorem requeue_only_expired:
  assumes "queue_ok db" and "requeueExpiredLeases limit now db = (n, db')"
  shows "n = min limit (length (filter (\<lambda>j. j_status j = RUNNING \<and> lease_expired now j) (ai_jobs db)))
    \<and> list_all2 (\<lambda>j j'. j' = j \<or> j_status j = RUNNING \<and> lease_expired now j \<and> claimable now j' \<and> j_id j' = j_id j)
        (ai_jobs db) (ai_jobs db')"
proof -
  let ?exp = "\<lambda>j. j_status j = RUNNING \<and> lease_expired now j"
  let ?sorted = "sort_key j_updatedAt (filter ?exp (ai_jobs db))"
  let ?taken = "take limit ?sorted"
  let ?sel = "\<lambda>j. j_id j \<in> set (map j_id ?taken) \<and> ?exp j"
  have dist: "distinct (map j_id (ai_jobs db))" using assms(1) by (simp add: queue_ok_def job_keys_ok_def)
  have "distinct ?taken" using dist by (simp add: distinct_map)
  moreover have "set ?taken \<subseteq> set (filter ?exp (ai_jobs db))" using set_take_subset [of limit ?sorted] by simp
  ultimately have "length (filter ?sel (ai_jobs db)) = length ?taken" by (rule length_filter_keys [OF dist])
  moreover have "list_all2 (\<lambda>j j'. j' = j \<or> ?exp j \<and> claimable now j' \<and> j_id j' = j_id j) (ai_jobs db) (update_jobs ?sel
      (\<lambda>j. j\<lparr>j_status := PENDING, j_leaseId := None, j_leaseUntil := None, j_nextVisibleAt := now, j_updatedAt := now\<rparr>) (ai_jobs db))"
    by (simp add: update_jobs_def list_all2_conv_all_nth claimable_def)
  ultimately have both: "length (filter ?sel (ai_jobs db)) = length ?taken" "list_all2 (\<lambda>j j'. j' = j \<or> ?exp j \<and> claimable now j' \<and> j_id j' = j_id j) (ai_jobs db) (update_jobs ?sel
      (\<lambda>j. j\<lparr>j_status := PENDING, j_leaseId := None, j_leaseUntil := None, j_nextVisibleAt := now, j_updatedAt := now\<rparr>) (ai_jobs db))"
    by this+
  have eq: "(length (filter ?sel (ai_jobs db)), db\<lparr>ai_jobs := update_jobs ?sel
      (\<lambda>j. j\<lparr>j_status := PENDING, j_leaseId := None, j_leaseUntil := None, j_nextVisibleAt := now, j_updatedAt := now\<rparr>) (ai_jobs db)\<rparr>) = (n, db')"
    using assms(2) unfolding requeueExpiredLeases_def Let_def .
  have "n = length (filter ?sel (ai_jobs db))"
    using arg_cong [OF eq, of fst] unfolding fst_conv by (rule sym)
  moreover have "ai_jobs db' = update_jobs ?sel
      (\<lambda>j. j\<lparr>j_status := PENDING, j_leaseId := None, j_leaseUntil := None, j_nextVisibleAt := now, j_updatedAt := now\<rparr>) (ai_jobs db)"
    using arg_cong [OF eq, of "\<lambda>p. ai_jobs (snd p)"] unfolding snd_conv by simp
  moreover have "length ?taken = min limit (length (filter ?exp (ai_jobs db)))" by (simp add: min.commute)
  ultimately show ?thesis using both by (simp only: simp_thms conj_assoc)
qed

lemma requeue_only_expired_witness:
  "\<exists>db'. requeueExpiredLeases 10 900001 one_running = (1, db')
    \<and> list_all2 (\<lambda>j j'. j' = j \<or> j_status j = RUNNING \<and> lease_expired 900001 j \<and> claimable 900001 j' \<and> j_id j' = j_id j)
        (ai_jobs one_running) (ai_jobs db')"
proof -
  have l: "length (filter (\<lambda>j. j_status j = RUNNING \<and> lease_expired 900001 j) (ai_jobs one_running)) = 1" by code_simp
  obtain n db' where r: "requeueExpiredLeases 10 900001 one_running = (n, db')" by fastforce
  from requeue_only_expired [OF one_running_ok r] l r show ?thesis by auto
qed

end
