(* ===== verification/Billing.thy ===== *)
theory Billing imports Prelude begin

text \<open>
  Credits: \<open>content/repositories/budget-reservation.repository.ts\<close> (reserve and settle over the
  wallet and the ledger), \<open>content/repositories/owner-entitlement.repository.ts\<close> (plan and first
  wallet) and \<open>ai/repositories/job-cost-guard.repository.ts\<close> (usage records of the provider).

  The state \<open>billing_db\<close> holds the tables those three write, with the unique keys and CHECKs of
  the migrations: \<open>business_key\<close> and \<open>request_key\<close> unique, ledger and charged credits not negative,
  reserved credits not negative, attempts positive, every credit a \<open>bigint\<close>.  The available
  credits may be negative: migration 1780835014300 drops that CHECK.  Timestamps of the rows are
  left out, no operation reads them.
\<close>

section \<open>Data\<close>

datatype entry_type = RESERVE | SETTLE | RELEASE | HOLD

record wallet_row =
  w_ownerId :: string
  w_available :: int
  w_reserved :: int

record ledger_row =
  le_ownerId :: string
  le_jobId :: string
  le_attempt :: nat
  le_key :: string
  le_type :: entry_type
  le_credits :: int

record entitlement_row =
  en_ownerId :: string
  en_planId :: string

datatype usage_status = AVAILABLE | UNAVAILABLE

record provider_usage =
  us_inputTokens :: "int option"
  us_outputTokens :: "int option"
  us_status :: usage_status

record usage_row =
  ur_ownerId :: string
  ur_jobId :: string
  ur_attempt :: nat
  ur_requestKey :: string
  ur_providerIdentity :: string
  ur_inputTokens :: "int option"
  ur_outputTokens :: "int option"
  ur_cached :: bool
  ur_status :: usage_status
  ur_charged :: "int option"

record billing_db =
  bl_entitlements :: "entitlement_row list"
  bl_wallets :: "wallet_row list"
  bl_ledger :: "ledger_row list"
  bl_usage :: "usage_row list"

datatype budget_error = BudgetExhausted | BudgetDbFailure

definition fits_int8 :: "int \<Rightarrow> bool" where
  "fits_int8 n \<longleftrightarrow> - 9223372036854775808 \<le> n \<and> n \<le> 9223372036854775807"

section \<open>Ledger and wallet statements\<close>

fun entry_prefix :: "entry_type \<Rightarrow> string" where
  "entry_prefix RESERVE = ''reserve''"
| "entry_prefix SETTLE = ''settle''"
| "entry_prefix RELEASE = ''release''"
| "entry_prefix HOLD = ''hold''"

definition business_key :: "entry_type \<Rightarrow> string \<Rightarrow> nat \<Rightarrow> string" where
  "business_key t jobId attempt = entry_prefix t @ CHR '':'' # jobId @ CHR '':'' # nat_str attempt"

definition has_entry :: "string \<Rightarrow> ledger_row list \<Rightarrow> bool" where
  "has_entry key ledger \<longleftrightarrow> list_ex (\<lambda>e. le_key e = key) ledger"

definition ledger_entry :: "string \<Rightarrow> string \<Rightarrow> nat \<Rightarrow> entry_type \<Rightarrow> int \<Rightarrow> ledger_row" where
  "ledger_entry ownerId jobId attempt t credits =
     \<lparr>le_ownerId = ownerId, le_jobId = jobId, le_attempt = attempt, le_key = business_key t jobId attempt,
      le_type = t, le_credits = credits\<rparr>"

definition insert_entry :: "ledger_row \<Rightarrow> billing_db \<Rightarrow> budget_error + billing_db" where
  "insert_entry e db =
     (if has_entry (le_key e) (bl_ledger db) \<or> le_attempt e = 0 \<or> le_credits e < 0 \<or> \<not> fits_int8 (le_credits e)
      then Inl BudgetDbFailure
      else Inr (db\<lparr>bl_ledger := bl_ledger db @ [e]\<rparr>))"

definition wallet_ok :: "wallet_row \<Rightarrow> bool" where
  "wallet_ok w \<longleftrightarrow> 0 \<le> w_reserved w \<and> fits_int8 (w_reserved w) \<and> fits_int8 (w_available w)"

definition add_to_wallet :: "int \<Rightarrow> int \<Rightarrow> wallet_row \<Rightarrow> wallet_row" where
  "add_to_wallet available reserved w =
     w\<lparr>w_available := w_available w + available, w_reserved := w_reserved w + reserved\<rparr>"

definition update_wallet :: "string \<Rightarrow> int \<Rightarrow> int \<Rightarrow> billing_db \<Rightarrow> budget_error + billing_db" where
  "update_wallet ownerId available reserved db =
     (let ws = map (\<lambda>w. if w_ownerId w = ownerId then add_to_wallet available reserved w else w) (bl_wallets db)
      in if list_all (\<lambda>w. w_ownerId w = ownerId \<longrightarrow> wallet_ok w) ws then Inr (db\<lparr>bl_wallets := ws\<rparr>)
         else Inl BudgetDbFailure)"

definition available_credits :: "string \<Rightarrow> billing_db \<Rightarrow> int" where
  "available_credits ownerId db =
     (case List.find (\<lambda>w. w_ownerId w = ownerId) (bl_wallets db) of None \<Rightarrow> 0 | Some w \<Rightarrow> w_available w)"

definition reserved_for :: "string \<Rightarrow> nat \<Rightarrow> billing_db \<Rightarrow> int" where
  "reserved_for jobId attempt db =
     (case List.find (\<lambda>e. le_key e = business_key RESERVE jobId attempt) (bl_ledger db) of
        None \<Rightarrow> 0 | Some e \<Rightarrow> le_credits e)"

section \<open>Operations\<close>

definition reserve_tx :: "nat \<Rightarrow> int \<Rightarrow> string \<Rightarrow> string \<Rightarrow> billing_db \<Rightarrow> budget_error + (unit \<times> billing_db)" where
  "reserve_tx attempt estimatedCredits jobId ownerId db =
     (if has_entry (business_key RESERVE jobId attempt) (bl_ledger db) then Inr ((), db)
      else if available_credits ownerId db < estimatedCredits then Inl BudgetExhausted
      else and_then (update_wallet ownerId (- estimatedCredits) estimatedCredits db) (\<lambda>db1.
           and_then (insert_entry (ledger_entry ownerId jobId attempt RESERVE estimatedCredits) db1) (\<lambda>db2.
           Inr ((), db2))))"

definition reserve :: "nat \<Rightarrow> int \<Rightarrow> string \<Rightarrow> string \<Rightarrow> billing_db \<Rightarrow> (budget_error + unit) \<times> billing_db" where
  "reserve attempt estimatedCredits jobId ownerId = in_transaction (reserve_tx attempt estimatedCredits jobId ownerId)"

definition settle_tx ::
  "nat \<Rightarrow> bool \<Rightarrow> string \<Rightarrow> int \<Rightarrow> string \<Rightarrow> billing_db \<Rightarrow> budget_error + (unit \<times> billing_db)" where
  "settle_tx attempt hasUncertainDispatch jobId knownActualCredits ownerId db =
     (if has_entry (business_key SETTLE jobId attempt) (bl_ledger db) then Inr ((), db)
      else let reserved = reserved_for jobId attempt db;
               released = (if hasUncertainDispatch then 0 else max 0 (reserved - knownActualCredits));
               held = (if hasUncertainDispatch then max 0 (reserved - knownActualCredits) else 0)
           in and_then (insert_entry (ledger_entry ownerId jobId attempt SETTLE knownActualCredits) db) (\<lambda>db1.
              and_then (insert_entry (ledger_entry ownerId jobId attempt RELEASE released) db1) (\<lambda>db2.
              and_then (if 0 < held then insert_entry (ledger_entry ownerId jobId attempt HOLD held) db2 else Inr db2) (\<lambda>db3.
              and_then (update_wallet ownerId (released - max 0 (knownActualCredits - reserved)) (- reserved) db3) (\<lambda>db4.
              Inr ((), db4))))))"

definition settle ::
  "nat \<Rightarrow> bool \<Rightarrow> string \<Rightarrow> int \<Rightarrow> string \<Rightarrow> billing_db \<Rightarrow> (budget_error + unit) \<times> billing_db" where
  "settle attempt uncertain jobId known ownerId = in_transaction (settle_tx attempt uncertain jobId known ownerId)"

text \<open>
  \<open>findOrCreate\<close> is two statements, each its own transaction; a process may die between them.
\<close>

definition upsert_entitlement :: "string \<Rightarrow> billing_db \<Rightarrow> billing_db" where
  "upsert_entitlement ownerId db =
     (if list_ex (\<lambda>e. en_ownerId e = ownerId) (bl_entitlements db) then db
      else db\<lparr>bl_entitlements := bl_entitlements db @ [\<lparr>en_ownerId = ownerId, en_planId = ''free''\<rparr>]\<rparr>)"

definition insert_wallet :: "string \<Rightarrow> int \<Rightarrow> billing_db \<Rightarrow> billing_db" where
  "insert_wallet ownerId initialCredits db =
     (if list_ex (\<lambda>w. w_ownerId w = ownerId) (bl_wallets db) then db
      else db\<lparr>bl_wallets := bl_wallets db @ [\<lparr>w_ownerId = ownerId, w_available = initialCredits, w_reserved = 0\<rparr>]\<rparr>)"

definition findOrCreate :: "string \<Rightarrow> int \<Rightarrow> billing_db \<Rightarrow> string \<times> billing_db" where
  "findOrCreate ownerId initialCredits db =
     (let db1 = upsert_entitlement ownerId db;
          planId = (case List.find (\<lambda>e. en_ownerId e = ownerId) (bl_entitlements db1) of None \<Rightarrow> [] | Some e \<Rightarrow> en_planId e)
      in (planId, insert_wallet ownerId initialCredits db1))"

text \<open>
  \<open>recordUsage\<close>: an insert, or on the same request key the replacement of an UNAVAILABLE record by
  an AVAILABLE one.  Charged credits that are not an integer are no \<open>bigint\<close> and the statement fails.
\<close>

definition as_bigint :: "rat \<Rightarrow> int option" where
  "as_bigint r = (if of_int \<lfloor>r\<rfloor> = r \<and> fits_int8 \<lfloor>r\<rfloor> then Some \<lfloor>r\<rfloor> else None)"

definition replaces :: "usage_row \<Rightarrow> usage_row \<Rightarrow> bool" where
  "replaces new old \<longleftrightarrow> ur_requestKey old = ur_requestKey new \<and> ur_status old = UNAVAILABLE \<and> ur_status new = AVAILABLE"

definition new_usage ::
  "nat \<Rightarrow> bool \<Rightarrow> int option \<Rightarrow> string \<Rightarrow> string \<Rightarrow> string \<Rightarrow> string \<Rightarrow> provider_usage \<Rightarrow> usage_row" where
  "new_usage attempt cached charged jobId ownerId providerIdentity requestKey usage =
     \<lparr>ur_ownerId = ownerId, ur_jobId = jobId, ur_attempt = attempt, ur_requestKey = requestKey,
      ur_providerIdentity = providerIdentity, ur_inputTokens = us_inputTokens usage,
      ur_outputTokens = us_outputTokens usage, ur_cached = cached, ur_status = us_status usage, ur_charged = charged\<rparr>"

lemma new_usage_simps [simp]:
  "ur_requestKey (new_usage a c ch j w p k u) = k" "ur_status (new_usage a c ch j w p k u) = us_status u"
  by (simp_all add: new_usage_def)

definition merge_usage :: "usage_row \<Rightarrow> usage_row \<Rightarrow> usage_row" where
  "merge_usage new old =
     (if replaces new old
      then old\<lparr>ur_inputTokens := ur_inputTokens new, ur_outputTokens := ur_outputTokens new,
               ur_status := ur_status new, ur_charged := ur_charged new\<rparr>
      else old)"

definition write_usage :: "usage_row \<Rightarrow> billing_db \<Rightarrow> billing_db" where
  "write_usage new db =
     (if list_ex (\<lambda>u. ur_requestKey u = ur_requestKey new) (bl_usage db)
      then db\<lparr>bl_usage := map (merge_usage new) (bl_usage db)\<rparr>
      else db\<lparr>bl_usage := bl_usage db @ [new]\<rparr>)"

definition recordUsage ::
  "nat \<Rightarrow> bool \<Rightarrow> rat option \<Rightarrow> string \<Rightarrow> string \<Rightarrow> string \<Rightarrow> string \<Rightarrow> provider_usage \<Rightarrow> billing_db
     \<Rightarrow> (budget_error + unit) \<times> billing_db" where
  "recordUsage attempt cached chargedCredits jobId ownerId providerIdentity requestKey usage db =
     (case those (map as_bigint (case chargedCredits of None \<Rightarrow> [] | Some c \<Rightarrow> [c])) of
        None \<Rightarrow> (Inl BudgetDbFailure, db)
      | Some cs \<Rightarrow>
          let new = new_usage attempt cached (case cs of [] \<Rightarrow> None | c # _ \<Rightarrow> Some c) jobId ownerId providerIdentity requestKey usage
          in if attempt = 0 \<or> list_ex (\<lambda>c. c < 0) cs then (Inl BudgetDbFailure, db)
             else (Inr (), write_usage new db))"

record usage_summary =
  su_hasUncertainDispatch :: bool
  su_knownActualCredits :: int

definition usage_of :: "nat \<Rightarrow> string \<Rightarrow> string \<Rightarrow> billing_db \<Rightarrow> usage_row list" where
  "usage_of attempt jobId ownerId db =
     filter (\<lambda>u. ur_ownerId u = ownerId \<and> ur_jobId u = jobId \<and> ur_attempt u = attempt) (bl_usage db)"

definition summarizeUsage :: "nat \<Rightarrow> string \<Rightarrow> string \<Rightarrow> billing_db \<Rightarrow> usage_summary" where
  "summarizeUsage attempt jobId ownerId db =
     \<lparr>su_hasUncertainDispatch = list_ex (\<lambda>u. \<not> ur_cached u \<and> ur_status u = UNAVAILABLE) (usage_of attempt jobId ownerId db),
      su_knownActualCredits = sum_list (map (\<lambda>u. case ur_charged u of None \<Rightarrow> 0 | Some c \<Rightarrow> c) (usage_of attempt jobId ownerId db))\<rparr>"

section \<open>Keys\<close>

lemma entry_prefix_split:
  "entry_prefix t @ CHR '':'' # x = entry_prefix u @ CHR '':'' # y \<longleftrightarrow> t = u \<and> x = y"
  by (cases t; cases u) simp_all

lemma business_key_inj [simp]:
  "business_key t j a = business_key u k b \<longleftrightarrow> t = u \<and> j = k \<and> a = b"
  unfolding business_key_def entry_prefix_split
  by (auto dest: append_colon_inj [OF _ colon_not_in_nat_str colon_not_in_nat_str] nat_str_inj)

lemma ledger_entry_simps [simp]:
  "le_key (ledger_entry w j a t c) = business_key t j a" "le_type (ledger_entry w j a t c) = t"
  "le_ownerId (ledger_entry w j a t c) = w" "le_credits (ledger_entry w j a t c) = c"
  "le_jobId (ledger_entry w j a t c) = j" "le_attempt (ledger_entry w j a t c) = a"
  by (simp_all add: ledger_entry_def)

lemma has_entry_append [simp]: "has_entry k (xs @ ys) \<longleftrightarrow> has_entry k xs \<or> has_entry k ys"
  by (simp add: has_entry_def)

lemma has_entry_Cons [simp]: "has_entry k (e # es) \<longleftrightarrow> le_key e = k \<or> has_entry k es" "\<not> has_entry k []"
  by (simp_all add: has_entry_def)

lemma has_entry_iff: "has_entry k es \<longleftrightarrow> k \<in> le_key ` set es"
  by (auto simp: has_entry_def list_ex_iff)

lemma sum_list_at_key:
  "distinct (map key xs) \<Longrightarrow>
   sum_list (map (\<lambda>x. if key x = k then f x else (0::int)) xs) = (case List.find (\<lambda>x. key x = k) xs of None \<Rightarrow> 0 | Some x \<Rightarrow> f x)"
proof (induction xs)
  case (Cons x xs)
  show ?case
  proof (cases "key x = k")
    case True
    then have "map (\<lambda>x. if key x = k then f x else 0) xs = map (\<lambda>x. 0) xs"
      using Cons.prems by (intro map_cong) (auto simp: image_iff)
    then have "sum_list (map (\<lambda>x. if key x = k then f x else 0) xs) = sum_list (map (\<lambda>x. 0) xs)"
      by (rule arg_cong)
    with True show ?thesis by simp
  next
    case False
    with Cons show ?thesis by simp
  qed
qed simp

section \<open>Accounts\<close>

definition sum_over :: "('a \<Rightarrow> bool) \<Rightarrow> ('a \<Rightarrow> int) \<Rightarrow> 'a list \<Rightarrow> int" where
  "sum_over P f xs = sum_list (map (\<lambda>x. if P x then f x else 0) xs)"

lemma sum_over_simps [simp]:
  "sum_over P f [] = 0" "sum_over P f (x # xs) = (if P x then f x else 0) + sum_over P f xs"
  "sum_over P f (xs @ ys) = sum_over P f xs + sum_over P f ys"
  by (simp_all add: sum_over_def)

definition has_wallet :: "string \<Rightarrow> billing_db \<Rightarrow> bool" where
  "has_wallet w db \<longleftrightarrow> w \<in> w_ownerId ` set (bl_wallets db)"

definition reserved_of :: "string \<Rightarrow> billing_db \<Rightarrow> int" where
  "reserved_of w db = sum_over (\<lambda>r. w_ownerId r = w) w_reserved (bl_wallets db)"

definition available_of :: "string \<Rightarrow> billing_db \<Rightarrow> int" where
  "available_of w db = sum_over (\<lambda>r. w_ownerId r = w) w_available (bl_wallets db)"

definition booked :: "entry_type \<Rightarrow> string \<Rightarrow> billing_db \<Rightarrow> int" where
  "booked t w db = sum_over (\<lambda>e. le_type e = t \<and> le_ownerId e = w) le_credits (bl_ledger db)"

definition settled_in :: "ledger_row list \<Rightarrow> ledger_row \<Rightarrow> bool" where
  "settled_in ledger e \<longleftrightarrow> has_entry (business_key SETTLE (le_jobId e) (le_attempt e)) ledger"

text \<open>Credits reserved by attempts that were not settled yet.\<close>

definition outstanding :: "string \<Rightarrow> billing_db \<Rightarrow> int" where
  "outstanding w db =
     sum_over (\<lambda>e. le_type e = RESERVE \<and> le_ownerId e = w \<and> \<not> settled_in (bl_ledger db) e) le_credits (bl_ledger db)"

text \<open>Everything an owner was ever granted: at hand, reserved, spent, or withheld.\<close>

definition granted :: "string \<Rightarrow> billing_db \<Rightarrow> int" where
  "granted w db = available_of w db + reserved_of w db + booked SETTLE w db + booked HOLD w db"

definition entry_ok :: "(string \<Rightarrow> string) \<Rightarrow> ledger_row \<Rightarrow> bool" where
  "entry_ok own e \<longleftrightarrow> le_key e = business_key (le_type e) (le_jobId e) (le_attempt e) \<and> le_ownerId e = own (le_jobId e)
     \<and> 0 \<le> le_credits e \<and> 0 < le_attempt e"

definition billing_ok :: "(string \<Rightarrow> string) \<Rightarrow> billing_db \<Rightarrow> bool" where
  "billing_ok own db \<longleftrightarrow>
     distinct (map w_ownerId (bl_wallets db)) \<and> distinct (map le_key (bl_ledger db)) \<and>
     (\<forall>e\<in>set (bl_ledger db). entry_ok own e) \<and>
     (\<forall>e\<in>set (bl_ledger db). le_type e = RELEASE \<or> le_type e = HOLD \<longrightarrow> settled_in (bl_ledger db) e) \<and>
     (\<forall>e\<in>set (bl_ledger db). le_type e = SETTLE \<longrightarrow> has_entry (business_key RESERVE (le_jobId e) (le_attempt e)) (bl_ledger db)) \<and>
     (\<forall>w. reserved_of w db = outstanding w db)"

lemma map_owner_add: "map w_ownerId (map (\<lambda>w. if w_ownerId w = o' then add_to_wallet a r w else w) ws) = map w_ownerId ws"
  by (simp add: add_to_wallet_def)

lemma sum_over_wallets:
  assumes "distinct (map w_ownerId ws)"
  shows "sum_over (\<lambda>r. w_ownerId r = w) w_reserved (map (\<lambda>x. if w_ownerId x = u then add_to_wallet a r x else x) ws)
       = sum_over (\<lambda>r. w_ownerId r = w) w_reserved ws + (if w = u \<and> u \<in> w_ownerId ` set ws then r else 0)"
    and "sum_over (\<lambda>r. w_ownerId r = w) w_available (map (\<lambda>x. if w_ownerId x = u then add_to_wallet a r x else x) ws)
       = sum_over (\<lambda>r. w_ownerId r = w) w_available ws + (if w = u \<and> u \<in> w_ownerId ` set ws then a else 0)"
  using assms by (induction ws) (auto simp: add_to_wallet_def)

lemma available_credits_eq:
  assumes "distinct (map w_ownerId (bl_wallets db))"
  shows "available_credits w db = available_of w db"
  using sum_list_at_key [OF assms, of w w_available] by (simp add: available_credits_def available_of_def sum_over_def)

text \<open>What the two statements that write do, when they are accepted.\<close>

lemma update_wallet_Inr:
  assumes "update_wallet u a r db = Inr db'" and "distinct (map w_ownerId (bl_wallets db))"
  shows "bl_ledger db' = bl_ledger db" and "map w_ownerId (bl_wallets db') = map w_ownerId (bl_wallets db)"
    and "reserved_of w db' = reserved_of w db + (if w = u \<and> has_wallet u db then r else 0)"
    and "available_of w db' = available_of w db + (if w = u \<and> has_wallet u db then a else 0)"
    and "has_wallet w db' = has_wallet w db"
proof -
  let ?ws = "map (\<lambda>w. if w_ownerId w = u then add_to_wallet a r w else w) (bl_wallets db)"
  have db': "db' = db\<lparr>bl_wallets := ?ws\<rparr>"
    using assms(1) by (simp add: update_wallet_def Let_def split: if_splits)
  show "bl_ledger db' = bl_ledger db" by (simp add: db')
  have "bl_wallets db' = ?ws" by (simp add: db')
  then show owners: "map w_ownerId (bl_wallets db') = map w_ownerId (bl_wallets db)"
    by (simp only: map_owner_add)
  show "reserved_of w db' = reserved_of w db + (if w = u \<and> has_wallet u db then r else 0)"
    using sum_over_wallets(1) [OF assms(2), of w u a r] by (simp add: db' reserved_of_def has_wallet_def)
  show "available_of w db' = available_of w db + (if w = u \<and> has_wallet u db then a else 0)"
    using sum_over_wallets(2) [OF assms(2), of w u a r] by (simp add: db' available_of_def has_wallet_def)
  show "has_wallet w db' = has_wallet w db"
    using owners unfolding has_wallet_def by (metis list.set_map)
qed

lemma insert_entry_Inr:
  "insert_entry e db = Inr db' \<longleftrightarrow>
     \<not> has_entry (le_key e) (bl_ledger db) \<and> 0 < le_attempt e \<and> 0 \<le> le_credits e \<and> fits_int8 (le_credits e)
     \<and> db' = db\<lparr>bl_ledger := bl_ledger db @ [e]\<rparr>"
  by (auto simp: insert_entry_def)

text \<open>Booking entries beside the reservations of a job moves nothing but the books.\<close>

lemma sum_over_cong: "(\<And>x. x \<in> set xs \<Longrightarrow> P x = Q x) \<Longrightarrow> sum_over P f xs = sum_over Q f xs"
  unfolding sum_over_def by (rule arg_cong [of _ _ sum_list], rule map_cong) auto

lemma sum_over_zero: "(\<And>x. x \<in> set xs \<Longrightarrow> \<not> P x) \<Longrightarrow> sum_over P f xs = 0"
  by (induction xs) auto

lemma sum_over_split:
  "sum_over (\<lambda>x. P x \<and> Q x) f xs + sum_over (\<lambda>x. P x \<and> \<not> Q x) f xs = sum_over P f xs"
  by (induction xs) auto

lemma outstanding_nonneg: "(\<forall>e\<in>set (bl_ledger db). entry_ok own e) \<Longrightarrow> 0 \<le> outstanding w db"
  unfolding outstanding_def sum_over_def by (rule sum_list_nonneg) (auto simp: entry_ok_def)

lemma wallets_nonneg: "\<forall>w\<in>set ws. 0 \<le> w_reserved w \<Longrightarrow> 0 \<le> sum_over P w_reserved ws"
  unfolding sum_over_def by (rule sum_list_nonneg) auto

text \<open>Settling an attempt takes exactly its reservation out of the outstanding credits.\<close>

lemma outstanding_settled:
  assumes dist: "distinct (map le_key ledger)" and ok: "\<forall>e\<in>set ledger. entry_ok own e"
    and unsettled: "\<not> has_entry (business_key SETTLE j a) ledger"
    and new: "\<forall>e\<in>set new. le_type e \<noteq> RESERVE"
    and keys: "\<And>k b. has_entry (business_key SETTLE k b) new \<longleftrightarrow> k = j \<and> b = a"
  shows "sum_over (\<lambda>e. le_type e = RESERVE \<and> le_ownerId e = w \<and> \<not> settled_in (ledger @ new) e) le_credits (ledger @ new)
       = sum_over (\<lambda>e. le_type e = RESERVE \<and> le_ownerId e = w \<and> \<not> settled_in ledger e) le_credits ledger
         - (if w = own j then case List.find (\<lambda>e. le_key e = business_key RESERVE j a) ledger of None \<Rightarrow> 0 | Some e \<Rightarrow> le_credits e else 0)"
proof -
  let ?open = "\<lambda>e. le_type e = RESERVE \<and> le_ownerId e = w \<and> \<not> settled_in ledger e"
  let ?mine = "\<lambda>e. le_key e = business_key RESERVE j a"
  have "sum_over (\<lambda>e. le_type e = RESERVE \<and> le_ownerId e = w \<and> \<not> settled_in (ledger @ new) e) le_credits new = 0"
    using new by (intro sum_over_zero) auto
  moreover have "sum_over (\<lambda>e. le_type e = RESERVE \<and> le_ownerId e = w \<and> \<not> settled_in (ledger @ new) e) le_credits ledger
      = sum_over (\<lambda>e. ?open e \<and> \<not> ?mine e) le_credits ledger"
    by (rule sum_over_cong) (use ok in \<open>auto simp: settled_in_def keys entry_ok_def\<close>)
  moreover have "sum_over (\<lambda>e. ?open e \<and> ?mine e) le_credits ledger
      = (if w = own j then case List.find ?mine ledger of None \<Rightarrow> 0 | Some e \<Rightarrow> le_credits e else 0)"
  proof (cases "w = own j")
    case True
    have "sum_over (\<lambda>e. ?open e \<and> ?mine e) le_credits ledger = sum_over ?mine le_credits ledger"
      by (rule sum_over_cong) (use ok unsettled True in \<open>auto simp: settled_in_def entry_ok_def\<close>)
    with True show ?thesis using sum_list_at_key [OF dist] by (simp add: sum_over_def)
  next
    case False
    have "sum_over (\<lambda>e. ?open e \<and> ?mine e) le_credits ledger = sum_over (\<lambda>e. False) le_credits ledger"
      by (rule sum_over_cong) (use ok False in \<open>auto simp: entry_ok_def\<close>)
    with False show ?thesis by (simp add: sum_over_def)
  qed
  ultimately show ?thesis using sum_over_split [of ?open ?mine le_credits ledger] by simp
qed

section \<open>Invariant\<close>

lemma settled_reserved:
  assumes "billing_ok own db" and "has_entry (business_key SETTLE j a) (bl_ledger db)"
  shows "has_entry (business_key RESERVE j a) (bl_ledger db)"
proof -
  from assms(2) obtain e where e: "e \<in> set (bl_ledger db)" "le_key e = business_key SETTLE j a"
    by (auto simp: has_entry_iff)
  with assms(1) have "le_type e = SETTLE" "le_jobId e = j" "le_attempt e = a"
    by (auto simp: billing_ok_def entry_ok_def)
  with assms(1) e(1) show ?thesis by (auto simp: billing_ok_def)
qed

lemma reserve_tx_ok:
  assumes ok: "billing_ok own db" and r: "reserve_tx a est j (own j) db = Inr ((), db')"
    and fresh: "\<not> has_entry (business_key RESERVE j a) (bl_ledger db)"
  shows "billing_ok own db'" and "has_wallet w db' = has_wallet w db" and "granted w db' = granted w db"
    and "est \<le> available_of (own j) db"
    and "has_wallet (own j) db \<Longrightarrow> available_of (own j) db' = available_of (own j) db - est
              \<and> reserved_of (own j) db' = reserved_of (own j) db + est"
    and "bl_ledger db' = bl_ledger db @ [ledger_entry (own j) j a RESERVE est]"
proof -
  have dw: "distinct (map w_ownerId (bl_wallets db))" using ok by (simp add: billing_ok_def)
  let ?e = "ledger_entry (own j) j a RESERVE est"
  show lim: "est \<le> available_of (own j) db"
    using fresh r by (auto simp: reserve_tx_def available_credits_eq [OF dw] split: if_splits)
  from fresh r lim obtain db1 where u: "update_wallet (own j) (- est) est db = Inr db1" and i: "insert_entry ?e db1 = Inr db'"
    by (auto simp: reserve_tx_def available_credits_eq [OF dw] and_then_eq_Inr)
  note U = update_wallet_Inr [OF u dw]
  from i have db': "db' = db1\<lparr>bl_ledger := bl_ledger db @ [?e]\<rparr>" and pos: "0 < a" "0 \<le> est"
    by (simp_all add: insert_entry_Inr U(1))
  have acc: "reserved_of w db' = reserved_of w db + (if w = own j \<and> has_wallet (own j) db then est else 0)"
    "available_of w db' = available_of w db + (if w = own j \<and> has_wallet (own j) db then - est else 0)" for w
    using U(3,4) by (simp_all add: db' reserved_of_def available_of_def)
  show hw: "has_wallet w db' = has_wallet w db" for w
    using U(5) by (simp add: db' has_wallet_def)
  show led: "bl_ledger db' = bl_ledger db @ [?e]" by (simp add: db')
  have bk: "booked t w db' = booked t w db + (if t = RESERVE \<and> w = own j then est else 0)" for t w
    by (auto simp: booked_def led)
  show "granted w db' = granted w db" by (simp add: granted_def acc bk)
  show "has_wallet (own j) db \<Longrightarrow> available_of (own j) db' = available_of (own j) db - est
              \<and> reserved_of (own j) db' = reserved_of (own j) db + est"
    by (simp add: acc)
  have set_eq: "settled_in (bl_ledger db @ [?e]) = settled_in (bl_ledger db)"
    by (simp add: settled_in_def [abs_def])
  have uns: "\<not> settled_in (bl_ledger db) ?e"
    using settled_reserved [OF ok] fresh by (auto simp: settled_in_def)
  have out: "outstanding w db' = outstanding w db + (if w = own j then est else 0)" for w
    using uns by (auto simp: outstanding_def led set_eq)
  have zero: "est = 0" if "\<not> has_wallet (own j) db"
  proof -
    have "available_of (own j) db = 0"
      unfolding available_of_def using that by (intro sum_over_zero) (auto simp: has_wallet_def image_iff)
    with lim pos show ?thesis by simp
  qed
  have "reserved_of w db' = outstanding w db'" for w
    using ok zero by (auto simp: acc out billing_ok_def)
  moreover have "entry_ok own ?e" using pos by (simp add: entry_ok_def)
  moreover have "map w_ownerId (bl_wallets db') = map w_ownerId (bl_wallets db)" using U(2) by (simp add: db')
  ultimately show "billing_ok own db'"
    using ok fresh unfolding billing_ok_def by (auto simp: led set_eq has_entry_iff)
qed

definition held_credits :: "bool \<Rightarrow> int \<Rightarrow> int \<Rightarrow> int" where
  "held_credits uncertain reserved known = (if uncertain then max 0 (reserved - known) else 0)"

definition released_credits :: "bool \<Rightarrow> int \<Rightarrow> int \<Rightarrow> int" where
  "released_credits uncertain reserved known = (if uncertain then 0 else max 0 (reserved - known))"

definition settle_entries :: "string \<Rightarrow> string \<Rightarrow> nat \<Rightarrow> bool \<Rightarrow> int \<Rightarrow> int \<Rightarrow> ledger_row list" where
  "settle_entries w j a uncertain reserved known =
     [ledger_entry w j a SETTLE known, ledger_entry w j a RELEASE (released_credits uncertain reserved known)]
     @ (if 0 < held_credits uncertain reserved known then [ledger_entry w j a HOLD (held_credits uncertain reserved known)] else [])"

lemma settle_tx_Inr:
  assumes "\<not> has_entry (business_key SETTLE j a) (bl_ledger db)"
  shows "settle_tx a un j known w db = Inr ((), db') \<longleftrightarrow>
    0 < a \<and> 0 \<le> known \<and> fits_int8 known
    \<and> \<not> has_entry (business_key RELEASE j a) (bl_ledger db)
    \<and> fits_int8 (released_credits un (reserved_for j a db) known)
    \<and> (0 < held_credits un (reserved_for j a db) known \<longrightarrow>
         \<not> has_entry (business_key HOLD j a) (bl_ledger db) \<and> fits_int8 (held_credits un (reserved_for j a db) known))
    \<and> update_wallet w (released_credits un (reserved_for j a db) known - max 0 (known - reserved_for j a db))
        (- reserved_for j a db) (db\<lparr>bl_ledger := bl_ledger db @ settle_entries w j a un (reserved_for j a db) known\<rparr>) = Inr db'"
proof -
  have r0: "0 \<le> released_credits un r k" "0 \<le> held_credits un r k" for r k
    by (simp_all add: released_credits_def held_credits_def)
  show ?thesis
    using assms r0
    by (auto simp: settle_tx_def Let_def and_then_eq_Inr insert_entry_Inr settle_entries_def
        simp flip: released_credits_def held_credits_def split: if_splits)
qed

lemma settle_tx_ok:
  assumes ok: "billing_ok own db" and s: "settle_tx a un j known (own j) db = Inr ((), db')"
    and fresh: "\<not> has_entry (business_key SETTLE j a) (bl_ledger db)"
    and res: "has_entry (business_key RESERVE j a) (bl_ledger db)"
  defines "R \<equiv> reserved_for j a db"
  shows "billing_ok own db'" and "has_wallet w db' = has_wallet w db"
    and "has_wallet w db \<Longrightarrow> granted w db' = granted w db"
    and "has_wallet (own j) db \<Longrightarrow>
       available_of (own j) db' = available_of (own j) db + released_credits un R known - max 0 (known - R)
       \<and> reserved_of (own j) db' = reserved_of (own j) db - R"
    and "bl_ledger db' = bl_ledger db @ settle_entries (own j) j a un R known"
proof -
  let ?new = "settle_entries (own j) j a un R known"
  let ?av = "released_credits un R known - max 0 (known - R)"
  let ?db1 = "db\<lparr>bl_ledger := bl_ledger db @ ?new\<rparr>"
  have dw: "distinct (map w_ownerId (bl_wallets ?db1))" using ok by (simp add: billing_ok_def)
  from s have u: "update_wallet (own j) ?av (- R) ?db1 = Inr db'" and pos: "0 < a" "0 \<le> known"
    and rel: "\<not> has_entry (business_key RELEASE j a) (bl_ledger db)"
    and hold: "0 < held_credits un R known \<Longrightarrow> \<not> has_entry (business_key HOLD j a) (bl_ledger db)"
    by (simp_all add: settle_tx_Inr [OF fresh] R_def)
  note U = update_wallet_Inr [OF u dw]
  show led: "bl_ledger db' = bl_ledger db @ ?new" using U(1) by simp
  have hw1: "has_wallet w ?db1 = has_wallet w db" for w by (simp add: has_wallet_def)
  show hw: "has_wallet w db' = has_wallet w db" for w using U(5) by (simp add: hw1)
  have acc: "reserved_of w db' = reserved_of w db + (if w = own j \<and> has_wallet (own j) db then - R else 0)"
    "available_of w db' = available_of w db + (if w = own j \<and> has_wallet (own j) db then ?av else 0)" for w
    using U(3,4) by (simp_all add: hw1) (simp_all add: reserved_of_def available_of_def)
  show "has_wallet (own j) db \<Longrightarrow>
       available_of (own j) db' = available_of (own j) db + released_credits un R known - max 0 (known - R)
       \<and> reserved_of (own j) db' = reserved_of (own j) db - R"
    by (simp add: acc)
  have bk: "booked SETTLE w db' = booked SETTLE w db + (if w = own j then known else 0)"
    "booked HOLD w db' = booked HOLD w db + (if w = own j then held_credits un R known else 0)" for w
    by (auto simp: booked_def led settle_entries_def held_credits_def)
  show "has_wallet w db \<Longrightarrow> granted w db' = granted w db"
    by (auto simp: granted_def acc bk held_credits_def released_credits_def max_def)
  have new_keys: "has_entry (business_key SETTLE k b) ?new \<longleftrightarrow> k = j \<and> b = a" for k b
    by (auto simp: settle_entries_def)
  have out: "outstanding w db' = outstanding w db - (if w = own j then R else 0)" for w
    unfolding outstanding_def led R_def reserved_for_def
    by (rule outstanding_settled) (use ok fresh in \<open>auto simp: billing_ok_def settle_entries_def\<close>)
  have zero: "R = 0" if nw: "\<not> has_wallet (own j) db"
  proof -
    have "reserved_of (own j) db = 0"
      unfolding reserved_of_def using nw by (intro sum_over_zero) (auto simp: has_wallet_def image_iff)
    then have "outstanding (own j) db = 0" using ok by (auto simp: billing_ok_def)
    moreover have "0 \<le> outstanding (own j) db'"
      unfolding outstanding_def led sum_over_def
      by (rule sum_list_nonneg) (use ok pos in \<open>auto simp: billing_ok_def entry_ok_def settle_entries_def released_credits_def held_credits_def\<close>)
    moreover have "0 \<le> R"
      using ok by (auto simp: R_def reserved_for_def billing_ok_def entry_ok_def split: option.split dest: find_SomeD)
    ultimately show ?thesis using out by simp
  qed
  have resv: "reserved_of w db' = outstanding w db'" for w
    using ok zero by (auto simp: acc out billing_ok_def)
  have old: "settled_in (bl_ledger db @ ?new) e" if "settled_in (bl_ledger db) e" for e
    using that by (simp add: settled_in_def)
  have ent: "\<forall>e\<in>set ?new. entry_ok own e"
    using pos by (auto simp: entry_ok_def settle_entries_def released_credits_def held_credits_def)
  have keys: "distinct (map le_key (bl_ledger db @ ?new))"
    using ok fresh rel hold by (auto simp: billing_ok_def settle_entries_def has_entry_iff)
  have reld: "\<forall>e\<in>set ?new. settled_in (bl_ledger db @ ?new) e"
    by (auto simp: settled_in_def settle_entries_def)
  have setl: "\<forall>e\<in>set ?new. has_entry (business_key RESERVE (le_jobId e) (le_attempt e)) (bl_ledger db @ ?new)"
    using res by (auto simp: settle_entries_def)
  have "map w_ownerId (bl_wallets db') = map w_ownerId (bl_wallets db)" using U(2) by simp
  then show "billing_ok own db'"
    unfolding billing_ok_def led
    using ok resv ent keys reld setl old by (auto simp: billing_ok_def)
qed

inductive billing_step :: "(string \<Rightarrow> string) \<Rightarrow> billing_db \<Rightarrow> billing_db \<Rightarrow> bool" for own where
  step_reserve: "billing_step own db (snd (reserve attempt estimated jobId (own jobId) db))"
| step_settle: "has_entry (business_key RESERVE jobId attempt) (bl_ledger db)
    \<Longrightarrow> billing_step own db (snd (settle attempt uncertain jobId known (own jobId) db))"
| step_entitle: "billing_step own db (upsert_entitlement ownerId db)"
| step_wallet: "billing_step own db (insert_wallet ownerId initialCredits db)"
| step_usage: "billing_step own db (snd (recordUsage attempt cached charged jobId ownerId provider key usage db))"

definition empty_billing :: billing_db where
  "empty_billing = \<lparr>bl_entitlements = [], bl_wallets = [], bl_ledger = [], bl_usage = []\<rparr>"

lemma billing_ok_empty: "billing_ok own empty_billing"
  by (simp add: billing_ok_def empty_billing_def reserved_of_def outstanding_def)

lemma reserve_cases:
  obtains (same) r where "reserve a est j w db = (r, db)"
  | (booked) db' where "reserve a est j w db = (Inr (), db')" "reserve_tx a est j w db = Inr ((), db')"
      "\<not> has_entry (business_key RESERVE j a) (bl_ledger db)"
  by (cases "reserve_tx a est j w db") (auto simp: reserve_def in_transaction_def reserve_tx_def split: if_splits)

lemma settle_cases:
  obtains (same) r where "settle a un j k w db = (r, db)"
  | (booked) db' where "settle a un j k w db = (Inr (), db')" "settle_tx a un j k w db = Inr ((), db')"
      "\<not> has_entry (business_key SETTLE j a) (bl_ledger db)"
  by (cases "settle_tx a un j k w db")
    (auto simp: settle_def in_transaction_def settle_tx_def split: if_splits)

lemma recordUsage_frame:
  "bl_wallets (snd (recordUsage a c ch j w p k u db)) = bl_wallets db"
  "bl_ledger (snd (recordUsage a c ch j w p k u db)) = bl_ledger db"
  by (simp_all add: recordUsage_def write_usage_def Let_def split: option.split)

lemma upsert_frame:
  "bl_wallets (upsert_entitlement w db) = bl_wallets db" "bl_ledger (upsert_entitlement w db) = bl_ledger db"
  by (simp_all add: upsert_entitlement_def)

lemma billing_ok_frame:
  assumes "bl_wallets db' = bl_wallets db" and "bl_ledger db' = bl_ledger db"
  shows "billing_ok own db' = billing_ok own db" and "has_wallet w db' = has_wallet w db" and "granted w db' = granted w db"
  using assms by (simp_all add: billing_ok_def has_wallet_def granted_def reserved_of_def available_of_def booked_def outstanding_def)

lemma insert_wallet_ok:
  "billing_ok own db \<Longrightarrow> billing_ok own (insert_wallet u c db)"
  "has_wallet w db \<Longrightarrow> has_wallet w (insert_wallet u c db) \<and> granted w (insert_wallet u c db) = granted w db"
  by (auto simp: insert_wallet_def billing_ok_def has_wallet_def granted_def reserved_of_def available_of_def booked_def
      outstanding_def list_ex_iff)

lemma billing_step_ok:
  assumes "billing_step own db db'" and "billing_ok own db"
  shows "billing_ok own db' \<and> (has_wallet w db \<longrightarrow> has_wallet w db' \<and> granted w db' = granted w db)"
  using assms
proof cases
  case (step_reserve a est j)
  show ?thesis
  proof (cases rule: reserve_cases [of a est j "own j" db])
    case (booked db1)
    with step_reserve reserve_tx_ok [OF assms(2) booked(2,3)] show ?thesis by simp
  qed (use step_reserve assms in simp)
next
  case (step_settle j a un k)
  show ?thesis
  proof (cases rule: settle_cases [of a un j k "own j" db])
    case (booked db1)
    with step_settle settle_tx_ok [OF assms(2) booked(2,3) step_settle(2)] show ?thesis by simp
  qed (use step_settle assms in simp)
next
  case step_entitle
  then show ?thesis using assms(2) by (simp add: billing_ok_frame [OF upsert_frame])
next
  case step_wallet
  then show ?thesis using assms(2) insert_wallet_ok by simp
next
  case step_usage
  then show ?thesis using assms(2) by (simp add: billing_ok_frame [OF recordUsage_frame])
qed

lemma billing_steps_ok:
  assumes "(billing_step own)\<^sup>*\<^sup>* db db'" and "billing_ok own db"
  shows "billing_ok own db' \<and> (has_wallet w db \<longrightarrow> has_wallet w db' \<and> granted w db' = granted w db)"
  using assms(1)
proof (induction rule: rtranclp_induct)
  case base
  with assms(2) show ?case by simp
next
  case (step y z)
  with billing_step_ok [OF step.hyps(2), of w] show ?case by simp
qed

section \<open>When a settlement is accepted\<close>

text \<open>Every stored amount fits its column, and nothing charged is negative.\<close>

definition columns_ok :: "billing_db \<Rightarrow> bool" where
  "columns_ok db \<longleftrightarrow>
     (\<forall>w\<in>set (bl_wallets db). wallet_ok w) \<and> (\<forall>e\<in>set (bl_ledger db). fits_int8 (le_credits e)) \<and>
     (\<forall>u\<in>set (bl_usage db). \<forall>c. ur_charged u = Some c \<longrightarrow> 0 \<le> c)"

text \<open>The amounts a settlement of the recorded usage would write are 64-bit integers.\<close>

definition settlement_fits :: "nat \<Rightarrow> string \<Rightarrow> string \<Rightarrow> billing_db \<Rightarrow> bool" where
  "settlement_fits a j w db \<longleftrightarrow>
     (let summary = summarizeUsage a j w db; K = su_knownActualCredits summary; R = reserved_for j a db
      in fits_int8 K \<and>
         fits_int8 (available_of w db + released_credits (su_hasUncertainDispatch summary) R K - max 0 (K - R)))"

lemma usage_columns: "columns_ok db \<Longrightarrow> columns_ok (snd (recordUsage a c ch j w p k u db))"
  by (cases ch) (auto simp: recordUsage_def columns_ok_def write_usage_def merge_usage_def new_usage_def Let_def as_bigint_def
      split: option.splits if_splits)

lemma update_wallet_columns:
  assumes u: "update_wallet w a r db = Inr db1" and ok: "columns_ok db"
  shows "columns_ok db1"
proof -
  let ?f = "\<lambda>x. if w_ownerId x = w then add_to_wallet a r x else x"
  have db1: "db1 = db\<lparr>bl_wallets := map ?f (bl_wallets db)\<rparr>"
    and written: "\<forall>y\<in>set (map ?f (bl_wallets db)). w_ownerId y = w \<longrightarrow> wallet_ok y"
    using u by (simp_all only: update_wallet_def Let_def list_all_iff split: if_splits) simp_all
  have "wallet_ok (?f x)" if "x \<in> set (bl_wallets db)" for x
  proof (cases "w_ownerId x = w")
    case True
    then have "w_ownerId (?f x) = w" by (simp add: add_to_wallet_def)
    moreover have "?f x \<in> set (map ?f (bl_wallets db))" using that by simp
    ultimately show ?thesis using written by blast
  next
    case False
    then show ?thesis using ok that by (simp add: columns_ok_def)
  qed
  then have "\<forall>y\<in>set (map ?f (bl_wallets db)). wallet_ok y" by (simp only: set_map ball_simps(9)) blast
  moreover have "bl_wallets db1 = map ?f (bl_wallets db)" "bl_ledger db1 = bl_ledger db" "bl_usage db1 = bl_usage db"
    unfolding db1 by simp_all
  moreover have "\<forall>e\<in>set (bl_ledger db). fits_int8 (le_credits e)" "\<forall>u\<in>set (bl_usage db). \<forall>c. ur_charged u = Some c \<longrightarrow> 0 \<le> c"
    using ok unfolding columns_ok_def by blast+
  ultimately show ?thesis unfolding columns_ok_def by (intro conjI) (simp_all only:)
qed

lemma reserve_columns: "columns_ok db \<Longrightarrow> columns_ok (snd (reserve a est j w db))"
proof (cases rule: reserve_cases [of a est j w db])
  case (booked db')
  assume ok: "columns_ok db"
  from booked(2,3) obtain db1 where u: "update_wallet w (- est) est db = Inr db1"
    and i: "insert_entry (ledger_entry w j a RESERVE est) db1 = Inr db'"
    by (auto simp: reserve_tx_def and_then_eq_Inr split: if_splits)
  have "columns_ok db1" using u ok by (rule update_wallet_columns)
  moreover have "fits_int8 est" "db' = db1\<lparr>bl_ledger := bl_ledger db1 @ [ledger_entry w j a RESERVE est]\<rparr>"
    using i by (simp_all add: insert_entry_Inr)
  ultimately show ?thesis using booked(1) by (auto simp: columns_ok_def)
qed simp

lemma reserve_books:
  assumes "reserve a est j w db = (Inr u, bl)"
  shows "has_entry (business_key RESERVE j a) (bl_ledger bl)"
proof -
  have "reserve_tx a est j w db = Inr ((), bl)"
    using assms by (auto simp: reserve_def in_transaction_def split: sum.splits prod.splits)
  then show ?thesis
    by (auto simp: reserve_tx_def and_then_eq_Inr insert_entry_Inr split: if_splits)
qed

lemma owner_sum:
  assumes "distinct (map w_ownerId ws)" and "x \<in> set ws"
  shows "sum_over (\<lambda>r. w_ownerId r = w_ownerId x) f ws = f x"
proof -
  have "List.find (\<lambda>r. w_ownerId r = w_ownerId x) ws = Some x"
    using assms by (induction ws) (auto simp: image_iff)
  then show ?thesis using sum_list_at_key [OF assms(1), of "w_ownerId x" f] by (simp add: sum_over_def)
qed

lemma reserved_within:
  assumes ok: "billing_ok own db" and fresh: "\<not> has_entry (business_key SETTLE j a) (bl_ledger db)"
  shows "0 \<le> reserved_for j a db" and "reserved_for j a db \<le> reserved_of (own j) db"
proof -
  show "0 \<le> reserved_for j a db"
    using ok by (auto simp: reserved_for_def billing_ok_def entry_ok_def split: option.split dest: find_SomeD)
  let ?new = "[ledger_entry (own j) j a SETTLE 0]"
  have "sum_over (\<lambda>e. le_type e = RESERVE \<and> le_ownerId e = own j \<and> \<not> settled_in (bl_ledger db @ ?new) e) le_credits (bl_ledger db @ ?new)
      = outstanding (own j) db - reserved_for j a db"
    unfolding outstanding_def reserved_for_def
    by (subst outstanding_settled [where own = own]) (use ok fresh in \<open>auto simp: billing_ok_def\<close>)
  moreover have "0 \<le> sum_over (\<lambda>e. le_type e = RESERVE \<and> le_ownerId e = own j \<and> \<not> settled_in (bl_ledger db @ ?new) e) le_credits (bl_ledger db @ ?new)"
    unfolding sum_over_def by (rule sum_list_nonneg) (use ok in \<open>auto simp: billing_ok_def entry_ok_def\<close>)
  ultimately show "reserved_for j a db \<le> reserved_of (own j) db" using ok by (simp add: billing_ok_def)
qed

lemma unsettled_fresh:
  assumes ok: "billing_ok own db" and fresh: "\<not> has_entry (business_key SETTLE j a) (bl_ledger db)" and "t = RELEASE \<or> t = HOLD"
  shows "\<not> has_entry (business_key t j a) (bl_ledger db)"
proof
  assume "has_entry (business_key t j a) (bl_ledger db)"
  then obtain e where e: "e \<in> set (bl_ledger db)" "le_key e = business_key t j a" by (auto simp: has_entry_iff)
  with ok have "entry_ok own e" by (simp add: billing_ok_def)
  with e(2) have "le_type e = t" "le_jobId e = j" "le_attempt e = a" by (simp_all add: entry_ok_def)
  with ok e(1) fresh assms(3) show False by (auto simp: billing_ok_def settled_in_def)
qed

lemma reserved_entry:
  assumes "billing_ok own db" and "columns_ok db" and "has_entry (business_key RESERVE j a) (bl_ledger db)"
  shows "0 < a" and "fits_int8 (reserved_for j a db)"
proof -
  from assms(3) obtain e where e: "e \<in> set (bl_ledger db)" "le_key e = business_key RESERVE j a" by (auto simp: has_entry_iff)
  with assms(1) have "entry_ok own e" by (simp add: billing_ok_def)
  with e(2) show "0 < a" by (simp add: entry_ok_def)
  have "fits_int8 (0 :: int)" by (simp add: fits_int8_def)
  with assms(2) show "fits_int8 (reserved_for j a db)"
    by (auto simp: reserved_for_def columns_ok_def split: option.split dest: find_SomeD)
qed

text \<open>A settlement of a reserved attempt from its usage records is only refused for amounts that are no 64-bit integers.\<close>

lemma settle_accepted:
  assumes ok: "billing_ok own db" and cols: "columns_ok db" and res: "has_entry (business_key RESERVE j a) (bl_ledger db)"
    and w: "own j = w" and fits: "settlement_fits a j w db"
  defines "summary \<equiv> summarizeUsage a j w db"
  shows "fst (settle a (su_hasUncertainDispatch summary) j (su_knownActualCredits summary) w db) = Inr ()"
proof (cases "has_entry (business_key SETTLE j a) (bl_ledger db)")
  case True
  then show ?thesis by (simp add: settle_def in_transaction_def settle_tx_def)
next
  case False
  let ?u = "su_hasUncertainDispatch summary" and ?K = "su_knownActualCredits summary" and ?R = "reserved_for j a db"
  let ?av = "released_credits ?u ?R ?K - max 0 (?K - ?R)"
  let ?db1 = "db\<lparr>bl_ledger := bl_ledger db @ settle_entries w j a ?u ?R ?K\<rparr>"
  have K: "0 \<le> ?K"
    unfolding summary_def summarizeUsage_def usage_summary.simps
    by (rule sum_list_nonneg) (use cols in \<open>auto simp: columns_ok_def usage_of_def split: option.split\<close>)
  note R = reserved_within [OF ok False] reserved_entry [OF ok cols res]
  have amounts: "fits_int8 ?K" "fits_int8 (available_of w db + ?av)"
    using fits by (simp_all add: settlement_fits_def Let_def summary_def algebra_simps)
  have parts: "fits_int8 (released_credits ?u ?R ?K)" "fits_int8 (held_credits ?u ?R ?K)"
    using R(1,4) K by (auto simp: fits_int8_def released_credits_def held_credits_def max_def)
  have "wallet_ok (add_to_wallet ?av (- ?R) x)" if x: "x \<in> set (bl_wallets db)" "w_ownerId x = w" for x
  proof -
    have d: "distinct (map w_ownerId (bl_wallets db))" using ok by (simp add: billing_ok_def)
    have "available_of w db = w_available x" "reserved_of w db = w_reserved x"
      using owner_sum [OF d x(1), of w_available] owner_sum [OF d x(1), of w_reserved] x(2)
      by (simp_all add: available_of_def reserved_of_def)
    moreover have "fits_int8 (w_reserved x)" using cols x(1) by (simp add: columns_ok_def wallet_ok_def)
    ultimately show ?thesis
      using amounts(2) R(1,2) w by (auto simp: wallet_ok_def add_to_wallet_def fits_int8_def)
  qed
  then have "\<exists>db'. update_wallet w ?av (- ?R) ?db1 = Inr db'"
    by (auto simp: update_wallet_def Let_def list_all_iff add_to_wallet_def)
  then obtain db' where "update_wallet w ?av (- ?R) ?db1 = Inr db'" ..
  then have "settle_tx a ?u j ?K w db = Inr ((), db')"
    unfolding settle_tx_Inr [OF False]
    using R(3) K amounts(1) parts unsettled_fresh [OF ok False] by simp
  then show ?thesis by (simp add: settle_def in_transaction_def)
qed

section \<open>Conservation\<close>

text \<open>C6 Credits are conserved: from a consistent ledger, whatever reservations, settlements,
  entitlements and usage records follow in any order, an owner's credits at hand, reserved, spent
  and withheld always add up to the same sum, and the reserved credits of the wallet are exactly
  the reservations that were not settled yet, so they are never negative.\<close>

theorem credits_conserved:
  assumes "(billing_step own)\<^sup>*\<^sup>* db db'" and "billing_ok own db" and "has_wallet w db"
  shows "available_of w db' + reserved_of w db' + booked SETTLE w db' + booked HOLD w db'
       = available_of w db + reserved_of w db + booked SETTLE w db + booked HOLD w db
    \<and> reserved_of w db' = outstanding w db' \<and> 0 \<le> reserved_of w db'"
proof -
  have "billing_ok own db'" and "granted w db' = granted w db" using billing_steps_ok [OF assms(1,2), of w] assms(3) by auto
  moreover from this(1) have "reserved_of w db' = outstanding w db'" "0 \<le> outstanding w db'"
    by (auto simp: billing_ok_def intro: outstanding_nonneg)
  ultimately show ?thesis by (simp add: granted_def)
qed

definition sample_billing :: billing_db where
  "sample_billing = snd (findOrCreate ''u'' 100 empty_billing)"

definition settled_billing :: billing_db where
  "settled_billing = snd (settle 1 False ''j'' 12 ''u'' (snd (reserve 1 30 ''j'' ''u'' sample_billing)))"

lemma sample_billing_steps: "(billing_step (\<lambda>_. ''u''))\<^sup>*\<^sup>* empty_billing sample_billing"
  unfolding sample_billing_def findOrCreate_def Let_def snd_conv
  by (meson rtranclp.rtrancl_into_rtrancl rtranclp.rtrancl_refl step_entitle step_wallet)

lemma sample_billing_ok: "billing_ok (\<lambda>_. ''u'') sample_billing"
  using billing_steps_ok [OF sample_billing_steps billing_ok_empty] by blast

lemma credits_conserved_witness:
  "available_of ''u'' settled_billing = 88 \<and> reserved_of ''u'' settled_billing = 0 \<and> booked SETTLE ''u'' settled_billing = 12
   \<and> available_of ''u'' settled_billing + reserved_of ''u'' settled_billing + booked SETTLE ''u'' settled_billing
       + booked HOLD ''u'' settled_billing
     = available_of ''u'' sample_billing + reserved_of ''u'' sample_billing + booked SETTLE ''u'' sample_billing
       + booked HOLD ''u'' sample_billing"
proof -
  let ?db1 = "snd (reserve 1 30 ''j'' ((\<lambda>_. ''u'') ''j'') sample_billing)"
  have e: "has_entry (business_key RESERVE ''j'' 1) (bl_ledger ?db1)" by code_simp
  have "(billing_step (\<lambda>_. ''u''))\<^sup>*\<^sup>* sample_billing ?db1" using step_reserve by blast
  also have "billing_step (\<lambda>_. ''u'') ?db1 settled_billing"
    unfolding settled_billing_def using step_settle [OF e, of "\<lambda>_. ''u''"] by simp
  finally have st: "(billing_step (\<lambda>_. ''u''))\<^sup>*\<^sup>* sample_billing settled_billing" .
  have hw: "has_wallet ''u'' sample_billing" by code_simp
  have "available_of ''u'' settled_billing = 88" "reserved_of ''u'' settled_billing = 0" "booked SETTLE ''u'' settled_billing = 12"
    by code_simp+
  with credits_conserved [OF st sample_billing_ok hw] show ?thesis by blast
qed

lemma reserve_tx_again:
  "reserve_tx a est j w db = Inr ((), db') \<Longrightarrow> \<not> has_entry (business_key RESERVE j a) (bl_ledger db) \<Longrightarrow>
    has_entry (business_key RESERVE j a) (bl_ledger db')"
  by (auto simp: reserve_tx_def and_then_eq_Inr insert_entry_Inr split: if_splits)

lemma update_wallet_ledger: "update_wallet w a r db = Inr db' \<Longrightarrow> bl_ledger db' = bl_ledger db"
  by (auto simp: update_wallet_def Let_def split: if_splits)

lemma settle_tx_again:
  "settle_tx a un j k w db = Inr ((), db') \<Longrightarrow> \<not> has_entry (business_key SETTLE j a) (bl_ledger db) \<Longrightarrow>
    has_entry (business_key SETTLE j a) (bl_ledger db')"
  by (drule settle_tx_Inr [THEN iffD1]) (auto simp: settle_entries_def dest!: update_wallet_ledger)

text \<open>A reservation never takes more than is at hand and is booked once per attempt: when it is
  accepted either this attempt had reserved before and nothing changes, or the owner had the
  credits and they move from available to reserved; repeating it, even with another amount,
  changes nothing.\<close>

theorem reserve_outcome:
  assumes "billing_ok own db" and "reserve a est j (own j) db = (Inr (), db')"
  shows "(if has_entry (business_key RESERVE j a) (bl_ledger db) then db' = db
      else est \<le> available_of (own j) db
        \<and> bl_ledger db' = bl_ledger db @ [ledger_entry (own j) j a RESERVE est]
        \<and> (if has_wallet (own j) db
           then available_of (own j) db' = available_of (own j) db - est \<and> reserved_of (own j) db' = reserved_of (own j) db + est
           else est \<le> 0))
    \<and> reserve a est' j w db' = (Inr (), db')"
proof -
  have again: "reserve a est' j w x = (Inr (), x)" if "has_entry (business_key RESERVE j a) (bl_ledger x)" for x
    using that by (simp add: reserve_def in_transaction_def reserve_tx_def)
  show ?thesis
  proof (cases "has_entry (business_key RESERVE j a) (bl_ledger db)")
    case True
    then have "db' = db" using assms(2) by (simp add: reserve_def in_transaction_def reserve_tx_def)
    with True again show ?thesis by simp
  next
    case False
    then have tx: "reserve_tx a est j (own j) db = Inr ((), db')"
      using assms(2) by (auto simp: reserve_def in_transaction_def split: sum.splits prod.splits)
    note R = reserve_tx_ok [OF assms(1) tx False]
    have "available_of (own j) db = 0" if "\<not> has_wallet (own j) db"
      unfolding available_of_def using that by (intro sum_over_zero) (auto simp: has_wallet_def image_iff)
    with R False again [OF reserve_tx_again [OF tx False]] show ?thesis by auto
  qed
qed

lemma reserve_outcome_witness:
  "\<exists>db'. reserve 1 30 ''j'' ''u'' sample_billing = (Inr (), db') \<and> available_of ''u'' db' = 70
    \<and> reserve 1 99 ''j'' ''u'' db' = (Inr (), db')"
proof -
  have "fst (reserve 1 30 ''j'' ((\<lambda>_. ''u'') ''j'') sample_billing) = Inr ()" by code_simp
  then obtain db' where r: "reserve 1 30 ''j'' ((\<lambda>_. ''u'') ''j'') sample_billing = (Inr (), db')" by (metis prod.collapse)
  have "\<not> has_entry (business_key RESERVE ''j'' 1) (bl_ledger sample_billing)" "has_wallet ''u'' sample_billing"
    "available_of ''u'' sample_billing = 100" by code_simp+
  with reserve_outcome [OF sample_billing_ok r, of 99 "''u''"] r show ?thesis by auto
qed

text \<open>Settlement of a reserved attempt, when it is accepted for the first time: the reservation R
  leaves the reserved credits; with every dispatch certain the unused part R - K returns to the
  owner, with an uncertain one it is withheld under a HOLD entry; costs beyond R are taken from
  the available credits; and settling again, whatever the amounts, changes nothing.\<close>

theorem settle_outcome:
  assumes "billing_ok own db" and "settle a un j K (own j) db = (Inr (), db')" and "has_wallet (own j) db"
    and "has_entry (business_key RESERVE j a) (bl_ledger db)" and "\<not> has_entry (business_key SETTLE j a) (bl_ledger db)"
  shows "reserved_of (own j) db' = reserved_of (own j) db - reserved_for j a db
    \<and> available_of (own j) db' = available_of (own j) db
        + (if un then 0 else max 0 (reserved_for j a db - K)) - max 0 (K - reserved_for j a db)
    \<and> booked HOLD (own j) db' = booked HOLD (own j) db + (if un then max 0 (reserved_for j a db - K) else 0)
    \<and> settle a un' j K' w db' = (Inr (), db')"
proof -
  have tx: "settle_tx a un j K (own j) db = Inr ((), db')"
    using assms(2) by (auto simp: settle_def in_transaction_def split: sum.splits prod.splits)
  note S = settle_tx_ok [OF assms(1) tx assms(5,4)]
  have "booked HOLD (own j) db' = booked HOLD (own j) db + held_credits un (reserved_for j a db) K"
    by (auto simp: booked_def S(5) settle_entries_def held_credits_def)
  moreover have "settle a un' j K' w db' = (Inr (), db')"
    using settle_tx_again [OF tx assms(5)] by (simp add: settle_def in_transaction_def settle_tx_def)
  ultimately show ?thesis
    using S(4) [OF assms(3)] by (simp add: released_credits_def held_credits_def)
qed

lemma settle_outcome_witness:
  "\<exists>db1 db'. reserve 1 30 ''j'' ''u'' sample_billing = (Inr (), db1) \<and> settle 1 True ''j'' 12 ''u'' db1 = (Inr (), db')
    \<and> available_of ''u'' db' = 70 \<and> reserved_of ''u'' db' = 0 \<and> booked HOLD ''u'' db' = 18"
proof -
  let ?o = "\<lambda>_::string. ''u''"
  let ?db1 = "snd (reserve 1 30 ''j'' ''u'' sample_billing)"
  have r: "reserve 1 30 ''j'' ''u'' sample_billing = (Inr (), ?db1)"
    by (rule prod_eqI) (code_simp, simp)
  have "fst (settle 1 True ''j'' 12 (?o ''j'') ?db1) = Inr ()" by code_simp
  then obtain db' where s: "settle 1 True ''j'' 12 (?o ''j'') ?db1 = (Inr (), db')" by (metis prod.collapse)
  have ok: "billing_ok ?o ?db1" using billing_step_ok [OF step_reserve [of ?o] sample_billing_ok] by simp
  have pre: "has_wallet (?o ''j'') ?db1" "has_entry (business_key RESERVE ''j'' 1) (bl_ledger ?db1)"
    "\<not> has_entry (business_key SETTLE ''j'' 1) (bl_ledger ?db1)" by code_simp+
  have "reserved_for ''j'' 1 ?db1 = 30" "reserved_of ''u'' ?db1 = 30" "available_of ''u'' ?db1 = 70" "booked HOLD ''u'' ?db1 = 0"
    by code_simp+
  with settle_outcome [OF ok s pre] r s show ?thesis by auto
qed

text \<open>A request is charged once: after an available usage record was written for a request key, no
  later record under that key changes the usage table, whatever it claims.\<close>

theorem record_usage_once:
  assumes "recordUsage a cached charged j w p key u db = (Inr (), db')" and "us_status u = AVAILABLE"
  shows "snd (recordUsage a2 cached2 charged2 j2 w2 p2 key u2 db') = db'"
proof -
  obtain ch where "db' = write_usage (new_usage a cached ch j w p key u) db"
    using assms(1) by (auto simp: recordUsage_def Let_def split: option.splits if_splits)
  moreover define new where "new = new_usage a cached ch j w p key u"
  ultimately have new: "ur_requestKey new = key" "ur_status new = AVAILABLE" "db' = write_usage new db"
    using assms(2) by simp_all
  have closed: "ur_status (merge_usage new r) = AVAILABLE" if "ur_requestKey r = key" for r
    using new(1,2) that by (cases "ur_status r") (auto simp: merge_usage_def replaces_def)
  have key: "ur_requestKey (merge_usage new r) = ur_requestKey r" for r by (simp add: merge_usage_def)
  have present: "list_ex (\<lambda>r. ur_requestKey r = key) (bl_usage db')"
    using new(1) by (auto simp: new(3) write_usage_def list_ex_iff key)
  have avail: "ur_status r = AVAILABLE" if "r \<in> set (bl_usage db')" "ur_requestKey r = key" for r
    using that new(1,2) closed by (auto simp: new(3) write_usage_def list_ex_iff key split: if_splits)
  have "write_usage new2 db' = db'" if k: "ur_requestKey new2 = key" for new2
  proof -
    have "merge_usage new2 r = r" if r: "r \<in> set (bl_usage db')" for r
      using avail [OF r] k by (auto simp: merge_usage_def replaces_def)
    then have "map (merge_usage new2) (bl_usage db') = bl_usage db'" by (rule map_idI)
    with present k show ?thesis by (simp add: write_usage_def)
  qed
  then show ?thesis by (simp add: recordUsage_def Let_def split: option.split)
qed

lemma record_usage_once_witness:
  "\<exists>db'. recordUsage 1 False (Some 7) ''j'' ''u'' ''p'' ''k'' \<lparr>us_inputTokens = Some 3, us_outputTokens = Some 2, us_status = AVAILABLE\<rparr> empty_billing = (Inr (), db')
     \<and> snd (recordUsage 1 False (Some 9) ''j'' ''u'' ''p'' ''k'' \<lparr>us_inputTokens = Some 4, us_outputTokens = Some 2, us_status = AVAILABLE\<rparr> db') = db'"
proof -
  let ?u = "\<lparr>us_inputTokens = Some 3, us_outputTokens = Some 2, us_status = AVAILABLE\<rparr>"
  have "fst (recordUsage 1 False (Some 7) ''j'' ''u'' ''p'' ''k'' ?u empty_billing) = Inr ()"
    by (simp add: recordUsage_def as_bigint_def fits_int8_def empty_billing_def Let_def)
  then obtain db' where r: "recordUsage 1 False (Some 7) ''j'' ''u'' ''p'' ''k'' ?u empty_billing = (Inr (), db')"
    by (metis prod.collapse)
  from record_usage_once [OF r] r show ?thesis by auto
qed

end
