(* ===== verification/ModelAccess.thy ===== *)
theory ModelAccess imports Billing ProcessingJobs begin

text \<open>
  Which models an owner may use and where their requests may go: \<open>ai/model-catalog.service.ts\<close>,
  \<open>ai/owner-model-config.service.ts\<close> with \<open>ai/repositories/owner-model-config.repository.ts\<close>, the URL
  check \<open>ai/custom-model-url.validator.ts\<close>, the DNS check \<open>ai/worker-egress-validator.service.ts\<close>, the
  credential cipher \<open>ai/local-credential-cipher.ts\<close>, the resolver that puts them together and the lease
  authority endpoint.

  Parameters: the URL parser and the DNS resolver of the platform, AES-GCM, UTF-8 and base64url of
  node, and the shape of the driver's answer to an UPDATE.
\<close>

section \<open>Numbers read from text\<close>

text \<open>
  \<open>Number(s)\<close> on a string without a full stop, the only ones \<open>split('.')\<close> produces: surrounding white
  space, hexadecimal, octal and binary literals, a sign, \<open>Infinity\<close>, digits with an exponent.  The
  value is the literal's, before it is rounded to a double.
\<close>

definition digit_value :: "char \<Rightarrow> nat option" where
  "digit_value c =
     (let n = (of_char c :: nat) in
      if 48 \<le> n \<and> n \<le> 57 then Some (n - 48)
      else if 97 \<le> n \<and> n \<le> 122 then Some (n - 87)
      else if 65 \<le> n \<and> n \<le> 90 then Some (n - 55)
      else None)"

fun digits_value :: "nat \<Rightarrow> nat \<Rightarrow> string \<Rightarrow> nat option" where
  "digits_value base acc [] = Some acc"
| "digits_value base acc (c # cs) =
     (case digit_value c of
        None \<Rightarrow> None
      | Some d \<Rightarrow> if d < base then digits_value base (acc * base + d) cs else None)"

definition digits_of :: "nat \<Rightarrow> string \<Rightarrow> nat option" where
  "digits_of base s = (if s = [] then None else digits_value base 0 s)"

definition strip_sign :: "string \<Rightarrow> int \<times> string" where
  "strip_sign s = (case s of
       c # cs \<Rightarrow> if c = CHR ''-'' then (- 1, cs) else if c = CHR ''+'' then (1, cs) else (1, s)
     | [] \<Rightarrow> (1, s))"

definition exponent_of :: "string \<Rightarrow> rat option" where
  "exponent_of s =
     (case strip_sign s of
        (sg, ds) \<Rightarrow> map_option (\<lambda>n. if sg = 1 then 10 ^ n else 1 / 10 ^ n) (digits_of 10 ds))"

definition decimal_of :: "string \<Rightarrow> rat option" where
  "decimal_of s =
     (let m = takeWhile (\<lambda>c. c \<noteq> CHR ''e'' \<and> c \<noteq> CHR ''E'') s;
          r = dropWhile (\<lambda>c. c \<noteq> CHR ''e'' \<and> c \<noteq> CHR ''E'') s
      in case digits_of 10 m of
           None \<Rightarrow> None
         | Some n \<Rightarrow> (case r of [] \<Rightarrow> Some (of_nat n) | _ # e \<Rightarrow> map_option (\<lambda>f. of_nat n * f) (exponent_of e)))"

definition js_number :: "string \<Rightarrow> jsnum" where
  "js_number s =
     (let t = js_trim s; num = (\<lambda>b ds. case digits_of b ds of None \<Rightarrow> JNaN | Some n \<Rightarrow> JFin (of_nat n)) in
      if t = [] then JFin 0
      else if take 2 t = ''0x'' \<or> take 2 t = ''0X'' then num 16 (drop 2 t)
      else if take 2 t = ''0o'' \<or> take 2 t = ''0O'' then num 8 (drop 2 t)
      else if take 2 t = ''0b'' \<or> take 2 t = ''0B'' then num 2 (drop 2 t)
      else (case strip_sign t of
              (sg, u) \<Rightarrow>
                if u = ''Infinity'' then (if sg = 1 then JPosInf else JNegInf)
                else (case decimal_of u of None \<Rightarrow> JNaN | Some r \<Rightarrow> JFin (of_int sg * r))))"

section \<open>Addresses\<close>

definition is_octet :: "jsnum \<Rightarrow> bool" where
  "is_octet v \<longleftrightarrow> js_is_integer v \<and> js_less_eq (JFin 0) v \<and> js_less_eq v (JFin 255)"

definition octets_of :: "string \<Rightarrow> jsnum list" where
  "octets_of s = map js_number (split_char (CHR ''.'') s)"

definition isBlockedIpLiteral :: "string \<Rightarrow> bool" where
  "isBlockedIpLiteral hostname =
     (let octets = octets_of hostname in
      if length octets = 4 \<and> list_all is_octet octets
      then (let first = octets ! 0; second = octets ! 1 in
            first = JFin 0 \<or> first = JFin 10 \<or> first = JFin 127 \<or> first = JFin 169 \<and> second = JFin 254 \<or>
            first = JFin 172 \<and> js_less_eq (JFin 16) second \<and> js_less_eq second (JFin 31) \<or>
            first = JFin 192 \<and> second = JFin 168)
      else (let normalized = js_lower hostname in
            normalized = ''::1'' \<or> starts_with ''fe80:'' normalized \<or> starts_with ''fc'' normalized \<or>
            starts_with ''fd'' normalized))"

definition isBlockedAddress :: "string \<Rightarrow> bool" where
  "isBlockedAddress address =
     (let normalized = js_lower address in
      if normalized = ''::1'' \<or> normalized = ''::'' \<or> starts_with ''fe80:'' normalized \<or> starts_with ''fc'' normalized \<or>
         starts_with ''fd'' normalized \<or> starts_with ''ff'' normalized
      then True
      else let octets = octets_of address in
        if length octets \<noteq> 4 \<or> \<not> list_all is_octet octets then False
        else (let first = octets ! 0; second = octets ! 1 in
              first = JFin 0 \<or> first = JFin 10 \<or> first = JFin 127 \<or> js_less_eq (JFin 224) first \<or>
              first = JFin 169 \<and> second = JFin 254 \<or>
              first = JFin 172 \<and> js_less_eq (JFin 16) second \<and> js_less_eq second (JFin 31) \<or>
              first = JFin 192 \<and> second = JFin 168))"

section \<open>URLs of custom models\<close>

text \<open>What \<open>new URL(value)\<close> yields, \<^const>\<open>None\<close> where it throws a TypeError.\<close>

record url_parts =
  url_protocol :: string
  url_username :: string
  url_password :: string
  url_search :: string
  url_hash :: string
  url_hostname :: string
  url_toString :: string

datatype model_error =
    BadRequest string
  | NotFound string
  | EgressError string
  | Unauthorized string
  | ModelDbFailure
  | CipherFailure

definition BLOCKED_HOSTS :: "string list" where
  "BLOCKED_HOSTS = [''localhost'', ''metadata.google.internal'', ''metadata.azure.internal'']"

definition strip_slash :: "string \<Rightarrow> string" where
  "strip_slash s = (if ends_with ''/'' s then butlast s else s)"

definition canonicalizeCustomModelUrl :: "(string \<Rightarrow> url_parts option) \<Rightarrow> string \<Rightarrow> model_error + string" where
  "canonicalizeCustomModelUrl parse value' =
     (case parse value' of
        None \<Rightarrow> Inl (BadRequest ''Custom model URL must be an absolute HTTPS URL'')
      | Some url \<Rightarrow>
          if url_protocol url \<noteq> ''https:'' \<or> url_username url \<noteq> [] \<or> url_password url \<noteq> [] \<or> url_search url \<noteq> []
             \<or> url_hash url \<noteq> []
          then Inl (BadRequest ''Custom model URL must be HTTPS without credentials, query, or fragment'')
          else if js_lower (url_hostname url) \<in> set BLOCKED_HOSTS \<or> isBlockedIpLiteral (url_hostname url)
          then Inl (BadRequest ''Custom model URL host is not permitted'')
          else Inr (strip_slash (url_toString url)))"

text \<open>
  The two lookups of the egress check, in their order; \<open>sort()\<close> compares strings by code units.
\<close>

definition validateEgress :: "string list \<Rightarrow> string list \<Rightarrow> model_error + unit" where
  "validateEgress first second =
     (let firstAddresses = sort first; secondAddresses = sort second in
      if firstAddresses = [] \<or> join_with '','' firstAddresses \<noteq> join_with '','' secondAddresses
      then Inl (EgressError ''Custom model host DNS resolution is unstable'')
      else if list_ex isBlockedAddress firstAddresses
      then Inl (EgressError ''Custom model host resolves to a prohibited network'')
      else Inr ())"

section \<open>Credentials\<close>

text \<open>The primitives of node the cipher is built from; \<open>gcm_open\<close> is \<^const>\<open>None\<close> when \<open>final()\<close> throws.\<close>

type_synonym bytes = "8 word list"

record crypto =
  cr_utf8 :: "string \<Rightarrow> bytes"
  cr_utf8_decode :: "bytes \<Rightarrow> string"
  cr_seal :: "bytes \<Rightarrow> bytes \<Rightarrow> bytes \<Rightarrow> bytes \<times> bytes"
  cr_open :: "bytes \<Rightarrow> bytes \<Rightarrow> bytes \<Rightarrow> bytes \<Rightarrow> bytes option"
  cr_base64url :: "bytes \<Rightarrow> string"
  cr_from_base64url :: "string \<Rightarrow> bytes"

definition AUTH_TAG_BYTES :: nat where "AUTH_TAG_BYTES = 16"
definition IV_BYTES :: nat where "IV_BYTES = 12"

definition encrypt :: "crypto \<Rightarrow> bytes \<Rightarrow> bytes \<Rightarrow> string \<Rightarrow> string" where
  "encrypt cr key iv plaintext =
     (let (ciphertext, authTag) = cr_seal cr key iv (cr_utf8 cr plaintext)
      in cr_base64url cr (iv @ authTag @ ciphertext))"

definition decrypt :: "crypto \<Rightarrow> bytes \<Rightarrow> string \<Rightarrow> model_error + string" where
  "decrypt cr key value' =
     (let encrypted = cr_from_base64url cr value';
          iv = slice 0 IV_BYTES encrypted;
          authTag = slice IV_BYTES (IV_BYTES + AUTH_TAG_BYTES) encrypted;
          ciphertext = drop (IV_BYTES + AUTH_TAG_BYTES) encrypted
      in case cr_open cr key iv authTag ciphertext of
           None \<Rightarrow> Inl CipherFailure
         | Some plain \<Rightarrow> Inr (cr_utf8_decode cr plain))"

section \<open>Configurations of an owner\<close>

datatype llm_transport = ResponsesTransport | ChatCompletionsTransport
datatype output_mode = JsonObject | JsonSchemaStrict

record model_config_row =
  mc_id :: string
  mc_ownerId :: string
  mc_displayName :: string
  mc_baseUrl :: string
  mc_model :: string
  mc_capabilityVersion :: string
  mc_transport :: llm_transport
  mc_structuredOutputMode :: output_mode
  mc_apiKeyCiphertext :: string
  mc_isActive :: bool
  mc_createdAt :: int

record create_custom_model =
  cm_displayName :: string
  cm_baseUrl :: string
  cm_model :: string
  cm_capabilityVersion :: string
  cm_transport :: llm_transport
  cm_structuredOutputMode :: output_mode
  cm_apiKey :: "string option"

record public_model =
  pub_id :: string
  pub_kind :: selection_kind
  pub_label :: string

record plan_model =
  pl_creditPerInputToken :: rat
  pl_creditPerOutputToken :: rat
  pl_id :: string
  pl_label :: string
  pl_model :: string
  pl_planIds :: "string list"

record model_db =
  md_billing :: billing_db
  md_configs :: "model_config_row list"

definition isNonBlankString :: "string \<Rightarrow> bool" where
  "isNonBlankString s \<longleftrightarrow> 0 < length (js_trim s)"

definition check_custom_model :: "create_custom_model \<Rightarrow> bool" where
  "check_custom_model dto \<longleftrightarrow>
     isNonBlankString (cm_displayName dto) \<and> length (cm_displayName dto) \<le> 120 \<and> isNonBlankString (cm_baseUrl dto) \<and>
     isNonBlankString (cm_model dto) \<and> length (cm_model dto) \<le> 255 \<and>
     isNonBlankString (cm_capabilityVersion dto) \<and> length (cm_capabilityVersion dto) \<le> 100"

definition model_config_ok :: "model_config_row \<Rightarrow> bool" where
  "model_config_ok r \<longleftrightarrow>
     nonblank (mc_displayName r) \<and> length (mc_displayName r) \<le> 120 \<and> nonblank (mc_baseUrl r) \<and>
     nonblank (mc_model r) \<and> length (mc_model r) \<le> 255 \<and> nonblank (mc_capabilityVersion r) \<and>
     length (mc_capabilityVersion r) \<le> 100 \<and> nonblank (mc_apiKeyCiphertext r)"

definition new_config :: "string \<Rightarrow> int \<Rightarrow> string \<Rightarrow> string \<Rightarrow> string \<Rightarrow> create_custom_model \<Rightarrow> model_config_row" where
  "new_config newId now ownerId baseUrl ciphertext dto =
     \<lparr>mc_id = newId, mc_ownerId = ownerId, mc_displayName = cm_displayName dto, mc_baseUrl = baseUrl,
      mc_model = cm_model dto, mc_capabilityVersion = cm_capabilityVersion dto, mc_transport = cm_transport dto,
      mc_structuredOutputMode = cm_structuredOutputMode dto, mc_apiKeyCiphertext = ciphertext,
      mc_isActive = True, mc_createdAt = now\<rparr>"

lemma new_config_simps [simp]:
  "mc_id (new_config i t w b ct dto) = i" "mc_ownerId (new_config i t w b ct dto) = w"
  "mc_baseUrl (new_config i t w b ct dto) = b" "mc_isActive (new_config i t w b ct dto)"
  "mc_apiKeyCiphertext (new_config i t w b ct dto) = ct" "mc_model (new_config i t w b ct dto) = cm_model dto"
  by (simp_all add: new_config_def)

definition config_create ::
  "string \<Rightarrow> int \<Rightarrow> string \<Rightarrow> string \<Rightarrow> string \<Rightarrow> create_custom_model \<Rightarrow> model_db \<Rightarrow> (model_error + string) \<times> model_db" where
  "config_create newId now ownerId baseUrl ciphertext dto db =
     (let r = new_config newId now ownerId baseUrl ciphertext dto
      in if model_config_ok r \<and> newId \<notin> mc_id ` set (md_configs db)
         then (Inr newId, db\<lparr>md_configs := md_configs db @ [r]\<rparr>) else (Inl ModelDbFailure, db))"

definition findActiveForOwner :: "string \<Rightarrow> string \<Rightarrow> model_db \<Rightarrow> model_config_row option" where
  "findActiveForOwner ownerId id' db =
     List.find (\<lambda>r. mc_id r = id' \<and> mc_ownerId r = ownerId \<and> mc_isActive r) (md_configs db)"

definition config_listForOwner :: "string \<Rightarrow> model_db \<Rightarrow> public_model list" where
  "config_listForOwner ownerId db =
     map (\<lambda>r. \<lparr>pub_id = mc_id r, pub_kind = CUSTOM, pub_label = mc_displayName r\<rparr>)
       (sort_key (\<lambda>r. - mc_createdAt r) (filter (\<lambda>r. mc_ownerId r = ownerId \<and> mc_isActive r) (md_configs db)))"

text \<open>
  \<open>revoke\<close> reads the \<open>length\<close> of the answer to its UPDATE.  TypeORM answers the pair of rows and
  count, whose length is always 2; an answer of the rows alone has their number.
\<close>

definition pair_length :: "nat \<Rightarrow> nat" where
  "pair_length rows = 2"

definition rows_length :: "nat \<Rightarrow> nat" where
  "rows_length rows = rows"

definition config_revoke :: "(nat \<Rightarrow> nat) \<Rightarrow> string \<Rightarrow> string \<Rightarrow> model_db \<Rightarrow> bool \<times> model_db" where
  "config_revoke answer_length ownerId id' db =
     (let sel = (\<lambda>r. mc_id r = id' \<and> mc_ownerId r = ownerId \<and> mc_isActive r)
      in (answer_length (length (filter sel (md_configs db))) = 1,
          db\<lparr>md_configs := map (\<lambda>r. if sel r then r\<lparr>mc_isActive := False\<rparr> else r) (md_configs db)\<rparr>))"

definition createCustom ::
  "(string \<Rightarrow> url_parts option) \<Rightarrow> crypto \<Rightarrow> bytes \<Rightarrow> bytes \<Rightarrow> string \<Rightarrow> int \<Rightarrow> string \<Rightarrow> create_custom_model \<Rightarrow> model_db
     \<Rightarrow> (model_error + public_model) \<times> model_db" where
  "createCustom parse cr key iv newId now ownerId dto db =
     (case canonicalizeCustomModelUrl parse (cm_baseUrl dto) of
        Inl e \<Rightarrow> (Inl e, db)
      | Inr baseUrl \<Rightarrow>
          (case config_create newId now ownerId baseUrl
                  (encrypt cr key iv (case cm_apiKey dto of None \<Rightarrow> [] | Some k \<Rightarrow> k)) dto db of
             (Inl e, db') \<Rightarrow> (Inl e, db')
           | (Inr i, db') \<Rightarrow> (Inr \<lparr>pub_id = i, pub_kind = CUSTOM, pub_label = cm_displayName dto\<rparr>, db')))"

definition revokeCustom :: "(nat \<Rightarrow> nat) \<Rightarrow> string \<Rightarrow> string \<Rightarrow> model_db \<Rightarrow> (model_error + unit) \<times> model_db" where
  "revokeCustom answer_length ownerId id' db =
     (case config_revoke answer_length ownerId id' db of
        (ok, db') \<Rightarrow> (if ok then Inr () else Inl (NotFound (''Custom model '' @ id' @ '' not found'')), db'))"

section \<open>Catalog\<close>

definition listForOwner :: "plan_model list \<Rightarrow> int \<Rightarrow> string \<Rightarrow> model_db \<Rightarrow> public_model list \<times> model_db" where
  "listForOwner platformModels freeCredits ownerId db =
     (case findOrCreate ownerId freeCredits (md_billing db) of
        (planId, b) \<Rightarrow>
          (map (\<lambda>m. \<lparr>pub_id = pl_id m, pub_kind = PLAN, pub_label = pl_label m\<rparr>)
             (filter (\<lambda>m. planId \<in> set (pl_planIds m)) platformModels)
           @ config_listForOwner ownerId db, db\<lparr>md_billing := b\<rparr>))"

definition resolvePlan :: "plan_model list \<Rightarrow> int \<Rightarrow> string \<Rightarrow> string \<Rightarrow> model_db \<Rightarrow> plan_model option \<times> model_db" where
  "resolvePlan platformModels freeCredits ownerId modelId db =
     (case findOrCreate ownerId freeCredits (md_billing db) of
        (planId, b) \<Rightarrow>
          (List.find (\<lambda>m. pl_id m = modelId \<and> planId \<in> set (pl_planIds m)) platformModels, db\<lparr>md_billing := b\<rparr>))"

section \<open>Resolving a custom model for the worker\<close>

record provider_settings =
  ps_apiKey :: string
  ps_baseUrl :: string
  ps_capabilityVersion :: string
  ps_model :: string
  ps_structuredOutputMode :: output_mode
  ps_transport :: llm_transport

text \<open>\<open>lookup\<close> gives the answers of the two DNS queries for a host name.\<close>

definition resolveCustom ::
  "(string \<Rightarrow> url_parts option) \<Rightarrow> (string \<Rightarrow> string list \<times> string list) \<Rightarrow> crypto \<Rightarrow> bytes \<Rightarrow> string \<Rightarrow> string \<Rightarrow> model_db
     \<Rightarrow> model_error + provider_settings" where
  "resolveCustom parse lookup cr key ownerId id' db =
     (case findActiveForOwner ownerId id' db of
        None \<Rightarrow> Inl (NotFound ''Custom model configuration is unavailable'')
      | Some config \<Rightarrow>
          (case parse (mc_baseUrl config) of
             None \<Rightarrow> Inl (BadRequest ''Invalid URL'')
           | Some url \<Rightarrow>
               and_then (case lookup (url_hostname url) of (first, second) \<Rightarrow> validateEgress first second) (\<lambda>_.
               and_then (decrypt cr key (mc_apiKeyCiphertext config)) (\<lambda>apiKey.
               Inr \<lparr>ps_apiKey = apiKey, ps_baseUrl = mc_baseUrl config, ps_capabilityVersion = mc_capabilityVersion config,
                    ps_model = mc_model config, ps_structuredOutputMode = mc_structuredOutputMode config,
                    ps_transport = mc_transport config\<rparr>))))"

section \<open>Lease authority\<close>

text \<open>\<open>split(', ')\<close> of a subject alternative name.\<close>

fun split_comma_blank :: "string \<Rightarrow> string list" where
  "split_comma_blank [] = [[]]"
| "split_comma_blank [c] = [[c]]"
| "split_comma_blank (c # d # cs) =
     (if c = CHR '','' \<and> d = CHR '' '' then [] # split_comma_blank cs
      else (case split_comma_blank (d # cs) of [] \<Rightarrow> [[c]] | w # ws \<Rightarrow> (c # w) # ws))"

definition canActivate :: "string \<Rightarrow> bool \<Rightarrow> string option \<Rightarrow> model_error + bool" where
  "canActivate expectedClientSpiffeUri authorized subjectaltname =
     (if \<not> authorized then Inl (Unauthorized ''Verified client certificate is required'')
      else if (''URI:'' @ expectedClientSpiffeUri) \<notin> set (case subjectaltname of None \<Rightarrow> [] | Some s \<Rightarrow> split_comma_blank s)
      then Inl (Unauthorized ''Client certificate identity is not authorized'')
      else Inr True)"

definition validate_lease :: "job_attempt \<Rightarrow> bool" where
  "validate_lease request = False"

definition validate_lease_endpoint :: "string \<Rightarrow> bool \<Rightarrow> string option \<Rightarrow> job_attempt \<Rightarrow> model_error + bool" where
  "validate_lease_endpoint uri authorized san request =
     and_then (canActivate uri authorized san) (\<lambda>_. Inr (validate_lease request))"

section \<open>Reading octets\<close>

lemma digit_value_digit [simp]: "d < 10 \<Longrightarrow> digit_value (digit_char d) = Some d"
  by (simp add: digit_value_def Let_def digit_char_code)

lemma digits_value_append:
  "digits_value b acc (xs @ ys) = (case digits_value b acc xs of None \<Rightarrow> None | Some n \<Rightarrow> digits_value b n ys)"
  by (induction b acc xs rule: digits_value.induct) (auto split: option.split)

lemma digits_value_nat_str: "digits_value 10 acc (nat_str n) = Some (acc * 10 ^ length (nat_str n) + n)"
proof (induction n arbitrary: acc rule: nat_str.induct)
  case (1 n)
  show ?case
  proof (cases "n < 10")
    case True
    then show ?thesis by (simp add: nat_str.simps [of n])
  next
    case False
    have "(acc * 10 ^ length (nat_str (n div 10)) + n div 10) * 10 + n mod 10
        = acc * 10 ^ (length (nat_str (n div 10)) + 1) + n"
      by (simp add: algebra_simps)
    with 1 [OF False, of acc] False show ?thesis
      by (simp add: nat_str.simps [of n] digits_value_append)
  qed
qed

lemma digits_of_nat_str [simp]: "digits_of 10 (nat_str n) = Some n"
  by (simp add: digits_of_def digits_value_nat_str)

lemma nat_str_char: "c \<in> set (nat_str n) \<Longrightarrow> 48 \<le> (of_char c :: nat) \<and> (of_char c :: nat) \<le> 57"
  using nat_str_digits [of c n] digit_char_code by fastforce

lemma char_ne_by_code: "48 \<le> (of_char c :: nat) \<and> (of_char c :: nat) \<le> 57 \<Longrightarrow> \<not> (48 \<le> (of_char d :: nat) \<and> (of_char d :: nat) \<le> 57) \<Longrightarrow> c \<noteq> d"
  by auto

lemma nat_str_notin [simp]:
  "CHR ''e'' \<notin> set (nat_str n)" "CHR ''E'' \<notin> set (nat_str n)" "CHR ''.'' \<notin> set (nat_str n)"
  "CHR ''-'' \<notin> set (nat_str n)" "CHR ''+'' \<notin> set (nat_str n)" "CHR '':'' \<notin> set (nat_str n)" "CHR ''x'' \<notin> set (nat_str n)"
  "CHR ''X'' \<notin> set (nat_str n)" "CHR ''o'' \<notin> set (nat_str n)" "CHR ''O'' \<notin> set (nat_str n)" "CHR ''b'' \<notin> set (nat_str n)"
  "CHR ''B'' \<notin> set (nat_str n)" "CHR ''I'' \<notin> set (nat_str n)"
  using nat_str_char by (fastforce dest: nat_str_char)+

lemma nat_str_no_ws: "c \<in> set (nat_str n) \<Longrightarrow> \<not> is_ws c"
  using nat_str_char [of c n] by (auto simp: is_ws_def)

lemma dropWhile_none: "\<forall>c\<in>set xs. \<not> P c \<Longrightarrow> dropWhile P xs = xs"
  by (cases xs) auto

lemma js_trim_nat_str [simp]: "js_trim (nat_str n) = nat_str n"
proof -
  have "\<forall>c\<in>set (nat_str n). \<not> is_ws c" using nat_str_no_ws by blast
  then have "dropWhile is_ws (nat_str n) = nat_str n" "dropWhile is_ws (rev (nat_str n)) = rev (nat_str n)"
    by (simp_all add: dropWhile_none)
  then show ?thesis by (simp add: js_trim_def)
qed

lemma take2_notin: "d \<notin> set s \<Longrightarrow> take 2 s \<noteq> [c, d]"
  using in_set_takeD [of d 2 s] by auto

lemma js_number_nat_str [simp]: "js_number (nat_str n) = JFin (of_nat n)"
proof -
  have all: "\<forall>c\<in>set (nat_str n). c \<noteq> CHR ''e'' \<and> c \<noteq> CHR ''E''"
    using nat_str_notin [of n] by metis
  have tw: "takeWhile (\<lambda>c. c \<noteq> CHR ''e'' \<and> c \<noteq> CHR ''E'') (nat_str n) = nat_str n"
    "dropWhile (\<lambda>c. c \<noteq> CHR ''e'' \<and> c \<noteq> CHR ''E'') (nat_str n) = []"
    using all by (simp_all add: takeWhile_eq_all_conv dropWhile_eq_Nil_conv)
  have sign: "strip_sign (nat_str n) = (1, nat_str n)"
    using nat_str_notin(4,5) [of n] by (cases "nat_str n") (auto simp: strip_sign_def)
  have inf: "nat_str n \<noteq> ''Infinity''"
    using nat_str_notin(13) [of n] by (metis list.set_intros(1))
  have no: "take 2 (nat_str n) \<noteq> [c, d]" if "d \<in> {CHR ''x'', CHR ''X'', CHR ''o'', CHR ''O'', CHR ''b'', CHR ''B''}" for c d
    using that by (intro take2_notin) auto
  show ?thesis
    unfolding js_number_def Let_def
    by (simp add: no sign inf decimal_of_def Let_def tw)
qed

lemma split_char_append: "c \<notin> set x \<Longrightarrow> split_char c (x @ c # rest) = x # split_char c rest"
  by (induction x) auto

lemma split_char_none: "c \<notin> set x \<Longrightarrow> split_char c x = [x]"
  by (induction x) auto

definition dotted :: "nat \<Rightarrow> nat \<Rightarrow> nat \<Rightarrow> nat \<Rightarrow> string" where
  "dotted a b c d = nat_str a @ CHR ''.'' # nat_str b @ CHR ''.'' # nat_str c @ CHR ''.'' # nat_str d"

lemma octets_of_dotted: "octets_of (dotted a b c d) = [JFin (of_nat a), JFin (of_nat b), JFin (of_nat c), JFin (of_nat d)]"
  by (simp add: octets_of_def dotted_def split_char_append split_char_none)

text \<open>The prohibited networks, as address and prefix length.\<close>

definition ipv4 :: "nat \<Rightarrow> nat \<Rightarrow> nat \<Rightarrow> nat \<Rightarrow> nat" where
  "ipv4 a b c d = a * 2 ^ 24 + b * 2 ^ 16 + c * 2 ^ 8 + d"

definition in_network :: "nat \<Rightarrow> nat \<times> nat \<Rightarrow> bool" where
  "in_network address net = (address div 2 ^ (32 - snd net) = fst net div 2 ^ (32 - snd net))"

definition prohibited_networks :: "(nat \<times> nat) list" where
  "prohibited_networks =
     [(ipv4 0 0 0 0, 8), (ipv4 10 0 0 0, 8), (ipv4 127 0 0 0, 8), (ipv4 224 0 0 0, 3), (ipv4 169 254 0 0, 16),
      (ipv4 172 16 0 0, 12), (ipv4 192 168 0 0, 16)]"

lemma div_mult_self_lt: "r < (k::nat) \<Longrightarrow> (q * k + r) div k = q"
  by simp

lemma ipv4_div:
  assumes "b \<le> 255" and "c \<le> 255" and "d \<le> 255"
  shows "ipv4 a b c d div 16777216 = a" and "ipv4 a b c d div 65536 = a * 256 + b"
    and "ipv4 a b c d div 1048576 = a * 16 + b div 16" and "ipv4 a b c d div 536870912 = a div 32"
proof -
  have low: "c * 256 + d < 65536" using assms by simp
  have mid: "b * 65536 + (c * 256 + d) < 16777216" using assms by simp
  have e: "ipv4 a b c d = a * 16777216 + (b * 65536 + (c * 256 + d))" by (simp add: ipv4_def)
  have e2: "ipv4 a b c d = (a * 256 + b) * 65536 + (c * 256 + d)" by (simp add: ipv4_def)
  show one: "ipv4 a b c d div 16777216 = a" unfolding e using mid by (rule div_mult_self_lt)
  show two: "ipv4 a b c d div 65536 = a * 256 + b" unfolding e2 using low by (rule div_mult_self_lt)
  have "ipv4 a b c d div 1048576 = ipv4 a b c d div 65536 div 16" by (simp add: div_mult2_eq [symmetric])
  then show "ipv4 a b c d div 1048576 = a * 16 + b div 16" unfolding two by simp
  have "ipv4 a b c d div 536870912 = ipv4 a b c d div 16777216 div 32" by (simp add: div_mult2_eq [symmetric])
  then show "ipv4 a b c d div 536870912 = a div 32" unfolding one .
qed

lemma pair_digits: "b < k \<Longrightarrow> y < k \<Longrightarrow> (a * k + b = x * k + y) = (a = x \<and> b = (y::nat))"
  by (metis div_mult_self_lt add_left_cancel)

lemma prohibited_iff:
  assumes "a \<le> 255" "b \<le> 255" and "c \<le> 255" and "d \<le> 255"
  shows "list_ex (in_network (ipv4 a b c d)) prohibited_networks \<longleftrightarrow>
    a = 0 \<or> a = 10 \<or> a = 127 \<or> 224 \<le> a \<or> a = 169 \<and> b = 254 \<or> a = 172 \<and> 16 \<le> b \<and> b \<le> 31 \<or> a = 192 \<and> b = 168"
proof -
  have n: "in_network (ipv4 a b c d) (ipv4 x 0 0 0, 8) \<longleftrightarrow> a = x" for x
    unfolding in_network_def using assms ipv4_div(1) [of b c d a] ipv4_div(1) [of 0 0 0 x] by simp
  have m: "in_network (ipv4 a b c d) (ipv4 x y 0 0, 16) \<longleftrightarrow> a = x \<and> b = y" if "y \<le> 255" for x y
  proof -
    have "a * 256 + b = x * 256 + y \<longleftrightarrow> a = x \<and> b = y" using assms(2) that by (intro pair_digits) simp_all
    then show ?thesis
      unfolding in_network_def using assms that ipv4_div(2) [of b c d a] ipv4_div(2) [of y 0 0 x] by simp
  qed
  have p: "in_network (ipv4 a b c d) (ipv4 172 16 0 0, 12) \<longleftrightarrow> a = 172 \<and> 16 \<le> b \<and> b \<le> 31"
  proof -
    have "a * 16 + b div 16 = 172 * 16 + 16 div 16 \<longleftrightarrow> a = 172 \<and> b div 16 = 16 div 16"
      using assms(2) by (intro pair_digits) simp_all
    also have "b div 16 = 16 div 16 \<longleftrightarrow> 16 \<le> b \<and> b \<le> 31" by auto
    finally have "a * 16 + b div 16 = 172 * 16 + 16 div 16 \<longleftrightarrow> a = 172 \<and> 16 \<le> b \<and> b \<le> 31" .
    then show ?thesis
      unfolding in_network_def using assms ipv4_div(3) [of b c d a] ipv4_div(3) [of 16 0 0 172] by simp
  qed
  have q: "in_network (ipv4 a b c d) (ipv4 224 0 0 0, 3) \<longleftrightarrow> 224 \<le> a"
  proof -
    have "a div 32 = 224 div 32 \<longleftrightarrow> 224 \<le> a" using assms(1) by auto
    then show ?thesis
      unfolding in_network_def using assms ipv4_div(4) [of b c d a] ipv4_div(4) [of 0 0 0 224] by simp
  qed
  show ?thesis by (simp add: prohibited_networks_def n m p q)
qed

lemma dotted_head: "\<exists>x xs. dotted a b c d = x # xs \<and> 48 \<le> (of_char x :: nat) \<and> (of_char x :: nat) \<le> 57"
proof -
  obtain x xs where x: "nat_str a = x # xs" by (cases "nat_str a") auto
  then have "x \<in> set (nat_str a)" by simp
  then have "48 \<le> (of_char x :: nat) \<and> (of_char x :: nat) \<le> 57" by (rule nat_str_char)
  moreover have "dotted a b c d = x # (xs @ CHR ''.'' # nat_str b @ CHR ''.'' # nat_str c @ CHR ''.'' # nat_str d)"
    by (simp add: dotted_def x)
  ultimately show ?thesis by blast
qed

lemma js_lower_dotted:
  "\<not> (js_lower (dotted a b c d) = ''::1'' \<or> js_lower (dotted a b c d) = ''::'' \<or> starts_with ''fe80:'' (js_lower (dotted a b c d))
    \<or> starts_with ''fc'' (js_lower (dotted a b c d)) \<or> starts_with ''fd'' (js_lower (dotted a b c d))
    \<or> starts_with ''ff'' (js_lower (dotted a b c d)))"
proof -
  obtain x xs where x: "dotted a b c d = x # xs" "48 \<le> (of_char x :: nat)" "(of_char x :: nat) \<le> 57"
    using dotted_head by blast
  have "char_lower x = x" using x(2,3) by (simp add: char_lower_def)
  moreover have "x \<noteq> CHR '':''" "x \<noteq> CHR ''f''" using x(2,3) by auto
  ultimately show ?thesis by (simp add: x(1) js_lower_def starts_with_def)
qed

text \<open>The egress check on IPv4: a dotted address is refused exactly when it lies in one of the
  prohibited networks (this host, private, loopback, link-local, multicast and above), read as
  prefixes of the 32-bit address.\<close>

theorem egress_blocks_private_networks:
  assumes "a \<le> 255" and "b \<le> 255" and "c \<le> 255" and "d \<le> 255"
  shows "isBlockedAddress (dotted a b c d) \<longleftrightarrow> list_ex (in_network (ipv4 a b c d)) prohibited_networks"
proof -
  have "js_is_integer (JFin (of_nat n))" for n using js_is_integer_of_int [of "int n"] by simp
  then have oct: "is_octet (JFin (of_nat n)) \<longleftrightarrow> n \<le> 255" for n by (simp add: is_octet_def)
  show ?thesis
    using assms
    by (simp add: isBlockedAddress_def Let_def js_lower_dotted octets_of_dotted oct prohibited_iff)
qed

lemma egress_blocks_private_networks_witness:
  "isBlockedAddress (dotted 172 20 0 1) \<and> \<not> isBlockedAddress (dotted 172 32 0 1)"
  using egress_blocks_private_networks [of 172 20 0 1] egress_blocks_private_networks [of 172 32 0 1]
  by (simp add: prohibited_iff)

text \<open>The literal and DNS checks miss loopback in two spellings: an IPv4-mapped IPv6 answer passes the
  egress check that refuses the same IPv4 address, and the host of \<open>https://[::1]/\<close>, which the URL
  parser writes with brackets, passes the check meant to refuse \<open>::1\<close>; a public domain beginning
  with \<open>fc\<close> is refused instead.\<close>

theorem loopback_spellings_pass:
  "validateEgress [''127.0.0.1''] [''127.0.0.1''] = Inl (EgressError ''Custom model host resolves to a prohibited network'')
   \<and> validateEgress [''::ffff:127.0.0.1''] [''::ffff:127.0.0.1''] = Inr ()
   \<and> canonicalizeCustomModelUrl (\<lambda>_. Some \<lparr>url_protocol = ''https:'', url_username = [], url_password = [], url_search = [],
        url_hash = [], url_hostname = ''[::1]'', url_toString = ''https://[::1]/''\<rparr>) ''https://[::1]/'' = Inr ''https://[::1]''
   \<and> isBlockedIpLiteral ''fcb.example.com''"
proof -
  have b: "isBlockedAddress ''127.0.0.1''" "\<not> isBlockedAddress ''::ffff:127.0.0.1''"
    "\<not> isBlockedIpLiteral ''[::1]''" "isBlockedIpLiteral ''fcb.example.com''" "js_lower ''[::1]'' \<notin> set BLOCKED_HOSTS"
    by code_simp+
  have s: "strip_slash ''https://[::1]/'' = ''https://[::1]''" by code_simp
  show ?thesis using b s by (simp add: validateEgress_def canonicalizeCustomModelUrl_def)
qed

section \<open>Life of a custom model\<close>

text \<open>The documented behaviour of the primitives the cipher relies on.\<close>

definition crypto_ok :: "crypto \<Rightarrow> bool" where
  "crypto_ok cr \<longleftrightarrow>
     (\<forall>s. cr_utf8_decode cr (cr_utf8 cr s) = s) \<and> (\<forall>b. cr_from_base64url cr (cr_base64url cr b) = b) \<and>
     (\<forall>k iv m c t. cr_seal cr k iv m = (c, t) \<longrightarrow> length t = AUTH_TAG_BYTES \<and> cr_open cr k iv t c = Some m)"

lemma decrypt_encrypt:
  assumes "crypto_ok cr" and "length iv = IV_BYTES"
  shows "decrypt cr key (encrypt cr key iv s) = Inr s"
proof -
  obtain c t where ct: "cr_seal cr key iv (cr_utf8 cr s) = (c, t)" by fastforce
  with assms(1) have "length t = AUTH_TAG_BYTES" "cr_open cr key iv t c = Some (cr_utf8 cr s)"
    unfolding crypto_ok_def by blast+
  with assms ct show ?thesis by (simp add: decrypt_def encrypt_def Let_def slice_def crypto_ok_def)
qed

lemma find_deactivated:
  "List.find (\<lambda>r. mc_id r = i \<and> mc_ownerId r = w \<and> mc_isActive r)
     (map (\<lambda>r. if mc_id r = i \<and> mc_ownerId r = w \<and> mc_isActive r then r\<lparr>mc_isActive := False\<rparr> else r) rs) = None"
  by (induction rs) simp_all

lemma revoked_not_found: "findActiveForOwner w i (snd (config_revoke al w i db)) = None"
  by (simp only: findActiveForOwner_def config_revoke_def Let_def snd_conv model_db.simps find_deactivated)
    (simp add: find_deactivated)

lemma createCustom_Inr:
  assumes "createCustom parse cr key iv newId now w dto db = (Inr pm, db')"
  obtains u where "canonicalizeCustomModelUrl parse (cm_baseUrl dto) = Inr u"
    "db' = db\<lparr>md_configs := md_configs db @
       [new_config newId now w u (encrypt cr key iv (case cm_apiKey dto of None \<Rightarrow> [] | Some k \<Rightarrow> k)) dto]\<rparr>"
    "newId \<notin> mc_id ` set (md_configs db)"
  using assms by (auto simp: createCustom_def config_create_def Let_def split: sum.splits prod.splits if_splits)

text \<open>A custom model lives for its owner alone and until it is revoked: after it was created, resolving
  it (with a host that passes the egress check) hands the worker exactly the API key given, no
  other owner can resolve it, and once revoked nobody can.\<close>

theorem custom_model_lifecycle:
  assumes "crypto_ok cr" and "length iv = IV_BYTES"
    and "createCustom parse cr key iv newId now w dto db = (Inr pm, db')"
    and "\<And>u. canonicalizeCustomModelUrl parse (cm_baseUrl dto) = Inr u \<Longrightarrow>
      \<exists>url. parse u = Some url \<and> (case lookup (url_hostname url) of (f, s) \<Rightarrow> validateEgress f s = Inr ())"
  shows "(\<exists>ps. resolveCustom parse lookup cr key w newId db' = Inr ps
        \<and> ps_apiKey ps = (case cm_apiKey dto of None \<Rightarrow> [] | Some k \<Rightarrow> k) \<and> ps_model ps = cm_model dto)
    \<and> (v \<noteq> w \<longrightarrow> resolveCustom parse lookup cr key v newId db' = Inl (NotFound ''Custom model configuration is unavailable''))
    \<and> resolveCustom parse lookup cr key w newId (snd (config_revoke answer_length w newId db'))
        = Inl (NotFound ''Custom model configuration is unavailable'')"
proof -
  obtain u where u: "canonicalizeCustomModelUrl parse (cm_baseUrl dto) = Inr u"
    "db' = db\<lparr>md_configs := md_configs db @
       [new_config newId now w u (encrypt cr key iv (case cm_apiKey dto of None \<Rightarrow> [] | Some k \<Rightarrow> k)) dto]\<rparr>"
    "newId \<notin> mc_id ` set (md_configs db)"
    by (rule createCustom_Inr [OF assms(3)])
  define r where "r = new_config newId now w u (encrypt cr key iv (case cm_apiKey dto of None \<Rightarrow> [] | Some k \<Rightarrow> k)) dto"
  have r: "md_configs db' = md_configs db @ [r]" "mc_id r = newId" "mc_ownerId r = w" "mc_isActive r"
    "mc_apiKeyCiphertext r = encrypt cr key iv (case cm_apiKey dto of None \<Rightarrow> [] | Some k \<Rightarrow> k)"
    "canonicalizeCustomModelUrl parse (cm_baseUrl dto) = Inr (mc_baseUrl r)" "mc_model r = cm_model dto"
    "newId \<notin> mc_id ` set (md_configs db)"
    using u by (simp_all add: r_def)
  from assms(4) [OF r(6)] obtain url where url1: "parse (mc_baseUrl r) = Some url
    \<and> (case lookup (url_hostname url) of (f, s) \<Rightarrow> validateEgress f s = Inr ())" ..
  obtain f s where fs: "lookup (url_hostname url) = (f, s)" by fastforce
  with url1 have url: "parse (mc_baseUrl r) = Some url" "lookup (url_hostname url) = (f, s)"
    "validateEgress f s = Inr ()" by simp_all
  have none: "List.find (\<lambda>x. mc_id x = newId \<and> mc_ownerId x = v \<and> mc_isActive x) (md_configs db) = None" for v
    using r(8) by (intro find_NoneI) auto
  have own: "findActiveForOwner w newId db' = Some r"
    by (simp add: findActiveForOwner_def r(1) find_append none r(2-4))
  have other: "findActiveForOwner v newId db' = None" if "v \<noteq> w"
    using that by (simp add: findActiveForOwner_def r(1) find_append none r(2-4))
  have gone: "findActiveForOwner w newId (snd (config_revoke answer_length w newId db')) = None"
    by (rule revoked_not_found)
  show ?thesis
    using own url other gone decrypt_encrypt [OF assms(1,2)]
    by (simp add: resolveCustom_def r(5,7))
qed

definition byte_of :: "char \<Rightarrow> 8 word" where
  "byte_of c = of_nat (of_char c)"

definition char_of_byte :: "8 word \<Rightarrow> char" where
  "char_of_byte w = char_of (unat w)"

definition sample_crypto :: crypto where
  "sample_crypto =
     \<lparr>cr_utf8 = map byte_of, cr_utf8_decode = map char_of_byte, cr_seal = (\<lambda>k iv m. (m, replicate 16 0)),
      cr_open = (\<lambda>k iv t c. if t = replicate 16 0 then Some c else None),
      cr_base64url = map char_of_byte, cr_from_base64url = map byte_of\<rparr>"

definition sample_url :: "string \<Rightarrow> url_parts option" where
  "sample_url s = Some \<lparr>url_protocol = ''https:'', url_username = [], url_password = [], url_search = [], url_hash = [],
     url_hostname = ''m.example'', url_toString = s\<rparr>"

definition sample_custom :: create_custom_model where
  "sample_custom = \<lparr>cm_displayName = ''P'', cm_baseUrl = ''https://m.example/v1'', cm_model = ''m'', cm_capabilityVersion = ''v1'',
     cm_transport = ResponsesTransport, cm_structuredOutputMode = JsonObject, cm_apiKey = Some ''key''\<rparr>"

definition empty_models :: model_db where
  "empty_models = \<lparr>md_billing = empty_billing, md_configs = []\<rparr>"

lemma byte_char [simp]: "char_of_byte (byte_of c) = c" "byte_of (char_of_byte w) = w"
proof -
  have "(of_char c :: nat) < 2 ^ 8" by simp
  then have "unat (of_nat (of_char c) :: 8 word) = of_char c" by (simp add: unat_of_nat take_bit_eq_mod)
  then show "char_of_byte (byte_of c) = c" by (simp add: char_of_byte_def byte_of_def)
  have "unat w < 256" using unsigned_less [of w, where 'a = nat] by simp
  then show "byte_of (char_of_byte w) = w" by (simp add: char_of_byte_def byte_of_def of_char_of)
qed

lemma sample_crypto_ok: "crypto_ok sample_crypto"
  by (simp add: crypto_ok_def sample_crypto_def AUTH_TAG_BYTES_def comp_def)

lemma custom_model_lifecycle_witness:
  "\<exists>pm db' ps. createCustom sample_url sample_crypto [] (replicate 12 0) ''c'' 5 ''u'' sample_custom empty_models = (Inr pm, db')
    \<and> resolveCustom sample_url (\<lambda>_. ([''1.2.3.4''], [''1.2.3.4''])) sample_crypto [] ''u'' ''c'' db' = Inr ps \<and> ps_apiKey ps = ''key''
    \<and> resolveCustom sample_url (\<lambda>_. ([''1.2.3.4''], [''1.2.3.4''])) sample_crypto [] ''v'' ''c'' db'
        = Inl (NotFound ''Custom model configuration is unavailable'')"
proof -
  let ?lk = "\<lambda>_::string. ([''1.2.3.4''], [''1.2.3.4''])"
  have blk: "\<not> isBlockedAddress ''1.2.3.4''" "\<not> isBlockedIpLiteral ''m.example''" "js_lower ''m.example'' \<notin> set BLOCKED_HOSTS"
    "strip_slash ''https://m.example/v1'' = ''https://m.example/v1''" by code_simp+
  have ex: "\<And>u. canonicalizeCustomModelUrl sample_url (cm_baseUrl sample_custom) = Inr u \<Longrightarrow>
      \<exists>url. sample_url u = Some url \<and> (case ?lk (url_hostname url) of (f, s) \<Rightarrow> validateEgress f s = Inr ())"
    using blk by (simp add: sample_url_def validateEgress_def)
  have "(char_of (0::nat) :: char) \<noteq> CHR '' ''" by code_simp
  then have ct: "nonblank (encrypt sample_crypto [] (replicate 12 0) ''key'')"
    by (simp add: encrypt_def sample_crypto_def Let_def nonblank_def numeral_eq_Suc char_of_byte_def)
  have "fst (createCustom sample_url sample_crypto [] (replicate 12 0) ''c'' 5 ''u'' sample_custom empty_models)
      = Inr \<lparr>pub_id = ''c'', pub_kind = CUSTOM, pub_label = ''P''\<rparr>"
    using blk ct
    by (simp add: createCustom_def canonicalizeCustomModelUrl_def sample_url_def sample_custom_def config_create_def new_config_def
        model_config_ok_def nonblank_def Let_def empty_models_def)
  then obtain pm db' where c: "createCustom sample_url sample_crypto [] (replicate 12 0) ''c'' 5 ''u'' sample_custom empty_models = (Inr pm, db')"
    by (metis prod.collapse)
  have iv: "length (replicate 12 (0::8 word)) = IV_BYTES" by (simp add: IV_BYTES_def)
  have "cm_apiKey sample_custom = Some ''key''" by (simp add: sample_custom_def)
  with custom_model_lifecycle [OF sample_crypto_ok iv c ex, of "''v''" rows_length] c show ?thesis by auto
qed

text \<open>Revoking a custom model works but is answered as a failure: with the answer TypeORM gives to an
  UPDATE (rows and count) the endpoint always answers that the model was not found, although the
  model was active and is inactive afterwards; an answer of the rows alone would report success.\<close>

theorem revoke_reports_missing:
  assumes "findActiveForOwner w i db = Some r" and "distinct (map mc_id (md_configs db))"
  shows "\<exists>db'. revokeCustom pair_length w i db = (Inl (NotFound (''Custom model '' @ i @ '' not found'')), db')
    \<and> findActiveForOwner w i db' = None \<and> revokeCustom rows_length w i db = (Inr (), db')"
proof -
  let ?sel = "\<lambda>r. mc_id r = i \<and> mc_ownerId r = w \<and> mc_isActive r"
  have r: "r \<in> set (md_configs db)" "mc_id r = i" "mc_ownerId r = w \<and> mc_isActive r"
    using find_SomeD [OF assms(1) [unfolded findActiveForOwner_def]] by auto
  have one: "filter ?sel (md_configs db) = [r]"
    unfolding r(2) [symmetric] by (rule filter_unique_key [OF assms(2) r(1), of "\<lambda>r. mc_ownerId r = w \<and> mc_isActive r", OF r(3)])
  define db' where "db' = db\<lparr>md_configs := map (\<lambda>r. if ?sel r then r\<lparr>mc_isActive := False\<rparr> else r) (md_configs db)\<rparr>"
  have rev: "config_revoke al w i db = (al 1 = 1, db')" for al
    unfolding config_revoke_def Let_def one db'_def by simp
  have "findActiveForOwner w i db' = None"
    using revoked_not_found [of w i pair_length db] by (simp only: rev snd_conv)
  then show ?thesis by (simp add: revokeCustom_def rev pair_length_def rows_length_def)
qed

lemma revoke_reports_missing_witness:
  "\<exists>db r db'. findActiveForOwner ''u'' ''c'' db = Some r
     \<and> revokeCustom pair_length ''u'' ''c'' db = (Inl (NotFound (''Custom model '' @ ''c'' @ '' not found'')), db')"
proof -
  let ?r = "\<lparr>mc_id = ''c'', mc_ownerId = ''u'', mc_displayName = ''P'', mc_baseUrl = ''b'', mc_model = ''m'', mc_capabilityVersion = ''v1'',
     mc_transport = ResponsesTransport, mc_structuredOutputMode = JsonObject, mc_apiKeyCiphertext = ''x'', mc_isActive = True, mc_createdAt = 0\<rparr>"
  let ?db = "empty_models\<lparr>md_configs := [?r]\<rparr>"
  have f: "findActiveForOwner ''u'' ''c'' ?db = Some ?r" by (simp add: findActiveForOwner_def)
  have d: "distinct (map mc_id (md_configs ?db))" by simp
  from revoke_reports_missing [OF f d] f show ?thesis by blast
qed

end
