(* ===== verification/Content.thy ===== *)
theory Content imports ModelAccess QuizStore begin

text \<open>
  Documents of an owner: \<open>content/content.service.ts\<close> over \<open>content/repositories/content.repository.ts\<close>,
  the upload policy, the storage check \<open>storage/object-storage-verifier.ts\<close>, the projection of results
  and the reader the worker uses.

  \<open>course_db\<close> is the part of schema \<open>course\<close> these write: the documents, under the NOT NULL and
  CHECK constraints the migrations leave them with, and the outbox.  The answers of the object
  storage and the signing of an upload form are parameters.
\<close>

section \<open>Data\<close>

datatype document_status = UPLOADED | PROCESSING | READY | DOCUMENT_FAILED

datatype document_type = PDF | DOCX | PPTX | XLSX | VIDEO | AUDIO | TEXT_TYPE

fun document_type_str :: "document_type \<Rightarrow> string" where
  "document_type_str PDF = ''PDF''"
| "document_type_str DOCX = ''DOCX''"
| "document_type_str PPTX = ''PPTX''"
| "document_type_str XLSX = ''XLSX''"
| "document_type_str VIDEO = ''VIDEO''"
| "document_type_str AUDIO = ''AUDIO''"
| "document_type_str TEXT_TYPE = ''TEXT''"

record document_row =
  dc_id :: string
  dc_ownerId :: string
  dc_type :: document_type
  dc_originalName :: string
  dc_storageRef :: string
  dc_sizeBytes :: int
  dc_language :: "string option"
  dc_status :: document_status
  dc_modelSelectionKind :: selection_kind
  dc_platformModelId :: "string option"
  dc_customModelConfigId :: "string option"
  dc_selectedModelLabel :: "string option"
  dc_estimateStatus :: "string option"
  dc_estimatedCredits :: "int option"
  dc_settledCredits :: "int option"
  dc_budgetStatus :: "string option"
  dc_durationSec :: "int option"
  dc_pageCount :: "int option"
  dc_errorMessage :: "string option"
  dc_errorCode :: "failure_code option"
  dc_createdAt :: int
  dc_updatedAt :: int

record course_outbox_row =
  co_id :: nat
  co_aggregateId :: string
  co_eventType :: string
  co_payload :: "(string \<times> json) list"
  co_createdAt :: int
  co_publishedAt :: "int option"

record course_db =
  cs_documents :: "document_row list"
  cs_outbox :: "course_outbox_row list"
  cs_nextOutboxId :: nat

record upload_command =
  uc_originalName :: string
  uc_sizeBytes :: int
  uc_type :: document_type
  uc_selection :: model_selection

datatype content_error =
    ContentBadRequest string
  | ContentNotFound string
  | ContentConflict string string bool
  | ContentInternal string string bool
  | ContentDbFailure
  | StorageFailure

section \<open>Upload policy\<close>

record upload_policy =
  up_contentType :: string
  up_extension :: string

definition policy_of :: "document_type \<Rightarrow> upload_policy option" where
  "policy_of t =
     (case t of
        PDF \<Rightarrow> Some \<lparr>up_contentType = ''application/pdf'', up_extension = ''.pdf''\<rparr>
      | TEXT_TYPE \<Rightarrow> Some \<lparr>up_contentType = ''text/plain'', up_extension = ''.txt''\<rparr>
      | _ \<Rightarrow> None)"

definition resolveDocumentUploadPolicy :: "document_type \<Rightarrow> string \<Rightarrow> content_error + upload_policy" where
  "resolveDocumentUploadPolicy t originalName =
     (case policy_of t of
        None \<Rightarrow> Inl (ContentBadRequest (document_type_str t @ '' uploads are not supported yet''))
      | Some policy \<Rightarrow>
          if \<not> ends_with (up_extension policy) (js_lower originalName)
          then Inl (ContentBadRequest (document_type_str t @ '' documents must use the '' @ up_extension policy @ '' extension''))
          else Inr policy)"

section \<open>Repository\<close>

text \<open>The columns' lengths and the constraints of migrations 1717700000000 and 1780835014200.\<close>

definition document_ok :: "document_row \<Rightarrow> bool" where
  "document_ok d \<longleftrightarrow>
     dc_platformModelId d \<noteq> None \<and>
     (dc_modelSelectionKind d = PLAN \<and> dc_platformModelId d \<noteq> None \<and> dc_customModelConfigId d = None \<or>
      dc_modelSelectionKind d = CUSTOM \<and> dc_platformModelId d = None \<and> dc_customModelConfigId d \<noteq> None) \<and>
     length (dc_originalName d) \<le> 500 \<and> length (dc_storageRef d) \<le> 500 \<and> fits_int8 (dc_sizeBytes d) \<and>
     (case dc_platformModelId d of None \<Rightarrow> True | Some m \<Rightarrow> length m \<le> 100) \<and>
     (case dc_selectedModelLabel d of None \<Rightarrow> True | Some l \<Rightarrow> length l \<le> 120)"

definition new_document ::
  "string \<Rightarrow> int \<Rightarrow> string \<Rightarrow> upload_command \<Rightarrow> int \<Rightarrow> string \<Rightarrow> string \<Rightarrow> document_row" where
  "new_document newId now ownerId c estimatedCredits selectedModelLabel storageRef =
     \<lparr>dc_id = newId, dc_ownerId = ownerId, dc_type = uc_type c, dc_originalName = uc_originalName c,
      dc_storageRef = storageRef, dc_sizeBytes = uc_sizeBytes c, dc_language = None, dc_status = UPLOADED,
      dc_modelSelectionKind = ms_kind (uc_selection c), dc_platformModelId = ms_platformModelId (uc_selection c),
      dc_customModelConfigId = ms_customModelConfigId (uc_selection c), dc_selectedModelLabel = Some selectedModelLabel,
      dc_estimateStatus = Some ''COARSE'', dc_estimatedCredits = Some estimatedCredits, dc_settledCredits = None,
      dc_budgetStatus = Some (if ms_kind (uc_selection c) = CUSTOM then ''CUSTOM_ZERO_COST'' else ''NOT_RESERVED''),
      dc_durationSec = None, dc_pageCount = None, dc_errorMessage = None, dc_errorCode = None,
      dc_createdAt = now, dc_updatedAt = now\<rparr>"

definition createUploaded ::
  "string \<Rightarrow> int \<Rightarrow> string \<Rightarrow> upload_command \<Rightarrow> rat \<Rightarrow> string \<Rightarrow> string \<Rightarrow> course_db
     \<Rightarrow> (content_error + document_row) \<times> course_db" where
  "createUploaded newId now ownerId c estimatedCredits selectedModelLabel storageRef db =
     (case as_bigint estimatedCredits of
        None \<Rightarrow> (Inl ContentDbFailure, db)
      | Some credits \<Rightarrow>
          let d = new_document newId now ownerId c credits selectedModelLabel storageRef
          in if document_ok d \<and> newId \<notin> dc_id ` set (cs_documents db)
             then (Inr d, db\<lparr>cs_documents := cs_documents db @ [d]\<rparr>) else (Inl ContentDbFailure, db))"

definition findByOwnerId :: "string \<Rightarrow> string \<Rightarrow> course_db \<Rightarrow> document_row option" where
  "findByOwnerId ownerId id' db = List.find (\<lambda>d. dc_id d = id' \<and> dc_ownerId d = ownerId) (cs_documents db)"

definition findAllByOwnerId :: "string \<Rightarrow> course_db \<Rightarrow> document_row list" where
  "findAllByOwnerId ownerId db = sort_key (\<lambda>d. - dc_createdAt d) (filter (\<lambda>d. dc_ownerId d = ownerId) (cs_documents db))"

definition confirmable :: "string \<Rightarrow> string \<Rightarrow> document_row \<Rightarrow> bool" where
  "confirmable ownerId id' d \<longleftrightarrow>
     dc_id d = id' \<and> dc_ownerId d = ownerId \<and> (dc_status d = UPLOADED \<or> dc_status d = DOCUMENT_FAILED)"

definition confirmed_row :: "int \<Rightarrow> document_row \<Rightarrow> document_row" where
  "confirmed_row now d =
     d\<lparr>dc_errorCode := None, dc_errorMessage := None, dc_status := PROCESSING, dc_updatedAt := now\<rparr>"

fun selection_kind_str :: "selection_kind \<Rightarrow> string" where
  "selection_kind_str PLAN = ''PLAN''"
| "selection_kind_str CUSTOM = ''CUSTOM''"

definition ready_event_type :: string where
  "ready_event_type = ''DocumentReadyForProcessing''"

definition ready_payload :: "string \<Rightarrow> string \<Rightarrow> model_selection \<Rightarrow> (string \<times> json) list" where
  "ready_payload id' ownerId selection =
     [(''documentId'', JStr id'), (''ownerId'', JStr ownerId), (''jobType'', JStr ''FULL_PIPELINE''),
      (''customModelConfigId'', nullable_str (ms_customModelConfigId selection)),
      (''kind'', JStr (selection_kind_str (ms_kind selection))),
      (''platformModelId'', nullable_str (ms_platformModelId selection))]"

definition append_course_event :: "int \<Rightarrow> string \<Rightarrow> (string \<times> json) list \<Rightarrow> course_db \<Rightarrow> course_db" where
  "append_course_event now aggregateId payload db =
     db\<lparr>cs_outbox := cs_outbox db @
          [\<lparr>co_id = cs_nextOutboxId db, co_aggregateId = aggregateId, co_eventType = ready_event_type,
            co_payload = payload, co_createdAt = now, co_publishedAt = None\<rparr>],
        cs_nextOutboxId := Suc (cs_nextOutboxId db)\<rparr>"

definition confirmProcessing ::
  "int \<Rightarrow> string \<Rightarrow> string \<Rightarrow> model_selection \<Rightarrow> course_db \<Rightarrow> document_row option \<times> course_db" where
  "confirmProcessing now ownerId id' selection db =
     (let db1 = db\<lparr>cs_documents := map (\<lambda>d. if confirmable ownerId id' d then confirmed_row now d else d) (cs_documents db)\<rparr>;
          db2 = (if list_ex (confirmable ownerId id') (cs_documents db)
                 then append_course_event now id' (ready_payload id' ownerId selection) db1 else db1)
      in (findByOwnerId ownerId id' db2, db2))"

record projection_command =
  pj_budgetStatus :: "string option"
  pj_documentId :: string
  pj_estimatedCredits :: "rat option"
  pj_estimateStatus :: "string option"
  pj_errorCode :: "failure_code option"
  pj_errorMessage :: "string option"
  pj_ownerId :: string
  pj_settledCredits :: "rat option"
  pj_status :: document_status

definition projectable :: "projection_command \<Rightarrow> document_row \<Rightarrow> bool" where
  "projectable c d \<longleftrightarrow> dc_id d = pj_documentId c \<and> dc_ownerId d = pj_ownerId c \<and> dc_status d = PROCESSING"

definition projected_row :: "int \<Rightarrow> projection_command \<Rightarrow> document_row \<Rightarrow> document_row" where
  "projected_row now c d =
     d\<lparr>dc_errorCode := pj_errorCode c, dc_errorMessage := pj_errorMessage c,
       dc_budgetStatus := (case pj_budgetStatus c of None \<Rightarrow> dc_budgetStatus d | Some s \<Rightarrow> Some s),
       dc_estimatedCredits := (if pj_estimateStatus c = None then dc_estimatedCredits d else map_option floor (pj_estimatedCredits c)),
       dc_estimateStatus := (case pj_estimateStatus c of None \<Rightarrow> dc_estimateStatus d | Some s \<Rightarrow> Some s),
       dc_settledCredits := map_option floor (pj_settledCredits c), dc_status := pj_status c, dc_updatedAt := now\<rparr>"

text \<open>
  Both credit parameters are bound as \<open>bigint\<close>, whatever the row; the two status columns are
  \<open>varchar(20)\<close>.
\<close>

definition is_bigint :: "rat option \<Rightarrow> bool" where
  "is_bigint v \<longleftrightarrow> (case v of None \<Rightarrow> True | Some r \<Rightarrow> as_bigint r \<noteq> None)"

definition short_status :: "string option \<Rightarrow> bool" where
  "short_status v \<longleftrightarrow> (case v of None \<Rightarrow> True | Some s \<Rightarrow> length s \<le> 20)"

definition projectProcessingResult :: "int \<Rightarrow> projection_command \<Rightarrow> course_db \<Rightarrow> (content_error + unit) \<times> course_db" where
  "projectProcessingResult now c db =
     (if \<not> is_bigint (pj_settledCredits c) \<or> \<not> is_bigint (pj_estimatedCredits c) \<or>
         list_ex (projectable c) (cs_documents db) \<and>
           (\<not> short_status (pj_budgetStatus c) \<or> \<not> short_status (pj_estimateStatus c))
      then (Inl ContentDbFailure, db)
      else (Inr (), db\<lparr>cs_documents :=
             map (\<lambda>d. if projectable c d then projected_row now c d else d) (cs_documents db)\<rparr>))"

definition project :: "int \<Rightarrow> projection_command \<Rightarrow> course_db \<Rightarrow> (content_error + unit) \<times> course_db" where
  "project = projectProcessingResult"

section \<open>Object storage\<close>

text \<open>
  What the storage answers: the size of an object, and its first bytes (the offset is always 0).  \<^const>\<open>None\<close> is a rejected call, a
  missing object among them, or a stream that breaks off.
\<close>

record object_store =
  os_stat :: "string \<Rightarrow> int option"
  os_partial :: "string \<Rightarrow> nat \<Rightarrow> bytes option"

text \<open>Node's \<open>isUtf8\<close>: well-formed UTF-8, no overlong form, no surrogate, at most U+10FFFF.\<close>

definition byte_in :: "nat \<Rightarrow> nat \<Rightarrow> 8 word \<Rightarrow> bool" where
  "byte_in lo hi b \<longleftrightarrow> lo \<le> unat b \<and> unat b \<le> hi"

definition second_byte_ok :: "8 word \<Rightarrow> 8 word \<Rightarrow> bool" where
  "second_byte_ok a b =
     (if a = 0xE0 then byte_in 0xA0 0xBF b else if a = 0xED then byte_in 0x80 0x9F b
      else if a = 0xF0 then byte_in 0x90 0xBF b else if a = 0xF4 then byte_in 0x80 0x8F b
      else byte_in 0x80 0xBF b)"

fun is_utf8 :: "bytes \<Rightarrow> bool" where
  "is_utf8 [] = True"
| "is_utf8 (a # rest) =
     (if byte_in 0 0x7F a then is_utf8 rest
      else if byte_in 0xC2 0xDF a then (case rest of b # r \<Rightarrow> byte_in 0x80 0xBF b \<and> is_utf8 r | [] \<Rightarrow> False)
      else if byte_in 0xE0 0xEF a then
        (case rest of b # c # r \<Rightarrow> second_byte_ok a b \<and> byte_in 0x80 0xBF c \<and> is_utf8 r | _ \<Rightarrow> False)
      else if byte_in 0xF0 0xF4 a then
        (case rest of b # c # d # r \<Rightarrow> second_byte_ok a b \<and> byte_in 0x80 0xBF c \<and> byte_in 0x80 0xBF d \<and> is_utf8 r
         | _ \<Rightarrow> False)
      else False)"

definition readHead :: "object_store \<Rightarrow> string \<Rightarrow> nat \<Rightarrow> bytes option" where
  "readHead store key n = map_option (take n) (os_partial store key n)"

text \<open>\<open>readObject\<close> over the chunks of the stream: \<^const>\<open>None\<close> is the RangeError.\<close>

fun read_chunks :: "nat \<Rightarrow> nat \<Rightarrow> bytes \<Rightarrow> bytes list \<Rightarrow> bytes option" where
  "read_chunks maxBytes received acc [] = Some acc"
| "read_chunks maxBytes received acc (chunk # rest) =
     (if maxBytes < received + length chunk then None
      else read_chunks maxBytes (received + length chunk) (acc @ chunk) rest)"

definition readObject :: "nat \<Rightarrow> bytes list \<Rightarrow> bytes option" where
  "readObject maxBytes chunks = read_chunks maxBytes 0 [] chunks"

record post_policy =
  pp_bucket :: string
  pp_key :: string
  pp_expires :: int
  pp_contentType :: string
  pp_minLength :: int
  pp_maxLength :: int

record upload_form =
  uf_url :: string
  uf_formFields :: "(string \<times> string) list"
  uf_expirySec :: int

definition createPresignedPostUrl ::
  "(post_policy \<Rightarrow> ((string \<times> string) list \<times> string) option) \<Rightarrow> string \<Rightarrow> int \<Rightarrow> int \<Rightarrow> string \<Rightarrow> string \<Rightarrow> int
     \<Rightarrow> upload_form option" where
  "createPresignedPostUrl sign bucket presignExpiry now objectKey contentType sizeBytes =
     (case sign \<lparr>pp_bucket = bucket, pp_key = objectKey, pp_expires = now + presignExpiry * 1000,
                pp_contentType = contentType, pp_minLength = sizeBytes, pp_maxLength = sizeBytes\<rparr> of
        None \<Rightarrow> None
      | Some (formData, postURL) \<Rightarrow>
          Some \<lparr>uf_url = postURL, uf_formFields = formData, uf_expirySec = presignExpiry\<rparr>)"

record object_verification =
  ov_exists :: bool
  ov_sizeBytes :: int
  ov_magicBytesValid :: bool

definition pdf_magic :: bytes where
  "pdf_magic = [0x25, 0x50, 0x44, 0x46]"

text \<open>\<^const>\<open>None\<close>: the call rejects, because reading the first bytes does.\<close>

definition checkMagic :: "object_store \<Rightarrow> string \<Rightarrow> document_type \<Rightarrow> bool option" where
  "checkMagic store key t =
     (if t = PDF then map_option (\<lambda>head. take (length pdf_magic) head = pdf_magic) (readHead store key 4096)
      else if t = TEXT_TYPE then map_option (\<lambda>head. is_utf8 head \<and> 0 \<notin> set head) (readHead store key 4096)
      else Some False)"

definition verify :: "object_store \<Rightarrow> string \<Rightarrow> document_type \<Rightarrow> object_verification option" where
  "verify store key t =
     (case os_stat store key of
        None \<Rightarrow> Some \<lparr>ov_exists = False, ov_sizeBytes = 0, ov_magicBytesValid = False\<rparr>
      | Some sizeBytes \<Rightarrow>
          map_option (\<lambda>valid. \<lparr>ov_exists = True, ov_sizeBytes = sizeBytes, ov_magicBytesValid = valid\<rparr>) (checkMagic store key t))"

section \<open>Service\<close>

definition truthy :: "string option \<Rightarrow> bool" where
  "truthy v \<longleftrightarrow> (case v of None \<Rightarrow> False | Some s \<Rightarrow> s \<noteq> [])"

definition estimatePlatformCredits :: "int \<Rightarrow> plan_model \<Rightarrow> rat" where
  "estimatePlatformCredits sizeBytes m =
     max 1 (of_int \<lceil>of_int sizeBytes / (4::rat)\<rceil> * pl_creditPerInputToken m + 256 * pl_creditPerOutputToken m)"

definition estimateModelSelection ::
  "plan_model list \<Rightarrow> int \<Rightarrow> string \<Rightarrow> int \<Rightarrow> model_selection \<Rightarrow> model_db \<Rightarrow> (content_error + rat \<times> string) \<times> model_db" where
  "estimateModelSelection models free ownerId sizeBytes selection mdb =
     (let isPlan = (ms_kind selection = PLAN);
          (plan, mdb1) = (if isPlan \<and> truthy (ms_platformModelId selection)
             then resolvePlan models free ownerId (the (ms_platformModelId selection)) mdb else (None, mdb))
      in if isPlan \<and> (\<not> truthy (ms_platformModelId selection) \<or> truthy (ms_customModelConfigId selection) \<or> plan = None)
         then (Inl (ContentBadRequest ''Selected platform model is unavailable''), mdb1)
         else if \<not> isPlan \<and> (\<not> truthy (ms_customModelConfigId selection) \<or> truthy (ms_platformModelId selection))
         then (Inl (ContentBadRequest ''Selected custom model is invalid''), mdb1)
         else case listForOwner models free ownerId mdb1 of
           (catalog, mdb2) \<Rightarrow>
             (case List.find (\<lambda>m. Some (pub_id m) = (if isPlan then ms_platformModelId selection else ms_customModelConfigId selection)
                      \<and> pub_kind m = ms_kind selection) catalog of
                None \<Rightarrow> (Inl (ContentBadRequest ''Selected custom model is unavailable''), mdb2)
              | Some selected \<Rightarrow>
                  (Inr (case plan of None \<Rightarrow> 0 | Some p \<Rightarrow> estimatePlatformCredits sizeBytes p, pub_label selected), mdb2)))"

record upload_url_result =
  uu_documentId :: string
  uu_uploadUrl :: string
  uu_uploadFields :: "(string \<times> string) list"
  uu_objectKey :: string
  uu_bucket :: string
  uu_expirySec :: int

definition createUploadUrl ::
  "(post_policy \<Rightarrow> ((string \<times> string) list \<times> string) option) \<Rightarrow> string \<Rightarrow> int \<Rightarrow> plan_model list \<Rightarrow> int
     \<Rightarrow> string \<Rightarrow> string \<Rightarrow> int \<Rightarrow> string \<Rightarrow> upload_command \<Rightarrow> course_db \<times> model_db
     \<Rightarrow> (content_error + upload_url_result) \<times> course_db \<times> model_db" where
  "createUploadUrl sign bucket presignExpiry models free randomUUID newId now ownerId c s =
     (case s of (db, mdb) \<Rightarrow>
      case resolveDocumentUploadPolicy (uc_type c) (uc_originalName c) of
        Inl e \<Rightarrow> (Inl e, db, mdb)
      | Inr policy \<Rightarrow>
          (case estimateModelSelection models free ownerId (uc_sizeBytes c) (uc_selection c) mdb of
             (Inl e, mdb1) \<Rightarrow> (Inl e, db, mdb1)
           | (Inr (credits, label), mdb1) \<Rightarrow>
               let objectKey = ownerId @ CHR ''/'' # randomUUID @ up_extension policy in
               (case createUploaded newId now ownerId c credits label objectKey db of
                  (Inl e, db1) \<Rightarrow> (Inl e, db1, mdb1)
                | (Inr saved, db1) \<Rightarrow>
                    (case createPresignedPostUrl sign bucket presignExpiry now objectKey (up_contentType policy) (uc_sizeBytes c) of
                       None \<Rightarrow> (Inl StorageFailure, db1, mdb1)
                     | Some form \<Rightarrow>
                         (Inr \<lparr>uu_documentId = dc_id saved, uu_uploadUrl = uf_url form, uu_uploadFields = uf_formFields form,
                               uu_objectKey = objectKey, uu_bucket = bucket, uu_expirySec = uf_expirySec form\<rparr>, db1, mdb1)))))"

record estimate_result =
  es_estimatedCredits :: rat
  es_precision :: string
  es_selectedModelKind :: selection_kind
  es_selectedModelLabel :: string

definition estimateBeforeUpload ::
  "plan_model list \<Rightarrow> int \<Rightarrow> string \<Rightarrow> int \<Rightarrow> document_type \<Rightarrow> model_selection \<Rightarrow> model_db
     \<Rightarrow> (content_error + estimate_result) \<times> model_db" where
  "estimateBeforeUpload models free ownerId sizeBytes t selection mdb =
     (case estimateModelSelection models free ownerId sizeBytes selection mdb of
        (Inl e, mdb1) \<Rightarrow> (Inl e, mdb1)
      | (Inr (credits, label), mdb1) \<Rightarrow>
          (Inr \<lparr>es_estimatedCredits = credits, es_precision = ''COARSE'', es_selectedModelKind = ms_kind selection,
                es_selectedModelLabel = label\<rparr>, mdb1))"

definition findQuiz :: "string \<Rightarrow> string \<Rightarrow> course_db \<Rightarrow> quiz_db \<Rightarrow> content_error + quiz_summary" where
  "findQuiz ownerId documentId db quizzes =
     (case findByOwnerId ownerId documentId db of
        None \<Rightarrow> Inl (ContentNotFound ''DOCUMENT_NOT_FOUND'')
      | Some document \<Rightarrow>
          (case findByOwnerAndDocumentId ownerId documentId quizzes of
             Some quiz \<Rightarrow> Inr quiz
           | None \<Rightarrow>
               if dc_status document = UPLOADED \<or> dc_status document = PROCESSING
               then Inl (ContentConflict ''QUIZ_NOT_READY'' ''Quiz is still being prepared. Please try again shortly.'' True)
               else if dc_status document = DOCUMENT_FAILED
               then Inl (ContentConflict ''DOCUMENT_PROCESSING_FAILED''
                 (case dc_errorMessage document of Some m \<Rightarrow> m | None \<Rightarrow> ''Document processing failed. Please try again later.'')
                 (isDocumentProcessingFailureRetryable (dc_errorCode document)))
               else Inl (ContentInternal ''QUIZ_INVARIANT_VIOLATION''
                 ''Quiz is unavailable due to a system error. Please try again later.'' False)))"

definition confirm :: "object_store \<Rightarrow> int \<Rightarrow> string \<Rightarrow> string \<Rightarrow> course_db \<Rightarrow> (content_error + document_row) \<times> course_db" where
  "confirm store now ownerId id' db =
     (case findByOwnerId ownerId id' db of
        None \<Rightarrow> (Inl (ContentNotFound (''Document '' @ id' @ '' not found'')), db)
      | Some document \<Rightarrow>
          (case verify store (dc_storageRef document) (dc_type document) of
             None \<Rightarrow> (Inl StorageFailure, db)
           | Some v \<Rightarrow>
               if \<not> ov_exists v \<or> \<not> ov_magicBytesValid v \<or> ov_sizeBytes v \<noteq> dc_sizeBytes document
               then (Inl (ContentBadRequest ''Uploaded file failed verification''), db)
               else (case confirmProcessing now ownerId id' \<lparr>ms_customModelConfigId = dc_customModelConfigId document,
                            ms_kind = dc_modelSelectionKind document, ms_platformModelId = dc_platformModelId document\<rparr> db of
                       (None, db') \<Rightarrow> (Inl (ContentNotFound (''Document '' @ id' @ '' not found'')), db')
                     | (Some d, db') \<Rightarrow> (Inr d, db'))))"

text \<open>\<open>GET /documents/:id\<close> and the reader of the worker.\<close>

definition getDocument :: "string \<Rightarrow> string \<Rightarrow> course_db \<Rightarrow> content_error + document_row" where
  "getDocument ownerId id' db =
     (case findByOwnerId ownerId id' db of
        None \<Rightarrow> Inl (ContentNotFound (''Document '' @ id' @ '' not found'')) | Some d \<Rightarrow> Inr d)"

record extraction_source =
  xs_storageRef :: string
  xs_type :: document_type

definition readSource :: "job_row \<Rightarrow> course_db \<Rightarrow> failure_code + extraction_source" where
  "readSource job db =
     (case findByOwnerId (j_ownerId job) (j_documentId job) db of
        None \<Rightarrow> Inl EXTRACTION_OBJECT_NOT_FOUND
      | Some d \<Rightarrow> if dc_type d \<noteq> PDF \<and> dc_type d \<noteq> TEXT_TYPE then Inl EXTRACTION_OBJECT_NOT_FOUND
          else Inr \<lparr>xs_storageRef = dc_storageRef d, xs_type = dc_type d\<rparr>)"

section \<open>Requests and responses\<close>

record upload_dto =
  ud_modelSelectionKind :: selection_kind
  ud_platformModelId :: "string option"
  ud_customModelConfigId :: "string option"
  ud_originalName :: string
  ud_type :: document_type
  ud_sizeBytes :: int

definition max_size_bytes :: int where
  "max_size_bytes = 1024 * 1024 * 1024"

definition check_upload :: "(string \<Rightarrow> bool) \<Rightarrow> upload_dto \<Rightarrow> bool" where
  "check_upload isUUID dto \<longleftrightarrow>
     (ud_modelSelectionKind dto = PLAN \<longrightarrow> (case ud_platformModelId dto of None \<Rightarrow> False | Some m \<Rightarrow> isNonBlankString m)) \<and>
     (ud_modelSelectionKind dto = CUSTOM \<longrightarrow> (case ud_customModelConfigId dto of None \<Rightarrow> False | Some m \<Rightarrow> isUUID m)) \<and>
     isNonBlankString (ud_originalName dto) \<and> length (ud_originalName dto) \<le> 500 \<and>
     1 \<le> ud_sizeBytes dto \<and> ud_sizeBytes dto \<le> max_size_bytes"

definition upload_command_of :: "upload_dto \<Rightarrow> upload_command" where
  "upload_command_of dto =
     \<lparr>uc_originalName = ud_originalName dto, uc_sizeBytes = ud_sizeBytes dto, uc_type = ud_type dto,
      uc_selection = \<lparr>ms_customModelConfigId = ud_customModelConfigId dto, ms_kind = ud_modelSelectionKind dto,
                      ms_platformModelId = ud_platformModelId dto\<rparr>\<rparr>"

record document_response =
  dr_id :: string
  dr_type :: document_type
  dr_originalName :: string
  dr_sizeBytes :: int
  dr_language :: "string option"
  dr_status :: document_status
  dr_durationSec :: "int option"
  dr_pageCount :: "int option"
  dr_errorMessage :: "string option"
  dr_errorCode :: "failure_code option"
  dr_selectedModelKind :: "selection_kind option"
  dr_selectedModelLabel :: "string option"
  dr_estimateStatus :: "string option"
  dr_estimatedCredits :: "int option"
  dr_settledCredits :: "int option"
  dr_budgetStatus :: "string option"
  dr_createdAt :: string
  dr_updatedAt :: string

definition to_document_response :: "(int \<Rightarrow> string) \<Rightarrow> document_row \<Rightarrow> document_response" where
  "to_document_response toUtcIsoString d =
     \<lparr>dr_id = dc_id d, dr_type = dc_type d, dr_originalName = dc_originalName d, dr_sizeBytes = dc_sizeBytes d,
      dr_language = dc_language d, dr_status = dc_status d, dr_durationSec = dc_durationSec d, dr_pageCount = dc_pageCount d,
      dr_errorMessage = dc_errorMessage d, dr_errorCode = dc_errorCode d, dr_selectedModelKind = Some (dc_modelSelectionKind d),
      dr_selectedModelLabel = dc_selectedModelLabel d, dr_estimateStatus = dc_estimateStatus d,
      dr_estimatedCredits = dc_estimatedCredits d, dr_settledCredits = dc_settledCredits d,
      dr_budgetStatus = dc_budgetStatus d, dr_createdAt = toUtcIsoString (dc_createdAt d),
      dr_updatedAt = toUtcIsoString (dc_updatedAt d)\<rparr>"

definition listDocuments :: "(int \<Rightarrow> string) \<Rightarrow> string \<Rightarrow> course_db \<Rightarrow> document_response list" where
  "listDocuments toIso ownerId db = map (to_document_response toIso) (findAllByOwnerId ownerId db)"

section \<open>Confirming\<close>

definition course_ok :: "course_db \<Rightarrow> bool" where
  "course_ok db \<longleftrightarrow>
     distinct (map dc_id (cs_documents db)) \<and> (\<forall>d\<in>set (cs_documents db). document_ok d) \<and>
     (\<forall>e\<in>set (cs_outbox db). co_id e < cs_nextOutboxId db \<and> co_aggregateId e \<in> dc_id ` set (cs_documents db)) \<and>
     distinct (map co_id (cs_outbox db))"

lemma findByOwnerId_Some:
  assumes "findByOwnerId w i db = Some d"
  shows "d \<in> set (cs_documents db)" and "dc_id d = i" and "dc_ownerId d = w"
  using find_SomeD [OF assms [unfolded findByOwnerId_def]] by simp_all

lemma confirmed_row_simps [simp]:
  "dc_id (confirmed_row t d) = dc_id d" "dc_ownerId (confirmed_row t d) = dc_ownerId d"
  "dc_status (confirmed_row t d) = PROCESSING"
  by (simp_all add: confirmed_row_def)

lemma projected_row_simps [simp]:
  "dc_id (projected_row t c d) = dc_id d" "dc_ownerId (projected_row t c d) = dc_ownerId d"
  "dc_status (projected_row t c d) = pj_status c"
  by (simp_all add: projected_row_def)

lemma find_map_keep:
  assumes "\<And>d. dc_id (f d) = dc_id d" and "\<And>d. dc_ownerId (f d) = dc_ownerId d"
  shows "List.find (\<lambda>d. dc_id d = i \<and> dc_ownerId d = w) (map f ds)
       = map_option f (List.find (\<lambda>d. dc_id d = i \<and> dc_ownerId d = w) ds)"
  by (induction ds) (simp_all add: assms)

definition replace_document :: "document_row \<Rightarrow> document_row \<Rightarrow> course_db \<Rightarrow> course_db" where
  "replace_document d d' db = db\<lparr>cs_documents := map (\<lambda>x. if x = d then d' else x) (cs_documents db)\<rparr>"

lemma map_confirmable:
  assumes "distinct (map dc_id ds)" and "d \<in> set ds" and "confirmable w i d"
  shows "map (\<lambda>x. if confirmable w i x then f x else x) ds = map (\<lambda>x. if x = d then f d else x) ds"
proof (rule map_cong [OF refl])
  fix x assume x: "x \<in> set ds"
  have "confirmable w i x \<longleftrightarrow> x = d"
    using distinct_map_eqD [OF assms(1) x assms(2)] assms(3) by (auto simp: confirmable_def)
  then show "(if confirmable w i x then f x else x) = (if x = d then f d else x)" by simp
qed

lemma confirmProcessing_cases:
  assumes dist: "distinct (map dc_id (cs_documents db))" and d: "findByOwnerId w i db = Some d"
  shows "confirmProcessing now w i sel db =
    (if dc_status d = UPLOADED \<or> dc_status d = DOCUMENT_FAILED
     then (Some (confirmed_row now d), append_course_event now i (ready_payload i w sel) (replace_document d (confirmed_row now d) db))
     else (Some d, db))"
proof -
  note D = findByOwnerId_Some [OF d]
  let ?upd = "\<lambda>d. if confirmable w i d then confirmed_row now d else d"
  have find: "findByOwnerId w i (db\<lparr>cs_documents := map ?upd (cs_documents db)\<rparr>) = Some (?upd d)"
    using d find_map_keep [of ?upd i w "cs_documents db"] by (simp add: findByOwnerId_def)
  have find_app: "findByOwnerId w i (append_course_event now k p x) = findByOwnerId w i x" for k p x
    by (simp add: findByOwnerId_def append_course_event_def)
  show ?thesis
  proof (cases "dc_status d = UPLOADED \<or> dc_status d = DOCUMENT_FAILED")
    case True
    then have c: "confirmable w i d" using D by (simp add: confirmable_def)
    then have "list_ex (confirmable w i) (cs_documents db)" using D(1) by (auto simp: list_ex_iff)
    moreover have "db\<lparr>cs_documents := map ?upd (cs_documents db)\<rparr> = replace_document d (confirmed_row now d) db"
      unfolding replace_document_def map_confirmable [OF dist D(1) c] ..
    ultimately show ?thesis
      using True c find by (simp add: confirmProcessing_def Let_def find_app)
  next
    case False
    have "\<not> confirmable w i x" if x: "x \<in> set (cs_documents db)" for x
    proof
      assume c: "confirmable w i x"
      with D(2) distinct_map_eqD [OF dist x D(1)] have "x = d" by (simp add: confirmable_def)
      with c False show False by (simp add: confirmable_def)
    qed
    then have "\<not> list_ex (confirmable w i) (cs_documents db)" "map ?upd (cs_documents db) = cs_documents db"
      by (auto simp: list_ex_iff intro!: map_idI)
    with False d show ?thesis by (simp add: confirmProcessing_def Let_def)
  qed
qed

text \<open>What the storage check requires of the object stored for a document, and when it gets no answer.\<close>

definition verified :: "object_store \<Rightarrow> document_row \<Rightarrow> bool" where
  "verified store d \<longleftrightarrow>
     os_stat store (dc_storageRef d) = Some (dc_sizeBytes d) \<and>
     (case os_partial store (dc_storageRef d) 4096 of
        None \<Rightarrow> False
      | Some b \<Rightarrow>
          dc_type d = PDF \<and> take 4 b = pdf_magic \<or>
          dc_type d = TEXT_TYPE \<and> is_utf8 (take 4096 b) \<and> 0 \<notin> set (take 4096 b))"

definition unreadable :: "object_store \<Rightarrow> document_row \<Rightarrow> bool" where
  "unreadable store d \<longleftrightarrow>
     os_stat store (dc_storageRef d) \<noteq> None \<and> (dc_type d = PDF \<or> dc_type d = TEXT_TYPE) \<and>
     os_partial store (dc_storageRef d) 4096 = None"

lemma verify_cases:
  "case verify store (dc_storageRef d) (dc_type d) of
     None \<Rightarrow> unreadable store d
   | Some v \<Rightarrow> \<not> unreadable store d \<and>
       (ov_exists v \<and> ov_magicBytesValid v \<and> ov_sizeBytes v = dc_sizeBytes d \<longleftrightarrow> verified store d)"
proof -
  have "length pdf_magic = 4" by (simp add: pdf_magic_def)
  then show ?thesis
    by (auto simp: verify_def verified_def unreadable_def checkMagic_def readHead_def split: option.split)
qed


definition sample_document :: document_row where
  "sample_document = new_document ''d'' 0 ''u''
     \<lparr>uc_originalName = ''a.pdf'', uc_sizeBytes = 4, uc_type = PDF,
      uc_selection = \<lparr>ms_customModelConfigId = None, ms_kind = PLAN, ms_platformModelId = Some ''p''\<rparr>\<rparr> 1 ''P'' ''u/k.pdf''"

definition sample_course :: course_db where
  "sample_course = \<lparr>cs_documents = [sample_document], cs_outbox = [], cs_nextOutboxId = 1\<rparr>"

text \<open>A storage that keeps objects and always answers.\<close>

definition storing :: "(string \<Rightarrow> bytes option) \<Rightarrow> object_store" where
  "storing objects = \<lparr>os_stat = (\<lambda>key. map_option (int \<circ> length) (objects key)), os_partial = (\<lambda>key n. map_option (take n) (objects key))\<rparr>"

definition sample_store :: object_store where
  "sample_store = storing (\<lambda>key. if key = ''u/k.pdf'' then Some pdf_magic else None)"

lemma sample_course_ok: "course_ok sample_course"
  by (simp add: course_ok_def sample_course_def sample_document_def new_document_def document_ok_def fits_int8_def)


section \<open>Projection of results\<close>

lemma project_Inr:
  "project t c db = (Inr (), db') \<Longrightarrow>
     db' = db\<lparr>cs_documents := map (\<lambda>d. if projectable c d then projected_row t c d else d) (cs_documents db)\<rparr>"
  by (auto simp: project_def projectProcessingResult_def split: if_splits)

lemma project_nothing:
  assumes "\<And>d. d \<in> set (cs_documents db) \<Longrightarrow> \<not> projectable c d"
  shows "snd (project t c db) = db"
proof -
  have "map (\<lambda>d. if projectable c d then projected_row t c d else d) (cs_documents db) = cs_documents db"
    using assms by (intro map_idI) simp
  then show ?thesis by (simp add: project_def projectProcessingResult_def)
qed

lemma projected_not_projectable:
  assumes "project t c db = (Inr (), db1)" and "pj_status c \<noteq> PROCESSING" and "d \<in> set (cs_documents db1)"
    and "pj_documentId c' = pj_documentId c" and "pj_ownerId c' = pj_ownerId c"
  shows "\<not> projectable c' d"
proof
  assume p: "projectable c' d"
  have "cs_documents db1 = map (\<lambda>d. if projectable c d then projected_row t c d else d) (cs_documents db)"
    unfolding project_Inr [OF assms(1)] by simp
  then have "d \<in> (\<lambda>d. if projectable c d then projected_row t c d else d) ` set (cs_documents db)"
    using assms(3) by (simp only: set_map)
  then obtain x where x: "d = (if projectable c x then projected_row t c x else x)" by (rule imageE)
  show False
  proof (cases "projectable c x")
    case True
    with x p assms(2) show False by (simp add: projectable_def)
  next
    case False
    with x have "d = x" by simp
    with p False assms(4,5) show False by (auto simp: projectable_def)
  qed
qed

text \<open>C19 A result is projected at most once and only onto its own document: after a result was
  projected, no result for that document, the same delivered again or another, changes anything
  until the owner confirms again, and documents of other identifiers, other owners or in another
  status are never touched.\<close>

theorem projection_once:
  assumes "project t c db = (Inr (), db1)" and "pj_status c = READY \<or> pj_status c = DOCUMENT_FAILED"
    and "pj_documentId c' = pj_documentId c" and "pj_ownerId c' = pj_ownerId c"
  shows "snd (project t' c' db1) = db1
    \<and> list_all2 (\<lambda>d d1. if dc_id d = pj_documentId c \<and> dc_ownerId d = pj_ownerId c \<and> dc_status d = PROCESSING
          then d1 = projected_row t c d else d1 = d) (cs_documents db) (cs_documents db1)
    \<and> cs_outbox db1 = cs_outbox db"
proof -
  have "pj_status c \<noteq> PROCESSING" using assms(2) by auto
  then have "snd (project t' c' db1) = db1"
    using projected_not_projectable [OF assms(1) _ _ assms(3,4)] by (intro project_nothing) blast
  moreover have "list_all2 (\<lambda>d d1. if dc_id d = pj_documentId c \<and> dc_ownerId d = pj_ownerId c \<and> dc_status d = PROCESSING
          then d1 = projected_row t c d else d1 = d) (cs_documents db) (cs_documents db1)"
    unfolding project_Inr [OF assms(1)] by (simp add: list_all2_conv_all_nth projectable_def)
  ultimately show ?thesis by (simp add: project_Inr [OF assms(1)])
qed

definition sample_projection :: projection_command where
  "sample_projection = \<lparr>pj_budgetStatus = None, pj_documentId = ''d'', pj_estimatedCredits = None, pj_estimateStatus = None,
     pj_errorCode = None, pj_errorMessage = None, pj_ownerId = ''u'', pj_settledCredits = None, pj_status = READY\<rparr>"

lemma projection_once_witness:
  "\<exists>db1. project 9 sample_projection (snd (confirm sample_store 7 ''u'' ''d'' sample_course)) = (Inr (), db1)
     \<and> snd (project 10 (sample_projection\<lparr>pj_status := DOCUMENT_FAILED\<rparr>) db1) = db1"
proof -
  let ?db = "snd (confirm sample_store 7 ''u'' ''d'' sample_course)"
  have "fst (project 9 sample_projection ?db) = Inr ()"
    by (simp add: project_def projectProcessingResult_def sample_projection_def is_bigint_def short_status_def)
  then obtain db1 where p: "project 9 sample_projection ?db = (Inr (), db1)" by (metis prod.collapse)
  have a: "pj_status sample_projection = READY \<or> pj_status sample_projection = DOCUMENT_FAILED"
    "pj_documentId (sample_projection\<lparr>pj_status := DOCUMENT_FAILED\<rparr>) = pj_documentId sample_projection"
    "pj_ownerId (sample_projection\<lparr>pj_status := DOCUMENT_FAILED\<rparr>) = pj_ownerId sample_projection"
    by (simp_all add: sample_projection_def)
  from projection_once [OF p a] p show ?thesis by blast
qed

section \<open>Uploads\<close>

text \<open>A document for a custom model can never be stored: the row the upload writes for a CUSTOM
  selection has no platform model, which the column does not allow, so whatever the request, the
  upload fails and no document is kept.\<close>

theorem custom_documents_never_stored:
  assumes "ms_kind (uc_selection c) = CUSTOM"
  shows "\<exists>e mdb'. createUploadUrl sign bucket expiry models free uuid newId now w c (db, mdb) = (Inl e, db, mdb')"
proof -
  have "\<not> document_ok (new_document newId now w c credits label ref)" for credits label ref
    using assms by (auto simp: document_ok_def new_document_def)
  then have "\<exists>e. createUploaded newId now w c credits label ref db = (Inl e, db)" for credits label ref
    by (auto simp: createUploaded_def Let_def split: option.split)
  note fails = this
  obtain est mdb1 where est: "estimateModelSelection models free w (uc_sizeBytes c) (uc_selection c) mdb = (est, mdb1)"
    by fastforce
  show ?thesis
  proof (cases "resolveDocumentUploadPolicy (uc_type c) (uc_originalName c)")
    case (Inl e)
    then show ?thesis by (simp add: createUploadUrl_def)
  next
    case (Inr policy)
    show ?thesis
    proof (cases est)
      case (Inl e)
      with \<open>resolveDocumentUploadPolicy _ _ = _\<close> est show ?thesis by (simp add: createUploadUrl_def)
    next
      case (Inr cl)
      obtain credits label where "cl = (credits, label)" by fastforce
      moreover obtain e where "createUploaded newId now w c credits label (w @ CHR ''/'' # uuid @ up_extension policy) db = (Inl e, db)"
        using fails by blast
      ultimately show ?thesis
        using \<open>resolveDocumentUploadPolicy _ _ = _\<close> est Inr by (simp add: createUploadUrl_def)
    qed
  qed
qed

lemma custom_documents_never_stored_witness:
  "\<exists>e mdb'. createUploadUrl (\<lambda>_. Some ([], ''u'')) ''b'' 300 [] 0 ''k'' ''d'' 0 ''u''
     \<lparr>uc_originalName = ''a.pdf'', uc_sizeBytes = 4, uc_type = PDF,
      uc_selection = \<lparr>ms_customModelConfigId = Some ''c'', ms_kind = CUSTOM, ms_platformModelId = None\<rparr>\<rparr>
     (sample_course, empty_models) = (Inl e, sample_course, mdb')"
  by (rule custom_documents_never_stored) simp

text \<open>The check of a text upload reads only the first 4096 bytes, and a character that crosses that
  boundary makes it refuse a well-formed UTF-8 file: for every ASCII text of 4095 bytes without NUL,
  that text followed by U+00E9 is well-formed but fails verification.\<close>

theorem verifier_cuts_utf8:
  assumes "length p = 4095" and "\<forall>b\<in>set p. byte_in 1 0x7F b"
  shows "is_utf8 (p @ [0xC3, 0xA9]) \<and> 0 \<notin> set (p @ [0xC3, 0xA9])
    \<and> map_option ov_magicBytesValid (verify (storing (\<lambda>_. Some (p @ [0xC3, 0xA9]))) key TEXT_TYPE) = Some False"
proof -
  have pre: "is_utf8 (q @ r) = is_utf8 r" if "\<forall>b\<in>set q. byte_in 1 0x7F b" for q r
    using that by (induction q) (auto simp: byte_in_def)
  have "is_utf8 [0xC3, 0xA9]" "\<not> is_utf8 [0xC3]" by (simp_all add: byte_in_def)
  then have u: "is_utf8 (p @ [0xC3, 0xA9])" "\<not> is_utf8 (p @ [0xC3])" using pre [OF assms(2)] by blast+
  have cut: "take 4096 (p @ [0xC3, 0xA9]) = p @ [0xC3]" using assms(1) by simp
  have z: "0 \<notin> set (p @ [0xC3, 0xA9])" using assms(2) by (auto simp: byte_in_def)
  have h: "readHead (storing (\<lambda>_. Some (p @ [0xC3, 0xA9]))) key 4096 = Some (p @ [0xC3])"
    by (simp only: readHead_def storing_def object_store.select_convs option.map take_take min.idem) (simp only: cut)
  show ?thesis
    using u z unfolding verify_def checkMagic_def h by (simp add: storing_def del: is_utf8.simps)
qed

lemma verifier_cuts_utf8_witness:
  "map_option ov_magicBytesValid (verify (storing (\<lambda>_. Some (replicate 4095 0x61 @ [0xC3, 0xA9]))) ''k'' TEXT_TYPE) = Some False"
proof -
  have "length (replicate 4095 (0x61 :: 8 word)) = 4095" "\<forall>b\<in>set (replicate 4095 (0x61 :: 8 word)). byte_in 1 0x7F b"
    by (simp_all add: byte_in_def)
  from verifier_cuts_utf8 [OF this] show ?thesis by blast
qed

end
