(* ===== verification/ForwardRelay.thy ===== *)
theory ForwardRelay imports Content begin

text \<open>
  The forward seam: \<open>content/forward-relay.service.ts\<close> reads the outbox of the documents
  (\<open>course-outbox.repository.ts\<close>), enqueues a job through \<open>ai/ai-ingestion.service.ts\<close> and marks the
  event published, in two separate transactions.  A pump is the list of its transactions in order,
  so a process that dies after any of them is a prefix of that list.
\<close>

section \<open>Ingestion\<close>

definition buildKey :: "digest \<Rightarrow> string \<Rightarrow> string \<Rightarrow> string" where
  "buildKey dg documentId jobType = slice 0 64 (sha256 dg (documentId @ CHR '':'' # jobType))"

definition ingest :: "digest \<Rightarrow> (nat \<Rightarrow> string) \<Rightarrow> int \<Rightarrow> nat \<Rightarrow> enqueue_command \<Rightarrow> ai_db \<Rightarrow> (db_failure + unit) \<times> ai_db" where
  "ingest dg ids now n cmd = enqueue (ids n) now cmd (buildKey dg (ec_documentId cmd) (ec_jobType cmd))"

section \<open>Relay\<close>

definition findUnpublished :: "nat \<Rightarrow> course_db \<Rightarrow> course_outbox_row list" where
  "findUnpublished limit db = take limit (sort_key co_createdAt (filter (\<lambda>e. co_publishedAt e = None) (cs_outbox db)))"

definition markPublished :: "nat \<Rightarrow> int \<Rightarrow> course_db \<Rightarrow> course_db" where
  "markPublished id' now db =
     db\<lparr>cs_outbox := map (\<lambda>e. if co_id e = id' then e\<lparr>co_publishedAt := Some now\<rparr> else e) (cs_outbox db)\<rparr>"

text \<open>
  The payload is used as it is.  \<^const>\<open>None\<close> where the command would carry something that is no
  string, which the columns of the job refuse.
\<close>

definition str_at :: "(string \<times> json) list \<Rightarrow> string \<Rightarrow> string option" where
  "str_at payload k = (case obj_get payload k of Some (JStr s) \<Rightarrow> Some s | _ \<Rightarrow> None)"

definition nullish_at :: "(string \<times> json) list \<Rightarrow> string \<Rightarrow> bool" where
  "nullish_at payload k \<longleftrightarrow> obj_get payload k = None \<or> obj_get payload k = Some JNull"

definition opt_str_at :: "(string \<times> json) list \<Rightarrow> string \<Rightarrow> string option option" where
  "opt_str_at payload k = (if nullish_at payload k then Some None else map_option Some (str_at payload k))"

definition kind_at :: "(string \<times> json) list \<Rightarrow> selection_kind option" where
  "kind_at payload =
     (if str_at payload ''kind'' = Some ''PLAN'' then Some PLAN
      else if str_at payload ''kind'' = Some ''CUSTOM'' then Some CUSTOM else None)"

definition command_from :: "string \<Rightarrow> (string \<times> json) list \<Rightarrow> enqueue_command option" where
  "command_from aggregateId p =
     (case (str_at p ''documentId'', str_at p ''ownerId'', opt_str_at p ''jobType'', opt_str_at p ''customModelConfigId'',
            kind_at p, opt_str_at p ''platformModelId'') of
        (Some d, Some w, Some t, Some custom, Some k, Some platform) \<Rightarrow>
          Some \<lparr>ec_correlationId = aggregateId, ec_documentId = d,
                ec_jobType = (case t of None \<Rightarrow> ''FULL_PIPELINE'' | Some s \<Rightarrow> s), ec_ownerId = w,
                ec_selection = Some \<lparr>ms_customModelConfigId = custom, ms_kind = k, ms_platformModelId = platform\<rparr>\<rparr>
      | _ \<Rightarrow> None)"

definition command_of :: "course_outbox_row \<Rightarrow> enqueue_command option" where
  "command_of row = command_from (co_aggregateId row) (co_payload row)"

datatype forward_action = Enqueue course_outbox_row | MarkPublished nat

definition pump_actions :: "nat \<Rightarrow> course_db \<Rightarrow> forward_action list" where
  "pump_actions limit db = concat (map (\<lambda>row. [Enqueue row, MarkPublished (co_id row)]) (findUnpublished limit db))"

fun forward_step ::
  "(nat \<Rightarrow> enqueue_command \<Rightarrow> 's \<Rightarrow> (db_failure + unit) \<times> 's) \<Rightarrow> int \<Rightarrow> forward_action \<Rightarrow> course_db \<times> 's
     \<Rightarrow> (db_failure + unit) \<times> course_db \<times> 's" where
  "forward_step ingestion now (Enqueue row) (db, s) =
     (case command_of row of
        None \<Rightarrow> (Inl DbFailure, db, s)
      | Some cmd \<Rightarrow> (case ingestion (co_id row) cmd s of (r, s') \<Rightarrow> (r, db, s')))"
| "forward_step ingestion now (MarkPublished i) (db, s) = (Inr (), markPublished i now db, s)"

fun run_forward ::
  "(nat \<Rightarrow> enqueue_command \<Rightarrow> 's \<Rightarrow> (db_failure + unit) \<times> 's) \<Rightarrow> int \<Rightarrow> forward_action list \<Rightarrow> course_db \<times> 's
     \<Rightarrow> (db_failure + unit) \<times> course_db \<times> 's" where
  "run_forward ingestion now [] s = (Inr (), s)"
| "run_forward ingestion now (a # as) s =
     (case forward_step ingestion now a s of (Inl e, s') \<Rightarrow> (Inl e, s') | (Inr _, s') \<Rightarrow> run_forward ingestion now as s')"

definition forward_pump ::
  "(nat \<Rightarrow> enqueue_command \<Rightarrow> 's \<Rightarrow> (db_failure + unit) \<times> 's) \<Rightarrow> int \<Rightarrow> nat \<Rightarrow> course_db \<times> 's
     \<Rightarrow> (db_failure + unit) \<times> course_db \<times> 's" where
  "forward_pump ingestion now limit s = run_forward ingestion now (pump_actions limit (fst s)) s"

section \<open>Delivery\<close>

text \<open>Every published event has its job.\<close>

definition delivered :: "(string \<Rightarrow> string \<Rightarrow> 's \<Rightarrow> bool) \<Rightarrow> course_db \<times> 's \<Rightarrow> bool" where
  "delivered has_job s \<longleftrightarrow>
     (\<forall>e\<in>set (cs_outbox (fst s)). co_publishedAt e \<noteq> None \<longrightarrow>
        (\<exists>cmd. command_of e = Some cmd \<and> has_job (ec_documentId cmd) (ec_jobType cmd) (snd s)))"

text \<open>What the relay relies on: an accepted command has its job, and no job is ever lost.\<close>

locale ingestion_port =
  fixes ingestion :: "nat \<Rightarrow> enqueue_command \<Rightarrow> 's \<Rightarrow> (db_failure + unit) \<times> 's"
    and has_job :: "string \<Rightarrow> string \<Rightarrow> 's \<Rightarrow> bool"
  assumes accepted: "ingestion n cmd s = (Inr (), s') \<Longrightarrow> has_job (ec_documentId cmd) (ec_jobType cmd) s'"
    and kept: "has_job d t s \<Longrightarrow> has_job d t (snd (ingestion n cmd s))"
begin

lemma command_of_mark [simp]: "command_of (e\<lparr>co_publishedAt := t\<rparr>) = command_of e"
  by (simp add: command_of_def)

lemma delivered_enqueue:
  assumes "delivered has_job (db, s)"
  shows "delivered has_job (db, snd (ingestion n cmd s))"
  using assms kept unfolding delivered_def by fastforce

lemma delivered_mark:
  assumes "delivered has_job (db, s)" and "distinct (map co_id (cs_outbox db))" and "row \<in> set (cs_outbox db)"
    and "command_of row = Some cmd" and "has_job (ec_documentId cmd) (ec_jobType cmd) s"
  shows "delivered has_job (markPublished (co_id row) now db, s)"
proof -
  have "\<exists>cmd. command_of e = Some cmd \<and> has_job (ec_documentId cmd) (ec_jobType cmd) s"
    if e: "e \<in> set (cs_outbox (markPublished (co_id row) now db))" "co_publishedAt e \<noteq> None" for e
  proof -
    from e(1) obtain x where x: "x \<in> set (cs_outbox db)"
      "e = (if co_id x = co_id row then x\<lparr>co_publishedAt := Some now\<rparr> else x)"
      by (auto simp: markPublished_def)
    show ?thesis
    proof (cases "co_id x = co_id row")
      case True
      with distinct_map_eqD [OF assms(2) x(1) assms(3)] have "x = row" by simp
      with x(2) True assms(4,5) show ?thesis by simp
    next
      case False
      with x e(2) assms(1) show ?thesis by (simp add: delivered_def)
    qed
  qed
  then show ?thesis by (simp add: delivered_def)
qed

lemma mark_keeps:
  assumes "r \<in> set (cs_outbox db)" and "co_id r \<noteq> i"
  shows "r \<in> set (cs_outbox (markPublished i now db))"
  using assms by (force simp: markPublished_def)

lemma mark_ids: "map co_id (cs_outbox (markPublished i now db)) = map co_id (cs_outbox db)"
  by (simp add: markPublished_def)

text \<open>Any prefix of a pump, over any rows of the outbox.\<close>

lemma prefix_delivered:
  assumes "delivered has_job (db, s)" and "distinct (map co_id (cs_outbox db))"
    and "set rows \<subseteq> set (cs_outbox db)" and "distinct (map co_id rows)"
  shows "delivered has_job (snd (run_forward ingestion now (take n (concat (map (\<lambda>row. [Enqueue row, MarkPublished (co_id row)]) rows))) (db, s)))"
  using assms
proof (induction rows arbitrary: n db s)
  case (Cons r rows)
  let ?rest = "concat (map (\<lambda>row. [Enqueue row, MarkPublished (co_id row)]) rows)"
  show ?case
  proof (cases "command_of r")
    case None
    then show ?thesis using Cons.prems by (cases n) simp_all
  next
    case (Some cmd)
    obtain res s' where i: "ingestion (co_id r) cmd s = (res, s')" by fastforce
    have d1: "delivered has_job (db, s')"
      using delivered_enqueue [OF Cons.prems(1), of "co_id r" cmd] i by simp
    show ?thesis
    proof (cases res)
      case (Inl e)
      with Some i d1 Cons.prems(1) show ?thesis by (cases n) simp_all
    next
      case (Inr u)
      then have acc: "has_job (ec_documentId cmd) (ec_jobType cmd) s'" using accepted i by simp
      let ?db = "markPublished (co_id r) now db"
      have d2: "delivered has_job (?db, s')"
        using Cons.prems acc by (intro delivered_mark [OF d1 _ _ Some]) auto
      have "set rows \<subseteq> set (cs_outbox ?db)"
      proof
        fix x assume x: "x \<in> set rows"
        then have "co_id x \<noteq> co_id r" using Cons.prems(4) by (auto simp: image_iff)
        with x Cons.prems(3) show "x \<in> set (cs_outbox ?db)" by (intro mark_keeps) auto
      qed
      moreover have "distinct (map co_id (cs_outbox ?db))" using Cons.prems(2) by (simp add: mark_ids)
      ultimately have ih: "delivered has_job (snd (run_forward ingestion now (take m ?rest) (?db, s')))" for m
        using Cons.IH [OF d2] Cons.prems(4) by simp
      consider "n = 0" | "n = 1" | m where "n = Suc (Suc m)" by (metis One_nat_def not0_implies_Suc)
      then show ?thesis
      proof cases
        case 1
        with Cons.prems(1) show ?thesis by simp
      next
        case 2
        with Some i Inr d1 show ?thesis by simp
      next
        case 3
        with Some i Inr ih show ?thesis by simp
      qed
    qed
  qed
qed simp

end

section \<open>The queue provides the port\<close>

definition has_job :: "string \<Rightarrow> string \<Rightarrow> ai_db \<Rightarrow> bool" where
  "has_job d t db \<longleftrightarrow> list_ex (\<lambda>j. j_documentId j = d \<and> j_jobType j = t) (ai_jobs db)"

lemma has_job_update:
  "keeps_identity f \<Longrightarrow> list_ex (\<lambda>j. j_documentId j = d \<and> j_jobType j = t) (update_jobs P f jobs)
     = list_ex (\<lambda>j. j_documentId j = d \<and> j_jobType j = t) jobs"
  by (induction jobs) (simp_all add: update_jobs_def keeps_identity_def)

lemma enqueue_jobs:
  fixes now :: int
  defines "f \<equiv> \<lambda>j. j\<lparr>j_status := PENDING, j_attempts := j_attempts j + 1, j_technicalRetryCount := 0, j_updatedAt := now\<rparr>"
  shows "ai_jobs (snd (enqueue i now cmd key db)) =
     (if has_job (ec_documentId cmd) (ec_jobType cmd) db
      then update_jobs (\<lambda>j. j_documentId j = ec_documentId cmd \<and> j_jobType j = ec_jobType cmd \<and> j_status j = FAILED) f (ai_jobs db)
      else if list_ex (\<lambda>j. j_idempotencyKey j = key \<or> j_id j = i) (ai_jobs db) then ai_jobs db
      else ai_jobs db @ [new_job i now cmd key])"
  by (simp add: enqueue_def has_job_def f_def)

lemma has_job_enqueue:
  "has_job d t (snd (enqueue i now cmd key db)) \<longleftrightarrow>
     has_job d t db \<or> fst (enqueue i now cmd key db) = Inr () \<and> d = ec_documentId cmd \<and> t = ec_jobType cmd"
proof -
  have same: "list_ex (\<lambda>j. j_documentId j = d \<and> j_jobType j = t) (update_jobs P
      (\<lambda>j. j\<lparr>j_status := PENDING, j_attempts := j_attempts j + 1, j_technicalRetryCount := 0, j_updatedAt := now\<rparr>) (ai_jobs db))
      = has_job d t db" for P
    unfolding has_job_def by (rule has_job_update) (rule keeps_identity_simps)
  consider (old) "has_job (ec_documentId cmd) (ec_jobType cmd) db"
    | (clash) "\<not> has_job (ec_documentId cmd) (ec_jobType cmd) db"
        "list_ex (\<lambda>j. j_idempotencyKey j = key \<or> j_id j = i) (ai_jobs db)"
    | (new) "\<not> has_job (ec_documentId cmd) (ec_jobType cmd) db"
        "\<not> list_ex (\<lambda>j. j_idempotencyKey j = key \<or> j_id j = i) (ai_jobs db)" by blast
  then show ?thesis
  proof cases
    case old
    then have "has_job d t (snd (enqueue i now cmd key db)) = has_job d t db"
      unfolding has_job_def [of d t "snd _"] enqueue_jobs by (simp only: if_True same)
    with old show ?thesis by auto
  next
    case clash
    then have "fst (enqueue i now cmd key db) = Inl DbFailure" by (simp add: enqueue_def has_job_def)
    moreover have "has_job d t (snd (enqueue i now cmd key db)) = has_job d t db"
      unfolding has_job_def [of d t "snd _"] enqueue_jobs using clash by (simp add: has_job_def)
    ultimately show ?thesis by simp
  next
    case new
    then have "fst (enqueue i now cmd key db) = Inr ()" by (simp add: enqueue_def has_job_def)
    moreover have "has_job d t (snd (enqueue i now cmd key db)) \<longleftrightarrow> has_job d t db \<or> d = ec_documentId cmd \<and> t = ec_jobType cmd"
      unfolding has_job_def [of d t "snd _"] enqueue_jobs using new by (auto simp: has_job_def)
    ultimately show ?thesis by simp
  qed
qed

lemma enqueue_has_job: "enqueue i now cmd key db = (Inr (), db') \<Longrightarrow> has_job (ec_documentId cmd) (ec_jobType cmd) db'"
  using has_job_enqueue [of "ec_documentId cmd" "ec_jobType cmd" i now cmd key db] by simp

lemma enqueue_keeps_job: "has_job d t db \<Longrightarrow> has_job d t (snd (enqueue i now cmd key db))"
  by (simp add: has_job_enqueue)

interpretation ai_ingestion: ingestion_port "ingest dg ids now" has_job for dg ids now
  by unfold_locales (auto simp: ingest_def intro: enqueue_has_job enqueue_keeps_job)

section \<open>A pump succeeds\<close>

lemma pump_publishes:
  assumes "run_forward ingestion now (concat (map (\<lambda>row. [Enqueue row, MarkPublished (co_id row)]) rows)) (db, s) = (Inr (), db', s')"
  shows "cs_outbox db' = map (\<lambda>e. if co_id e \<in> co_id ` set rows then e\<lparr>co_publishedAt := Some now\<rparr> else e) (cs_outbox db)"
  using assms
proof (induction rows arbitrary: db s)
  case (Cons r rows)
  from Cons.prems obtain cmd s1 where "run_forward ingestion now (concat (map (\<lambda>row. [Enqueue row, MarkPublished (co_id row)]) rows))
      (markPublished (co_id r) now db, s1) = (Inr (), db', s')"
    by (auto split: option.splits prod.splits sum.splits)
  from Cons.IH [OF this] show ?case by (simp add: markPublished_def)
qed simp

definition job_keys :: "ai_db \<Rightarrow> (string \<times> string \<times> string \<times> string) list" where
  "job_keys db = map (\<lambda>j. (j_id j, j_documentId j, j_jobType j, j_idempotencyKey j)) (ai_jobs db)"

definition command_pairs :: "course_outbox_row list \<Rightarrow> (string \<times> string) set" where
  "command_pairs rows = {(ec_documentId c, ec_jobType c) | c. \<exists>r\<in>set rows. command_of r = Some c}"

text \<open>
  The identifiers the database draws are new, and the digest does not collide on the documents at
  hand.
\<close>

definition enqueueable :: "digest \<Rightarrow> (nat \<Rightarrow> string) \<Rightarrow> course_outbox_row list \<Rightarrow> ai_db \<Rightarrow> bool" where
  "enqueueable dg ids rows db \<longleftrightarrow>
     (\<forall>(i, d, t, k)\<in>set (job_keys db). k = buildKey dg d t) \<and>
     inj_on (\<lambda>(d, t). buildKey dg d t) ((\<lambda>(i, d, t, k). (d, t)) ` set (job_keys db) \<union> command_pairs rows) \<and>
     inj_on ids (co_id ` set rows) \<and> ids ` co_id ` set rows \<inter> fst ` set (job_keys db) = {}"

lemma in_job_keys:
  "(i, d, t, k) \<in> set (job_keys db) \<longleftrightarrow>
     (\<exists>j\<in>set (ai_jobs db). j_id j = i \<and> j_documentId j = d \<and> j_jobType j = t \<and> j_idempotencyKey j = k)"
  by (auto simp: job_keys_def image_iff)

lemma has_job_keys: "has_job d t db \<longleftrightarrow> (\<exists>i k. (i, d, t, k) \<in> set (job_keys db))"
  by (auto simp: has_job_def list_ex_iff in_job_keys)

lemma update_jobs_keys:
  "keeps_identity f \<Longrightarrow> map (\<lambda>j. (j_id j, j_documentId j, j_jobType j, j_idempotencyKey j)) (update_jobs P f jobs)
     = map (\<lambda>j. (j_id j, j_documentId j, j_jobType j, j_idempotencyKey j)) jobs"
  by (simp add: update_jobs_def keeps_identity_def)

lemma ingest_enqueueable:
  assumes ok: "enqueueable dg ids (r # rows) db" and cmd: "command_of r = Some cmd" and new: "co_id r \<notin> co_id ` set rows"
  shows "fst (ingest dg ids now (co_id r) cmd db) = Inr ()"
    and "enqueueable dg ids rows (snd (ingest dg ids now (co_id r) cmd db))"
proof -
  let ?d = "ec_documentId cmd" and ?t = "ec_jobType cmd"
  let ?key = "buildKey dg ?d ?t"
  let ?db' = "snd (ingest dg ids now (co_id r) cmd db)"
  have pair: "(?d, ?t) \<in> command_pairs (r # rows)" using cmd by (auto simp: command_pairs_def)
  have sub: "command_pairs rows \<subseteq> command_pairs (r # rows)" by (auto simp: command_pairs_def)
  have no_clash: "\<not> list_ex (\<lambda>j. j_idempotencyKey j = ?key \<or> j_id j = ids (co_id r)) (ai_jobs db)" if fresh: "\<not> has_job ?d ?t db"
  proof
    assume "list_ex (\<lambda>j. j_idempotencyKey j = ?key \<or> j_id j = ids (co_id r)) (ai_jobs db)"
    then obtain i d t k where j: "(i, d, t, k) \<in> set (job_keys db)" "k = ?key \<or> i = ids (co_id r)"
      unfolding list_ex_iff in_job_keys by blast
    have "ids (co_id r) \<notin> fst ` set (job_keys db)" using ok by (auto simp: enqueueable_def)
    moreover have "i \<in> fst ` set (job_keys db)" using j(1) by (rule image_eqI [rotated]) simp
    ultimately have "i \<noteq> ids (co_id r)" by metis
    with j(2) have "k = ?key" by simp
    moreover have "k = buildKey dg d t" using ok j(1) by (auto simp: enqueueable_def)
    ultimately have eq: "(\<lambda>(d, t). buildKey dg d t) (d, t) = (\<lambda>(d, t). buildKey dg d t) (?d, ?t)" by simp
    have inj: "inj_on (\<lambda>(d, t). buildKey dg d t) ((\<lambda>(i, d, t, k). (d, t)) ` set (job_keys db) \<union> command_pairs (r # rows))"
      using ok unfolding enqueueable_def by (elim conjE)
    have "(d, t) \<in> (\<lambda>(i, d, t, k). (d, t)) ` set (job_keys db)" using j(1) by (rule image_eqI [rotated]) simp
    from inj_onD [OF inj eq UnI1 [OF this] UnI2 [OF pair]] have "(d, t) = (?d, ?t)" .
    with fresh j(1) show False by (auto simp: has_job_keys)
  qed
  show "fst (ingest dg ids now (co_id r) cmd db) = Inr ()"
    using no_clash by (auto simp: ingest_def enqueue_def has_job_def)
  have keys: "job_keys ?db' = job_keys db @ (if has_job ?d ?t db then [] else [(ids (co_id r), ?d, ?t, ?key)])"
  proof (cases "has_job ?d ?t db")
    case True
    then show ?thesis
      unfolding job_keys_def ingest_def enqueue_jobs
      by (simp only: update_jobs_keys keeps_identity_simps if_True append_Nil2)
  next
    case False
    with no_clash [OF False] show ?thesis
      unfolding job_keys_def ingest_def enqueue_jobs by simp
  qed
  let ?pairs = "(\<lambda>(i, d, t, k). (d, t)) ` set (job_keys db)"
  have inj: "inj_on (\<lambda>(d, t). buildKey dg d t) (?pairs \<union> command_pairs (r # rows))"
    using ok unfolding enqueueable_def by (elim conjE)
  have jobs: "\<forall>(i, d, t, k)\<in>set (job_keys db). k = buildKey dg d t"
    using ok unfolding enqueueable_def by (elim conjE)
  have inj_ids: "inj_on ids (co_id ` set (r # rows))"
    using ok unfolding enqueueable_def by (elim conjE)
  have disj: "ids ` co_id ` set (r # rows) \<inter> fst ` set (job_keys db) = {}"
    using ok unfolding enqueueable_def by (elim conjE)
  have sub': "(\<lambda>(i, d, t, k). (d, t)) ` set (job_keys ?db') \<union> command_pairs rows \<subseteq> ?pairs \<union> command_pairs (r # rows)"
    using pair sub by (auto simp: keys)
  have "ids (co_id r) \<notin> ids ` co_id ` set rows"
  proof
    assume "ids (co_id r) \<in> ids ` co_id ` set rows"
    then obtain x where x: "x \<in> set rows" "ids (co_id r) = ids (co_id x)" by auto
    from inj_onD [OF inj_ids x(2)] x(1) have "co_id r = co_id x" by simp
    with new x(1) show False by simp
  qed
  moreover have "ids ` co_id ` set rows \<inter> fst ` set (job_keys db) = {}" using disj by auto
  ultimately have disj': "ids ` co_id ` set rows \<inter> fst ` set (job_keys ?db') = {}"
    by (simp add: keys)
  have jobs': "\<forall>(i, d, t, k)\<in>set (job_keys ?db'). k = buildKey dg d t"
    using jobs by (simp add: keys)
  have inj_ids': "inj_on ids (co_id ` set rows)" using inj_ids by (rule inj_on_subset) auto
  show "enqueueable dg ids rows ?db'"
    unfolding enqueueable_def using jobs' inj_on_subset [OF inj sub'] inj_ids' disj' by (intro conjI)
qed

lemma pump_runs:
  assumes "enqueueable dg ids rows s" and "distinct (map co_id rows)" and "\<forall>r\<in>set rows. command_of r \<noteq> None"
  shows "fst (run_forward (ingest dg ids now) now (concat (map (\<lambda>row. [Enqueue row, MarkPublished (co_id row)]) rows)) (db, s)) = Inr ()"
  using assms
proof (induction rows arbitrary: db s)
  case (Cons r rows)
  from Cons.prems(3) obtain cmd where cmd: "command_of r = Some cmd" by auto
  have new: "co_id r \<notin> co_id ` set rows" using Cons.prems(2) by simp
  note I = ingest_enqueueable [OF Cons.prems(1) cmd new, of now]
  obtain s' where s': "ingest dg ids now (co_id r) cmd s = (Inr (), s')"
    using I(1) by (metis prod.collapse)
  have "enqueueable dg ids rows s'" using I(2) s' by simp
  with Cons.IH Cons.prems(2,3) show ?case by (simp add: cmd s')
qed simp

section \<open>The forward seam\<close>

lemma command_of_ready [simp]:
  "command_from i (ready_payload d w sel) =
     Some \<lparr>ec_correlationId = i, ec_documentId = d, ec_jobType = ''FULL_PIPELINE'', ec_ownerId = w, ec_selection = Some sel\<rparr>"
  by (cases "ms_kind sel")
    (auto simp: command_from_def ready_payload_def str_at_def opt_str_at_def nullish_at_def kind_at_def obj_get_def
      nullable_str_def split: option.split)

lemma findUnpublished_sub: "set (findUnpublished n db) \<subseteq> set (cs_outbox db)"
  using set_take_subset [of n "sort_key co_createdAt (filter (\<lambda>e. co_publishedAt e = None) (cs_outbox db))"]
  by (auto simp: findUnpublished_def)

lemma findUnpublished_distinct: "distinct (map co_id (cs_outbox db)) \<Longrightarrow> distinct (map co_id (findUnpublished n db))"
proof -
  assume "distinct (map co_id (cs_outbox db))"
  then have "inj_on co_id (set (cs_outbox db))" and d: "distinct (cs_outbox db)" by (simp_all add: distinct_map)
  with findUnpublished_sub [of n db] have "inj_on co_id (set (findUnpublished n db))" by (blast intro: inj_on_subset)
  moreover have "distinct (findUnpublished n db)" using d by (simp add: findUnpublished_def)
  ultimately show ?thesis by (simp add: distinct_map)
qed

text \<open>C12 No document is lost on its way to the queue: whenever the relay dies, after any number n of its
  transactions and for any batch size, every event it had marked as published has its job.\<close>

theorem forward_never_loses:
  assumes "course_ok c" and "delivered has_job (c, a)"
  shows "delivered has_job (snd (run_forward (ingest dg ids now) now (take n (pump_actions limit c)) (c, a)))"
  unfolding pump_actions_def
  using assms findUnpublished_sub findUnpublished_distinct
  by (intro ai_ingestion.prefix_delivered) (simp_all add: course_ok_def)

text \<open>And every document gets there: with new identifiers and no digest collision on the documents at
  hand, a pump over well-formed events never fails; it publishes exactly the oldest events up to
  the batch size, and a batch as large as the backlog leaves none unpublished.\<close>

theorem forward_pump_succeeds:
  assumes "course_ok c" and "enqueueable dg ids (findUnpublished limit c) a"
    and "\<forall>e\<in>set (cs_outbox c). command_of e \<noteq> None"
  shows "\<exists>c' a'. forward_pump (ingest dg ids now) now limit (c, a) = (Inr (), c', a')
    \<and> cs_outbox c' = map (\<lambda>e. if co_id e \<in> co_id ` set (findUnpublished limit c) then e\<lparr>co_publishedAt := Some now\<rparr> else e) (cs_outbox c)
    \<and> (length (cs_outbox c) \<le> limit \<longrightarrow> (\<forall>e\<in>set (cs_outbox c'). co_publishedAt e \<noteq> None))"
proof -
  let ?rows = "findUnpublished limit c"
  have "fst (forward_pump (ingest dg ids now) now limit (c, a)) = Inr ()"
    unfolding forward_pump_def pump_actions_def fst_conv
    using assms findUnpublished_sub [of limit c] findUnpublished_distinct [of c limit]
    by (intro pump_runs) (auto simp: course_ok_def)
  then obtain c' a' where p: "forward_pump (ingest dg ids now) now limit (c, a) = (Inr (), c', a')"
    by (metis prod.collapse)
  then have out: "cs_outbox c' = map (\<lambda>e. if co_id e \<in> co_id ` set ?rows then e\<lparr>co_publishedAt := Some now\<rparr> else e) (cs_outbox c)"
    unfolding forward_pump_def pump_actions_def fst_conv by (rule pump_publishes)
  have "\<forall>e\<in>set (cs_outbox c'). co_publishedAt e \<noteq> None" if l: "length (cs_outbox c) \<le> limit"
  proof -
    have "length (filter (\<lambda>e. co_publishedAt e = None) (cs_outbox c)) \<le> limit"
      using l length_filter_le [of _ "cs_outbox c"] by (rule le_trans [rotated])
    then have "set ?rows = {e \<in> set (cs_outbox c). co_publishedAt e = None}"
      by (simp add: findUnpublished_def)
    then show ?thesis unfolding out by auto
  qed
  with p out show ?thesis by blast
qed

text \<open>The outbox a confirmed upload leaves.\<close>

definition confirmed_course :: course_db where
  "confirmed_course =
     \<lparr>cs_documents = [confirmed_row 7 sample_document],
      cs_outbox = [\<lparr>co_id = 1, co_aggregateId = ''d'', co_eventType = ready_event_type,
        co_payload = ready_payload ''d'' ''u'' \<lparr>ms_customModelConfigId = None, ms_kind = PLAN, ms_platformModelId = Some ''p''\<rparr>,
        co_createdAt = 7, co_publishedAt = None\<rparr>],
      cs_nextOutboxId = 2\<rparr>"


lemma confirmed_course_step: "confirmed_course = snd (confirmProcessing 7 ''u'' ''d'' \<lparr>ms_customModelConfigId = None, ms_kind = PLAN, ms_platformModelId = Some ''p''\<rparr> sample_course)"
  by (simp add: confirmed_course_def confirmProcessing_def Let_def append_course_event_def sample_course_def
      confirmable_def sample_document_def new_document_def confirmed_row_def ready_event_type_def)

lemma confirmed_course_ok: "course_ok confirmed_course"
  by (simp add: course_ok_def confirmed_course_def confirmed_row_def sample_document_def new_document_def document_ok_def fits_int8_def)

lemma confirmed_unpublished: "findUnpublished 10 confirmed_course = cs_outbox confirmed_course"
  by (simp add: findUnpublished_def confirmed_course_def)

lemma confirmed_enqueueable: "enqueueable sample_digest (\<lambda>n. ''j'') (findUnpublished 10 confirmed_course) empty_ai_db"
  by (simp add: enqueueable_def confirmed_unpublished)
   (simp add: confirmed_course_def command_pairs_def command_of_def job_keys_def empty_ai_db_def)

lemma forward_never_loses_witness:
  "delivered has_job (snd (run_forward (ingest sample_digest (\<lambda>n. ''j'') 8) 8 (take 1 (pump_actions 10 confirmed_course)) (confirmed_course, empty_ai_db)))"
proof -
  have "delivered has_job (confirmed_course, empty_ai_db)" by (simp add: delivered_def confirmed_course_def)
  from forward_never_loses [OF confirmed_course_ok this] show ?thesis .
qed

lemma forward_pump_succeeds_witness:
  "\<exists>c' a'. forward_pump (ingest sample_digest (\<lambda>n. ''j'') 8) 8 10 (confirmed_course, empty_ai_db) = (Inr (), c', a')
     \<and> (\<forall>e\<in>set (cs_outbox c'). co_publishedAt e \<noteq> None)"
proof -
  have "\<forall>e\<in>set (cs_outbox confirmed_course). command_of e \<noteq> None" by (simp add: confirmed_course_def command_of_def)
  moreover have "length (cs_outbox confirmed_course) \<le> 10" by (simp add: confirmed_course_def)
  ultimately show ?thesis
    using forward_pump_succeeds [OF confirmed_course_ok confirmed_enqueueable, of 8] by blast
qed

end
