(* ===== verification/ReturnRelay.thy ===== *)
theory ReturnRelay imports ForwardRelay AssessmentService begin

text \<open>
  The return seam: \<open>worker/return-relay.service.ts\<close> reads the result events of the queue
  (\<open>ai-outbox.repository.ts\<close>), stores the generated quiz, projects the outcome onto the document
  and marks the event published, each in a transaction of its own schema.
\<close>

section \<open>The result a payload carries\<close>

record processing_result =
  pr_budgetStatus :: "string option"
  pr_documentId :: string
  pr_estimatedCredits :: "rat option"
  pr_estimateStatus :: "string option"
  pr_errorCode :: "failure_code option"
  pr_errorMessage :: "string option"
  pr_ownerId :: string
  pr_questions :: "question_candidate list option"
  pr_settledCredits :: "rat option"
  pr_status :: result_status

text \<open>
  A value of \<open>jsonb\<close> has finite numbers only.  The parsers return \<^const>\<open>None\<close> for the
  \<open>undefined\<close> of the code, and where it reads a property of \<open>null\<close>: both end in an error of the
  parse stage.  A locator may be any object, also an array.
\<close>

fun json_string :: "json \<Rightarrow> string option" where
  "json_string (JStr s) = Some s"
| "json_string _ = None"

fun json_number :: "json \<Rightarrow> rat option" where
  "json_number (JNum (JFin r)) = Some r"
| "json_number _ = None"

fun json_bool :: "json \<Rightarrow> bool option" where
  "json_bool (JBool b) = Some b"
| "json_bool _ = None"

fun json_object :: "json \<Rightarrow> (string \<times> json) list option" where
  "json_object (JObj kvs) = Some kvs"
| "json_object _ = None"

fun json_array :: "json \<Rightarrow> json list option" where
  "json_array (JArr xs) = Some xs"
| "json_array _ = None"

definition field :: "(json \<Rightarrow> 'a option) \<Rightarrow> (string \<times> json) list \<Rightarrow> string \<Rightarrow> 'a option" where
  "field read kvs k = Option.bind (obj_get kvs k) read"

definition nullable_field :: "(json \<Rightarrow> 'a option) \<Rightarrow> (string \<times> json) list \<Rightarrow> string \<Rightarrow> 'a option option" where
  "nullable_field read kvs k =
     (case obj_get kvs k of
        None \<Rightarrow> Some None
      | Some v \<Rightarrow> if v = JNull then Some None else map_option Some (read v))"

definition integer_field :: "(string \<times> json) list \<Rightarrow> string \<Rightarrow> rat option" where
  "integer_field kvs k =
     (case field json_number kvs k of
        Some r \<Rightarrow> if js_is_integer (JFin r) then Some r else None | None \<Rightarrow> None)"

fun locator_of :: "json \<Rightarrow> citation_locator option" where
  "locator_of (JObj kvs) = Some
     (if field json_string kvs ''kind'' = Some ''page'' then
        (case field json_number kvs ''page'' of Some p \<Rightarrow> PageLocator (JFin p) | None \<Rightarrow> MalformedLocator)
      else if field json_string kvs ''kind'' = Some ''text-range'' then
        (case (field json_number kvs ''start'', field json_number kvs ''end'') of
           (Some s, Some e) \<Rightarrow> TextRangeLocator (JFin s) (JFin e) | _ \<Rightarrow> MalformedLocator)
      else if field json_string kvs ''kind'' = Some ''time'' then
        (case (field json_number kvs ''startSec'', field json_number kvs ''endSec'') of
           (Some s, Some e) \<Rightarrow> TimeLocator (JFin s) (JFin e) | _ \<Rightarrow> MalformedLocator)
      else MalformedLocator)"
| "locator_of (JArr xs) = Some MalformedLocator"
| "locator_of _ = None"

definition parse_option :: "json \<Rightarrow> option_candidate option" where
  "parse_option v =
     Option.bind (json_object v) (\<lambda>kvs.
     Option.bind (field json_string kvs ''content'') (\<lambda>c.
     map_option (\<lambda>b. \<lparr>oc_content = c, oc_isCorrect = b\<rparr>) (field json_bool kvs ''isCorrect'')))"

definition parse_citation :: "json \<Rightarrow> citation option" where
  "parse_citation v =
     Option.bind (json_object v) (\<lambda>kvs.
     Option.bind (field json_string kvs ''chunkId'') (\<lambda>c.
     Option.bind (field json_string kvs ''snippet'') (\<lambda>s.
     map_option (\<lambda>l. \<lparr>cit_chunkId = c, cit_locator = l, cit_snippet = s\<rparr>) (field locator_of kvs ''locator''))))"

definition parse_all :: "('a \<Rightarrow> 'b option) \<Rightarrow> 'a list \<Rightarrow> 'b list option" where
  "parse_all f xs = (if list_all (\<lambda>x. f x \<noteq> None) xs then Some (map (\<lambda>x. the (f x)) xs) else None)"

definition parse_question :: "json \<Rightarrow> question_candidate option" where
  "parse_question v =
     Option.bind (json_object v) (\<lambda>kvs.
     Option.bind (field json_string kvs ''chunkId'') (\<lambda>chunkId.
     Option.bind (integer_field kvs ''chunkIndex'') (\<lambda>chunkIndex.
     Option.bind (integer_field kvs ''ordinal'') (\<lambda>ordinal.
     Option.bind (field json_string kvs ''stem'') (\<lambda>stem.
     Option.bind (field json_string kvs ''explanation'') (\<lambda>explanation.
     Option.bind (field parse_citation kvs ''citation'') (\<lambda>citation.
     Option.bind (field json_array kvs ''options'') (\<lambda>vs.
     map_option (\<lambda>options. \<lparr>qc_chunkId = chunkId, qc_chunkIndex = JFin chunkIndex, qc_ordinal = JFin ordinal, qc_stem = stem,
        qc_explanation = explanation, qc_options = options, qc_citation = citation\<rparr>) (parse_all parse_option vs)))))))))"

text \<open>\<^term>\<open>Some None\<close> is the \<open>null\<close> and \<^const>\<open>None\<close> the \<open>undefined\<close> of \<open>parseQuestions\<close>.\<close>

definition parseQuestions :: "json option \<Rightarrow> question_candidate list option option" where
  "parseQuestions v =
     (case v of
        None \<Rightarrow> Some None
      | Some JNull \<Rightarrow> Some None
      | Some (JArr vs) \<Rightarrow> map_option Some (parse_all parse_question vs)
      | _ \<Rightarrow> None)"

definition parseFailureCode :: "json option \<Rightarrow> failure_code option option" where
  "parseFailureCode v =
     (case v of
        Some JNull \<Rightarrow> Some None
      | Some (JStr s) \<Rightarrow> map_option Some (List.find (\<lambda>c. failure_code_str c = s) all_failure_codes)
      | _ \<Rightarrow> None)"

text \<open>Unlike the other nullable fields the message must be present.\<close>

definition parse_message :: "(string \<times> json) list \<Rightarrow> string option option" where
  "parse_message p = Option.bind (obj_get p ''errorMessage'') (\<lambda>v. if v = JNull then Some None else map_option Some (json_string v))"

definition parse_status :: "(string \<times> json) list \<Rightarrow> result_status option" where
  "parse_status p =
     (case obj_get p ''status'' of
        Some (JStr s) \<Rightarrow> if s = ''READY'' then Some READY_RESULT else if s = ''FAILED'' then Some FAILED_RESULT else None
      | _ \<Rightarrow> None)"

definition parseResult :: "(string \<times> json) list \<Rightarrow> processing_result option" where
  "parseResult p =
     Option.bind (parseFailureCode (obj_get p ''errorCode'')) (\<lambda>errorCode.
     Option.bind (parseQuestions (obj_get p ''questions'')) (\<lambda>questions.
     if obj_get p ''version'' \<noteq> Some (JNum (JFin 1)) then None else
     Option.bind (field json_string p ''documentId'') (\<lambda>documentId.
     Option.bind (field json_string p ''ownerId'') (\<lambda>ownerId.
     Option.bind (nullable_field json_string p ''budgetStatus'') (\<lambda>budgetStatus.
     Option.bind (nullable_field json_number p ''estimatedCredits'') (\<lambda>estimatedCredits.
     Option.bind (nullable_field json_string p ''estimateStatus'') (\<lambda>estimateStatus.
     Option.bind (nullable_field json_number p ''settledCredits'') (\<lambda>settledCredits.
     Option.bind (parse_message p) (\<lambda>errorMessage.
     map_option (\<lambda>status. \<lparr>pr_budgetStatus = budgetStatus, pr_documentId = documentId,
        pr_estimatedCredits = estimatedCredits, pr_estimateStatus = estimateStatus, pr_errorCode = errorCode,
        pr_errorMessage = errorMessage, pr_ownerId = ownerId, pr_questions = questions,
        pr_settledCredits = settledCredits, pr_status = status\<rparr>) (parse_status p))))))))))"

section \<open>Outbox\<close>

definition findUnpublishedProcessingResults :: "nat \<Rightarrow> ai_db \<Rightarrow> outbox_row list" where
  "findUnpublishedProcessingResults limit db =
     take limit (sort_key ob_createdAt
       (filter (\<lambda>e. ob_eventType e = result_event_type \<and> ob_publishedAt e = None) (ai_outbox db)))"

definition markResultPublished :: "nat \<Rightarrow> int \<Rightarrow> ai_db \<Rightarrow> ai_db" where
  "markResultPublished id' now db =
     db\<lparr>ai_outbox := map (\<lambda>e. if ob_id e = id' \<and> ob_publishedAt e = None then e\<lparr>ob_publishedAt := Some now\<rparr> else e)
        (ai_outbox db)\<rparr>"

section \<open>Relay\<close>

record return_state =
  rs_course :: course_db
  rs_quiz :: quiz_db
  rs_ai :: ai_db

datatype return_stage = STAGE_PARSE | STAGE_QUIZ_PERSIST | STAGE_DOCUMENT_PROJECT | STAGE_OUTBOX_PUBLISH

datatype relay_error = InvalidPayload | HandoffFailed store_error | ProjectionFailed content_error

datatype relay_log =
    ReturnProjected string string
  | ReturnTerminalFailed string
  | ReturnFailed string return_stage

definition handoff_of :: "processing_result \<Rightarrow> question_candidate list \<Rightarrow> quiz_handoff" where
  "handoff_of p questions =
     \<lparr>h_documentId = pr_documentId p, h_ownerId = pr_ownerId p, h_promptVersion = ''phase0-v1'',
      h_minimumQuestionCount = JFin 1, h_questions = questions\<rparr>"

definition projection_of :: "processing_result \<Rightarrow> projection_command" where
  "projection_of p =
     \<lparr>pj_budgetStatus = pr_budgetStatus p, pj_documentId = pr_documentId p, pj_estimatedCredits = pr_estimatedCredits p,
      pj_estimateStatus = pr_estimateStatus p, pj_errorCode = pr_errorCode p, pj_errorMessage = pr_errorMessage p,
      pj_ownerId = pr_ownerId p, pj_settledCredits = pr_settledCredits p,
      pj_status = (if pr_status p = READY_RESULT then READY else DOCUMENT_FAILED)\<rparr>"

definition terminal_projection :: "processing_result \<Rightarrow> projection_command" where
  "terminal_projection p = (projection_of p)
     \<lparr>pj_errorCode := Some INSUFFICIENT_QUESTIONS, pj_errorMessage := Some ''Not enough valid questions were generated'',
      pj_status := DOCUMENT_FAILED\<rparr>"

definition persist_stage ::
  "digest \<Rightarrow> (string \<Rightarrow> string \<Rightarrow> int) \<Rightarrow> processing_result \<Rightarrow> return_state \<Rightarrow> (store_error + unit) \<times> return_state" where
  "persist_stage dg lc p s =
     (case (pr_status p, pr_questions p) of
        (READY_RESULT, Some qs) \<Rightarrow>
          (case handoff_persist quiz_persist dg lc (handoff_of p qs) (rs_quiz s) of
             (Inl e, logs, q) \<Rightarrow> (Inl e, s\<lparr>rs_quiz := q\<rparr>)
           | (Inr r, logs, q) \<Rightarrow> (Inr (), s\<lparr>rs_quiz := q\<rparr>))
      | _ \<Rightarrow> (Inr (), s))"

definition project_stage :: "int \<Rightarrow> projection_command \<Rightarrow> return_state \<Rightarrow> (content_error + unit) \<times> return_state" where
  "project_stage now c s = (case project now c (rs_course s) of (r, db) \<Rightarrow> (r, s\<lparr>rs_course := db\<rparr>))"

definition publish_stage :: "int \<Rightarrow> nat \<Rightarrow> return_state \<Rightarrow> return_state" where
  "publish_stage now i s = s\<lparr>rs_ai := markResultPublished i now (rs_ai s)\<rparr>"

definition insufficient :: "store_error \<Rightarrow> bool" where
  "insufficient e \<longleftrightarrow> (case e of StoreAssessment a \<Rightarrow> ae_code a = INSUFFICIENT_VALID_QUESTIONS | StoreDb \<Rightarrow> False)"

definition relay_row ::
  "digest \<Rightarrow> (string \<Rightarrow> string \<Rightarrow> int) \<Rightarrow> int \<Rightarrow> outbox_row \<Rightarrow> return_state \<Rightarrow> (relay_error + unit) \<times> relay_log list \<times> return_state" where
  "relay_row dg lc now row s =
     (case parseResult (ob_payload row) of
        None \<Rightarrow> (Inl InvalidPayload, [ReturnFailed (ob_aggregateId row) STAGE_PARSE], s)
      | Some p \<Rightarrow>
          (case persist_stage dg lc p s of
             (Inl e, s1) \<Rightarrow>
               if insufficient e then
                 (case project_stage now (terminal_projection p) s1 of
                    (Inl x, s2) \<Rightarrow> (Inl (ProjectionFailed x), [ReturnFailed (ob_aggregateId row) STAGE_QUIZ_PERSIST], s2)
                  | (Inr _, s2) \<Rightarrow> (Inr (), [ReturnTerminalFailed (ob_aggregateId row)], publish_stage now (ob_id row) s2))
               else (Inl (HandoffFailed e), [ReturnFailed (ob_aggregateId row) STAGE_QUIZ_PERSIST], s1)
           | (Inr _, s1) \<Rightarrow>
               (case project_stage now (projection_of p) s1 of
                  (Inl x, s2) \<Rightarrow> (Inl (ProjectionFailed x), [ReturnFailed (ob_aggregateId row) STAGE_DOCUMENT_PROJECT], s2)
                | (Inr _, s2) \<Rightarrow>
                    (Inr (), [ReturnProjected (pr_documentId p) (ob_aggregateId row)], publish_stage now (ob_id row) s2))))"

fun relay_rows ::
  "digest \<Rightarrow> (string \<Rightarrow> string \<Rightarrow> int) \<Rightarrow> int \<Rightarrow> outbox_row list \<Rightarrow> return_state \<Rightarrow> (relay_error + unit) \<times> relay_log list \<times> return_state" where
  "relay_rows dg lc now [] s = (Inr (), [], s)"
| "relay_rows dg lc now (row # rows) s =
     (case relay_row dg lc now row s of
        (Inl e, logs, s') \<Rightarrow> (Inl e, logs, s')
      | (Inr _, logs, s') \<Rightarrow> (case relay_rows dg lc now rows s' of (r, logs', s'') \<Rightarrow> (r, logs @ logs', s'')))"

definition return_pump ::
  "digest \<Rightarrow> (string \<Rightarrow> string \<Rightarrow> int) \<Rightarrow> int \<Rightarrow> nat \<Rightarrow> return_state \<Rightarrow> (relay_error + unit) \<times> relay_log list \<times> return_state" where
  "return_pump dg lc now limit s = relay_rows dg lc now (findUnpublishedProcessingResults limit (rs_ai s)) s"

section \<open>Events the queue writes\<close>

lemma find_failure_code [simp]: "List.find (\<lambda>c. failure_code_str c = failure_code_str x) all_failure_codes = Some x"
  by (cases x) (simp_all add: all_failure_codes_def)

lemma json_number_nullable_int [simp]:
  "(if nullable_int v = JNull then Some None else map_option Some (json_number (nullable_int v))) = Some (map_option of_int v)"
  by (cases v) (simp_all add: nullable_int_def)

lemma json_string_nullable_str [simp]:
  "(if nullable_str v = JNull then Some None else map_option Some (json_string (nullable_str v))) = Some v"
  by (cases v) (simp_all add: nullable_str_def)

lemma parseFailureCode_nullable [simp]: "parseFailureCode (Some (nullable_str (map_option failure_code_str c))) = Some c"
  by (cases c) (simp_all add: parseFailureCode_def nullable_str_def)

text \<open>The relay reads every result the queue can write: whatever the job, the status and the failure
  code, parsing the event gives back the document, the owner, the code with its message, the
  credits and the status, with no questions.\<close>

theorem own_events_parse:
  "parseResult (createResultEvent job st code) = Some
     \<lparr>pr_budgetStatus = (case j_budgetStatus job of Some s \<Rightarrow> Some s
          | None \<Rightarrow> if code = Some BUDGET_EXHAUSTED then Some ''EXHAUSTED'' else None),
      pr_documentId = j_documentId job, pr_estimatedCredits = map_option of_int (j_estimatedCredits job),
      pr_estimateStatus = (if j_estimatedCredits job = None then None else Some ''AUTHORITATIVE''),
      pr_errorCode = code, pr_errorMessage = failureMessage code, pr_ownerId = j_ownerId job, pr_questions = None,
      pr_settledCredits = map_option of_int (j_settledCredits job), pr_status = st\<rparr>"
  by (cases st)
    (simp_all add: parseResult_def createResultEvent_def obj_get_def parseQuestions_def field_def nullable_field_def
      parse_message_def parse_status_def del: result_status_str.simps, simp_all)

section \<open>Redelivery\<close>

lemma persist_stage_others: "rs_course (snd (persist_stage dg lc p s)) = rs_course s" "rs_ai (snd (persist_stage dg lc p s)) = rs_ai s"
  by (auto simp: persist_stage_def split: result_status.split option.split prod.split sum.split)

lemma project_stage_others: "rs_quiz (snd (project_stage t c s)) = rs_quiz s" "rs_ai (snd (project_stage t c s)) = rs_ai s"
  by (simp_all add: project_stage_def split: prod.split)

text \<open>The quiz of the result, if it carries one, can be stored.\<close>

definition quiz_storable :: "digest \<Rightarrow> (string \<Rightarrow> string \<Rightarrow> int) \<Rightarrow> processing_result \<Rightarrow> quiz_db \<Rightarrow> bool" where
  "quiz_storable dg lc p db \<longleftrightarrow>
     (case (pr_status p, pr_questions p) of
        (READY_RESULT, Some qs) \<Rightarrow> (case Quiz_create dg lc (handoff_of p qs) of Inl _ \<Rightarrow> False | Inr z \<Rightarrow> quiz_fits z db)
      | _ \<Rightarrow> True)"

lemma persist_stage_again:
  assumes "quiz_storable dg lc p (rs_quiz s)"
  obtains q where "\<forall>x. persist_stage dg lc p (s\<lparr>rs_course := x\<rparr>) = (Inr (), s\<lparr>rs_course := x, rs_quiz := q\<rparr>)"
    and "\<forall>x. persist_stage dg lc p (s\<lparr>rs_course := x, rs_quiz := q\<rparr>) = (Inr (), s\<lparr>rs_course := x, rs_quiz := q\<rparr>)"
proof (cases "\<exists>qs. pr_status p = READY_RESULT \<and> pr_questions p = Some qs")
  case True
  then obtain qs where p: "pr_status p = READY_RESULT" "pr_questions p = Some qs" by blast
  with assms obtain z where z: "Quiz_create dg lc (handoff_of p qs) = Inr z" "quiz_fits z (rs_quiz s)"
    by (auto simp: quiz_storable_def split: sum.splits)
  from quiz_writer.handoff_redelivery [OF this] obtain r logs q
    where "handoff_persist quiz_persist dg lc (handoff_of p qs) (rs_quiz s) = (Inr r, logs, q)"
      "handoff_persist quiz_persist dg lc (handoff_of p qs) q = (Inr r, logs, q)" by blast
  with p show ?thesis by (intro that [of q]) (simp_all add: persist_stage_def)
next
  case False
  then have "persist_stage dg lc p t = (Inr (), t)" for t
    by (auto simp: persist_stage_def split: result_status.split option.split)
  moreover have "s\<lparr>rs_course := x, rs_quiz := rs_quiz s\<rparr> = s\<lparr>rs_course := x\<rparr>" for x by simp
  ultimately show ?thesis by (intro that [of "rs_quiz s"]) simp_all
qed

text \<open>Two states that differ only in the times a projection or a publication was stamped with.\<close>

definition timeless_document :: "document_row \<Rightarrow> document_row" where
  "timeless_document d = d\<lparr>dc_updatedAt := 0\<rparr>"

definition timeless_event :: "outbox_row \<Rightarrow> outbox_row" where
  "timeless_event e = e\<lparr>ob_publishedAt := map_option (\<lambda>_. 0) (ob_publishedAt e)\<rparr>"

definition timeless :: "return_state \<Rightarrow> return_state" where
  "timeless s = s\<lparr>rs_course := (rs_course s)\<lparr>cs_documents := map timeless_document (cs_documents (rs_course s))\<rparr>,
     rs_ai := (rs_ai s)\<lparr>ai_outbox := map timeless_event (ai_outbox (rs_ai s))\<rparr>\<rparr>"

lemma timeless_projected: "timeless_document (projected_row t c d) = timeless_document (projected_row t' c d)"
  by (simp add: timeless_document_def projected_row_def)

lemma project_at:
  assumes "project t c db = (Inr (), db1)"
  shows "project t' c db = (Inr (), db\<lparr>cs_documents := map (\<lambda>d. if projectable c d then projected_row t' c d else d) (cs_documents db)\<rparr>)"
  using assms by (auto simp: project_def projectProcessingResult_def split: if_splits)

lemma project_again:
  assumes "project t c db = (Inr (), db1)" and "pj_status c \<noteq> PROCESSING"
  shows "project t' c db1 = (Inr (), db1)"
proof -
  have none: "\<not> projectable c d" if "d \<in> set (cs_documents db1)" for d
    using projected_not_projectable [OF assms that refl refl] .
  have big: "is_bigint (pj_settledCredits c)" "is_bigint (pj_estimatedCredits c)"
    using assms(1) by (auto simp: project_def projectProcessingResult_def split: if_splits)
  have "\<not> list_ex (projectable c) (cs_documents db1)" using none by (simp add: list_ex_iff)
  with big have "fst (project t' c db1) = Inr ()" by (simp add: project_def projectProcessingResult_def)
  moreover have "snd (project t' c db1) = db1" using none by (rule project_nothing)
  ultimately show ?thesis by (simp add: prod_eq_iff)
qed

lemma projection_of_status: "pj_status (projection_of p) \<noteq> PROCESSING"
  by (simp add: projection_of_def)

lemma mark_timeless:
  "map timeless_event (ai_outbox (markResultPublished i t db)) = map timeless_event (ai_outbox (markResultPublished i t' db))"
  by (simp add: markResultPublished_def timeless_event_def)

lemma timelessI:
  assumes "map timeless_document (cs_documents x) = map timeless_document (cs_documents y)"
    and "cs_outbox x = cs_outbox y" and "cs_nextOutboxId x = cs_nextOutboxId y"
  shows "timeless (publish_stage t i (s\<lparr>rs_course := x, rs_quiz := q\<rparr>)) = timeless (publish_stage t' i (s\<lparr>rs_course := y, rs_quiz := q\<rparr>))"
  using assms mark_timeless [of i t "rs_ai s" t']
  by (cases x, cases y, cases s) (simp add: timeless_def publish_stage_def markResultPublished_def)

text \<open>C8 Delivering a result twice is harmless: if the relay dies after the quiz was stored, or after the
  document was projected too, but before the event was marked published, then delivering it again
  succeeds with the same log and reaches the same quizzes, documents and outbox as a delivery without
  a crash, times aside, and the event is published.\<close>

theorem return_redelivery:
  assumes "parseResult (ob_payload row) = Some p" and "quiz_storable dg lc p (rs_quiz s)"
    and "relay_row dg lc now row s = (Inr (), logs, s')"
    and "crashed = snd (persist_stage dg lc p s)
      \<or> crashed = snd (project_stage now1 (projection_of p) (snd (persist_stage dg lc p s)))"
  shows "\<exists>s''. relay_row dg lc now2 row crashed = (Inr (), logs, s'') \<and> timeless s'' = timeless s'
    \<and> (\<forall>e\<in>set (ai_outbox (rs_ai s'')). ob_id e = ob_id row \<longrightarrow> ob_publishedAt e \<noteq> None)"
proof -
  from persist_stage_again [OF assms(2)] obtain q
    where first: "\<forall>x. persist_stage dg lc p (s\<lparr>rs_course := x\<rparr>) = (Inr (), s\<lparr>rs_course := x, rs_quiz := q\<rparr>)"
      and again: "\<forall>x. persist_stage dg lc p (s\<lparr>rs_course := x, rs_quiz := q\<rparr>) = (Inr (), s\<lparr>rs_course := x, rs_quiz := q\<rparr>)"
    by blast
  let ?c = "projection_of p" and ?db = "rs_course s"
  have s: "s\<lparr>rs_course := rs_course s\<rparr> = s" by simp
  have comm: "t\<lparr>rs_quiz := q, rs_course := x\<rparr> = t\<lparr>rs_course := x, rs_quiz := q\<rparr>" for t :: return_state and x by (cases t) simp
  have s1: "persist_stage dg lc p s = (Inr (), s\<lparr>rs_course := ?db, rs_quiz := q\<rparr>)"
    using first [THEN spec, of ?db] by (simp only: s)
  obtain db1 where pr: "project now ?c ?db = (Inr (), db1)"
    and s': "s' = publish_stage now (ob_id row) (s\<lparr>rs_course := db1, rs_quiz := q\<rparr>)"
    and l: "logs = [ReturnProjected (pr_documentId p) (ob_aggregateId row)]"
    using assms(3) by (auto simp: relay_row_def assms(1) s1 project_stage_def comm split: prod.splits sum.splits)
  let ?at = "\<lambda>t. ?db\<lparr>cs_documents := map (\<lambda>d. if projectable ?c d then projected_row t ?c d else d) (cs_documents ?db)\<rparr>"
  have at: "project t ?c ?db = (Inr (), ?at t)" for t using project_at [OF pr] .
  have db1: "db1 = ?at now" using pr at [of now] by simp
  have run: "relay_row dg lc now2 row (s\<lparr>rs_course := x, rs_quiz := q\<rparr>)
      = (Inr (), logs, publish_stage now2 (ob_id row) (s\<lparr>rs_course := y, rs_quiz := q\<rparr>))"
    if "project now2 ?c x = (Inr (), y)" for x y
    using that by (simp add: relay_row_def assms(1) again project_stage_def l comm)
  have same: "timeless (publish_stage now2 (ob_id row) (s\<lparr>rs_course := ?at t, rs_quiz := q\<rparr>)) = timeless s'" for t
    unfolding s' db1 by (rule timelessI) (simp_all add: timeless_projected)
  have pub: "\<forall>e\<in>set (ai_outbox (rs_ai (publish_stage now2 (ob_id row) x))). ob_id e = ob_id row \<longrightarrow> ob_publishedAt e \<noteq> None" for x
    by (auto simp: publish_stage_def markResultPublished_def)
  from assms(4) show ?thesis
  proof
    assume "crashed = snd (persist_stage dg lc p s)"
    then have "crashed = s\<lparr>rs_course := ?db, rs_quiz := q\<rparr>" by (simp add: s1)
    with run [OF at] same pub show ?thesis by blast
  next
    assume "crashed = snd (project_stage now1 ?c (snd (persist_stage dg lc p s)))"
    then have "crashed = s\<lparr>rs_course := ?at now1, rs_quiz := q\<rparr>" by (simp add: s1 project_stage_def at comm)
    with run [OF project_again [OF at projection_of_status]] same pub show ?thesis by blast
  qed
qed

lemma relay_row_projects:
  "parseResult (ob_payload row) = Some p \<Longrightarrow> persist_stage dg lc p s = (Inr (), s1) \<Longrightarrow>
     project_stage now (projection_of p) s1 = (Inr (), s2) \<Longrightarrow>
     relay_row dg lc now row s = (Inr (), [ReturnProjected (pr_documentId p) (ob_aggregateId row)], publish_stage now (ob_id row) s2)"
  by (simp add: relay_row_def)

text \<open>A document being processed and the event that its job was completed.\<close>

definition sample_event :: outbox_row where
  "sample_event =
     \<lparr>ob_id = 1, ob_aggregateId = ''j'', ob_eventType = result_event_type,
      ob_payload = createResultEvent (new_job ''j'' 8 \<lparr>ec_correlationId = ''d'', ec_documentId = ''d'',
        ec_jobType = ''FULL_PIPELINE'', ec_ownerId = ''u'', ec_selection = None\<rparr> ''k'') READY_RESULT None,
      ob_createdAt = 9, ob_publishedAt = None\<rparr>"

definition sample_return :: return_state where
  "sample_return = \<lparr>rs_course = confirmed_course, rs_quiz = empty_quiz_db,
     rs_ai = empty_ai_db\<lparr>ai_outbox := [sample_event], ai_nextEventId := 2\<rparr>\<rparr>"

lemma sample_event_parse:
  "parseResult (ob_payload sample_event) = Some
     \<lparr>pr_budgetStatus = None, pr_documentId = ''d'', pr_estimatedCredits = None, pr_estimateStatus = None, pr_errorCode = None,
      pr_errorMessage = None, pr_ownerId = ''u'', pr_questions = None, pr_settledCredits = None, pr_status = READY_RESULT\<rparr>"
  by code_simp

lemma return_redelivery_witness:
  "\<exists>logs db s''. relay_row sample_digest by_length 9 sample_event sample_return
       = (Inr (), logs, publish_stage 9 (ob_id sample_event) (sample_return\<lparr>rs_course := db\<rparr>))
     \<and> relay_row sample_digest by_length 20 sample_event (sample_return\<lparr>rs_course := db\<rparr>) = (Inr (), logs, s'')
     \<and> timeless s'' = timeless (publish_stage 9 (ob_id sample_event) (sample_return\<lparr>rs_course := db\<rparr>))"
proof -
  let ?p = "the (parseResult (ob_payload sample_event))" and ?s = sample_return
  have p: "parseResult (ob_payload sample_event) = Some ?p" by (simp add: sample_event_parse)
  have st: "quiz_storable sample_digest by_length ?p (rs_quiz ?s)" by (simp add: quiz_storable_def sample_event_parse)
  have ps: "persist_stage sample_digest by_length ?p x = (Inr (), x)" for x by (simp add: persist_stage_def sample_event_parse)
  have ok: "fst (project 9 (projection_of ?p) db) = Inr ()" for db
    by (simp add: project_def projectProcessingResult_def projection_of_def sample_event_parse is_bigint_def short_status_def)
  obtain db1 where db1: "project 9 (projection_of ?p) (rs_course ?s) = (Inr (), db1)"
    using ok [of "rs_course ?s"] by (cases "project 9 (projection_of ?p) (rs_course ?s)") simp
  have pj: "project_stage 9 (projection_of ?p) ?s = (Inr (), ?s\<lparr>rs_course := db1\<rparr>)"
    unfolding project_stage_def db1 by simp
  note run = relay_row_projects [OF p ps pj]
  have "?s\<lparr>rs_course := db1\<rparr> = snd (project_stage 9 (projection_of ?p) (snd (persist_stage sample_digest by_length ?p ?s)))"
    by (simp only: ps pj snd_conv)
  from return_redelivery [OF p st run disjI2 [OF this], of 20]
  run show ?thesis by blast
qed

section \<open>Events that block the queue of results\<close>

lemma sort_key_append_first:
  assumes "take 1 (sort_key f xs) = [x]" and "f x \<le> f e"
  shows "take 1 (sort_key f (xs @ [e])) = [x]"
  using assms
proof (induction xs arbitrary: x)
  case (Cons a xs)
  show ?case
  proof (cases "\<forall>y\<in>set xs. f a \<le> f y")
    case True
    then have a: "insort_key f a (sort_key f xs) = a # sort_key f xs" by (intro insort_is_Cons) simp
    with Cons.prems have "x = a" by simp
    with True Cons.prems(2) have "insort_key f a (sort_key f (xs @ [e])) = a # sort_key f (xs @ [e])"
      by (intro insort_is_Cons) auto
    with \<open>x = a\<close> show ?thesis by simp
  next
    case False
    then have "set (sort_key f xs) \<noteq> {}" by auto
    then obtain y ys where y: "sort_key f xs = y # ys" by (cases "sort_key f xs") simp_all
    have "sorted (map f (sort_key f xs))" by (rule sorted_sort_key)
    then have "\<forall>z\<in>set (y # ys). f y \<le> f z" unfolding y by auto
    moreover have "set xs = set (y # ys)" using y set_sort [of f xs] by metis
    ultimately have less: "\<not> f a \<le> f y" using False by (metis order_trans)
    with Cons.prems(1) y have x: "x = y" by simp
    with Cons.IH [of y] y Cons.prems(2) have "take 1 (sort_key f (xs @ [e])) = [y]" by simp
    then obtain zs where "sort_key f (xs @ [e]) = y # zs" by (cases "sort_key f (xs @ [e])") auto
    with less x show ?thesis by simp
  qed
qed simp

lemma sort_key_later_first:
  assumes "take 1 (sort_key f xs) = [x]" and "\<forall>e\<in>set es. f x \<le> f e"
  shows "take 1 (sort_key f (xs @ es)) = [x]"
  using assms(2)
proof (induction es rule: rev_induct)
  case (snoc e es)
  then have "take 1 (sort_key f ((xs @ es) @ [e])) = [x]" by (intro sort_key_append_first) simp_all
  then show ?case by simp
qed (use assms(1) in simp)

text \<open>The relay cannot get past this result: it does not parse, or its quiz is refused for another reason
  than too few questions, such as an owner conflict.\<close>

definition blocked :: "digest \<Rightarrow> (string \<Rightarrow> string \<Rightarrow> int) \<Rightarrow> outbox_row \<Rightarrow> return_state \<Rightarrow> bool" where
  "blocked dg lc row s \<longleftrightarrow>
     (case parseResult (ob_payload row) of
        None \<Rightarrow> True
      | Some p \<Rightarrow> (case fst (persist_stage dg lc p s) of Inl e \<Rightarrow> \<not> insufficient e | Inr _ \<Rightarrow> False))"

lemma persist_stage_failed: "persist_stage dg lc p s = (Inl e, s') \<Longrightarrow> s' = s"
  by (auto simp: persist_stage_def dest: quiz_writer.handoff_failure split: result_status.splits option.splits prod.splits sum.splits)

lemma persist_stage_quiz: "rs_quiz s = rs_quiz s' \<Longrightarrow> fst (persist_stage dg lc p s) = fst (persist_stage dg lc p s')"
  by (auto simp: persist_stage_def split: result_status.splits option.splits prod.splits sum.splits)

lemma blocked_fails:
  assumes "blocked dg lc row s"
  shows "\<exists>e stage. relay_row dg lc now row s = (Inl e, [ReturnFailed (ob_aggregateId row) stage], s)"
proof (cases "parseResult (ob_payload row)")
  case None
  then show ?thesis by (simp add: relay_row_def)
next
  case (Some p)
  with assms obtain e s1 where e: "persist_stage dg lc p s = (Inl e, s1)" "\<not> insufficient e"
    by (cases "persist_stage dg lc p s") (auto simp: blocked_def split: sum.splits)
  with persist_stage_failed [OF e(1)] Some show ?thesis by (simp add: relay_row_def)
qed

text \<open>C23 A result the relay cannot take stops all that come after it: while such an event is the oldest
  unpublished one, every pump fails and changes nothing, however many newer results are waiting and
  whatever the batch size.\<close>

theorem poison_event_blocks:
  assumes "findUnpublishedProcessingResults 1 (rs_ai s) = [row]" and "blocked dg lc row s" and "0 < limit"
    and "\<forall>e\<in>set newer. ob_createdAt row \<le> ob_createdAt e"
    and "s' = s\<lparr>rs_ai := (rs_ai s)\<lparr>ai_outbox := ai_outbox (rs_ai s) @ newer\<rparr>\<rparr>"
  shows "\<exists>e stage. return_pump dg lc now limit s' = (Inl e, [ReturnFailed (ob_aggregateId row) stage], s')"
proof -
  have "take 1 (sort_key ob_createdAt (filter (\<lambda>e. ob_eventType e = result_event_type \<and> ob_publishedAt e = None) (ai_outbox (rs_ai s))
      @ filter (\<lambda>e. ob_eventType e = result_event_type \<and> ob_publishedAt e = None) newer)) = [row]"
    using assms(1,4) by (intro sort_key_later_first) (simp_all add: findUnpublishedProcessingResults_def)
  then have "findUnpublishedProcessingResults 1 (rs_ai s') = [row]"
    by (simp add: findUnpublishedProcessingResults_def assms(5))
  moreover obtain n where "limit = Suc n" using assms(3) by (cases limit) auto
  ultimately obtain rows where rows: "findUnpublishedProcessingResults limit (rs_ai s') = row # rows"
    unfolding findUnpublishedProcessingResults_def
    by (cases "sort_key ob_createdAt (filter (\<lambda>e. ob_eventType e = result_event_type \<and> ob_publishedAt e = None) (ai_outbox (rs_ai s')))") auto
  have "rs_quiz s' = rs_quiz s" using assms(5) by simp
  with assms(2) have "blocked dg lc row s'"
    using persist_stage_quiz [of s' s] by (simp add: blocked_def split: option.splits)
  from blocked_fails [OF this, of now] rows show ?thesis by (auto simp: return_pump_def)
qed

lemma poison_event_blocks_witness:
  "\<exists>e stage. return_pump sample_digest by_length 20 50
       (sample_return\<lparr>rs_ai := (rs_ai sample_return)\<lparr>ai_outbox := [sample_event\<lparr>ob_payload := [(''errorCode'', JStr ''OTHER'')]\<rparr>, sample_event\<lparr>ob_id := 2\<rparr>]\<rparr>\<rparr>)
     = (Inl e, [ReturnFailed ''j'' stage],
        sample_return\<lparr>rs_ai := (rs_ai sample_return)\<lparr>ai_outbox := [sample_event\<lparr>ob_payload := [(''errorCode'', JStr ''OTHER'')]\<rparr>, sample_event\<lparr>ob_id := 2\<rparr>]\<rparr>\<rparr>)"
proof -
  let ?row = "sample_event\<lparr>ob_payload := [(''errorCode'', JStr ''OTHER'')]\<rparr>"
  let ?s = "sample_return\<lparr>rs_ai := (rs_ai sample_return)\<lparr>ai_outbox := [?row]\<rparr>\<rparr>"
  let ?t = "sample_return\<lparr>rs_ai := (rs_ai sample_return)\<lparr>ai_outbox := [?row, sample_event\<lparr>ob_id := 2\<rparr>]\<rparr>\<rparr>"
  have first: "findUnpublishedProcessingResults 1 (rs_ai ?s) = [?row]"
    by (simp add: findUnpublishedProcessingResults_def sample_event_def)
  have "parseResult (ob_payload ?row) = None"
    by (simp add: parseResult_def obj_get_def parseFailureCode_def all_failure_codes_def)
  then have bl: "blocked sample_digest by_length ?row ?s" by (simp add: blocked_def)
  have later: "\<forall>e\<in>set [sample_event\<lparr>ob_id := 2\<rparr>]. ob_createdAt ?row \<le> ob_createdAt e" by (simp add: sample_event_def)
  have t: "?t = ?s\<lparr>rs_ai := (rs_ai ?s)\<lparr>ai_outbox := ai_outbox (rs_ai ?s) @ [sample_event\<lparr>ob_id := 2\<rparr>]\<rparr>\<rparr>" by simp
  have "ob_aggregateId ?row = ''j''" by (simp add: sample_event_def)
  with poison_event_blocks [OF first bl _ later t, of 50 20] show ?thesis by simp
qed

section \<open>Results carry no attempt\<close>

lemma relay_row_course:
  assumes "parseResult (ob_payload row) = Some p" and "relay_row dg lc now row s = (Inr (), logs, s')"
  obtains c where "c = projection_of p \<or> c = terminal_projection p"
    and "project now c (rs_course s) = (Inr (), rs_course s')"
proof -
  obtain r s1 where ps: "persist_stage dg lc p s = (r, s1)" by fastforce
  have "rs_course s1 = rs_course s" using persist_stage_others(1) [of dg lc p s] ps by simp
  with ps assms show ?thesis
    by (auto simp: relay_row_def project_stage_def publish_stage_def intro: that split: sum.splits if_splits prod.splits)
qed

lemma failed_is_projected:
  assumes "parseResult (ob_payload row) = Some p" and "pr_status p = FAILED_RESULT"
    and "fst (project now (projection_of p) (rs_course s)) = Inr ()"
  shows "\<exists>db. project now (projection_of p) (rs_course s) = (Inr (), db)
    \<and> relay_row dg lc now row s = (Inr (), [ReturnProjected (pr_documentId p) (ob_aggregateId row)],
        publish_stage now (ob_id row) (s\<lparr>rs_course := db\<rparr>))"
proof -
  obtain db where db: "project now (projection_of p) (rs_course s) = (Inr (), db)"
    using assms(3) by (cases "project now (projection_of p) (rs_course s)") simp
  have "persist_stage dg lc p s = (Inr (), s)" using assms(2) by (simp add: persist_stage_def)
  from relay_row_projects [OF assms(1) this] db show ?thesis by (simp add: project_stage_def)
qed

text \<open>A late failure decides the next attempt: a failed result that is delivered again after its owner
  confirmed the document once more, because the relay had died before marking it published, fails the
  document that is being processed, and from then on no result of the new attempt changes any
  document.\<close>

theorem late_failure_decides_next_attempt:
  assumes "parseResult (ob_payload row) = Some p" and "pr_status p = FAILED_RESULT"
    and "findByOwnerId (pr_ownerId p) (pr_documentId p) (rs_course s) = Some d" and "dc_status d = PROCESSING"
    and "fst (project now (projection_of p) (rs_course s)) = Inr ()"
    and "parseResult (ob_payload row') = Some p'" and "pr_documentId p' = pr_documentId p" and "pr_ownerId p' = pr_ownerId p"
  shows "\<exists>logs s1. relay_row dg lc now row s = (Inr (), logs, s1)
    \<and> map_option dc_status (findByOwnerId (pr_ownerId p) (pr_documentId p) (rs_course s1)) = Some DOCUMENT_FAILED
    \<and> (\<forall>logs' s2. relay_row dg lc now' row' s1 = (Inr (), logs', s2) \<longrightarrow> rs_course s2 = rs_course s1)"
proof -
  let ?c = "projection_of p"
  have keys: "pj_documentId ?c = pr_documentId p" "pj_ownerId ?c = pr_ownerId p" "pj_status ?c = DOCUMENT_FAILED"
    using assms(2) by (simp_all add: projection_of_def)
  have keys': "pj_documentId c = pj_documentId ?c \<and> pj_ownerId c = pj_ownerId ?c" if "c = projection_of p' \<or> c = terminal_projection p'" for c
    using that assms(7,8) by (auto simp: projection_of_def terminal_projection_def)
  from failed_is_projected [OF assms(1,2,5), of dg lc] obtain db where db: "project now ?c (rs_course s) = (Inr (), db)"
    and run: "relay_row dg lc now row s = (Inr (), [ReturnProjected (pr_documentId p) (ob_aggregateId row)],
        publish_stage now (ob_id row) (s\<lparr>rs_course := db\<rparr>))" by blast
  let ?s1 = "publish_stage now (ob_id row) (s\<lparr>rs_course := db\<rparr>)"
  have s1: "rs_course ?s1 = db" by (simp add: publish_stage_def)
  have "projectable ?c d"
    using findByOwnerId_Some [OF assms(3)] assms(4) by (simp add: projectable_def keys)
  then have "findByOwnerId (pr_ownerId p) (pr_documentId p) db = Some (projected_row now ?c d)"
    using assms(3) find_map_keep [of "\<lambda>d. if projectable ?c d then projected_row now ?c d else d" "pr_documentId p" "pr_ownerId p" "cs_documents (rs_course s)"]
    unfolding project_Inr [OF db] by (simp add: findByOwnerId_def)
  then have failed: "map_option dc_status (findByOwnerId (pr_ownerId p) (pr_documentId p) (rs_course ?s1)) = Some DOCUMENT_FAILED"
    by (simp add: s1 keys)
  have "rs_course s2 = rs_course ?s1" if r: "relay_row dg lc now' row' ?s1 = (Inr (), logs', s2)" for logs' s2
  proof -
    from relay_row_course [OF assms(6) r] obtain c where c: "c = projection_of p' \<or> c = terminal_projection p'"
      "project now' c db = (Inr (), rs_course s2)" unfolding s1 .
    have "snd (project now' c db) = db"
      using projected_not_projectable [OF db projection_of_status] keys' [OF c(1)] by (intro project_nothing) blast
    with c(2) show ?thesis by (simp add: s1)
  qed
  with run failed show ?thesis by blast
qed

definition failed_event :: outbox_row where
  "failed_event = sample_event\<lparr>ob_payload := createResultEvent (new_job ''j'' 8 \<lparr>ec_correlationId = ''d'', ec_documentId = ''d'',
     ec_jobType = ''FULL_PIPELINE'', ec_ownerId = ''u'', ec_selection = None\<rparr> ''k'') FAILED_RESULT (Some PROVIDER_UNAVAILABLE)\<rparr>"

definition failed_result :: processing_result where
  "failed_result =
     \<lparr>pr_budgetStatus = None, pr_documentId = ''d'', pr_estimatedCredits = None, pr_estimateStatus = None,
      pr_errorCode = Some PROVIDER_UNAVAILABLE, pr_errorMessage = failureMessage (Some PROVIDER_UNAVAILABLE), pr_ownerId = ''u'',
      pr_questions = None, pr_settledCredits = None, pr_status = FAILED_RESULT\<rparr>"

lemma failed_event_parse: "parseResult (ob_payload failed_event) = Some failed_result"
  by code_simp

lemma late_failure_decides_next_attempt_witness:
  "\<exists>logs s1. relay_row sample_digest by_length 9 failed_event sample_return = (Inr (), logs, s1)
    \<and> map_option dc_status (findByOwnerId ''u'' ''d'' (rs_course s1)) = Some DOCUMENT_FAILED
    \<and> (\<forall>logs' s2. relay_row sample_digest by_length 10 sample_event s1 = (Inr (), logs', s2) \<longrightarrow> rs_course s2 = rs_course s1)"
proof -
  let ?r = failed_result and ?d = "confirmed_row 7 sample_document"
  have a: "pr_status ?r = FAILED_RESULT" "pr_ownerId ?r = ''u''" "pr_documentId ?r = ''d''" by (simp_all add: failed_result_def)
  have f: "findByOwnerId (pr_ownerId ?r) (pr_documentId ?r) (rs_course sample_return) = Some ?d"
    by (simp add: a findByOwnerId_def sample_return_def confirmed_course_def sample_document_def new_document_def)
  have ok: "fst (project 9 (projection_of ?r) (rs_course sample_return)) = Inr ()"
    by (simp add: project_def projectProcessingResult_def projection_of_def failed_result_def is_bigint_def short_status_def)
  show ?thesis
    using late_failure_decides_next_attempt [OF failed_event_parse a(1) f _ ok sample_event_parse, of sample_digest by_length 10] a
    by simp
qed

end
