(* ===== verification/Chunking.thy ===== *)
theory Chunking imports QuizDomain ProcessingJobs begin

text \<open>
  Splitting a document into chunks, \<open>ai/chunk.service.ts\<close>, and storing them under the lease of the
  job, \<open>ai/repositories/chunk.repository.ts\<close>.  The grapheme boundaries come from the package behind
  \<open>Intl.Segmenter\<close>: the model takes the segmenter as a function from a text to the offsets at which
  its graphemes start.
\<close>

section \<open>Data\<close>

datatype locator = PdfPageLocator nat | TextRange nat nat

record extracted_segment =
  es_locator :: locator
  es_text :: string

record chunk_part =
  cp_locator :: locator
  cp_text :: string

record chunk_candidate =
  ck_chunkIndex :: nat
  ck_contentHash :: string
  ck_id :: string
  ck_locator :: locator
  ck_text :: string

record chunk_settings =
  st_chunkMaxChars :: nat
  st_chunkOverlapChars :: nat
  st_chunkTargetChars :: nat
  st_maxChunksPerDocument :: nat
  st_maxChunkTotalChars :: nat

definition default_chunk_settings :: chunk_settings where
  "default_chunk_settings =
     \<lparr>st_chunkMaxChars = 1500, st_chunkOverlapChars = 150, st_chunkTargetChars = 1200,
      st_maxChunksPerDocument = 20000, st_maxChunkTotalChars = 24000000\<rparr>"

text \<open>\<open>MissingBoundary\<close> is the plain error of \<open>nextBoundary\<close>.\<close>

datatype chunk_error = ExtractionFailed failure_code | MissingBoundary

type_synonym segmenter = "string \<Rightarrow> nat list"

section \<open>Boundaries\<close>

definition graphemeBoundaries :: "segmenter \<Rightarrow> string \<Rightarrow> nat list" where
  "graphemeBoundaries segment t = segment t @ [length t]"

text \<open>\<open>text[i]\<close> is \<open>undefined\<close> past the end, and the text \<open>undefined\<close> has no white space.\<close>

definition space_at :: "string \<Rightarrow> nat \<Rightarrow> bool" where
  "space_at t i \<longleftrightarrow> i < length t \<and> is_ws (t ! i)"

function trim_first :: "string \<Rightarrow> nat \<Rightarrow> nat \<Rightarrow> nat" where
  "trim_first t first last' = (if first < last' \<and> space_at t first then trim_first t (first + 1) last' else first)"
  by auto
termination by (relation "measure (\<lambda>(t, first, last'). last' - first)") auto

fun trim_last :: "string \<Rightarrow> nat \<Rightarrow> nat \<Rightarrow> nat" where
  "trim_last t first 0 = 0"
| "trim_last t first (Suc n) = (if first < Suc n \<and> space_at t n then trim_last t first n else Suc n)"

definition trimBounds :: "string \<Rightarrow> nat \<Rightarrow> nat \<Rightarrow> nat \<times> nat" where
  "trimBounds t start end' = (let first = trim_first t start end' in (first, trim_last t first end'))"

definition previousBoundary :: "nat list \<Rightarrow> nat \<Rightarrow> nat \<Rightarrow> nat" where
  "previousBoundary boundaries candidate minimum =
     (case List.find (\<lambda>b. b \<le> candidate \<and> minimum < b) (rev boundaries) of None \<Rightarrow> minimum | Some b \<Rightarrow> b)"

definition nextBoundary :: "nat list \<Rightarrow> nat \<Rightarrow> chunk_error + nat" where
  "nextBoundary boundaries start =
     (case List.find (\<lambda>b. start < b) boundaries of None \<Rightarrow> Inl MissingBoundary | Some b \<Rightarrow> Inr b)"

text \<open>The boundaries from \<open>boundaries.indexOf(preferredEnd)\<close> down to the first.\<close>

fun up_to :: "nat \<Rightarrow> nat list \<Rightarrow> nat list option" where
  "up_to x [] = None"
| "up_to x (b # bs) = (if b = x then Some [b] else map_option (Cons b) (up_to x bs))"

fun last_space :: "string \<Rightarrow> nat \<Rightarrow> nat list \<Rightarrow> nat option" where
  "last_space t start [] = None"
| "last_space t start (b # bs) =
     (if b \<le> start then None else if space_at t b then Some b else last_space t start bs)"

definition selectChunkEnd :: "string \<Rightarrow> nat \<Rightarrow> nat list \<Rightarrow> nat \<Rightarrow> nat \<Rightarrow> chunk_error + nat" where
  "selectChunkEnd t start boundaries maxChars targetChars =
     (let maxEnd = previousBoundary boundaries (start + maxChars) start
      in if length t \<le> maxEnd then Inr (length t)
         else
           let preferredEnd = previousBoundary boundaries (start + targetChars) start
           in case last_space t start (case up_to preferredEnd boundaries of None \<Rightarrow> [] | Some bs \<Rightarrow> rev bs) of
                Some b \<Rightarrow> Inr b
              | None \<Rightarrow> if start < maxEnd then Inr maxEnd else nextBoundary boundaries start)"

definition locatorForPart :: "locator \<Rightarrow> nat \<Rightarrow> nat \<Rightarrow> locator" where
  "locatorForPart l start end' =
     (case l of PdfPageLocator p \<Rightarrow> PdfPageLocator p | TextRange s e \<Rightarrow> TextRange (s + start) (s + end'))"

section \<open>Splitting one segment\<close>

definition next_start :: "chunk_settings \<Rightarrow> nat list \<Rightarrow> nat \<Rightarrow> nat \<Rightarrow> nat" where
  "next_start st boundaries start end' =
     (let overlapStart = previousBoundary boundaries (max (end' - st_chunkOverlapChars st) (start + 1)) start
      in if start < overlapStart then overlapStart else end')"

definition part_at :: "locator \<Rightarrow> nat \<Rightarrow> string \<Rightarrow> nat \<Rightarrow> nat \<Rightarrow> chunk_part list" where
  "part_at l offset t start end' =
     (case trimBounds t start end' of
        (s, e) \<Rightarrow> let v = slice s e t
                  in if v = [] then []
                     else [\<lparr>cp_locator = locatorForPart l (offset + s) (offset + e), cp_text = v\<rparr>])"

lemma previousBoundary_ge: "minimum \<le> previousBoundary boundaries candidate minimum"
  by (auto simp: previousBoundary_def split: option.split dest!: find_SomeD)

lemma last_space_gt: "last_space t start bs = Some b \<Longrightarrow> start < b \<and> b \<in> set bs \<and> space_at t b"
  by (induction bs) (auto split: if_splits)

lemma nextBoundary_gt: "nextBoundary boundaries start = Inr b \<Longrightarrow> start < b \<and> b \<in> set boundaries"
  by (auto simp: nextBoundary_def split: option.splits dest!: find_SomeD)

lemma selectChunkEnd_gt:
  "selectChunkEnd t start boundaries m g = Inr e \<Longrightarrow> start < length t \<Longrightarrow> start < e"
  by (auto simp: selectChunkEnd_def Let_def split: if_splits option.splits dest: last_space_gt nextBoundary_gt)

lemma next_start_gt: "start < e \<Longrightarrow> start < next_start st boundaries start e"
  by (simp add: next_start_def Let_def)

function split_loop :: "chunk_settings \<Rightarrow> nat list \<Rightarrow> locator \<Rightarrow> nat \<Rightarrow> string \<Rightarrow> nat \<Rightarrow> chunk_error + chunk_part list" where
  "split_loop st boundaries l offset t start =
     (if length t \<le> start then Inr []
      else case selectChunkEnd t start boundaries (st_chunkMaxChars st) (st_chunkTargetChars st) of
             Inl x \<Rightarrow> Inl x
           | Inr e \<Rightarrow>
               (if e = length t then Inr (part_at l offset t start e)
                else and_then (split_loop st boundaries l offset t (next_start st boundaries start e))
                       (\<lambda>rest. Inr (part_at l offset t start e @ rest))))"
  by auto
termination
  by (relation "measure (\<lambda>(st, boundaries, l, offset, t, start). length t - start)")
    (auto dest!: selectChunkEnd_gt intro!: diff_less_mono2 next_start_gt simp: not_le)

declare split_loop.simps [simp del] trim_first.simps [simp del]

definition splitSegment :: "segmenter \<Rightarrow> chunk_settings \<Rightarrow> extracted_segment \<Rightarrow> chunk_error + chunk_part list" where
  "splitSegment segment st seg =
     (case trimBounds (es_text seg) 0 (length (es_text seg)) of
        (s, e) \<Rightarrow>
          if s = e then Inr []
          else let t = slice s e (es_text seg)
               in split_loop st (graphemeBoundaries segment t) (es_locator seg) s t 0)"

section \<open>Chunks\<close>

definition chunk_of :: "digest \<Rightarrow> string \<Rightarrow> string \<Rightarrow> nat \<Rightarrow> chunk_part \<Rightarrow> chunk_candidate" where
  "chunk_of dg documentId ownerId i p =
     (let contentHash = sha256 dg (cp_text p)
      in \<lparr>ck_chunkIndex = i, ck_contentHash = contentHash,
          ck_id = deterministicUuid dg (documentId @ '':'' @ ownerId @ '':'' @ nat_str i @ '':'' @ contentHash),
          ck_locator = cp_locator p, ck_text = cp_text p\<rparr>)"

fun push_parts :: "digest \<Rightarrow> chunk_settings \<Rightarrow> string \<Rightarrow> string \<Rightarrow> chunk_part list \<Rightarrow> chunk_candidate list \<times> nat
    \<Rightarrow> chunk_error + (chunk_candidate list \<times> nat)" where
  "push_parts dg st documentId ownerId [] acc = Inr acc"
| "push_parts dg st documentId ownerId (p # ps) (chunks, totalChars) =
     (let chars = totalChars + length (cp_text p)
      in if st_maxChunksPerDocument st \<le> length chunks \<or> st_maxChunkTotalChars st < chars
         then Inl (ExtractionFailed CHUNK_RESOURCE_LIMIT_EXCEEDED)
         else push_parts dg st documentId ownerId ps (chunks @ [chunk_of dg documentId ownerId (length chunks) p], chars))"

fun chunk_segments :: "digest \<Rightarrow> segmenter \<Rightarrow> chunk_settings \<Rightarrow> string \<Rightarrow> string \<Rightarrow> extracted_segment list
    \<Rightarrow> chunk_candidate list \<times> nat \<Rightarrow> chunk_error + (chunk_candidate list \<times> nat)" where
  "chunk_segments dg segment st documentId ownerId [] acc = Inr acc"
| "chunk_segments dg segment st documentId ownerId (seg # segs) acc =
     and_then (splitSegment segment st seg) (\<lambda>parts.
     and_then (push_parts dg st documentId ownerId parts acc)
       (chunk_segments dg segment st documentId ownerId segs))"

definition chunk :: "digest \<Rightarrow> segmenter \<Rightarrow> chunk_settings \<Rightarrow> string \<Rightarrow> string \<Rightarrow> extracted_segment list
    \<Rightarrow> chunk_error + chunk_candidate list" where
  "chunk dg segment st documentId ownerId segs =
     and_then (chunk_segments dg segment st documentId ownerId segs ([], 0)) (\<lambda>(chunks, _). Inr chunks)"

section \<open>What splitting guarantees\<close>

lemma trim_first_props:
  "first \<le> trim_first t first last'" "first \<le> last' \<Longrightarrow> trim_first t first last' \<le> last'"
  "first \<le> k \<Longrightarrow> k < trim_first t first last' \<Longrightarrow> space_at t k"
  "trim_first t first last' < last' \<Longrightarrow> \<not> space_at t (trim_first t first last')"
proof (induction t first last' rule: trim_first.induct)
  case (1 t first last')
  note IH = "1.IH"
  { case 1 show ?case using IH(1) by (subst trim_first.simps) auto }
  { case 2 then show ?case using IH(2) by (subst trim_first.simps) auto }
  { case 3 then show ?case using IH(3) by (subst (asm) trim_first.simps) (auto split: if_splits, metis Suc_leI le_neq_implies_less) }
  { case 4 then show ?case using IH(4) by (subst trim_first.simps) (auto simp: trim_first.simps [of t first]) }
qed

lemma trim_last_props:
  "trim_last t first last' \<le> last'" "first \<le> last' \<Longrightarrow> first \<le> trim_last t first last'"
  "trim_last t first last' \<le> k \<Longrightarrow> k < last' \<Longrightarrow> space_at t k"
  "first < trim_last t first last' \<Longrightarrow> \<not> space_at t (trim_last t first last' - 1)"
proof (induction last')
  case (Suc n)
  { case 1 show ?case using Suc(1) by simp }
  { case 2 then show ?case using Suc(2) by auto }
  { case 3 then show ?case using Suc(3) by (auto split: if_splits simp: less_Suc_eq) }
  { case 4 then show ?case using Suc(4) by (auto split: if_splits) }
qed simp_all

lemma trimBounds_props:
  assumes "trimBounds t a b = (s, e)" and "a \<le> b"
  shows "a \<le> s" and "s \<le> e" and "e \<le> b"
    and "a \<le> k \<Longrightarrow> k < b \<Longrightarrow> \<not> space_at t k \<Longrightarrow> s \<le> k \<and> k < e"
    and "s < e \<Longrightarrow> \<not> space_at t s" and "s < e \<Longrightarrow> \<not> space_at t (e - 1)"
proof -
  have d: "s = trim_first t a b" "e = trim_last t s b" using assms(1) by (auto simp: trimBounds_def Let_def)
  show 1: "a \<le> s" using trim_first_props(1) by (simp add: d(1))
  have sb: "s \<le> b" using trim_first_props(2) [OF assms(2)] by (simp add: d(1))
  then show "s \<le> e" using trim_last_props(2) by (simp add: d(2))
  show eb: "e \<le> b" using trim_last_props(1) by (simp add: d(2))
  show "s \<le> k \<and> k < e" if "a \<le> k" "k < b" "\<not> space_at t k"
    using that trim_first_props(3) [of a k t b] trim_last_props(3) [of t s b k] d by (meson not_le)
  show "\<not> space_at t s" if "s < e" using that eb trim_first_props(4) [of t a b] by (simp add: d(1))
  show "\<not> space_at t (e - 1)" if "s < e" using that trim_last_props(4) [of s t b] by (simp add: d(2))
qed

text \<open>What one part guarantees of the span it was cut from.\<close>

definition part_ok :: "locator \<Rightarrow> nat \<Rightarrow> string \<Rightarrow> nat \<Rightarrow> nat list \<Rightarrow> nat \<times> nat \<Rightarrow> chunk_part \<Rightarrow> bool" where
  "part_ok l offset t maxChars boundaries sp p \<longleftrightarrow>
     (case sp of (s, e) \<Rightarrow>
        s < e \<and> e \<le> length t \<and> \<not> space_at t s \<and> \<not> space_at t (e - 1) \<and>
        cp_text p = slice s e t \<and> cp_locator p = locatorForPart l (offset + s) (offset + e) \<and>
        (e - s \<le> maxChars \<or> (\<forall>b\<in>set boundaries. \<not> (s < b \<and> b < e))))"

lemma part_at_ok:
  assumes "start < e" and "e \<le> length t"
    and "e - start \<le> m \<or> (\<forall>b\<in>set boundaries. \<not> (start < b \<and> b < e))"
  shows "\<exists>spans. list_all2 (part_ok l offset t m boundaries) spans (part_at l offset t start e)
    \<and> (\<forall>(x, y)\<in>set spans. start \<le> x) \<and> length spans \<le> 1
    \<and> (\<forall>k. start \<le> k \<longrightarrow> k < e \<longrightarrow> \<not> space_at t k \<longrightarrow> (\<exists>(x, y)\<in>set spans. x \<le> k \<and> k < y))"
proof -
  obtain x y where xy: "trimBounds t start e = (x, y)" by fastforce
  note T = trimBounds_props [OF xy less_imp_le [OF assms(1)]]
  have len: "length (slice x y t) = y - x" using T(3) assms(2) by (simp add: slice_def)
  show ?thesis
  proof (cases "x = y")
    case True
    then have "part_at l offset t start e = []" by (simp add: part_at_def xy slice_def)
    moreover have "space_at t k" if "start \<le> k" "k < e" for k using T(4) [OF that] True by linarith
    ultimately show ?thesis by (intro exI [of _ "[]"]) simp
  next
    case False
    with T(2) have less: "x < y" by simp
    with len have "slice x y t \<noteq> []" by auto
    then have p: "part_at l offset t start e = [\<lparr>cp_locator = locatorForPart l (offset + x) (offset + y), cp_text = slice x y t\<rparr>]"
      by (simp add: part_at_def xy Let_def)
    have "y - x \<le> m \<or> (\<forall>b\<in>set boundaries. \<not> (x < b \<and> b < y))"
      using assms(3) T(1,3) by fastforce
    with less T assms(2) show ?thesis
      unfolding p by (intro exI [of _ "[(x, y)]"]) (auto simp: part_ok_def)
  qed
qed

text \<open>Offsets at which graphemes start: increasing and inside the text.\<close>

definition segmentation :: "segmenter \<Rightarrow> bool" where
  "segmentation segment \<longleftrightarrow> (\<forall>t. sorted_wrt (<) (segment t) \<and> (\<forall>b\<in>set (segment t). b < length t))"

lemma boundaries_sorted: "segmentation segment \<Longrightarrow> sorted_wrt (<) (graphemeBoundaries segment t)"
  by (auto simp: segmentation_def graphemeBoundaries_def sorted_wrt_append)

lemma previousBoundary_cases:
  "previousBoundary bs c m = m \<and> (\<forall>b\<in>set bs. m < b \<longrightarrow> c < b) \<or>
   previousBoundary bs c m \<in> set bs \<and> m < previousBoundary bs c m \<and> previousBoundary bs c m \<le> c"
proof (cases "List.find (\<lambda>b. b \<le> c \<and> m < b) (rev bs)")
  case None
  then have "previousBoundary bs c m = m" by (simp add: previousBoundary_def)
  moreover have "\<forall>b\<in>set bs. m < b \<longrightarrow> c < b" using None by (auto simp: find_None_iff not_le dest: leI)
  ultimately show ?thesis by blast
next
  case (Some b)
  then show ?thesis by (auto simp: previousBoundary_def dest!: find_SomeD)
qed

lemma up_to_le: "up_to x bs = Some ys \<Longrightarrow> sorted_wrt (<) bs \<Longrightarrow> b \<in> set ys \<Longrightarrow> b \<le> x \<and> b \<in> set bs"
proof (induction bs arbitrary: ys)
  case (Cons a bs)
  show ?case
  proof (cases "a = x")
    case False
    with Cons.prems obtain zs where zs: "up_to x bs = Some zs" "ys = a # zs" by auto
    have "x \<in> set bs" using zs(1) by (induction bs arbitrary: zs) (auto split: if_splits)
    with Cons zs show ?thesis by (auto intro: less_imp_le)
  qed (use Cons.prems in auto)
qed simp

lemma selectChunkEnd_total: "length t \<in> set bs \<Longrightarrow> start < length t \<Longrightarrow> \<exists>e. selectChunkEnd t start bs m g = Inr e"
  by (auto simp: selectChunkEnd_def Let_def nextBoundary_def find_None_iff split: option.split)

lemma selectChunkEnd_bounds:
  assumes "selectChunkEnd t start bs m g = Inr e" and "sorted_wrt (<) bs" and "start < length t"
    and "\<forall>b\<in>set bs. b \<le> length t" and "g \<le> m"
  shows "e \<le> length t" and "e - start \<le> m \<or> (\<forall>b\<in>set bs. \<not> (start < b \<and> b < e))"
proof -
  let ?M = "previousBoundary bs (start + m) start" and ?P = "previousBoundary bs (start + g) start"
  have M: "?M \<le> start + m" and P: "?P \<le> start + m"
    using previousBoundary_cases [of bs "start + m" start] previousBoundary_cases [of bs "start + g" start] assms(5) by auto
  have "e \<le> length t \<and> (e - start \<le> m \<or> (\<forall>b\<in>set bs. \<not> (start < b \<and> b < e)))"
  proof (cases "length t \<le> ?M")
    case True
    with assms(1) M show ?thesis by (auto simp: selectChunkEnd_def Let_def)
  next
    case False
    let ?bs = "case up_to ?P bs of None \<Rightarrow> [] | Some ys \<Rightarrow> rev ys"
    show ?thesis
    proof (cases "last_space t start ?bs")
      case (Some b)
      with assms(1) False have e: "e = b" by (simp add: selectChunkEnd_def Let_def)
      have "b \<in> set ?bs" using last_space_gt [OF Some] by simp
      then obtain ys where "up_to ?P bs = Some ys" "b \<in> set ys" by (cases "up_to ?P bs") auto
      then have "b \<le> ?P \<and> b \<in> set bs" using assms(2) by (intro up_to_le)
      with e P assms(4) show ?thesis by auto
    next
      case None
      show ?thesis
      proof (cases "start < ?M")
        case True
        with assms(1) False None have "e = ?M" by (simp add: selectChunkEnd_def Let_def)
        with M False show ?thesis by auto
      next
        case c: False
        with assms(1) False None have nb: "nextBoundary bs start = Inr e" by (simp add: selectChunkEnd_def Let_def)
        then have "List.find (\<lambda>b. start < b) bs = Some e" by (auto simp: nextBoundary_def split: option.splits)
        then obtain i where i: "i < length bs" "bs ! i = e" "\<forall>j<i. \<not> start < bs ! j"
          by (auto simp: find_Some_iff)
        have "\<not> (start < b \<and> b < e)" if "b \<in> set bs" for b
        proof -
          from that obtain j where j: "j < length bs" "bs ! j = b" by (auto simp: in_set_conv_nth)
          show ?thesis
          proof (cases "j < i")
            case True
            with i j show ?thesis by auto
          next
            case False
            then have "e \<le> b" using sorted_wrt_nth_less [OF assms(2), of i j] i j by (cases "i = j") auto
            then show ?thesis by simp
          qed
        qed
        moreover have "e \<le> length t" using nextBoundary_gt [OF nb] assms(4) by blast
        ultimately show ?thesis by blast
      qed
    qed
  qed
  then show "e \<le> length t" and "e - start \<le> m \<or> (\<forall>b\<in>set bs. \<not> (start < b \<and> b < e))" by auto
qed

lemma next_start_le: "start < e \<Longrightarrow> next_start st bs start e \<le> e"
  using previousBoundary_cases [of bs "max (e - st_chunkOverlapChars st) (start + 1)" start]
  by (auto simp: next_start_def Let_def)

definition covered_from :: "string \<Rightarrow> nat \<Rightarrow> (nat \<times> nat) list \<Rightarrow> bool" where
  "covered_from t start spans \<longleftrightarrow>
     (\<forall>k. start \<le> k \<longrightarrow> k < length t \<longrightarrow> \<not> space_at t k \<longrightarrow> (\<exists>(x, y)\<in>set spans. x \<le> k \<and> k < y))"

lemma split_loop_ok:
  assumes "length t \<in> set bs" and "sorted_wrt (<) bs" and "\<forall>b\<in>set bs. b \<le> length t"
    and "st_chunkTargetChars st \<le> st_chunkMaxChars st"
  shows "\<exists>parts spans. split_loop st bs l offset t start = Inr parts
    \<and> list_all2 (part_ok l offset t (st_chunkMaxChars st) bs) spans parts
    \<and> covered_from t start spans \<and> length parts \<le> length t - start"
  using assms
proof (induction st bs l offset t start rule: split_loop.induct)
  case (1 st bs l offset t start)
  note prems = "1.prems"
  show ?case
  proof (cases "length t \<le> start")
    case True
    then have "split_loop st bs l offset t start = Inr []" by (simp add: split_loop.simps)
    moreover have "covered_from t start []" using True by (simp add: covered_from_def)
    ultimately show ?thesis by (intro exI [of _ "[]"]) simp
  next
    case False
    then have less: "start < length t" by simp
    from selectChunkEnd_total [OF prems(1) less] obtain e
      where e: "selectChunkEnd t start bs (st_chunkMaxChars st) (st_chunkTargetChars st) = Inr e" by blast
    note gt = selectChunkEnd_gt [OF e less]
    note B = selectChunkEnd_bounds [OF e prems(2) less prems(3,4)]
    from part_at_ok [OF gt B] obtain sp where sp:
      "list_all2 (part_ok l offset t (st_chunkMaxChars st) bs) sp (part_at l offset t start e)"
      "length sp \<le> 1" "\<forall>k. start \<le> k \<longrightarrow> k < e \<longrightarrow> \<not> space_at t k \<longrightarrow> (\<exists>(x, y)\<in>set sp. x \<le> k \<and> k < y)"
      by blast
    show ?thesis
    proof (cases "e = length t")
      case True
      then have "split_loop st bs l offset t start = Inr (part_at l offset t start e)"
        using False e by (simp add: split_loop.simps)
      moreover have "covered_from t start sp" using sp(3) True by (simp add: covered_from_def)
      moreover have "length (part_at l offset t start e) \<le> length t - start"
        using list_all2_lengthD [OF sp(1)] sp(2) less by linarith
      ultimately show ?thesis using sp(1) by blast
    next
      case ne: False
      let ?n = "next_start st bs start e"
      from "1.IH" [OF False e ne prems] obtain parts spans where ih: "split_loop st bs l offset t ?n = Inr parts"
        "list_all2 (part_ok l offset t (st_chunkMaxChars st) bs) spans parts" "covered_from t ?n spans" "length parts \<le> length t - ?n"
        by blast
      have "split_loop st bs l offset t start = Inr (part_at l offset t start e @ parts)"
        using False e ne ih(1) by (simp add: split_loop.simps [of st bs l offset t start])
      moreover have "list_all2 (part_ok l offset t (st_chunkMaxChars st) bs) (sp @ spans) (part_at l offset t start e @ parts)"
        using sp(1) ih(2) by (rule list_all2_appendI)
      moreover have "covered_from t start (sp @ spans)"
        unfolding covered_from_def
      proof (intro allI impI)
        fix k assume k: "start \<le> k" "k < length t" "\<not> space_at t k"
        show "\<exists>(x, y)\<in>set (sp @ spans). x \<le> k \<and> k < y"
        proof (cases "k < e")
          case True
          with sp(3) k show ?thesis by auto
        next
          case False
          then have "?n \<le> k" using next_start_le [OF gt, of st bs] by simp
          with ih(3) k show ?thesis by (auto simp: covered_from_def)
        qed
      qed
      moreover have "length (part_at l offset t start e @ parts) \<le> length t - start"
        using list_all2_lengthD [OF sp(1)] sp(2) ih(4) next_start_gt [OF gt, of st bs] less by simp
      ultimately show ?thesis by blast
    qed
  qed
qed

text \<open>The same over the whole text of the segment.\<close>

definition span_ok :: "segmenter \<Rightarrow> nat \<Rightarrow> extracted_segment \<Rightarrow> nat \<times> nat \<Rightarrow> chunk_part \<Rightarrow> bool" where
  "span_ok segment maxChars seg sp p \<longleftrightarrow>
     (case (sp, trimBounds (es_text seg) 0 (length (es_text seg))) of
        ((s, e), (a, b)) \<Rightarrow>
          s < e \<and> e \<le> length (es_text seg) \<and> \<not> is_ws (es_text seg ! s) \<and> \<not> is_ws (es_text seg ! (e - 1)) \<and>
          cp_text p = slice s e (es_text seg) \<and> cp_locator p = locatorForPart (es_locator seg) s e \<and>
          (e - s \<le> maxChars \<or> (\<forall>g\<in>set (segment (slice a b (es_text seg))). \<not> (s < a + g \<and> a + g < e))))"

lemma slice_slice: "a + y \<le> b \<Longrightarrow> slice x y (slice a b t) = slice (a + x) (a + y) t"
  by (simp add: slice_def drop_take min_def add.commute)

lemma space_at_slice: "i < b - a \<Longrightarrow> b \<le> length t \<Longrightarrow> space_at (slice a b t) i = space_at t (a + i)"
  by (auto simp: space_at_def slice_def)

lemma part_ok_span:
  assumes "trimBounds (es_text seg) 0 (length (es_text seg)) = (a, b)"
    and "part_ok (es_locator seg) a (slice a b (es_text seg)) m (graphemeBoundaries segment (slice a b (es_text seg))) (x, y) p"
  shows "span_ok segment m seg (a + x, a + y) p"
proof -
  let ?t = "es_text seg"
  note T = trimBounds_props [OF assms(1) le0]
  have len: "length (slice a b ?t) = b - a" using T(3) by (simp add: slice_def)
  have P: "x < y" "y \<le> b - a" "\<not> space_at (slice a b ?t) x" "\<not> space_at (slice a b ?t) (y - 1)"
    "cp_text p = slice x y (slice a b ?t)" "cp_locator p = locatorForPart (es_locator seg) (a + x) (a + y)"
    "y - x \<le> m \<or> (\<forall>g\<in>set (segment (slice a b ?t)). \<not> (x < g \<and> g < y))"
    using assms(2) len by (auto simp: part_ok_def graphemeBoundaries_def)
  have ab: "a + y \<le> b" using P(1,2) by simp
  have "\<not> space_at ?t (a + x)" "\<not> space_at ?t (a + (y - 1))"
    using P(1-4) T(3) space_at_slice [of x b a ?t] space_at_slice [of "y - 1" b a ?t] by simp_all
  moreover have "a + x < length ?t" "a + (y - 1) < length ?t" "a + (y - 1) = a + y - 1" using P(1) ab T(3) by simp_all
  ultimately have "\<not> is_ws (?t ! (a + x))" "\<not> is_ws (?t ! (a + y - 1))" by (simp_all only: space_at_def simp_thms)
  with P ab T(3) slice_slice [OF ab, of x ?t] show ?thesis by (auto simp: span_ok_def assms(1))
qed

lemma splitSegment_ok:
  assumes "segmentation segment" and "st_chunkTargetChars st \<le> st_chunkMaxChars st"
  shows "\<exists>parts spans. splitSegment segment st seg = Inr parts \<and> length parts \<le> length (es_text seg)
    \<and> list_all2 (span_ok segment (st_chunkMaxChars st) seg) spans parts
    \<and> (\<forall>k<length (es_text seg). \<not> is_ws (es_text seg ! k) \<longrightarrow> (\<exists>(x, y)\<in>set spans. x \<le> k \<and> k < y))"
proof -
  let ?t = "es_text seg"
  obtain a b where ab: "trimBounds ?t 0 (length ?t) = (a, b)" by fastforce
  note T = trimBounds_props [OF ab le0]
  let ?u = "slice a b ?t"
  let ?bs = "graphemeBoundaries segment ?u"
  have len: "length ?u = b - a" using T(3) by (simp add: slice_def)
  show ?thesis
  proof (cases "a = b")
    case True
    then have "splitSegment segment st seg = Inr []" by (simp add: splitSegment_def ab)
    moreover have "is_ws (?t ! k)" if "k < length ?t" for k
    proof (rule ccontr)
      assume "\<not> is_ws (?t ! k)"
      then have "a \<le> k \<and> k < b" using T(4) [OF le0 that] by (simp add: space_at_def)
      with True show False by simp
    qed
    ultimately show ?thesis by (intro exI [of _ "[]"]) simp
  next
    case False
    have "length ?u \<in> set ?bs" "\<forall>g\<in>set ?bs. g \<le> length ?u"
      using assms(1) by (auto simp: graphemeBoundaries_def segmentation_def intro: less_imp_le)
    from split_loop_ok [OF this(1) boundaries_sorted [OF assms(1)] this(2) assms(2), of "es_locator seg" a 0]
    obtain parts spans where S: "split_loop st ?bs (es_locator seg) a ?u 0 = Inr parts"
      "list_all2 (part_ok (es_locator seg) a ?u (st_chunkMaxChars st) ?bs) spans parts" "covered_from ?u 0 spans"
      "length parts \<le> length ?u" by auto
    let ?spans = "map (\<lambda>(x, y). (a + x, a + y)) spans"
    have "splitSegment segment st seg = Inr parts" using False S(1) by (simp add: splitSegment_def ab Let_def)
    moreover have "list_all2 (span_ok segment (st_chunkMaxChars st) seg) ?spans parts"
      unfolding list_all2_map1 using S(2)
      by (rule list_all2_mono) (auto intro: part_ok_span [OF ab])
    moreover have "\<exists>(x, y)\<in>set ?spans. x \<le> k \<and> k < y" if k: "k < length ?t" "\<not> is_ws (?t ! k)" for k
    proof -
      have ns: "\<not> space_at ?t k" using k by (simp add: space_at_def)
      from T(4) [OF le0 k(1) ns] have in': "a \<le> k" "k < b" by auto
      with ns have "\<not> space_at ?u (k - a)" using space_at_slice [of "k - a" b a ?t] T(3) by simp
      moreover have "k - a < length ?u" using in' len by simp
      ultimately have "\<exists>(x, y)\<in>set spans. x \<le> k - a \<and> k - a < y" using S(3) by (simp add: covered_from_def)
      then obtain x y where "(x, y) \<in> set spans" "x \<le> k - a" "k - a < y" by auto
      with in' show ?thesis by (intro bexI [of _ "(a + x, a + y)"]) (auto simp: image_iff intro!: bexI [of _ "(x, y)"])
    qed
    moreover have "length parts \<le> length ?t" using S(4) len T(3) by simp
    ultimately show ?thesis by blast
  qed
qed

text \<open>The limits hold of every accepted document, and only they can fail.\<close>

definition total_chars :: "chunk_part list \<Rightarrow> nat" where
  "total_chars ps = sum_list (map (\<lambda>p. length (cp_text p)) ps)"

lemma total_chars_simps [simp]:
  "total_chars [] = 0" "total_chars (p # ps) = length (cp_text p) + total_chars ps" "total_chars (ps @ qs) = total_chars ps + total_chars qs"
  by (simp_all add: total_chars_def)

definition within_limits :: "chunk_settings \<Rightarrow> nat \<Rightarrow> nat \<Rightarrow> bool" where
  "within_limits st n chars \<longleftrightarrow> n \<le> st_maxChunksPerDocument st \<and> chars \<le> st_maxChunkTotalChars st"

definition numbered :: "digest \<Rightarrow> string \<Rightarrow> string \<Rightarrow> nat \<Rightarrow> chunk_part list \<Rightarrow> chunk_candidate list" where
  "numbered dg d w n ps = map (\<lambda>(i, p). chunk_of dg d w i p) (enumerate n ps)"

lemma numbered_simps [simp]:
  "numbered dg d w n [] = []" "numbered dg d w n (p # ps) = chunk_of dg d w n p # numbered dg d w (Suc n) ps"
  "length (numbered dg d w n ps) = length ps"
  by (simp_all add: numbered_def)

lemma numbered_append: "numbered dg d w n (ps @ qs) = numbered dg d w n ps @ numbered dg d w (n + length ps) qs"
  by (induction ps arbitrary: n) simp_all

lemma push_parts_eq:
  assumes "within_limits st (length chunks) n"
  shows "push_parts dg st d w ps (chunks, n) =
    (if within_limits st (length chunks + length ps) (n + total_chars ps)
     then Inr (chunks @ numbered dg d w (length chunks) ps, n + total_chars ps)
     else Inl (ExtractionFailed CHUNK_RESOURCE_LIMIT_EXCEEDED))"
  using assms
proof (induction ps arbitrary: chunks n)
  case (Cons p ps)
  let ?c = "chunks @ [chunk_of dg d w (length chunks) p]" and ?n = "n + length (cp_text p)"
  show ?case
  proof (cases "within_limits st (length ?c) ?n")
    case True
    with Cons.IH [OF True] show ?thesis by (auto simp: within_limits_def ac_simps)
  next
    case False
    with Cons.prems show ?thesis by (auto simp: within_limits_def)
  qed
qed simp

lemma chunk_segments_eq:
  assumes "segmentation segment" and "st_chunkTargetChars st \<le> st_chunkMaxChars st" and "within_limits st (length chunks) n"
  defines "parts \<equiv> \<lambda>segs. concat (map (\<lambda>seg. projr (splitSegment segment st seg)) segs)"
  shows "chunk_segments dg segment st d w segs (chunks, n) =
    (if within_limits st (length chunks + length (parts segs)) (n + total_chars (parts segs))
     then Inr (chunks @ numbered dg d w (length chunks) (parts segs), n + total_chars (parts segs))
     else Inl (ExtractionFailed CHUNK_RESOURCE_LIMIT_EXCEEDED))"
  using assms(3)
proof (induction segs arbitrary: chunks n)
  case Nil
  then show ?case by (simp add: parts_def)
next
  case (Cons seg segs)
  from splitSegment_ok [OF assms(1,2), of seg] obtain ps where ps: "splitSegment segment st seg = Inr ps" by blast
  have P: "parts (seg # segs) = ps @ parts segs" by (simp add: parts_def ps)
  show ?case
  proof (cases "within_limits st (length chunks + length ps) (n + total_chars ps)")
    case True
    with Cons.IH [of "chunks @ numbered dg d w (length chunks) ps" "n + total_chars ps"] Cons.prems
    show ?thesis by (simp add: P ps push_parts_eq numbered_append ac_simps)
  next
    case False
    then have "\<not> within_limits st (length chunks + length (parts (seg # segs))) (n + total_chars (parts (seg # segs)))"
      by (auto simp: within_limits_def P)
    with False Cons.prems show ?thesis by (simp add: ps push_parts_eq)
  qed
qed

section \<open>Properties of chunking\<close>

text \<open>C26 Splitting loses nothing and cites exactly: for any segmenter whose offsets increase inside the
  text, splitting a segment always succeeds, with at most as many parts as the text has characters.
  Each part is the text of a span of the segment that starts and ends in no white space, its locator
  is that span, shifted by the start of the segment's range, and it is no longer than the maximum
  unless the span is inside one grapheme; and every character that is not white space is in a part.\<close>

theorem split_faithful:
  assumes "segmentation segment" and "st_chunkTargetChars st \<le> st_chunkMaxChars st"
  shows "\<exists>parts spans. splitSegment segment st seg = Inr parts \<and> length parts \<le> length (es_text seg)
    \<and> list_all2 (span_ok segment (st_chunkMaxChars st) seg) spans parts
    \<and> (\<forall>k<length (es_text seg). \<not> is_ws (es_text seg ! k) \<longrightarrow> (\<exists>(x, y)\<in>set spans. x \<le> k \<and> k < y))"
  using assms by (rule splitSegment_ok)

text \<open>Chunking always returns: for any document its result is the parts of its segments in order,
  numbered from 0, each with the digest of its text and an identifier derived from document, owner,
  number and digest; or, exactly when they are more than the allowed chunks or longer together than
  the allowed characters, the resource-limit failure.  No other error is possible.\<close>

theorem chunk_outcome:
  assumes "segmentation segment" and "st_chunkTargetChars st \<le> st_chunkMaxChars st"
  shows "chunk dg segment st documentId ownerId segs =
    (let parts = concat (map (\<lambda>seg. projr (splitSegment segment st seg)) segs)
     in if length parts \<le> st_maxChunksPerDocument st \<and> total_chars parts \<le> st_maxChunkTotalChars st
        then Inr (map (\<lambda>(i, p). chunk_of dg documentId ownerId i p) (enumerate 0 parts))
        else Inl (ExtractionFailed CHUNK_RESOURCE_LIMIT_EXCEEDED))"
  using chunk_segments_eq [OF assms, of "[]" 0 dg documentId ownerId segs]
  by (simp add: chunk_def Let_def within_limits_def numbered_def)

text \<open>One grapheme per character.\<close>

definition unit_segmenter :: segmenter where
  "unit_segmenter t = [0..<length t]"

definition small_settings :: chunk_settings where
  "small_settings = \<lparr>st_chunkMaxChars = 4, st_chunkOverlapChars = 1, st_chunkTargetChars = 3,
     st_maxChunksPerDocument = 3, st_maxChunkTotalChars = 100\<rparr>"

definition sample_segment :: extracted_segment where
  "sample_segment = \<lparr>es_locator = TextRange 0 6, es_text = '' ab cd''\<rparr>"

lemma unit_segmentation: "segmentation unit_segmenter"
  by (simp add: segmentation_def unit_segmenter_def)

lemma split_faithful_witness:
  "\<exists>parts spans. splitSegment unit_segmenter small_settings sample_segment = Inr parts \<and> parts \<noteq> []
     \<and> list_all2 (span_ok unit_segmenter 4 sample_segment) spans parts"
proof -
  have "splitSegment unit_segmenter small_settings sample_segment \<noteq> Inr []" by code_simp
  moreover have "st_chunkTargetChars small_settings \<le> st_chunkMaxChars small_settings" by (simp add: small_settings_def)
  ultimately show ?thesis
    using split_faithful [OF unit_segmentation, of small_settings sample_segment] by (auto simp: small_settings_def)
qed

lemma chunk_outcome_witness:
  "\<exists>chunks. chunk sample_digest unit_segmenter small_settings ''d'' ''u'' [sample_segment] = Inr chunks \<and> length chunks = 2"
proof -
  have "st_chunkTargetChars small_settings \<le> st_chunkMaxChars small_settings" by (simp add: small_settings_def)
  note c = chunk_outcome [OF unit_segmentation this, of sample_digest "''d''" "''u''" "[sample_segment]"]
  let ?parts = "concat (map (\<lambda>seg. projr (splitSegment unit_segmenter small_settings seg)) [sample_segment])"
  have "length ?parts = 2" "total_chars ?parts = 6" by code_simp+
  with c show ?thesis by (simp add: small_settings_def del: concat.simps list.map)
qed

end
