(* ===== verification/ChunkStore.thy ===== *)
theory ChunkStore imports Chunking Content begin

text \<open>
  Extraction, \<open>ai/extraction.service.ts\<close>, and the table of chunks,
  \<open>ai/repositories/chunk.repository.ts\<close>.  The package that reads PDF files and the UTF-8 decoder are
  parameters.
\<close>

section \<open>Extraction\<close>

text \<open>
  What the PDF package makes of the bytes: \<^const>\<open>None\<close> if it rejects them, else its pages, each the
  strings of its text items or \<^const>\<open>None\<close> where reading the page fails.
\<close>

type_synonym pdf_reader = "bytes \<Rightarrow> string list option list option"

definition toPageText :: "string list \<Rightarrow> string" where
  "toPageText items = js_trim (collapse_ws (join_with '' '' (filter (\<lambda>t. 0 < length t) items)))"

fun pdf_pages :: "nat \<Rightarrow> string list option list \<Rightarrow> failure_code + extracted_segment list" where
  "pdf_pages page [] = Inr []"
| "pdf_pages page (None # rest) = Inl PDF_INVALID"
| "pdf_pages page (Some items # rest) =
     and_then (pdf_pages (page + 1) rest) (\<lambda>segments.
       let t = toPageText items
       in Inr (if t = [] then segments else \<lparr>es_locator = PdfPageLocator page, es_text = t\<rparr> # segments))"

definition extractPdf :: "pdf_reader \<Rightarrow> bytes \<Rightarrow> failure_code + extracted_segment list" where
  "extractPdf pdf bytes =
     (case pdf bytes of
        None \<Rightarrow> Inl PDF_INVALID
      | Some pages \<Rightarrow>
          and_then (pdf_pages 1 pages) (\<lambda>segments. if segments = [] then Inl PDF_TEXT_NOT_FOUND else Inr segments))"

definition extractPlainText :: "(bytes \<Rightarrow> string) \<Rightarrow> bytes \<Rightarrow> extracted_segment list" where
  "extractPlainText utf8 bytes =
     (let t = utf8 bytes in if t = [] then [] else [\<lparr>es_locator = TextRange 0 (length t), es_text = t\<rparr>])"

definition extract_segments :: "pdf_reader \<Rightarrow> (bytes \<Rightarrow> string) \<Rightarrow> nat \<Rightarrow> extraction_source \<Rightarrow> bytes \<Rightarrow> failure_code + extracted_segment list" where
  "extract_segments pdf utf8 maxObjectBytes source bytes =
     (if maxObjectBytes < length bytes then Inl EXTRACTION_OBJECT_TOO_LARGE
      else if xs_type source = TEXT_TYPE then Inr (extractPlainText utf8 bytes)
      else extractPdf pdf bytes)"

section \<open>The table\<close>

text \<open>The two time columns are always \<open>NULL\<close> and are left out.\<close>

record chunk_row =
  cr_id :: string
  cr_documentId :: string
  cr_ownerId :: string
  cr_chunkIndex :: nat
  cr_text :: string
  cr_locator :: locator
  cr_pageNumber :: "nat option"
  cr_contentHash :: string

record replace_command =
  rc_attempt :: nat
  rc_documentId :: string
  rc_jobId :: string
  rc_leaseId :: string
  rc_ownerId :: string
  rc_chunks :: "chunk_candidate list"

definition chunk_row_of :: "string \<Rightarrow> string \<Rightarrow> chunk_candidate \<Rightarrow> chunk_row" where
  "chunk_row_of documentId ownerId c =
     \<lparr>cr_id = ck_id c, cr_documentId = documentId, cr_ownerId = ownerId, cr_chunkIndex = ck_chunkIndex c,
      cr_text = ck_text c, cr_locator = ck_locator c,
      cr_pageNumber = (case ck_locator c of PdfPageLocator p \<Rightarrow> Some p | TextRange _ _ \<Rightarrow> None),
      cr_contentHash = ck_contentHash c\<rparr>"

text \<open>A \<open>text\<close> column holds no NUL, and \<open>btrim\<close> takes off blanks.\<close>

definition chunk_row_ok :: "chunk_row \<Rightarrow> bool" where
  "chunk_row_ok r \<longleftrightarrow>
     fits_int4 (int (cr_chunkIndex r)) \<and> list_ex (\<lambda>c. c \<noteq> CHR '' '') (cr_text r) \<and> CHR 0x00 \<notin> set (cr_text r) \<and>
     (case cr_pageNumber r of None \<Rightarrow> True | Some p \<Rightarrow> 0 < p \<and> fits_int4 (int p)) \<and> length (cr_contentHash r) \<le> 64"

definition chunk_keys :: "chunk_row list \<Rightarrow> bool" where
  "chunk_keys t \<longleftrightarrow> distinct (map cr_id t) \<and> distinct (map (\<lambda>r. (cr_documentId r, cr_ownerId r, cr_chunkIndex r)) t)"

definition insert_chunks :: "chunk_row list \<Rightarrow> chunk_row list \<Rightarrow> db_failure + chunk_row list" where
  "insert_chunks rows t = (if list_all chunk_row_ok rows \<and> chunk_keys (t @ rows) then Inr (t @ rows) else Inl DbFailure)"

text \<open>The loop over the batches never ends for a batch size of 0 and a chunk to insert: that is \<^const>\<open>None\<close>.\<close>

partial_function (option) insert_batches :: "nat \<Rightarrow> chunk_row list \<Rightarrow> chunk_row list \<Rightarrow> (db_failure + chunk_row list) option" where
  "insert_batches batchSize rows t =
     (if rows = [] then Some (Inr t)
      else case insert_chunks (take batchSize rows) t of
             Inl e \<Rightarrow> Some (Inl e)
           | Inr t' \<Rightarrow> insert_batches batchSize (drop batchSize rows) t')"

definition active_job :: "int \<Rightarrow> replace_command \<Rightarrow> job_row \<Rightarrow> bool" where
  "active_job now c j \<longleftrightarrow>
     j_id j = rc_jobId c \<and> j_attempts j = rc_attempt c \<and> j_leaseId j = Some (rc_leaseId c) \<and> j_status j = RUNNING \<and>
     lease_live now j \<and> j_documentId j = rc_documentId c \<and> j_ownerId j = rc_ownerId c"

definition of_document :: "string \<Rightarrow> string \<Rightarrow> chunk_row \<Rightarrow> bool" where
  "of_document documentId ownerId r \<longleftrightarrow> cr_documentId r = documentId \<and> cr_ownerId r = ownerId"

definition replaceForDocument ::
  "nat \<Rightarrow> int \<Rightarrow> replace_command \<Rightarrow> ai_db \<Rightarrow> chunk_row list \<Rightarrow> ((db_failure + bool) \<times> chunk_row list) option" where
  "replaceForDocument batchSize now c db t =
     (if length (filter (active_job now c) (ai_jobs db)) \<noteq> 1 then Some (Inr False, t)
      else map_option (\<lambda>r. case r of Inl e \<Rightarrow> (Inl e, t) | Inr t' \<Rightarrow> (Inr True, t'))
             (insert_batches batchSize (map (chunk_row_of (rc_documentId c) (rc_ownerId c)) (rc_chunks c))
               (filter (\<lambda>r. \<not> of_document (rc_documentId c) (rc_ownerId c) r) t)))"

definition candidate_of :: "chunk_row \<Rightarrow> chunk_candidate" where
  "candidate_of r =
     \<lparr>ck_chunkIndex = cr_chunkIndex r, ck_contentHash = cr_contentHash r, ck_id = cr_id r, ck_locator = cr_locator r, ck_text = cr_text r\<rparr>"

definition findForDocument :: "string \<Rightarrow> string \<Rightarrow> chunk_row list \<Rightarrow> chunk_candidate list" where
  "findForDocument documentId ownerId t =
     map candidate_of (sort_key cr_chunkIndex (filter (of_document documentId ownerId) t))"

section \<open>Replacing the chunks of a document\<close>

lemma chunk_keys_prefix: "chunk_keys (t @ rows) \<Longrightarrow> chunk_keys t"
  by (simp add: chunk_keys_def)

lemma insert_batches_all:
  assumes "0 < batchSize" and "list_all chunk_row_ok rows" and "chunk_keys (t @ rows)"
  shows "insert_batches batchSize rows t = Some (Inr (t @ rows))"
  using assms(2,3)
proof (induction rows arbitrary: t rule: length_induct)
  case (1 rows)
  show ?case
  proof (cases "rows = []")
    case True
    then show ?thesis by (simp add: insert_batches.simps)
  next
    case False
    let ?a = "take batchSize rows" and ?b = "drop batchSize rows"
    have all: "list_all chunk_row_ok (?a @ ?b)" using 1(2) by simp
    have keys: "chunk_keys ((t @ ?a) @ ?b)" using 1(3) by simp
    have ok: "list_all chunk_row_ok ?a" "list_all chunk_row_ok ?b" "chunk_keys (t @ ?a)" "chunk_keys ((t @ ?a) @ ?b)"
      using all chunk_keys_prefix [OF keys] keys by (simp_all only: list_all_append)
    have "length ?b < length rows" using False assms(1) by simp
    with 1(1) ok(2,4) have "insert_batches batchSize ?b (t @ ?a) = Some (Inr ((t @ ?a) @ ?b))" by blast
    with False ok(1,3) show ?thesis by (simp add: insert_batches.simps [of batchSize rows t] insert_chunks_def)
  qed
qed

lemma candidate_of_row [simp]: "candidate_of (chunk_row_of d w c) = c"
  by (simp add: candidate_of_def chunk_row_of_def)

lemma find_others:
  assumes "(d', w') \<noteq> (d, w)"
  shows "findForDocument d' w' (filter (\<lambda>r. \<not> of_document d w r) t @ map (chunk_row_of d w) cs) = findForDocument d' w' t"
proof -
  have "filter (of_document d' w') (filter (\<lambda>r. \<not> of_document d w r) t) = filter (of_document d' w') t"
    using assms by (auto simp: filter_filter of_document_def intro: filter_cong)
  moreover have "filter (of_document d' w') (map (chunk_row_of d w) cs) = []"
    using assms by (auto simp: filter_empty_conv of_document_def chunk_row_of_def)
  ultimately show ?thesis by (simp add: findForDocument_def)
qed

lemma find_own:
  assumes "sorted (map ck_chunkIndex cs)"
  shows "findForDocument d w (filter (\<lambda>r. \<not> of_document d w r) t @ map (chunk_row_of d w) cs) = cs"
proof -
  have "filter (of_document d w) (filter (\<lambda>r. \<not> of_document d w r) t) = []" by (auto simp: filter_empty_conv)
  moreover have "filter (of_document d w) (map (chunk_row_of d w) cs) = map (chunk_row_of d w) cs"
    by (auto simp: filter_id_conv of_document_def chunk_row_of_def)
  moreover have "sort_key cr_chunkIndex (map (chunk_row_of d w) cs) = map (chunk_row_of d w) cs"
    using assms by (intro sort_key_id_if_sorted) (simp add: comp_def chunk_row_of_def)
  ultimately show ?thesis by (simp add: findForDocument_def comp_def)
qed

text \<open>Replacing the chunks of a document takes effect as a whole and only under a live lease: a worker
  that no longer holds the job for this document gets false and changes nothing; the holder, whose
  chunks fit the table, stores exactly them, whatever the batch size, they are read back in order,
  the chunks of every other document stay, and doing it again changes nothing.\<close>

theorem replace_chunks:
  assumes "0 < batchSize"
    and "list_all chunk_row_ok (map (chunk_row_of (rc_documentId c) (rc_ownerId c)) (rc_chunks c))"
    and "chunk_keys (filter (\<lambda>r. \<not> of_document (rc_documentId c) (rc_ownerId c) r) t @ map (chunk_row_of (rc_documentId c) (rc_ownerId c)) (rc_chunks c))"
    and "sorted (map ck_chunkIndex (rc_chunks c))"
  shows "if length (filter (active_job now c) (ai_jobs db)) = 1
    then \<exists>t'. replaceForDocument batchSize now c db t = Some (Inr True, t')
      \<and> findForDocument (rc_documentId c) (rc_ownerId c) t' = rc_chunks c
      \<and> (\<forall>d w. (d, w) \<noteq> (rc_documentId c, rc_ownerId c) \<longrightarrow> findForDocument d w t' = findForDocument d w t)
      \<and> replaceForDocument batchSize now c db t' = Some (Inr True, t')
    else replaceForDocument batchSize now c db t = Some (Inr False, t)"
proof -
  let ?keep = "\<lambda>t. filter (\<lambda>r. \<not> of_document (rc_documentId c) (rc_ownerId c) r) t"
    and ?rows = "map (chunk_row_of (rc_documentId c) (rc_ownerId c)) (rc_chunks c)"
  let ?t = "?keep t @ ?rows"
  have again: "?keep ?t = ?keep t"
    by (auto simp: of_document_def chunk_row_of_def filter_empty_conv)
  show ?thesis
  proof (cases "length (filter (active_job now c) (ai_jobs db)) = 1")
    case True
    then have "replaceForDocument batchSize now c db t = Some (Inr True, ?t)"
      "replaceForDocument batchSize now c db ?t = Some (Inr True, ?t)"
      using insert_batches_all [OF assms(1-3)] again by (simp_all add: replaceForDocument_def)
    with True find_own [OF assms(4)] find_others show ?thesis by (auto intro!: exI [of _ ?t])
  qed (simp add: replaceForDocument_def)
qed

definition sample_replace :: replace_command where
  "sample_replace = \<lparr>rc_attempt = 1, rc_documentId = ''d'', rc_jobId = ''j'', rc_leaseId = ''l'', rc_ownerId = ''w'',
     rc_chunks = [\<lparr>ck_chunkIndex = 0, ck_contentHash = ''h'', ck_id = ''1'', ck_locator = TextRange 0 2, ck_text = ''ab''\<rparr>,
                  \<lparr>ck_chunkIndex = 1, ck_contentHash = ''g'', ck_id = ''2'', ck_locator = TextRange 1 4, ck_text = ''b c''\<rparr>]\<rparr>"

definition sample_chunk_table :: "chunk_row list" where
  "sample_chunk_table = [chunk_row_of ''d'' ''w'' \<lparr>ck_chunkIndex = 0, ck_contentHash = ''f'', ck_id = ''0'', ck_locator = TextRange 0 1, ck_text = ''x''\<rparr>,
     chunk_row_of ''e'' ''w'' \<lparr>ck_chunkIndex = 0, ck_contentHash = ''f'', ck_id = ''9'', ck_locator = PdfPageLocator 1, ck_text = ''x''\<rparr>]"

lemma replace_chunks_witness:
  "\<exists>t'. replaceForDocument 1 5 sample_replace one_running sample_chunk_table = Some (Inr True, t')
     \<and> findForDocument ''d'' ''w'' t' = rc_chunks sample_replace"
proof -
  have a: "list_all chunk_row_ok (map (chunk_row_of (rc_documentId sample_replace) (rc_ownerId sample_replace)) (rc_chunks sample_replace))"
    by (simp add: sample_replace_def chunk_row_of_def chunk_row_ok_def fits_int4_def)
  have k: "chunk_keys (filter (\<lambda>r. \<not> of_document (rc_documentId sample_replace) (rc_ownerId sample_replace) r) sample_chunk_table
      @ map (chunk_row_of (rc_documentId sample_replace) (rc_ownerId sample_replace)) (rc_chunks sample_replace))"
    by (simp add: sample_replace_def sample_chunk_table_def chunk_row_of_def of_document_def chunk_keys_def)
  have s: "sorted (map ck_chunkIndex (rc_chunks sample_replace))" by (simp add: sample_replace_def)
  have one: "length (filter (active_job 5 sample_replace) (ai_jobs one_running)) = 1" by code_simp
  have "rc_documentId sample_replace = ''d''" "rc_ownerId sample_replace = ''w''" by (simp_all add: sample_replace_def)
  with replace_chunks [OF _ a k s, of 1 5 one_running] one show ?thesis by auto
qed

section \<open>The writes under a lease\<close>

text \<open>The command of a worker that holds, or once held, the fence \<^term>\<open>a\<close>.\<close>

definition command_of_attempt :: "job_attempt \<Rightarrow> replace_command \<Rightarrow> bool" where
  "command_of_attempt a c \<longleftrightarrow> rc_jobId c = ja_id a \<and> rc_attempt c = ja_attempts a \<and> rc_leaseId c = ja_leaseId a"

lemma stale_replace:
  assumes "\<not> live a now db" and "command_of_attempt a c"
  shows "replaceForDocument batchSize now c db t = Some (Inr False, t)"
proof -
  have "filter (active_job now c) (ai_jobs db) = []"
    using assms by (auto simp: filter_empty_conv live_def active_job_def fenced_def command_of_attempt_def)
  then show ?thesis by (simp add: replaceForDocument_def)
qed

lemma live_replace:
  assumes "queue_ok db" and "command_of_attempt a c" and "j \<in> set (ai_jobs db)" and "fenced a j" and "lease_live now j"
    and "j_documentId j = rc_documentId c" and "j_ownerId j = rc_ownerId c"
  shows "length (filter (active_job now c) (ai_jobs db)) = 1"
proof -
  have "active_job now c = (\<lambda>j. fenced a j \<and> (lease_live now j \<and> j_documentId j = rc_documentId c \<and> j_ownerId j = rc_ownerId c))"
    using assms(2) by (auto simp: active_job_def fenced_def command_of_attempt_def)
  moreover have "\<exists>j\<in>set (ai_jobs db). fenced a j \<and> (lease_live now j \<and> j_documentId j = rc_documentId c \<and> j_ownerId j = rc_ownerId c)"
    using assms(3-7) by blast
  ultimately show ?thesis
    using fenced_unique [OF assms(1), of a "\<lambda>j. lease_live now j \<and> j_documentId j = rc_documentId c \<and> j_ownerId j = rc_ownerId c"]
    by simp
qed

text \<open>C4 Fencing: with a stale fence (another attempt, another lease, not running, or the lease
  expired) each of the six writes that carry the fence answers false and changes nothing: completion,
  failure, technical retry, budget record, default model, and the replacement of the chunks; and with a live one
  completion, failure and budget record are accepted, and the chunks are replaced if they are of the job's own
  document.  Reservations, usage, caches and quizzes are written without the fence and are not meant.\<close>

theorem stale_fence_rejected:
  shows "(\<not> live a now db \<longrightarrow>
      complete a now db = (False, db) \<and> fail a code now db = (False, db)
    \<and> retryTechnical a reason now db = (Inr False, db)
    \<and> record_budget a estimated settled status now db = (False, db)
    \<and> ensureDefaultPlatformModel a ownerId modelId now db = (False, db)
    \<and> (\<forall>c t batchSize. command_of_attempt a c \<longrightarrow> replaceForDocument batchSize now c db t = Some (Inr False, t)))
    \<and> (queue_ok db \<and> live a now db \<longrightarrow>
      fst (complete a now db) \<and> fst (fail a code now db) \<and> fst (record_budget a estimated settled status now db)
    \<and> (\<exists>j\<in>set (ai_jobs db). fenced a j \<and> (\<forall>c t batchSize. command_of_attempt a c \<and> j_documentId j = rc_documentId c
          \<and> j_ownerId j = rc_ownerId c \<and> 0 < batchSize
          \<and> list_all chunk_row_ok (map (chunk_row_of (rc_documentId c) (rc_ownerId c)) (rc_chunks c))
          \<and> chunk_keys (filter (\<lambda>r. \<not> of_document (rc_documentId c) (rc_ownerId c) r) t
              @ map (chunk_row_of (rc_documentId c) (rc_ownerId c)) (rc_chunks c)) \<longrightarrow>
        replaceForDocument batchSize now c db t = Some (Inr True, filter (\<lambda>r. \<not> of_document (rc_documentId c) (rc_ownerId c) r) t
              @ map (chunk_row_of (rc_documentId c) (rc_ownerId c)) (rc_chunks c)))))"
proof (intro conjI impI)
  assume stale: "\<not> live a now db"
  then show "complete a now db = (False, db)" "fail a code now db = (False, db)" "retryTechnical a reason now db = (Inr False, db)"
    "record_budget a estimated settled status now db = (False, db)"
    "ensureDefaultPlatformModel a ownerId modelId now db = (False, db)"
    by (simp_all add: complete_def fail_def stale_finalize stale_retry stale_record stale_ensure)
  show "\<forall>c t batchSize. command_of_attempt a c \<longrightarrow> replaceForDocument batchSize now c db t = Some (Inr False, t)"
    using stale_replace [OF stale] by blast
next
  assume l: "queue_ok db \<and> live a now db"
  then show "fst (complete a now db)" "fst (fail a code now db)" "fst (record_budget a estimated settled status now db)"
    by (simp_all add: complete_def fail_def live_finalize live_record)
  from l obtain j where j: "j \<in> set (ai_jobs db)" "fenced a j" "lease_live now j" by (auto simp: live_def)
  show "\<exists>j\<in>set (ai_jobs db). fenced a j \<and> (\<forall>c t batchSize. command_of_attempt a c \<and> j_documentId j = rc_documentId c
          \<and> j_ownerId j = rc_ownerId c \<and> 0 < batchSize
          \<and> list_all chunk_row_ok (map (chunk_row_of (rc_documentId c) (rc_ownerId c)) (rc_chunks c))
          \<and> chunk_keys (filter (\<lambda>r. \<not> of_document (rc_documentId c) (rc_ownerId c) r) t
              @ map (chunk_row_of (rc_documentId c) (rc_ownerId c)) (rc_chunks c)) \<longrightarrow>
        replaceForDocument batchSize now c db t = Some (Inr True, filter (\<lambda>r. \<not> of_document (rc_documentId c) (rc_ownerId c) r) t
              @ map (chunk_row_of (rc_documentId c) (rc_ownerId c)) (rc_chunks c)))"
  proof (intro bexI [OF _ j(1)] conjI [OF j(2)] allI impI, elim conjE)
    fix c t and batchSize :: nat
    assume c: "command_of_attempt a c" "j_documentId j = rc_documentId c" "j_ownerId j = rc_ownerId c" and b: "0 < batchSize"
      "list_all chunk_row_ok (map (chunk_row_of (rc_documentId c) (rc_ownerId c)) (rc_chunks c))"
      "chunk_keys (filter (\<lambda>r. \<not> of_document (rc_documentId c) (rc_ownerId c) r) t
              @ map (chunk_row_of (rc_documentId c) (rc_ownerId c)) (rc_chunks c))"
    from live_replace [OF conjunct1 [OF l] c(1) j c(2,3)] insert_batches_all [OF b]
    show "replaceForDocument batchSize now c db t = Some (Inr True, filter (\<lambda>r. \<not> of_document (rc_documentId c) (rc_ownerId c) r) t
              @ map (chunk_row_of (rc_documentId c) (rc_ownerId c)) (rc_chunks c))"
      by (simp add: replaceForDocument_def)
  qed
qed

lemma stale_fence_rejected_witness:
  "complete \<lparr>ja_attempts = 1, ja_id = ''j'', ja_leaseId = ''other''\<rparr> 2 one_running = (False, one_running) \<and>
   replaceForDocument 1 2 (sample_replace\<lparr>rc_leaseId := ''other''\<rparr>) one_running sample_chunk_table = Some (Inr False, sample_chunk_table)"
proof -
  let ?a = "\<lparr>ja_attempts = 1, ja_id = ''j'', ja_leaseId = ''other''\<rparr>"
  have "\<not> live ?a 2 one_running" unfolding live_def by code_simp
  from mp [OF conjunct1 [OF stale_fence_rejected] this]
  have r: "complete ?a 2 one_running = (False, one_running)"
    "\<forall>c t batchSize. command_of_attempt ?a c \<longrightarrow> replaceForDocument batchSize 2 c one_running t = Some (Inr False, t)" by blast+
  have "command_of_attempt ?a (sample_replace\<lparr>rc_leaseId := ''other''\<rparr>)" by (simp add: command_of_attempt_def sample_replace_def)
  with r show ?thesis by blast
qed

end
