(* ===== verification/GenerationOutput.thy ===== *)
theory GenerationOutput imports QuizDomain ProcessingJobs "HOL-Library.Sublist" begin

text \<open>
  What the model answers: the decoder \<open>ai/quiz-generation-output.decoder.ts\<close>, the check against
  copied source text \<open>ai/quiz-generation-output.source-validation.ts\<close>, and the fingerprints of
  \<open>ai/quiz-generation.prompt.ts\<close>.
\<close>

section \<open>Decoder\<close>

record generated_question =
  gn_explanation :: string
  gn_options :: "option_candidate list"
  gn_stem :: string

definition readObject_json :: "json \<Rightarrow> failure_code + (string \<times> json) list" where
  "readObject_json v = (case v of JObj kvs \<Rightarrow> Inr kvs | _ \<Rightarrow> Inl GENERATION_OUTPUT_INVALID)"

definition readString :: "json option \<Rightarrow> failure_code + string" where
  "readString v = (case v of Some (JStr s) \<Rightarrow> Inr s | _ \<Rightarrow> Inl GENERATION_OUTPUT_INVALID)"

definition readBoolean :: "json option \<Rightarrow> failure_code + bool" where
  "readBoolean v = (case v of Some (JBool b) \<Rightarrow> Inr b | _ \<Rightarrow> Inl GENERATION_OUTPUT_INVALID)"

definition readArray :: "json option \<Rightarrow> failure_code + json list" where
  "readArray v = (case v of Some (JArr xs) \<Rightarrow> Inr xs | _ \<Rightarrow> Inl GENERATION_OUTPUT_INVALID)"

definition requireExactKeys :: "(string \<times> json) list \<Rightarrow> string list \<Rightarrow> failure_code + unit" where
  "requireExactKeys kvs expectedKeys =
     (if length (obj_keys kvs) \<noteq> length expectedKeys \<or> \<not> list_all (\<lambda>k. obj_get kvs k \<noteq> None) expectedKeys
      then Inl GENERATION_OUTPUT_INVALID else Inr ())"

definition decodeOption :: "json \<Rightarrow> failure_code + option_candidate" where
  "decodeOption v =
     and_then (readObject_json v) (\<lambda>kvs.
     and_then (requireExactKeys kvs [''content'', ''isCorrect'']) (\<lambda>_.
     and_then (readString (obj_get kvs ''content'')) (\<lambda>c.
     and_then (readBoolean (obj_get kvs ''isCorrect'')) (\<lambda>b. Inr \<lparr>oc_content = c, oc_isCorrect = b\<rparr>))))"

definition decodeQuestion :: "json \<Rightarrow> failure_code + generated_question" where
  "decodeQuestion v =
     and_then (readObject_json v) (\<lambda>kvs.
     and_then (requireExactKeys kvs [''explanation'', ''options'', ''stem'']) (\<lambda>_.
     and_then (readArray (obj_get kvs ''options'')) (\<lambda>os.
     and_then (readString (obj_get kvs ''explanation'')) (\<lambda>e.
     and_then (map_result decodeOption os) (\<lambda>options.
     and_then (readString (obj_get kvs ''stem'')) (\<lambda>s.
       Inr \<lparr>gn_explanation = e, gn_options = options, gn_stem = s\<rparr>))))))"

definition decodeGeneratedQuestionOutput :: "json \<Rightarrow> failure_code + generated_question list" where
  "decodeGeneratedQuestionOutput v =
     and_then (readObject_json v) (\<lambda>kvs.
     and_then (requireExactKeys kvs [''questions'']) (\<lambda>_.
     and_then (readArray (obj_get kvs ''questions'')) (map_result decodeQuestion)))"

section \<open>Words\<close>

text \<open>The letters and numbers among the 256 characters, \<open>\\p{L}\<close> and \<open>\\p{N}\<close>.\<close>

definition is_letter :: "char \<Rightarrow> bool" where
  "is_letter c \<longleftrightarrow>
     (let n = of_char c :: nat
      in 65 \<le> n \<and> n \<le> 90 \<or> 97 \<le> n \<and> n \<le> 122 \<or> n = 170 \<or> n = 181 \<or> n = 186 \<or> 192 \<le> n \<and> n \<noteq> 215 \<and> n \<noteq> 247)"

definition is_number :: "char \<Rightarrow> bool" where
  "is_number c \<longleftrightarrow>
     (let n = of_char c :: nat
      in 48 \<le> n \<and> n \<le> 57 \<or> n = 178 \<or> n = 179 \<or> n = 185 \<or> 188 \<le> n \<and> n \<le> 190)"

definition is_ascii_letter :: "char \<Rightarrow> bool" where
  "is_ascii_letter c \<longleftrightarrow> (let n = of_char c :: nat in 65 \<le> n \<and> n \<le> 90 \<or> 97 \<le> n \<and> n \<le> 122)"

definition is_ascii_digit :: "char \<Rightarrow> bool" where
  "is_ascii_digit c \<longleftrightarrow> (let n = of_char c :: nat in 48 \<le> n \<and> n \<le> 57)"

definition word_char :: "char \<Rightarrow> bool" where
  "word_char c \<longleftrightarrow> is_letter c \<or> is_number c \<or> c = CHR ''_'' \<or> c = CHR ''-''"

text \<open>Texts of these characters are in NFC already; only line ends change.\<close>

fun normalizeGenerationInput :: "string \<Rightarrow> string" where
  "normalizeGenerationInput [] = []"
| "normalizeGenerationInput (c # cs) =
     (if c = CHR 0x0D
      then CHR 0x0A # (case cs of d # ds \<Rightarrow> if d = CHR 0x0A then normalizeGenerationInput ds else normalizeGenerationInput cs
                                | [] \<Rightarrow> normalizeGenerationInput cs)
      else c # normalizeGenerationInput cs)"

record indexed_token =
  tk_value :: string
  tk_isEnglishLike :: bool

definition english_like :: "string \<Rightarrow> bool" where
  "english_like s \<longleftrightarrow>
     (case s of [] \<Rightarrow> False
      | c # cs \<Rightarrow> is_ascii_letter c \<and> list_all (\<lambda>d. is_ascii_letter d \<or> is_ascii_digit d \<or> d = CHR ''_'' \<or> d = CHR ''-'') cs)"

definition token_of :: "string \<Rightarrow> indexed_token" where
  "token_of v = \<lparr>tk_value = v, tk_isEnglishLike = english_like v\<rparr>"

function match_words :: "string \<Rightarrow> string list" where
  "match_words [] = []"
| "match_words (c # cs) =
     (if is_letter c then (c # takeWhile word_char cs) # match_words (dropWhile word_char cs) else match_words cs)"
  by pat_completeness auto
termination by (relation "measure length") (auto simp: length_dropWhile_le less_Suc_eq_le)

definition tokenizeWords :: "string \<Rightarrow> indexed_token list" where
  "tokenizeWords t = map token_of (match_words (normalizeGenerationInput t))"

section \<open>Copied sequences\<close>

fun shortest_from :: "nat \<Rightarrow> nat \<Rightarrow> indexed_token list \<Rightarrow> nat option" where
  "shortest_from offset characterCount [] = None"
| "shortest_from offset characterCount (t # ts) =
     (if 30 \<le> offset then None
      else if \<not> tk_isEnglishLike t then None
      else let n = characterCount + length (tk_value t)
           in if 6 \<le> offset + 1 \<and> 30 \<le> n then Some (offset + 1) else shortest_from (offset + 1) n ts)"

definition findShortestQualifyingLength :: "indexed_token list \<Rightarrow> nat \<Rightarrow> nat option" where
  "findShortestQualifyingLength tokens start = shortest_from 0 0 (drop start tokens)"

definition buildSequenceKey :: "indexed_token list \<Rightarrow> nat \<Rightarrow> nat \<Rightarrow> string" where
  "buildSequenceKey tokens start n = join_with [CHR 0x01] (map tk_value (take n (drop start tokens)))"

definition window_keys :: "indexed_token list \<Rightarrow> string list" where
  "window_keys tokens =
     List.map_filter (\<lambda>start. map_option (buildSequenceKey tokens start) (findShortestQualifyingLength tokens start))
       [0..<length tokens + 1 - 6]"

definition createShortestQualifyingWindowSet :: "indexed_token list \<Rightarrow> string set" where
  "createShortestQualifyingWindowSet tokens = set (window_keys tokens)"

definition rejectIfCopiedEnglishSequence :: "string set \<Rightarrow> string \<Rightarrow> failure_code + unit" where
  "rejectIfCopiedEnglishSequence sourceWindows generatedText =
     (let generatedTokens = tokenizeWords generatedText
      in if length generatedTokens < 6 then Inr ()
         else if list_ex (\<lambda>k. k \<in> sourceWindows) (window_keys generatedTokens) then Inl GENERATION_OUTPUT_INVALID
         else Inr ())"

definition question_texts :: "generated_question \<Rightarrow> string list" where
  "question_texts q = gn_stem q # gn_explanation q # map oc_content (gn_options q)"

definition validateGeneratedQuestionOutputAgainstSource :: "string \<Rightarrow> generated_question list \<Rightarrow> failure_code + unit" where
  "validateGeneratedQuestionOutputAgainstSource sourceText output =
     (let sourceTokens = tokenizeWords sourceText
      in if length sourceTokens < 6 then Inr ()
         else let sourceWindows = createShortestQualifyingWindowSet sourceTokens
              in and_then (map_result (rejectIfCopiedEnglishSequence sourceWindows) (concat (map question_texts output))) (\<lambda>_. Inr ()))"

section \<open>Prompt\<close>

record generation_parameters =
  gp_format :: string
  gp_maxOutputTokens :: int
  gp_questionsPerChunk :: int

definition QUIZ_GENERATION_PARAMETERS :: generation_parameters where
  "QUIZ_GENERATION_PARAMETERS = \<lparr>gp_format = ''mcq-single-select-v1'', gp_maxOutputTokens = 8000, gp_questionsPerChunk = 1\<rparr>"

definition parameters_json :: "generation_parameters \<Rightarrow> json" where
  "parameters_json p =
     JObj [(''format'', JStr (gp_format p)), (''maxOutputTokens'', JNum (JFin (of_int (gp_maxOutputTokens p)))),
           (''questionsPerChunk'', JNum (JFin (of_int (gp_questionsPerChunk p))))]"

text \<open>
  The default order of \<open>sort\<close> on keys, by code units.  \<open>JSON.stringify\<close> of a primitive is a
  parameter.
\<close>

fun code_unit_order :: "string \<Rightarrow> string \<Rightarrow> int" where
  "code_unit_order [] [] = 0"
| "code_unit_order [] (d # ds) = - 1"
| "code_unit_order (c # cs) [] = 1"
| "code_unit_order (c # cs) (d # ds) =
     (if c = d then code_unit_order cs ds else int (of_char c) - int (of_char d))"

fun canonicalizeJson :: "(json \<Rightarrow> string) \<Rightarrow> json \<Rightarrow> string" where
  "canonicalizeJson stringify (JArr xs) = CHR ''['' # join_with '','' (map (canonicalizeJson stringify) xs) @ '']''"
| "canonicalizeJson stringify (JObj kvs) =
     CHR ''{'' # join_with '','' (map snd (js_sort (\<lambda>a b. code_unit_order (fst a) (fst b))
        (map (\<lambda>(k, v). (k, stringify (JStr k) @ CHR '':'' # canonicalizeJson stringify v)) kvs))) @ ''}''"
| "canonicalizeJson stringify v = stringify v"

definition createPromptFingerprint :: "digest \<Rightarrow> (json \<Rightarrow> string) \<Rightarrow> json \<Rightarrow> string \<Rightarrow> string \<Rightarrow> string" where
  "createPromptFingerprint dg stringify params providerIdentity template =
     sha256 dg (join_with [CHR 0x0A] [''prompt-template'', template, ''provider-identity'', providerIdentity,
       ''parameters'', canonicalizeJson stringify params])"

definition createGenerationCacheKey :: "digest \<Rightarrow> (json \<Rightarrow> string) \<Rightarrow> json \<Rightarrow> string \<Rightarrow> string \<Rightarrow> string \<Rightarrow> string" where
  "createGenerationCacheKey dg stringify params providerIdentity sourceText template =
     sha256 dg (join_with [CHR 0x0A] [''source-text'', normalizeGenerationInput sourceText, ''prompt-template'', template,
       ''provider-identity'', providerIdentity, ''parameters'', canonicalizeJson stringify params])"

section \<open>What the decoder accepts\<close>

text \<open>Objects with exactly these entries, in any order.\<close>

definition option_shape :: "json \<Rightarrow> option_candidate \<Rightarrow> bool" where
  "option_shape v p \<longleftrightarrow>
     (\<exists>kvs. v = JObj kvs \<and> set kvs = {(''content'', JStr (oc_content p)), (''isCorrect'', JBool (oc_isCorrect p))})"

definition question_shape :: "json \<Rightarrow> generated_question \<Rightarrow> bool" where
  "question_shape v q \<longleftrightarrow>
     (\<exists>kvs os. v = JObj kvs \<and> list_all2 option_shape os (gn_options q)
        \<and> set kvs = {(''explanation'', JStr (gn_explanation q)), (''options'', JArr os), (''stem'', JStr (gn_stem q))})"

definition output_shape :: "json \<Rightarrow> generated_question list \<Rightarrow> bool" where
  "output_shape v qs \<longleftrightarrow> (\<exists>xs. v = JObj [(''questions'', JArr xs)] \<and> list_all2 question_shape xs qs)"

lemma obj_get_iff: "distinct (map fst kvs) \<Longrightarrow> obj_get kvs k = Some v \<longleftrightarrow> (k, v) \<in> set kvs"
  by (simp add: obj_get_def)

lemma exact_keys:
  assumes "distinct (map fst kvs)" and "distinct ks"
  shows "requireExactKeys kvs ks = Inr () \<longleftrightarrow> fst ` set kvs = set ks"
proof -
  have c: "card (fst ` set kvs) = length kvs" using assms(1) by (simp add: distinct_card flip: set_map)
  have k: "card (set ks) = length ks" using assms(2) by (rule distinct_card)
  have get: "obj_get kvs x \<noteq> None \<longleftrightarrow> x \<in> fst ` set kvs" for x
    by (simp add: obj_get_def map_of_eq_None_iff)
  have "requireExactKeys kvs ks = Inr () \<longleftrightarrow> length kvs = length ks \<and> set ks \<subseteq> fst ` set kvs"
    using get by (auto simp: requireExactKeys_def obj_keys_def list_all_iff)
  also have "\<dots> \<longleftrightarrow> fst ` set kvs = set ks"
  proof
    assume a: "length kvs = length ks \<and> set ks \<subseteq> fst ` set kvs"
    then have "set ks = fst ` set kvs" using c k by (intro card_subset_eq) simp_all
    then show "fst ` set kvs = set ks" by simp
  next
    assume "fst ` set kvs = set ks"
    with c k show "length kvs = length ks \<and> set ks \<subseteq> fst ` set kvs" by simp
  qed
  finally show ?thesis .
qed

lemma readers_Inr:
  "readObject_json v = Inr kvs \<longleftrightarrow> v = JObj kvs" "readString x = Inr s \<longleftrightarrow> x = Some (JStr s)"
  "readBoolean x = Inr b \<longleftrightarrow> x = Some (JBool b)" "readArray x = Inr xs \<longleftrightarrow> x = Some (JArr xs)"
  by (auto simp: readObject_json_def readString_def readBoolean_def readArray_def split: json.splits option.splits)

lemma entries_by_key:
  assumes "distinct (map fst kvs)"
  shows "fst ` set kvs = fst ` set es \<and> (\<forall>e\<in>set es. e \<in> set kvs) \<longleftrightarrow> set kvs = set es"
proof
  assume a: "fst ` set kvs = fst ` set es \<and> (\<forall>e\<in>set es. e \<in> set kvs)"
  have "e \<in> set es" if e: "e \<in> set kvs" for e
  proof -
    from e a have "fst e \<in> fst ` set es" by blast
    then obtain x where x: "x \<in> set es" "fst e = fst x" by blast
    with a have "x \<in> set kvs" by blast
    moreover have "inj_on fst (set kvs)" using assms by (simp add: distinct_map)
    ultimately have "e = x" using e x(2) by (simp add: inj_on_def)
    with x(1) show ?thesis by simp
  qed
  with a show "set kvs = set es" by auto
qed auto

lemma decodeOption_iff:
  assumes "json_wf v"
  shows "decodeOption v = Inr p \<longleftrightarrow> option_shape v p"
proof (cases "\<exists>kvs. v = JObj kvs")
  case True
  then obtain kvs where v: "v = JObj kvs" by blast
  with assms have d: "distinct (map fst kvs)" by simp
  have "decodeOption v = Inr p \<longleftrightarrow> fst ` set kvs = set [''content'', ''isCorrect'']
      \<and> (''content'', JStr (oc_content p)) \<in> set kvs \<and> (''isCorrect'', JBool (oc_isCorrect p)) \<in> set kvs"
    by (cases p) (auto simp: decodeOption_def v and_then_eq_Inr readers_Inr exact_keys [OF d] obj_get_iff [OF d])
  then show ?thesis
    using entries_by_key [OF d, of "[(''content'', JStr (oc_content p)), (''isCorrect'', JBool (oc_isCorrect p))]"]
    by (simp add: option_shape_def v)
next
  case False
  then show ?thesis by (auto simp: decodeOption_def and_then_eq_Inr readers_Inr option_shape_def)
qed

lemma map_result_shape:
  assumes "list_all json_wf xs" and "\<And>v y. json_wf v \<Longrightarrow> f v = Inr y \<longleftrightarrow> shape v y"
  shows "map_result f xs = Inr ys \<longleftrightarrow> list_all2 shape xs ys"
proof -
  have "list_all2 (\<lambda>x y. f x = Inr y) xs ys \<longleftrightarrow> list_all2 shape xs ys"
    using assms by (auto simp: list_all2_conv_all_nth list_all_length)
  then show ?thesis by (simp add: map_result_Inr)
qed

lemma decodeQuestion_iff:
  assumes "json_wf v"
  shows "decodeQuestion v = Inr q \<longleftrightarrow> question_shape v q"
proof (cases "\<exists>kvs. v = JObj kvs")
  case True
  then obtain kvs where v: "v = JObj kvs" by blast
  with assms have d: "distinct (map fst kvs)" and wf: "\<forall>(k, x)\<in>set kvs. json_wf x" by (auto simp: list_all_iff)
  have os: "map_result decodeOption os = Inr ps \<longleftrightarrow> list_all2 option_shape os ps" if "(''options'', JArr os) \<in> set kvs" for os ps
    using wf that by (intro map_result_shape decodeOption_iff) (auto simp: list_all_iff)
  have "decodeQuestion v = Inr q \<longleftrightarrow> fst ` set kvs = set [''explanation'', ''options'', ''stem'']
      \<and> (\<exists>os. (''options'', JArr os) \<in> set kvs \<and> map_result decodeOption os = Inr (gn_options q)
          \<and> (''explanation'', JStr (gn_explanation q)) \<in> set kvs \<and> (''stem'', JStr (gn_stem q)) \<in> set kvs)"
    by (cases q) (auto simp: decodeQuestion_def v and_then_eq_Inr readers_Inr exact_keys [OF d] obj_get_iff [OF d])
  also have "\<dots> \<longleftrightarrow> (\<exists>os. list_all2 option_shape os (gn_options q)
      \<and> set kvs = set [(''explanation'', JStr (gn_explanation q)), (''options'', JArr os), (''stem'', JStr (gn_stem q))])"
    unfolding entries_by_key [OF d, symmetric] using os by auto
  finally show ?thesis by (simp add: question_shape_def v)
next
  case False
  then show ?thesis by (auto simp: decodeQuestion_def and_then_eq_Inr readers_Inr question_shape_def)
qed

lemma invalid_only:
  "readObject_json v = Inl e \<Longrightarrow> e = GENERATION_OUTPUT_INVALID" "readString x = Inl e \<Longrightarrow> e = GENERATION_OUTPUT_INVALID"
  "readBoolean x = Inl e \<Longrightarrow> e = GENERATION_OUTPUT_INVALID" "readArray x = Inl e \<Longrightarrow> e = GENERATION_OUTPUT_INVALID"
  "requireExactKeys kvs ks = Inl e \<Longrightarrow> e = GENERATION_OUTPUT_INVALID"
  by (auto simp: readObject_json_def readString_def readBoolean_def readArray_def requireExactKeys_def
      split: json.splits option.splits if_splits)

lemma map_result_Inl: "map_result f xs = Inl e \<Longrightarrow> \<exists>x\<in>set xs. f x = Inl e"
  by (induction xs) (auto split: sum.splits)

lemma decode_invalid:
  "decodeOption v = Inl e \<Longrightarrow> e = GENERATION_OUTPUT_INVALID" "decodeQuestion v = Inl e \<Longrightarrow> e = GENERATION_OUTPUT_INVALID"
  "decodeGeneratedQuestionOutput v = Inl e \<Longrightarrow> e = GENERATION_OUTPUT_INVALID"
proof -
  show o: "decodeOption v = Inl e \<Longrightarrow> e = GENERATION_OUTPUT_INVALID" for v
    by (auto simp: decodeOption_def and_then_eq_Inl dest: invalid_only)
  show q: "decodeQuestion v = Inl e \<Longrightarrow> e = GENERATION_OUTPUT_INVALID" for v
    by (auto simp: decodeQuestion_def and_then_eq_Inl dest: invalid_only o dest!: map_result_Inl)
  show "decodeGeneratedQuestionOutput v = Inl e \<Longrightarrow> e = GENERATION_OUTPUT_INVALID"
    by (auto simp: decodeGeneratedQuestionOutput_def and_then_eq_Inl dest: invalid_only q dest!: map_result_Inl)
qed

lemma single_entry: "distinct (map fst kvs) \<Longrightarrow> set kvs = {e} \<longleftrightarrow> kvs = [e]"
  by (cases kvs; cases "tl kvs") (auto simp: image_iff)

text \<open>C36 The decoder accepts exactly the declared type: a value decodes to a list of questions if and only
  if it is an object with the one key questions, an array of objects with exactly explanation, options
  and stem, each option an object with exactly content and isCorrect of the right primitive types; the
  result carries those very values, and everything else is the invalid-output failure.\<close>

theorem decoder_exact:
  assumes "json_wf v"
  shows "(decodeGeneratedQuestionOutput v = Inr qs \<longleftrightarrow> output_shape v qs)
    \<and> (\<forall>e. decodeGeneratedQuestionOutput v = Inl e \<longrightarrow> e = GENERATION_OUTPUT_INVALID)"
proof (cases "\<exists>kvs. v = JObj kvs")
  case True
  then obtain kvs where v: "v = JObj kvs" by blast
  with assms have d: "distinct (map fst kvs)" and wf: "\<forall>(k, x)\<in>set kvs. json_wf x" by (auto simp: list_all_iff)
  have xs: "map_result decodeQuestion xs = Inr qs \<longleftrightarrow> list_all2 question_shape xs qs" if "(''questions'', JArr xs) \<in> set kvs" for xs
    using wf that by (intro map_result_shape decodeQuestion_iff) (auto simp: list_all_iff)
  have "decodeGeneratedQuestionOutput v = Inr qs \<longleftrightarrow> fst ` set kvs = set [''questions'']
      \<and> (\<exists>xs. (''questions'', JArr xs) \<in> set kvs \<and> map_result decodeQuestion xs = Inr qs)"
    by (auto simp: decodeGeneratedQuestionOutput_def v and_then_eq_Inr readers_Inr exact_keys [OF d] obj_get_iff [OF d])
  also have "\<dots> \<longleftrightarrow> (\<exists>xs. list_all2 question_shape xs qs \<and> set kvs = set [(''questions'', JArr xs)])"
    unfolding entries_by_key [OF d, symmetric] using xs by auto
  also have "\<dots> \<longleftrightarrow> output_shape v qs" by (auto simp: output_shape_def v single_entry [OF d])
  finally show ?thesis using decode_invalid(3) by blast
next
  case False
  then show ?thesis
    using decode_invalid(3) by (auto simp: decodeGeneratedQuestionOutput_def and_then_eq_Inr readers_Inr output_shape_def)
qed

definition sample_output :: json where
  "sample_output = JObj [(''questions'', JArr [JObj [(''stem'', JStr ''s''), (''explanation'', JStr ''e''),
     (''options'', JArr [JObj [(''content'', JStr ''a''), (''isCorrect'', JBool True)]])]])]"

lemma decoder_exact_witness:
  "output_shape sample_output [\<lparr>gn_explanation = ''e'', gn_options = [\<lparr>oc_content = ''a'', oc_isCorrect = True\<rparr>], gn_stem = ''s''\<rparr>]"
proof -
  have "json_wf sample_output" by (simp add: sample_output_def)
  note exact = decoder_exact [OF this]
  have "decodeGeneratedQuestionOutput sample_output
      = Inr [\<lparr>gn_explanation = ''e'', gn_options = [\<lparr>oc_content = ''a'', oc_isCorrect = True\<rparr>], gn_stem = ''s''\<rparr>]"
    by (simp add: sample_output_def decodeGeneratedQuestionOutput_def decodeQuestion_def decodeOption_def readObject_json_def
        requireExactKeys_def readArray_def readString_def readBoolean_def obj_keys_def obj_get_def)
  with exact show ?thesis by blast
qed

section \<open>Exactly the copied sequences are rejected\<close>

text \<open>At least six consecutive English-like words of together at least 30 characters in both texts.\<close>

definition english_run :: "indexed_token list \<Rightarrow> bool" where
  "english_run w \<longleftrightarrow> 6 \<le> length w \<and> 30 \<le> sum_list (map (\<lambda>t. length (tk_value t)) w) \<and> list_all tk_isEnglishLike w"

definition copied :: "string \<Rightarrow> string \<Rightarrow> bool" where
  "copied sourceText generatedText \<longleftrightarrow>
     (\<exists>w. english_run w \<and> sublist w (tokenizeWords sourceText) \<and> sublist w (tokenizeWords generatedText))"

lemma match_words_chars: "w \<in> set (match_words t) \<Longrightarrow> w \<noteq> [] \<and> (\<forall>c\<in>set w. word_char c)"
proof (induction t rule: match_words.induct)
  case (2 c cs)
  show ?case
  proof (cases "is_letter c \<and> w = c # takeWhile word_char cs")
    case True
    then show ?thesis by (auto simp: word_char_def dest: set_takeWhileD)
  next
    case False
    with 2 show ?thesis by (auto split: if_splits)
  qed
qed simp

lemma not_word_char: "\<not> word_char (CHR 0x01)"
  by (simp add: word_char_def is_letter_def is_number_def)

text \<open>Tokens of some text.\<close>

definition plain_tokens :: "indexed_token list \<Rightarrow> bool" where
  "plain_tokens ts \<longleftrightarrow> (\<forall>t\<in>set ts. t = token_of (tk_value t) \<and> tk_value t \<noteq> [] \<and> CHR 0x01 \<notin> set (tk_value t))"

lemma tokenize_plain: "plain_tokens (tokenizeWords t)"
  using match_words_chars not_word_char by (fastforce simp: plain_tokens_def tokenizeWords_def token_of_def)

lemma plain_sub: "plain_tokens ts \<Longrightarrow> plain_tokens (take n (drop i ts))"
  by (auto simp: plain_tokens_def dest: in_set_takeD in_set_dropD)

lemma join_with_inj:
  assumes "\<forall>x\<in>set xs. c \<notin> set x" and "\<forall>y\<in>set ys. c \<notin> set y" and "xs \<noteq> []" and "ys \<noteq> []"
    and "join_with [c] xs = join_with [c] ys"
  shows "xs = ys"
  using assms
proof (induction xs arbitrary: ys)
  case (Cons x xs)
  then obtain y ys' where ys: "ys = y # ys'" by (cases ys) auto
  have nx: "c \<notin> set x" and ny: "c \<notin> set y" using Cons.prems(1,2) ys by auto
  have mid: "u @ c # r = v @ c # s \<longleftrightarrow> u = v \<and> r = s" if "c \<notin> set u" "c \<notin> set v" for u v r s :: string
    using that
  proof (induction u arbitrary: v)
    case Nil
    then show ?case by (cases v) auto
  next
    case (Cons a u)
    then show ?case by (cases v) auto
  qed
  show ?case
  proof (cases xs)
    case Nil
    show ?thesis
    proof (cases ys')
      case Nil
      with \<open>xs = []\<close> Cons.prems(5) ys show ?thesis by simp
    next
      case (Cons z zs)
      with \<open>xs = []\<close> Cons.prems(5) ys have "x = y @ c # join_with [c] ys'" by simp
      with nx show ?thesis by auto
    qed
  next
    case x': (Cons x' xs')
    show ?thesis
    proof (cases ys')
      case Nil
      with x' Cons.prems(5) ys have "y = x @ c # join_with [c] xs" by simp
      with ny show ?thesis by auto
    next
      case y': (Cons z zs)
      with x' Cons.prems(5) ys have "x @ c # join_with [c] xs = y @ c # join_with [c] ys'" by simp
      then have "x = y" "join_with [c] xs = join_with [c] ys'" using mid [OF nx ny] by simp_all
      with Cons.IH [of ys'] Cons.prems ys x' y' show ?thesis by simp
    qed
  qed
qed simp

lemma key_tokens:
  assumes "plain_tokens a" and "plain_tokens b" and "a \<noteq> []" and "b \<noteq> []"
    and "join_with [CHR 0x01] (map tk_value a) = join_with [CHR 0x01] (map tk_value b)"
  shows "a = b"
proof -
  have "map tk_value a = map tk_value b"
    using assms by (intro join_with_inj [of _ "CHR 0x01"]) (auto simp: plain_tokens_def)
  then have "map token_of (map tk_value a) = map token_of (map tk_value b)" by (rule arg_cong)
  moreover have "map token_of (map tk_value x) = x" if "plain_tokens x" for x
    using that by (auto simp: plain_tokens_def intro: map_idI)
  ultimately show ?thesis using assms(1,2) by simp
qed

lemma shortest_from_Some:
  "shortest_from offset n ts = Some m \<Longrightarrow>
     offset < m \<and> m - offset \<le> length ts \<and> 6 \<le> m \<and> list_all tk_isEnglishLike (take (m - offset) ts)
     \<and> 30 \<le> n + sum_list (map (\<lambda>t. length (tk_value t)) (take (m - offset) ts))"
proof (induction ts arbitrary: offset n)
  case (Cons t ts)
  show ?case
  proof (cases "6 \<le> offset + 1 \<and> 30 \<le> n + length (tk_value t)")
    case True
    with Cons.prems show ?thesis by (auto simp: Let_def split: if_splits)
  next
    case False
    with Cons.prems have "shortest_from (offset + 1) (n + length (tk_value t)) ts = Some m" "tk_isEnglishLike t"
      by (auto simp: Let_def split: if_splits)
    from Cons.IH [OF this(1)] this(2) have ih: "offset + 1 < m" "m - (offset + 1) \<le> length ts" "6 \<le> m"
      "list_all tk_isEnglishLike (take (m - (offset + 1)) ts)"
      "30 \<le> n + length (tk_value t) + sum_list (map (\<lambda>t. length (tk_value t)) (take (m - (offset + 1)) ts))" by simp_all
    then have "m - offset = Suc (m - (offset + 1))" by simp
    with ih \<open>tk_isEnglishLike t\<close> show ?thesis by simp
  qed
qed simp

text \<open>Thirty words always reach thirty characters, so the bound on the search never cuts it.\<close>

lemma shortest_from_run:
  assumes "list_all tk_isEnglishLike w" and "\<forall>t\<in>set w. tk_value t \<noteq> []"
    and "6 \<le> offset + length w" and "30 \<le> n + sum_list (map (\<lambda>t. length (tk_value t)) w)"
    and "offset \<le> n" and "offset < 6 \<or> n < 30"
  shows "\<exists>m \<le> offset + length w. \<forall>rest. shortest_from offset n (w @ rest) = Some m"
  using assms
proof (induction w arbitrary: offset n)
  case (Cons t w)
  have "\<not> 30 \<le> offset" using Cons.prems(5,6) by auto
  have pos: "0 < length (tk_value t)" using Cons.prems(2) by simp
  show ?case
  proof (cases "6 \<le> offset + 1 \<and> 30 \<le> n + length (tk_value t)")
    case True
    with \<open>\<not> 30 \<le> offset\<close> Cons.prems(1) show ?thesis by (intro exI [of _ "offset + 1"]) (simp add: Let_def)
  next
    case False
    have "\<exists>m \<le> offset + 1 + length w. \<forall>rest. shortest_from (offset + 1) (n + length (tk_value t)) (w @ rest) = Some m"
    proof (rule Cons.IH)
      show "offset + 1 \<le> n + length (tk_value t)" using Cons.prems(5) pos by linarith
    qed (use Cons.prems False in auto)
    with False \<open>\<not> 30 \<le> offset\<close> Cons.prems(1) show ?thesis by (auto simp: Let_def)
  qed
qed auto

lemma sublist_take_drop: "sublist (take n (drop i xs)) xs"
  by (metis append_take_drop_id sublist_appendI)

lemma in_window_keys:
  "k \<in> set (window_keys ts) \<longleftrightarrow>
     (\<exists>i n. i + 6 \<le> length ts \<and> findShortestQualifyingLength ts i = Some n \<and> k = buildSequenceKey ts i n)"
proof -
  let ?f = "\<lambda>start. map_option (buildSequenceKey ts start) (findShortestQualifyingLength ts start)"
  have mf: "k \<in> set (List.map_filter f xs) \<longleftrightarrow> (\<exists>x\<in>set xs. f x = Some k)" for f :: "nat \<Rightarrow> string option" and xs
    by (induction xs) (auto simp: List.map_filter_simps split: option.split)
  have "k \<in> set (window_keys ts) \<longleftrightarrow> (\<exists>i\<in>set [0..<length ts + 1 - 6]. ?f i = Some k)"
    unfolding window_keys_def mf ..
  also have "\<dots> \<longleftrightarrow> (\<exists>i. i + 6 \<le> length ts \<and> ?f i = Some k)" proof -
    have "i \<in> set [0..<length ts + 1 - 6] \<longleftrightarrow> i + 6 \<le> length ts" for i by auto
    then show ?thesis unfolding Bex_def by (simp only:)
  qed
  also have "\<dots> \<longleftrightarrow> (\<exists>i n. i + 6 \<le> length ts \<and> findShortestQualifyingLength ts i = Some n \<and> k = buildSequenceKey ts i n)"
    by auto
  finally show ?thesis .
qed

lemma run_key:
  assumes "english_run w" and "plain_tokens w"
  obtains n where "n \<le> length w" and "6 \<le> n"
    and "\<forall>x y. findShortestQualifyingLength (x @ w @ y) (length x) = Some n
        \<and> buildSequenceKey (x @ w @ y) (length x) n = join_with [CHR 0x01] (map tk_value (take n w))"
proof -
  have "\<exists>m \<le> 0 + length w. \<forall>rest. shortest_from 0 0 (w @ rest) = Some m"
    using assms by (intro shortest_from_run) (auto simp: english_run_def plain_tokens_def)
  then obtain m where m: "m \<le> length w" "\<forall>rest. shortest_from 0 0 (w @ rest) = Some m" by auto
  from m(2) [THEN spec, of "[]"] have "6 \<le> m" by (auto dest: shortest_from_Some)
  with m show ?thesis by (intro that [of m]) (auto simp: findShortestQualifyingLength_def buildSequenceKey_def)
qed

lemma common_key_iff:
  assumes "plain_tokens s" and "plain_tokens g"
  shows "(\<exists>k. k \<in> set (window_keys s) \<and> k \<in> set (window_keys g)) \<longleftrightarrow> (\<exists>w. english_run w \<and> sublist w s \<and> sublist w g)"
proof
  assume "\<exists>k. k \<in> set (window_keys s) \<and> k \<in> set (window_keys g)"
  then obtain i n j m where s: "findShortestQualifyingLength s i = Some n" and g: "findShortestQualifyingLength g j = Some m"
    and eq: "buildSequenceKey s i n = buildSequenceKey g j m" unfolding in_window_keys by auto
  let ?a = "take n (drop i s)" and ?b = "take m (drop j g)"
  from shortest_from_Some [OF s [unfolded findShortestQualifyingLength_def]] have a: "english_run ?a"
    by (simp add: english_run_def)
  from shortest_from_Some [OF g [unfolded findShortestQualifyingLength_def]] have b: "english_run ?b"
    by (simp add: english_run_def)
  have "?a \<noteq> []" "?b \<noteq> []" using a b by (auto simp: english_run_def)
  then have "?a = ?b"
    using eq plain_sub [OF assms(1)] plain_sub [OF assms(2)] by (intro key_tokens) (simp_all add: buildSequenceKey_def)
  with a sublist_take_drop [of n i s] sublist_take_drop [of m j g] show "\<exists>w. english_run w \<and> sublist w s \<and> sublist w g" by metis
next
  assume "\<exists>w. english_run w \<and> sublist w s \<and> sublist w g"
  then obtain w where w: "english_run w" "sublist w s" "sublist w g" by blast
  then obtain x y x' y' where s: "s = x @ w @ y" and g: "g = x' @ w @ y'" by (auto simp: sublist_def)
  have pw: "plain_tokens w" using assms(1) s by (auto simp: plain_tokens_def)
  from run_key [OF w(1) pw] obtain n where n: "n \<le> length w" "6 \<le> n"
    "\<forall>x y. findShortestQualifyingLength (x @ w @ y) (length x) = Some n
        \<and> buildSequenceKey (x @ w @ y) (length x) n = join_with [CHR 0x01] (map tk_value (take n w))" by blast
  let ?k = "join_with [CHR 0x01] (map tk_value (take n w))"
  have "?k \<in> set (window_keys (x @ w @ y))" for x y
    unfolding in_window_keys using n by (intro exI [of _ "length x"] exI [of _ n]) auto
  then show "\<exists>k. k \<in> set (window_keys s) \<and> k \<in> set (window_keys g)" unfolding s g by blast
qed

lemma window_keys_short: "length ts < 6 \<Longrightarrow> window_keys ts = []"
  by (simp add: window_keys_def List.map_filter_def)

lemma reject_iff:
  "rejectIfCopiedEnglishSequence W t = (if \<exists>k\<in>set (window_keys (tokenizeWords t)). k \<in> W then Inl GENERATION_OUTPUT_INVALID else Inr ())"
  by (auto simp: rejectIfCopiedEnglishSequence_def Let_def list_ex_iff window_keys_short)

lemma map_result_reject:
  assumes "\<And>t. f t = (if P t then Inl e else Inr ())"
  shows "and_then (map_result f ts) (\<lambda>_. Inr ()) = (if \<exists>t\<in>set ts. P t then Inl e else Inr ())"
  by (induction ts) (auto simp: assms split: sum.splits if_splits)

lemma copies_rejected:
  "validateGeneratedQuestionOutputAgainstSource sourceText output =
    (if \<exists>q\<in>set output. \<exists>t\<in>set (question_texts q). copied sourceText t then Inl GENERATION_OUTPUT_INVALID else Inr ())"
proof -
  have c: "(\<exists>k\<in>set (window_keys (tokenizeWords t)). k \<in> set (window_keys (tokenizeWords sourceText))) \<longleftrightarrow> copied sourceText t" for t
    using common_key_iff [OF tokenize_plain tokenize_plain, of sourceText t] by (auto simp: copied_def)
  have short: "\<not> copied sourceText t" if "length (tokenizeWords sourceText) < 6" for t
    using c [of t] that by (simp add: window_keys_short)
  have r: "rejectIfCopiedEnglishSequence (set (window_keys (tokenizeWords sourceText))) t
      = (if copied sourceText t then Inl GENERATION_OUTPUT_INVALID else Inr ())" for t
    unfolding reject_iff c ..
  show ?thesis
    using short map_result_reject [of "rejectIfCopiedEnglishSequence (set (window_keys (tokenizeWords sourceText)))", OF r]
    by (simp add: validateGeneratedQuestionOutputAgainstSource_def Let_def createShortestQualifyingWindowSet_def)
qed

text \<open>C30 The source check rejects exactly the copies: an output is refused if and only if one of its stems,
  explanations or options shares with the source six or more consecutive English-like words of together
  at least 30 characters, although the code compares only the keys of shortest windows of at most 30
  words.\<close>

theorem copies_are_rejected:
  "validateGeneratedQuestionOutputAgainstSource sourceText output =
    (if \<exists>q\<in>set output. \<exists>t\<in>set (question_texts q). copied sourceText t then Inl GENERATION_OUTPUT_INVALID else Inr ())"
  by (rule copies_rejected)

end
