(* ===== verification/BoundedConcurrency.thy ===== *)
theory BoundedConcurrency imports Prelude begin

text \<open>
  \<open>ai/bounded-concurrency.ts\<close>: a map whose asynchronous calls run on a bounded number of workers.
  JavaScript runs one continuation at a time, so the only freedom is the order in which the calls in
  flight complete: a schedule, the list of the items in that order.  When a call completes its worker
  stores the result, looks at the failure and takes the next item, all in one continuation.

  A call is \<open>f i s\<close>, for the item of index \<open>i\<close> in the state \<open>s\<close> its effects meet; the model lets the
  effects of a call take place when it completes.
\<close>

section \<open>Workers\<close>

record ('o, 'e) pool =
  pl_next :: nat
  pl_running :: "nat list"
  pl_results :: "'o option list"
  pl_failure :: "'e option"

definition start_pool :: "nat \<Rightarrow> nat \<Rightarrow> ('o, 'e) pool" where
  "start_pool concurrency n =
     (let workerCount = min concurrency n
      in \<lparr>pl_next = workerCount, pl_running = [0..<workerCount], pl_results = replicate n None, pl_failure = None\<rparr>)"

text \<open>The loop of a worker: stop on a failure or when no item is left, else start the next.\<close>

definition take_next :: "nat \<Rightarrow> ('o, 'e) pool \<Rightarrow> ('o, 'e) pool" where
  "take_next n p =
     (if pl_failure p = None \<and> pl_next p < n
      then p\<lparr>pl_next := Suc (pl_next p), pl_running := pl_running p @ [pl_next p]\<rparr> else p)"

definition complete_call :: "(nat \<Rightarrow> 's \<Rightarrow> ('e + 'o) \<times> 's) \<Rightarrow> nat \<Rightarrow> nat \<Rightarrow> ('o, 'e) pool \<times> 's \<Rightarrow> ('o, 'e) pool \<times> 's" where
  "complete_call f n i ps =
     (case ps of (p, s) \<Rightarrow>
        if i \<notin> set (pl_running p) then (p, s)
        else case f i s of
               (Inr v, s') \<Rightarrow>
                 (take_next n (p\<lparr>pl_running := remove1 i (pl_running p), pl_results := (pl_results p)[i := Some v]\<rparr>), s')
             | (Inl e, s') \<Rightarrow>
                 (p\<lparr>pl_running := remove1 i (pl_running p),
                    pl_failure := (if pl_failure p = None then Some e else pl_failure p)\<rparr>, s'))"

fun run_pool :: "(nat \<Rightarrow> 's \<Rightarrow> ('e + 'o) \<times> 's) \<Rightarrow> nat \<Rightarrow> nat list \<Rightarrow> ('o, 'e) pool \<times> 's \<Rightarrow> ('o, 'e) pool \<times> 's" where
  "run_pool f n [] ps = ps"
| "run_pool f n (i # sched) ps = run_pool f n sched (complete_call f n i ps)"

datatype 'e map_failure = CallFailed 'e | MissingResult

text \<open>\<^const>\<open>None\<close> while calls are in flight.\<close>

definition mapWithBoundedConcurrency ::
  "(nat \<Rightarrow> 's \<Rightarrow> ('e + 'o) \<times> 's) \<Rightarrow> nat \<Rightarrow> nat \<Rightarrow> nat list \<Rightarrow> 's \<Rightarrow> (('e map_failure + 'o list) \<times> 's) option" where
  "mapWithBoundedConcurrency f concurrency n sched s =
     (case run_pool f n sched (start_pool concurrency n, s) of
        (p, s') \<Rightarrow>
          if pl_running p \<noteq> [] then None
          else Some (case pl_failure p of
                 Some e \<Rightarrow> (Inl (CallFailed e), s')
               | None \<Rightarrow>
                   let completed = List.map_filter (\<lambda>r. r) (pl_results p)
                   in (if length completed \<noteq> n then Inl MissingResult else Inr completed, s')))"

section \<open>Invariant\<close>

text \<open>
  Items are started in order; a started item is in flight, has its result or has failed; no more are
  in flight than there are workers, and while nothing failed every worker is busy or no item is left.
\<close>

definition pool_ok :: "nat \<Rightarrow> nat \<Rightarrow> ('o, 'e) pool \<Rightarrow> bool" where
  "pool_ok c n p \<longleftrightarrow>
     pl_next p \<le> n \<and> length (pl_results p) = n \<and> distinct (pl_running p) \<and>
     (\<forall>i\<in>set (pl_running p). i < pl_next p \<and> pl_results p ! i = None) \<and>
     length (pl_running p) \<le> min c n \<and>
     (\<forall>i<n. pl_results p ! i \<noteq> None \<longrightarrow> i < pl_next p) \<and>
     (pl_failure p = None \<longrightarrow>
        (\<forall>i<pl_next p. i \<in> set (pl_running p) \<or> pl_results p ! i \<noteq> None) \<and>
        (length (pl_running p) = min c n \<or> pl_next p = n))"

lemma pool_ok_start: "pool_ok c n (start_pool c n)"
  by (auto simp: pool_ok_def start_pool_def Let_def)

lemma remove1_props:
  assumes "distinct xs" and "i \<in> set xs"
  shows "distinct (remove1 i xs)" "set (remove1 i xs) = set xs - {i}" "length (remove1 i xs) = length xs - 1" "0 < length xs"
  using assms by (auto simp: length_remove1)

lemma pool_ok_complete:
  assumes "pool_ok c n p"
  shows "pool_ok c n (fst (complete_call f n i (p, s)))"
proof (cases "i \<in> set (pl_running p)")
  case False
  with assms show ?thesis by (simp add: complete_call_def)
next
  case True
  have P: "pl_next p \<le> n" "length (pl_results p) = n" "distinct (pl_running p)"
    "\<And>j. j \<in> set (pl_running p) \<Longrightarrow> j < pl_next p \<and> pl_results p ! j = None" "length (pl_running p) \<le> min c n"
    "\<And>j. j < n \<Longrightarrow> pl_results p ! j \<noteq> None \<Longrightarrow> j < pl_next p"
    "\<And>j. pl_failure p = None \<Longrightarrow> j < pl_next p \<Longrightarrow> j \<in> set (pl_running p) \<or> pl_results p ! j \<noteq> None"
    "pl_failure p = None \<Longrightarrow> length (pl_running p) = min c n \<or> pl_next p = n"
    using assms by (auto simp: pool_ok_def)
  note R = remove1_props [OF P(3) True]
  have i: "i < pl_next p" "i < n" using P(4) [OF True] P(1) by auto
  obtain r s' where f: "f i s = (r, s')" by fastforce
  show ?thesis
  proof (cases r)
    case (Inl e)
    then have "fst (complete_call f n i (p, s)) = p\<lparr>pl_running := remove1 i (pl_running p),
        pl_failure := (if pl_failure p = None then Some e else pl_failure p)\<rparr>"
      using True f by (simp add: complete_call_def)
    then show ?thesis using P R by (auto simp: pool_ok_def)
  next
    case (Inr v)
    let ?q = "p\<lparr>pl_running := remove1 i (pl_running p), pl_results := (pl_results p)[i := Some v]\<rparr>"
    have c: "fst (complete_call f n i (p, s)) = take_next n ?q"
      using True f Inr by (simp add: complete_call_def)
    have get: "(pl_results p)[i := Some v] ! j = (if j = i then Some v else pl_results p ! j)" if "j < n" for j
      using that P(2) by (simp add: nth_list_update)
    show ?thesis
    proof (cases "pl_failure p = None \<and> pl_next p < n")
      case True
      then have t: "take_next n ?q = ?q\<lparr>pl_next := Suc (pl_next p), pl_running := remove1 i (pl_running p) @ [pl_next p]\<rparr>"
        by (simp add: take_next_def)
      have "pl_results p ! pl_next p = None"
        using P(6) [of "pl_next p"] True by (cases "pl_results p ! pl_next p") auto
      then have new: "pl_next p \<notin> set (pl_running p)" "pl_results p ! pl_next p = None" "pl_next p \<noteq> i"
        using P(4) i by auto
      have "length (pl_running p) = min c n" using P(8) True by auto
      then show ?thesis
        unfolding c t pool_ok_def
        using P R new True get i
        by (auto simp: less_Suc_eq)
    next
      case False
      then have t: "take_next n ?q = ?q" by (auto simp: take_next_def)
      show ?thesis
        unfolding c t pool_ok_def
        using P R False get i by auto
    qed
  qed
qed

lemma pool_ok_run: "pool_ok c n (fst ps) \<Longrightarrow> pool_ok c n (fst (run_pool f n sched ps))"
proof (induction sched arbitrary: ps)
  case (Cons i sched)
  have "pool_ok c n (fst (complete_call f n i ps))"
    using pool_ok_complete [of c n "fst ps" f i "snd ps"] Cons.prems by simp
  then show ?case using Cons.IH by simp
qed simp

text \<open>What the stored results and the failure say of the calls, when their outcomes do not depend on the state.\<close>

definition pool_sound :: "(nat \<Rightarrow> 'e + 'o) \<Rightarrow> nat \<Rightarrow> ('o, 'e) pool \<Rightarrow> bool" where
  "pool_sound out n p \<longleftrightarrow>
     (\<forall>i<n. \<forall>v. pl_results p ! i = Some v \<longrightarrow> out i = Inr v) \<and>
     (\<forall>e. pl_failure p = Some e \<longrightarrow> (\<exists>i<n. out i = Inl e))"

lemma take_next_frame [simp]: "pl_results (take_next n p) = pl_results p" "pl_failure (take_next n p) = pl_failure p"
  by (simp_all add: take_next_def)

lemma pool_sound_complete:
  assumes "pool_sound out n p" and "pool_ok c n p" and "\<And>i s. i < n \<Longrightarrow> fst (f i s) = out i"
  shows "pool_sound out n (fst (complete_call f n i (p, s)))"
proof (cases "i \<in> set (pl_running p)")
  case True
  then have i: "i < n" "i < length (pl_results p)" using assms(2) by (auto simp: pool_ok_def)
  obtain r s' where f: "f i s = (r, s')" by fastforce
  with assms(3) [OF i(1), of s] have out: "out i = r" by simp
  show ?thesis
    using assms(1) True f out i
    by (cases r) (auto simp: complete_call_def pool_sound_def nth_list_update)
qed (use assms(1) in \<open>simp add: complete_call_def\<close>)

lemma pool_sound_run:
  assumes "\<And>i s. i < n \<Longrightarrow> fst (f i s) = out i"
  shows "pool_sound out n (fst ps) \<Longrightarrow> pool_ok c n (fst ps) \<Longrightarrow> pool_sound out n (fst (run_pool f n sched ps))"
proof (induction sched arbitrary: ps)
  case (Cons i sched)
  then show ?case
    using pool_sound_complete [OF Cons.prems assms, where i = i and s = "snd ps"] pool_ok_complete [OF Cons.prems(2), of f i "snd ps"] by simp
qed simp

lemma pool_sound_start: "pool_sound out n (start_pool c n)"
  by (simp add: pool_sound_def start_pool_def Let_def)

section \<open>Every call completes\<close>

definition pending :: "nat \<Rightarrow> ('o, 'e) pool \<Rightarrow> nat" where
  "pending n p = (n - pl_next p) + length (pl_running p)"

lemma pending_complete:
  assumes "pool_ok c n p"
  shows "pending n (fst (complete_call f n i (p, s))) \<le> pending n p"
    and "i \<in> set (pl_running p) \<Longrightarrow> pending n (fst (complete_call f n i (p, s))) < pending n p"
proof -
  have R: "length (remove1 i (pl_running p)) = length (pl_running p) - 1" "0 < length (pl_running p)"
    if "i \<in> set (pl_running p)" using that assms by (auto simp: length_remove1)
  show less: "i \<in> set (pl_running p) \<Longrightarrow> pending n (fst (complete_call f n i (p, s))) < pending n p"
    using R by (cases "f i s"; cases "fst (f i s)") (auto simp: complete_call_def pending_def take_next_def)
  show "pending n (fst (complete_call f n i (p, s))) \<le> pending n p"
    using less by (cases "i \<in> set (pl_running p)") (auto simp: complete_call_def)
qed

lemma pending_run: "pool_ok c n (fst ps) \<Longrightarrow> pending n (fst (run_pool f n sched ps)) \<le> pending n (fst ps)"
proof (induction sched arbitrary: ps)
  case (Cons i sched)
  have ok: "pool_ok c n (fst (complete_call f n i ps))" and le: "pending n (fst (complete_call f n i ps)) \<le> pending n (fst ps)"
    using pool_ok_complete [of c n "fst ps" f i "snd ps"] pending_complete(1) [of c n "fst ps" f i "snd ps"] Cons.prems by simp_all
  from Cons.IH [OF ok] le show ?case by simp
qed simp

lemma complete_idle: "i \<notin> set (pl_running (fst ps)) \<Longrightarrow> complete_call f n i ps = ps"
  by (cases ps) (simp add: complete_call_def)

lemma round_progress:
  assumes "pool_ok c n (fst ps)" and "\<exists>i\<in>set sched. i \<in> set (pl_running (fst ps))"
  shows "pending n (fst (run_pool f n sched ps)) < pending n (fst ps)"
  using assms
proof (induction sched arbitrary: ps)
  case (Cons i sched)
  show ?case
  proof (cases "i \<in> set (pl_running (fst ps))")
    case True
    have "pending n (fst (complete_call f n i ps)) < pending n (fst ps)"
      using pending_complete(2) [of c n "fst ps" i f "snd ps"] Cons.prems(1) True by simp
    moreover have "pool_ok c n (fst (complete_call f n i ps))"
      using pool_ok_complete [of c n "fst ps" f i "snd ps"] Cons.prems(1) by simp
    ultimately show ?thesis using pending_run [of c n "complete_call f n i ps" f sched] by simp
  next
    case False
    with Cons.IH [of ps] Cons.prems show ?thesis by (simp add: complete_idle)
  qed
qed simp

lemma run_pool_append: "run_pool f n (xs @ ys) ps = run_pool f n ys (run_pool f n xs ps)"
  by (induction xs arbitrary: ps) simp_all

lemma run_pool_idle: "pl_running (fst ps) = [] \<Longrightarrow> run_pool f n sched ps = ps"
  by (induction sched) (simp_all add: complete_idle)

lemma run_pool_inv: "(\<And>i s. P s \<Longrightarrow> P (snd (f i s))) \<Longrightarrow> P (snd ps) \<Longrightarrow> P (snd (run_pool f n sched ps))"
proof (induction sched arbitrary: ps)
  case (Cons i sched)
  have "P (snd (complete_call f n i ps))"
    using Cons.prems(1) [OF Cons.prems(2), of i] Cons.prems(2)
    by (cases ps; cases "f i (snd ps)"; cases "fst (f i (snd ps))") (simp_all add: complete_call_def)
  with Cons.IH [OF Cons.prems(1)] show ?case by simp
qed simp

lemma bounded_map_inv:
  assumes "\<And>i s. P s \<Longrightarrow> P (snd (f i s))" and "P s" and "mapWithBoundedConcurrency f c n sched s = Some (r, s')"
  shows "P s'"
proof -
  obtain p s1 where p: "run_pool f n sched (start_pool c n, s) = (p, s1)" by fastforce
  have "P (snd (start_pool c n, s))" unfolding snd_conv by (rule assms(2))
  with assms(1) have "P (snd (run_pool f n sched (start_pool c n, s)))" by (rule run_pool_inv)
  then have "P s1" by (simp only: p snd_conv)
  moreover have "s' = s1"
    using assms(3) unfolding mapWithBoundedConcurrency_def p by (simp add: Let_def split: option.splits if_splits)
  ultimately show ?thesis by simp
qed

text \<open>Rounds in each of which every call comes up, in any order and with repetitions: every round completes a call.\<close>

lemma rounds_finish_any:
  assumes "pool_ok c n (fst ps)" and "pending n (fst ps) \<le> length bs" and "\<forall>b\<in>set bs. {..<n} \<subseteq> set b"
  shows "pl_running (fst (run_pool f n (concat bs) ps)) = []"
  using assms
proof (induction bs arbitrary: ps)
  case Nil
  then show ?case by (simp add: pending_def)
next
  case (Cons b bs)
  show ?case
  proof (cases "pl_running (fst ps) = []")
    case True
    then show ?thesis by (simp add: run_pool_idle)
  next
    case False
    let ?ps = "run_pool f n b ps"
    have ok: "pool_ok c n (fst ?ps)" using Cons.prems(1) by (rule pool_ok_run)
    from False obtain i where i: "i \<in> set (pl_running (fst ps))" by (meson ex_in_conv set_empty)
    then have "i < n" using Cons.prems(1) by (fastforce simp: pool_ok_def)
    with i Cons.prems(3) have "pending n (fst ?ps) < pending n (fst ps)"
      using Cons.prems(1) by (intro round_progress [of c]) auto
    with Cons.prems(2) have "pending n (fst ?ps) \<le> length bs" by simp
    from Cons.IH [OF ok this] Cons.prems(3) show ?thesis by (simp add: run_pool_append)
  qed
qed

lemma rounds_finish:
  assumes "pool_ok c n (fst ps)" and "pending n (fst ps) \<le> k"
  shows "pl_running (fst (run_pool f n (concat (replicate k [0..<n])) ps)) = []"
proof (rule rounds_finish_any [OF assms(1)])
  show "pending n (fst ps) \<le> length (replicate k [0..<n])" using assms(2) by simp
  show "\<forall>b\<in>set (replicate k [0..<n]). {..<n} \<subseteq> set b" by (simp add: subset_iff)
qed

lemma upt_split: "m \<le> k \<Longrightarrow> [0..<k] = [0..<m] @ [m..<k]"
  using upt_add_eq_append [of 0 m "k - m"] by simp

text \<open>An endless order of completions in which every call comes up again and again.\<close>

definition fair_order :: "nat \<Rightarrow> (nat \<Rightarrow> nat) \<Rightarrow> bool" where
  "fair_order n next' \<longleftrightarrow> (\<forall>i<n. \<forall>k. \<exists>k'\<ge>k. next' k' = i)"

lemma fair_round:
  assumes "fair_order n next'"
  shows "\<exists>m\<ge>k. {..<n} \<subseteq> set (map next' [k..<m])"
proof -
  define h where "h i = (LEAST k'. k \<le> k' \<and> next' k' = i)" for i
  have h: "k \<le> h i \<and> next' (h i) = i" if i: "i < n" for i
  proof -
    from assms i obtain k' where "k \<le> k' \<and> next' k' = i" by (auto simp: fair_order_def)
    then show ?thesis unfolding h_def by (rule LeastI)
  qed
  let ?m = "k + Suc (sum_list (map h [0..<n]))"
  have "i \<in> next' ` set [k..<?m]" if i: "i < n" for i
  proof (rule image_eqI [where x = "h i"])
    show "i = next' (h i)" using h [OF i] by simp
    have "h i \<le> sum_list (map h [0..<n])" using i by (intro member_le_sum_list) simp_all
    then have "h i < ?m" by linarith
    with h [OF i] show "h i \<in> set [k..<?m]" by (simp only: set_upt atLeastLessThan_iff)
  qed
  then show ?thesis by (intro exI [of _ ?m]) auto
qed

lemma fair_rounds:
  assumes "fair_order n next'"
  shows "\<exists>m bs. map next' [0..<m] = concat bs \<and> length bs = r \<and> (\<forall>b\<in>set bs. {..<n} \<subseteq> set b)"
proof (induction r)
  case 0
  show ?case by (intro exI [of _ 0] exI [of _ "[]"]) simp
next
  case (Suc r)
  then obtain m bs where bs: "map next' [0..<m] = concat bs" "length bs = r" "\<forall>b\<in>set bs. {..<n} \<subseteq> set b" by blast
  from fair_round [OF assms, of m] obtain m' where m': "m \<le> m'" "{..<n} \<subseteq> set (map next' [m..<m'])" by blast
  have "map next' [0..<m'] = map next' [0..<m] @ map next' [m..<m']"
    unfolding upt_split [OF m'(1)] by simp
  then show ?case
    using bs m'(2) by (intro exI [of _ m'] exI [of _ "bs @ [map next' [m..<m']]"]) auto
qed

text \<open>However the completions are ordered, some time no call is in flight any more, and from then on nothing changes.\<close>

lemma fair_finish:
  assumes "fair_order n next'"
  shows "\<exists>m. \<forall>k\<ge>m. \<forall>f c s. mapWithBoundedConcurrency f c n (map next' [0..<k]) s \<noteq> None"
proof -
  from fair_rounds [OF assms] obtain m bs where bs: "map next' [0..<m] = concat bs" "length bs = n" "\<forall>b\<in>set bs. {..<n} \<subseteq> set b"
    by blast
  show ?thesis
  proof (intro exI [of _ m] allI impI)
    fix k f c s
    assume k: "m \<le> k"
    let ?start = "(start_pool c n, s)"
    have "pending n (start_pool c n) \<le> n" by (simp add: pending_def start_pool_def Let_def)
    then have done': "pl_running (fst (run_pool f n (map next' [0..<m]) ?start)) = []"
      unfolding bs(1) using bs(2,3) pool_ok_start by (intro rounds_finish_any) auto
    have "map next' [0..<k] = map next' [0..<m] @ map next' [m..<k]"
      unfolding upt_split [OF k] by simp
    then have "pl_running (fst (run_pool f n (map next' [0..<k]) ?start)) = []"
      using done' by (simp add: run_pool_append run_pool_idle)
    then show "mapWithBoundedConcurrency f c n (map next' [0..<k]) s \<noteq> None"
      by (cases "run_pool f n (map next' [0..<k]) ?start") (simp add: mapWithBoundedConcurrency_def)
  qed
qed

lemma completed_all:
  "(\<forall>i<length rs. rs ! i = Some (g i)) \<Longrightarrow> List.map_filter (\<lambda>r. r) rs = map g [0..<length rs]"
proof (induction rs rule: rev_induct)
  case (snoc r rs)
  then have "List.map_filter (\<lambda>r. r) rs = map g [0..<length rs]" "r = Some (g (length rs))"
    by (auto simp: nth_append dest: spec [of _ "length rs"] split: if_splits)
  then show ?case by (simp add: List.map_filter_def)
qed (simp add: List.map_filter_def)

text \<open>The bounded map does what a plain map does: with a positive bound, in whatever order the calls
  complete, there are never more calls in flight than the bound; once none is in flight the result is
  the list of all results in the order of the items, or the failure of one of the calls exactly if
  one fails; and the calls do all complete: no order starves a worker.\<close>

theorem bounded_map_outcome:
  assumes "0 < concurrency" and "\<And>i s. i < n \<Longrightarrow> fst (f i s) = out i"
  shows "length (pl_running (fst (run_pool f n sched (start_pool concurrency n, s)))) \<le> concurrency
    \<and> (\<forall>r s'. mapWithBoundedConcurrency f concurrency n sched s = Some (r, s') \<longrightarrow>
          (if \<forall>i<n. \<exists>v. out i = Inr v then r = Inr (map (\<lambda>i. projr (out i)) [0..<n])
           else \<exists>i<n. \<exists>e. out i = Inl e \<and> r = Inl (CallFailed e)))
    \<and> mapWithBoundedConcurrency f concurrency n (concat (replicate n [0..<n])) s \<noteq> None"
proof (intro conjI allI impI)
  let ?start = "(start_pool concurrency n, s)"
  have ok: "pool_ok concurrency n (fst (run_pool f n sched ?start))" for sched
    by (intro pool_ok_run) (simp add: pool_ok_start)
  show "length (pl_running (fst (run_pool f n sched ?start))) \<le> concurrency"
    using ok [of sched] by (simp add: pool_ok_def)
  have "pending n (start_pool concurrency n) \<le> n" by (simp add: pending_def start_pool_def Let_def)
  then have "pl_running (fst (run_pool f n (concat (replicate n [0..<n])) ?start)) = []"
    using pool_ok_start by (intro rounds_finish) auto
  then show "mapWithBoundedConcurrency f concurrency n (concat (replicate n [0..<n])) s \<noteq> None"
    by (cases "run_pool f n (concat (replicate n [0..<n])) ?start") (simp add: mapWithBoundedConcurrency_def)
  fix r s'
  assume m: "mapWithBoundedConcurrency f concurrency n sched s = Some (r, s')"
  obtain p where p: "run_pool f n sched ?start = (p, s')" and idle: "pl_running p = []"
    and r: "r = (case pl_failure p of Some e \<Rightarrow> Inl (CallFailed e)
      | None \<Rightarrow> let completed = List.map_filter (\<lambda>r. r) (pl_results p) in if length completed \<noteq> n then Inl MissingResult else Inr completed)"
    using m by (auto simp: mapWithBoundedConcurrency_def Let_def split: prod.splits if_splits option.splits)
  have P: "pool_ok concurrency n p" using ok [of sched] p by simp
  have S: "pool_sound out n p"
    using pool_sound_run [of n f out ?start concurrency sched, OF assms(2)]
      pool_sound_start [of out n concurrency] pool_ok_start [of concurrency n] p by simp
  have all: "\<forall>i<length (pl_results p). pl_results p ! i = Some (projr (out i)) \<and> (\<exists>v. out i = Inr v)" if none: "pl_failure p = None"
  proof (intro allI impI)
    fix i assume "i < length (pl_results p)"
    then have i: "i < n" using P by (simp add: pool_ok_def)
    have "pl_next p = n" using P none idle assms(1) i by (auto simp: pool_ok_def)
    then obtain v where "pl_results p ! i = Some v" using P none idle i by (auto simp: pool_ok_def)
    with S i show "pl_results p ! i = Some (projr (out i)) \<and> (\<exists>v. out i = Inr v)" by (auto simp: pool_sound_def)
  qed
  show "if \<forall>i<n. \<exists>v. out i = Inr v then r = Inr (map (\<lambda>i. projr (out i)) [0..<n])
      else \<exists>i<n. \<exists>e. out i = Inl e \<and> r = Inl (CallFailed e)"
  proof (cases "pl_failure p")
    case None
    have len: "length (pl_results p) = n" using P by (simp add: pool_ok_def)
    have "List.map_filter (\<lambda>r. r) (pl_results p) = map (\<lambda>i. projr (out i)) [0..<n]"
      using completed_all [of "pl_results p" "\<lambda>i. projr (out i)"] all [OF None] len by simp
    with None all [OF None] len show ?thesis by (simp add: r)
  next
    case (Some e)
    with S obtain i where "i < n" "out i = Inl e" by (auto simp: pool_sound_def)
    with Some show ?thesis by (auto simp: r)
  qed
qed

lemma bounded_map_outcome_witness:
  "\<exists>r s'. mapWithBoundedConcurrency (\<lambda>i k. (Inr (2 * i) :: unit + nat, Suc k)) 2 3 [1, 0, 2] (0 :: nat) = Some (r, s')
     \<and> r = Inr [0, 2, 4] \<and> s' = 3"
proof -
  let ?f = "\<lambda>i k. (Inr (2 * i) :: unit + nat, Suc k)"
  have m: "mapWithBoundedConcurrency ?f 2 3 [1, 0, 2] (0 :: nat) = Some (Inr [0, 2, 4], 3)" by code_simp
  have "fst (?f i k) = Inr (2 * i)" for i k by simp
  from bounded_map_outcome [of 2 3 ?f "\<lambda>i. Inr (2 * i)" "[1, 0, 2]" 0, OF _ this] m show ?thesis by auto
qed

end
