(* ===== verification/QuizGeneration.thy ===== *)
theory QuizGeneration
  imports AssessmentService Billing ModelAccess Chunking GenerationOutput BoundedConcurrency
begin

text \<open>
  Generating the quiz of a document, \<open>ai/quiz-generation.service.ts\<close>, over the tables it meets: the
  queue (model selection and budget of the job), wallet, ledger and usage records, the cache of
  decoded outputs (\<open>ai/repositories/generation-cache.repository.ts\<close>), the prompt versions
  (\<open>ai/repositories/prompt-version.repository.ts\<close>) and the quizzes.  The optional dependencies of the
  service are the ones the AI module binds.  The language model is a function of the call and the source
  text, so it may answer the same text differently in different calls.
\<close>

section \<open>State\<close>

record cache_row =
  ca_cacheKey :: string
  ca_model :: string
  ca_promptFingerprint :: string
  ca_output :: json

record prompt_row =
  pv_fingerprint :: string
  pv_model :: string
  pv_template :: string

record gen_state =
  gs_ai :: ai_db
  gs_billing :: billing_db
  gs_cache :: "cache_row list"
  gs_prompts :: "prompt_row list"
  gs_quiz :: quiz_db

datatype gen_error =
    GenFailure failure_code
  | GenBudget budget_error
  | GenHandoff store_error
  | GenProvider string
  | GenDb
  | StaleLeaseError
  | GenError string

text \<open>What a provider may throw: a failure with a code, or any other error.\<close>

datatype provider_error = ProviderFailure failure_code | ProviderError string

definition thrown :: "provider_error \<Rightarrow> gen_error" where
  "thrown e = (case e of ProviderFailure c \<Rightarrow> GenFailure c | ProviderError m \<Rightarrow> GenProvider m)"

record llm_provider =
  lp_model :: string
  lp_providerIdentity :: string
  lp_generate :: "nat \<Rightarrow> string \<Rightarrow> provider_error + (json \<times> provider_usage)"

record gen_job =
  gj_attempt :: "nat option"
  gj_documentId :: string
  gj_id :: "string option"
  gj_leaseId :: "string option"
  gj_ownerId :: string
  gj_selection :: "model_selection option"

record gen_env =
  ge_digest :: digest
  ge_stringify :: "json \<Rightarrow> string"
  ge_localeCompare :: "string \<Rightarrow> string \<Rightarrow> int"
  ge_template :: string
  ge_provider :: "llm_provider option"
  ge_custom :: "string \<Rightarrow> string \<Rightarrow> provider_error + llm_provider"
  ge_platformModels :: "plan_model list"
  ge_concurrency :: nat
  ge_now :: int

section \<open>Cache and prompt versions\<close>

definition encode_option :: "option_candidate \<Rightarrow> json" where
  "encode_option p = JObj [(''content'', JStr (oc_content p)), (''isCorrect'', JBool (oc_isCorrect p))]"

definition encode_question :: "generated_question \<Rightarrow> json" where
  "encode_question q =
     JObj [(''explanation'', JStr (gn_explanation q)), (''options'', JArr (map encode_option (gn_options q))), (''stem'', JStr (gn_stem q))]"

definition encode_output :: "generated_question list \<Rightarrow> json" where
  "encode_output qs = JObj [(''questions'', JArr (map encode_question qs))]"

definition findDecodedOutput :: "string \<Rightarrow> cache_row list \<Rightarrow> gen_error + generated_question list option" where
  "findDecodedOutput cacheKey cache =
     (case List.find (\<lambda>r. ca_cacheKey r = cacheKey) cache of
        None \<Rightarrow> Inr None
      | Some r \<Rightarrow> (case decodeGeneratedQuestionOutput (ca_output r) of Inl e \<Rightarrow> Inl (GenFailure e) | Inr qs \<Rightarrow> Inr (Some qs)))"

definition saveDecodedOutput :: "cache_row \<Rightarrow> cache_row list \<Rightarrow> gen_error + cache_row list" where
  "saveDecodedOutput r cache =
     (if length (ca_cacheKey r) \<noteq> 64 \<or> length (ca_promptFingerprint r) \<noteq> 64 \<or> 255 < length (ca_model r) \<or> \<not> nonblank (ca_model r)
      then Inl GenDb
      else if list_ex (\<lambda>x. ca_cacheKey x = ca_cacheKey r) cache then Inr cache else Inr (cache @ [r]))"

definition record_prompt :: "prompt_row \<Rightarrow> prompt_row list \<Rightarrow> gen_error + prompt_row list" where
  "record_prompt r rows =
     (if length (pv_fingerprint r) \<noteq> 64 \<or> 255 < length (pv_model r) \<or> \<not> nonblank (pv_model r) \<or> \<not> nonblank (pv_template r)
      then Inl GenDb
      else if list_ex (\<lambda>x. pv_fingerprint x = pv_fingerprint r) rows then Inr rows else Inr (rows @ [r]))"

section \<open>Model and budget of the job\<close>

text \<open>An absent identifier and the empty one are both falsy.\<close>

definition present :: "string option \<Rightarrow> string option" where
  "present v = (case v of None \<Rightarrow> None | Some s \<Rightarrow> if s = [] then None else Some s)"

definition resolveDefaultPlatformModel :: "gen_env \<Rightarrow> gen_job \<Rightarrow> gen_state \<Rightarrow> (gen_error + gen_job) \<times> gen_state" where
  "resolveDefaultPlatformModel env job s =
     (case gj_selection job of
        Some _ \<Rightarrow> (Inr job, s)
      | None \<Rightarrow>
          (case (present (case ge_platformModels env of [] \<Rightarrow> None | m # _ \<Rightarrow> Some (pl_id m)), gj_id job, gj_attempt job, present (gj_leaseId job)) of
             (Some modelId, Some jobId, Some attempt, Some leaseId) \<Rightarrow>
               (case ensureDefaultPlatformModel \<lparr>ja_attempts = attempt, ja_id = jobId, ja_leaseId = leaseId\<rparr> (gj_ownerId job) modelId (ge_now env) (gs_ai s) of
                  (persisted, db) \<Rightarrow>
                    (if persisted
                     then Inr (job\<lparr>gj_selection := Some \<lparr>ms_customModelConfigId = None, ms_kind = PLAN, ms_platformModelId = Some modelId\<rparr>\<rparr>)
                     else Inl (GenError ''Processing job model selection could not be fenced''), s\<lparr>gs_ai := db\<rparr>))
           | _ \<Rightarrow> (Inl (GenError ''Processing job has no model selection''), s)))"

definition is_custom :: "gen_job \<Rightarrow> bool" where
  "is_custom job \<longleftrightarrow> (case gj_selection job of None \<Rightarrow> False | Some sel \<Rightarrow> ms_kind sel = CUSTOM)"

definition resolveProvider :: "gen_env \<Rightarrow> gen_job \<Rightarrow> gen_error + llm_provider" where
  "resolveProvider env job =
     (if is_custom job
      then (case present (Option.bind (gj_selection job) ms_customModelConfigId) of
              None \<Rightarrow> Inl (GenError ''Custom model provider is unavailable outside the worker runtime'')
            | Some i \<Rightarrow> (case ge_custom env (gj_ownerId job) i of Inl e \<Rightarrow> Inl (thrown e) | Inr p \<Rightarrow> Inr p))
      else (case ge_provider env of
              None \<Rightarrow> Inl (GenError ''LLM provider is unavailable outside the worker runtime'')
            | Some p \<Rightarrow> Inr p))"

definition estimateCredits :: "nat \<Rightarrow> bool \<Rightarrow> int" where
  "estimateCredits chunkCount platform =
     (if platform then int chunkCount * gp_maxOutputTokens QUIZ_GENERATION_PARAMETERS else 0)"

record gen_budget =
  gb_attempt :: nat
  gb_estimatedCredits :: int
  gb_jobId :: string
  gb_leaseId :: string
  gb_ownerId :: string
  gb_platform :: bool

definition resolveBudget :: "gen_job \<Rightarrow> int \<Rightarrow> bool \<Rightarrow> gen_budget option" where
  "resolveBudget job estimatedCredits platform =
     (case (gj_attempt job, gj_id job, present (gj_leaseId job)) of
        (Some a, Some i, Some l) \<Rightarrow>
          Some \<lparr>gb_attempt = a, gb_estimatedCredits = estimatedCredits, gb_jobId = i, gb_leaseId = l, gb_ownerId = gj_ownerId job, gb_platform = platform\<rparr>
      | _ \<Rightarrow> None)"

definition creditsForUsage :: "gen_env \<Rightarrow> gen_job \<Rightarrow> provider_usage \<Rightarrow> rat" where
  "creditsForUsage env job usage =
     (if us_status usage \<noteq> AVAILABLE then 0
      else case (us_inputTokens usage, us_outputTokens usage, present (Option.bind (gj_selection job) ms_platformModelId)) of
             (Some input, Some output, Some modelId) \<Rightarrow>
               (case List.find (\<lambda>m. pl_id m = modelId) (ge_platformModels env) of
                  None \<Rightarrow> 0
                | Some m \<Rightarrow> of_int input * pl_creditPerInputToken m + of_int output * pl_creditPerOutputToken m)
           | _ \<Rightarrow> 0)"

definition unavailableUsage :: provider_usage where
  "unavailableUsage = \<lparr>us_inputTokens = None, us_outputTokens = None, us_status = UNAVAILABLE\<rparr>"

text \<open>\<open>recordUsage\<close> of the record \<open>resolveUsageRecord\<close> builds, if it builds one.\<close>

definition requestKey :: "string \<Rightarrow> nat \<Rightarrow> string \<Rightarrow> string" where
  "requestKey jobId attempt cacheKey = jobId @ CHR '':'' # nat_str attempt @ CHR '':'' # cacheKey"

definition record_usage ::
  "gen_job \<Rightarrow> string \<Rightarrow> string \<Rightarrow> bool \<Rightarrow> provider_usage \<Rightarrow> rat option \<Rightarrow> gen_state \<Rightarrow> (gen_error + unit) \<times> gen_state" where
  "record_usage job cacheKey providerIdentity cached usage charged s =
     (case (gj_attempt job, gj_id job) of
        (Some a, Some i) \<Rightarrow>
          (case recordUsage a cached charged i (gj_ownerId job) providerIdentity (requestKey i a cacheKey) usage (gs_billing s) of
             (Inl e, b) \<Rightarrow> (Inl (GenBudget e), s\<lparr>gs_billing := b\<rparr>)
           | (Inr _, b) \<Rightarrow> (Inr (), s\<lparr>gs_billing := b\<rparr>))
      | _ \<Rightarrow> (Inr (), s))"

section \<open>One chunk\<close>

definition validate_source :: "string \<Rightarrow> generated_question list \<Rightarrow> gen_error + unit" where
  "validate_source t qs =
     (case validateGeneratedQuestionOutputAgainstSource t qs of Inl e \<Rightarrow> Inl (GenFailure e) | Inr _ \<Rightarrow> Inr ())"

definition from_cache :: "gen_job \<Rightarrow> string \<Rightarrow> llm_provider \<Rightarrow> chunk_candidate \<Rightarrow> generated_question list \<Rightarrow> gen_state
    \<Rightarrow> (gen_error + generated_question list) \<times> gen_state" where
  "from_cache job cacheKey provider ck cached s =
     (case validate_source (ck_text ck) cached of
        Inl e \<Rightarrow> (Inl e, s)
      | Inr _ \<Rightarrow>
          (case record_usage job cacheKey (lp_providerIdentity provider) True unavailableUsage (Some 0) s of
             (Inl e, s1) \<Rightarrow> (Inl e, s1) | (Inr _, s1) \<Rightarrow> (Inr cached, s1)))"

definition keep_output :: "string \<Rightarrow> string \<Rightarrow> llm_provider \<Rightarrow> chunk_candidate \<Rightarrow> json \<Rightarrow> gen_state
    \<Rightarrow> (gen_error + generated_question list) \<times> gen_state" where
  "keep_output cacheKey promptFingerprint provider ck answer s =
     (case decodeGeneratedQuestionOutput answer of
        Inl e \<Rightarrow> (Inl (GenFailure e), s)
      | Inr output \<Rightarrow>
          (case validate_source (ck_text ck) output of
             Inl e \<Rightarrow> (Inl e, s)
           | Inr _ \<Rightarrow>
               (case saveDecodedOutput \<lparr>ca_cacheKey = cacheKey, ca_model = lp_model provider, ca_promptFingerprint = promptFingerprint,
                       ca_output = encode_output output\<rparr> (gs_cache s) of
                  Inl e \<Rightarrow> (Inl e, s)
                | Inr cache \<Rightarrow> (Inr output, s\<lparr>gs_cache := cache\<rparr>))))"

definition dispatch :: "gen_env \<Rightarrow> gen_job \<Rightarrow> bool \<Rightarrow> string \<Rightarrow> string \<Rightarrow> llm_provider \<Rightarrow> nat \<Rightarrow> chunk_candidate \<Rightarrow> gen_state
    \<Rightarrow> (gen_error + generated_question list) \<times> gen_state" where
  "dispatch env job platform cacheKey promptFingerprint provider i ck s =
     (case record_usage job cacheKey (lp_providerIdentity provider) False unavailableUsage None s of
        (Inl e, s1) \<Rightarrow> (Inl e, s1)
      | (Inr _, s1) \<Rightarrow>
          (case lp_generate provider i (ck_text ck) of
             Inl e \<Rightarrow> (Inl (thrown e), s1)
           | Inr (answer, usage) \<Rightarrow>
               (case record_usage job cacheKey (lp_providerIdentity provider) False usage
                       (Some (if platform then creditsForUsage env job usage else 0)) s1 of
                  (Inl e, s2) \<Rightarrow> (Inl e, s2)
                | (Inr _, s2) \<Rightarrow> keep_output cacheKey promptFingerprint provider ck answer s2)))"

definition generateForChunk :: "gen_env \<Rightarrow> gen_job \<Rightarrow> bool \<Rightarrow> string \<Rightarrow> llm_provider \<Rightarrow> nat \<Rightarrow> chunk_candidate \<Rightarrow> gen_state
    \<Rightarrow> (gen_error + generated_question list) \<times> gen_state" where
  "generateForChunk env job platform promptFingerprint provider i ck s =
     (let cacheKey = createGenerationCacheKey (ge_digest env) (ge_stringify env) (parameters_json QUIZ_GENERATION_PARAMETERS)
            (lp_providerIdentity provider) (ck_text ck) (ge_template env)
      in case findDecodedOutput cacheKey (gs_cache s) of
           Inl e \<Rightarrow> (Inl e, s)
         | Inr (Some cached) \<Rightarrow> from_cache job cacheKey provider ck cached s
         | Inr None \<Rightarrow> dispatch env job platform cacheKey promptFingerprint provider i ck s)"

section \<open>Questions\<close>

definition cite :: "locator \<Rightarrow> citation_locator" where
  "cite l = (case l of PdfPageLocator p \<Rightarrow> PageLocator (JFin (of_nat p)) | TextRange s e \<Rightarrow> TextRangeLocator (JFin (of_nat s)) (JFin (of_nat e)))"

definition question_candidate_of :: "chunk_candidate \<Rightarrow> nat \<Rightarrow> generated_question \<Rightarrow> question_candidate" where
  "question_candidate_of ck ordinal q =
     \<lparr>qc_chunkId = ck_id ck, qc_chunkIndex = JFin (of_nat (ck_chunkIndex ck)), qc_ordinal = JFin (of_nat ordinal),
      qc_stem = gn_stem q, qc_explanation = gn_explanation q, qc_options = gn_options q,
      qc_citation = \<lparr>cit_chunkId = ck_id ck, cit_locator = cite (ck_locator ck), cit_snippet = ck_text ck\<rparr>\<rparr>"

fun appendQuestions :: "question_candidate list \<Rightarrow> chunk_candidate \<Rightarrow> generated_question list \<Rightarrow> question_candidate list" where
  "appendQuestions accumulated ck [] = accumulated"
| "appendQuestions accumulated ck (q # qs) = appendQuestions (accumulated @ [question_candidate_of ck (length accumulated) q]) ck qs"

fun collect_all :: "question_candidate list \<Rightarrow> (chunk_candidate \<times> generated_question list) list \<Rightarrow> question_candidate list" where
  "collect_all accumulated [] = accumulated"
| "collect_all accumulated ((ck, output) # rest) = collect_all (appendQuestions accumulated ck output) rest"

section \<open>Settlement\<close>

definition settleBudget :: "gen_env \<Rightarrow> gen_budget option \<Rightarrow> gen_state \<Rightarrow> (gen_error + unit) \<times> gen_state" where
  "settleBudget env budget s =
     (case budget of
        None \<Rightarrow> (Inr (), s)
      | Some b \<Rightarrow>
          if \<not> gb_platform b then (Inr (), s)
          else
            let summary = summarizeUsage (gb_attempt b) (gb_jobId b) (gb_ownerId b) (gs_billing s)
            in (case settle (gb_attempt b) (su_hasUncertainDispatch summary) (gb_jobId b) (su_knownActualCredits summary) (gb_ownerId b) (gs_billing s) of
                  (Inl e, bl) \<Rightarrow> (Inl (GenBudget e), s\<lparr>gs_billing := bl\<rparr>)
                | (Inr _, bl) \<Rightarrow>
                    (case record_budget \<lparr>ja_attempts = gb_attempt b, ja_id = gb_jobId b, ja_leaseId = gb_leaseId b\<rparr> (gb_estimatedCredits b)
                            (su_knownActualCredits summary) (if su_hasUncertainDispatch summary then ''HELD'' else ''SETTLED'') (ge_now env) (gs_ai s) of
                       (recorded, db) \<Rightarrow>
                         (if recorded then Inr () else Inl StaleLeaseError, s\<lparr>gs_billing := bl, gs_ai := db\<rparr>))))"

section \<open>The service\<close>

definition generate_and_store ::
  "gen_env \<Rightarrow> nat list \<Rightarrow> gen_job \<Rightarrow> bool \<Rightarrow> llm_provider \<Rightarrow> gen_budget option \<Rightarrow> chunk_candidate list \<Rightarrow> gen_state
    \<Rightarrow> ((gen_error + unit) \<times> gen_state) option" where
  "generate_and_store env sched job platform provider budget chunks s =
     (let promptVersion = createPromptFingerprint (ge_digest env) (ge_stringify env) (parameters_json QUIZ_GENERATION_PARAMETERS)
            (lp_providerIdentity provider) (ge_template env)
      in case record_prompt \<lparr>pv_fingerprint = promptVersion, pv_model = lp_model provider, pv_template = ge_template env\<rparr> (gs_prompts s) of
           Inl e \<Rightarrow> Some (Inl e, s)
         | Inr prompts \<Rightarrow>
             let orderedChunks = sort_key ck_chunkIndex chunks
             in (case mapWithBoundedConcurrency (\<lambda>i. generateForChunk env job platform promptVersion provider i (orderedChunks ! i))
                       (ge_concurrency env) (length orderedChunks) sched (s\<lparr>gs_prompts := prompts\<rparr>) of
                   None \<Rightarrow> None
                 | Some (Inl (CallFailed e), s1) \<Rightarrow> Some (Inl e, s1)
                 | Some (Inl MissingResult, s1) \<Rightarrow> Some (Inl (GenError ''Bounded workers did not produce every result''), s1)
                 | Some (Inr outputs, s1) \<Rightarrow>
                     Some (case handoff_persist quiz_persist (ge_digest env) (ge_localeCompare env)
                             \<lparr>h_documentId = gj_documentId job, h_ownerId = gj_ownerId job, h_promptVersion = promptVersion,
                              h_minimumQuestionCount = JFin 1, h_questions = collect_all [] (zip orderedChunks outputs)\<rparr> (gs_quiz s1) of
                           (Inl e, logs, q) \<Rightarrow> (Inl (GenHandoff e), s1\<lparr>gs_quiz := q\<rparr>)
                         | (Inr _, logs, q) \<Rightarrow> settleBudget env budget (s1\<lparr>gs_quiz := q\<rparr>))))"

definition translate_error :: "gen_error \<Rightarrow> gen_error" where
  "translate_error e =
     (case e of GenHandoff (StoreAssessment a) \<Rightarrow> if ae_code a = INSUFFICIENT_VALID_QUESTIONS then GenFailure INSUFFICIENT_QUESTIONS else e
      | _ \<Rightarrow> e)"

definition after_reserve ::
  "gen_env \<Rightarrow> nat list \<Rightarrow> gen_job \<Rightarrow> bool \<Rightarrow> llm_provider \<Rightarrow> gen_budget option \<Rightarrow> chunk_candidate list \<Rightarrow> gen_state
    \<Rightarrow> ((gen_error + unit) \<times> gen_state) option" where
  "after_reserve env sched job platform provider budget chunks s =
     map_option (\<lambda>(r, s1).
       (case r of
          Inr _ \<Rightarrow> (Inr (), s1)
        | Inl e \<Rightarrow>
            if e = StaleLeaseError then (Inl e, s1)
            else (case settleBudget env budget s1 of
                    (Inl e', s2) \<Rightarrow> (Inl e', s2)
                  | (Inr _, s2) \<Rightarrow> (Inl (translate_error e), s2))))
       (generate_and_store env sched job platform provider budget chunks s)"

definition generate :: "gen_env \<Rightarrow> nat list \<Rightarrow> gen_job \<Rightarrow> chunk_candidate list \<Rightarrow> gen_state \<Rightarrow> ((gen_error + unit) \<times> gen_state) option" where
  "generate env sched command_job chunks s0 =
     (case resolveDefaultPlatformModel env command_job s0 of
        (Inl e, s) \<Rightarrow> Some (Inl e, s)
      | (Inr job, s) \<Rightarrow>
          (case resolveProvider env job of
             Inl e \<Rightarrow> Some (Inl e, s)
           | Inr provider \<Rightarrow>
               let platform = \<not> is_custom job;
                   budget = resolveBudget job (estimateCredits (length chunks) platform) platform
               in (case budget of
                     Some b \<Rightarrow>
                       if platform then
                         (case reserve (gb_attempt b) (gb_estimatedCredits b) (gb_jobId b) (gb_ownerId b) (gs_billing s) of
                            (Inl e, bl) \<Rightarrow> Some (Inl (GenBudget e), s\<lparr>gs_billing := bl\<rparr>)
                          | (Inr _, bl) \<Rightarrow> after_reserve env sched job platform provider budget chunks (s\<lparr>gs_billing := bl\<rparr>))
                       else after_reserve env sched job platform provider budget chunks s
                   | None \<Rightarrow> after_reserve env sched job platform provider budget chunks s)))"

section \<open>No reservation is left behind\<close>

lemma settle_outcomes:
  "fst (settle a u j k w b) = Inl BudgetDbFailure \<or>
   fst (settle a u j k w b) = Inr () \<and> has_entry (business_key SETTLE j a) (bl_ledger (snd (settle a u j k w b)))"
proof (cases "settle_tx a u j k w b")
  case (Inl e)
  then have "e = BudgetDbFailure"
    by (auto simp: settle_tx_def Let_def and_then_eq_Inl insert_entry_def update_wallet_def split: if_splits)
  with Inl show ?thesis by (simp add: settle_def in_transaction_def)
next
  case (Inr p)
  then obtain b' where b: "settle_tx a u j k w b = Inr ((), b')" by (cases p) auto
  have "has_entry (business_key SETTLE j a) (bl_ledger b')"
  proof (cases "has_entry (business_key SETTLE j a) (bl_ledger b)")
    case True
    with b show ?thesis by (simp add: settle_tx_def)
  next
    case False
    then show ?thesis using settle_tx_again [OF b] by simp
  qed
  with b show ?thesis by (simp add: settle_def in_transaction_def)
qed

text \<open>The usage records change while chunks are generated; the wallets and the ledger do not.\<close>

definition accounts_kept :: "billing_db \<Rightarrow> gen_state \<Rightarrow> bool" where
  "accounts_kept b s \<longleftrightarrow>
     bl_wallets (gs_billing s) = bl_wallets b \<and> bl_ledger (gs_billing s) = bl_ledger b \<and>
     (columns_ok b \<longrightarrow> columns_ok (gs_billing s))"

lemma kept_fields [simp]:
  "accounts_kept b (s\<lparr>gs_cache := c\<rparr>) = accounts_kept b s" "accounts_kept b (s\<lparr>gs_prompts := ps\<rparr>) = accounts_kept b s"
  "accounts_kept b (s\<lparr>gs_quiz := q\<rparr>) = accounts_kept b s" "accounts_kept (gs_billing s) s"
  by (simp_all add: accounts_kept_def)

lemma record_usage_kept:
  assumes "accounts_kept b s" and "record_usage job k p c u ch s = (r, s')"
  shows "accounts_kept b s'"
proof (cases "gj_attempt job = None \<or> gj_id job = None")
  case True
  with assms show ?thesis by (auto simp: record_usage_def split: option.splits)
next
  case False
  then obtain a i where ai: "gj_attempt job = Some a" "gj_id job = Some i" by auto
  let ?x = "recordUsage a c ch i (gj_ownerId job) p (requestKey i a k) u (gs_billing s)"
  have "s' = s\<lparr>gs_billing := snd ?x\<rparr>"
    using assms(2) ai by (cases ?x; cases "fst ?x") (auto simp: record_usage_def)
  with assms(1) show ?thesis by (simp add: accounts_kept_def recordUsage_frame usage_columns)
qed

lemma keep_output_kept: "accounts_kept b s \<Longrightarrow> accounts_kept b (snd (keep_output k f p ck a s))"
  by (simp add: keep_output_def split: sum.split)

lemma from_cache_kept: "accounts_kept b s \<Longrightarrow> accounts_kept b (snd (from_cache job k p ck c s))"
  using record_usage_kept by (auto simp: from_cache_def split: sum.split prod.split)

lemma dispatch_kept:
  assumes "accounts_kept b s"
  shows "accounts_kept b (snd (dispatch env job pl k f p i ck s))"
proof -
  obtain r1 s1 where a: "record_usage job k (lp_providerIdentity p) False unavailableUsage None s = (r1, s1)" by fastforce
  have s1: "accounts_kept b s1" using record_usage_kept [OF assms a] .
  show ?thesis
  proof (cases "lp_generate p i (ck_text ck)")
    case (Inl e)
    with a s1 show ?thesis by (simp add: dispatch_def split: sum.split)
  next
    case (Inr au)
    obtain ans u where au: "au = (ans, u)" by fastforce
    let ?ch = "Some (if pl then creditsForUsage env job u else 0)"
    obtain r2 s2 where c: "record_usage job k (lp_providerIdentity p) False u ?ch s1 = (r2, s2)" by fastforce
    have "accounts_kept b s2" using record_usage_kept [OF s1 c] .
    with a c s1 Inr au keep_output_kept show ?thesis by (simp add: dispatch_def split: sum.split)
  qed
qed

lemma generateForChunk_kept: "accounts_kept b s \<Longrightarrow> accounts_kept b (snd (generateForChunk env job pl f p i ck s))"
  using from_cache_kept dispatch_kept by (simp add: generateForChunk_def Let_def split: option.split sum.split)

text \<open>What is asked of the accounts before a settlement: they are in order, and the attempt is reserved.\<close>

definition reserved_accounts :: "(string \<Rightarrow> string) \<Rightarrow> gen_budget \<Rightarrow> billing_db \<Rightarrow> bool" where
  "reserved_accounts own b db \<longleftrightarrow>
     billing_ok own db \<and> columns_ok db \<and> has_entry (business_key RESERVE (gb_jobId b) (gb_attempt b)) (bl_ledger db) \<and>
     own (gb_jobId b) = gb_ownerId b"

lemma reserved_kept: "reserved_accounts own b db \<Longrightarrow> accounts_kept db s \<Longrightarrow> reserved_accounts own b (gs_billing s)"
  using billing_ok_frame(1) [of "gs_billing s" db own] by (simp add: reserved_accounts_def accounts_kept_def)

text \<open>A settlement settles; or its amounts are no 64-bit integers, and then it is refused and changes nothing.\<close>

definition settled_or_refused :: "(string \<Rightarrow> string) \<Rightarrow> gen_budget \<Rightarrow> (gen_error + unit) \<times> gen_state \<Rightarrow> bool" where
  "settled_or_refused own b rs \<longleftrightarrow>
     (let db = gs_billing (snd rs)
      in billing_ok own db \<and>
         (has_entry (business_key SETTLE (gb_jobId b) (gb_attempt b)) (bl_ledger db) \<or>
          fst rs = Inl (GenBudget BudgetDbFailure) \<and> reserved_accounts own b db \<and>
          \<not> settlement_fits (gb_attempt b) (gb_jobId b) (gb_ownerId b) db))"

lemma settleBudget_settles:
  assumes "gb_platform b" and acc: "reserved_accounts own b (gs_billing s)"
  shows "settled_or_refused own b (settleBudget env (Some b) s)"
proof -
  let ?sum = "summarizeUsage (gb_attempt b) (gb_jobId b) (gb_ownerId b) (gs_billing s)"
  obtain r bl where st: "settle (gb_attempt b) (su_hasUncertainDispatch ?sum) (gb_jobId b) (su_knownActualCredits ?sum) (gb_ownerId b) (gs_billing s) = (r, bl)"
    by fastforce
  have ok: "billing_ok own (gs_billing s)" "columns_ok (gs_billing s)"
      "has_entry (business_key RESERVE (gb_jobId b) (gb_attempt b)) (bl_ledger (gs_billing s))" "own (gb_jobId b) = gb_ownerId b"
    using acc by (simp_all add: reserved_accounts_def)
  have "billing_step own (gs_billing s) bl"
    using step_settle [OF ok(3), of own "su_hasUncertainDispatch ?sum" "su_knownActualCredits ?sum"] st by (simp add: ok(4))
  with ok(1) have bl: "billing_ok own bl" using billing_step_ok by blast
  from settle_outcomes [of "gb_attempt b" "su_hasUncertainDispatch ?sum" "gb_jobId b" "su_knownActualCredits ?sum" "gb_ownerId b" "gs_billing s", unfolded st]
  consider "r = Inl BudgetDbFailure" | "r = Inr ()" "has_entry (business_key SETTLE (gb_jobId b) (gb_attempt b)) (bl_ledger bl)"
    by auto
  then show ?thesis
  proof cases
    case 1
    then have same: "bl = gs_billing s" using st by (auto simp: settle_def dest: in_transaction_error)
    have "\<not> settlement_fits (gb_attempt b) (gb_jobId b) (gb_ownerId b) (gs_billing s)"
      using settle_accepted [OF ok] st 1 by auto
    with assms 1 st same bl show ?thesis by (simp add: settleBudget_def Let_def settled_or_refused_def)
  next
    case 2
    with assms(1) st bl show ?thesis by (simp add: settleBudget_def Let_def settled_or_refused_def split: prod.split)
  qed
qed

text \<open>Only the settlement can find the lease lost.\<close>

lemma record_usage_error: "fst (record_usage job k p c u ch s) \<noteq> Inl StaleLeaseError"
  by (auto simp: record_usage_def split: option.split prod.split sum.split)

lemma validate_source_error: "validate_source t qs \<noteq> Inl StaleLeaseError"
  by (simp add: validate_source_def split: sum.split)

lemma saveDecodedOutput_error: "saveDecodedOutput r c \<noteq> Inl StaleLeaseError"
  by (simp add: saveDecodedOutput_def)

lemma keep_output_error: "fst (keep_output k f p ck a s) \<noteq> Inl StaleLeaseError"
  using validate_source_error saveDecodedOutput_error by (auto simp: keep_output_def split: sum.split)

lemma thrown_error: "thrown e \<noteq> StaleLeaseError"
  by (simp add: thrown_def split: provider_error.split)

lemma dispatch_error: "fst (dispatch env job pl k f p i ck s) \<noteq> Inl StaleLeaseError"
proof -
  obtain r1 s1 where a: "record_usage job k (lp_providerIdentity p) False unavailableUsage None s = (r1, s1)" by fastforce
  have r1: "r1 \<noteq> Inl StaleLeaseError" using record_usage_error [of job k "lp_providerIdentity p" False unavailableUsage None s] a by simp
  show ?thesis
  proof (cases "lp_generate p i (ck_text ck)")
    case (Inl e)
    with a r1 thrown_error [of e] show ?thesis by (auto simp: dispatch_def split: sum.split)
  next
    case (Inr au)
    obtain ans u where au: "au = (ans, u)" by fastforce
    let ?ch = "Some (if pl then creditsForUsage env job u else 0)"
    obtain r2 s2 where b: "record_usage job k (lp_providerIdentity p) False u ?ch s1 = (r2, s2)" by fastforce
    have r2: "r2 \<noteq> Inl StaleLeaseError" using record_usage_error [of job k "lp_providerIdentity p" False u ?ch s1] b by simp
    from a r1 b r2 Inr au keep_output_error show ?thesis by (auto simp: dispatch_def split: sum.split)
  qed
qed

lemma from_cache_error: "fst (from_cache job k p ck c s) \<noteq> Inl StaleLeaseError"
proof -
  obtain r1 s1 where a: "record_usage job k (lp_providerIdentity p) True unavailableUsage (Some 0) s = (r1, s1)" by fastforce
  have "r1 \<noteq> Inl StaleLeaseError" using record_usage_error [of job k "lp_providerIdentity p" True unavailableUsage "Some 0" s] a by simp
  with a validate_source_error show ?thesis by (auto simp: from_cache_def split: sum.split)
qed

lemma generateForChunk_error: "fst (generateForChunk env job pl f p i ck s) \<noteq> Inl StaleLeaseError"
  using from_cache_error dispatch_error
  by (auto simp: generateForChunk_def Let_def findDecodedOutput_def split: option.split sum.split)

lemma run_pool_failure:
  assumes "\<And>i s. fst (f i s) \<noteq> Inl x"
  shows "pl_failure (fst ps) \<noteq> Some x \<Longrightarrow> pl_failure (fst (run_pool f n sched ps)) \<noteq> Some x"
proof (induction sched arbitrary: ps)
  case (Cons i sched)
  have "pl_failure (fst (complete_call f n i ps)) \<noteq> Some x"
  proof (cases "f i (snd ps)")
    case (Pair r s')
    then have "r \<noteq> Inl x" using assms [of i "snd ps"] by simp
    with Pair Cons.prems show ?thesis by (cases ps; cases r) (auto simp: complete_call_def)
  qed
  with Cons.IH show ?case by simp
qed simp

lemma bounded_map_failure:
  assumes "\<And>i s. fst (f i s) \<noteq> Inl x"
  shows "mapWithBoundedConcurrency f c n sched s \<noteq> Some (Inl (CallFailed x), s')"
proof -
  obtain p s1 where p: "run_pool f n sched (start_pool c n, s) = (p, s1)" by fastforce
  have "pl_failure p \<noteq> Some x"
    using run_pool_failure [of f x "(start_pool c n, s)" n sched, OF assms] p by (simp add: start_pool_def Let_def)
  then show ?thesis by (auto simp: mapWithBoundedConcurrency_def p Let_def split: option.splits if_splits)
qed

lemma record_prompt_error: "record_prompt r rows \<noteq> Inl StaleLeaseError"
  by (simp add: record_prompt_def)

text \<open>What generation ends with comes from the settlement, or is another error before it.\<close>

lemma generate_and_store_end:
  assumes gen: "generate_and_store env sched job pl p budget chunks s = Some (r, s1)"
  shows "(\<exists>e. r = Inl e \<and> e \<noteq> StaleLeaseError \<and> accounts_kept (gs_billing s) s1)
    \<or> (\<exists>x. accounts_kept (gs_billing s) x \<and> settleBudget env budget x = (r, s1))"
proof -
  let ?v = "createPromptFingerprint (ge_digest env) (ge_stringify env) (parameters_json QUIZ_GENERATION_PARAMETERS) (lp_providerIdentity p) (ge_template env)"
  let ?chunks = "sort_key ck_chunkIndex chunks"
  let ?f = "\<lambda>i. generateForChunk env job pl ?v p i (?chunks ! i)"
  let ?prompt = "record_prompt \<lparr>pv_fingerprint = ?v, pv_model = lp_model p, pv_template = ge_template env\<rparr> (gs_prompts s)"
  show ?thesis
  proof (cases ?prompt)
    case (Inl e)
    then have "r = Inl e" "s1 = s" using gen by (simp_all add: generate_and_store_def Let_def)
    moreover have "e \<noteq> StaleLeaseError" using record_prompt_error Inl by metis
    ultimately show ?thesis by simp
  next
    case pr: (Inr prompts)
    then obtain m s2 where m: "mapWithBoundedConcurrency ?f (ge_concurrency env) (length ?chunks) sched (s\<lparr>gs_prompts := prompts\<rparr>) = Some (m, s2)"
      using gen by (auto simp: generate_and_store_def Let_def split: option.splits)
    have kept: "accounts_kept (gs_billing s) s2"
      by (rule bounded_map_inv [where P = "accounts_kept (gs_billing s)", OF generateForChunk_kept _ m]) simp_all
    have stale: "m \<noteq> Inl (CallFailed StaleLeaseError)"
      using bounded_map_failure [of ?f StaleLeaseError, OF generateForChunk_error] m by blast
    show ?thesis
    proof (cases m)
      case (Inl e)
      with gen pr m kept stale show ?thesis
        by (cases e) (auto simp: generate_and_store_def Let_def)
    next
      case (Inr outputs)
      with gen pr m kept show ?thesis
        by (auto simp: generate_and_store_def Let_def split: prod.splits sum.splits)
    qed
  qed
qed

lemma after_reserve_settles:
  assumes after: "after_reserve env sched job pl p (Some b) chunks s = Some rs" and "gb_platform b"
    and acc: "reserved_accounts own b (gs_billing s)"
  shows "settled_or_refused own b rs"
proof -
  from after obtain r s1 where g: "generate_and_store env sched job pl p (Some b) chunks s = Some (r, s1)"
    and rs: "rs = (case r of Inr _ \<Rightarrow> (Inr (), s1)
        | Inl e \<Rightarrow> if e = StaleLeaseError then (Inl e, s1)
            else (case settleBudget env (Some b) s1 of (Inl e', s2) \<Rightarrow> (Inl e', s2) | (Inr _, s2) \<Rightarrow> (Inl (translate_error e), s2)))"
    by (auto simp: after_reserve_def)
  have again: "settled_or_refused own b rs" if e: "r = Inl e" "e \<noteq> StaleLeaseError" and s1: "reserved_accounts own b (gs_billing s1)" for e
  proof -
    obtain r2 s2 where st: "settleBudget env (Some b) s1 = (r2, s2)" by fastforce
    have "settled_or_refused own b (r2, s2)" using settleBudget_settles [OF assms(2) s1, of env] st by simp
    then show ?thesis using e rs st by (cases r2) (auto simp: settled_or_refused_def Let_def)
  qed
  from generate_and_store_end [OF g] consider (early) e where "r = Inl e" "e \<noteq> StaleLeaseError" "accounts_kept (gs_billing s) s1"
    | (settled) x where "accounts_kept (gs_billing s) x" "settleBudget env (Some b) x = (r, s1)" by blast
  then show ?thesis
  proof cases
    case early
    then show ?thesis using again reserved_kept [OF acc] by blast
  next
    case settled
    have end': "settled_or_refused own b (r, s1)"
      using settleBudget_settles [OF assms(2) reserved_kept [OF acc settled(1)], of env] settled(2) by simp
    show ?thesis
    proof (cases "r = Inr () \<or> r = Inl StaleLeaseError")
      case True
      then have "rs = (r, s1)" using rs by auto
      with end' show ?thesis by simp
    next
      case False
      then obtain e where e: "r = Inl e" "e \<noteq> StaleLeaseError" by (cases r) auto
      show ?thesis
      proof (cases "has_entry (business_key SETTLE (gb_jobId b) (gb_attempt b)) (bl_ledger (gs_billing s1))")
        case True
        obtain r2 s2 where st: "settleBudget env (Some b) s1 = (r2, s2)" by fastforce
        have "gs_billing s2 = gs_billing s1"
          using st assms(2) True
          by (auto simp: settleBudget_def Let_def settle_def in_transaction_def settle_tx_def split: prod.splits)
        with e rs st end' True show ?thesis by (cases r2) (auto simp: settled_or_refused_def Let_def)
      next
        case False
        with end' have "reserved_accounts own b (gs_billing s1)" by (simp add: settled_or_refused_def Let_def)
        with e show ?thesis by (rule again)
      qed
    qed
  qed
qed

text \<open>With no platform budget nothing is settled.\<close>

lemma unsettled_budget: "\<not> gb_platform b \<Longrightarrow> settleBudget env (Some b) s = (Inr (), s)"
  by (simp add: settleBudget_def)

lemma after_reserve_custom:
  assumes "after_reserve env sched job pl p (Some b) chunks s = Some (r, s')" and "\<not> gb_platform b"
  shows "accounts_kept (gs_billing s) s'"
proof -
  from assms(1) obtain r1 s1 where g: "generate_and_store env sched job pl p (Some b) chunks s = Some (r1, s1)"
    and rs: "(r, s') = (case r1 of Inr _ \<Rightarrow> (Inr (), s1)
        | Inl e \<Rightarrow> if e = StaleLeaseError then (Inl e, s1)
            else (case settleBudget env (Some b) s1 of (Inl e', s2) \<Rightarrow> (Inl e', s2) | (Inr _, s2) \<Rightarrow> (Inl (translate_error e), s2)))"
    by (auto simp: after_reserve_def)
  have s': "s' = s1" using rs by (cases r1) (simp_all add: unsettled_budget [OF assms(2)] split: if_splits)
  from generate_and_store_end [OF g] show ?thesis
    unfolding s' unsettled_budget [OF assms(2)] by auto
qed

lemma bounded_map_rounds [simp]:
  "mapWithBoundedConcurrency f c n (concat (replicate n [0..<n])) s = None \<longleftrightarrow> False"
proof -
  have "pending n (start_pool c n) \<le> n" by (simp add: pending_def start_pool_def Let_def)
  then have "pl_running (fst (run_pool f n (concat (replicate n [0..<n])) (start_pool c n, s))) = []"
    using pool_ok_start by (intro rounds_finish) auto
  then show ?thesis
    by (cases "run_pool f n (concat (replicate n [0..<n])) (start_pool c n, s)") (simp add: mapWithBoundedConcurrency_def)
qed

lemma after_reserve_returns:
  assumes "\<And>f c (s :: gen_state). mapWithBoundedConcurrency f c (length chunks) sched s \<noteq> (None :: ((gen_error map_failure + generated_question list list) \<times> gen_state) option)"
  shows "after_reserve env sched job pl p budget chunks s \<noteq> None"
proof -
  have len: "length (sort_key ck_chunkIndex chunks) = length chunks" by simp
  have "generate_and_store env sched job pl p budget chunks s \<noteq> None"
    unfolding generate_and_store_def Let_def len
    by (auto simp: assms simp del: not_None_eq split: sum.split option.split map_failure.split)
  then show ?thesis by (auto simp: after_reserve_def)
qed

lemma resolve_default_frame:
  assumes "resolveDefaultPlatformModel env job s = (r, s')"
  shows "gs_billing s' = gs_billing s"
    and "r = Inr job' \<Longrightarrow> gj_attempt job' = gj_attempt job \<and> gj_id job' = gj_id job \<and> gj_leaseId job' = gj_leaseId job
      \<and> gj_ownerId job' = gj_ownerId job \<and> (\<not> is_custom job \<longrightarrow> \<not> is_custom job')"
  using assms
  by (auto simp: resolveDefaultPlatformModel_def is_custom_def split: option.splits prod.splits list.splits if_splits)

lemma generate_returns_if:
  assumes "\<And>f c (s :: gen_state). mapWithBoundedConcurrency f c (length chunks) sched s \<noteq> (None :: ((gen_error map_failure + generated_question list list) \<times> gen_state) option)"
  shows "generate env sched job chunks s \<noteq> None"
proof -
  note returns = after_reserve_returns [OF assms]
  show ?thesis by (auto simp: generate_def Let_def returns simp del: not_None_eq split: prod.split sum.split option.split)
qed

lemma generate_returns: "generate env (concat (replicate (length chunks) [0..<length chunks])) job chunks s \<noteq> None"
  by (rule generate_returns_if) simp

lemma generate_returns_fair:
  assumes "fair_order (length chunks) next'"
  shows "\<exists>m. \<forall>k\<ge>m. generate env (map next' [0..<k]) job chunks s \<noteq> None"
proof -
  from fair_finish [OF assms] obtain m where
    m: "\<forall>k\<ge>m. \<forall>f c (s :: gen_state). mapWithBoundedConcurrency f c (length chunks) (map next' [0..<k]) s
        \<noteq> (None :: ((gen_error map_failure + generated_question list list) \<times> gen_state) option)" ..
  show ?thesis
  proof (intro exI [of _ m] allI impI generate_returns_if)
    fix k f c and s :: gen_state
    assume "m \<le> k"
    with m show "mapWithBoundedConcurrency f c (length chunks) (map next' [0..<k]) s
        \<noteq> (None :: ((gen_error map_failure + generated_question list list) \<times> gen_state) option)" by (simp only: simp_thms)
  qed
qed

lemma generate_platform_end:
  assumes acc: "billing_ok own (gs_billing s)" "columns_ok (gs_billing s)" and job: "gj_attempt job = Some a" "gj_id job = Some i"
      "present (gj_leaseId job) = Some l" "own i = gj_ownerId job" "\<not> is_custom job"
    and gen: "generate env sched job chunks s = Some (r, s')"
  shows "billing_ok own (gs_billing s') \<and>
    ((\<exists>e. r = Inl e) \<and> gs_billing s' = gs_billing s
     \<or> has_entry (business_key SETTLE i a) (bl_ledger (gs_billing s'))
     \<or> r = Inl (GenBudget BudgetDbFailure) \<and> has_entry (business_key RESERVE i a) (bl_ledger (gs_billing s'))
       \<and> \<not> settlement_fits a i (gj_ownerId job) (gs_billing s'))"
proof -
  obtain rj s1 where rj: "resolveDefaultPlatformModel env job s = (rj, s1)" by fastforce
  note F = resolve_default_frame [OF rj]
  show ?thesis
  proof (cases rj)
    case (Inl e)
    with rj gen F(1) acc(1) show ?thesis by (auto simp: generate_def)
  next
    case (Inr job')
    note J = F(2) [OF Inr]
    show ?thesis
    proof (cases "resolveProvider env job'")
      case (Inl e)
      with rj Inr gen F(1) acc(1) show ?thesis by (auto simp: generate_def)
    next
      case p: (Inr p)
      let ?est = "estimateCredits (length chunks) True"
      let ?b = "\<lparr>gb_attempt = a, gb_estimatedCredits = ?est, gb_jobId = i, gb_leaseId = l,
        gb_ownerId = gj_ownerId job', gb_platform = True\<rparr>"
      have plat: "\<not> is_custom job'" and owner: "gj_ownerId job' = gj_ownerId job" using J job(5) by simp_all
      have b: "resolveBudget job' ?est True = Some ?b" using J job(1-3) by (simp add: resolveBudget_def)
      obtain rr bl where res: "reserve a ?est i (gj_ownerId job') (gs_billing s1) = (rr, bl)" by fastforce
      have g: "(case rr of Inl e \<Rightarrow> Some (Inl (GenBudget e), s1\<lparr>gs_billing := bl\<rparr>)
          | Inr _ \<Rightarrow> after_reserve env sched job' True p (Some ?b) chunks (s1\<lparr>gs_billing := bl\<rparr>)) = Some (r, s')"
        using rj Inr p plat b res gen by (cases rr) (simp_all add: generate_def Let_def)
      show ?thesis
      proof (cases rr)
        case (Inl e)
        with res have "in_transaction (reserve_tx a ?est i (gj_ownerId job')) (gs_billing s1) = (Inl e, bl)"
          by (simp add: reserve_def)
        then have "bl = gs_billing s1" by (rule in_transaction_error)
        with Inl g F(1) acc(1) show ?thesis by auto
      next
        case (Inr u)
        have "billing_step own (gs_billing s) bl"
          using step_reserve [where own = own and attempt = a and estimated = ?est and jobId = i and db = "gs_billing s"] res job(4) by (simp add: owner F(1))
        with acc(1) have "billing_ok own bl" using billing_step_ok by blast
        moreover have "columns_ok bl" using reserve_columns [OF acc(2), where a = a and est = ?est and j = i and w = "gj_ownerId job'"] res by (simp add: F(1))
        moreover have "has_entry (business_key RESERVE i a) (bl_ledger bl)" using reserve_books res Inr by auto
        ultimately have "reserved_accounts own ?b (gs_billing (s1\<lparr>gs_billing := bl\<rparr>))"
          using job(4) by (simp add: reserved_accounts_def owner)
        from after_reserve_settles [OF _ _ this] g Inr
        have "settled_or_refused own ?b (r, s')" by simp
        then show ?thesis by (auto simp: settled_or_refused_def Let_def reserved_accounts_def owner)
      qed
    qed
  qed
qed

lemma generate_custom_end:
  assumes job: "gj_attempt job = Some a" "gj_id job = Some i" "present (gj_leaseId job) = Some l" "is_custom job"
    and gen: "generate env sched job chunks s = Some (r, s')"
  shows "accounts_kept (gs_billing s) s'"
proof -
  have "resolveDefaultPlatformModel env job s = (Inr job, s)"
    using job(4) by (simp add: resolveDefaultPlatformModel_def is_custom_def split: option.splits)
  then consider "s' = s"
    | p b where "after_reserve env sched job False p (Some b) chunks s = Some (r, s')" "\<not> gb_platform b"
    using gen job by (auto simp: generate_def Let_def resolveBudget_def split: sum.splits)
  then show ?thesis
  proof cases
    case 2
    then show ?thesis by (rule after_reserve_custom)
  qed simp
qed

text \<open>C27 Generation accounts for the credits it reserves.  For an attempt of a job that is leased, over accounts that are
  in order, and in whatever order the calls for its chunks complete: with a custom model the wallets and the ledger stay
  as they are; with a platform model generation ends with an error and the billing tables as before, or the attempt is
  settled, or the caller gets the database's error because an amount of the settlement is no 64-bit integer, and in that
  case alone the reservation stays open in the ledger.  Afterwards the reserved credits of every wallet are again the open
  reservations.  And generation ends: for every order of completions in which no call is forgotten, from some point
  on.\<close>

theorem generation_settles:
  assumes "billing_ok own (gs_billing s)" and "columns_ok (gs_billing s)" and "gj_attempt job = Some a" and "gj_id job = Some i"
    and "present (gj_leaseId job) = Some l" and "own i = gj_ownerId job"
  shows "(\<forall>sched r s'. generate env sched job chunks s = Some (r, s') \<longrightarrow>
        billing_ok own (gs_billing s') \<and>
        (if is_custom job
         then bl_wallets (gs_billing s') = bl_wallets (gs_billing s) \<and> bl_ledger (gs_billing s') = bl_ledger (gs_billing s)
         else (\<exists>e. r = Inl e) \<and> gs_billing s' = gs_billing s
           \<or> has_entry (business_key SETTLE i a) (bl_ledger (gs_billing s'))
           \<or> r = Inl (GenBudget BudgetDbFailure) \<and> has_entry (business_key RESERVE i a) (bl_ledger (gs_billing s'))
             \<and> \<not> settlement_fits a i (gj_ownerId job) (gs_billing s')))
    \<and> (\<forall>next'. fair_order (length chunks) next' \<longrightarrow> (\<exists>m. \<forall>k\<ge>m. generate env (map next' [0..<k]) job chunks s \<noteq> None))"
proof (intro conjI allI impI generate_returns_fair)
  fix sched r s'
  assume gen: "generate env sched job chunks s = Some (r, s')"
  show "billing_ok own (gs_billing s')"
  proof (cases "is_custom job")
    case True
    from generate_custom_end [OF assms(3-5) True gen] assms(1) show ?thesis
      using billing_ok_frame(1) [of "gs_billing s'" "gs_billing s" own] by (simp add: accounts_kept_def)
  qed (use generate_platform_end [OF assms(1-6) _ gen] in blast)
  show "if is_custom job
         then bl_wallets (gs_billing s') = bl_wallets (gs_billing s) \<and> bl_ledger (gs_billing s') = bl_ledger (gs_billing s)
         else (\<exists>e. r = Inl e) \<and> gs_billing s' = gs_billing s
           \<or> has_entry (business_key SETTLE i a) (bl_ledger (gs_billing s'))
           \<or> r = Inl (GenBudget BudgetDbFailure) \<and> has_entry (business_key RESERVE i a) (bl_ledger (gs_billing s'))
             \<and> \<not> settlement_fits a i (gj_ownerId job) (gs_billing s')"
  proof (cases "is_custom job")
    case True
    from generate_custom_end [OF assms(3-5) True gen] show ?thesis using True by (simp add: accounts_kept_def)
  next
    case False
    from generate_platform_end [OF assms(1-6) False gen] False show ?thesis by simp
  qed
qed

definition sample_provider :: llm_provider where
  "sample_provider = \<lparr>lp_model = ''m'', lp_providerIdentity = ''p'',
     lp_generate = (\<lambda>i t. Inr (sample_output, \<lparr>us_inputTokens = Some 3, us_outputTokens = Some 2, us_status = AVAILABLE\<rparr>))\<rparr>"

definition sample_env :: gen_env where
  "sample_env = \<lparr>ge_digest = sample_digest, ge_stringify = (\<lambda>_. ''x''), ge_localeCompare = by_length, ge_template = ''Generate'',
     ge_provider = Some sample_provider, ge_custom = (\<lambda>_ _. Inl (ProviderError ''none'')), ge_platformModels = [],
     ge_concurrency = 8, ge_now = 5\<rparr>"

definition sample_gen_job :: gen_job where
  "sample_gen_job = \<lparr>gj_attempt = Some 1, gj_documentId = ''d'', gj_id = Some ''j'', gj_leaseId = Some ''l'', gj_ownerId = ''u'',
     gj_selection = Some \<lparr>ms_customModelConfigId = None, ms_kind = PLAN, ms_platformModelId = Some ''p''\<rparr>\<rparr>"

definition sample_gen_state :: gen_state where
  "sample_gen_state = \<lparr>gs_ai = one_running, gs_billing = snd (findOrCreate ''u'' 100000 empty_billing), gs_cache = [], gs_prompts = [],
     gs_quiz = empty_quiz_db\<rparr>"

definition sample_chunks :: "chunk_candidate list" where
  "sample_chunks = [\<lparr>ck_chunkIndex = 0, ck_contentHash = ''h'', ck_id = ''1'', ck_locator = TextRange 0 2, ck_text = ''ab''\<rparr>]"

lemma generation_settles_witness:
  "\<exists>r s'. generate sample_env [0] sample_gen_job sample_chunks sample_gen_state = Some (r, s')
     \<and> ((\<exists>e. r = Inl e) \<and> gs_billing s' = gs_billing sample_gen_state
        \<or> has_entry (business_key SETTLE ''j'' 1) (bl_ledger (gs_billing s'))
        \<or> r = Inl (GenBudget BudgetDbFailure) \<and> \<not> settlement_fits 1 ''j'' ''u'' (gs_billing s'))
     \<and> (\<exists>m. generate sample_env (map (\<lambda>_. 0) [0..<m]) sample_gen_job sample_chunks sample_gen_state \<noteq> None)"
proof -
  have one: "[0] = concat (replicate (length sample_chunks) [0..<length sample_chunks])" by (simp add: sample_chunks_def)
  obtain r s' where g: "generate sample_env [0] sample_gen_job sample_chunks sample_gen_state = Some (r, s')"
    using generate_returns [of sample_env sample_chunks sample_gen_job sample_gen_state] unfolding one by auto
  have j: "gj_attempt sample_gen_job = Some 1" "gj_id sample_gen_job = Some ''j''"
    "present (gj_leaseId sample_gen_job) = Some ''l''" "(\<lambda>_. ''u'') ''j'' = gj_ownerId sample_gen_job"
    by (simp_all add: sample_gen_job_def present_def)
  have c: "\<not> is_custom sample_gen_job" "gj_ownerId sample_gen_job = ''u''" by (simp_all add: sample_gen_job_def is_custom_def)
  have b: "billing_ok (\<lambda>_. ''u'') (gs_billing sample_gen_state)" "columns_ok (gs_billing sample_gen_state)"
    by (simp_all add: sample_gen_state_def findOrCreate_def upsert_entitlement_def insert_wallet_def empty_billing_def Let_def
        billing_ok_def reserved_of_def outstanding_def columns_ok_def wallet_ok_def fits_int8_def)
  have "fair_order (length sample_chunks) (\<lambda>_. 0)" by (auto simp: fair_order_def sample_chunks_def)
  from mp [OF spec [OF conjunct2 [OF generation_settles [OF b j]]] this]
  have returns: "\<exists>m. generate sample_env (map (\<lambda>_. 0) [0..<m]) sample_gen_job sample_chunks sample_gen_state \<noteq> None" by blast
  note end' = mp [OF spec [OF spec [OF spec [OF conjunct1 [OF generation_settles [OF b j]]]]] g]
  from conjunct2 [OF end'] g returns show ?thesis unfolding if_not_P [OF c(1)] c(2) by blast
qed

end
