(* ===== verification/JobProcessor.thy ===== *)
theory JobProcessor imports ChunkStore QuizGeneration begin

text \<open>
  Processing one job from its document to its quiz, \<open>ai/extraction-job-processor.service.ts\<close>: source,
  object, extraction, chunks, generation.  Objects are streams of byte chunks; \<^const>\<open>None\<close> is a read that
  fails.
\<close>

record worker_state =
  wk_course :: course_db
  wk_chunks :: "chunk_row list"
  wk_gen :: gen_state

record worker_env =
  we_gen :: gen_env
  we_objects :: "string \<Rightarrow> bytes list option"
  we_pdf :: pdf_reader
  we_utf8 :: "bytes \<Rightarrow> string"
  we_segment :: segmenter
  we_chunking :: chunk_settings
  we_maxObjectBytes :: nat
  we_batchSize :: nat

definition read_object_bytes :: "worker_env \<Rightarrow> extraction_source \<Rightarrow> failure_code + bytes" where
  "read_object_bytes env source =
     (case we_objects env (xs_storageRef source) of
        None \<Rightarrow> Inl EXTRACTION_OBJECT_NOT_FOUND
      | Some stream \<Rightarrow> (case readObject (we_maxObjectBytes env) stream of None \<Rightarrow> Inl EXTRACTION_OBJECT_TOO_LARGE | Some b \<Rightarrow> Inr b))"

definition chunk_failure :: "chunk_error \<Rightarrow> gen_error" where
  "chunk_failure e = (case e of ExtractionFailed c \<Rightarrow> GenFailure c | MissingBoundary \<Rightarrow> GenError ''Missing grapheme boundary'')"

definition as_failure :: "failure_code + 'a \<Rightarrow> gen_error + 'a" where
  "as_failure r = (case r of Inl c \<Rightarrow> Inl (GenFailure c) | Inr a \<Rightarrow> Inr a)"

text \<open>Everything before the first write.\<close>

definition document_chunks :: "worker_env \<Rightarrow> job_row \<Rightarrow> worker_state \<Rightarrow> gen_error + chunk_candidate list" where
  "document_chunks env job s =
     and_then (as_failure (readSource job (wk_course s))) (\<lambda>source.
     and_then (as_failure (read_object_bytes env source)) (\<lambda>bytes.
     and_then (as_failure (extract_segments (we_pdf env) (we_utf8 env) (we_maxObjectBytes env) source bytes)) (\<lambda>segments.
       (case chunk (ge_digest (we_gen env)) (we_segment env) (we_chunking env) (j_documentId job) (j_ownerId job) segments of
          Inl e \<Rightarrow> Inl (chunk_failure e) | Inr cs \<Rightarrow> Inr cs))))"

definition gen_job_of :: "job_row \<Rightarrow> gen_job" where
  "gen_job_of job =
     \<lparr>gj_attempt = Some (j_attempts job), gj_documentId = j_documentId job, gj_id = Some (j_id job), gj_leaseId = j_leaseId job,
      gj_ownerId = j_ownerId job,
      gj_selection = (case j_modelSelectionKind job of None \<Rightarrow> None
        | Some k \<Rightarrow> Some \<lparr>ms_customModelConfigId = j_customModelConfigId job, ms_kind = k, ms_platformModelId = j_platformModelId job\<rparr>)\<rparr>"

definition replace_of :: "job_row \<Rightarrow> string \<Rightarrow> chunk_candidate list \<Rightarrow> replace_command" where
  "replace_of job leaseId cs =
     \<lparr>rc_attempt = j_attempts job, rc_documentId = j_documentId job, rc_jobId = j_id job, rc_leaseId = leaseId,
      rc_ownerId = j_ownerId job, rc_chunks = cs\<rparr>"

definition process :: "worker_env \<Rightarrow> nat list \<Rightarrow> job_row \<Rightarrow> worker_state \<Rightarrow> ((gen_error + unit) \<times> worker_state) option" where
  "process env sched job s =
     (case present (j_leaseId job) of
        None \<Rightarrow> Some (Inl (GenFailure PROCESSING_FAILED), s)
      | Some leaseId \<Rightarrow>
          (case document_chunks env job s of
             Inl e \<Rightarrow> Some (Inl e, s)
           | Inr cs \<Rightarrow>
               (case replaceForDocument (we_batchSize env) (ge_now (we_gen env)) (replace_of job leaseId cs) (gs_ai (wk_gen s)) (wk_chunks s) of
                  None \<Rightarrow> None
                | Some (Inl _, t) \<Rightarrow> Some (Inl GenDb, s\<lparr>wk_chunks := t\<rparr>)
                | Some (Inr persisted, t) \<Rightarrow>
                    if \<not> persisted then Some (Inl (GenFailure PROCESSING_FAILED), s\<lparr>wk_chunks := t\<rparr>)
                    else map_option (\<lambda>(r, g). (r, s\<lparr>wk_chunks := t, wk_gen := g\<rparr>))
                           (generate (we_gen env) sched (gen_job_of job) (findForDocument (j_documentId job) (j_ownerId job) t) (wk_gen s)))))"

lemma replace_inactive:
  "length (filter (active_job now c) (ai_jobs db)) \<noteq> 1 \<Longrightarrow> replaceForDocument n now c db t = Some (Inr False, t)"
  by (simp add: replaceForDocument_def)

lemma process_without_lease:
  assumes "\<And>leaseId cs. length (filter (active_job (ge_now (we_gen env)) (replace_of job leaseId cs)) (ai_jobs (gs_ai (wk_gen s)))) \<noteq> 1"
  shows "\<exists>e. process env sched job s = Some (Inl e, s)"
  using replace_inactive [OF assms] by (auto simp: process_def split: option.split sum.split)

end
