(* ===== verification/Configuration.thy ===== *)
theory Configuration imports ModelAccess begin

text \<open>
  \<open>config/application-config.service.ts\<close>: the typed views of the configuration and the errors that
  refuse one.  A configuration is a map from paths to values; \<open>get\<open>T\<close>\<close> does not look at the type, so a
  value of another type than expected is passed on where the code does not check it: the readers below
  refuse it, which is the one difference.  The loaders (\<open>config/*.config.ts\<close>) always set values of the
  expected types.
\<close>

section \<open>Values\<close>

datatype cfg_value = CStr string | CNum jsnum | CBool bool

type_synonym config = "string \<Rightarrow> cfg_value option"

type_synonym 'a cfg = "string + 'a"

definition missing :: "string \<Rightarrow> string" where
  "missing path = ''Missing required configuration: '' @ path"

definition required_value :: "config \<Rightarrow> string \<Rightarrow> cfg_value cfg" where
  "required_value c path = (case c path of None \<Rightarrow> Inl (missing path) | Some v \<Rightarrow> Inr v)"

definition required_string :: "config \<Rightarrow> string \<Rightarrow> string cfg" where
  "required_string c path =
     and_then (required_value c path) (\<lambda>v. case v of CStr s \<Rightarrow> Inr s | _ \<Rightarrow> Inl (''Configuration '' @ path @ '' is no string''))"

definition required_number :: "config \<Rightarrow> string \<Rightarrow> jsnum cfg" where
  "required_number c path =
     and_then (required_value c path) (\<lambda>v. case v of CNum n \<Rightarrow> Inr n | _ \<Rightarrow> Inl (''Configuration '' @ path @ '' is no number''))"

definition required_boolean :: "config \<Rightarrow> string \<Rightarrow> bool cfg" where
  "required_boolean c path =
     and_then (required_value c path) (\<lambda>v. case v of CBool b \<Rightarrow> Inr b | _ \<Rightarrow> Inl (''Configuration '' @ path @ '' is no boolean''))"

definition optional_string :: "config \<Rightarrow> string \<Rightarrow> string option" where
  "optional_string c path = (case c path of Some (CStr s) \<Rightarrow> Some s | _ \<Rightarrow> None)"

text \<open>\<open>!value?.trim()\<close> is false.\<close>

definition non_blank :: "string option \<Rightarrow> bool" where
  "non_blank v \<longleftrightarrow> (case v of None \<Rightarrow> False | Some s \<Rightarrow> js_trim s \<noteq> [])"

definition positiveInteger :: "config \<Rightarrow> string \<Rightarrow> nat cfg" where
  "positiveInteger c path =
     and_then (required_value c path) (\<lambda>v. case v of
       CNum n \<Rightarrow> if \<not> js_is_safe_integer n \<or> js_less n (JFin 1) then Inl (''Configuration '' @ path @ '' must be a positive integer'')
                 else Inr (nat (js_to_int n))
     | _ \<Rightarrow> Inl (''Configuration '' @ path @ '' must be a positive integer''))"

definition networkPort :: "config \<Rightarrow> string \<Rightarrow> nat cfg" where
  "networkPort c path =
     and_then (required_value c path) (\<lambda>v. case v of
       CNum n \<Rightarrow> if \<not> js_is_safe_integer n \<or> js_less n (JFin 1) \<or> js_less (JFin 65535) n
                 then Inl (''Configuration '' @ path @ '' must be a valid TCP port'') else Inr (nat (js_to_int n))
     | _ \<Rightarrow> Inl (''Configuration '' @ path @ '' must be a valid TCP port''))"

definition nonBlankString :: "config \<Rightarrow> string \<Rightarrow> string cfg" where
  "nonBlankString c path =
     and_then (required_string c path) (\<lambda>s.
       if js_trim s = [] then Inl (''Configuration '' @ path @ '' must be a non-blank string'') else Inr (js_trim s))"

definition one_of :: "string \<Rightarrow> string \<Rightarrow> string \<Rightarrow> string \<Rightarrow> string cfg" where
  "one_of a b message v = (if v \<noteq> a \<and> v \<noteq> b then Inl message else Inr v)"

section \<open>Worker\<close>

datatype execution_mode = LegacyProcessing | RelayOnly

record worker_settings =
  wc_chunkInsertBatchSize :: nat
  wc_chunkMaxChars :: nat
  wc_chunkOverlapChars :: nat
  wc_chunkTargetChars :: nat
  wc_errorBackoffMs :: nat
  wc_executionMode :: execution_mode
  wc_healthHost :: string
  wc_healthPort :: nat
  wc_maxExtractableObjectBytes :: nat
  wc_maxChunksPerDocument :: nat
  wc_maxChunkTotalChars :: nat
  wc_jobBatchSize :: nat
  wc_outboxBatchSize :: nat
  wc_pollIntervalMs :: nat
  wc_quizGenerationConcurrency :: nat
  wc_stuckJobBatchSize :: nat
  wc_stuckJobTimeoutMs :: nat

definition workerExecutionMode :: "config \<Rightarrow> execution_mode cfg" where
  "workerExecutionMode c =
     and_then (required_string c ''worker.executionMode'') (\<lambda>m.
       if m = ''legacy-processing'' then Inr LegacyProcessing else if m = ''relay-only'' then Inr RelayOnly
       else Inl ''WORKER_EXECUTION_MODE must be relay-only or legacy-processing'')"

definition read_worker :: "config \<Rightarrow> worker_settings cfg" where
  "read_worker c =
     and_then (positiveInteger c ''worker.chunkInsertBatchSize'') (\<lambda>insertBatch.
     and_then (positiveInteger c ''worker.chunkMaxChars'') (\<lambda>maxChars.
     and_then (positiveInteger c ''worker.chunkOverlapChars'') (\<lambda>overlap.
     and_then (positiveInteger c ''worker.chunkTargetChars'') (\<lambda>target.
     and_then (positiveInteger c ''worker.errorBackoffMs'') (\<lambda>backoff.
     and_then (workerExecutionMode c) (\<lambda>mode.
     and_then (nonBlankString c ''worker.healthHost'') (\<lambda>host.
     and_then (networkPort c ''worker.healthPort'') (\<lambda>port.
     and_then (positiveInteger c ''worker.maxExtractableObjectBytes'') (\<lambda>maxBytes.
     and_then (positiveInteger c ''worker.maxChunksPerDocument'') (\<lambda>maxChunks.
     and_then (positiveInteger c ''worker.maxChunkTotalChars'') (\<lambda>maxTotal.
     and_then (positiveInteger c ''worker.jobBatchSize'') (\<lambda>jobBatch.
     and_then (positiveInteger c ''worker.outboxBatchSize'') (\<lambda>outboxBatch.
     and_then (positiveInteger c ''worker.pollIntervalMs'') (\<lambda>poll.
     and_then (positiveInteger c ''worker.quizGenerationConcurrency'') (\<lambda>concurrency.
     and_then (positiveInteger c ''worker.stuckJobBatchSize'') (\<lambda>stuckBatch.
     and_then (positiveInteger c ''worker.stuckJobTimeoutMs'') (\<lambda>stuckTimeout.
       Inr \<lparr>wc_chunkInsertBatchSize = insertBatch, wc_chunkMaxChars = maxChars, wc_chunkOverlapChars = overlap,
         wc_chunkTargetChars = target, wc_errorBackoffMs = backoff, wc_executionMode = mode, wc_healthHost = host,
         wc_healthPort = port, wc_maxExtractableObjectBytes = maxBytes, wc_maxChunksPerDocument = maxChunks,
         wc_maxChunkTotalChars = maxTotal, wc_jobBatchSize = jobBatch, wc_outboxBatchSize = outboxBatch,
         wc_pollIntervalMs = poll, wc_quizGenerationConcurrency = concurrency, wc_stuckJobBatchSize = stuckBatch,
         wc_stuckJobTimeoutMs = stuckTimeout\<rparr>)))))))))))))))))"

definition worker_config :: "config \<Rightarrow> worker_settings cfg" where
  "worker_config c =
     and_then (read_worker c) (\<lambda>w.
       if wc_chunkMaxChars w < wc_chunkTargetChars w then Inl ''WORKER_CHUNK_TARGET_CHARS must not exceed WORKER_CHUNK_MAX_CHARS''
       else if wc_chunkMaxChars w \<le> wc_chunkOverlapChars w then Inl ''WORKER_CHUNK_OVERLAP_CHARS must be below WORKER_CHUNK_MAX_CHARS''
       else Inr w)"

section \<open>Database and storage\<close>

record database_settings =
  db_host :: string
  db_name :: string
  db_password :: string
  db_port :: jsnum
  db_sslCa :: "string option"
  db_user :: string

text \<open>The certificate of \<open>verify-ca\<close>, or \<^const>\<open>None\<close> for \<open>disabled\<close>.\<close>

definition database_ssl :: "config \<Rightarrow> string option cfg" where
  "database_ssl c =
     and_then (required_string c ''database.ssl.mode'') (\<lambda>m.
     and_then (one_of ''disabled'' ''verify-ca'' ''DB_SSL_MODE must be disabled or verify-ca'' m) (\<lambda>mode.
       if mode = ''disabled'' then Inr None
       else case optional_string c ''database.ssl.ca'' of
              Some ca \<Rightarrow> if js_trim ca = [] then Inl ''DB_SSL_CA must be a non-blank string when DB_SSL_MODE is verify-ca'' else Inr (Some ca)
            | None \<Rightarrow> Inl ''DB_SSL_CA must be a non-blank string when DB_SSL_MODE is verify-ca''))"

definition database_config :: "config \<Rightarrow> database_settings cfg" where
  "database_config c =
     and_then (database_ssl c) (\<lambda>ssl.
     and_then (required_string c ''app.env'') (\<lambda>environment.
       if environment = ''production'' \<and> ssl = None then Inl ''DB_SSL_MODE must be verify-ca in production''
       else
         and_then (required_string c ''database.host'') (\<lambda>host.
         and_then (required_string c ''database.name'') (\<lambda>name.
         and_then (required_string c ''database.password'') (\<lambda>password.
         and_then (required_number c ''database.port'') (\<lambda>port.
         and_then (required_string c ''database.user'') (\<lambda>user.
           Inr \<lparr>db_host = host, db_name = name, db_password = password, db_port = port, db_sslCa = ssl, db_user = user\<rparr>)))))))"

record storage_settings =
  sg_accessKey :: string
  sg_bucket :: string
  sg_endpoint :: string
  sg_port :: jsnum
  sg_presignExpiry :: jsnum
  sg_region :: string
  sg_secretKey :: string
  sg_useSSL :: bool

definition assertProductionStorage :: "config \<Rightarrow> storage_settings \<Rightarrow> unit cfg" where
  "assertProductionStorage c st =
     and_then (required_string c ''app.env'') (\<lambda>environment.
       if environment \<noteq> ''production'' then Inr ()
       else if \<not> sg_useSSL st then Inl ''OBJECT_STORAGE_USE_SSL must be true in production''
       else if sg_accessKey st = ''minioadmin'' \<or> sg_secretKey st = ''minioadmin''
         then Inl ''Default MinIO credentials are forbidden in production''
       else Inr ())"

definition storage_config :: "config \<Rightarrow> storage_settings cfg" where
  "storage_config c =
     and_then (required_string c ''storage.accessKey'') (\<lambda>accessKey.
     and_then (required_string c ''storage.bucket'') (\<lambda>bucket.
     and_then (required_string c ''storage.endpoint'') (\<lambda>endpoint.
     and_then (required_number c ''storage.port'') (\<lambda>port.
     and_then (required_number c ''storage.presignExpiry'') (\<lambda>expiry.
     and_then (required_string c ''storage.region'') (\<lambda>region.
     and_then (required_string c ''storage.secretKey'') (\<lambda>secretKey.
     and_then (required_boolean c ''storage.useSSL'') (\<lambda>useSSL.
       let st = \<lparr>sg_accessKey = accessKey, sg_bucket = bucket, sg_endpoint = endpoint, sg_port = port, sg_presignExpiry = expiry,
                 sg_region = region, sg_secretKey = secretKey, sg_useSSL = useSSL\<rparr>
       in and_then (assertProductionStorage c st) (\<lambda>_. Inr st)))))))))"

section \<open>Models\<close>

record openai_general =
  og_apiKey :: "string option"
  og_baseUrl :: "string option"
  og_capabilityVersion :: "string option"
  og_model :: "string option"
  og_requestTimeoutMs :: nat
  og_structuredOutputMode :: "string option"
  og_transport :: "string option"

definition openAiGeneral :: "config \<Rightarrow> openai_general cfg" where
  "openAiGeneral c =
     and_then (positiveInteger c ''ai.openai.requestTimeoutMs'') (\<lambda>timeout.
       Inr \<lparr>og_apiKey = optional_string c ''ai.openai.apiKey'', og_baseUrl = optional_string c ''ai.openai.baseUrl'',
         og_capabilityVersion = optional_string c ''ai.openai.capabilityVersion'', og_model = optional_string c ''ai.openai.model'',
         og_requestTimeoutMs = timeout, og_structuredOutputMode = optional_string c ''ai.openai.structuredOutputMode'',
         og_transport = optional_string c ''ai.openai.transport''\<rparr>)"

definition llm_provider_name :: "config \<Rightarrow> string cfg" where
  "llm_provider_name c =
     and_then (required_string c ''ai.provider'') (one_of ''fake'' ''openai'' ''AI_LLM_PROVIDER must be fake or openai'')"

text \<open>\<open>new URL\<close> is the parameter \<open>parse\<close>; \<open>replace(/\\/$/, '')\<close> takes off one slash at the end.\<close>

definition strip_base_slash :: "string \<Rightarrow> string" where
  "strip_base_slash s = (if s \<noteq> [] \<and> last s = CHR ''/'' then butlast s else s)"

definition canonicalOpenAiBaseUrl :: "(string \<Rightarrow> url_parts option) \<Rightarrow> string \<Rightarrow> string cfg" where
  "canonicalOpenAiBaseUrl parse v =
     (case parse v of
        None \<Rightarrow> Inl ''OPENAI_BASE_URL must be an absolute HTTP or HTTPS URL''
      | Some u \<Rightarrow>
          if url_protocol u \<noteq> ''http:'' \<and> url_protocol u \<noteq> ''https:'' then Inl ''OPENAI_BASE_URL must be an absolute HTTP or HTTPS URL''
          else if url_username u \<noteq> [] \<or> url_password u \<noteq> [] \<or> url_search u \<noteq> [] \<or> url_hash u \<noteq> []
            then Inl ''OPENAI_BASE_URL must not contain credentials, query parameters, or a fragment''
          else Inr (strip_base_slash (url_toString u)))"

record openai_settings =
  oa_apiKey :: string
  oa_baseUrl :: string
  oa_capabilityVersion :: string
  oa_model :: string
  oa_requestTimeoutMs :: nat
  oa_structuredOutputMode :: string
  oa_transport :: string

datatype llm_provider_settings = FakeProvider | OpenAiProvider openai_settings

definition complete_openai :: "(string \<Rightarrow> url_parts option) \<Rightarrow> openai_general \<Rightarrow> llm_provider_settings cfg" where
  "complete_openai parse g =
     (case (og_apiKey g, og_baseUrl g, og_capabilityVersion g, og_model g, og_structuredOutputMode g, og_transport g) of
        (Some apiKey, Some baseUrl, Some capability, Some model, Some mode, Some transport) \<Rightarrow>
          and_then (one_of ''chat-completions-json-v1'' ''responses-json-v1'' ''OPENAI_CAPABILITY_VERSION must be responses-json-v1 or chat-completions-json-v1'' capability) (\<lambda>cap.
          and_then (one_of ''chat-completions'' ''responses'' ''OPENAI_TRANSPORT must be responses or chat-completions'' transport) (\<lambda>tr.
            if cap = ''responses-json-v1'' \<and> tr \<noteq> ''responses'' \<or> cap = ''chat-completions-json-v1'' \<and> tr \<noteq> ''chat-completions''
            then Inl ''OPENAI_CAPABILITY_VERSION must match OPENAI_TRANSPORT''
            else
              and_then (canonicalOpenAiBaseUrl parse baseUrl) (\<lambda>url.
              and_then (one_of ''json-object'' ''json-schema-strict'' ''OPENAI_STRUCTURED_OUTPUT_MODE must be json-schema-strict or json-object'' mode) (\<lambda>m.
                Inr (OpenAiProvider \<lparr>oa_apiKey = apiKey, oa_baseUrl = url, oa_capabilityVersion = cap, oa_model = model,
                  oa_requestTimeoutMs = og_requestTimeoutMs g, oa_structuredOutputMode = m, oa_transport = tr\<rparr>)))))
      | _ \<Rightarrow> Inl ''OpenAI-compatible provider configuration is incomplete'')"

definition llm_provider_config :: "(string \<Rightarrow> url_parts option) \<Rightarrow> config \<Rightarrow> llm_provider_settings cfg" where
  "llm_provider_config parse c =
     and_then (llm_provider_name c) (\<lambda>provider.
     and_then (required_string c ''app.env'') (\<lambda>environment.
       if environment = ''production'' \<and> provider \<noteq> ''openai'' then Inl ''AI_LLM_PROVIDER must be openai in production''
       else if provider = ''fake'' then Inr FakeProvider
       else
         and_then (openAiGeneral c) (\<lambda>g.
           if \<not> non_blank (og_apiKey g) \<or> \<not> non_blank (og_baseUrl g) \<or> \<not> non_blank (og_capabilityVersion g)
              \<or> \<not> non_blank (og_model g) \<or> \<not> non_blank (og_structuredOutputMode g) \<or> \<not> non_blank (og_transport g)
           then Inl ''OpenAI-compatible provider configuration is incomplete''
           else complete_openai parse g)))"

text \<open>The catalog and the plans are structured values; the model takes them as they are, if configured.\<close>

record plan_balances =
  pb_free :: jsnum
  pb_paid :: jsnum

record ai_settings =
  as_encryptionKey :: "string option"
  as_encryptionMode :: string
  as_openai :: openai_general
  as_provider :: string
  as_plans :: plan_balances
  as_platformModels :: "plan_model list"

definition default_platform_models :: "openai_general \<Rightarrow> plan_model list" where
  "default_platform_models g =
     [\<lparr>pl_creditPerInputToken = 1, pl_creditPerOutputToken = 2, pl_id = ''platform-default'', pl_label = ''Fast platform model'',
       pl_model = (case og_model g of None \<Rightarrow> ''gpt-4.1-mini'' | Some m \<Rightarrow> m), pl_planIds = [''free'', ''paid'']\<rparr>]"

definition valid_catalog :: "plan_model list \<Rightarrow> bool" where
  "valid_catalog ms \<longleftrightarrow>
     ms \<noteq> [] \<and> \<not> list_ex (\<lambda>m. js_trim (pl_id m) = [] \<or> js_trim (pl_model m) = [] \<or> pl_creditPerInputToken m < 0 \<or> pl_creditPerOutputToken m < 0) ms"

definition valid_balance :: "jsnum \<Rightarrow> bool" where
  "valid_balance b \<longleftrightarrow> js_is_safe_integer b \<and> \<not> js_less b (JFin 0)"

definition ai_config :: "plan_model list option \<Rightarrow> plan_balances option \<Rightarrow> config \<Rightarrow> ai_settings cfg" where
  "ai_config catalog plans c =
     and_then (llm_provider_name c) (\<lambda>provider.
     and_then (openAiGeneral c) (\<lambda>openai.
       let mode = (case optional_string c ''ai.credentialEncryption.mode'' of None \<Rightarrow> ''local'' | Some m \<Rightarrow> m);
           models = (case catalog of None \<Rightarrow> default_platform_models openai | Some ms \<Rightarrow> ms);
           balances = (case plans of None \<Rightarrow> \<lparr>pb_free = JFin 10000, pb_paid = JFin 100000\<rparr> | Some p \<Rightarrow> p)
       in if mode \<noteq> ''local'' \<and> mode \<noteq> ''kms'' then Inl ''AI_CREDENTIAL_ENCRYPTION_MODE must be local or kms''
          else if \<not> valid_catalog models then Inl ''AI platform model catalog is invalid''
          else if \<not> valid_balance (pb_free balances) \<or> \<not> valid_balance (pb_paid balances) then Inl ''AI plan configuration is invalid''
          else Inr \<lparr>as_encryptionKey = optional_string c ''ai.credentialEncryption.key'', as_encryptionMode = mode, as_openai = openai,
                 as_provider = provider, as_plans = balances, as_platformModels = models\<rparr>))"

section \<open>Application\<close>

record mtls_settings =
  mt_caPath :: "string option"
  mt_certPath :: "string option"
  mt_enabled :: bool
  mt_expectedClientSpiffeUri :: "string option"
  mt_keyPath :: "string option"
  mt_port :: jsnum

record application_settings =
  ap_environment :: string
  ap_internalMtls :: mtls_settings
  ap_port :: jsnum
  ap_swaggerEnabled :: bool
  ap_swaggerPassword :: "string option"
  ap_swaggerUsername :: "string option"

definition is_lower_alnum :: "char \<Rightarrow> bool" where
  "is_lower_alnum c \<longleftrightarrow> (let n = of_char c :: nat in 97 \<le> n \<and> n \<le> 122 \<or> 48 \<le> n \<and> n \<le> 57)"

text \<open>\<open>[a-z0-9]([-a-z0-9]*[a-z0-9])?\<close>, the name of a namespace.\<close>

definition is_namespace :: "string \<Rightarrow> bool" where
  "is_namespace s \<longleftrightarrow>
     s \<noteq> [] \<and> is_lower_alnum (hd s) \<and> is_lower_alnum (last s) \<and> list_all (\<lambda>c. is_lower_alnum c \<or> c = CHR ''-'') s"

definition spiffe_prefix :: string where
  "spiffe_prefix = ''spiffe://learning-platform.local/ns/''"

definition spiffe_suffix :: string where
  "spiffe_suffix = ''/sa/go-worker''"

definition is_worker_spiffe_uri :: "string \<Rightarrow> bool" where
  "is_worker_spiffe_uri s \<longleftrightarrow>
     starts_with spiffe_prefix s \<and> ends_with spiffe_suffix (drop (length spiffe_prefix) s) \<and>
     is_namespace (take (length s - length spiffe_prefix - length spiffe_suffix) (drop (length spiffe_prefix) s))"

definition mtls_config :: "config \<Rightarrow> mtls_settings cfg" where
  "mtls_config c =
     (let ca = optional_string c ''app.internalMtls.caPath'';
          cert = optional_string c ''app.internalMtls.certPath'';
          uri = optional_string c ''app.internalMtls.expectedClientSpiffeUri'';
          key = optional_string c ''app.internalMtls.keyPath'';
          port = (case c ''app.internalMtls.port'' of Some (CNum n) \<Rightarrow> n | None \<Rightarrow> JFin 3443 | _ \<Rightarrow> JNaN);
          n = length (filter non_blank [ca, cert, key])
      in if n \<noteq> 0 \<and> n \<noteq> 3
         then Inl ''INTERNAL_MTLS_CA_PATH, INTERNAL_MTLS_CERT_PATH, and INTERNAL_MTLS_KEY_PATH must be configured together''
         else if n = 3 \<and> \<not> is_worker_spiffe_uri (case uri of None \<Rightarrow> [] | Some u \<Rightarrow> u)
         then Inl ''INTERNAL_MTLS_EXPECTED_CLIENT_SPIFFE_URI must be a valid Go worker SPIFFE URI''
         else if \<not> js_is_integer port \<or> js_less port (JFin 1) \<or> js_less (JFin 65535) port
         then Inl ''INTERNAL_MTLS_PORT must be a valid TCP port''
         else Inr \<lparr>mt_caPath = ca, mt_certPath = cert, mt_enabled = (n = 3), mt_expectedClientSpiffeUri = uri, mt_keyPath = key, mt_port = port\<rparr>)"

definition application_config :: "config \<Rightarrow> application_settings cfg" where
  "application_config c =
     and_then (mtls_config c) (\<lambda>mtls.
     and_then (required_string c ''app.env'') (\<lambda>environment.
     and_then (required_number c ''app.port'') (\<lambda>port.
     and_then (required_boolean c ''app.swagger.enabled'') (\<lambda>swagger.
       Inr \<lparr>ap_environment = environment, ap_internalMtls = mtls, ap_port = port, ap_swaggerEnabled = swagger,
         ap_swaggerPassword = optional_string c ''app.swagger.password'', ap_swaggerUsername = optional_string c ''app.swagger.username''\<rparr>))))"

section \<open>What accepted settings guarantee\<close>

lemma positiveInteger_pos:
  assumes "positiveInteger c path = Inr n"
  shows "0 < n" and "int n \<le> max_safe_integer"
proof -
  from assms obtain v where v: "required_value c path = Inr v" by (auto simp: positiveInteger_def and_then_eq_Inr)
  with assms obtain m where m: "v = CNum m" "js_is_safe_integer m" "\<not> js_less m (JFin 1)" "n = nat (js_to_int m)"
    by (cases v) (auto simp: positiveInteger_def split: if_splits)
  then obtain r where r: "m = JFin r" by (cases m) auto
  with m have "1 \<le> \<lfloor>r\<rfloor>" "n = nat \<lfloor>r\<rfloor>" "\<bar>\<lfloor>r\<rfloor>\<bar> \<le> max_safe_integer" by (auto simp: le_floor_iff)
  then show "0 < n" "int n \<le> max_safe_integer" by simp_all
qed

lemma networkPort_range:
  assumes "networkPort c path = Inr n"
  shows "1 \<le> n \<and> n \<le> 65535"
proof -
  from assms obtain v where v: "required_value c path = Inr v" by (auto simp: networkPort_def and_then_eq_Inr)
  with assms obtain m where m: "v = CNum m" "js_is_safe_integer m" "\<not> js_less m (JFin 1)" "\<not> js_less (JFin 65535) m" "n = nat (js_to_int m)"
    by (cases v) (auto simp: networkPort_def split: if_splits)
  then obtain r where r: "m = JFin r" by (cases m) auto
  define z where "z = \<lfloor>r\<rfloor>"
  have "1 \<le> z" "z \<le> 65535" "n = nat z" using m r by (auto simp: z_def le_floor_iff floor_le_iff)
  then have "int n = z" by simp
  with \<open>1 \<le> z\<close> \<open>z \<le> 65535\<close> show ?thesis by linarith
qed

lemma worker_config_accepted:
  assumes "worker_config c = Inr w"
  shows "0 < wc_chunkInsertBatchSize w" and "wc_chunkTargetChars w \<le> wc_chunkMaxChars w" and "wc_chunkOverlapChars w < wc_chunkMaxChars w"
    and "0 < wc_quizGenerationConcurrency w" and "0 < wc_outboxBatchSize w" and "0 < wc_jobBatchSize w"
    and "1 \<le> wc_healthPort w" and "wc_healthPort w \<le> 65535" and "0 < wc_chunkTargetChars w"
proof -
  have r: "read_worker c = Inr w" and le: "wc_chunkTargetChars w \<le> wc_chunkMaxChars w" "wc_chunkOverlapChars w < wc_chunkMaxChars w"
    using assms by (auto simp: worker_config_def and_then_eq_Inr split: if_splits)
  then show "wc_chunkTargetChars w \<le> wc_chunkMaxChars w" "wc_chunkOverlapChars w < wc_chunkMaxChars w" by simp_all
  note fields = r [unfolded read_worker_def and_then_eq_Inr]
  have p: "positiveInteger c ''worker.chunkInsertBatchSize'' = Inr (wc_chunkInsertBatchSize w)"
    "positiveInteger c ''worker.quizGenerationConcurrency'' = Inr (wc_quizGenerationConcurrency w)"
    "positiveInteger c ''worker.outboxBatchSize'' = Inr (wc_outboxBatchSize w)"
    "positiveInteger c ''worker.jobBatchSize'' = Inr (wc_jobBatchSize w)"
    "positiveInteger c ''worker.chunkTargetChars'' = Inr (wc_chunkTargetChars w)"
    "networkPort c ''worker.healthPort'' = Inr (wc_healthPort w)"
    using fields by auto
  show "0 < wc_chunkInsertBatchSize w" using p(1) by (rule positiveInteger_pos)
  show "0 < wc_quizGenerationConcurrency w" using p(2) by (rule positiveInteger_pos)
  show "0 < wc_outboxBatchSize w" using p(3) by (rule positiveInteger_pos)
  show "0 < wc_jobBatchSize w" using p(4) by (rule positiveInteger_pos)
  show "0 < wc_chunkTargetChars w" using p(5) by (rule positiveInteger_pos)
  show "1 \<le> wc_healthPort w" "wc_healthPort w \<le> 65535" using networkPort_range [OF p(6)] by simp_all
qed

end
