(* ===== verification/Worker.thy ===== *)
theory Worker imports JobProcessor Configuration ReturnRelay "HOL-Library.Countable" begin

text \<open>
  The worker process: one cycle of \<open>worker/worker-runner.service.ts\<close> and of
  \<open>worker/legacy-worker-runner.service.ts\<close>, and what an accepted configuration gives the processing of
  a job.
\<close>

section \<open>Cycles\<close>

text \<open>The answer is the delay before the next cycle.\<close>

definition deliver_results ::
  "worker_settings \<Rightarrow> digest \<Rightarrow> (string \<Rightarrow> string \<Rightarrow> int) \<Rightarrow> int \<Rightarrow> return_state \<Rightarrow> nat \<times> return_state" where
  "deliver_results w dg lc now s =
     (case return_pump dg lc now (wc_outboxBatchSize w) s of
        (Inl _, _, s') \<Rightarrow> (wc_errorBackoffMs w, s') | (Inr _, _, s') \<Rightarrow> (wc_pollIntervalMs w, s'))"

definition worker_cycle ::
  "worker_settings \<Rightarrow> digest \<Rightarrow> (string \<Rightarrow> string \<Rightarrow> int) \<Rightarrow> (nat \<Rightarrow> string) \<Rightarrow> int \<Rightarrow> return_state \<Rightarrow> nat \<times> return_state" where
  "worker_cycle w dg lc ids now s =
     (case forward_pump (ingest dg ids now) now (wc_outboxBatchSize w) (rs_course s, rs_ai s) of
        (Inl _, c, a) \<Rightarrow> (wc_errorBackoffMs w, s\<lparr>rs_course := c, rs_ai := a\<rparr>)
      | (Inr _, c, a) \<Rightarrow> deliver_results w dg lc now (s\<lparr>rs_course := c, rs_ai := a\<rparr>))"

text \<open>\<open>JobPoller.tick\<close> claims nothing and the loop over it ends at once.\<close>

definition tick :: bool where
  "tick = False"

fun poll_jobs :: "nat \<Rightarrow> nat" where
  "poll_jobs 0 = 0"
| "poll_jobs (Suc n) = (if tick then Suc (poll_jobs n) else 0)"

definition legacy_cycle ::
  "worker_settings \<Rightarrow> digest \<Rightarrow> (string \<Rightarrow> string \<Rightarrow> int) \<Rightarrow> (nat \<Rightarrow> string) \<Rightarrow> int \<Rightarrow> return_state \<Rightarrow> nat \<times> return_state" where
  "legacy_cycle w dg lc ids now s =
     (case forward_pump (ingest dg ids now) now (wc_outboxBatchSize w) (rs_course s, rs_ai s) of
        (Inl _, c, a) \<Rightarrow> (wc_errorBackoffMs w, s\<lparr>rs_course := c, rs_ai := a\<rparr>)
      | (Inr _, c, a) \<Rightarrow>
          let claimed = poll_jobs (wc_jobBatchSize w)
          in deliver_results w dg lc now
               (s\<lparr>rs_course := c, rs_ai := snd (requeueExpiredLeases (wc_stuckJobBatchSize w) now a)\<rparr>))"

section \<open>A configured worker\<close>

definition chunking_of :: "worker_settings \<Rightarrow> chunk_settings" where
  "chunking_of w =
     \<lparr>st_chunkMaxChars = wc_chunkMaxChars w, st_chunkOverlapChars = wc_chunkOverlapChars w, st_chunkTargetChars = wc_chunkTargetChars w,
      st_maxChunksPerDocument = wc_maxChunksPerDocument w, st_maxChunkTotalChars = wc_maxChunkTotalChars w\<rparr>"

definition configured :: "worker_settings \<Rightarrow> worker_env \<Rightarrow> bool" where
  "configured w env \<longleftrightarrow>
     we_chunking env = chunking_of w \<and> we_maxObjectBytes env = wc_maxExtractableObjectBytes w \<and>
     we_batchSize env = wc_chunkInsertBatchSize w \<and> ge_concurrency (we_gen env) = wc_quizGenerationConcurrency w"

lemma insert_batches_returns: "0 < n \<Longrightarrow> insert_batches n rows t \<noteq> None"
proof (induction rows arbitrary: t rule: length_induct)
  case (1 rows)
  show ?case
  proof (cases "rows = []")
    case False
    with 1 have "insert_batches n (drop n rows) t' \<noteq> None" for t' by simp
    with False show ?thesis by (subst insert_batches.simps) (auto split: sum.split)
  qed (subst insert_batches.simps, simp)
qed

lemma replace_returns: "0 < n \<Longrightarrow> replaceForDocument n now c db t \<noteq> None"
  using insert_batches_returns by (simp add: replaceForDocument_def del: not_None_eq)

lemma insert_batches_stored:
  assumes "0 < n"
  shows "insert_batches n rows t = Some (Inr t') \<Longrightarrow> t' = t @ rows"
proof (induction rows arbitrary: t rule: length_induct)
  case (1 rows)
  show ?case
  proof (cases "rows = []")
    case True
    then show ?thesis using 1(2) by (simp add: insert_batches.simps)
  next
    case False
    let ?a = "take n rows" and ?b = "drop n rows"
    from False 1(2) have "insert_batches n ?b (t @ ?a) = Some (Inr t')"
      by (subst (asm) insert_batches.simps) (simp add: insert_chunks_def split: if_splits)
    moreover have "length ?b < length rows" using False assms by simp
    ultimately have "t' = (t @ ?a) @ ?b" using 1(1) by blast
    then show ?thesis by simp
  qed
qed

text \<open>The replacement of the chunks has three outcomes: it is refused, it fails and changes nothing, or it is done.\<close>

lemma replace_outcomes:
  assumes "0 < n" and "replaceForDocument n now c db t = Some (r, t')"
  shows "(r = Inr False \<or> (\<exists>e. r = Inl e)) \<and> t' = t
    \<or> r = Inr True \<and> (\<exists>j\<in>set (ai_jobs db). active_job now c j) \<and>
      t' = filter (\<lambda>x. \<not> of_document (rc_documentId c) (rc_ownerId c) x) t @ map (chunk_row_of (rc_documentId c) (rc_ownerId c)) (rc_chunks c)"
proof (cases "length (filter (active_job now c) (ai_jobs db)) = 1")
  case False
  then show ?thesis using assms(2) by (simp add: replaceForDocument_def)
next
  case True
  then have "filter (active_job now c) (ai_jobs db) \<noteq> []" by auto
  then have j: "\<exists>j\<in>set (ai_jobs db). active_job now c j" by (auto simp: filter_empty_conv)
  from True assms(2) obtain x where x: "insert_batches n (map (chunk_row_of (rc_documentId c) (rc_ownerId c)) (rc_chunks c))
      (filter (\<lambda>r. \<not> of_document (rc_documentId c) (rc_ownerId c) r) t) = Some x"
    and rt: "(r, t') = (case x of Inl e \<Rightarrow> (Inl e, t) | Inr t' \<Rightarrow> (Inr True, t'))"
    by (auto simp: replaceForDocument_def)
  show ?thesis
  proof (cases x)
    case (Inr t1)
    with insert_batches_stored [OF assms(1)] x rt j show ?thesis by simp
  qed (use rt in simp)
qed

lemma process_returns:
  assumes "0 < we_batchSize env" and fair: "\<And>n. fair_order n next'"
  shows "\<exists>m. \<forall>k\<ge>m. process env (map next' [0..<k]) job s \<noteq> None"
proof (cases "present (j_leaseId job)")
  case None
  then show ?thesis by (simp add: process_def)
next
  case (Some l)
  show ?thesis
  proof (cases "document_chunks env job s")
    case (Inl e)
    with Some show ?thesis by (simp add: process_def)
  next
    case (Inr cs)
    let ?rep = "replaceForDocument (we_batchSize env) (ge_now (we_gen env)) (replace_of job l cs) (gs_ai (wk_gen s)) (wk_chunks s)"
    obtain r t where rep: "?rep = Some (r, t)" using replace_returns [OF assms(1)] by (cases ?rep) (simp_all add: split_paired_all del: not_None_eq)
    let ?found = "findForDocument (j_documentId job) (j_ownerId job) t"
    from generate_returns_fair [OF fair] obtain m where
      m: "\<forall>k\<ge>m. generate (we_gen env) (map next' [0..<k]) (gen_job_of job) ?found (wk_gen s) \<noteq> None" by blast
    have "process env (map next' [0..<k]) job s \<noteq> None" if "m \<le> k" for k
      using Some Inr rep m that by (auto simp: process_def split: sum.split)
    then show ?thesis by blast
  qed
qed

lemma document_chunks_errors:
  assumes "segmentation (we_segment env)" and "st_chunkTargetChars (we_chunking env) \<le> st_chunkMaxChars (we_chunking env)"
    and "document_chunks env job s = Inl e"
  shows "\<exists>c. e = GenFailure c"
proof -
  have "chunk dg (we_segment env) (we_chunking env) d w segs = Inl x \<Longrightarrow> \<exists>c. chunk_failure x = GenFailure c" for dg d w segs x
    using chunk_segments_eq [OF assms(1,2), of "[]" 0 dg d w segs]
    by (auto simp: chunk_def within_limits_def and_then_eq_Inl chunk_failure_def split: if_splits)
  then show ?thesis
    using assms(3) by (auto simp: document_chunks_def and_then_eq_Inl as_failure_def split: sum.splits)
qed

lemma document_chunks_ordered:
  assumes "segmentation (we_segment env)" and "st_chunkTargetChars (we_chunking env) \<le> st_chunkMaxChars (we_chunking env)"
    and "document_chunks env job s = Inr cs"
  shows "sorted (map ck_chunkIndex cs)"
proof -
  have from': "map ck_chunkIndex (numbered dg d w n ps) = [n..<n + length ps]" for dg d w n ps
  proof (induction ps arbitrary: n)
    case (Cons p ps)
    have "[n..<n + length (p # ps)] = n # [Suc n..<Suc n + length ps]" by (simp add: upt_rec del: upt_Suc)
    with Cons [of "Suc n"] show ?case by (simp add: chunk_of_def Let_def del: upt_Suc)
  qed simp
  have idx: "map ck_chunkIndex (numbered dg d w 0 ps) = [0..<length ps]" for dg d w ps
    using from' [of dg d w 0 ps] by simp
  have "chunk dg (we_segment env) (we_chunking env) d w segs = Inr cs \<Longrightarrow> sorted (map ck_chunkIndex cs)" for dg d w segs
    using chunk_segments_eq [OF assms(1,2), of "[]" 0 dg d w segs]
    by (auto simp: chunk_def within_limits_def and_then_eq_Inr idx split: if_splits)
  then show ?thesis
    using assms(3) unfolding document_chunks_def and_then_eq_Inr by (elim exE conjE) (auto split: sum.split_asm)
qed

text \<open>C38 An accepted configuration makes every job end, in one of two ways.  A worker that runs with settings the
  configuration service accepted returns from processing a job for every order in which the calls of the model complete,
  if none of them is forgotten.  Either it has then changed nothing, and the error carries a failure code, or is the
  database's failure to store the chunks of a document that could be read and cut; or the job was running under its lease
  and for its document, the chunks of the document are exactly the ones just cut, every other chunk is as before, and the
  outcome is the one of generating the quiz from these chunks, whose errors need not carry a code.\<close>

theorem configured_worker_ends:
  assumes "worker_config c = Inr w" and "configured w env" and "segmentation (we_segment env)"
  shows "(\<forall>next'. (\<forall>n. fair_order n next') \<longrightarrow> (\<exists>m. \<forall>k\<ge>m. process env (map next' [0..<k]) job s \<noteq> None))
    \<and> (\<forall>sched r s'. process env sched job s = Some (r, s') \<longrightarrow>
        s' = s \<and> ((\<exists>code. r = Inl (GenFailure code)) \<or> r = Inl GenDb \<and> (\<exists>cs. document_chunks env job s = Inr cs))
      \<or> (\<exists>l cs j. present (j_leaseId job) = Some l \<and> document_chunks env job s = Inr cs
          \<and> j \<in> set (ai_jobs (gs_ai (wk_gen s))) \<and> active_job (ge_now (we_gen env)) (replace_of job l cs) j
          \<and> wk_chunks s' = filter (\<lambda>x. \<not> of_document (j_documentId job) (j_ownerId job) x) (wk_chunks s)
              @ map (chunk_row_of (j_documentId job) (j_ownerId job)) cs
          \<and> wk_course s' = wk_course s
          \<and> generate (we_gen env) sched (gen_job_of job) cs (wk_gen s) = Some (r, wk_gen s')))"
proof (intro conjI allI impI)
  note W = worker_config_accepted [OF assms(1)]
  have st: "st_chunkTargetChars (we_chunking env) \<le> st_chunkMaxChars (we_chunking env)"
    using assms(2) W(2) by (simp add: configured_def chunking_of_def)
  have n: "0 < we_batchSize env" using assms(2) W(1) by (simp add: configured_def)
  show "\<exists>m. \<forall>k\<ge>m. process env (map next' [0..<k]) job s \<noteq> None" if "\<forall>n. fair_order n next'" for next'
    using that by (intro process_returns [OF n]) blast
  fix sched r s'
  assume p: "process env sched job s = Some (r, s')"
  let ?refused = "s' = s \<and> ((\<exists>code. r = Inl (GenFailure code)) \<or> r = Inl GenDb \<and> (\<exists>cs. document_chunks env job s = Inr cs))"
  show "?refused \<or> (\<exists>l cs j. present (j_leaseId job) = Some l \<and> document_chunks env job s = Inr cs
          \<and> j \<in> set (ai_jobs (gs_ai (wk_gen s))) \<and> active_job (ge_now (we_gen env)) (replace_of job l cs) j
          \<and> wk_chunks s' = filter (\<lambda>x. \<not> of_document (j_documentId job) (j_ownerId job) x) (wk_chunks s)
              @ map (chunk_row_of (j_documentId job) (j_ownerId job)) cs
          \<and> wk_course s' = wk_course s
          \<and> generate (we_gen env) sched (gen_job_of job) cs (wk_gen s) = Some (r, wk_gen s'))"
  proof (cases "present (j_leaseId job)")
    case None
    then have ?refused using p by (auto simp: process_def)
    then show ?thesis ..
  next
    case l: (Some l)
    show ?thesis
    proof (cases "document_chunks env job s")
      case (Inl e)
      then have ?refused using p l document_chunks_errors [OF assms(3) st Inl] by (auto simp: process_def)
      then show ?thesis ..
    next
      case cs: (Inr cs)
      let ?rep = "replaceForDocument (we_batchSize env) (ge_now (we_gen env)) (replace_of job l cs) (gs_ai (wk_gen s)) (wk_chunks s)"
      obtain x t where rep: "?rep = Some (x, t)" using replace_returns [OF n] by (cases ?rep) (simp_all add: split_paired_all del: not_None_eq)
      have of_replace: "rc_documentId (replace_of job l cs) = j_documentId job" "rc_ownerId (replace_of job l cs) = j_ownerId job"
        "rc_chunks (replace_of job l cs) = cs" by (simp_all add: replace_of_def)
      from replace_outcomes [OF n rep, unfolded of_replace] consider
        (kept) "x = Inr False \<or> (\<exists>e. x = Inl e)" "t = wk_chunks s"
        | (replaced) j where "x = Inr True" "j \<in> set (ai_jobs (gs_ai (wk_gen s)))"
            "active_job (ge_now (we_gen env)) (replace_of job l cs) j"
            "t = filter (\<lambda>x. \<not> of_document (j_documentId job) (j_ownerId job) x) (wk_chunks s)
              @ map (chunk_row_of (j_documentId job) (j_ownerId job)) cs" by blast
      then show ?thesis
      proof cases
        case kept
        then have ?refused using p l cs rep by (auto simp: process_def)
        then show ?thesis ..
      next
        case replaced
        have "findForDocument (j_documentId job) (j_ownerId job) t = cs"
          unfolding replaced(4) by (rule find_own [OF document_chunks_ordered [OF assms(3) st cs]])
        with p l cs rep replaced(1) obtain g where
          g: "generate (we_gen env) sched (gen_job_of job) cs (wk_gen s) = Some (r, g)" "s' = s\<lparr>wk_chunks := t, wk_gen := g\<rparr>"
          by (auto simp: process_def)
        show ?thesis
          by (intro disjI2 exI [of _ l] exI [of _ cs] exI [of _ j] conjI l cs replaced(2,3))
            (simp_all add: g replaced(4))
      qed
    qed
  qed
qed

text \<open>The values \<open>config/worker.config.ts\<close> sets when the environment sets none.\<close>

definition default_worker_values :: config where
  "default_worker_values = map_of
     [(''worker.chunkInsertBatchSize'', CNum (JFin 500)), (''worker.chunkMaxChars'', CNum (JFin 1500)),
      (''worker.chunkOverlapChars'', CNum (JFin 150)), (''worker.chunkTargetChars'', CNum (JFin 1200)),
      (''worker.errorBackoffMs'', CNum (JFin 5000)), (''worker.executionMode'', CStr ''legacy-processing''),
      (''worker.healthHost'', CStr ''0.0.0.0''), (''worker.healthPort'', CNum (JFin 3403)),
      (''worker.maxExtractableObjectBytes'', CNum (JFin 20971520)), (''worker.maxChunksPerDocument'', CNum (JFin 20000)),
      (''worker.maxChunkTotalChars'', CNum (JFin 24000000)), (''worker.jobBatchSize'', CNum (JFin 10)),
      (''worker.outboxBatchSize'', CNum (JFin 100)), (''worker.pollIntervalMs'', CNum (JFin 1000)),
      (''worker.quizGenerationConcurrency'', CNum (JFin 8)), (''worker.stuckJobBatchSize'', CNum (JFin 100)),
      (''worker.stuckJobTimeoutMs'', CNum (JFin 300000))]"

lemma positiveInteger_numeral:
  "c path = Some (CNum (JFin (numeral n))) \<Longrightarrow> numeral n \<le> max_safe_integer \<Longrightarrow> positiveInteger c path = Inr (numeral n)"
  by (simp add: positiveInteger_def required_value_def)

definition default_worker_settings :: worker_settings where
  "default_worker_settings =
     \<lparr>wc_chunkInsertBatchSize = 500, wc_chunkMaxChars = 1500, wc_chunkOverlapChars = 150, wc_chunkTargetChars = 1200,
      wc_errorBackoffMs = 5000, wc_executionMode = LegacyProcessing, wc_healthHost = ''0.0.0.0'', wc_healthPort = 3403,
      wc_maxExtractableObjectBytes = 20971520, wc_maxChunksPerDocument = 20000, wc_maxChunkTotalChars = 24000000,
      wc_jobBatchSize = 10, wc_outboxBatchSize = 100, wc_pollIntervalMs = 1000, wc_quizGenerationConcurrency = 8,
      wc_stuckJobBatchSize = 100, wc_stuckJobTimeoutMs = 300000\<rparr>"

lemma default_worker_accepted: "worker_config default_worker_values = Inr default_worker_settings"
proof -
  have host: "nonBlankString default_worker_values ''worker.healthHost'' = Inr ''0.0.0.0''" by code_simp
  have port: "networkPort default_worker_values ''worker.healthPort'' = Inr 3403"
    by (simp add: networkPort_def required_value_def default_worker_values_def max_safe_integer_def)
  have mode: "workerExecutionMode default_worker_values = Inr LegacyProcessing"
    by (simp add: workerExecutionMode_def required_string_def required_value_def default_worker_values_def)
  have n: "positiveInteger default_worker_values ''worker.chunkInsertBatchSize'' = Inr 500"
    "positiveInteger default_worker_values ''worker.chunkMaxChars'' = Inr 1500"
    "positiveInteger default_worker_values ''worker.chunkOverlapChars'' = Inr 150"
    "positiveInteger default_worker_values ''worker.chunkTargetChars'' = Inr 1200"
    "positiveInteger default_worker_values ''worker.errorBackoffMs'' = Inr 5000"
    "positiveInteger default_worker_values ''worker.maxExtractableObjectBytes'' = Inr 20971520"
    "positiveInteger default_worker_values ''worker.maxChunksPerDocument'' = Inr 20000"
    "positiveInteger default_worker_values ''worker.maxChunkTotalChars'' = Inr 24000000"
    "positiveInteger default_worker_values ''worker.jobBatchSize'' = Inr 10"
    "positiveInteger default_worker_values ''worker.outboxBatchSize'' = Inr 100"
    "positiveInteger default_worker_values ''worker.pollIntervalMs'' = Inr 1000"
    "positiveInteger default_worker_values ''worker.quizGenerationConcurrency'' = Inr 8"
    "positiveInteger default_worker_values ''worker.stuckJobBatchSize'' = Inr 100"
    "positiveInteger default_worker_values ''worker.stuckJobTimeoutMs'' = Inr 300000"
    by (intro positiveInteger_numeral; simp add: default_worker_values_def max_safe_integer_def)+
  show ?thesis
    by (simp add: worker_config_def read_worker_def n host port mode default_worker_settings_def)
qed

definition sample_worker :: worker_env where
  "sample_worker =
     \<lparr>we_gen = sample_env, we_objects = (\<lambda>_. Some [pdf_magic]), we_pdf = (\<lambda>_. Some [Some [''ab'']]), we_utf8 = (\<lambda>_. []),
      we_segment = unit_segmenter, we_chunking = chunking_of default_worker_settings, we_maxObjectBytes = 20971520, we_batchSize = 500\<rparr>"

text \<open>An order of completions that forgets no call, however many there are.\<close>

definition every_call :: "nat \<Rightarrow> nat" where
  "every_call k = fst (prod_decode k)"

lemma every_call_fair: "fair_order n every_call"
  unfolding fair_order_def
proof (intro allI impI)
  fix i k :: nat
  have "k \<le> prod_encode (i, k)" by (rule le_prod_encode_2)
  moreover have "every_call (prod_encode (i, k)) = i" by (simp add: every_call_def)
  ultimately show "\<exists>k'\<ge>k. every_call k' = i" by blast
qed

lemma configured_worker_ends_witness:
  "\<exists>m. process sample_worker (map every_call [0..<m]) (hd (ai_jobs one_running))
     \<lparr>wk_course = sample_course, wk_chunks = [], wk_gen = sample_gen_state\<rparr> \<noteq> None"
proof -
  have "configured default_worker_settings sample_worker"
    by (simp add: configured_def sample_worker_def sample_env_def default_worker_settings_def)
  moreover have "segmentation (we_segment sample_worker)" by (simp add: sample_worker_def unit_segmentation)
  ultimately have "\<exists>m. \<forall>k\<ge>m. process sample_worker (map every_call [0..<k]) (hd (ai_jobs one_running))
     \<lparr>wk_course = sample_course, wk_chunks = [], wk_gen = sample_gen_state\<rparr> \<noteq> None"
    using configured_worker_ends [OF default_worker_accepted] every_call_fair by blast
  then show ?thesis by blast
qed

end
