(* ===== verification/JsonText.thy ===== *)
theory JsonText imports Prelude "HOL-Library.AList" begin

text \<open>
  \<open>JSON.stringify\<close> and \<open>JSON.parse\<close>, as far as the sources use them: on plain values, without a replacer,
  a reviver or indentation.  The text of a number that is no safe integer is the parameter \<open>nt\<close>; escapes
  of code units from 256 on, which no string here has, do not parse.

  The parser is recursive with fuel, the length of the text; the round trip shows that it is enough.
\<close>

record number_text =
  nt_str :: "rat \<Rightarrow> string"
  nt_of :: "string \<Rightarrow> rat"

section \<open>Writing\<close>

definition escape_hex :: "nat \<Rightarrow> char" where
  "escape_hex n = (if n < 10 then digit_char n else char_of (87 + n))"

definition escape_char :: "char \<Rightarrow> string" where
  "escape_char c =
     (let n = of_char c :: nat
      in if n = 0x22 then [CHR 0x5C, CHR 0x22] else if n = 0x5C then [CHR 0x5C, CHR 0x5C]
         else if n = 0x08 then [CHR 0x5C, CHR ''b''] else if n = 0x09 then [CHR 0x5C, CHR ''t'']
         else if n = 0x0A then [CHR 0x5C, CHR ''n''] else if n = 0x0C then [CHR 0x5C, CHR ''f'']
         else if n = 0x0D then [CHR 0x5C, CHR ''r'']
         else if n < 0x20 then [CHR 0x5C, CHR ''u'', CHR ''0'', CHR ''0'', escape_hex (n div 16), escape_hex (n mod 16)]
         else [c])"

definition quote_text :: "string \<Rightarrow> string" where
  "quote_text s = CHR 0x22 # concat (map escape_char s) @ [CHR 0x22]"

definition safe_integer :: "rat \<Rightarrow> bool" where
  "safe_integer r \<longleftrightarrow> js_is_safe_integer (JFin r)"

definition number_str :: "number_text \<Rightarrow> rat \<Rightarrow> string" where
  "number_str nt r = (if safe_integer r then int_str \<lfloor>r\<rfloor> else nt_str nt r)"

fun json_str :: "number_text \<Rightarrow> json \<Rightarrow> string" where
  "json_str nt JNull = ''null''"
| "json_str nt (JBool b) = (if b then ''true'' else ''false'')"
| "json_str nt (JNum n) = (case n of JFin r \<Rightarrow> number_str nt r | _ \<Rightarrow> ''null'')"
| "json_str nt (JStr s) = quote_text s"
| "json_str nt (JArr vs) = ''['' @ join_with '','' (map (json_str nt) vs) @ '']''"
| "json_str nt (JObj kvs) = ''{'' @ join_with '','' (map (\<lambda>kv. quote_text (fst kv) @ '':'' @ json_str nt (snd kv)) kvs) @ ''}''"

section \<open>Reading\<close>

definition json_ws :: "char \<Rightarrow> bool" where
  "json_ws c \<longleftrightarrow> c = CHR 0x20 \<or> c = CHR 0x09 \<or> c = CHR 0x0A \<or> c = CHR 0x0D"

definition skip_ws :: "string \<Rightarrow> string" where
  "skip_ws s = dropWhile json_ws s"

definition is_digit :: "char \<Rightarrow> bool" where
  "is_digit c \<longleftrightarrow> (let n = of_char c :: nat in 48 \<le> n \<and> n \<le> 57)"

definition decimal_digit :: "char \<Rightarrow> nat" where
  "decimal_digit c = of_char c - 48"

definition escape_digit :: "char \<Rightarrow> nat option" where
  "escape_digit c =
     (let n = of_char c :: nat
      in if 48 \<le> n \<and> n \<le> 57 then Some (n - 48) else if 97 \<le> n \<and> n \<le> 102 then Some (n - 87)
         else if 65 \<le> n \<and> n \<le> 70 then Some (n - 55) else None)"

definition unescape :: "char \<Rightarrow> char option" where
  "unescape c =
     map_of [(CHR 0x22, CHR 0x22), (CHR 0x5C, CHR 0x5C), (CHR ''/'', CHR ''/''), (CHR ''b'', CHR 0x08), (CHR ''f'', CHR 0x0C),
             (CHR ''n'', CHR 0x0A), (CHR ''r'', CHR 0x0D), (CHR ''t'', CHR 0x09)] c"

definition unescape_hex :: "string \<Rightarrow> (char \<times> string) option" where
  "unescape_hex s =
     (case s of
        a # b # c # d # r \<Rightarrow>
          (case (escape_digit a, escape_digit b, escape_digit c, escape_digit d) of
             (Some a', Some b', Some c', Some d') \<Rightarrow> if a' = 0 \<and> b' = 0 then Some (char_of (16 * c' + d'), r) else None
           | _ \<Rightarrow> None)
      | _ \<Rightarrow> None)"

text \<open>The characters after an opening quote, up to the closing one.\<close>

function string_body :: "string \<Rightarrow> (string \<times> string) option" where
  "string_body [] = None"
| "string_body (c # cs) =
     (if c = CHR 0x22 then Some ([], cs)
      else if c = CHR 0x5C then
        (case cs of
           [] \<Rightarrow> None
         | e # ds \<Rightarrow>
             if e = CHR ''u'' then
               (case unescape_hex ds of
                  None \<Rightarrow> None
                | Some (x, r) \<Rightarrow> if length r < length ds then map_option (\<lambda>(t, r'). (x # t, r')) (string_body r) else None)
             else (case unescape e of None \<Rightarrow> None | Some x \<Rightarrow> map_option (\<lambda>(t, r'). (x # t, r')) (string_body ds)))
      else if (of_char c :: nat) < 0x20 then None
      else map_option (\<lambda>(t, r'). (c # t, r')) (string_body cs))"
  by pat_completeness auto
termination by (relation "measure length") auto

fun decimal_value :: "nat \<Rightarrow> string \<Rightarrow> nat" where
  "decimal_value acc [] = acc"
| "decimal_value acc (c # cs) = decimal_value (10 * acc + decimal_digit c) cs"

definition all_digits :: "string \<Rightarrow> bool" where
  "all_digits s \<longleftrightarrow> s \<noteq> [] \<and> list_all is_digit s"

definition no_leading_zero :: "string \<Rightarrow> bool" where
  "no_leading_zero s \<longleftrightarrow> s = ''0'' \<or> hd s \<noteq> CHR ''0''"

definition exponent_ok :: "string \<Rightarrow> bool" where
  "exponent_ok s \<longleftrightarrow>
     (case s of [] \<Rightarrow> True
      | e # r \<Rightarrow> (e = CHR ''e'' \<or> e = CHR ''E'') \<and>
          all_digits (case r of x # xs \<Rightarrow> if x = CHR ''+'' \<or> x = CHR ''-'' then xs else r | [] \<Rightarrow> []))"

definition fraction_ok :: "string \<Rightarrow> bool" where
  "fraction_ok s \<longleftrightarrow>
     (case s of [] \<Rightarrow> True
      | c # r \<Rightarrow> if c = CHR ''.'' then takeWhile is_digit r \<noteq> [] \<and> exponent_ok (dropWhile is_digit r) else exponent_ok s)"

definition unsigned :: "string \<Rightarrow> string" where
  "unsigned s = (case s of c # r \<Rightarrow> if c = CHR ''-'' then r else s | [] \<Rightarrow> [])"

definition number_literal :: "string \<Rightarrow> bool" where
  "number_literal s \<longleftrightarrow>
     (let u = unsigned s; ds = takeWhile is_digit u
      in ds \<noteq> [] \<and> no_leading_zero ds \<and> fraction_ok (dropWhile is_digit u))"

definition literal_int :: "string \<Rightarrow> int" where
  "literal_int s = (if unsigned s = s then int (decimal_value 0 s) else - int (decimal_value 0 (unsigned s)))"

definition number_of :: "number_text \<Rightarrow> string \<Rightarrow> rat" where
  "number_of nt s =
     (if all_digits (unsigned s) \<and> \<bar>literal_int s\<bar> \<le> max_safe_integer then of_int (literal_int s) else nt_of nt s)"

definition number_char :: "char \<Rightarrow> bool" where
  "number_char c \<longleftrightarrow> is_digit c \<or> c \<in> set ''+-.eE''"

text \<open>
  The entries of an object: a repeated key keeps its place and takes the later value, and keys that are
  array indices come first, in ascending order.
\<close>

definition is_array_index :: "string \<Rightarrow> bool" where
  "is_array_index k \<longleftrightarrow> all_digits k \<and> no_leading_zero k \<and> decimal_value 0 k < 4294967295"

definition object_entries :: "(string \<times> json) list \<Rightarrow> (string \<times> json) list" where
  "object_entries kvs =
     (let own = fold (\<lambda>kv. AList.update (fst kv) (snd kv)) kvs []
      in sort_key (\<lambda>kv. decimal_value 0 (fst kv)) (filter (\<lambda>kv. is_array_index (fst kv)) own)
         @ filter (\<lambda>kv. \<not> is_array_index (fst kv)) own)"

fun parse_value :: "number_text \<Rightarrow> nat \<Rightarrow> string \<Rightarrow> (json \<times> string) option"
  and parse_elements :: "number_text \<Rightarrow> nat \<Rightarrow> string \<Rightarrow> (json list \<times> string) option"
  and parse_members :: "number_text \<Rightarrow> nat \<Rightarrow> string \<Rightarrow> ((string \<times> json) list \<times> string) option"
where
  "parse_value nt 0 s = None"
| "parse_value nt (Suc n) s =
     (case skip_ws s of
        [] \<Rightarrow> None
      | c # cs \<Rightarrow>
          if c = CHR 0x22 then map_option (\<lambda>(t, r). (JStr t, r)) (string_body cs)
          else if c = CHR ''['' then
            (if starts_with '']'' (skip_ws cs) then Some (JArr [], tl (skip_ws cs))
             else map_option (\<lambda>(vs, r). (JArr vs, r)) (parse_elements nt n cs))
          else if c = CHR ''{'' then
            (if starts_with ''}'' (skip_ws cs) then Some (JObj [], tl (skip_ws cs))
             else map_option (\<lambda>(kvs, r). (JObj (object_entries kvs), r)) (parse_members nt n cs))
          else if starts_with ''true'' (c # cs) then Some (JBool True, drop 3 cs)
          else if starts_with ''false'' (c # cs) then Some (JBool False, drop 4 cs)
          else if starts_with ''null'' (c # cs) then Some (JNull, drop 3 cs)
          else if number_literal (takeWhile number_char (c # cs))
          then Some (JNum (JFin (number_of nt (takeWhile number_char (c # cs)))), dropWhile number_char (c # cs))
          else None)"
| "parse_elements nt 0 s = None"
| "parse_elements nt (Suc n) s =
     (case parse_value nt n s of
        None \<Rightarrow> None
      | Some (v, r) \<Rightarrow>
          (case skip_ws r of
             [] \<Rightarrow> None
           | c # r' \<Rightarrow>
               if c = CHR '','' then map_option (\<lambda>(vs, r''). (v # vs, r'')) (parse_elements nt n r')
               else if c = CHR '']'' then Some ([v], r') else None))"
| "parse_members nt 0 s = None"
| "parse_members nt (Suc n) s =
     (case skip_ws s of
        [] \<Rightarrow> None
      | q # cs \<Rightarrow>
          if q \<noteq> CHR 0x22 then None
          else (case string_body cs of
            None \<Rightarrow> None
          | Some (k, r) \<Rightarrow>
              if \<not> starts_with '':'' (skip_ws r) then None
              else (case parse_value nt n (tl (skip_ws r)) of
                None \<Rightarrow> None
              | Some (v, r1) \<Rightarrow>
                  (case skip_ws r1 of
                     [] \<Rightarrow> None
                   | c # r2 \<Rightarrow>
                       if c = CHR '','' then map_option (\<lambda>(kvs, r3). ((k, v) # kvs, r3)) (parse_members nt n r2)
                       else if c = CHR ''}'' then Some ([(k, v)], r2) else None))))"

definition json_parse :: "number_text \<Rightarrow> string \<Rightarrow> json option" where
  "json_parse nt s =
     (case parse_value nt (Suc (length s)) s of
        None \<Rightarrow> None | Some (v, r) \<Rightarrow> if skip_ws r = [] then Some v else None)"

section \<open>Reading back what was written\<close>

lemma char_code: "(of_char c :: nat) = n \<Longrightarrow> c = char_of n"
  by (metis char_of_char)

lemma char_numerals:
  "char_of (8 :: nat) = CHR 0x08" "char_of (9 :: nat) = CHR 0x09" "char_of (10 :: nat) = CHR 0x0A"
  "char_of (12 :: nat) = CHR 0x0C" "char_of (13 :: nat) = CHR 0x0D" "char_of (34 :: nat) = CHR 0x22"
  "char_of (48 :: nat) = CHR ''0''" "char_of (92 :: nat) = CHR 0x5C"
  by code_simp+

lemma escape_digit_value: "n < 16 \<Longrightarrow> escape_digit (escape_hex n) = Some n"
  by (simp add: escape_hex_def escape_digit_def digit_char_def Let_def)

lemma escape_read: "string_body (escape_char c @ t) = map_option (\<lambda>(x, r). (c # x, r)) (string_body t)"
proof -
  let ?n = "of_char c :: nat"
  have plain: "?thesis" if "escape_char c = [c]" "?n \<noteq> 0x22" "?n \<noteq> 0x5C" "\<not> ?n < 0x20"
    using that by (auto simp: Let_def split: if_splits)
  show ?thesis
  proof (cases "?n < 0x20 \<and> ?n \<notin> {8, 9, 10, 12, 13}")
    case True
    then have e: "escape_char c = [CHR 0x5C, CHR ''u'', CHR ''0'', CHR ''0'', escape_hex (?n div 16), escape_hex (?n mod 16)]"
      by (auto simp: escape_char_def Let_def)
    have "escape_digit (CHR ''0'') = Some 0" by (simp add: escape_digit_def Let_def)
    moreover have "?n div 16 < 16" using True by (simp add: less_mult_imp_div_less)
    ultimately have "unescape_hex (CHR ''0'' # CHR ''0'' # escape_hex (?n div 16) # escape_hex (?n mod 16) # t) = Some (c, t)"
      by (simp add: unescape_hex_def escape_digit_value)
    then show ?thesis by (simp add: e)
  next
    case False
    then consider "?n = 8" | "?n = 9" | "?n = 10" | "?n = 12" | "?n = 13" | "?n = 0x22" | "?n = 0x5C"
      | "\<not> ?n < 0x20" "?n \<noteq> 0x22" "?n \<noteq> 0x5C" by auto
    then show ?thesis
    proof cases
      case 8
      then show ?thesis by (intro plain) (auto simp: escape_char_def Let_def)
    qed (auto simp: escape_char_def unescape_def Let_def char_numerals dest!: char_code)
  qed
qed

lemma string_read: "string_body (concat (map escape_char s) @ CHR 0x22 # r) = Some (s, r)"
  by (induction s) (simp_all add: escape_read)

declare string_body.simps [simp del]

lemma quote_text_append: "quote_text s @ r = CHR 0x22 # (concat (map escape_char s) @ CHR 0x22 # r)"
  by (simp add: quote_text_def)

section \<open>Numbers\<close>

lemma digit_char_digit: "d < 10 \<Longrightarrow> is_digit (digit_char d) \<and> decimal_digit (digit_char d) = d"
  by (simp add: is_digit_def decimal_digit_def digit_char_code Let_def)

lemma nat_str_is_digits: "list_all is_digit (nat_str n)"
  by (auto simp: list_all_iff dest!: nat_str_digits simp: digit_char_digit)

lemma decimal_value_append: "decimal_value acc (s @ [c]) = 10 * decimal_value acc s + decimal_digit c"
  by (induction s arbitrary: acc) simp_all

lemma nat_str_value: "decimal_value 0 (nat_str n) = n"
proof (induction n rule: nat_str.induct)
  case (1 n)
  show ?case
  proof (cases "n < 10")
    case True
    then show ?thesis by (simp add: nat_str.simps [of n] digit_char_digit)
  next
    case False
    with 1 show ?thesis by (simp add: nat_str.simps [of n] decimal_value_append digit_char_digit)
  qed
qed

lemma nat_str_head: "0 < n \<Longrightarrow> hd (nat_str n) \<noteq> CHR ''0''"
proof (induction n rule: nat_str.induct)
  case (1 n)
  show ?case
  proof (cases "n < 10")
    case True
    then have "decimal_digit (digit_char n) = n" by (simp add: digit_char_digit)
    with True 1 show ?thesis by (auto simp: nat_str.simps [of n] decimal_digit_def)
  next
    case False
    with 1 show ?thesis by (simp add: nat_str.simps [of n] hd_append)
  qed
qed

lemma nat_str_no_leading_zero: "no_leading_zero (nat_str n)"
proof (cases "n = 0")
  case True
  have "nat_str 0 = ''0''" by (simp add: nat_str.simps [of 0] digit_char_def char_numerals)
  with True show ?thesis by (simp add: no_leading_zero_def)
qed (simp add: no_leading_zero_def nat_str_head)

lemma nat_str_unsigned: "unsigned (nat_str n) = nat_str n"
proof -
  obtain c cs where c: "nat_str n = c # cs" by (cases "nat_str n") (use nat_str_nonempty in auto)
  then have "is_digit c" using nat_str_is_digits [of n] by simp
  then have "c \<noteq> CHR ''-''" by (auto simp: is_digit_def Let_def)
  with c show ?thesis by (simp add: unsigned_def)
qed

lemma nat_str_all_digits: "all_digits (nat_str n)"
  by (simp add: all_digits_def nat_str_is_digits)

lemma all_digits_literal: "all_digits s \<Longrightarrow> no_leading_zero s \<Longrightarrow> unsigned u = s \<Longrightarrow> number_literal u"
proof -
  assume s: "all_digits s" "no_leading_zero s" "unsigned u = s"
  then have d: "takeWhile is_digit s = s" "dropWhile is_digit s = []"
    by (simp_all add: all_digits_def list_all_iff takeWhile_eq_all_conv dropWhile_eq_Nil_conv)
  with s show ?thesis by (simp add: number_literal_def fraction_ok_def all_digits_def Let_def d)
qed

lemma unsigned_minus: "unsigned (CHR ''-'' # s) = s"
  by (simp add: unsigned_def)

lemma int_str_literal: "number_literal (int_str i)"
  by (cases "i < 0")
    (auto simp: int_str_def unsigned_minus nat_str_unsigned nat_str_all_digits nat_str_no_leading_zero intro!: all_digits_literal [OF nat_str_all_digits])

lemma int_str_unsigned: "all_digits (unsigned (int_str i))"
  by (simp add: int_str_def unsigned_minus nat_str_unsigned nat_str_all_digits)

lemma int_str_value: "literal_int (int_str i) = i"
proof (cases "i < 0")
  case True
  have "unsigned (CHR ''-'' # nat_str (nat (- i))) \<noteq> CHR ''-'' # nat_str (nat (- i))" by (simp add: unsigned_minus)
  with True show ?thesis by (simp add: literal_int_def int_str_def unsigned_minus nat_str_value)
qed (simp add: literal_int_def int_str_def nat_str_unsigned nat_str_value)

text \<open>What the text of a number has to satisfy where it is not the text of a safe integer.\<close>

definition number_ok :: "number_text \<Rightarrow> rat \<Rightarrow> bool" where
  "number_ok nt r \<longleftrightarrow>
     safe_integer r \<or>
     number_literal (nt_str nt r) \<and> list_all number_char (nt_str nt r) \<and> number_of nt (nt_str nt r) = r"

lemma number_text_read:
  assumes "number_ok nt r"
  shows "number_literal (number_str nt r) \<and> list_all number_char (number_str nt r) \<and> number_of nt (number_str nt r) = r"
proof (cases "safe_integer r")
  case True
  have "list_all number_char (int_str \<lfloor>r\<rfloor>)"
    using nat_str_is_digits by (auto simp: int_str_def number_char_def list_all_iff)
  moreover from True have "of_int \<lfloor>r\<rfloor> = r" "\<bar>\<lfloor>r\<rfloor>\<bar> \<le> max_safe_integer" by (simp_all add: safe_integer_def)
  ultimately show ?thesis
    using True by (simp add: number_str_def int_str_literal number_of_def int_str_unsigned int_str_value)
next
  case False
  with assms show ?thesis by (simp add: number_ok_def number_str_def)
qed

lemma number_literal_head:
  assumes "number_literal s"
  obtains c cs where "s = c # cs" and "is_digit c \<or> c = CHR ''-''"
proof -
  obtain c cs where s: "s = c # cs" using assms by (cases s) (auto simp: number_literal_def unsigned_def Let_def)
  have "is_digit c \<or> c = CHR ''-''"
    using assms s by (auto simp: number_literal_def unsigned_def Let_def split: if_splits)
  with s that show thesis by blast
qed

section \<open>The round trip\<close>

text \<open>The values whose text reads back as the same value: what a parse returns, with numbers of this range.\<close>

fun json_plain :: "number_text \<Rightarrow> json \<Rightarrow> bool" where
  "json_plain nt JNull \<longleftrightarrow> True"
| "json_plain nt (JBool b) \<longleftrightarrow> True"
| "json_plain nt (JNum n) \<longleftrightarrow> (case n of JFin r \<Rightarrow> number_ok nt r | _ \<Rightarrow> False)"
| "json_plain nt (JStr s) \<longleftrightarrow> True"
| "json_plain nt (JArr vs) \<longleftrightarrow> list_all (json_plain nt) vs"
| "json_plain nt (JObj kvs) \<longleftrightarrow> object_entries kvs = kvs \<and> list_all (\<lambda>kv. json_plain nt (snd kv)) kvs"

definition value_head :: "char \<Rightarrow> bool" where
  "value_head c \<longleftrightarrow> c \<in> set ''[{tfn-'' \<or> c = CHR 0x22 \<or> is_digit c"

lemma value_head_plain: "value_head c \<Longrightarrow> \<not> json_ws c \<and> c \<noteq> CHR '']'' \<and> c \<noteq> CHR ''}''"
  by (auto simp: value_head_def json_ws_def is_digit_def Let_def)

lemma json_str_head:
  assumes "json_plain nt v"
  obtains c cs where "json_str nt v = c # cs" and "value_head c"
proof (cases v)
  case (JNum n)
  with assms obtain r where r: "n = JFin r" "number_ok nt r" by (cases n) auto
  from number_text_read [OF r(2)] number_literal_head obtain c cs
    where "number_str nt r = c # cs" "is_digit c \<or> c = CHR ''-''" by blast
  with that JNum r show thesis by (auto simp: value_head_def)
next
  case (JBool b)
  with that show thesis by (cases b) (auto simp: value_head_def)
qed (use that in \<open>auto simp: quote_text_def value_head_def split: if_splits\<close>)

lemma skip_ws_plain: "\<not> json_ws c \<Longrightarrow> skip_ws (c # cs) = c # cs"
  by (simp add: skip_ws_def)

lemma takeWhile_stop:
  "list_all P s \<Longrightarrow> r = [] \<or> \<not> P (hd r) \<Longrightarrow> takeWhile P (s @ r) = s \<and> dropWhile P (s @ r) = r"
  by (induction s) (cases r; auto)+

definition value_ends :: "string \<Rightarrow> bool" where
  "value_ends r \<longleftrightarrow> r = [] \<or> \<not> number_char (hd r)"

lemma value_ends_simps [simp]:
  "value_ends (CHR '','' # r)" "value_ends (CHR '']'' # r)" "value_ends (CHR ''}'' # r)" "value_ends []"
  by (simp_all add: value_ends_def number_char_def is_digit_def Let_def)

definition value_reads :: "number_text \<Rightarrow> json \<Rightarrow> bool" where
  "value_reads nt v \<longleftrightarrow>
     (\<forall>n r. length (json_str nt v) \<le> n \<longrightarrow> value_ends r \<longrightarrow> parse_value nt n (json_str nt v @ r) = Some (v, r))"

lemma number_reads:
  assumes "number_ok nt x"
  shows "value_reads nt (JNum (JFin x))"
  unfolding value_reads_def
proof (intro allI impI)
  fix n r assume n: "length (json_str nt (JNum (JFin x))) \<le> n" and r: "value_ends r"
  let ?s = "number_str nt x"
  note t = number_text_read [OF assms]
  from t number_literal_head obtain c cs where c: "?s = c # cs" "is_digit c \<or> c = CHR ''-''" by blast
  then have h: "c \<noteq> CHR 0x22" "c \<noteq> CHR ''[''" "c \<noteq> CHR ''{''" "c \<noteq> CHR ''t''" "c \<noteq> CHR ''f''" "c \<noteq> CHR ''n''"
    "\<not> json_ws c" by (auto simp: is_digit_def json_ws_def Let_def)
  from n c obtain m where m: "n = Suc m" by (cases n) auto
  have "takeWhile number_char (c # cs @ r) = ?s" "dropWhile number_char (c # cs @ r) = r"
    using takeWhile_stop [of number_char ?s r] t r c by (simp_all add: value_ends_def)
  with t h show "parse_value nt n (json_str nt (JNum (JFin x)) @ r) = Some (JNum (JFin x), r)"
    by (simp add: m c(1) skip_ws_plain starts_with_def)
qed

lemma elements_read:
  assumes "\<forall>v\<in>set vs. json_plain nt v \<and> value_reads nt v" and "vs \<noteq> []"
    and "length (join_with '','' (map (json_str nt) vs)) < n"
  shows "parse_elements nt n (join_with '','' (map (json_str nt) vs) @ CHR '']'' # r) = Some (vs, r)"
  using assms
proof (induction vs arbitrary: n)
  case (Cons v vs)
  from Cons.prems(3) obtain m where m: "n = Suc m" by (cases n) auto
  from Cons.prems(1) have v: "value_reads nt v" by simp
  show ?case
  proof (cases vs)
    case Nil
    with Cons.prems(3) have "length (json_str nt v) \<le> m" by (simp add: m)
    with v have "parse_value nt m (json_str nt v @ CHR '']'' # r) = Some (v, CHR '']'' # r)"
      by (simp add: value_reads_def)
    with Nil show ?thesis by (simp add: m skip_ws_plain json_ws_def)
  next
    case (Cons w ws)
    let ?t = "join_with '','' (map (json_str nt) vs)"
    have j: "join_with '','' (map (json_str nt) (v # vs)) = json_str nt v @ CHR '','' # ?t" by (simp add: Cons)
    with Cons.prems(3) have l: "length (json_str nt v) \<le> m" "length ?t < m" by (simp_all add: m)
    from v l(1) have "parse_value nt m (json_str nt v @ CHR '','' # ?t @ CHR '']'' # r) = Some (v, CHR '','' # ?t @ CHR '']'' # r)"
      by (simp add: value_reads_def)
    moreover have "parse_elements nt m (?t @ CHR '']'' # r) = Some (vs, r)"
      using Cons.prems(1) l(2) Cons by (intro Cons.IH) simp_all
    ultimately show ?thesis unfolding j by (simp add: m skip_ws_plain json_ws_def)
  qed
qed simp

abbreviation member_text :: "number_text \<Rightarrow> string \<times> json \<Rightarrow> string" where
  "member_text nt kv \<equiv> quote_text (fst kv) @ '':'' @ json_str nt (snd kv)"

lemma member_reads:
  assumes "json_plain nt v" and "value_reads nt v" and "length (json_str nt v) \<le> m"
    and "value_ends (c # r)" and "\<not> json_ws c"
  shows "parse_members nt (Suc m) (member_text nt (k, v) @ c # r) =
    (if c = CHR '','' then map_option (\<lambda>(kvs, r'). ((k, v) # kvs, r')) (parse_members nt m r)
     else if c = CHR ''}'' then Some ([(k, v)], r) else None)"
proof -
  have q: "member_text nt (k, v) @ c # r = CHR 0x22 # (concat (map escape_char k) @ CHR 0x22 # CHR '':'' # json_str nt v @ c # r)"
    by (simp add: quote_text_append)
  have w: "skip_ws (CHR 0x22 # s) = CHR 0x22 # s" "skip_ws (CHR '':'' # s) = CHR '':'' # s" for s
    by (simp_all add: skip_ws_plain json_ws_def)
  have "parse_value nt m (json_str nt v @ c # r) = Some (v, c # r)"
    using assms(2-4) by (simp add: value_reads_def)
  then show ?thesis unfolding q by (simp add: w string_read starts_with_def skip_ws_plain assms(5))
qed

lemma members_read:
  assumes "\<forall>kv\<in>set kvs. json_plain nt (snd kv) \<and> value_reads nt (snd kv)" and "kvs \<noteq> []"
    and "length (join_with '','' (map (member_text nt) kvs)) < n"
  shows "parse_members nt n (join_with '','' (map (member_text nt) kvs) @ CHR ''}'' # r) = Some (kvs, r)"
  using assms
proof (induction kvs arbitrary: n)
  case (Cons kv kvs)
  obtain k v where kv: "kv = (k, v)" by (cases kv) auto
  from Cons.prems(3) obtain m where m: "n = Suc m" by (cases n) auto
  from Cons.prems(1) have v: "json_plain nt v" "value_reads nt v" by (simp_all add: kv)
  have ws: "\<not> json_ws (CHR '','')" "\<not> json_ws (CHR ''}'')" by (simp_all add: json_ws_def)
  show ?case
  proof (cases kvs)
    case Nil
    with Cons.prems(3) have "length (json_str nt v) \<le> m" by (simp add: m kv)
    from member_reads [OF v this _ ws(2), of r k] Nil show ?thesis by (simp add: m kv)
  next
    case (Cons w ws')
    let ?t = "join_with '','' (map (member_text nt) kvs)"
    have j: "join_with '','' (map (member_text nt) (kv # kvs)) = member_text nt (k, v) @ CHR '','' # ?t" by (simp add: Cons kv)
    with Cons.prems(3) have l: "length (json_str nt v) \<le> m" "length ?t < m" by (simp_all add: m)
    have "parse_members nt m (?t @ CHR ''}'' # r) = Some (kvs, r)"
      using Cons.prems(1) l(2) Cons by (intro Cons.IH) simp_all
    with member_reads [OF v l(1) _ ws(1), of "?t @ CHR ''}'' # r" k] show ?thesis unfolding j by (simp add: m kv)
  qed
qed simp

lemma text_reads: "json_plain nt v \<Longrightarrow> value_reads nt v"
proof (induction v)
  case JNull
  show ?case unfolding value_reads_def
  proof (intro allI impI)
    fix n r assume "length (json_str nt JNull) \<le> n" "value_ends r"
    then obtain m where "n = Suc m" by (cases n) auto
    then show "parse_value nt n (json_str nt JNull @ r) = Some (JNull, r)"
      by (simp add: skip_ws_plain json_ws_def starts_with_def)
  qed
next
  case (JBool b)
  show ?case unfolding value_reads_def
  proof (intro allI impI)
    fix n r assume "length (json_str nt (JBool b)) \<le> n" "value_ends r"
    then obtain m where "n = Suc m" by (cases n) (auto split: if_splits)
    then show "parse_value nt n (json_str nt (JBool b) @ r) = Some (JBool b, r)"
      by (cases b) (simp_all add: skip_ws_plain json_ws_def starts_with_def)
  qed
next
  case (JNum x)
  then show ?case by (cases x) (auto intro: number_reads)
next
  case (JStr s)
  show ?case unfolding value_reads_def
  proof (intro allI impI)
    fix n r assume "length (json_str nt (JStr s)) \<le> n" "value_ends r"
    then obtain m where "n = Suc m" by (cases n) (auto simp: quote_text_def)
    then show "parse_value nt n (json_str nt (JStr s) @ r) = Some (JStr s, r)"
      by (simp add: quote_text_append skip_ws_plain json_ws_def string_read)
  qed
next
  case (JArr vs)
  then have vs: "\<forall>v\<in>set vs. json_plain nt v \<and> value_reads nt v" by (auto simp: list_all_iff)
  show ?case unfolding value_reads_def
  proof (intro allI impI)
    fix n r assume n: "length (json_str nt (JArr vs)) \<le> n" "value_ends r"
    let ?t = "join_with '','' (map (json_str nt) vs)"
    from n obtain m where m: "n = Suc m" by (cases n) auto
    show "parse_value nt n (json_str nt (JArr vs) @ r) = Some (JArr vs, r)"
    proof (cases vs)
      case Nil
      then show ?thesis by (simp add: m skip_ws_plain json_ws_def starts_with_def)
    next
      case (Cons w ws)
      then obtain c cs where "json_str nt w = c # cs" "value_head c" using vs json_str_head [of nt w] by auto
      with Cons have c: "\<exists>u. ?t @ CHR '']'' # r = c # u" "\<not> json_ws c" "c \<noteq> CHR '']''"
        using value_head_plain [of c] by (cases ws; simp)+
      then have nb: "\<not> starts_with '']'' (skip_ws (?t @ CHR '']'' # r))" by (auto simp: skip_ws_plain starts_with_def)
      from n(1) have "length ?t < m" by (simp add: m)
      with vs Cons have "parse_elements nt m (?t @ CHR '']'' # r) = Some (vs, r)" by (intro elements_read) simp_all
      with nb show ?thesis by (simp add: m skip_ws_plain json_ws_def)
    qed
  qed
next
  case (JObj kvs)
  then have kvs: "\<forall>kv\<in>set kvs. json_plain nt (snd kv) \<and> value_reads nt (snd kv)"
    by (auto simp: list_all_iff)
  from JObj.prems have oe: "object_entries kvs = kvs" by simp
  show ?case unfolding value_reads_def
  proof (intro allI impI)
    fix n r assume n: "length (json_str nt (JObj kvs)) \<le> n" "value_ends r"
    let ?t = "join_with '','' (map (member_text nt) kvs)"
    from n obtain m where m: "n = Suc m" by (cases n) auto
    show "parse_value nt n (json_str nt (JObj kvs) @ r) = Some (JObj kvs, r)"
    proof (cases kvs)
      case Nil
      then show ?thesis by (simp add: m skip_ws_plain json_ws_def starts_with_def)
    next
      case (Cons w ws)
      then have "\<exists>u. ?t @ CHR ''}'' # r = CHR 0x22 # u" by (cases ws) (simp_all add: quote_text_def)
      then have nb: "\<not> starts_with ''}'' (skip_ws (?t @ CHR ''}'' # r))" by (auto simp: skip_ws_plain json_ws_def starts_with_def)
      from n(1) have "length ?t < m" by (simp add: m)
      with kvs Cons have "parse_members nt m (?t @ CHR ''}'' # r) = Some (kvs, r)" by (intro members_read) simp_all
      with nb oe show ?thesis by (simp add: m skip_ws_plain json_ws_def)
    qed
  qed
qed

theorem json_round_trip:
  assumes "json_plain nt v"
  shows "json_parse nt (json_str nt v) = Some v"
proof -
  have "parse_value nt (Suc (length (json_str nt v))) (json_str nt v @ []) = Some (v, [])"
    by (rule text_reads [OF assms, unfolded value_reads_def, rule_format]) simp_all
  then show ?thesis unfolding json_parse_def append_Nil2 by (simp add: skip_ws_def del: parse_value.simps)
qed

lemma json_str_nonempty: "json_plain nt v \<Longrightarrow> json_str nt v \<noteq> []"
  by (metis json_str_head list.distinct(1))

text \<open>Entries that are already in order.\<close>

lemma fold_update_distinct:
  "distinct (map fst (acc @ kvs)) \<Longrightarrow> fold (\<lambda>kv. AList.update (fst kv) (snd kv)) kvs acc = acc @ kvs"
proof (induction kvs arbitrary: acc)
  case (Cons kv kvs)
  then have "fst kv \<notin> fst ` set acc" by auto
  then have "AList.update (fst kv) (snd kv) acc = acc @ [kv]" by (induction acc) auto
  with Cons show ?case by simp
qed simp

lemma object_entries_plain:
  assumes "distinct (map fst kvs)" and "\<forall>kv\<in>set kvs. \<not> is_array_index (fst kv)"
  shows "object_entries kvs = kvs"
  using assms fold_update_distinct [of "[]" kvs] by (simp add: object_entries_def Let_def)

section \<open>Parsed values are well-formed\<close>

lemma fold_update_set:
  "snd ` set (fold (\<lambda>kv. AList.update (fst kv) (snd kv)) kvs acc) \<subseteq> snd ` set acc \<union> snd ` set kvs"
proof (induction kvs arbitrary: acc)
  case (Cons kv kvs)
  have "snd ` set (AList.update (fst kv) (snd kv) acc) \<subseteq> insert (snd kv) (snd ` set acc)"
    by (induction acc) auto
  with Cons [of "AList.update (fst kv) (snd kv) acc"] show ?case by auto
qed simp

lemma fold_update_keys_distinct:
  "distinct (map fst acc) \<Longrightarrow> distinct (map fst (fold (\<lambda>kv. AList.update (fst kv) (snd kv)) kvs acc))"
  by (induction kvs arbitrary: acc) (simp_all add: AList.distinct_update)

lemma distinct_parts:
  assumes "distinct (map fst own)"
  shows "distinct (map fst (sort_key h (filter P own) @ filter (\<lambda>x. \<not> P x) own))"
proof -
  have f: "distinct (map fst (filter Q own))" for Q using assms by (rule distinct_map_filter)
  have "set (filter P own) \<inter> set (filter (\<lambda>x. \<not> P x) own) = {}" by auto
  then have "fst ` set (filter P own) \<inter> fst ` set (filter (\<lambda>x. \<not> P x) own) = {}"
    using assms by (auto simp: distinct_map inj_on_def)
  moreover have "distinct (map fst (sort_key h (filter P own)))"
    using f [of P] by (simp add: distinct_map)
  ultimately show ?thesis using f [of "\<lambda>x. \<not> P x"] by simp
qed

lemma object_entries_wf:
  assumes "list_all (\<lambda>kv. json_wf (snd kv)) kvs"
  shows "json_wf (JObj (object_entries kvs))"
proof -
  have "distinct (map fst (object_entries kvs))"
    unfolding object_entries_def Let_def by (intro distinct_parts fold_update_keys_distinct) simp
  moreover have "json_wf (snd kv)" if "kv \<in> set (object_entries kvs)" for kv
  proof -
    from that have "snd kv \<in> snd ` set (fold (\<lambda>kv. AList.update (fst kv) (snd kv)) kvs [])"
      by (auto simp: object_entries_def Let_def)
    with fold_update_set [of kvs "[]"] have "snd kv \<in> snd ` set kvs" by auto
    with assms show ?thesis by (auto simp: list_all_iff)
  qed
  ultimately show ?thesis by (simp add: list_all_iff)
qed

lemma parsers_wf:
  "parse_value nt n s = Some (v, r) \<Longrightarrow> json_wf v"
  "parse_elements nt n s = Some (vs, r) \<Longrightarrow> list_all json_wf vs"
  "parse_members nt n s = Some (kvs, r) \<Longrightarrow> list_all (\<lambda>kv. json_wf (snd kv)) kvs"
proof (induction nt n s and nt n s and nt n s arbitrary: v r and vs r and kvs r
    rule: parse_value_parse_elements_parse_members.induct)
  case (2 nt n s)
  from 2(3) obtain c cs where s: "skip_ws s = c # cs" by (auto split: list.splits)
  consider "c = CHR 0x22" | "c = CHR ''[''" | "c = CHR ''{''"
    | "c \<noteq> CHR 0x22" "c \<noteq> CHR ''[''" "c \<noteq> CHR ''{''" by blast
  then show ?case
  proof cases
    case 2
    with s \<open>parse_value nt (Suc n) s = Some (v, r)\<close> "2.IH"(1) [OF s] show ?thesis by (auto split: if_splits)
  next
    case 3
    with s \<open>parse_value nt (Suc n) s = Some (v, r)\<close> "2.IH"(2) [OF s] object_entries_wf show ?thesis
      by (auto split: if_splits simp del: json_wf.simps(2)) simp
  qed (use s \<open>parse_value nt (Suc n) s = Some (v, r)\<close> in \<open>auto split: if_splits\<close>)
qed (auto split: option.splits list.splits if_splits)

lemma json_parse_wf: "json_parse nt s = Some v \<Longrightarrow> json_wf v"
  by (auto simp: json_parse_def dest: parsers_wf(1) split: option.splits if_splits simp del: parse_value.simps)

end
