(* ===== verification/ClientApi.thy ===== *)
theory ClientApi imports JsonText AssessmentService Content begin

text \<open>
  What the web client makes of an answer: the contracts and mappers of \<open>web/src/lib/phase0\<close>, the
  texts it shows for a backend error, and the route handlers that pass requests on to the backend.  The
  other side, the JSON the backend writes for its response objects, is here too, so that both sides of the
  wire can be compared.

  A value of \<open>unknown\<close> type is a \<^typ>\<open>json option\<close>, \<^const>\<open>None\<close> for \<open>undefined\<close>.  A mapper throws a
  \<open>TypeError\<close>, kept as its message.
\<close>

section \<open>Readers\<close>

definition expected :: "string \<Rightarrow> string \<Rightarrow> string" where
  "expected field what = ''Expected '' @ field @ '' to be '' @ what @ ''.''"

definition read_object :: "json option \<Rightarrow> string + (string \<times> json) list" where
  "read_object v =
     (case v of Some (JObj kvs) \<Rightarrow> Inr kvs | _ \<Rightarrow> Inl ''Expected an object response from the Phase 0 API.'')"

definition read_string :: "json option \<Rightarrow> string \<Rightarrow> string + string" where
  "read_string v field = (case v of Some (JStr s) \<Rightarrow> Inr s | _ \<Rightarrow> Inl (expected field ''a string''))"

definition read_number :: "json option \<Rightarrow> string \<Rightarrow> string + jsnum" where
  "read_number v field =
     (case v of Some (JNum n) \<Rightarrow> if js_is_finite n then Inr n else Inl (expected field ''a finite number'')
      | _ \<Rightarrow> Inl (expected field ''a finite number''))"

definition read_boolean :: "json option \<Rightarrow> string \<Rightarrow> string + bool" where
  "read_boolean v field = (case v of Some (JBool b) \<Rightarrow> Inr b | _ \<Rightarrow> Inl (expected field ''a boolean''))"

definition read_array :: "json option \<Rightarrow> string \<Rightarrow> string + json list" where
  "read_array v field = (case v of Some (JArr vs) \<Rightarrow> Inr vs | _ \<Rightarrow> Inl (expected field ''an array''))"

definition read_nullable :: "(json option \<Rightarrow> string \<Rightarrow> string + 'a) \<Rightarrow> json option \<Rightarrow> string \<Rightarrow> string + 'a option" where
  "read_nullable read v field = (if v = Some JNull then Inr None else and_then (read v field) (\<lambda>x. Inr (Some x)))"

text \<open>A \<open>switch\<close> over the strings of a union, with its default branch.\<close>

definition read_choice :: "(string \<times> 'a) list \<Rightarrow> string \<Rightarrow> json option \<Rightarrow> string \<Rightarrow> string + 'a" where
  "read_choice choices what v field =
     and_then (read_string v field) (\<lambda>s.
       case map_of choices s of None \<Rightarrow> Inl (expected field what) | Some x \<Rightarrow> Inr x)"

datatype phase0_document_type = Phase0Pdf | Phase0Text

datatype phase0_precision = COARSE | AUTHORITATIVE

datatype phase0_budget_status = NOT_RESERVED | CUSTOM_ZERO_COST | BUDGET_SETTLED | BUDGET_HELD | EXHAUSTED

definition readDocumentType :: "json option \<Rightarrow> string + phase0_document_type" where
  "readDocumentType v =
     read_choice [(''PDF'', Phase0Pdf), (''TEXT'', Phase0Text)] ''PDF or TEXT'' v ''document.type''"

definition readDocumentStatus :: "json option \<Rightarrow> string \<Rightarrow> string + document_status" where
  "readDocumentStatus =
     read_choice [(''UPLOADED'', UPLOADED), (''PROCESSING'', PROCESSING), (''READY'', READY), (''FAILED'', DOCUMENT_FAILED)]
       ''a valid document status''"

definition readModelSelectionKind :: "json option \<Rightarrow> string \<Rightarrow> string + selection_kind" where
  "readModelSelectionKind = read_choice [(''PLAN'', PLAN), (''CUSTOM'', CUSTOM)] ''PLAN or CUSTOM''"

definition phase0_precisions :: "(string \<times> phase0_precision) list" where
  "phase0_precisions = [(''COARSE'', COARSE), (''AUTHORITATIVE'', AUTHORITATIVE)]"

definition phase0_budget_statuses :: "(string \<times> phase0_budget_status) list" where
  "phase0_budget_statuses =
     [(''NOT_RESERVED'', NOT_RESERVED), (''CUSTOM_ZERO_COST'', CUSTOM_ZERO_COST), (''SETTLED'', BUDGET_SETTLED),
      (''HELD'', BUDGET_HELD), (''EXHAUSTED'', EXHAUSTED)]"

definition readEstimatePrecision :: "json option \<Rightarrow> string \<Rightarrow> string + phase0_precision" where
  "readEstimatePrecision = read_choice phase0_precisions ''COARSE or AUTHORITATIVE''"

definition readBudgetStatus :: "json option \<Rightarrow> string \<Rightarrow> string + phase0_budget_status" where
  "readBudgetStatus = read_choice phase0_budget_statuses ''a valid budget status''"

definition readDocumentProcessingFailureCode :: "json option \<Rightarrow> string \<Rightarrow> string + failure_code" where
  "readDocumentProcessingFailureCode =
     read_choice [(''BUDGET_EXHAUSTED'', BUDGET_EXHAUSTED), (''CHUNK_RESOURCE_LIMIT_EXCEEDED'', CHUNK_RESOURCE_LIMIT_EXCEEDED),
                  (''EXTRACTION_OBJECT_NOT_FOUND'', EXTRACTION_OBJECT_NOT_FOUND),
                  (''EXTRACTION_OBJECT_TOO_LARGE'', EXTRACTION_OBJECT_TOO_LARGE),
                  (''GENERATION_OUTPUT_INVALID'', GENERATION_OUTPUT_INVALID),
                  (''GENERATION_OUTPUT_TRUNCATED'', GENERATION_OUTPUT_TRUNCATED),
                  (''INSUFFICIENT_VALID_QUESTIONS'', INSUFFICIENT_QUESTIONS), (''PDF_INVALID'', PDF_INVALID),
                  (''PDF_TEXT_NOT_FOUND'', PDF_TEXT_NOT_FOUND), (''PROCESSING_FAILED'', PROCESSING_FAILED),
                  (''PROCESSING_TIMED_OUT'', PROCESSING_TIMED_OUT), (''PROVIDER_UNAVAILABLE'', PROVIDER_UNAVAILABLE)]
       ''a valid document processing failure code''"

section \<open>Mappers\<close>

text \<open>The client's locators are the valid part of the union.\<close>

datatype phase0_locator = Phase0Page jsnum | Phase0TextRange jsnum jsnum | Phase0Time jsnum jsnum

definition mapCitationLocator :: "json option \<Rightarrow> string + phase0_locator" where
  "mapCitationLocator v =
     and_then (read_object v) (\<lambda>source.
     and_then (read_string (obj_get source ''kind'') ''result.citation.locator.kind'') (\<lambda>kind.
       if kind = ''page'' then
         and_then (read_number (obj_get source ''page'') ''result.citation.locator.page'') (\<lambda>p. Inr (Phase0Page p))
       else if kind = ''text-range'' then
         and_then (read_number (obj_get source ''start'') ''result.citation.locator.start'') (\<lambda>s.
         and_then (read_number (obj_get source ''end'') ''result.citation.locator.end'') (\<lambda>e. Inr (Phase0TextRange s e)))
       else if kind = ''time'' then
         and_then (read_number (obj_get source ''startSec'') ''result.citation.locator.startSec'') (\<lambda>s.
         and_then (read_number (obj_get source ''endSec'') ''result.citation.locator.endSec'') (\<lambda>e. Inr (Phase0Time s e)))
       else Inl (expected ''result.citation.locator.kind'' ''page, text-range, or time'')))"

record phase0_citation =
  pc_chunkId :: string
  pc_locator :: phase0_locator
  pc_snippet :: string

text \<open>The citation object both kinds of result build, in the order its fields are read.\<close>

definition map_citation :: "string \<Rightarrow> (string \<times> json) list \<Rightarrow> string + phase0_citation" where
  "map_citation prefix citation =
     and_then (read_string (obj_get citation ''chunkId'') (prefix @ ''.citation.chunkId'')) (\<lambda>c.
     and_then (mapCitationLocator (obj_get citation ''locator'')) (\<lambda>l.
     and_then (read_string (obj_get citation ''snippet'') (prefix @ ''.citation.snippet'')) (\<lambda>s.
       Inr \<lparr>pc_chunkId = c, pc_locator = l, pc_snippet = s\<rparr>)))"

record phase0_document =
  pd_id :: string
  pd_originalName :: string
  pd_type :: phase0_document_type
  pd_sizeBytes :: jsnum
  pd_language :: "string option"
  pd_status :: document_status
  pd_durationSec :: "jsnum option"
  pd_pageCount :: "jsnum option"
  pd_errorCode :: "failure_code option"
  pd_errorMessage :: "string option"
  pd_selectedModelKind :: "selection_kind option"
  pd_selectedModelLabel :: "string option"
  pd_estimateStatus :: "phase0_precision option"
  pd_estimatedCredits :: "jsnum option"
  pd_settledCredits :: "jsnum option"
  pd_budgetStatus :: "phase0_budget_status option"
  pd_createdAt :: string
  pd_updatedAt :: string

definition mapDocument :: "json option \<Rightarrow> string + phase0_document" where
  "mapDocument v =
     and_then (read_object v) (\<lambda>source.
     and_then (read_string (obj_get source ''id'') ''document.id'') (\<lambda>id'.
     and_then (read_string (obj_get source ''originalName'') ''document.originalName'') (\<lambda>originalName.
     and_then (readDocumentType (obj_get source ''type'')) (\<lambda>type'.
     and_then (read_number (obj_get source ''sizeBytes'') ''document.sizeBytes'') (\<lambda>sizeBytes.
     and_then (read_nullable read_string (obj_get source ''language'') ''document.language'') (\<lambda>language.
     and_then (readDocumentStatus (obj_get source ''status'') ''document.status'') (\<lambda>status.
     and_then (read_nullable read_number (obj_get source ''durationSec'') ''document.durationSec'') (\<lambda>durationSec.
     and_then (read_nullable read_number (obj_get source ''pageCount'') ''document.pageCount'') (\<lambda>pageCount.
     and_then (read_nullable readDocumentProcessingFailureCode (obj_get source ''errorCode'') ''document.errorCode'') (\<lambda>errorCode.
     and_then (read_nullable read_string (obj_get source ''errorMessage'') ''document.errorMessage'') (\<lambda>errorMessage.
     and_then (read_nullable readModelSelectionKind (obj_get source ''selectedModelKind'') ''document.selectedModelKind'') (\<lambda>kind.
     and_then (read_nullable read_string (obj_get source ''selectedModelLabel'') ''document.selectedModelLabel'') (\<lambda>label.
     and_then (read_nullable readEstimatePrecision (obj_get source ''estimateStatus'') ''document.estimateStatus'') (\<lambda>estimateStatus.
     and_then (read_nullable read_number (obj_get source ''estimatedCredits'') ''document.estimatedCredits'') (\<lambda>estimatedCredits.
     and_then (read_nullable read_number (obj_get source ''settledCredits'') ''document.settledCredits'') (\<lambda>settledCredits.
     and_then (read_nullable readBudgetStatus (obj_get source ''budgetStatus'') ''document.budgetStatus'') (\<lambda>budgetStatus.
     and_then (read_string (obj_get source ''createdAt'') ''document.createdAt'') (\<lambda>createdAt.
     and_then (read_string (obj_get source ''updatedAt'') ''document.updatedAt'') (\<lambda>updatedAt.
       Inr \<lparr>pd_id = id', pd_originalName = originalName, pd_type = type', pd_sizeBytes = sizeBytes, pd_language = language,
            pd_status = status, pd_durationSec = durationSec, pd_pageCount = pageCount, pd_errorCode = errorCode,
            pd_errorMessage = errorMessage, pd_selectedModelKind = kind, pd_selectedModelLabel = label,
            pd_estimateStatus = estimateStatus, pd_estimatedCredits = estimatedCredits, pd_settledCredits = settledCredits,
            pd_budgetStatus = budgetStatus, pd_createdAt = createdAt, pd_updatedAt = updatedAt\<rparr>)))))))))))))))))))"

definition mapDocumentsResponse :: "json option \<Rightarrow> string + phase0_document list" where
  "mapDocumentsResponse v = and_then (read_array v ''documents'') (map_result (\<lambda>x. mapDocument (Some x)))"

record phase0_model_option =
  po_id :: string
  po_kind :: selection_kind
  po_label :: string

definition mapModelOption :: "json option \<Rightarrow> string + phase0_model_option" where
  "mapModelOption v =
     and_then (read_object v) (\<lambda>source.
     and_then (readModelSelectionKind (obj_get source ''kind'') ''model.kind'') (\<lambda>kind.
     and_then (read_string (obj_get source ''id'') ''model.id'') (\<lambda>id'.
     and_then (read_string (obj_get source ''label'') ''model.label'') (\<lambda>label.
       if obj_get source ''apiKey'' \<noteq> None \<or> obj_get source ''baseUrl'' \<noteq> None \<or> obj_get source ''apiKeyCiphertext'' \<noteq> None
       then Inl ''Model option payload contains unsupported private fields.''
       else Inr \<lparr>po_id = id', po_kind = kind, po_label = label\<rparr>))))"

definition mapModelOptionsResponse :: "json option \<Rightarrow> string + phase0_model_option list" where
  "mapModelOptionsResponse v = and_then (read_array v ''models'') (map_result (\<lambda>x. mapModelOption (Some x)))"


record phase0_quiz_option =
  qo_id :: string
  qo_optionIndex :: jsnum
  qo_content :: string

record phase0_quiz_question =
  qq_id :: string
  qq_ordinal :: jsnum
  qq_stem :: string
  qq_options :: "phase0_quiz_option list"

record phase0_quiz =
  pq_id :: string
  pq_questions :: "phase0_quiz_question list"

definition mapQuizOption :: "json option \<Rightarrow> string + phase0_quiz_option" where
  "mapQuizOption v =
     and_then (read_object v) (\<lambda>source.
     and_then (read_string (obj_get source ''id'') ''option.id'') (\<lambda>id'.
     and_then (read_number (obj_get source ''optionIndex'') ''option.optionIndex'') (\<lambda>optionIndex.
     and_then (read_string (obj_get source ''content'') ''option.content'') (\<lambda>content.
       Inr \<lparr>qo_id = id', qo_optionIndex = optionIndex, qo_content = content\<rparr>))))"

definition mapQuizQuestion :: "json option \<Rightarrow> string + phase0_quiz_question" where
  "mapQuizQuestion v =
     and_then (read_object v) (\<lambda>source.
     and_then (read_string (obj_get source ''id'') ''question.id'') (\<lambda>id'.
     and_then (read_number (obj_get source ''ordinal'') ''question.ordinal'') (\<lambda>ordinal.
     and_then (read_string (obj_get source ''stem'') ''question.stem'') (\<lambda>stem.
     and_then (read_array (obj_get source ''options'') ''question.options'') (\<lambda>vs.
     and_then (map_result (\<lambda>x. mapQuizOption (Some x)) vs) (\<lambda>options.
       Inr \<lparr>qq_id = id', qq_ordinal = ordinal, qq_stem = stem, qq_options = options\<rparr>))))))"

definition mapQuizResponse :: "json option \<Rightarrow> string + phase0_quiz" where
  "mapQuizResponse v =
     and_then (read_object v) (\<lambda>source.
     and_then (read_string (obj_get source ''id'') ''quiz.id'') (\<lambda>id'.
     and_then (read_array (obj_get source ''questions'') ''quiz.questions'') (\<lambda>vs.
     and_then (map_result (\<lambda>x. mapQuizQuestion (Some x)) vs) (\<lambda>questions.
       Inr \<lparr>pq_id = id', pq_questions = questions\<rparr>))))"

record phase0_feedback =
  pf_questionId :: string
  pf_selectedOptionId :: string
  pf_isCorrect :: bool
  pf_explanation :: string
  pf_citation :: phase0_citation

definition mapPracticeFeedbackResponse :: "json option \<Rightarrow> string + phase0_feedback" where
  "mapPracticeFeedbackResponse v =
     and_then (read_object v) (\<lambda>source.
     and_then (read_object (obj_get source ''citation'')) (\<lambda>citation.
     and_then (read_boolean (obj_get source ''isCorrect'') ''practiceFeedback.isCorrect'') (\<lambda>isCorrect.
     and_then (read_string (obj_get source ''questionId'') ''practiceFeedback.questionId'') (\<lambda>questionId.
     and_then (read_string (obj_get source ''selectedOptionId'') ''practiceFeedback.selectedOptionId'') (\<lambda>selectedOptionId.
     and_then (read_string (obj_get source ''explanation'') ''practiceFeedback.explanation'') (\<lambda>explanation.
     and_then (map_citation ''practiceFeedback'' citation) (\<lambda>c.
       Inr \<lparr>pf_questionId = questionId, pf_selectedOptionId = selectedOptionId, pf_isCorrect = isCorrect,
            pf_explanation = explanation, pf_citation = c\<rparr>)))))))"

record phase0_result_item = phase0_feedback +
  pi_ordinal :: jsnum
  pi_stem :: string
  pi_selectedOptionContent :: string
  pi_correctOptionId :: string
  pi_correctOptionContent :: string

definition mapAttemptResultItem :: "json option \<Rightarrow> string + phase0_result_item" where
  "mapAttemptResultItem v =
     and_then (read_object v) (\<lambda>source.
     and_then (read_object (obj_get source ''citation'')) (\<lambda>citation.
     and_then (read_boolean (obj_get source ''isCorrect'') ''result.isCorrect'') (\<lambda>isCorrect.
     and_then (read_string (obj_get source ''questionId'') ''result.questionId'') (\<lambda>questionId.
     and_then (read_number (obj_get source ''ordinal'') ''result.ordinal'') (\<lambda>ordinal.
     and_then (read_string (obj_get source ''stem'') ''result.stem'') (\<lambda>stem.
     and_then (read_string (obj_get source ''selectedOptionId'') ''result.selectedOptionId'') (\<lambda>selectedOptionId.
     and_then (read_string (obj_get source ''selectedOptionContent'') ''result.selectedOptionContent'') (\<lambda>selectedOptionContent.
     and_then (read_string (obj_get source ''correctOptionId'') ''result.correctOptionId'') (\<lambda>correctOptionId.
     and_then (read_string (obj_get source ''correctOptionContent'') ''result.correctOptionContent'') (\<lambda>correctOptionContent.
     and_then (read_string (obj_get source ''explanation'') ''result.explanation'') (\<lambda>explanation.
     and_then (map_citation ''result'' citation) (\<lambda>c.
       Inr \<lparr>pf_questionId = questionId, pf_selectedOptionId = selectedOptionId, pf_isCorrect = isCorrect,
            pf_explanation = explanation, pf_citation = c, pi_ordinal = ordinal, pi_stem = stem,
            pi_selectedOptionContent = selectedOptionContent, pi_correctOptionId = correctOptionId,
            pi_correctOptionContent = correctOptionContent\<rparr>))))))))))))"

record phase0_attempt_result =
  pt_attemptId :: string
  pt_quizId :: string
  pt_submittedAt :: string
  pt_score :: jsnum
  pt_questionCount :: jsnum
  pt_results :: "phase0_result_item list"

definition mapAttemptResultResponse :: "json option \<Rightarrow> string + phase0_attempt_result" where
  "mapAttemptResultResponse v =
     and_then (read_object v) (\<lambda>source.
     and_then (read_string (obj_get source ''attemptId'') ''attemptId'') (\<lambda>attemptId.
     and_then (read_string (obj_get source ''quizId'') ''quizId'') (\<lambda>quizId.
     and_then (read_string (obj_get source ''submittedAt'') ''submittedAt'') (\<lambda>submittedAt.
     and_then (read_number (obj_get source ''score'') ''score'') (\<lambda>score.
     and_then (read_number (obj_get source ''questionCount'') ''questionCount'') (\<lambda>questionCount.
     and_then (read_array (obj_get source ''results'') ''results'') (\<lambda>vs.
     and_then (map_result (\<lambda>x. mapAttemptResultItem (Some x)) vs) (\<lambda>results.
       Inr \<lparr>pt_attemptId = attemptId, pt_quizId = quizId, pt_submittedAt = submittedAt, pt_score = score,
            pt_questionCount = questionCount, pt_results = results\<rparr>))))))))"

record phase0_submission =
  px_attemptId :: string
  px_score :: jsnum
  px_questionCount :: jsnum

definition mapSubmitQuizAttemptResponse :: "json option \<Rightarrow> string + phase0_submission" where
  "mapSubmitQuizAttemptResponse v =
     and_then (read_object v) (\<lambda>source.
     and_then (read_string (obj_get source ''attemptId'') ''attemptId'') (\<lambda>attemptId.
     and_then (read_number (obj_get source ''score'') ''score'') (\<lambda>score.
     and_then (read_number (obj_get source ''questionCount'') ''questionCount'') (\<lambda>questionCount.
       Inr \<lparr>px_attemptId = attemptId, px_score = score, px_questionCount = questionCount\<rparr>))))"

record phase0_upload_url =
  pu_documentId :: string
  pu_uploadUrl :: string
  pu_uploadFields :: "(string \<times> string) list"
  pu_expirySec :: jsnum

text \<open>Assigning a string to the key \<open>__proto__\<close> of an object literal has no effect.\<close>

definition map_upload_fields :: "(string \<times> json) list \<Rightarrow> string + (string \<times> string) list" where
  "map_upload_fields kvs =
     and_then (map_result (\<lambda>(k, v). and_then (read_string (Some v) (''uploadFields.'' @ k)) (\<lambda>s. Inr (k, s))) kvs)
       (\<lambda>fs. Inr (filter (\<lambda>(k, s). k \<noteq> ''__proto__'') fs))"

definition mapUploadUrlResponse :: "json option \<Rightarrow> string + phase0_upload_url" where
  "mapUploadUrlResponse v =
     and_then (read_object v) (\<lambda>source.
     and_then (read_object (obj_get source ''uploadFields'')) (\<lambda>uploadFields.
     and_then (map_upload_fields uploadFields) (\<lambda>mappedFields.
     and_then (read_string (obj_get source ''documentId'') ''documentId'') (\<lambda>documentId.
     and_then (read_string (obj_get source ''uploadUrl'') ''uploadUrl'') (\<lambda>uploadUrl.
     and_then (read_number (obj_get source ''expirySec'') ''expirySec'') (\<lambda>expirySec.
       Inr \<lparr>pu_documentId = documentId, pu_uploadUrl = uploadUrl, pu_uploadFields = mappedFields, pu_expirySec = expirySec\<rparr>))))))"

record phase0_estimate =
  pe_estimatedCredits :: jsnum
  pe_precision :: phase0_precision
  pe_selectedModelKind :: selection_kind
  pe_selectedModelLabel :: string

definition mapEstimateResponse :: "json option \<Rightarrow> string + phase0_estimate" where
  "mapEstimateResponse v =
     and_then (read_object v) (\<lambda>source.
     and_then (read_number (obj_get source ''estimatedCredits'') ''estimatedCredits'') (\<lambda>estimatedCredits.
     and_then (readEstimatePrecision (obj_get source ''precision'') ''precision'') (\<lambda>precision.
     and_then (readModelSelectionKind (obj_get source ''selectedModelKind'') ''selectedModelKind'') (\<lambda>kind.
     and_then (read_string (obj_get source ''selectedModelLabel'') ''selectedModelLabel'') (\<lambda>label.
       Inr \<lparr>pe_estimatedCredits = estimatedCredits, pe_precision = precision, pe_selectedModelKind = kind,
            pe_selectedModelLabel = label\<rparr>)))))"

definition mapConfirmDocumentResponse :: "json option \<Rightarrow> string + string \<times> document_status" where
  "mapConfirmDocumentResponse v =
     and_then (read_object v) (\<lambda>source.
     and_then (read_string (obj_get source ''documentId'') ''documentId'') (\<lambda>documentId.
     and_then (readDocumentStatus (obj_get source ''status'') ''status'') (\<lambda>status. Inr (documentId, status))))"

definition mapDocumentQuizResponse :: "json option \<Rightarrow> string + string \<times> string \<times> jsnum" where
  "mapDocumentQuizResponse v =
     and_then (read_object v) (\<lambda>source.
     and_then (read_string (obj_get source ''quizId'') ''quizId'') (\<lambda>quizId.
     and_then (read_string (obj_get source ''documentId'') ''documentId'') (\<lambda>documentId.
     and_then (read_number (obj_get source ''questionCount'') ''questionCount'') (\<lambda>questionCount.
       Inr (quizId, documentId, questionCount)))))"

section \<open>What the backend writes\<close>

text \<open>\<open>JSON.stringify\<close> of the response objects, as values.\<close>

definition json_int :: "int \<Rightarrow> json" where
  "json_int n = JNum (JFin (of_int n))"

definition json_nullable :: "('a \<Rightarrow> json) \<Rightarrow> 'a option \<Rightarrow> json" where
  "json_nullable f v = (case v of None \<Rightarrow> JNull | Some x \<Rightarrow> f x)"

definition option_json :: "served_option \<Rightarrow> json" where
  "option_json o' = JObj [(''id'', JStr (so_id o')), (''optionIndex'', json_int (so_optionIndex o')), (''content'', JStr (so_content o'))]"

definition question_json :: "served_question \<Rightarrow> json" where
  "question_json q =
     JObj [(''id'', JStr (sq_id q)), (''ordinal'', json_int (sq_ordinal q)), (''stem'', JStr (sq_stem q)),
           (''options'', JArr (map option_json (sq_options q)))]"

text \<open>A locator that is not in the union is any other object.\<close>

fun locator_json :: "citation_locator \<Rightarrow> json" where
  "locator_json (PageLocator p) = JObj [(''kind'', JStr ''page''), (''page'', JNum p)]"
| "locator_json (TextRangeLocator s e) = JObj [(''kind'', JStr ''text-range''), (''start'', JNum s), (''end'', JNum e)]"
| "locator_json (TimeLocator s e) = JObj [(''kind'', JStr ''time''), (''startSec'', JNum s), (''endSec'', JNum e)]"
| "locator_json MalformedLocator = JObj []"

definition citation_json :: "citation \<Rightarrow> json" where
  "citation_json c =
     JObj [(''chunkId'', JStr (cit_chunkId c)), (''locator'', locator_json (cit_locator c)), (''snippet'', JStr (cit_snippet c))]"

definition result_json :: "attempt_question_result \<Rightarrow> json" where
  "result_json r =
     JObj [(''questionId'', JStr (ga_questionId r)), (''ordinal'', json_int (aq_ordinal r)), (''stem'', JStr (aq_stem r)),
           (''selectedOptionId'', JStr (ga_selectedOptionId r)), (''selectedOptionContent'', JStr (aq_selectedOptionContent r)),
           (''correctOptionId'', JStr (aq_correctOptionId r)), (''correctOptionContent'', JStr (aq_correctOptionContent r)),
           (''isCorrect'', JBool (ga_isCorrect r)), (''explanation'', JStr (ga_explanation r)),
           (''citation'', citation_json (ga_citation r))]"

definition attempt_json :: "attempt_result_response \<Rightarrow> json" where
  "attempt_json r =
     JObj [(''attemptId'', JStr (rd_attemptId r)), (''quizId'', JStr (rd_quizId r)), (''submittedAt'', JStr (rd_submittedAt r)),
           (''score'', json_int (rd_score r)), (''questionCount'', json_int (rd_questionCount r)),
           (''results'', JArr (map result_json (rd_results r)))]"


definition quiz_json :: "served_quiz_result \<Rightarrow> json" where
  "quiz_json z = JObj [(''id'', JStr (sv_id z)), (''questions'', JArr (map question_json (sv_questions z)))]"

definition feedback_json :: "practice_feedback_result \<Rightarrow> json" where
  "feedback_json r =
     JObj [(''questionId'', JStr (ga_questionId r)), (''selectedOptionId'', JStr (ga_selectedOptionId r)),
           (''isCorrect'', JBool (ga_isCorrect r)), (''explanation'', JStr (ga_explanation r)),
           (''citation'', citation_json (ga_citation r))]"

definition graded_json :: "graded_attempt_response \<Rightarrow> json" where
  "graded_json r =
     JObj [(''attemptId'', JStr (gd_attemptId r)), (''score'', json_int (int (gd_score r))),
           (''questionCount'', json_int (int (gd_questionCount r))), (''results'', JArr (map feedback_json (gd_results r)))]"

fun document_status_str :: "document_status \<Rightarrow> string" where
  "document_status_str UPLOADED = ''UPLOADED''"
| "document_status_str PROCESSING = ''PROCESSING''"
| "document_status_str READY = ''READY''"
| "document_status_str DOCUMENT_FAILED = ''FAILED''"

definition document_json :: "document_response \<Rightarrow> json" where
  "document_json d =
     JObj [(''id'', JStr (dr_id d)), (''type'', JStr (document_type_str (dr_type d))), (''originalName'', JStr (dr_originalName d)),
           (''sizeBytes'', json_int (dr_sizeBytes d)), (''language'', json_nullable JStr (dr_language d)),
           (''status'', JStr (document_status_str (dr_status d))), (''durationSec'', json_nullable json_int (dr_durationSec d)),
           (''pageCount'', json_nullable json_int (dr_pageCount d)), (''errorMessage'', json_nullable JStr (dr_errorMessage d)),
           (''errorCode'', json_nullable (\<lambda>c. JStr (failure_code_str c)) (dr_errorCode d)),
           (''selectedModelKind'', json_nullable (\<lambda>k. JStr (selection_kind_str k)) (dr_selectedModelKind d)),
           (''selectedModelLabel'', json_nullable JStr (dr_selectedModelLabel d)),
           (''estimateStatus'', json_nullable JStr (dr_estimateStatus d)),
           (''estimatedCredits'', json_nullable json_int (dr_estimatedCredits d)),
           (''settledCredits'', json_nullable json_int (dr_settledCredits d)),
           (''budgetStatus'', json_nullable JStr (dr_budgetStatus d)),
           (''createdAt'', JStr (dr_createdAt d)), (''updatedAt'', JStr (dr_updatedAt d))]"

section \<open>Errors of the backend\<close>

definition no_message :: string where
  "no_message = ''The Phase 0 API request failed.''"

definition is_control :: "char \<Rightarrow> bool" where
  "is_control c \<longleftrightarrow> (let n = of_char c :: nat in n \<le> 31 \<or> n = 127)"

definition sanitizeBackendErrorText :: "string \<Rightarrow> string" where
  "sanitizeBackendErrorText v =
     (let compactValue = js_trim (map (\<lambda>c. if is_control c then CHR 0x20 else c) v);
          short = take 512 compactValue
      in if short = [] then no_message else short)"

record safe_error =
  se_message :: string
  se_code :: "string option"
  se_retryable :: "bool option"

definition error_text :: "json option \<Rightarrow> string" where
  "error_text message =
     (case message of
        Some (JStr s) \<Rightarrow> sanitizeBackendErrorText s
      | Some (JArr vs) \<Rightarrow>
          if list_all (\<lambda>v. case v of JStr s \<Rightarrow> True | _ \<Rightarrow> False) vs
          then sanitizeBackendErrorText (join_with '' '' (map (\<lambda>v. case v of JStr s \<Rightarrow> s | _ \<Rightarrow> []) vs)) else no_message
      | _ \<Rightarrow> no_message)"

definition mapSafeBackendError :: "json \<Rightarrow> safe_error option" where
  "mapSafeBackendError v =
     (case v of
        JStr s \<Rightarrow> Some \<lparr>se_message = sanitizeBackendErrorText s, se_code = None, se_retryable = None\<rparr>
      | JObj source \<Rightarrow>
          let message = error_text (obj_get source ''message'')
          in (case obj_get source ''code'' of
                Some (JStr code) \<Rightarrow>
                  Some \<lparr>se_message = message, se_code = Some (sanitizeBackendErrorText code),
                        se_retryable = (case obj_get source ''retryable'' of Some (JBool b) \<Rightarrow> Some b | _ \<Rightarrow> None)\<rparr>
              | _ \<Rightarrow> Some \<lparr>se_message = message, se_code = None, se_retryable = None\<rparr>)
      | _ \<Rightarrow> None)"

definition safe_error_json :: "safe_error \<Rightarrow> json" where
  "safe_error_json e =
     JObj ((''message'', JStr (se_message e))
       # (case se_code e of None \<Rightarrow> [] | Some c \<Rightarrow> [(''code'', JStr c)])
       @ (case se_retryable e of None \<Rightarrow> [] | Some b \<Rightarrow> [(''retryable'', JBool b)]))"

section \<open>Requests\<close>

text \<open>
  \<open>JSON.parse\<close> gives \<^const>\<open>None\<close> for a \<open>SyntaxError\<close>.  A response with a body cannot have one of the statuses that forbid one: the constructor throws, \<^const>\<open>None\<close> below.
\<close>

record http_response =
  hr_status :: nat
  hr_contentType :: "string option"
  hr_text :: string

definition response_ok :: "http_response \<Rightarrow> bool" where
  "response_ok r \<longleftrightarrow> 200 \<le> hr_status r \<and> hr_status r \<le> 299"

definition is_json :: "http_response \<Rightarrow> bool" where
  "is_json r \<longleftrightarrow>
     (case hr_contentType r of None \<Rightarrow> False
      | Some t \<Rightarrow> list_ex (\<lambda>i. starts_with ''application/json'' (drop i t)) [0..<Suc (length t)])"

definition body_response :: "nat \<Rightarrow> string \<Rightarrow> string \<Rightarrow> http_response option" where
  "body_response status contentType t =
     (if status < 200 \<or> 599 < status \<or> status = 204 \<or> status = 205 \<or> status = 304 then None
      else Some \<lparr>hr_status = status, hr_contentType = Some contentType, hr_text = t\<rparr>)"

definition json_response :: "number_text \<Rightarrow> nat \<Rightarrow> json \<Rightarrow> http_response option" where
  "json_response nt status v = body_response status ''application/json'' (json_str nt v)"

definition message_json :: "string \<Rightarrow> json" where
  "message_json m = JObj [(''message'', JStr m)]"

definition toErrorResponse :: "number_text \<Rightarrow> http_response \<Rightarrow> http_response option" where
  "toErrorResponse nt r =
     (if is_json r then
        (case json_parse nt (hr_text r) of
           None \<Rightarrow> None
         | Some v \<Rightarrow> json_response nt (hr_status r)
             (case mapSafeBackendError v of None \<Rightarrow> message_json no_message | Some e \<Rightarrow> safe_error_json e))
      else json_response nt (hr_status r) (message_json (sanitizeBackendErrorText (hr_text r))))"

text \<open>\<^term>\<open>answer\<close> is what \<open>fetch\<close> gives: \<^const>\<open>None\<close> if the backend cannot be reached.\<close>

definition requestPhase0Backend ::
  "number_text \<Rightarrow> http_response option \<Rightarrow> http_response option" where
  "requestPhase0Backend nt answer =
     (case answer of
        None \<Rightarrow> json_response nt 502 (message_json ''The Phase 0 API is unavailable.'')
      | Some r \<Rightarrow> if response_ok r then Some r else toErrorResponse nt r)"

definition proxyPhase0Request ::
  "number_text \<Rightarrow> http_response option \<Rightarrow> http_response option" where
  "proxyPhase0Request nt answer =
     Option.bind (requestPhase0Backend nt answer) (\<lambda>r.
       if \<not> response_ok r then Some r
       else if is_json r then Option.bind (json_parse nt (hr_text r)) (json_response nt (hr_status r))
       else body_response (hr_status r)
              (case hr_contentType r of None \<Rightarrow> ''text/plain; charset=utf-8''
               | Some t \<Rightarrow> if t = [] then ''text/plain; charset=utf-8'' else t) (hr_text r))"

text \<open>The body of a POST that is no JSON never reaches the backend.\<close>

definition proxyPhase0JsonPost ::
  "number_text \<Rightarrow> string \<Rightarrow> (json \<Rightarrow> http_response option) \<Rightarrow> http_response option" where
  "proxyPhase0JsonPost nt requestText backend =
     (case json_parse nt requestText of
        None \<Rightarrow> json_response nt 400 (message_json ''The request body must be valid JSON.'')
      | Some body \<Rightarrow> proxyPhase0Request nt (backend body))"

datatype client_failure = Phase0ClientError nat safe_error | ResponseTypeError string

definition readApiError :: "json \<Rightarrow> safe_error" where
  "readApiError v =
     (case mapSafeBackendError v of
        None \<Rightarrow> \<lparr>se_message = no_message, se_code = None, se_retryable = None\<rparr> | Some e \<Rightarrow> e)"

definition readResponseBody :: "number_text \<Rightarrow> http_response \<Rightarrow> json" where
  "readResponseBody nt r =
     (if hr_text r = [] then JNull
      else if \<not> is_json r then JStr (hr_text r)
      else (case json_parse nt (hr_text r) of None \<Rightarrow> JStr (hr_text r) | Some v \<Rightarrow> v))"

definition requestPhase0Api ::
  "number_text \<Rightarrow> (json option \<Rightarrow> string + 'a) \<Rightarrow> http_response \<Rightarrow> client_failure + 'a" where
  "requestPhase0Api nt mapResponse r =
     (let body = readResponseBody nt r
      in if \<not> response_ok r then Inl (Phase0ClientError (hr_status r) (readApiError body))
         else map_sum ResponseTypeError id (mapResponse (Some body)))"

definition isRetryableDocumentFailureCode :: "failure_code option \<Rightarrow> bool" where
  "isRetryableDocumentFailureCode errorCode \<longleftrightarrow>
     (case errorCode of None \<Rightarrow> False
      | Some c \<Rightarrow> c \<in> set [BUDGET_EXHAUSTED, GENERATION_OUTPUT_INVALID, GENERATION_OUTPUT_TRUNCATED, PROCESSING_TIMED_OUT,
                            PROVIDER_UNAVAILABLE])"


section \<open>The client reads what the backend writes\<close>

fun client_locator :: "citation_locator \<Rightarrow> phase0_locator" where
  "client_locator (PageLocator p) = Phase0Page p"
| "client_locator (TextRangeLocator s e) = Phase0TextRange s e"
| "client_locator (TimeLocator s e) = Phase0Time s e"
| "client_locator MalformedLocator = Phase0Page JNaN"

definition client_citation :: "citation \<Rightarrow> phase0_citation" where
  "client_citation c =
     \<lparr>pc_chunkId = cit_chunkId c, pc_locator = client_locator (cit_locator c), pc_snippet = cit_snippet c\<rparr>"

definition client_option :: "served_option \<Rightarrow> phase0_quiz_option" where
  "client_option o' = \<lparr>qo_id = so_id o', qo_optionIndex = JFin (of_int (so_optionIndex o')), qo_content = so_content o'\<rparr>"

definition client_question :: "served_question \<Rightarrow> phase0_quiz_question" where
  "client_question q =
     \<lparr>qq_id = sq_id q, qq_ordinal = JFin (of_int (sq_ordinal q)), qq_stem = sq_stem q, qq_options = map client_option (sq_options q)\<rparr>"

definition client_quiz :: "served_quiz \<Rightarrow> phase0_quiz" where
  "client_quiz z = \<lparr>pq_id = sv_id z, pq_questions = map client_question (sv_questions z)\<rparr>"

definition client_feedback :: "graded_answer \<Rightarrow> phase0_feedback" where
  "client_feedback r =
     \<lparr>pf_questionId = ga_questionId r, pf_selectedOptionId = ga_selectedOptionId r, pf_isCorrect = ga_isCorrect r,
      pf_explanation = ga_explanation r, pf_citation = client_citation (ga_citation r)\<rparr>"

definition client_result_item :: "attempt_question_result \<Rightarrow> phase0_result_item" where
  "client_result_item r =
     \<lparr>pf_questionId = ga_questionId r, pf_selectedOptionId = ga_selectedOptionId r, pf_isCorrect = ga_isCorrect r,
      pf_explanation = ga_explanation r, pf_citation = client_citation (ga_citation r),
      pi_ordinal = JFin (of_int (aq_ordinal r)), pi_stem = aq_stem r, pi_selectedOptionContent = aq_selectedOptionContent r,
      pi_correctOptionId = aq_correctOptionId r, pi_correctOptionContent = aq_correctOptionContent r\<rparr>"

definition client_attempt :: "attempt_result_response \<Rightarrow> phase0_attempt_result" where
  "client_attempt r =
     \<lparr>pt_attemptId = rd_attemptId r, pt_quizId = rd_quizId r, pt_submittedAt = rd_submittedAt r,
      pt_score = JFin (of_int (rd_score r)), pt_questionCount = JFin (of_int (rd_questionCount r)),
      pt_results = map client_result_item (rd_results r)\<rparr>"

named_theorems wire_simps \<open>readers and the JSON they read\<close>

lemma obj_get_simps [wire_simps]:
  "obj_get [] k = None"
  "obj_get ((k', v) # kvs) k = (if k = k' then Some v else obj_get kvs k)"
  by (simp_all add: obj_get_def)

lemma read_simps [wire_simps]:
  "read_object (Some (JObj kvs)) = Inr kvs"
  "read_string (Some (JStr s)) f = Inr s"
  "read_boolean (Some (JBool b)) f = Inr b"
  "read_number (Some (JNum (JFin r))) f = Inr (JFin r)"
  "read_number (Some (json_int n)) f = Inr (JFin (of_int n))"
  "read_array (Some (JArr vs)) f = Inr vs"
  by (simp_all add: read_object_def read_string_def read_boolean_def read_number_def read_array_def json_int_def)

lemma map_result_wire: "(\<And>x. x \<in> set xs \<Longrightarrow> f (g x) = Inr (h x)) \<Longrightarrow> map_result f (map g xs) = Inr (map h xs)"
  by (induction xs) auto

lemma mapCitationLocator_json:
  "isValidLocator l \<Longrightarrow> mapCitationLocator (Some (locator_json l)) = Inr (client_locator l)"
proof (cases l)
  case (PageLocator p)
  moreover assume "isValidLocator l"
  ultimately show ?thesis by (cases p) (simp_all add: mapCitationLocator_def wire_simps)
next
  case (TextRangeLocator s e)
  moreover assume "isValidLocator l"
  ultimately show ?thesis by (cases s; cases e) (simp_all add: mapCitationLocator_def wire_simps)
next
  case (TimeLocator s e)
  moreover assume "isValidLocator l"
  ultimately show ?thesis by (cases s; cases e) (simp_all add: mapCitationLocator_def wire_simps)
qed simp

lemma map_citation_json:
  assumes "isValidLocator (cit_locator c)"
  shows "\<exists>kvs. citation_json c = JObj kvs \<and> map_citation prefix kvs = Inr (client_citation c)"
  using mapCitationLocator_json [OF assms]
  by (simp add: citation_json_def map_citation_def wire_simps client_citation_def)

lemma quiz_read: "mapQuizResponse (Some (quiz_json z)) = Inr (client_quiz z)"
proof -
  have o': "mapQuizOption (Some (option_json x)) = Inr (client_option x)" for x
    by (simp add: mapQuizOption_def option_json_def client_option_def wire_simps)
  have q: "mapQuizQuestion (Some (question_json x)) = Inr (client_question x)" for x
    by (simp add: mapQuizQuestion_def question_json_def client_question_def wire_simps o' map_result_wire)
  show ?thesis
    by (simp add: mapQuizResponse_def quiz_json_def client_quiz_def wire_simps q map_result_wire)
qed

lemma feedback_read:
  assumes "isValidLocator (cit_locator (ga_citation r))"
  shows "mapPracticeFeedbackResponse (Some (feedback_json r)) = Inr (client_feedback r)"
  using map_citation_json [OF assms, of "''practiceFeedback''"]
  by (auto simp: mapPracticeFeedbackResponse_def feedback_json_def client_feedback_def wire_simps)

lemma result_item_read:
  assumes "isValidLocator (cit_locator (ga_citation r))"
  shows "mapAttemptResultItem (Some (result_json r)) = Inr (client_result_item r)"
  using map_citation_json [OF assms, of "''result''"]
  by (auto simp: mapAttemptResultItem_def result_json_def client_result_item_def wire_simps)

lemma attempt_read:
  assumes "\<forall>x\<in>set (rd_results r). isValidLocator (cit_locator (ga_citation x))"
  shows "mapAttemptResultResponse (Some (attempt_json r)) = Inr (client_attempt r)"
  using assms by (simp add: mapAttemptResultResponse_def attempt_json_def client_attempt_def wire_simps
      result_item_read map_result_wire)

lemma submission_read:
  "mapSubmitQuizAttemptResponse (Some (graded_json r)) =
     Inr \<lparr>px_attemptId = gd_attemptId r, px_score = JFin (of_nat (gd_score r)), px_questionCount = JFin (of_nat (gd_questionCount r))\<rparr>"
  by (simp add: mapSubmitQuizAttemptResponse_def graded_json_def wire_simps)


section \<open>Documents\<close>

definition client_document :: "document_response \<Rightarrow> phase0_document" where
  "client_document d =
     \<lparr>pd_id = dr_id d, pd_originalName = dr_originalName d, pd_type = (if dr_type d = PDF then Phase0Pdf else Phase0Text),
      pd_sizeBytes = JFin (of_int (dr_sizeBytes d)), pd_language = dr_language d, pd_status = dr_status d,
      pd_durationSec = map_option (\<lambda>n. JFin (of_int n)) (dr_durationSec d),
      pd_pageCount = map_option (\<lambda>n. JFin (of_int n)) (dr_pageCount d), pd_errorCode = dr_errorCode d,
      pd_errorMessage = dr_errorMessage d, pd_selectedModelKind = dr_selectedModelKind d,
      pd_selectedModelLabel = dr_selectedModelLabel d,
      pd_estimateStatus = Option.bind (dr_estimateStatus d) (map_of phase0_precisions),
      pd_estimatedCredits = map_option (\<lambda>n. JFin (of_int n)) (dr_estimatedCredits d),
      pd_settledCredits = map_option (\<lambda>n. JFin (of_int n)) (dr_settledCredits d),
      pd_budgetStatus = Option.bind (dr_budgetStatus d) (map_of phase0_budget_statuses),
      pd_createdAt = dr_createdAt d, pd_updatedAt = dr_updatedAt d\<rparr>"

definition readable_document :: "document_response \<Rightarrow> bool" where
  "readable_document d \<longleftrightarrow>
     (dr_type d = PDF \<or> dr_type d = TEXT_TYPE) \<and>
     (case dr_estimateStatus d of None \<Rightarrow> True | Some s \<Rightarrow> s \<in> fst ` set phase0_precisions) \<and>
     (case dr_budgetStatus d of None \<Rightarrow> True | Some s \<Rightarrow> s \<in> fst ` set phase0_budget_statuses)"

lemma nullable_simps [wire_simps]:
  "read_nullable read (Some (json_nullable f v)) field =
     (case v of None \<Rightarrow> Inr None
      | Some x \<Rightarrow> if f x = JNull then Inr None else and_then (read (Some (f x)) field) (\<lambda>y. Inr (Some y)))"
  by (simp add: read_nullable_def json_nullable_def split: option.split)

lemma nullable_string [wire_simps]:
  "read_nullable read_string (Some (json_nullable JStr v)) field = Inr v"
  by (simp add: wire_simps split: option.split)

lemma nullable_int [wire_simps]:
  "read_nullable read_number (Some (json_nullable json_int v)) field = Inr (map_option (\<lambda>n. JFin (of_int n)) v)"
  by (simp add: wire_simps json_int_def split: option.split)

lemma nullable_code [wire_simps]:
  "read_nullable readDocumentProcessingFailureCode (Some (json_nullable (\<lambda>c. JStr (failure_code_str c)) v)) field = Inr v"
proof (cases v)
  case (Some c)
  then show ?thesis
    by (cases c) (simp_all add: wire_simps readDocumentProcessingFailureCode_def read_choice_def)
qed (simp add: wire_simps)

lemma nullable_kind [wire_simps]:
  "read_nullable readModelSelectionKind (Some (json_nullable (\<lambda>k. JStr (selection_kind_str k)) v)) field = Inr v"
proof (cases v)
  case (Some k)
  then show ?thesis by (cases k) (simp_all add: wire_simps readModelSelectionKind_def read_choice_def)
qed (simp add: wire_simps)

lemma status_read [wire_simps]: "readDocumentStatus (Some (JStr (document_status_str st))) field = Inr st"
  by (cases st) (simp_all add: readDocumentStatus_def read_choice_def wire_simps)

lemma nullable_choice:
  "read_nullable (read_choice choices what) (Some (json_nullable JStr v)) field =
     (case v of None \<Rightarrow> Inr None
      | Some s \<Rightarrow> (case map_of choices s of None \<Rightarrow> Inl (expected field what) | Some x \<Rightarrow> Inr (Some x)))"
  by (simp add: wire_simps read_choice_def split: option.split)

lemma document_type_read:
  "readDocumentType (Some (JStr (document_type_str t))) =
     (if t = PDF then Inr Phase0Pdf else if t = TEXT_TYPE then Inr Phase0Text else Inl (expected ''document.type'' ''PDF or TEXT''))"
  by (cases t) (simp_all add: readDocumentType_def read_choice_def wire_simps)

lemma map_of_Some_in: "s \<in> fst ` set xs \<Longrightarrow> \<exists>x. map_of xs s = Some x"
  by (metis map_of_eq_None_iff option.exhaust)

lemma map_of_None_in: "s \<notin> fst ` set xs \<Longrightarrow> map_of xs s = None"
  by (simp add: map_of_eq_None_iff)

lemma nullable_choice_ok:
  assumes "case v of None \<Rightarrow> True | Some s \<Rightarrow> s \<in> fst ` set choices"
  shows "read_nullable (read_choice choices what) (Some (json_nullable JStr v)) field = Inr (Option.bind v (map_of choices))"
proof (cases v)
  case (Some s)
  with assms obtain x where "map_of choices s = Some x" using map_of_Some_in [of s choices] by auto
  with Some show ?thesis by (simp add: nullable_choice)
qed (simp add: nullable_choice)

lemma nullable_choice_bad:
  assumes "\<not> (case v of None \<Rightarrow> True | Some s \<Rightarrow> s \<in> fst ` set choices)"
  shows "read_nullable (read_choice choices what) (Some (json_nullable JStr v)) field = Inl (expected field what)"
proof (cases v)
  case (Some s)
  with assms have "map_of choices s = None" using map_of_None_in [of s choices] by simp
  with Some show ?thesis by (simp add: nullable_choice)
qed (use assms in simp)

lemma mapDocument_readable:
  assumes "readable_document d"
  shows "mapDocument (Some (document_json d)) = Inr (client_document d)"
proof -
  from assms have p: "read_nullable readEstimatePrecision (Some (json_nullable JStr (dr_estimateStatus d))) f =
      Inr (Option.bind (dr_estimateStatus d) (map_of phase0_precisions))" for f
    unfolding readable_document_def readEstimatePrecision_def by (elim conjE) (rule nullable_choice_ok)
  from assms have b: "read_nullable readBudgetStatus (Some (json_nullable JStr (dr_budgetStatus d))) f =
      Inr (Option.bind (dr_budgetStatus d) (map_of phase0_budget_statuses))" for f
    unfolding readable_document_def readBudgetStatus_def by (elim conjE) (rule nullable_choice_ok)
  from assms have t: "readDocumentType (Some (JStr (document_type_str (dr_type d)))) = Inr (if dr_type d = PDF then Phase0Pdf else Phase0Text)"
    by (auto simp: readable_document_def document_type_read)
  show ?thesis
    unfolding mapDocument_def document_json_def
    by (simp add: read_simps obj_get_simps t p b nullable_string nullable_int nullable_code nullable_kind status_read client_document_def)
qed

lemma mapDocument_unreadable:
  assumes "\<not> readable_document d"
  shows "\<exists>e. mapDocument (Some (document_json d)) = Inl e"
proof (cases "dr_type d = PDF \<or> dr_type d = TEXT_TYPE")
  case False
  then show ?thesis
    by (simp add: mapDocument_def document_json_def read_simps obj_get_simps document_type_read)
next
  case type: True
  then have t: "\<exists>x. readDocumentType (Some (JStr (document_type_str (dr_type d)))) = Inr x"
    by (auto simp: document_type_read)
  show ?thesis
  proof (cases "case dr_estimateStatus d of None \<Rightarrow> True | Some s \<Rightarrow> s \<in> fst ` set phase0_precisions")
    case False
    from nullable_choice_bad [OF this] t show ?thesis
      by (auto simp: mapDocument_def document_json_def read_simps obj_get_simps nullable_string nullable_int nullable_code
          nullable_kind status_read readEstimatePrecision_def)
  next
    case True
    with assms type have "\<not> (case dr_budgetStatus d of None \<Rightarrow> True | Some s \<Rightarrow> s \<in> fst ` set phase0_budget_statuses)"
      by (simp add: readable_document_def)
    from nullable_choice_bad [OF this] nullable_choice_ok [OF True] t show ?thesis
      by (auto simp: mapDocument_def document_json_def read_simps obj_get_simps nullable_string nullable_int nullable_code
          nullable_kind status_read readEstimatePrecision_def readBudgetStatus_def)
  qed
qed

lemma documents_read:
  "mapDocumentsResponse (Some (JArr (map document_json ds))) = Inr ps \<longleftrightarrow>
     list_all readable_document ds \<and> ps = map client_document ds"
proof (cases "list_all readable_document ds")
  case True
  then have "map_result (\<lambda>x. mapDocument (Some x)) (map document_json ds) = Inr (map client_document ds)"
    by (intro map_result_wire mapDocument_readable) (simp add: list_all_iff)
  with True show ?thesis by (auto simp: mapDocumentsResponse_def read_simps)
next
  case False
  then obtain d where d: "d \<in> set ds" "\<not> readable_document d" by (auto simp: list_all_iff)
  then obtain e where e: "mapDocument (Some (document_json d)) = Inl e" using mapDocument_unreadable by blast
  have "map_result (\<lambda>x. mapDocument (Some x)) (map document_json ds) \<noteq> Inr ps"
  proof
    assume "map_result (\<lambda>x. mapDocument (Some x)) (map document_json ds) = Inr ps"
    then have "list_all2 (\<lambda>x y. mapDocument (Some x) = Inr y) (map document_json ds) ps" by (simp add: map_result_Inr)
    with d(1) obtain y where "mapDocument (Some (document_json d)) = Inr y"
      by (fastforce dest: list_all2_in1)
    with e show False by simp
  qed
  with False show ?thesis by (simp add: mapDocumentsResponse_def read_simps)
qed

text \<open>C15 The list of documents the browser shows: the client reads the backend's answer exactly when
  every document of the list is a PDF or text file with a budget status and an estimate the client
  knows, and then every field arrives; a single document of another kind hides the whole list.\<close>

theorem client_reads_documents:
  "mapDocumentsResponse (Some (JArr (map document_json ds))) = Inr ps \<longleftrightarrow>
     list_all readable_document ds \<and> ps = map client_document ds"
  by (rule documents_read)

section \<open>Error texts\<close>

definition safe_text :: "string \<Rightarrow> bool" where
  "safe_text s \<longleftrightarrow> s \<noteq> [] \<and> length s \<le> 512 \<and> (\<forall>c\<in>set s. \<not> is_control c)"

lemma js_trim_set: "set (js_trim s) \<subseteq> set s"
  by (auto simp: js_trim_def dest!: set_dropWhileD)

lemma js_trim_length: "length (js_trim s) \<le> length s"
  unfolding js_trim_def length_rev
  using length_dropWhile_le [of is_ws "rev (dropWhile is_ws s)"] length_dropWhile_le [of is_ws s] by simp

lemma no_control_map: "c \<in> set (map (\<lambda>c. if is_control c then CHR 0x20 else c) v) \<Longrightarrow> \<not> is_control c"
  by (auto simp: is_control_def)

lemma safe_no_message: "safe_text no_message"
  unfolding safe_text_def no_message_def by code_simp

lemma compact_no_control:
  "\<forall>c\<in>set (js_trim (map (\<lambda>c. if is_control c then CHR 0x20 else c) v)). \<not> is_control c"
proof
  fix c assume "c \<in> set (js_trim (map (\<lambda>c. if is_control c then CHR 0x20 else c) v))"
  from this js_trim_set have "c \<in> set (map (\<lambda>c. if is_control c then CHR 0x20 else c) v)" by (rule subsetD [rotated])
  then show "\<not> is_control c" by (rule no_control_map)
qed

lemma safe_take: "take 512 t \<noteq> [] \<Longrightarrow> \<forall>c\<in>set t. \<not> is_control c \<Longrightarrow> safe_text (take 512 t)"
  unfolding safe_text_def by (simp del: take_eq_Nil) (blast dest: in_set_takeD)

lemma sanitize_safe: "safe_text (sanitizeBackendErrorText v)"
  unfolding sanitizeBackendErrorText_def Let_def
  using safe_no_message safe_take [OF _ compact_no_control [of v]] by (rule if_split [THEN iffD2, OF conjI, OF impI impI])

lemma no_control_id: "(\<forall>c\<in>set t. \<not> is_control c) \<Longrightarrow> map (\<lambda>c. if is_control c then CHR 0x20 else c) t = t"
  by (simp add: map_idI)

lemma sanitize_idem:
  assumes "length m \<le> 512"
  shows "sanitizeBackendErrorText (sanitizeBackendErrorText m) = sanitizeBackendErrorText m"
proof -
  let ?t = "js_trim (map (\<lambda>c. if is_control c then CHR 0x20 else c) m)"
  have len: "length ?t \<le> 512" using assms js_trim_length [of "map (\<lambda>c. if is_control c then CHR 0x20 else c) m"] by simp
  have n: "sanitizeBackendErrorText no_message = no_message" by code_simp
  show ?thesis
  proof (cases "?t = []")
    case True
    then show ?thesis using n by (simp add: sanitizeBackendErrorText_def)
  next
    case False
    note compact_no_control [of m]
    from no_control_id [OF this] len False show ?thesis by (simp add: sanitizeBackendErrorText_def Let_def)
  qed
qed

lemma error_text_safe: "safe_text (error_text m)"
  by (simp add: error_text_def sanitize_safe safe_no_message split: option.split json.split)

lemma safe_error_safe:
  assumes "mapSafeBackendError v = Some e"
  shows "safe_text (se_message e) \<and> (\<forall>c. se_code e = Some c \<longrightarrow> safe_text c)"
  using assms by (auto simp: mapSafeBackendError_def Let_def sanitize_safe error_text_safe split: json.splits option.splits)

lemma client_error_safe:
  assumes "requestPhase0Api nt m r = Inl (Phase0ClientError st e)"
  shows "st = hr_status r \<and> safe_text (se_message e) \<and> (\<forall>c. se_code e = Some c \<longrightarrow> safe_text c)"
proof -
  have e: "st = hr_status r" "e = readApiError (readResponseBody nt r)"
    using assms by (cases "m (Some (readResponseBody nt r))"; simp add: requestPhase0Api_def Let_def split: if_splits)+
  show ?thesis
  proof (cases "mapSafeBackendError (readResponseBody nt r)")
    case None
    then show ?thesis by (simp add: e readApiError_def safe_no_message)
  next
    case (Some e')
    with safe_error_safe [OF this] show ?thesis by (simp add: e readApiError_def)
  qed
qed

lemma safe_error_roundtrip:
  assumes "length (se_message e) \<le> 512" and "sanitizeBackendErrorText (se_message e) = se_message e"
    and "\<forall>c. se_code e = Some c \<longrightarrow> sanitizeBackendErrorText c = c" and "se_code e = None \<longrightarrow> se_retryable e = None"
  shows "mapSafeBackendError (safe_error_json e) = Some e"
  using assms by (cases e; cases "se_code e"; cases "se_retryable e")
    (simp_all add: mapSafeBackendError_def safe_error_json_def obj_get_simps error_text_def)


text \<open>A backend error that passes the route handler and the client.\<close>

lemma json_response_read:
  assumes "json_response nt status v = Some r"
  shows "hr_status r = status" and "hr_text r = json_str nt v" and "is_json r" and "response_ok r \<longleftrightarrow> 200 \<le> status \<and> status \<le> 299"
proof -
  from assms have r: "r = \<lparr>hr_status = status, hr_contentType = Some ''application/json'', hr_text = json_str nt v\<rparr>"
    by (simp add: json_response_def body_response_def split: if_splits)
  show "hr_status r = status" "hr_text r = json_str nt v" "response_ok r \<longleftrightarrow> 200 \<le> status \<and> status \<le> 299"
    by (simp_all add: r response_ok_def)
  have "starts_with ''application/json'' (drop 0 ''application/json'')" by (simp add: starts_with_def)
  then show "is_json r" unfolding is_json_def r by (auto simp: list_ex_iff intro: bexI [of _ 0])
qed

lemma safe_error_plain: "json_plain nt (safe_error_json e)"
proof -
  have "\<not> is_array_index ''message'' \<and> \<not> is_array_index ''code'' \<and> \<not> is_array_index ''retryable''" by code_simp
  then show ?thesis
    unfolding safe_error_json_def json_plain.simps
    by (intro conjI object_entries_plain) (auto split: option.splits)
qed

lemma object_error_passes:
  assumes r: "is_json r" "400 \<le> hr_status r" "hr_status r \<le> 599" "json_parse nt (hr_text r) = Some (JObj kvs)"
    and e: "mapSafeBackendError (JObj kvs) = Some e" "mapSafeBackendError (safe_error_json e) = Some e"
  shows "\<exists>r'. proxyPhase0Request nt (Some r) = Some r' \<and> requestPhase0Api nt f r' = Inl (Phase0ClientError (hr_status r) e)"
proof -
  obtain r' where r': "json_response nt (hr_status r) (safe_error_json e) = Some r'"
    using r by (simp add: json_response_def body_response_def)
  note r'_simps = json_response_read [OF r']
  have nok: "\<not> response_ok r" "\<not> response_ok r'" using r r'_simps by (auto simp: response_ok_def)
  have proxy: "proxyPhase0Request nt (Some r) = Some r'"
    using nok by (simp add: proxyPhase0Request_def requestPhase0Backend_def toErrorResponse_def r e(1) r')
  have "readResponseBody nt r' = safe_error_json e"
    using r'_simps by (simp add: readResponseBody_def json_round_trip safe_error_plain json_str_nonempty)
  then have "requestPhase0Api nt f r' = Inl (Phase0ClientError (hr_status r) e)"
    using nok r'_simps(1) e(2) by (simp add: requestPhase0Api_def readApiError_def)
  with proxy show ?thesis by blast
qed

text \<open>What is to be shown of a text: control characters as spaces, none around it, and a standing message for nothing.\<close>

definition displayed_text :: "string \<Rightarrow> string" where
  "displayed_text m =
     (let t = js_trim (map (\<lambda>c. if of_char c \<le> (31 :: nat) \<or> of_char c = (127 :: nat) then CHR '' '' else c) m)
      in if t = [] then ''The Phase 0 API request failed.'' else t)"

lemma displayed_plain:
  assumes "m \<noteq> []" and "js_trim m = m" and "\<forall>c\<in>set m. 32 \<le> (of_char c :: nat) \<and> (of_char c :: nat) \<noteq> 127"
  shows "displayed_text m = m"
proof -
  have "map (\<lambda>c. if of_char c \<le> (31 :: nat) \<or> of_char c = (127 :: nat) then CHR '' '' else c) m = m"
    using assms(3) by (intro map_idI) auto
  with assms(1,2) show ?thesis by (simp add: displayed_text_def)
qed

lemma sanitized_text: "length m \<le> 512 \<Longrightarrow> sanitizeBackendErrorText m = displayed_text m"
  using js_trim_length [of "map (\<lambda>c. if is_control c then CHR 0x20 else c) m"]
  by (simp add: sanitizeBackendErrorText_def displayed_text_def no_message_def is_control_def Let_def)

text \<open>The code and the answer to trying again, which only counts beside a code.\<close>

definition shown_code :: "(string \<times> json) list \<Rightarrow> string option" where
  "shown_code kvs = (case obj_get kvs ''code'' of Some (JStr c) \<Rightarrow> Some (displayed_text c) | _ \<Rightarrow> None)"

definition shown_retryable :: "(string \<times> json) list \<Rightarrow> bool option" where
  "shown_retryable kvs =
     (case obj_get kvs ''code'' of
        Some (JStr c) \<Rightarrow> (case obj_get kvs ''retryable'' of Some (JBool b) \<Rightarrow> Some b | _ \<Rightarrow> None)
      | _ \<Rightarrow> None)"

lemma error_passes:
  assumes r: "is_json r" "400 \<le> hr_status r" "hr_status r \<le> 599" "json_parse nt (hr_text r) = Some (JObj kvs)"
    and body: "obj_get kvs ''message'' = Some (JStr m)"
    and len: "length m \<le> 512" "\<forall>c. obj_get kvs ''code'' = Some (JStr c) \<longrightarrow> length c \<le> 512"
  shows "\<exists>r'. proxyPhase0Request nt (Some r) = Some r' \<and>
    requestPhase0Api nt f r' = Inl (Phase0ClientError (hr_status r)
      \<lparr>se_message = displayed_text m, se_code = shown_code kvs, se_retryable = shown_retryable kvs\<rparr>)"
proof -
  let ?e = "\<lparr>se_message = displayed_text m, se_code = shown_code kvs, se_retryable = shown_retryable kvs\<rparr>"
  have e: "mapSafeBackendError (JObj kvs) = Some ?e"
    using len(2) by (auto simp: mapSafeBackendError_def body error_text_def shown_code_def shown_retryable_def sanitized_text len(1)
        split: option.split json.split)
  have kept: "sanitizeBackendErrorText (displayed_text t) = displayed_text t" if "length t \<le> 512" for t
    using sanitize_idem [OF that] by (simp add: sanitized_text [OF that])
  have "safe_text (displayed_text m)" using sanitize_safe [of m] by (simp add: sanitized_text [OF len(1)])
  then have "mapSafeBackendError (safe_error_json ?e) = Some ?e"
    using kept [OF len(1)] kept len(2)
    by (intro safe_error_roundtrip) (auto simp: safe_text_def shown_code_def shown_retryable_def split: option.splits json.splits)
  with r e show ?thesis by (rule object_error_passes)
qed

text \<open>C31 Error texts the browser shows: whatever a server answers, an error the client raises carries the
  status of the answer and a message, and a code if any, of 1 to 512 code units without control
  characters; and a message of the backend of up to 512 code units reaches the client through the
  route handler whole, with its status, its code and whether to try again: only control characters become spaces,
  white space around it goes and an empty text becomes the standing message, so a printable text arrives as it was sent.\<close>

theorem client_errors_safe:
  "(requestPhase0Api nt f r = Inl (Phase0ClientError st e) \<longrightarrow>
            st = hr_status r \<and> safe_text (se_message e) \<and> (\<forall>c. se_code e = Some c \<longrightarrow> safe_text c)) \<and>
         (is_json r \<and> 400 \<le> hr_status r \<and> hr_status r \<le> 599 \<and> json_parse nt (hr_text r) = Some (JObj kvs) \<and>
          obj_get kvs ''message'' = Some (JStr m) \<and> length m \<le> 512 \<and>
          (\<forall>c. obj_get kvs ''code'' = Some (JStr c) \<longrightarrow> length c \<le> 512) \<longrightarrow>
            (\<exists>r'. proxyPhase0Request nt (Some r) = Some r' \<and>
               requestPhase0Api nt f r' = Inl (Phase0ClientError (hr_status r)
                 \<lparr>se_message = displayed_text m, se_code = shown_code kvs, se_retryable = shown_retryable kvs\<rparr>))) \<and>
         (m \<noteq> [] \<and> js_trim m = m \<and> (\<forall>c\<in>set m. 32 \<le> (of_char c :: nat) \<and> (of_char c :: nat) \<noteq> 127) \<longrightarrow> displayed_text m = m)"
proof (intro conjI impI)
  assume "requestPhase0Api nt f r = Inl (Phase0ClientError st e)"
  then have *: "st = hr_status r \<and> safe_text (se_message e) \<and> (\<forall>c. se_code e = Some c \<longrightarrow> safe_text c)"
    by (rule client_error_safe)
  then show "st = hr_status r" "safe_text (se_message e)" "\<forall>c. se_code e = Some c \<longrightarrow> safe_text c" by simp_all
next
  assume *: "is_json r \<and> 400 \<le> hr_status r \<and> hr_status r \<le> 599 \<and> json_parse nt (hr_text r) = Some (JObj kvs) \<and>
          obj_get kvs ''message'' = Some (JStr m) \<and> length m \<le> 512 \<and>
          (\<forall>c. obj_get kvs ''code'' = Some (JStr c) \<longrightarrow> length c \<le> 512)"
  show "\<exists>r'. proxyPhase0Request nt (Some r) = Some r' \<and>
               requestPhase0Api nt f r' = Inl (Phase0ClientError (hr_status r)
                 \<lparr>se_message = displayed_text m, se_code = shown_code kvs, se_retryable = shown_retryable kvs\<rparr>)"
    using * by (elim conjE) (rule error_passes; assumption)
next
  assume "m \<noteq> [] \<and> js_trim m = m \<and> (\<forall>c\<in>set m. 32 \<le> (of_char c :: nat) \<and> (of_char c :: nat) \<noteq> 127)"
  then show "displayed_text m = m" by (elim conjE) (rule displayed_plain)
qed


text \<open>An error of the backend that passes the route handler.\<close>

definition safe_numbers :: number_text where
  "safe_numbers = \<lparr>nt_str = (\<lambda>r. []), nt_of = (\<lambda>s. 0)\<rparr>"

lemma client_errors_safe_witness:
  "\<exists>r'. proxyPhase0Request safe_numbers
      (Some \<lparr>hr_status = 404, hr_contentType = Some ''application/json'', hr_text = json_str safe_numbers (message_json ''Quiz'')\<rparr>) = Some r' \<and>
    requestPhase0Api safe_numbers mapQuizResponse r' =
      Inl (Phase0ClientError 404 \<lparr>se_message = ''Quiz'', se_code = None, se_retryable = None\<rparr>)"
proof -
  let ?r = "\<lparr>hr_status = 404, hr_contentType = Some ''application/json'', hr_text = json_str safe_numbers (message_json ''Quiz'')\<rparr>"
  have r: "is_json ?r" "json_parse safe_numbers (hr_text ?r) = Some (JObj [(''message'', JStr ''Quiz'')])"
      "js_trim ''Quiz'' = ''Quiz''" "\<forall>c\<in>set ''Quiz''. 32 \<le> (of_char c :: nat) \<and> (of_char c :: nat) \<noteq> 127"
    by code_simp+
  have s: "shown_code [(''message'', JStr ''Quiz'')] = None" "shown_retryable [(''message'', JStr ''Quiz'')] = None"
    by (simp_all add: shown_code_def shown_retryable_def obj_get_simps)
  note c = client_errors_safe [of safe_numbers mapQuizResponse ?r 0 undefined "[(''message'', JStr ''Quiz'')]" "''Quiz''"]
  have shown: "displayed_text ''Quiz'' = ''Quiz''" using conjunct2 [OF conjunct2 [OF c]] r(3,4) by blast
  have "\<exists>r'. proxyPhase0Request safe_numbers (Some ?r) = Some r' \<and>
      requestPhase0Api safe_numbers mapQuizResponse r' = Inl (Phase0ClientError (hr_status ?r)
        \<lparr>se_message = displayed_text ''Quiz'', se_code = shown_code [(''message'', JStr ''Quiz'')],
         se_retryable = shown_retryable [(''message'', JStr ''Quiz'')]\<rparr>)"
    by (rule mp [OF conjunct1 [OF conjunct2 [OF c]]]) (use r(1,2) in \<open>simp add: obj_get_simps\<close>)
  then show ?thesis unfolding shown s by simp
qed

end
