(* ===== verification/LearnerSession.thy ===== *)
theory LearnerSession imports ClientApi JsonText "HOL-Library.AList" begin

text \<open>
  Taking a quiz in the browser: \<open>components/quiz/quiz-session.ts\<close> (the draft in the session storage),
  \<open>quiz-play-utils.ts\<close>, \<open>use-quiz-session.ts\<close> and the handlers of \<open>quiz-play-screen.tsx\<close>.  A page is the
  state of these hooks; an event handler, the render it causes and the effects of that render are one step.

  The answers of a draft are the entries of an object in order, \<open>null\<close> for a question without an answer.
\<close>

section \<open>Drafts\<close>

datatype quiz_mode = PRACTICE | TEST

fun quiz_mode_str :: "quiz_mode \<Rightarrow> string" where
  "quiz_mode_str PRACTICE = ''practice''"
| "quiz_mode_str TEST = ''test''"

record draft_snapshot =
  ds_answers :: "(string \<times> string option) list"
  ds_currentIndex :: int
  ds_elapsedSec :: int
  ds_flaggedQuestionIds :: "string list"

record quiz_draft = draft_snapshot +
  qd_mode :: quiz_mode
  qd_updatedAt :: string

text \<open>
  The session storage: absent on the server, and a browser may refuse to read or to write
  (\<open>DOMException\<close>), which the code swallows.
\<close>

record session_storage =
  st_readable :: bool
  st_writable :: bool
  st_items :: "string \<rightharpoonup> string"

definition readStorageValue :: "session_storage \<Rightarrow> string \<Rightarrow> string option" where
  "readStorageValue st key = (if st_readable st then st_items st key else None)"

definition writeStorageValue :: "string \<Rightarrow> string \<Rightarrow> session_storage \<Rightarrow> session_storage" where
  "writeStorageValue key v st = (if st_writable st then st\<lparr>st_items := (st_items st)(key \<mapsto> v)\<rparr> else st)"

definition removeStorageValue :: "string \<Rightarrow> session_storage \<Rightarrow> session_storage" where
  "removeStorageValue key st = (if st_writable st then st\<lparr>st_items := (st_items st)(key := None)\<rparr> else st)"

definition getQuizDraftKey :: "string \<Rightarrow> quiz_mode \<Rightarrow> string" where
  "getQuizDraftKey quizId mode = ''learning-platform:quiz-draft'' @ '':'' @ quizId @ '':'' @ quiz_mode_str mode"

text \<open>
  The stored object.  Reading takes the parsed value for a draft: an answer that is no string counts as
  none, as everywhere in the code, and any other field of another type, which no code writes, is not
  modelled further than that there is no draft.
\<close>

definition answer_json :: "string option \<Rightarrow> json" where
  "answer_json v = (case v of None \<Rightarrow> JNull | Some s \<Rightarrow> JStr s)"

definition draft_json :: "quiz_draft \<Rightarrow> json" where
  "draft_json d =
     JObj [(''answers'', JObj (map (\<lambda>kv. (fst kv, answer_json (snd kv))) (ds_answers d))),
           (''currentIndex'', JNum (JFin (of_int (ds_currentIndex d)))), (''elapsedSec'', JNum (JFin (of_int (ds_elapsedSec d)))),
           (''flaggedQuestionIds'', JArr (map JStr (ds_flaggedQuestionIds d))), (''mode'', JStr (quiz_mode_str (qd_mode d))),
           (''updatedAt'', JStr (qd_updatedAt d))]"

definition json_answer :: "json \<Rightarrow> string option" where
  "json_answer v = (case v of JStr s \<Rightarrow> Some s | _ \<Rightarrow> None)"

definition typed_int :: "json option \<Rightarrow> int option" where
  "typed_int v = (case v of Some (JNum (JFin r)) \<Rightarrow> if of_int \<lfloor>r\<rfloor> = r then Some \<lfloor>r\<rfloor> else None | _ \<Rightarrow> None)"

fun json_strings :: "json list \<Rightarrow> string list option" where
  "json_strings [] = Some []"
| "json_strings (v # vs) = Option.bind (json_answer v) (\<lambda>s. map_option ((#) s) (json_strings vs))"

definition json_mode :: "json option \<Rightarrow> quiz_mode option" where
  "json_mode v = (if v = Some (JStr ''practice'') then Some PRACTICE else if v = Some (JStr ''test'') then Some TEST else None)"

definition typed_draft :: "json \<Rightarrow> quiz_draft option" where
  "typed_draft v =
     (case v of
        JObj kvs \<Rightarrow>
          (case (obj_get kvs ''answers'', obj_get kvs ''flaggedQuestionIds'') of
             (Some (JObj answers), Some (JArr flags)) \<Rightarrow>
               Option.bind (typed_int (obj_get kvs ''currentIndex'')) (\<lambda>i.
               Option.bind (typed_int (obj_get kvs ''elapsedSec'')) (\<lambda>e.
               Option.bind (json_strings flags) (\<lambda>fs.
               Option.bind (json_mode (obj_get kvs ''mode'')) (\<lambda>m.
               Option.bind (Option.bind (obj_get kvs ''updatedAt'') json_answer) (\<lambda>u.
                 Some \<lparr>ds_answers = map (\<lambda>kv. (fst kv, json_answer (snd kv))) answers, ds_currentIndex = i, ds_elapsedSec = e,
                       ds_flaggedQuestionIds = fs, qd_mode = m, qd_updatedAt = u\<rparr>)))))
           | _ \<Rightarrow> None)
      | _ \<Rightarrow> None)"

definition readQuizDraft :: "number_text \<Rightarrow> session_storage \<Rightarrow> string \<Rightarrow> quiz_mode \<Rightarrow> quiz_draft option" where
  "readQuizDraft nt st quizId mode =
     (case readStorageValue st (getQuizDraftKey quizId mode) of
        None \<Rightarrow> None | Some raw \<Rightarrow> if raw = [] then None else Option.bind (json_parse nt raw) typed_draft)"

definition writeQuizDraft ::
  "number_text \<Rightarrow> string \<Rightarrow> quiz_mode \<Rightarrow> quiz_draft \<Rightarrow> session_storage \<Rightarrow> session_storage" where
  "writeQuizDraft nt quizId mode draft = writeStorageValue (getQuizDraftKey quizId mode) (json_str nt (draft_json draft))"

definition clearQuizDraft :: "string \<Rightarrow> quiz_mode \<Rightarrow> session_storage \<Rightarrow> session_storage" where
  "clearQuizDraft quizId mode = removeStorageValue (getQuizDraftKey quizId mode)"

definition createDraftSnapshot :: "draft_snapshot \<Rightarrow> quiz_mode \<Rightarrow> string \<Rightarrow> quiz_draft" where
  "createDraftSnapshot d mode now =
     \<lparr>ds_answers = ds_answers d, ds_currentIndex = ds_currentIndex d, ds_elapsedSec = ds_elapsedSec d,
      ds_flaggedQuestionIds = ds_flaggedQuestionIds d, qd_mode = mode, qd_updatedAt = now\<rparr>"

text \<open>The test \<open>typeof answers[questionId] === 'string'\<close>.\<close>

definition answer_of :: "(string \<times> string option) list \<Rightarrow> string \<Rightarrow> string option" where
  "answer_of answers k = (case map_of answers k of Some v \<Rightarrow> v | None \<Rightarrow> None)"

definition createEmptyAnswers :: "phase0_quiz \<Rightarrow> (string \<times> string option) list" where
  "createEmptyAnswers quiz = fold (\<lambda>q. AList.update (qq_id q) None) (pq_questions quiz) []"

text \<open>\<open>new Map(entries)\<close>: a later entry of the same key wins.\<close>

definition valid_options :: "phase0_quiz \<Rightarrow> string \<Rightarrow> string list option" where
  "valid_options quiz k = map_of (rev (map (\<lambda>q. (qq_id q, map qo_id (qq_options q))) (pq_questions quiz))) k"

definition sanitized_answers :: "phase0_quiz \<Rightarrow> (string \<times> string option) list \<Rightarrow> (string \<times> string option) list" where
  "sanitized_answers quiz answers =
     fold (\<lambda>q m. case answer_of answers (qq_id q) of
                   None \<Rightarrow> m
                 | Some o' \<Rightarrow> (case valid_options quiz (qq_id q) of
                     None \<Rightarrow> m | Some os \<Rightarrow> if o' \<in> set os then AList.update (qq_id q) (Some o') m else m))
       (pq_questions quiz) (createEmptyAnswers quiz)"

definition sanitizeDraft :: "string \<Rightarrow> phase0_quiz \<Rightarrow> quiz_draft option \<Rightarrow> quiz_draft" where
  "sanitizeDraft now quiz draft =
     (case draft of
        None \<Rightarrow> \<lparr>ds_answers = createEmptyAnswers quiz, ds_currentIndex = 0, ds_elapsedSec = 0, ds_flaggedQuestionIds = [],
                 qd_mode = PRACTICE, qd_updatedAt = now\<rparr>
      | Some d \<Rightarrow>
          \<lparr>ds_answers = sanitized_answers quiz (ds_answers d),
           ds_currentIndex = min (max (ds_currentIndex d) 0) (max (int (length (pq_questions quiz)) - 1) 0),
           ds_elapsedSec = max 0 (ds_elapsedSec d),
           ds_flaggedQuestionIds = filter (\<lambda>k. k \<in> set (map qq_id (pq_questions quiz))) (ds_flaggedQuestionIds d),
           qd_mode = qd_mode d, qd_updatedAt = qd_updatedAt d\<rparr>)"

definition buildSubmitAnswers :: "phase0_quiz \<Rightarrow> (string \<times> string option) list \<Rightarrow> attempt_selection list" where
  "buildSubmitAnswers quiz answers =
     concat (map (\<lambda>q. case answer_of answers (qq_id q) of None \<Rightarrow> [] | Some o' \<Rightarrow> [\<lparr>sel_optionId = o', sel_questionId = qq_id q\<rparr>])
       (pq_questions quiz))"

text \<open>\<open>padStart(2, '0')\<close> of a number below 100.\<close>

definition pad2 :: "nat \<Rightarrow> string" where
  "pad2 n = (if n < 10 then ''0'' @ nat_str n else nat_str n)"

definition formatDuration :: "int \<Rightarrow> string" where
  "formatDuration totalSec =
     (let safeTotal = nat (max 0 totalSec); hours = safeTotal div 3600; minutes = safeTotal mod 3600 div 60; seconds = safeTotal mod 60
      in if 0 < hours then nat_str hours @ '':'' @ pad2 minutes @ '':'' @ pad2 seconds
         else nat_str minutes @ '':'' @ pad2 seconds)"

section \<open>The page\<close>

record missing_answer_summary =
  mi_count :: nat
  mi_firstQuestionId :: string
  mi_firstDisplayPosition :: int

record quiz_page =
  pg_draft :: draft_snapshot
  pg_storage :: session_storage
  pg_isSubmitting :: bool
  pg_missing :: "missing_answer_summary option"
  pg_submitted :: bool

text \<open>The effect after a render: the draft is written.\<close>

definition persist_effect ::
  "number_text \<Rightarrow> string \<Rightarrow> phase0_quiz \<Rightarrow> quiz_mode \<Rightarrow> quiz_page \<Rightarrow> quiz_page" where
  "persist_effect nt now quiz mode p =
     p\<lparr>pg_storage := writeQuizDraft nt (pq_id quiz) mode (createDraftSnapshot (pg_draft p) mode now) (pg_storage p)\<rparr>"

definition open_page ::
  "number_text \<Rightarrow> string \<Rightarrow> phase0_quiz \<Rightarrow> quiz_mode \<Rightarrow> bool \<Rightarrow> session_storage \<Rightarrow> quiz_page" where
  "open_page nt now quiz mode resume st =
     persist_effect nt now quiz mode
       \<lparr>pg_draft = draft_snapshot.truncate
          (sanitizeDraft now quiz (if resume then readQuizDraft nt st (pq_id quiz) mode else None)),
        pg_storage = st, pg_isSubmitting = False, pg_missing = None, pg_submitted = False\<rparr>"

definition selectOption :: "string \<Rightarrow> string \<Rightarrow> quiz_page \<Rightarrow> quiz_page" where
  "selectOption questionId optionId p =
     p\<lparr>pg_draft := (pg_draft p)\<lparr>ds_answers := AList.update questionId (Some optionId) (ds_answers (pg_draft p))\<rparr>, pg_missing := None\<rparr>"

definition toggleFlag :: "string \<Rightarrow> quiz_page \<Rightarrow> quiz_page" where
  "toggleFlag questionId p =
     p\<lparr>pg_draft := (pg_draft p)\<lparr>ds_flaggedQuestionIds :=
        (if questionId \<in> set (ds_flaggedQuestionIds (pg_draft p))
         then filter (\<lambda>k. k \<noteq> questionId) (ds_flaggedQuestionIds (pg_draft p))
         else ds_flaggedQuestionIds (pg_draft p) @ [questionId])\<rparr>\<rparr>"

definition moveToQuestion :: "phase0_quiz \<Rightarrow> int \<Rightarrow> quiz_page \<Rightarrow> quiz_page" where
  "moveToQuestion quiz index p =
     p\<lparr>pg_draft := (pg_draft p)\<lparr>ds_currentIndex := min (max index 0) (int (length (pq_questions quiz)) - 1)\<rparr>\<rparr>"

definition second_passes :: "quiz_page \<Rightarrow> quiz_page" where
  "second_passes p = p\<lparr>pg_draft := (pg_draft p)\<lparr>ds_elapsedSec := ds_elapsedSec (pg_draft p) + 1\<rparr>\<rparr>"

definition unanswered :: "(string \<times> string option) list \<Rightarrow> phase0_quiz_question \<Rightarrow> bool" where
  "unanswered answers q \<longleftrightarrow> answer_of answers (qq_id q) = None"

fun first_index :: "('a \<Rightarrow> bool) \<Rightarrow> 'a list \<Rightarrow> nat option" where
  "first_index P [] = None"
| "first_index P (x # xs) = (if P x then Some 0 else map_option Suc (first_index P xs))"

text \<open>\<open>handleSubmit\<close> up to the request: the body it sends, \<^const>\<open>None\<close> if it sends none.\<close>

definition handleSubmit :: "phase0_quiz \<Rightarrow> quiz_page \<Rightarrow> attempt_selection list option \<times> quiz_page" where
  "handleSubmit quiz p =
     (if pg_isSubmitting p then (None, p)
      else case first_index (unanswered (ds_answers (pg_draft p))) (pq_questions quiz) of
        Some i \<Rightarrow>
          (None, (moveToQuestion quiz (int i) p)\<lparr>pg_missing := Some
             \<lparr>mi_count = length (filter (unanswered (ds_answers (pg_draft p))) (pq_questions quiz)),
              mi_firstQuestionId = qq_id (pq_questions quiz ! i), mi_firstDisplayPosition = int i + 1\<rparr>\<rparr>)
      | None \<Rightarrow> (Some (buildSubmitAnswers quiz (ds_answers (pg_draft p))), p\<lparr>pg_isSubmitting := True\<rparr>))"

text \<open>The continuation of the request.\<close>

definition submit_answered :: "phase0_quiz \<Rightarrow> quiz_mode \<Rightarrow> bool \<Rightarrow> quiz_page \<Rightarrow> quiz_page" where
  "submit_answered quiz mode accepted p =
     (if accepted
      then p\<lparr>pg_storage := clearQuizDraft (pq_id quiz) mode (pg_storage p), pg_submitted := True, pg_isSubmitting := False\<rparr>
      else p\<lparr>pg_isSubmitting := False\<rparr>)"

text \<open>
  What may happen on an open page, in any order: the timer ticks, the learner chooses, flags, moves or
  submits, the request is answered.  Every change of the draft is followed by its effect.
\<close>

inductive page_step :: "number_text \<Rightarrow> phase0_quiz \<Rightarrow> quiz_mode \<Rightarrow> quiz_page \<Rightarrow> quiz_page \<Rightarrow> bool"
  for nt quiz mode
where
  select: "q \<in> set (pq_questions quiz) \<Longrightarrow> x \<in> set (qq_options q) \<Longrightarrow>
    page_step nt quiz mode p (persist_effect nt now quiz mode (selectOption (qq_id q) (qo_id x) p))"
| flag: "q \<in> set (pq_questions quiz) \<Longrightarrow>
    page_step nt quiz mode p (persist_effect nt now quiz mode (toggleFlag (qq_id q) p))"
| move: "page_step nt quiz mode p (persist_effect nt now quiz mode (moveToQuestion quiz i p))"
| tick: "page_step nt quiz mode p (persist_effect nt now quiz mode (second_passes p))"
| submit: "\<not> pg_isSubmitting p \<Longrightarrow>
    page_step nt quiz mode p (persist_effect nt now quiz mode (snd (handleSubmit quiz p)))"
| answered: "pg_isSubmitting p \<Longrightarrow> page_step nt quiz mode p (submit_answered quiz mode accepted p)"

definition page_reachable ::
  "number_text \<Rightarrow> phase0_quiz \<Rightarrow> quiz_mode \<Rightarrow> session_storage \<Rightarrow> quiz_page \<Rightarrow> bool" where
  "page_reachable nt quiz mode st p \<longleftrightarrow>
     (\<exists>now resume. (page_step nt quiz mode)\<^sup>*\<^sup>* (open_page nt now quiz mode resume st) p)"

section \<open>The invariant of a page\<close>

definition answers_valid :: "phase0_quiz \<Rightarrow> (string \<times> string option) list \<Rightarrow> bool" where
  "answers_valid quiz answers \<longleftrightarrow>
     map fst answers = map qq_id (pq_questions quiz) \<and>
     (\<forall>q\<in>set (pq_questions quiz). \<forall>o'. answer_of answers (qq_id q) = Some o' \<longrightarrow> o' \<in> qo_id ` set (qq_options q))"

definition draft_valid :: "phase0_quiz \<Rightarrow> draft_snapshot \<Rightarrow> bool" where
  "draft_valid quiz d \<longleftrightarrow>
     answers_valid quiz (ds_answers d) \<and> 0 \<le> ds_currentIndex d \<and> ds_currentIndex d < int (length (pq_questions quiz)) \<and>
     0 \<le> ds_elapsedSec d \<and> set (ds_flaggedQuestionIds d) \<subseteq> qq_id ` set (pq_questions quiz)"

lemma answer_of_update: "answer_of (AList.update k v a) k' = (if k' = k then v else answer_of a k')"
  by (simp add: answer_of_def AList.update_conv)

lemma update_keys_present: "k \<in> fst ` set a \<Longrightarrow> map fst (AList.update k v a) = map fst a"
  by (simp add: AList.update_keys)

lemma update_new: "k \<notin> fst ` set a \<Longrightarrow> AList.update k v a = a @ [(k, v)]"
  by (induction a) auto

lemma empty_answers:
  assumes "distinct (map qq_id qs)" and "\<forall>q\<in>set qs. qq_id q \<notin> fst ` set acc"
  shows "fold (\<lambda>q. AList.update (qq_id q) None) qs acc = acc @ map (\<lambda>q. (qq_id q, None)) qs"
  using assms
proof (induction qs arbitrary: acc)
  case (Cons q qs)
  have u: "AList.update (qq_id q) None acc = acc @ [(qq_id q, None)]"
    using Cons.prems(2) by (simp add: update_new)
  from Cons.prems have "distinct (map qq_id qs)" "\<forall>x\<in>set qs. qq_id x \<notin> fst ` set (acc @ [(qq_id q, None)])"
    by (auto simp: image_iff)
  from Cons.IH [OF this] show ?case by (simp add: u)
qed simp

lemma createEmptyAnswers_eq:
  "distinct (map qq_id (pq_questions quiz)) \<Longrightarrow> createEmptyAnswers quiz = map (\<lambda>q. (qq_id q, None)) (pq_questions quiz)"
  by (simp add: createEmptyAnswers_def empty_answers)

lemma alist_eq:
  assumes "map fst a = map fst b" and "distinct (map fst a)"
    and "\<And>k. k \<in> fst ` set a \<Longrightarrow> answer_of a k = answer_of b k"
  shows "a = b"
proof -
  have len: "length a = length b" using assms(1) by (metis length_map)
  show ?thesis
  proof (rule nth_equalityI [OF len])
    fix i assume i: "i < length a"
    have k: "fst (a ! i) = fst (b ! i)" using arg_cong [OF assms(1), of "\<lambda>xs. xs ! i"] i len by simp
    have "distinct (map fst b)" using assms(1,2) by simp
    with i len assms(2) have "map_of a (fst (a ! i)) = Some (snd (a ! i))" "map_of b (fst (b ! i)) = Some (snd (b ! i))"
      by (simp_all add: map_of_is_SomeI)
    moreover have "answer_of a (fst (a ! i)) = answer_of b (fst (a ! i))" using i by (intro assms(3)) simp
    ultimately show "a ! i = b ! i" by (simp add: answer_of_def k prod_eqI)
  qed
qed

text \<open>What sanitising keeps of one answer.\<close>

definition kept_answer :: "phase0_quiz \<Rightarrow> (string \<times> string option) list \<Rightarrow> phase0_quiz_question \<Rightarrow> string option" where
  "kept_answer quiz answers q =
     (case answer_of answers (qq_id q) of
        None \<Rightarrow> None
      | Some o' \<Rightarrow> (case valid_options quiz (qq_id q) of None \<Rightarrow> None | Some os \<Rightarrow> if o' \<in> set os then Some o' else None))"

lemma sanitized_fold:
  "sanitized_answers quiz answers =
     fold (\<lambda>q m. case kept_answer quiz answers q of None \<Rightarrow> m | Some o' \<Rightarrow> AList.update (qq_id q) (Some o') m)
       (pq_questions quiz) (createEmptyAnswers quiz)"
  unfolding sanitized_answers_def kept_answer_def
  by (intro arg_cong [where f = "\<lambda>f. fold f (pq_questions quiz) (createEmptyAnswers quiz)"] ext) (simp split: option.split)

lemma fold_keys:
  assumes "qq_id ` set qs \<subseteq> fst ` set acc"
  shows "map fst (fold (\<lambda>q m. case h q of None \<Rightarrow> m | Some o' \<Rightarrow> AList.update (qq_id q) (Some o') m) qs acc) = map fst acc"
  using assms
proof (induction qs arbitrary: acc)
  case (Cons q qs)
  let ?acc = "case h q of None \<Rightarrow> acc | Some o' \<Rightarrow> AList.update (qq_id q) (Some o') acc"
  from Cons.prems have k: "map fst ?acc = map fst acc"
    by (auto simp: update_keys_present split: option.split)
  then have "fst ` set ?acc = fst ` set acc" by (metis list.set_map)
  with Cons.prems Cons.IH [of ?acc] k show ?case by simp
qed simp

lemma fold_answer:
  assumes "distinct (map qq_id qs)"
  shows "answer_of (fold (\<lambda>q m. case h q of None \<Rightarrow> m | Some o' \<Rightarrow> AList.update (qq_id q) (Some o') m) qs acc) k =
    (case List.find (\<lambda>q. qq_id q = k) qs of
       None \<Rightarrow> answer_of acc k | Some q \<Rightarrow> (case h q of None \<Rightarrow> answer_of acc k | Some o' \<Rightarrow> Some o'))"
  using assms
proof (induction qs arbitrary: acc)
  case (Cons q qs)
  have "List.find (\<lambda>x. qq_id x = k) qs = None" if "qq_id q = k"
      proof (rule find_NoneI)
    fix x assume "x \<in> set qs"
    then have "qq_id x \<in> qq_id ` set qs" by (rule imageI)
    with Cons.prems that show "qq_id x \<noteq> k" by auto
  qed
  with Cons show ?case by (auto simp: answer_of_update split: option.splits)
qed simp

lemma fold_question:
  assumes "distinct (map qq_id qs)" and "q \<in> set qs"
  shows "List.find (\<lambda>x. qq_id x = qq_id q) qs = Some q"
  using find_by_key [OF assms] .

lemma valid_options_question:
  assumes "distinct (map qq_id (pq_questions quiz))" and "q \<in> set (pq_questions quiz)"
  shows "valid_options quiz (qq_id q) = Some (map qo_id (qq_options q))"
proof -
  have "distinct (map fst (rev (map (\<lambda>q. (qq_id q, map qo_id (qq_options q))) (pq_questions quiz))))"
    using assms(1) by (simp add: rev_map comp_def) (metis distinct_rev rev_map)
  then show ?thesis
    unfolding valid_options_def using assms(2) by (intro map_of_is_SomeI) auto
qed

lemma empty_keys: "distinct (map qq_id (pq_questions quiz)) \<Longrightarrow> map fst (createEmptyAnswers quiz) = map qq_id (pq_questions quiz)"
  by (simp add: createEmptyAnswers_eq comp_def)

lemma empty_answer: "distinct (map qq_id (pq_questions quiz)) \<Longrightarrow> answer_of (createEmptyAnswers quiz) k = None"
  by (auto simp: createEmptyAnswers_eq answer_of_def split: option.split dest!: map_of_SomeD)

lemma sanitized_keys:
  assumes "distinct (map qq_id (pq_questions quiz))"
  shows "map fst (sanitized_answers quiz a) = map qq_id (pq_questions quiz)"
proof -
  have "fst ` set (createEmptyAnswers quiz) = qq_id ` set (pq_questions quiz)"
    using empty_keys [OF assms] by (metis list.set_map)
  then show ?thesis unfolding sanitized_fold by (simp add: fold_keys empty_keys assms)
qed

lemma sanitized_answer:
  assumes "distinct (map qq_id (pq_questions quiz))" and "q \<in> set (pq_questions quiz)"
  shows "answer_of (sanitized_answers quiz a) (qq_id q) = kept_answer quiz a q"
  unfolding sanitized_fold
  by (simp add: fold_answer assms fold_question empty_answer split: option.split)

lemma sanitized_valid:
  assumes "distinct (map qq_id (pq_questions quiz))"
  shows "answers_valid quiz (sanitized_answers quiz a)"
  unfolding answers_valid_def
  by (auto simp: sanitized_keys sanitized_answer assms kept_answer_def valid_options_question
      split: option.splits if_splits)

text \<open>Sanitising a valid draft changes nothing.\<close>

lemma sanitized_id:
  assumes d: "distinct (map qq_id (pq_questions quiz))" and v: "answers_valid quiz a"
  shows "sanitized_answers quiz a = a"
proof (rule alist_eq)
  show "map fst (sanitized_answers quiz a) = map fst a"
    using v by (simp add: sanitized_keys [OF d] answers_valid_def)
  show "distinct (map fst (sanitized_answers quiz a))" by (simp add: sanitized_keys d)
  fix k assume "k \<in> fst ` set (sanitized_answers quiz a)"
  then have "k \<in> set (map qq_id (pq_questions quiz))" using sanitized_keys [OF d, of a] by (metis list.set_map)
  then obtain q where q: "q \<in> set (pq_questions quiz)" "k = qq_id q" by auto
  have "kept_answer quiz a q = answer_of a (qq_id q)"
    using v q by (auto simp: kept_answer_def valid_options_question [OF d q(1)] answers_valid_def split: option.split)
  then show "answer_of (sanitized_answers quiz a) k = answer_of a k"
    by (simp add: q(2) sanitized_answer [OF d q(1)])
qed

lemma truncate_simps [simp]:
  "ds_answers (draft_snapshot.truncate d) = ds_answers d"
  "ds_currentIndex (draft_snapshot.truncate d) = ds_currentIndex d"
  "ds_elapsedSec (draft_snapshot.truncate d) = ds_elapsedSec d"
  "ds_flaggedQuestionIds (draft_snapshot.truncate d) = ds_flaggedQuestionIds d"
  by (simp_all add: draft_snapshot.truncate_def)

lemma snapshot_truncate: "draft_snapshot.truncate (createDraftSnapshot d mode now) = d"
  by (simp add: draft_snapshot.truncate_def createDraftSnapshot_def)

lemma sanitized_draft_valid:
  assumes "distinct (map qq_id (pq_questions quiz))" and "pq_questions quiz \<noteq> []"
  shows "draft_valid quiz (draft_snapshot.truncate (sanitizeDraft now quiz d))"
proof (cases d)
  case None
  have "answers_valid quiz (createEmptyAnswers quiz)"
    using empty_answer [OF assms(1)] by (simp add: answers_valid_def empty_keys assms(1))
  with None assms(2) show ?thesis by (simp add: draft_valid_def sanitizeDraft_def)
next
  case (Some x)
  with assms sanitized_valid [OF assms(1)] show ?thesis
    by (auto simp: draft_valid_def sanitizeDraft_def Suc_le_eq)
qed

lemma sanitize_valid_id:
  assumes "distinct (map qq_id (pq_questions quiz))" and "draft_valid quiz (draft_snapshot.truncate d)"
  shows "draft_snapshot.truncate (sanitizeDraft now quiz (Some d)) = draft_snapshot.truncate d"
proof -
  have "filter (\<lambda>k. k \<in> set (map qq_id (pq_questions quiz))) (ds_flaggedQuestionIds d) = ds_flaggedQuestionIds d"
    using assms(2) by (intro filter_all) (auto simp: draft_valid_def)
  moreover have "min (ds_currentIndex d) (max (int (length (pq_questions quiz)) - 1) 0) = ds_currentIndex d"
    using assms(2) by (auto simp: draft_valid_def)
  ultimately show ?thesis
    using assms sanitized_id [OF assms(1), of "ds_answers d"]
    by (simp add: draft_snapshot.truncate_def sanitizeDraft_def draft_valid_def)
qed

definition stored_draft :: "number_text \<Rightarrow> phase0_quiz \<Rightarrow> quiz_mode \<Rightarrow> quiz_page \<Rightarrow> bool" where
  "stored_draft nt quiz mode p \<longleftrightarrow>
     (\<exists>now. st_items (pg_storage p) (getQuizDraftKey (pq_id quiz) mode) = Some (json_str nt (draft_json (createDraftSnapshot (pg_draft p) mode now))))"

definition page_inv :: "number_text \<Rightarrow> phase0_quiz \<Rightarrow> quiz_mode \<Rightarrow> quiz_page \<Rightarrow> bool" where
  "page_inv nt quiz mode p \<longleftrightarrow>
     draft_valid quiz (pg_draft p) \<and> st_readable (pg_storage p) \<and> st_writable (pg_storage p) \<and>
     (\<not> pg_submitted p \<longrightarrow> stored_draft nt quiz mode p)"

lemma persist_effect_simps [simp]:
  "pg_draft (persist_effect nt now quiz mode p) = pg_draft p"
  "st_readable (pg_storage (persist_effect nt now quiz mode p)) = st_readable (pg_storage p)"
  "st_writable (pg_storage (persist_effect nt now quiz mode p)) = st_writable (pg_storage p)"
  by (simp_all add: persist_effect_def writeQuizDraft_def writeStorageValue_def)

lemma persist_effect_inv:
  assumes "draft_valid quiz (pg_draft p)" and "st_readable (pg_storage p)" and "st_writable (pg_storage p)"
  shows "page_inv nt quiz mode (persist_effect nt now quiz mode p)"
  using assms
  by (auto simp: page_inv_def stored_draft_def persist_effect_def writeQuizDraft_def writeStorageValue_def)

lemma select_valid:
  assumes "distinct (map qq_id (pq_questions quiz))" and "draft_valid quiz (pg_draft p)"
    and "q \<in> set (pq_questions quiz)" and "x \<in> set (qq_options q)"
  shows "draft_valid quiz (pg_draft (selectOption (qq_id q) (qo_id x) p))"
proof -
  let ?a = "ds_answers (pg_draft p)"
  have v: "map fst ?a = map qq_id (pq_questions quiz)"
      "\<forall>q\<in>set (pq_questions quiz). \<forall>o'. answer_of ?a (qq_id q) = Some o' \<longrightarrow> o' \<in> qo_id ` set (qq_options q)"
    using assms(2) by (simp_all add: draft_valid_def answers_valid_def)
  have "qq_id q \<in> set (map fst ?a)" using v(1) assms(3) by simp
  then have k: "map fst (AList.update (qq_id q) (Some (qo_id x)) ?a) = map fst ?a"
    by (intro update_keys_present) simp
  have "answers_valid quiz (AList.update (qq_id q) (Some (qo_id x)) ?a)"
    unfolding answers_valid_def
  proof (intro conjI ballI allI impI)
    fix q' o'
    assume q': "q' \<in> set (pq_questions quiz)" "answer_of (AList.update (qq_id q) (Some (qo_id x)) ?a) (qq_id q') = Some o'"
    show "o' \<in> qo_id ` set (qq_options q')"
    proof (cases "qq_id q' = qq_id q")
      case True
      have "q' = q" by (rule distinct_map_eqD [OF assms(1) q'(1) assms(3) True])
      with q'(2) assms(4) show ?thesis by (auto simp: answer_of_update)
    next
      case False
      with q' v(2) show ?thesis by (simp add: answer_of_update)
    qed
  qed (simp add: k v(1))
  with assms(2) show ?thesis by (simp add: draft_valid_def selectOption_def)
qed

lemma flag_valid:
  "draft_valid quiz (pg_draft p) \<Longrightarrow> q \<in> set (pq_questions quiz) \<Longrightarrow> draft_valid quiz (pg_draft (toggleFlag (qq_id q) p))"
  by (auto simp: draft_valid_def toggleFlag_def)

lemma move_valid:
  "draft_valid quiz (pg_draft p) \<Longrightarrow> pq_questions quiz \<noteq> [] \<Longrightarrow> draft_valid quiz (pg_draft (moveToQuestion quiz i p))"
  by (auto simp: draft_valid_def moveToQuestion_def Suc_le_eq)

lemma submit_valid:
  "draft_valid quiz (pg_draft p) \<Longrightarrow> pq_questions quiz \<noteq> [] \<Longrightarrow> draft_valid quiz (pg_draft (snd (handleSubmit quiz p)))"
  using move_valid by (auto simp: handleSubmit_def split: option.split)

lemma page_step_inv:
  assumes "distinct (map qq_id (pq_questions quiz))" and "pq_questions quiz \<noteq> []"
    and "page_step nt quiz mode p p'" and "page_inv nt quiz mode p"
  shows "page_inv nt quiz mode p'"
  using assms(3,4)
proof (cases rule: page_step.cases)
  case (select q x now)
  with assms select_valid [of quiz p q x] show ?thesis
    using persist_effect_inv [of quiz "selectOption (qq_id q) (qo_id x) p"] by (simp add: page_inv_def selectOption_def)
next
  case (flag q now)
  with assms flag_valid [of quiz p q] show ?thesis
    using persist_effect_inv [of quiz "toggleFlag (qq_id q) p"] by (simp add: page_inv_def toggleFlag_def)
next
  case (move now i)
  with assms move_valid [of quiz p i] show ?thesis
    using persist_effect_inv [of quiz "moveToQuestion quiz i p"] by (simp add: page_inv_def moveToQuestion_def)
next
  case (tick now)
  with assms have "draft_valid quiz (pg_draft (second_passes p))"
    by (simp add: page_inv_def draft_valid_def second_passes_def)
  with tick assms(4) show ?thesis
    using persist_effect_inv [of quiz "second_passes p"] by (simp add: page_inv_def second_passes_def)
next
  case (submit now)
  have "pg_storage (snd (handleSubmit quiz p)) = pg_storage p"
    by (simp add: handleSubmit_def moveToQuestion_def split: option.split)
  with submit assms submit_valid [of quiz p] show ?thesis
    using persist_effect_inv [of quiz "snd (handleSubmit quiz p)"] by (simp add: page_inv_def)
next
  case (answered accepted)
  with assms(4) show ?thesis
    by (auto simp: page_inv_def submit_answered_def stored_draft_def clearQuizDraft_def removeStorageValue_def)
qed


lemma open_page_inv:
  assumes "distinct (map qq_id (pq_questions quiz))" and "pq_questions quiz \<noteq> []" and "st_readable st" and "st_writable st"
  shows "page_inv nt quiz mode (open_page nt now quiz mode resume st)"
  unfolding open_page_def using assms by (intro persist_effect_inv) (simp_all add: sanitized_draft_valid)

lemma reachable_inv:
  assumes "distinct (map qq_id (pq_questions quiz))" and "pq_questions quiz \<noteq> []" and "st_readable st" and "st_writable st"
    and "page_reachable nt quiz mode st p"
  shows "page_inv nt quiz mode p"
proof -
  from assms(5) obtain now resume where
    "(page_step nt quiz mode)\<^sup>*\<^sup>* (open_page nt now quiz mode resume st) p"
    by (auto simp: page_reachable_def)
  then show ?thesis
    by (induction rule: rtranclp_induct) (use assms open_page_inv page_step_inv in blast)+
qed

text \<open>The text of a draft reads back.\<close>

lemma draft_text_reads:
  assumes "distinct (map fst (ds_answers d))" and "\<forall>kv\<in>set (ds_answers d). \<not> is_array_index (fst kv)"
    and "\<bar>ds_currentIndex d\<bar> \<le> max_safe_integer" and "\<bar>ds_elapsedSec d\<bar> \<le> max_safe_integer"
  shows "json_parse nt (json_str nt (draft_json d)) = Some (draft_json d)"
proof (rule json_round_trip)
  have keys: "\<not> is_array_index ''answers'' \<and> \<not> is_array_index ''currentIndex'' \<and> \<not> is_array_index ''elapsedSec'' \<and>
      \<not> is_array_index ''flaggedQuestionIds'' \<and> \<not> is_array_index ''mode'' \<and> \<not> is_array_index ''updatedAt''" by code_simp
  have "json_plain nt (JObj (map (\<lambda>kv. (fst kv, answer_json (snd kv))) (ds_answers d)))"
    using assms(1,2) by (auto simp: list_all_iff comp_def answer_json_def intro!: object_entries_plain split: option.split)
  with assms(3,4) keys show "json_plain nt (draft_json d)"
    unfolding draft_json_def json_plain.simps
    by (intro conjI object_entries_plain) (auto simp: number_ok_def safe_integer_def list_all_iff)
qed

lemma typed_draft_json: "typed_draft (draft_json d) = Some d"
proof -
  have a: "json_answer (answer_json v) = v" for v by (simp add: json_answer_def answer_json_def split: option.split)
  have j: "json_answer (JStr s) = Some s" for s by (simp add: json_answer_def)
  have s: "json_strings (map JStr fs) = Some fs" for fs by (induction fs) (simp_all add: json_answer_def)
  have i: "typed_int (Some (JNum (JFin (of_int i)))) = Some i" for i by (simp add: typed_int_def)
  show ?thesis
    by (cases d; cases "qd_mode d")
      (simp_all add: typed_draft_def draft_json_def obj_get_simps a s i j json_mode_def comp_def)
qed

lemma draft_read_back:
  assumes "distinct (map qq_id (pq_questions quiz))" and "pq_questions quiz \<noteq> []"
    and inv: "page_inv nt quiz mode p" and "\<not> pg_submitted p" and "\<forall>q\<in>set (pq_questions quiz). \<not> is_array_index (qq_id q)"
    and "int (length (pq_questions quiz)) \<le> max_safe_integer" and "ds_elapsedSec (pg_draft p) \<le> max_safe_integer"
  obtains t where "readQuizDraft nt (pg_storage p) (pq_id quiz) mode = Some (createDraftSnapshot (pg_draft p) mode t)"
proof -
  from inv assms(4) obtain t where t: "st_items (pg_storage p) (getQuizDraftKey (pq_id quiz) mode) =
      Some (json_str nt (draft_json (createDraftSnapshot (pg_draft p) mode t)))"
    by (auto simp: page_inv_def stored_draft_def)
  let ?d = "createDraftSnapshot (pg_draft p) mode t"
  from inv have v: "map fst (ds_answers ?d) = map qq_id (pq_questions quiz)" "\<bar>ds_currentIndex ?d\<bar> \<le> max_safe_integer"
      "\<bar>ds_elapsedSec ?d\<bar> \<le> max_safe_integer"
    using assms(6,7) by (simp_all add: page_inv_def draft_valid_def answers_valid_def createDraftSnapshot_def)
  have "\<forall>kv\<in>set (ds_answers ?d). \<not> is_array_index (fst kv)"
  proof
    fix kv assume "kv \<in> set (ds_answers ?d)"
    then have "fst kv \<in> set (map fst (ds_answers ?d))" by simp
    with v(1) assms(5) show "\<not> is_array_index (fst kv)" by auto
  qed
  then have "json_parse nt (json_str nt (draft_json ?d)) = Some (draft_json ?d)"
    using v assms(1) by (intro draft_text_reads) simp_all
  moreover have "json_str nt (draft_json ?d) \<noteq> []" by (simp add: draft_json_def)
  ultimately have "readQuizDraft nt (pg_storage p) (pq_id quiz) mode = Some ?d"
    using inv by (simp add: readQuizDraft_def readStorageValue_def page_inv_def t typed_draft_json)
  then show ?thesis by (rule that)
qed

lemma reload_restores:
  assumes "distinct (map qq_id (pq_questions quiz))" and "pq_questions quiz \<noteq> []"
    and inv: "page_inv nt quiz mode p" and "\<not> pg_submitted p" and "\<forall>q\<in>set (pq_questions quiz). \<not> is_array_index (qq_id q)"
    and "int (length (pq_questions quiz)) \<le> max_safe_integer" and "ds_elapsedSec (pg_draft p) \<le> max_safe_integer"
  shows "pg_draft (open_page nt now quiz mode True (pg_storage p)) = pg_draft p"
proof -
  obtain t where "readQuizDraft nt (pg_storage p) (pq_id quiz) mode = Some (createDraftSnapshot (pg_draft p) mode t)"
    using assms by (rule draft_read_back)
  moreover have "draft_valid quiz (draft_snapshot.truncate (createDraftSnapshot (pg_draft p) mode t))"
    using inv by (simp add: page_inv_def snapshot_truncate)
  ultimately show ?thesis
    using sanitize_valid_id [OF assms(1)] by (simp add: open_page_def snapshot_truncate)
qed

text \<open>
  The life of a page under reloads: a reload keeps the address, so the page is opened again with the same flag.
\<close>

inductive page_life :: "number_text \<Rightarrow> phase0_quiz \<Rightarrow> quiz_mode \<Rightarrow> bool \<Rightarrow> session_storage \<Rightarrow> quiz_page \<Rightarrow> bool"
  for nt quiz mode resume st
where
  opened: "page_life nt quiz mode resume st (open_page nt now quiz mode resume st)"
| stepped: "page_life nt quiz mode resume st p \<Longrightarrow> page_step nt quiz mode p p' \<Longrightarrow> page_life nt quiz mode resume st p'"
| reloaded: "page_life nt quiz mode resume st p \<Longrightarrow>
    page_life nt quiz mode resume st (open_page nt now quiz mode resume (pg_storage p))"

lemma page_life_inv:
  assumes "page_life nt quiz mode resume st p"
    and d: "distinct (map qq_id (pq_questions quiz))" "pq_questions quiz \<noteq> []" and "st_readable st" and "st_writable st"
  shows "page_inv nt quiz mode p"
  using assms(1)
proof (induction rule: page_life.induct)
  case (opened now)
  show ?case using assms(2-5) by (rule open_page_inv)
next
  case (stepped p p')
  then show ?case using d page_step_inv by blast
next
  case (reloaded p now)
  then show ?case using d by (intro open_page_inv) (simp_all add: page_inv_def)
qed

text \<open>The draft of a quiz that has only just been started.\<close>

definition blank_draft :: "phase0_quiz \<Rightarrow> draft_snapshot" where
  "blank_draft quiz =
     \<lparr>ds_answers = map (\<lambda>q. (qq_id q, None)) (pq_questions quiz), ds_currentIndex = 0, ds_elapsedSec = 0, ds_flaggedQuestionIds = []\<rparr>"

lemma started_draft:
  assumes "distinct (map qq_id (pq_questions quiz))"
  shows "pg_draft (open_page nt now quiz mode False st) = blank_draft quiz"
  using empty_answers [OF assms, of "[]"]
  by (simp add: open_page_def sanitizeDraft_def blank_draft_def createEmptyAnswers_def draft_snapshot.truncate_def)

lemma opened_submitted [simp]: "\<not> pg_submitted (open_page nt now quiz mode resume st)"
  by (simp add: open_page_def persist_effect_def)

text \<open>What the storage holds is what opening the page to resume shows.\<close>

definition resumes_with :: "number_text \<Rightarrow> phase0_quiz \<Rightarrow> quiz_mode \<Rightarrow> session_storage \<Rightarrow> draft_snapshot \<Rightarrow> bool" where
  "resumes_with nt quiz mode st d \<longleftrightarrow> (\<forall>now. pg_draft (open_page nt now quiz mode True st) = d)"

lemma started_resumes:
  assumes "distinct (map qq_id (pq_questions quiz))" and "pq_questions quiz \<noteq> []"
    and "\<forall>q\<in>set (pq_questions quiz). \<not> is_array_index (qq_id q)"
    and "int (length (pq_questions quiz)) \<le> max_safe_integer" and "st_readable st" and "st_writable st"
  shows "resumes_with nt quiz mode (pg_storage (open_page nt now quiz mode False st)) (blank_draft quiz)"
  using reload_restores [OF assms(1,2) open_page_inv [OF assms(1,2,5,6), where resume = False] _ assms(3,4)]
  unfolding resumes_with_def started_draft [OF assms(1)] by (simp add: blank_draft_def max_safe_integer_def)

text \<open>C16 A draft survives in the session storage, and the address decides whether a reload brings it back.  On a page
  reached by any number of choices, flags, moves, ticks, submissions and reloads from any storage, until a submission is
  accepted: the link to resume restores the same answers, position, flags and time, sanitising drops none of it, and so
  does a reload of a page that was opened by that link.  A reload of a page opened by the link to start keeps that link,
  so it begins with an empty draft, and from then on the empty draft is also what the link to resume restores: the
  stored work is overwritten.\<close>

theorem draft_survives_reload:
  assumes "distinct (map qq_id (pq_questions quiz))" and "pq_questions quiz \<noteq> []"
    and "\<forall>q\<in>set (pq_questions quiz). \<not> is_array_index (qq_id q)"
    and "int (length (pq_questions quiz)) \<le> max_safe_integer" and "st_readable st" and "st_writable st"
    and "page_life nt quiz mode resume st p" and "\<not> pg_submitted p" and "ds_elapsedSec (pg_draft p) \<le> max_safe_integer"
  shows "draft_valid quiz (pg_draft p) \<and> resumes_with nt quiz mode (pg_storage p) (pg_draft p) \<and>
    (resume \<longrightarrow> pg_draft (open_page nt now quiz mode resume (pg_storage p)) = pg_draft p) \<and>
    (\<not> resume \<longrightarrow> pg_draft (open_page nt now quiz mode resume (pg_storage p)) = blank_draft quiz \<and>
      resumes_with nt quiz mode (pg_storage (open_page nt now quiz mode resume (pg_storage p))) (blank_draft quiz))"
proof -
  have inv: "page_inv nt quiz mode p" by (rule page_life_inv [OF assms(7,1,2,5,6)])
  then have st: "st_readable (pg_storage p)" "st_writable (pg_storage p)" by (simp_all add: page_inv_def)
  have "resumes_with nt quiz mode (pg_storage p) (pg_draft p)"
    unfolding resumes_with_def using reload_restores [OF assms(1,2) inv assms(8,3,4,9)] by blast
  with inv show ?thesis
    using started_draft [OF assms(1)] started_resumes [OF assms(1-4) st]
    by (cases resume) (simp_all add: page_inv_def resumes_with_def)
qed

section \<open>Submitting\<close>

lemma first_index_None: "first_index P xs = None \<longleftrightarrow> (\<forall>x\<in>set xs. \<not> P x)"
  by (induction xs) auto

lemma submit_body:
  assumes "handleSubmit quiz p = (Some body, p')"
  shows "\<forall>q\<in>set (pq_questions quiz). answer_of (ds_answers (pg_draft p)) (qq_id q) \<noteq> None"
    and "body = buildSubmitAnswers quiz (ds_answers (pg_draft p))"
  using assms by (auto simp: handleSubmit_def first_index_None unanswered_def split: if_splits option.splits)

lemma concat_single: "\<forall>x\<in>set xs. f x = [g x] \<Longrightarrow> concat (map f xs) = map g xs"
  by (induction xs) auto

lemma build_complete:
  assumes "\<forall>q\<in>set (pq_questions quiz). answer_of answers (qq_id q) \<noteq> None"
  shows "buildSubmitAnswers quiz answers =
    map (\<lambda>q. \<lparr>sel_optionId = the (answer_of answers (qq_id q)), sel_questionId = qq_id q\<rparr>) (pq_questions quiz)"
  using assms unfolding buildSubmitAnswers_def by (intro concat_single) (auto split: option.split)

text \<open>The quiz the client reads from what the backend serves of a stored quiz.\<close>

lemma client_served_simps:
  "pq_questions (client_quiz (served_view g)) =
     map (\<lambda>q. \<lparr>qq_id = gq_id q, qq_ordinal = JFin (of_int (gq_ordinal q)), qq_stem = gq_stem q,
                qq_options = map (\<lambda>x. client_option (served_option.truncate x)) (gq_options q)\<rparr>) (gz_questions g)"
  by (simp add: client_quiz_def served_view_def client_question_def comp_def)

lemma client_option_id: "qo_id (client_option (served_option.truncate x)) = so_id x"
  by (simp add: client_option_def served_option.truncate_def)

lemma client_question_ids: "map qq_id (pq_questions (client_quiz (served_view g))) = map gq_id (gz_questions g)"
  by (simp add: client_served_simps comp_def)

lemma submission_complete:
  assumes "answers_valid (client_quiz (served_view g)) answers"
    and "\<forall>q\<in>set (pq_questions (client_quiz (served_view g))). answer_of answers (qq_id q) \<noteq> None"
  shows "complete_submission g (buildSubmitAnswers (client_quiz (served_view g)) answers)"
proof -
  let ?pick = "\<lambda>q. the (answer_of answers (gq_id q))"
  have body: "buildSubmitAnswers (client_quiz (served_view g)) answers =
      map (\<lambda>q. \<lparr>sel_optionId = ?pick q, sel_questionId = gq_id q\<rparr>) (gz_questions g)"
    unfolding build_complete [OF assms(2)] by (simp add: client_served_simps comp_def)
  have pick: "?pick q \<in> so_id ` set (gq_options q)" if q: "q \<in> set (gz_questions g)" for q
  proof -
    let ?c = "\<lparr>qq_id = gq_id q, qq_ordinal = JFin (of_int (gq_ordinal q)), qq_stem = gq_stem q,
                qq_options = map (\<lambda>x. client_option (served_option.truncate x)) (gq_options q)\<rparr>"
    have c: "?c \<in> set (pq_questions (client_quiz (served_view g)))" using q by (simp add: client_served_simps)
    with assms(2) obtain o' where o': "answer_of answers (gq_id q) = Some o'" by fastforce
    from assms(1) c have "answer_of answers (qq_id ?c) = Some o' \<longrightarrow> o' \<in> qo_id ` set (qq_options ?c)"
      unfolding answers_valid_def by blast
    with o' have "o' \<in> qo_id ` set (qq_options ?c)" by simp
    with o' show ?thesis by (auto simp: client_option_id)
  qed
  show ?thesis
    unfolding complete_submission_def body
  proof (intro conjI ballI)
    fix s assume "s \<in> set (map (\<lambda>q. \<lparr>sel_optionId = ?pick q, sel_questionId = gq_id q\<rparr>) (gz_questions g))"
    then obtain q where q: "q \<in> set (gz_questions g)" "s = \<lparr>sel_optionId = ?pick q, sel_questionId = gq_id q\<rparr>" by auto
    with pick show "\<exists>q\<in>set (gz_questions g). gq_id q = sel_questionId s \<and> sel_optionId s \<in> so_id ` set (gq_options q)"
      by (intro bexI [of _ q]) simp_all
  qed (simp add: comp_def)
qed

section \<open>From the page to the graded result\<close>

definition sample_page_quiz :: phase0_quiz where
  "sample_page_quiz = client_quiz (served_view (grading_view sample_quiz))"

definition empty_storage :: session_storage where
  "empty_storage = \<lparr>st_readable = True, st_writable = True, st_items = Map.empty\<rparr>"

text \<open>A page on which the one question has been answered.\<close>

definition answered_page :: quiz_page where
  "answered_page = persist_effect safe_numbers ''t'' sample_page_quiz TEST
     (selectOption ''q'' ''a'' (open_page safe_numbers ''s'' sample_page_quiz TEST False empty_storage))"

lemma answered_page_facts:
  "ds_elapsedSec (pg_draft answered_page) \<le> max_safe_integer" "\<not> pg_submitted answered_page"
  "fst (handleSubmit sample_page_quiz answered_page) = Some [\<lparr>sel_optionId = ''a'', sel_questionId = ''q''\<rparr>]"
  "distinct (map qq_id (pq_questions sample_page_quiz))" "pq_questions sample_page_quiz \<noteq> []"
  "\<forall>q\<in>set (pq_questions sample_page_quiz). \<not> is_array_index (qq_id q)"
  "int (length (pq_questions sample_page_quiz)) \<le> max_safe_integer"
  by code_simp+

lemma answered_page_reachable: "page_reachable safe_numbers sample_page_quiz TEST empty_storage answered_page"
proof -
  have "\<exists>q\<in>set (pq_questions sample_page_quiz). \<exists>x\<in>set (qq_options q). qq_id q = ''q'' \<and> qo_id x = ''a''" by code_simp
  then obtain q x where "q \<in> set (pq_questions sample_page_quiz)" "x \<in> set (qq_options q)" "qq_id q = ''q''" "qo_id x = ''a''"
    by blast
  from page_step.select [OF this(1,2)] this(3,4) show ?thesis
    unfolding page_reachable_def answered_page_def by (metis r_into_rtranclp)
qed

lemma answered_page_life: "page_life safe_numbers sample_page_quiz TEST False empty_storage answered_page"
proof -
  have "\<exists>q\<in>set (pq_questions sample_page_quiz). \<exists>x\<in>set (qq_options q). qq_id q = ''q'' \<and> qo_id x = ''a''" by code_simp
  then obtain q x where "q \<in> set (pq_questions sample_page_quiz)" "x \<in> set (qq_options q)" "qq_id q = ''q''" "qo_id x = ''a''"
    by blast
  from page_life.stepped [OF page_life.opened page_step.select [OF this(1,2)]] this(3,4) show ?thesis
    unfolding answered_page_def by metis
qed

lemma draft_survives_reload_witness:
  "resumes_with safe_numbers sample_page_quiz TEST (pg_storage answered_page) (pg_draft answered_page) \<and>
   pg_draft (open_page safe_numbers ''u'' sample_page_quiz TEST False (pg_storage answered_page)) = blank_draft sample_page_quiz"
  using draft_survives_reload [OF answered_page_facts(4-7) _ _ answered_page_life answered_page_facts(2,1), of "''u''"]
  by (simp add: empty_storage_def)


lemma graded_selection:
  assumes "gradePracticeFeedback g a = Graded x"
  shows "ga_questionId x = sel_questionId a" and "ga_selectedOptionId x = sel_optionId a"
    and "\<exists>q\<in>set (gz_questions g). ga_citation x = gq_citation q"
  using assms
  by (auto simp: gradePracticeFeedback_def answer_for_def find_Some_iff intro: bexI [OF refl nth_mem] split: option.splits)

lemma graded_of_question:
  assumes "gradePracticeFeedback g a = Graded x"
  shows "\<exists>q\<in>set (gz_questions g). gq_id q = ga_questionId x \<and> ga_explanation x = gq_explanation q \<and> ga_citation x = gq_citation q"
proof -
  from assms obtain q p where q: "List.find (\<lambda>q. gq_id q = sel_questionId a) (gz_questions g) = Some q" and x: "x = answer_for q p"
    by (auto simp: gradePracticeFeedback_def split: option.splits)
  have "q \<in> set (gz_questions g)" using q by (auto simp: find_Some_iff)
  then show ?thesis by (intro bexI [of _ q]) (simp_all add: x answer_for_def)
qed

lemma submitted_answers:
  assumes "\<forall>q\<in>set (gz_questions g). answer_of answers (gq_id q) \<noteq> None"
  shows "\<forall>a\<in>set (buildSubmitAnswers (client_quiz (served_view g)) answers). answer_of answers (sel_questionId a) = Some (sel_optionId a)"
proof -
  have "\<forall>q\<in>set (pq_questions (client_quiz (served_view g))). answer_of answers (qq_id q) \<noteq> None"
    using assms by (simp add: client_served_simps)
  from build_complete [OF this] assms show ?thesis by (auto simp: client_served_simps)
qed

lemma getQuiz_view:
  assumes "getQuiz findServedByOwnerId w i s = Inr z" and "findForGradingByOwnerId w i s = Some g"
  shows "z = served_view g"
  using assms by (simp add: getQuiz_def served_is_stripped_grading served_view_def comp_def)

text \<open>The fields two kinds of graded answer share.\<close>

lemma truncated_fields:
  assumes "map graded_answer.truncate xs = ys"
  shows "map ga_questionId xs = map ga_questionId ys" and "map ga_isCorrect xs = map ga_isCorrect ys"
    and "x \<in> set xs \<Longrightarrow> \<exists>y\<in>set ys. ga_questionId y = ga_questionId x \<and> ga_selectedOptionId y = ga_selectedOptionId x
      \<and> ga_citation y = ga_citation x"
    and "x \<in> set xs \<Longrightarrow> \<exists>y\<in>set ys. ga_questionId y = ga_questionId x \<and> ga_explanation y = ga_explanation x \<and> ga_citation y = ga_citation x"
  unfolding assms [symmetric] by (auto simp: graded_answer.truncate_def)

text \<open>A stored answer tells of its question: the stem, the explanation and the source, the option chosen and a right one.\<close>

definition graded_item :: "grading_quiz \<Rightarrow> attempt_question_result \<Rightarrow> bool" where
  "graded_item g x \<longleftrightarrow>
     (\<exists>q\<in>set (gz_questions g). gq_id q = ga_questionId x \<and> gq_stem q = aq_stem x \<and> gq_explanation q = ga_explanation x \<and>
        gq_citation q = ga_citation x \<and>
        (\<exists>p\<in>set (gq_options q). so_id p = ga_selectedOptionId x \<and> so_content p = aq_selectedOptionContent x
           \<and> go_isCorrect p = ga_isCorrect x) \<and>
        (\<exists>p\<in>set (gq_options q). so_content p = aq_correctOptionContent x \<and> go_isCorrect p))"

lemma graded_itemI:
  assumes "distinct (map gq_id (gz_questions g))" and "result_matches g x"
    and "\<exists>q\<in>set (gz_questions g). gq_id q = ga_questionId x \<and> ga_explanation x = gq_explanation q \<and> ga_citation x = gq_citation q"
  shows "graded_item g x"
proof -
  from assms(3) obtain q where q: "q \<in> set (gz_questions g)" "gq_id q = ga_questionId x" "ga_explanation x = gq_explanation q"
    "ga_citation x = gq_citation q" by blast
  from assms(2) obtain q' where q': "q' \<in> set (gz_questions g)" "gq_id q' = ga_questionId x" "gq_stem q' = aq_stem x"
    "\<exists>p\<in>set (gq_options q'). so_id p = ga_selectedOptionId x \<and> so_content p = aq_selectedOptionContent x \<and> go_isCorrect p = ga_isCorrect x"
    "\<exists>p\<in>set (gq_options q'). so_content p = aq_correctOptionContent x \<and> go_isCorrect p"
    unfolding result_matches_def by blast
  have "q' = q" using distinct_map_eqD [OF assms(1) q'(1) q(1)] q(2) q'(2) by simp
  with q q' show ?thesis unfolding graded_item_def by (intro bexI [of _ q]) simp_all
qed

lemma view_fields:
  "map pf_questionId (pt_results (client_attempt (to_attempt_result_response utc a))) = map ga_questionId (at_results a)"
  "map pf_isCorrect (pt_results (client_attempt (to_attempt_result_response utc a))) = map ga_isCorrect (at_results a)"
  "pt_score (client_attempt (to_attempt_result_response utc a)) = JFin (of_int (at_score a))"
  "x \<in> set (pt_results (client_attempt (to_attempt_result_response utc a))) \<Longrightarrow>
     \<exists>y\<in>set (at_results a). pf_questionId x = ga_questionId y \<and> pf_selectedOptionId x = ga_selectedOptionId y"
  by (auto simp: client_attempt_def to_attempt_result_response_def client_result_item_def)

lemma filter_length_map: "length (filter f xs) = length (filter id (map f xs))"
  by (induction xs) simp_all

lemma attempt_graded_full:
  fixes answers :: "(string \<times> string option) list" and utc :: "int \<Rightarrow> string"
  defines "body g \<equiv> buildSubmitAnswers (client_quiz (served_view g)) answers"
  assumes wf: "quiz_db_wf s" and g: "findForGradingByOwnerId w i s = Some g"
    and loc: "\<forall>q\<in>set (gz_questions g). isValidLocator (cit_locator (gq_citation q))"
    and len: "gz_questions g \<noteq> []" "length (gz_questions g) \<le> 2147483647"
    and valid: "answers_valid (client_quiz (served_view g)) answers"
    and all: "\<forall>q\<in>set (pq_questions (client_quiz (served_view g))). answer_of answers (qq_id q) \<noteq> None"
    and aid: "aid \<notin> ar_id ` set (db_attempts s)"
  shows "\<exists>r s' a view. submitAttempt findForGradingByOwnerId (persistAttempt now) aid w i (body g) s = (Inr r, s')
    \<and> getAttemptResult findByOwnerQuizAndAttemptId w i aid s' = (Inr a :: store_error service_error + attempt_result)
    \<and> mapAttemptResultResponse (Some (attempt_json (to_attempt_result_response utc a))) = Inr view
    \<and> map pf_questionId (pt_results view) = map qq_id (pq_questions (client_quiz (served_view g)))
    \<and> (\<forall>x\<in>set (pt_results view). answer_of answers (pf_questionId x) = Some (pf_selectedOptionId x))
    \<and> pt_score view = JFin (of_nat (length (filter pf_isCorrect (pt_results view))))
    \<and> pt_questionCount view = JFin (of_nat (length (pt_results view)))
    \<and> view = client_attempt (to_attempt_result_response utc a) \<and> (\<forall>x\<in>set (at_results a). graded_item g x)
    \<and> at_score a = int (gr_score r)"
proof -
  have complete: "complete_submission g (body g)" unfolding body_def using valid all by (rule submission_complete)
  from attempt_results.submit_then_read [OF wf g complete aid len, of now] obtain r s' a where
    sub: "submitAttempt findForGradingByOwnerId (persistAttempt now) aid w i (body g) s = (Inr r, s')"
    and get: "getAttemptResult findByOwnerQuizAndAttemptId w i aid s' = (Inr a :: store_error service_error + attempt_result)"
    and res: "map graded_answer.truncate (at_results a) = gr_results r" and matches: "\<forall>x\<in>set (at_results a). result_matches g x" and score: "at_score a = int (gr_score r)"
    and count: "at_questionCount a = int (gr_questionCount r)" by blast
  from quiz_store.submit_outcome [OF wf, where now = now and uuid = aid and w = w and i = i and ss = "body g"] have out:
    "gr_questionCount r = length (gz_questions g)" "gr_score r = length (filter ga_isCorrect (gr_results r))" "map ga_questionId (gr_results r) = map gq_id (gz_questions g)"
    "\<And>x. x \<in> set (gr_results r) \<Longrightarrow> \<exists>b\<in>set (body g). sel_questionId b = ga_questionId x
       \<and> getPracticeFeedback findForGradingByOwnerId w i b s = (Inr x :: store_error service_error + graded_answer)"
    by (simp_all add: sub g)
  have fb: "\<exists>b\<in>set (body g). gradePracticeFeedback g b = Graded x" if "x \<in> set (gr_results r)" for x
  proof -
    from out(4) [OF that] obtain b where b: "b \<in> set (body g)"
      "getPracticeFeedback findForGradingByOwnerId w i b s = (Inr x :: store_error service_error + graded_answer)" by blast
    then have "gradePracticeFeedback g b = Graded x"
      by (cases "gradePracticeFeedback g b") (simp_all add: getPracticeFeedback_def g)
    with b(1) show ?thesis ..
  qed
  have picked: "\<forall>b\<in>set (body g). answer_of answers (sel_questionId b) = Some (sel_optionId b)"
    unfolding body_def using all by (intro submitted_answers) (simp add: client_served_simps)
  let ?view = "client_attempt (to_attempt_result_response utc a)"
  have "\<forall>x\<in>set (at_results a). isValidLocator (cit_locator (ga_citation x))"
  proof
    fix x assume "x \<in> set (at_results a)"
    from truncated_fields(3) [OF res this] obtain y where "y \<in> set (gr_results r)" "ga_citation y = ga_citation x" by blast
    with fb [of y] graded_selection(3) loc show "isValidLocator (cit_locator (ga_citation x))" by metis
  qed
  then have read: "mapAttemptResultResponse (Some (attempt_json (to_attempt_result_response utc a))) = Inr ?view"
    by (intro attempt_read) (simp add: to_attempt_result_response_def)
  have ids: "map pf_questionId (pt_results ?view) = map qq_id (pq_questions (client_quiz (served_view g)))"
    by (simp add: view_fields truncated_fields(1) [OF res] out(3) client_question_ids)
  have chosen: "\<forall>x\<in>set (pt_results ?view). answer_of answers (pf_questionId x) = Some (pf_selectedOptionId x)"
  proof
    fix x assume "x \<in> set (pt_results ?view)"
    from view_fields(4) [OF this] obtain y where y: "y \<in> set (at_results a)" "pf_questionId x = ga_questionId y"
        "pf_selectedOptionId x = ga_selectedOptionId y" by blast
    from truncated_fields(3) [OF res y(1)] obtain u where u: "u \<in> set (gr_results r)" "ga_questionId u = ga_questionId y"
        "ga_selectedOptionId u = ga_selectedOptionId y" by blast
    from fb [OF u(1)] obtain b where "b \<in> set (body g)" "gradePracticeFeedback g b = Graded u" by blast
    with picked graded_selection(1,2) [of g b u] u y show "answer_of answers (pf_questionId x) = Some (pf_selectedOptionId x)" by simp
  qed
  have "pt_score ?view = JFin (of_nat (length (filter pf_isCorrect (pt_results ?view))))"
    unfolding filter_length_map [of pf_isCorrect] view_fields(2,3) truncated_fields(2) [OF res] score out(2)
      filter_length_map [of ga_isCorrect] of_int_of_nat_eq ..
  moreover have "pt_questionCount ?view = JFin (of_nat (length (pt_results ?view)))"
    using arg_cong [OF ids, of length]
    by (simp add: client_attempt_def to_attempt_result_response_def count out(1) client_served_simps)
  moreover have "\<forall>x\<in>set (at_results a). graded_item g x"
  proof
    fix x assume x: "x \<in> set (at_results a)"
    from truncated_fields(4) [OF res x] obtain y where y: "y \<in> set (gr_results r)" "ga_questionId y = ga_questionId x"
      "ga_explanation y = ga_explanation x" "ga_citation y = ga_citation x" by blast
    from fb [OF y(1)] obtain b where "gradePracticeFeedback g b = Graded y" by blast
    from graded_of_question [OF this] show "graded_item g x"
      using quiz_store.grading_ids [OF wf g] matches x by (intro graded_itemI) (simp_all add: y)
  qed
  ultimately show ?thesis
    by (intro exI [of _ r] exI [of _ s'] exI [of _ a] exI [of _ ?view] conjI sub get read ids chosen score; simp)
qed

lemma attempt_graded:
  fixes answers :: "(string \<times> string option) list" and utc :: "int \<Rightarrow> string"
  defines "body g \<equiv> buildSubmitAnswers (client_quiz (served_view g)) answers"
  assumes wf: "quiz_db_wf s" and g: "findForGradingByOwnerId w i s = Some g"
    and loc: "\<forall>q\<in>set (gz_questions g). isValidLocator (cit_locator (gq_citation q))"
    and len: "gz_questions g \<noteq> []" "length (gz_questions g) \<le> 2147483647"
    and valid: "answers_valid (client_quiz (served_view g)) answers"
    and all: "\<forall>q\<in>set (pq_questions (client_quiz (served_view g))). answer_of answers (qq_id q) \<noteq> None"
    and aid: "aid \<notin> ar_id ` set (db_attempts s)"
  shows "\<exists>r s' a view. submitAttempt findForGradingByOwnerId (persistAttempt now) aid w i (body g) s = (Inr r, s')
    \<and> getAttemptResult findByOwnerQuizAndAttemptId w i aid s' = (Inr a :: store_error service_error + attempt_result)
    \<and> mapAttemptResultResponse (Some (attempt_json (to_attempt_result_response utc a))) = Inr view
    \<and> map pf_questionId (pt_results view) = map qq_id (pq_questions (client_quiz (served_view g)))
    \<and> (\<forall>x\<in>set (pt_results view). answer_of answers (pf_questionId x) = Some (pf_selectedOptionId x))
    \<and> pt_score view = JFin (of_nat (length (filter pf_isCorrect (pt_results view))))
    \<and> pt_questionCount view = JFin (of_nat (length (pt_results view)))"
proof -
  note full = attempt_graded_full [OF wf g loc len valid all aid, of now utc]
  then show ?thesis unfolding body_def by (elim exE conjE) (intro exI conjI; assumption)
qed

text \<open>C9 The whole way of a quiz: the quiz the backend serves is read by the client; on a page over it, however the
  learner clicked, flagged, moved, waited, failed to submit and reloaded, a submission the page lets through is
  accepted and graded by the backend, and the result it then serves is read by the client, with one item per
  question in the order shown, each with the option the learner had chosen, and the number of correct ones as
  its score.\<close>

theorem learner_attempt_graded:
  assumes "quiz_db_wf s" and "getQuiz findServedByOwnerId w i s = (Inr z :: store_error service_error + served_quiz_result)"
    and "findForGradingByOwnerId w i s = Some g"
    and "\<forall>q\<in>set (gz_questions g). isValidLocator (cit_locator (gq_citation q))"
    and "gz_questions g \<noteq> []" and "length (gz_questions g) \<le> 2147483647"
    and "mapQuizResponse (Some (quiz_json z)) = Inr quiz" and "st_readable st" and "st_writable st"
    and "page_reachable nt quiz mode st p" and "fst (handleSubmit quiz p) = Some body"
    and "aid \<notin> ar_id ` set (db_attempts s)"
  shows "\<exists>r s' a view. submitAttempt findForGradingByOwnerId (persistAttempt now) aid w i body s = (Inr r, s')
    \<and> getAttemptResult findByOwnerQuizAndAttemptId w i aid s' = (Inr a :: store_error service_error + attempt_result)
    \<and> mapAttemptResultResponse (Some (attempt_json (to_attempt_result_response utc a))) = Inr view
    \<and> map pf_questionId (pt_results view) = map qq_id (pq_questions quiz)
    \<and> (\<forall>x\<in>set (pt_results view). answer_of (ds_answers (pg_draft p)) (pf_questionId x) = Some (pf_selectedOptionId x))
    \<and> pt_score view = JFin (of_nat (length (filter pf_isCorrect (pt_results view))))"
proof -
  have quiz: "quiz = client_quiz (served_view g)"
    using assms(7) quiz_read [of z] getQuiz_view [OF assms(2,3)] by simp
  have "distinct (map gq_id (gz_questions g))" using quiz_store.grading_ids [OF assms(1,3)] by simp
  then have ids: "distinct (map qq_id (pq_questions quiz))" "pq_questions quiz \<noteq> []"
    using assms(5) by (simp_all add: quiz client_question_ids) (simp add: client_served_simps)
  have valid: "answers_valid quiz (ds_answers (pg_draft p))"
    using reachable_inv [OF ids assms(8-10)] by (simp add: page_inv_def draft_valid_def)
  obtain p' where "handleSubmit quiz p = (Some body, p')" using assms(11) by (cases "handleSubmit quiz p") auto
  note sub = submit_body [OF this]
  show ?thesis
    unfolding quiz sub(2)
    using attempt_graded [OF assms(1,3-6) valid [unfolded quiz] sub(1) [unfolded quiz] assms(12), of now utc] by blast
qed

lemma learner_attempt_graded_witness:
  "\<exists>r s' a view. submitAttempt findForGradingByOwnerId (persistAttempt 7) ''t'' ''w'' ''z''
      [\<lparr>sel_optionId = ''a'', sel_questionId = ''q''\<rparr>] (stored sample_quiz empty_quiz_db) = (Inr r, s')
    \<and> getAttemptResult findByOwnerQuizAndAttemptId ''w'' ''z'' ''t'' s' = (Inr a :: store_error service_error + attempt_result)
    \<and> mapAttemptResultResponse (Some (attempt_json (to_attempt_result_response int_str a))) = Inr view
    \<and> map pf_questionId (pt_results view) = [''q'']"
proof -
  let ?g = "grading_view sample_quiz"
  have z: "getQuiz findServedByOwnerId ''w'' ''z'' (stored sample_quiz empty_quiz_db) = (Inr (served_view ?g) :: store_error service_error + served_quiz_result)"
    by (simp add: getQuiz_def served_is_stripped_grading grading_sample served_view_def comp_def)
  have g: "\<forall>q\<in>set (gz_questions ?g). isValidLocator (cit_locator (gq_citation q))"
      "gz_questions ?g \<noteq> []" "length (gz_questions ?g) \<le> 2147483647" "''t'' \<notin> ar_id ` set (db_attempts (stored sample_quiz empty_quiz_db))"
    by (simp_all add: grading_view_def sample_quiz_def stored_def empty_quiz_db_def max_safe_integer_def)
  have q: "mapQuizResponse (Some (quiz_json (served_view ?g))) = Inr sample_page_quiz" by (simp add: quiz_read sample_page_quiz_def)
  have ids: "map qq_id (pq_questions sample_page_quiz) = [''q'']" by code_simp
  have st: "st_readable empty_storage" "st_writable empty_storage" by (simp_all add: empty_storage_def)
  from learner_attempt_graded [OF sample_wf z grading_sample g(1-3) q st answered_page_reachable answered_page_facts(3) g(4),
      of 7 int_str] show ?thesis
    unfolding ids by (elim exE conjE) (intro exI conjI; assumption)
qed

end
