(* ===== verification/PracticeFeedback.thy ===== *)
theory PracticeFeedback imports ClientApi begin

text \<open>
  Checking one answer while practising: the hook \<open>use-practice-feedback.ts\<close> with the handlers \<open>selectOption\<close>
  and \<open>handleCheckAnswer\<close> of \<open>quiz-play-screen.tsx\<close>.  Responses arrive in any order, after any number of
  further clicks.

  A state update is a function that React queues and runs, in order, when it renders; a click renders at
  once, a response that arrived may wait in the queue until the next click or render.  The functions read the
  two refs when they run, not when they are queued.
\<close>

section \<open>The hook\<close>

datatype feedback_status = Idle | Loading | Ready | Error

record question_feedback =
  fs_selectedOptionId :: string
  fs_status :: feedback_status
  fs_response :: "phase0_feedback option"

text \<open>The updaters: the object literal of a reset or of a new request, and \<open>applyResponse\<close>.\<close>

datatype updater =
  SetFeedback string question_feedback
| ApplyResponse nat string string feedback_status "phase0_feedback option"

record practice =
  pr_feedback :: "string \<rightharpoonup> question_feedback"
  pr_queue :: "updater list"
  pr_answers :: "string \<rightharpoonup> string"
  pr_answersRef :: "string \<rightharpoonup> string"
  pr_requestIds :: "string \<rightharpoonup> nat"
  pr_inFlight :: "(nat \<times> string \<times> string) set"

definition request_id :: "practice \<Rightarrow> string \<Rightarrow> nat" where
  "request_id p q = (case pr_requestIds p q of None \<Rightarrow> 0 | Some n \<Rightarrow> n)"

fun run_updater :: "practice \<Rightarrow> updater \<Rightarrow> (string \<rightharpoonup> question_feedback) \<Rightarrow> (string \<rightharpoonup> question_feedback)" where
  "run_updater p (SetFeedback q e) fb = fb(q \<mapsto> e)"
| "run_updater p (ApplyResponse n q x status response) fb =
     (if pr_requestIds p q \<noteq> Some n \<or> pr_answersRef p q \<noteq> Some x \<or> map_option fs_selectedOptionId (fb q) \<noteq> Some x then fb
      else fb(q \<mapsto> \<lparr>fs_selectedOptionId = x, fs_status = status, fs_response = response\<rparr>))"

text \<open>A render runs the queue; the effect after it brings the ref up to date.\<close>

definition render :: "practice \<Rightarrow> practice" where
  "render p = p\<lparr>pr_feedback := fold (run_updater p) (pr_queue p) (pr_feedback p), pr_queue := [], pr_answersRef := pr_answers p\<rparr>"

definition resetQuestionFeedback :: "string \<Rightarrow> string \<Rightarrow> practice \<Rightarrow> practice" where
  "resetQuestionFeedback q x p =
     p\<lparr>pr_requestIds := (pr_requestIds p)(q \<mapsto> request_id p q + 1),
       pr_queue := pr_queue p @ [SetFeedback q \<lparr>fs_selectedOptionId = x, fs_status = Idle, fs_response = None\<rparr>]\<rparr>"

definition practice_select :: "string \<Rightarrow> string \<Rightarrow> practice \<Rightarrow> practice" where
  "practice_select q x p = resetQuestionFeedback q x (p\<lparr>pr_answers := (pr_answers p)(q \<mapsto> x)\<rparr>)"

text \<open>\<open>loadPracticeFeedback\<close> up to its \<open>await\<close>, and after it.\<close>

definition load_start :: "string \<Rightarrow> string \<Rightarrow> practice \<Rightarrow> practice" where
  "load_start q x p =
     p\<lparr>pr_requestIds := (pr_requestIds p)(q \<mapsto> request_id p q + 1),
       pr_queue := pr_queue p @ [SetFeedback q \<lparr>fs_selectedOptionId = x, fs_status = Loading, fs_response = None\<rparr>],
       pr_inFlight := insert (request_id p q + 1, q, x) (pr_inFlight p)\<rparr>"

definition load_end :: "nat \<Rightarrow> string \<Rightarrow> string \<Rightarrow> phase0_feedback option \<Rightarrow> practice \<Rightarrow> practice" where
  "load_end n q x response p =
     p\<lparr>pr_queue := pr_queue p @ [ApplyResponse n q x (if response = None then Error else Ready) response],
       pr_inFlight := pr_inFlight p - {(n, q, x)}\<rparr>"

text \<open>\<^term>\<open>busy\<close>: the page is submitting or being left.\<close>

definition handleCheckAnswer :: "bool \<Rightarrow> string \<Rightarrow> practice \<Rightarrow> practice" where
  "handleCheckAnswer busy q p =
     (case pr_answers p q of None \<Rightarrow> p | Some x \<Rightarrow> if x = [] \<or> busy then p else load_start q x p)"

definition visiblePracticeFeedback :: "practice \<Rightarrow> string \<Rightarrow> question_feedback option" where
  "visiblePracticeFeedback p q =
     (case (pr_answers p q, pr_feedback p q) of
        (Some x, Some e) \<Rightarrow> if x \<noteq> [] \<and> fs_selectedOptionId e = x then Some e else None
      | _ \<Rightarrow> None)"

section \<open>Steps\<close>

text \<open>\<^term>\<open>served q x r\<close>: the backend may answer \<^term>\<open>r\<close> to a check of option \<^term>\<open>x\<close> of question \<^term>\<open>q\<close>.\<close>

inductive practice_step :: "(string \<Rightarrow> string \<Rightarrow> phase0_feedback \<Rightarrow> bool) \<Rightarrow> practice \<Rightarrow> practice \<Rightarrow> bool"
  for served
where
  choose: "practice_step served p (render (practice_select q x p))"
| check: "practice_step served p (render (handleCheckAnswer busy q p))"
| respond: "(n, q, x) \<in> pr_inFlight p \<Longrightarrow> served q x r \<Longrightarrow> practice_step served p (load_end n q x (Some r) p)"
| fail: "(n, q, x) \<in> pr_inFlight p \<Longrightarrow> practice_step served p (load_end n q x None p)"
| rerender: "practice_step served p (render p)"

text \<open>A practice starts with the answers of the draft.\<close>

definition practice_start :: "(string \<rightharpoonup> string) \<Rightarrow> practice" where
  "practice_start answers =
     \<lparr>pr_feedback = Map.empty, pr_queue = [], pr_answers = answers, pr_answersRef = answers, pr_requestIds = Map.empty,
      pr_inFlight = {}\<rparr>"

definition practice_reachable ::
  "(string \<Rightarrow> string \<Rightarrow> phase0_feedback \<Rightarrow> bool) \<Rightarrow> (string \<rightharpoonup> string) \<Rightarrow> practice \<Rightarrow> bool" where
  "practice_reachable served answers p \<longleftrightarrow> (practice_step served)\<^sup>*\<^sup>* (practice_start answers) p"

section \<open>The invariant\<close>

text \<open>An entry is for the selected answer, shows only what was served for it, and waits only for something.\<close>

definition slot_ok :: "(string \<Rightarrow> string \<Rightarrow> phase0_feedback \<Rightarrow> bool) \<Rightarrow> practice \<Rightarrow> string \<Rightarrow> question_feedback \<Rightarrow> bool" where
  "slot_ok served p q e \<longleftrightarrow>
     pr_answers p q = Some (fs_selectedOptionId e) \<and>
     (case fs_status e of
        Ready \<Rightarrow> (case fs_response e of None \<Rightarrow> False | Some r \<Rightarrow> served q (fs_selectedOptionId e) r)
      | Loading \<Rightarrow>
          (request_id p q, q, fs_selectedOptionId e) \<in> pr_inFlight p \<or>
          (\<exists>status response. ApplyResponse (request_id p q) q (fs_selectedOptionId e) status response \<in> set (pr_queue p))
      | _ \<Rightarrow> fs_response e = None)"

definition response_ok_for :: "(string \<Rightarrow> string \<Rightarrow> phase0_feedback \<Rightarrow> bool) \<Rightarrow> updater \<Rightarrow> bool" where
  "response_ok_for served u \<longleftrightarrow>
     (case u of SetFeedback q e \<Rightarrow> False
      | ApplyResponse n q x status response \<Rightarrow>
          (status = Ready \<and> (\<exists>r. response = Some r \<and> served q x r)) \<or> (status = Error \<and> response = None))"

definition practice_inv :: "(string \<Rightarrow> string \<Rightarrow> phase0_feedback \<Rightarrow> bool) \<Rightarrow> practice \<Rightarrow> bool" where
  "practice_inv served p \<longleftrightarrow>
     pr_answersRef p = pr_answers p \<and> (\<forall>q e. pr_feedback p q = Some e \<longrightarrow> slot_ok served p q e \<and> pr_requestIds p q \<noteq> None) \<and>
     (\<forall>u\<in>set (pr_queue p). response_ok_for served u)"

text \<open>The same while the queue is run: an entry may wait for an update still to come.\<close>

definition entry_waits :: "(string \<Rightarrow> string \<Rightarrow> phase0_feedback \<Rightarrow> bool) \<Rightarrow> practice \<Rightarrow> updater list \<Rightarrow> string \<Rightarrow> question_feedback \<Rightarrow> bool" where
  "entry_waits served p us q e \<longleftrightarrow> slot_ok served (p\<lparr>pr_queue := us\<rparr>) q e \<and> pr_requestIds p q \<noteq> None"

lemma request_id_simps [simp]:
  "request_id (p\<lparr>pr_queue := us\<rparr>) q = request_id p q"
  "request_id (p\<lparr>pr_answers := as\<rparr>) q = request_id p q"
  "request_id (render p) q = request_id p q"
  by (simp_all add: request_id_def render_def)

lemma render_simps [simp]:
  "pr_answersRef (render p) = pr_answers p" "pr_answers (render p) = pr_answers p" "pr_queue (render p) = []"
  "pr_requestIds (render p) = pr_requestIds p" "pr_inFlight (render p) = pr_inFlight p"
  by (simp_all add: render_def)

lemma slot_ok_render: "slot_ok served (p\<lparr>pr_queue := []\<rparr>) q e \<Longrightarrow> slot_ok served (render p) q e"
  by (cases "fs_status e") (simp_all add: slot_ok_def)

lemma run_updater_other:
  "(case u of SetFeedback q' e \<Rightarrow> q' | ApplyResponse n q' x status response \<Rightarrow> q') \<noteq> q \<Longrightarrow> run_updater p u fb q = fb q"
  by (cases u) simp_all

lemma entry_waits_run:
  assumes "response_ok_for served u" and "pr_answersRef p q = pr_answers p q"
    and "\<forall>e. fb q = Some e \<longrightarrow> entry_waits served p (u # us) q e" and "run_updater p u fb q = Some e"
  shows "entry_waits served p us q e"
proof -
  from assms(1) obtain n q' x status response where u: "u = ApplyResponse n q' x status response"
    "status = Ready \<and> (\<exists>r. response = Some r \<and> served q' x r) \<or> status = Error \<and> response = None"
    by (cases u) (auto simp: response_ok_for_def)
  let ?stays = "pr_requestIds p q' \<noteq> Some n \<or> pr_answersRef p q' \<noteq> Some x \<or> map_option fs_selectedOptionId (fb q') \<noteq> Some x"
  show ?thesis
  proof (cases "q' = q")
    case False
    with assms(4) u have "fb q = Some e" by (simp split: if_splits)
    with assms(3) have "entry_waits served p (u # us) q e" by simp
    with False show ?thesis by (auto simp: entry_waits_def slot_ok_def u(1) split: feedback_status.splits)
  next
    case q: True
    show ?thesis
    proof (cases ?stays)
      case True
      with assms(4) u(1) have e: "fb q = Some e" by simp
      with assms(3) have w: "entry_waits served p (u # us) q e" by simp
      have "u \<noteq> ApplyResponse (request_id p q) q (fs_selectedOptionId e) st re" for st re
      proof
        assume "u = ApplyResponse (request_id p q) q (fs_selectedOptionId e) st re"
        with u(1) have "n = request_id p q" "x = fs_selectedOptionId e" by auto
        with True w e assms(2) show False by (auto simp: q entry_waits_def slot_ok_def request_id_def)
      qed
      with w show ?thesis by (auto simp: entry_waits_def slot_ok_def request_id_def split: feedback_status.splits)
    next
      case False
      with assms(4) u(1) have e: "e = \<lparr>fs_selectedOptionId = x, fs_status = status, fs_response = response\<rparr>"
        by (auto simp: q)
      from False u(2) assms(2) show ?thesis by (auto simp: q e entry_waits_def slot_ok_def)
    qed
  qed
qed

lemma entry_waits_fold:
  assumes "\<forall>u\<in>set us. response_ok_for served u" and "pr_answersRef p q = pr_answers p q"
    and "\<forall>e. fb q = Some e \<longrightarrow> entry_waits served p us q e" and "fold (run_updater p) us fb q = Some e"
  shows "entry_waits served p [] q e"
  using assms
proof (induction us arbitrary: fb)
  case (Cons u us)
  from Cons.prems(1) have u: "response_ok_for served u" "\<forall>u\<in>set us. response_ok_for served u" by simp_all
  have "\<forall>e. run_updater p u fb q = Some e \<longrightarrow> entry_waits served p us q e"
  proof (intro allI impI)
    fix e assume "run_updater p u fb q = Some e"
    then show "entry_waits served p us q e" by (rule entry_waits_run [where fb = fb, OF u(1) assms(2) Cons.prems(3)])
  qed
  from Cons.IH [where fb = "run_updater p u fb", OF u(2) assms(2) this] Cons.prems(4) show ?case by simp
qed simp

lemma inv_waits:
  "practice_inv served p \<Longrightarrow> \<forall>e. pr_feedback p q = Some e \<longrightarrow> entry_waits served p (pr_queue p) q e"
  by (simp add: practice_inv_def entry_waits_def)

lemma render_inv:
  assumes "practice_inv served p"
  shows "practice_inv served (render p)"
proof -
  have "slot_ok served (render p) q e \<and> pr_requestIds p q \<noteq> None" if "pr_feedback (render p) q = Some e" for q e
  proof -
    have "entry_waits served p [] q e"
      using that assms inv_waits [OF assms, of q]
      by (intro entry_waits_fold [where us = "pr_queue p" and fb = "pr_feedback p"]) (simp_all add: practice_inv_def render_def)
    then show ?thesis by (simp add: entry_waits_def slot_ok_render)
  qed
  then show ?thesis unfolding practice_inv_def render_simps by simp
qed

text \<open>A click: the entry of its question is written last, the others only see the queue.\<close>

lemma click_inv:
  assumes inv: "practice_inv served p"
    and p': "pr_feedback p' = pr_feedback p" "pr_queue p' = pr_queue p @ [SetFeedback q0 e0]"
      "\<forall>q. q \<noteq> q0 \<longrightarrow> pr_answers p' q = pr_answers p q \<and> pr_requestIds p' q = pr_requestIds p q"
      "pr_answersRef p' = pr_answersRef p" "pr_inFlight p \<subseteq> pr_inFlight p'"
    and q0: "slot_ok served (p'\<lparr>pr_queue := []\<rparr>) q0 e0" "pr_requestIds p' q0 \<noteq> None"
  shows "practice_inv served (render p')"
proof -
  have "slot_ok served (render p') q e \<and> pr_requestIds p' q \<noteq> None" if e: "pr_feedback (render p') q = Some e" for q e
  proof (cases "q = q0")
    case True
    with e p' have "e = e0" by (simp add: render_def)
    with True q0 show ?thesis by (simp add: slot_ok_render)
  next
    case False
    have same: "pr_answers p' q = pr_answers p q" "pr_requestIds p' q = pr_requestIds p q" using p'(3) False by simp_all
    have w: "entry_waits served p' (pr_queue p) q e'" if "pr_feedback p' q = Some e'" for e'
    proof -
      from that p'(1) inv_waits [OF inv, of q] have "entry_waits served p (pr_queue p) q e'" by simp
      with p'(5) show ?thesis
        by (auto simp: entry_waits_def slot_ok_def request_id_def same split: feedback_status.splits)
    qed
    from e False have f: "fold (run_updater p') (pr_queue p) (pr_feedback p') q = Some e"
      by (simp add: render_def p'(2))
    have "entry_waits served p' [] q e"
      using w f inv same p'(4)
      by (intro entry_waits_fold [where us = "pr_queue p" and fb = "pr_feedback p'"]) (simp_all add: practice_inv_def)
    then show ?thesis by (simp add: entry_waits_def slot_ok_render)
  qed
  then show ?thesis unfolding practice_inv_def render_simps by simp
qed

lemma select_inv: "practice_inv served p \<Longrightarrow> practice_inv served (render (practice_select q x p))"
  by (rule click_inv [where ?q0.0 = q and ?e0.0 = "\<lparr>fs_selectedOptionId = x, fs_status = Idle, fs_response = None\<rparr>"])
    (auto simp: practice_select_def resetQuestionFeedback_def slot_ok_def)

lemma check_inv:
  assumes "practice_inv served p"
  shows "practice_inv served (render (handleCheckAnswer busy q p))"
proof (cases "pr_answers p q = None \<or> pr_answers p q = Some [] \<or> busy")
  case True
  then have "handleCheckAnswer busy q p = p" by (auto simp: handleCheckAnswer_def split: option.split)
  with assms show ?thesis by (simp add: render_inv)
next
  case False
  then obtain x where x: "pr_answers p q = Some x" "x \<noteq> []" "\<not> busy" by auto
  let ?e = "\<lparr>fs_selectedOptionId = x, fs_status = Loading, fs_response = None\<rparr>"
  have "practice_inv served (render (load_start q x p))"
    using assms by (rule click_inv [where ?q0.0 = q and ?e0.0 = ?e])
      (simp_all add: load_start_def slot_ok_def request_id_def x subset_insertI)
  with x show ?thesis by (simp add: handleCheckAnswer_def)
qed

lemma load_end_inv:
  assumes inv: "practice_inv served p" and r: "response = None \<or> (\<exists>r. response = Some r \<and> served q x r)"
  shows "practice_inv served (load_end n q x response p)"
proof -
  let ?p = "load_end n q x response p"
  have id: "request_id ?p k = request_id p k" for k by (simp add: load_end_def request_id_def)
  have "slot_ok served ?p k e" if e: "pr_feedback p k = Some e" for k e
  proof -
    from inv e have "slot_ok served p k e" by (simp add: practice_inv_def)
    then show ?thesis
      by (cases "fs_status e") (auto simp: slot_ok_def id, auto simp: load_end_def)
  qed
  moreover have "\<forall>u\<in>set (pr_queue ?p). response_ok_for served u"
    using inv r by (auto simp: load_end_def practice_inv_def response_ok_for_def)
  ultimately show ?thesis using inv by (simp add: practice_inv_def) (simp add: load_end_def)
qed

lemma practice_step_inv: "practice_step served p p' \<Longrightarrow> practice_inv served p \<Longrightarrow> practice_inv served p'"
  by (induction rule: practice_step.induct) (auto intro: select_inv check_inv load_end_inv render_inv)

lemma practice_reachable_inv:
  assumes "practice_reachable served answers p"
  shows "practice_inv served p"
proof -
  have "practice_inv served (practice_start answers)" by (simp add: practice_start_def practice_inv_def)
  from assms [unfolded practice_reachable_def] this show ?thesis
    by (induction rule: rtranclp_induct) (auto intro: practice_step_inv)
qed

section \<open>What the page shows\<close>

text \<open>An answer of the backend that the client accepts.\<close>

definition backend_feedback :: "string \<Rightarrow> string \<Rightarrow> quiz_db \<Rightarrow> string \<Rightarrow> string \<Rightarrow> phase0_feedback \<Rightarrow> bool" where
  "backend_feedback w i s q x r \<longleftrightarrow>
     (\<exists>y. getPracticeFeedback findForGradingByOwnerId w i \<lparr>sel_optionId = x, sel_questionId = q\<rparr> s
            = (Inr y :: store_error service_error + practice_feedback_result)
        \<and> mapPracticeFeedbackResponse (Some (feedback_json y)) = Inr r)"

text \<open>C33 Practice feedback is never stale: however clicks, checks and responses interleave and however late a
  response arrives, the feedback shown at a question is for the option selected now; if it is a grade, it is
  the one the backend gives for this option; and it says that a check is running only while there is a
  request, or a response not yet rendered, with the latest number for exactly this option, so never once all
  responses are in.\<close>

theorem practice_feedback_current:
  assumes "practice_reachable (backend_feedback w i s) answers p" and "visiblePracticeFeedback p q = Some e"
  shows "pr_answers p q = Some (fs_selectedOptionId e) \<and>
    (case fs_status e of
       Ready \<Rightarrow> (\<exists>r. fs_response e = Some r \<and> backend_feedback w i s q (fs_selectedOptionId e) r)
     | Loading \<Rightarrow>
         (request_id p q, q, fs_selectedOptionId e) \<in> pr_inFlight p \<or>
         (\<exists>status response. ApplyResponse (request_id p q) q (fs_selectedOptionId e) status response \<in> set (pr_queue p))
     | _ \<Rightarrow> fs_response e = None) \<and>
    (pr_inFlight p = {} \<and> pr_queue p = [] \<longrightarrow> fs_status e \<noteq> Loading)"
proof -
  from assms(2) have "pr_feedback p q = Some e" by (auto simp: visiblePracticeFeedback_def split: option.splits if_splits)
  with practice_reachable_inv [OF assms(1)] have "slot_ok (backend_feedback w i s) p q e" by (simp add: practice_inv_def)
  then show ?thesis by (cases "fs_status e") (auto simp: slot_ok_def split: option.splits)
qed

definition checked_page :: "phase0_feedback \<Rightarrow> practice" where
  "checked_page r = render (load_end 2 ''q'' ''a'' (Some r)
     (render (handleCheckAnswer False ''q'' (render (practice_select ''q'' ''a'' (practice_start Map.empty))))))"

lemma practice_feedback_current_witness:
  "\<exists>r p e. practice_reachable (backend_feedback ''w'' ''z'' (stored sample_quiz empty_quiz_db)) Map.empty p
    \<and> visiblePracticeFeedback p ''q'' = Some e \<and> fs_status e = Ready \<and> fs_response e = Some r
    \<and> backend_feedback ''w'' ''z'' (stored sample_quiz empty_quiz_db) ''q'' ''a'' r"
proof -
  let ?db = "stored sample_quiz empty_quiz_db" and ?sel = "\<lparr>sel_optionId = ''a'', sel_questionId = ''q''\<rparr>"
  obtain y where y: "gradePracticeFeedback (grading_view sample_quiz) ?sel = Graded y" "isValidLocator (cit_locator (ga_citation y))"
    by (simp add: gradePracticeFeedback_def grading_view_def sample_quiz_def grading_option_of_def answer_for_def max_safe_integer_def)
  let ?r = "client_feedback y"
  let ?f = "backend_feedback ''w'' ''z'' ?db"
  have served: "?f ''q'' ''a'' ?r"
    unfolding backend_feedback_def by (intro exI [of _ y]) (simp add: getPracticeFeedback_def grading_sample y(1) feedback_read [OF y(2)])
  let ?p1 = "render (practice_select ''q'' ''a'' (practice_start Map.empty))"
  let ?p2 = "render (handleCheckAnswer False ''q'' ?p1)"
  have "(2, ''q'', ''a'') \<in> pr_inFlight ?p2"
    by (simp add: handleCheckAnswer_def practice_select_def resetQuestionFeedback_def load_start_def request_id_def practice_start_def)
  from practice_step.respond [where served = ?f, OF this served] have r: "practice_reachable ?f Map.empty (checked_page ?r)"
    unfolding practice_reachable_def checked_page_def
    by (meson practice_step.choose practice_step.check practice_step.rerender rtranclp.rtrancl_into_rtrancl rtranclp.rtrancl_refl)
  have v: "visiblePracticeFeedback (checked_page ?r) ''q'' = Some \<lparr>fs_selectedOptionId = ''a'', fs_status = Ready, fs_response = Some ?r\<rparr>"
    by (simp add: checked_page_def visiblePracticeFeedback_def render_def load_end_def handleCheckAnswer_def practice_select_def
        resetQuestionFeedback_def load_start_def request_id_def practice_start_def)
  from practice_feedback_current [OF r v] r v show ?thesis
    by (intro exI [of _ ?r] exI [of _ "checked_page ?r"] exI [of _ "\<lparr>fs_selectedOptionId = ''a'', fs_status = Ready, fs_response = Some ?r\<rparr>"])
      simp
qed

end
