(* ===== verification/DocumentPolling.thy ===== *)
theory DocumentPolling imports ClientApi begin

text \<open>
  Watching a document: the hook \<open>useProcessingDocumentStatus\<close> of
  \<open>components/processing/processing-status-utils.ts\<close> with the retry action of \<open>processing-retry.ts\<close>, as one
  transition system.  A request that started stays in flight until it is answered, whatever happens to the
  page meanwhile; a timer stays until it fires or is cleared; a page may be left and mounted again, and in
  development every page is mounted twice.  Vietnamese texts are written without their marks.
\<close>

section \<open>State\<close>

text \<open>What the retry action is waiting for.\<close>

datatype retry_wait = NotWaiting | WaitingConfirm | WaitingRefresh nat

record polling =
  pl_document :: "phase0_document option"
  pl_isLoading :: bool
  pl_error :: "string option"
  pl_generation :: nat
  pl_timerRef :: "nat option"
  pl_timers :: "(nat \<times> nat) list"
  pl_nextTimer :: nat
  pl_requests :: "nat list"
  pl_mounted :: bool
  pl_microtasks :: nat
  pl_isSubmitting :: bool
  pl_isRetrySubmitting :: bool
  pl_retryError :: "string option"
  pl_wait :: retry_wait

definition polling_start :: polling where
  "polling_start =
     \<lparr>pl_document = None, pl_isLoading = True, pl_error = None, pl_generation = 0, pl_timerRef = None, pl_timers = [],
      pl_nextTimer = 0, pl_requests = [], pl_mounted = False, pl_microtasks = 0, pl_isSubmitting = False,
      pl_isRetrySubmitting = False, pl_retryError = None, pl_wait = NotWaiting\<rparr>"

section \<open>Errors\<close>

datatype client_error = Phase0Error nat safe_error | PlainError string | NoError

definition status_error_message :: "client_error \<Rightarrow> string" where
  "status_error_message e =
     (case e of
        Phase0Error n se \<Rightarrow> se_message se
      | PlainError m \<Rightarrow> if js_trim m \<noteq> [] then m else ''Chua the tai trang thai tai lieu luc nay.''
      | NoError \<Rightarrow> ''Chua the tai trang thai tai lieu luc nay.'')"

definition getRetryConfirmErrorMessage :: "client_error \<Rightarrow> string" where
  "getRetryConfirmErrorMessage e =
     (case e of
        Phase0Error n se \<Rightarrow>
          if js_trim (se_message se) \<noteq> [] then se_message se
          else ''Chua the thu lai tai lieu luc nay. Ban hay doi mot chut roi thu lai.''
      | _ \<Rightarrow> ''Chua the thu lai tai lieu luc nay. Ban hay doi mot chut roi thu lai.'')"

section \<open>Operations\<close>

definition terminal :: "phase0_document \<Rightarrow> bool" where
  "terminal d \<longleftrightarrow> pd_status d = READY \<or> pd_status d = DOCUMENT_FAILED"

text \<open>\<open>schedulePollRef.current?.(generation)\<close>: nothing once the page is gone.\<close>

definition schedule_poll :: "nat \<Rightarrow> polling \<Rightarrow> polling" where
  "schedule_poll generation p =
     (if pl_mounted p
      then p\<lparr>pl_timers := (pl_nextTimer p, generation) # pl_timers p, pl_timerRef := Some (pl_nextTimer p), pl_nextTimer := pl_nextTimer p + 1\<rparr>
      else p)"

definition clear_timeout :: "polling \<Rightarrow> polling" where
  "clear_timeout p =
     (case pl_timerRef p of None \<Rightarrow> p | Some i \<Rightarrow> p\<lparr>pl_timers := filter (\<lambda>t. fst t \<noteq> i) (pl_timers p)\<rparr>)"

text \<open>\<open>pollOnce\<close> up to its \<open>await\<close>, and from there to its end.\<close>

definition poll_start :: "nat \<Rightarrow> polling \<Rightarrow> polling" where
  "poll_start generation p = p\<lparr>pl_requests := generation # pl_requests p\<rparr>"

definition poll_end :: "nat \<Rightarrow> client_error + phase0_document \<Rightarrow> polling \<Rightarrow> polling" where
  "poll_end generation answer p =
     (if pl_generation p \<noteq> generation then p
      else case answer of
        Inr d \<Rightarrow>
          if terminal d then p\<lparr>pl_document := Some d, pl_error := None, pl_isLoading := False\<rparr>
          else schedule_poll generation (p\<lparr>pl_document := Some d, pl_error := None, pl_isLoading := False\<rparr>)
      | Inl e \<Rightarrow> schedule_poll generation (p\<lparr>pl_error := Some (status_error_message e), pl_isLoading := False\<rparr>))"

definition poll_refresh :: "polling \<Rightarrow> polling" where
  "poll_refresh p =
     (let p1 = p\<lparr>pl_generation := pl_generation p + 1\<rparr>;
          p2 = (clear_timeout p1)\<lparr>pl_timerRef := None\<rparr>
      in poll_start (pl_generation p + 1) (p2\<lparr>pl_isLoading := True\<rparr>))"

definition page_mount :: "polling \<Rightarrow> polling" where
  "page_mount p = p\<lparr>pl_mounted := True, pl_microtasks := pl_microtasks p + 1\<rparr>"

definition page_unmount :: "polling \<Rightarrow> polling" where
  "page_unmount p = clear_timeout (p\<lparr>pl_generation := pl_generation p + 1, pl_mounted := False\<rparr>)"

text \<open>\<open>retryDocumentProcessing\<close>, cut at its two \<open>await\<close>s; \<open>finally\<close> ends it.\<close>

definition retry_click :: "polling \<Rightarrow> polling" where
  "retry_click p =
     (if pl_isSubmitting p then p
      else p\<lparr>pl_isSubmitting := True, pl_isRetrySubmitting := True, pl_retryError := None, pl_wait := WaitingConfirm\<rparr>)"

definition retry_finish :: "polling \<Rightarrow> polling" where
  "retry_finish p = p\<lparr>pl_isSubmitting := False, pl_isRetrySubmitting := False, pl_wait := NotWaiting\<rparr>"

definition retry_confirmed :: "client_error option \<Rightarrow> polling \<Rightarrow> polling" where
  "retry_confirmed error p =
     (case error of
        Some e \<Rightarrow> retry_finish (p\<lparr>pl_retryError := Some (getRetryConfirmErrorMessage e)\<rparr>)
      | None \<Rightarrow> (poll_refresh p)\<lparr>pl_wait := WaitingRefresh (pl_generation p + 1)\<rparr>)"

text \<open>An answer ends the poll it belongs to, and the retry that waits for this poll.\<close>

definition poll_answered :: "nat \<Rightarrow> client_error + phase0_document \<Rightarrow> polling \<Rightarrow> polling" where
  "poll_answered generation answer p =
     (let p1 = poll_end generation answer (p\<lparr>pl_requests := remove1 generation (pl_requests p)\<rparr>)
      in if pl_wait p1 = WaitingRefresh generation then retry_finish p1 else p1)"

definition timer_fired :: "nat \<times> nat \<Rightarrow> polling \<Rightarrow> polling" where
  "timer_fired t p = poll_start (snd t) (p\<lparr>pl_timers := remove1 t (pl_timers p)\<rparr>)"

text \<open>\<^term>\<open>served d\<close>: the backend may answer \<^term>\<open>d\<close> for the document of the page.\<close>

inductive polling_step :: "(phase0_document \<Rightarrow> bool) \<Rightarrow> polling \<Rightarrow> polling \<Rightarrow> bool" for served where
  mount: "\<not> pl_mounted p \<Longrightarrow> polling_step served p (page_mount p)"
| microtask: "pl_microtasks p = Suc n \<Longrightarrow> polling_step served p (poll_refresh (p\<lparr>pl_microtasks := n\<rparr>))"
| unmount: "pl_mounted p \<Longrightarrow> polling_step served p (page_unmount p)"
| answer: "g \<in> set (pl_requests p) \<Longrightarrow> case a of Inl e \<Rightarrow> True | Inr d \<Rightarrow> served d \<Longrightarrow> polling_step served p (poll_answered g a p)"
| fire: "t \<in> set (pl_timers p) \<Longrightarrow> polling_step served p (timer_fired t p)"
| click: "polling_step served p (retry_click p)"
| confirm: "pl_wait p = WaitingConfirm \<Longrightarrow> polling_step served p (retry_confirmed e p)"

definition polling_reachable :: "(phase0_document \<Rightarrow> bool) \<Rightarrow> polling \<Rightarrow> bool" where
  "polling_reachable served p \<longleftrightarrow> (polling_step served)\<^sup>*\<^sup>* polling_start p"

section \<open>The invariant\<close>

text \<open>The polls of the current generation, running or waiting for their timer.\<close>

definition live_polls :: "polling \<Rightarrow> nat" where
  "live_polls p = count_list (pl_requests p) (pl_generation p) + length (pl_timers p)"

definition polling_inv :: "(phase0_document \<Rightarrow> bool) \<Rightarrow> polling \<Rightarrow> bool" where
  "polling_inv served p \<longleftrightarrow>
     (\<forall>g\<in>set (pl_requests p). g \<le> pl_generation p) \<and>
     (\<forall>t\<in>set (pl_timers p). pl_timerRef p = Some (fst t) \<and> snd t = pl_generation p) \<and>
     live_polls p \<le> 1 \<and>
     (\<forall>d. pl_document p = Some d \<longrightarrow> served d) \<and>
     (pl_mounted p \<longrightarrow> 0 < pl_microtasks p \<or> live_polls p = 1 \<or> (\<exists>d. pl_document p = Some d \<and> terminal d)) \<and>
     (pl_mounted p \<and> pl_isLoading p \<longrightarrow> 0 < pl_microtasks p \<or> pl_generation p \<in> set (pl_requests p)) \<and>
     pl_isSubmitting p = (pl_wait p \<noteq> NotWaiting) \<and> pl_isRetrySubmitting p = pl_isSubmitting p \<and>
     (\<forall>g. pl_wait p = WaitingRefresh g \<longrightarrow> g \<in> set (pl_requests p))"

lemma polling_invD:
  assumes "polling_inv served p"
  shows "\<forall>g\<in>set (pl_requests p). g \<le> pl_generation p"
    and "\<forall>t\<in>set (pl_timers p). pl_timerRef p = Some (fst t) \<and> snd t = pl_generation p"
    and "live_polls p \<le> 1" and "\<forall>d. pl_document p = Some d \<longrightarrow> served d"
    and "pl_mounted p \<longrightarrow> 0 < pl_microtasks p \<or> live_polls p = 1 \<or> (\<exists>d. pl_document p = Some d \<and> terminal d)"
    and "pl_mounted p \<and> pl_isLoading p \<longrightarrow> 0 < pl_microtasks p \<or> pl_generation p \<in> set (pl_requests p)"
    and "pl_isSubmitting p = (pl_wait p \<noteq> NotWaiting)" and "pl_isRetrySubmitting p = pl_isSubmitting p"
    and "\<forall>g. pl_wait p = WaitingRefresh g \<longrightarrow> g \<in> set (pl_requests p)"
  using assms unfolding polling_inv_def by blast+

lemma timers_cleared:
  assumes "\<forall>t\<in>set (pl_timers p). pl_timerRef p = Some (fst t)"
  shows "clear_timeout p = p\<lparr>pl_timers := []\<rparr>"
proof (cases "pl_timerRef p")
  case None
  with assms have "pl_timers p = []" by (cases "pl_timers p") auto
  then show ?thesis by (simp add: clear_timeout_def None)
next
  case (Some i)
  have "\<forall>t\<in>set (pl_timers p). fst t = i"
  proof
    fix t assume "t \<in> set (pl_timers p)"
    with assms have "pl_timerRef p = Some (fst t)" by blast
    with Some show "fst t = i" by simp
  qed
  then have "filter (\<lambda>t. fst t \<noteq> i) (pl_timers p) = []" by (simp add: filter_empty_conv)
  then show ?thesis by (simp add: clear_timeout_def Some)
qed

lemma refresh_form:
  assumes "\<forall>t\<in>set (pl_timers p). pl_timerRef p = Some (fst t)"
  shows "poll_refresh p = p\<lparr>pl_generation := pl_generation p + 1, pl_timers := [], pl_timerRef := None, pl_isLoading := True,
    pl_requests := (pl_generation p + 1) # pl_requests p\<rparr>"
  using assms timers_cleared [of "p\<lparr>pl_generation := pl_generation p + 1\<rparr>"] by (simp add: poll_refresh_def Let_def poll_start_def)

lemma no_newer: "\<forall>g\<in>set xs. g \<le> n \<Longrightarrow> count_list xs (Suc n) = 0"
  by (intro count_notin) auto

text \<open>A refresh starts one poll and leaves no other of its generation, whatever the rest of the state.\<close>

lemma refresh_inv:
  assumes "\<forall>g\<in>set (pl_requests p). g \<le> pl_generation p" and "\<forall>t\<in>set (pl_timers p). pl_timerRef p = Some (fst t)"
    and "\<forall>d. pl_document p = Some d \<longrightarrow> served d" and "pl_isSubmitting p = (w \<noteq> NotWaiting)"
    and "pl_isRetrySubmitting p = pl_isSubmitting p" and "\<forall>g. w = WaitingRefresh g \<longrightarrow> g \<in> set (pl_requests p) \<or> g = pl_generation p + 1"
  shows "polling_inv served ((poll_refresh p)\<lparr>pl_wait := w\<rparr>)"
  using assms no_newer [OF assms(1)] unfolding refresh_form [OF assms(2)]
  by (auto simp: polling_inv_def live_polls_def le_SucI)

lemma microtask_inv:
  assumes "polling_inv served p"
  shows "polling_inv served (poll_refresh (p\<lparr>pl_microtasks := n\<rparr>))"
proof -
  let ?p = "p\<lparr>pl_microtasks := n\<rparr>"
  have "poll_refresh ?p = (poll_refresh ?p)\<lparr>pl_wait := pl_wait p\<rparr>"
    by (subst (1 2) refresh_form) (use assms in \<open>auto simp: polling_inv_def\<close>)
  moreover have "polling_inv served ((poll_refresh ?p)\<lparr>pl_wait := pl_wait p\<rparr>)"
    using assms by (intro refresh_inv) (auto simp: polling_inv_def)
  ultimately show ?thesis by simp
qed

lemma mount_inv: "polling_inv served p \<Longrightarrow> polling_inv served (page_mount p)"
  by (simp add: polling_inv_def page_mount_def live_polls_def)

lemma unmount_inv:
  assumes "polling_inv served p"
  shows "polling_inv served (page_unmount p)"
proof -
  let ?p = "p\<lparr>pl_generation := pl_generation p + 1, pl_mounted := False\<rparr>"
  have "clear_timeout ?p = ?p\<lparr>pl_timers := []\<rparr>" using assms by (intro timers_cleared) (simp add: polling_inv_def)
  moreover have "count_list (pl_requests p) (Suc (pl_generation p)) = 0"
    using assms by (intro no_newer) (simp add: polling_inv_def)
  ultimately show ?thesis using assms by (auto simp: polling_inv_def page_unmount_def live_polls_def le_SucI)
qed

lemma poll_click_inv: "polling_inv served p \<Longrightarrow> polling_inv served (retry_click p)"
  by (auto simp: polling_inv_def retry_click_def live_polls_def)

lemma confirm_inv:
  assumes "polling_inv served p" and "pl_wait p = WaitingConfirm"
  shows "polling_inv served (retry_confirmed e p)"
proof (cases e)
  case (Some x)
  with assms show ?thesis by (simp add: polling_inv_def retry_confirmed_def retry_finish_def live_polls_def)
next
  case None
  have "polling_inv served ((poll_refresh p)\<lparr>pl_wait := WaitingRefresh (pl_generation p + 1)\<rparr>)"
    by (rule refresh_inv) (use assms in \<open>simp_all add: polling_inv_def\<close>)
  with None show ?thesis by (simp add: retry_confirmed_def)
qed

lemma count_list_split: "x \<in> set xs \<Longrightarrow> count_list xs x = Suc (count_list (remove1 x xs) x)"
  by (induction xs) auto

lemma count_list_remove_other: "x \<noteq> y \<Longrightarrow> count_list (remove1 y xs) x = count_list xs x"
  by (induction xs) auto

lemma fire_inv:
  assumes "polling_inv served p" and "t \<in> set (pl_timers p)"
  shows "polling_inv served (timer_fired t p)"
proof -
  from assms have "pl_timers p \<noteq> []" "length (pl_timers p) \<le> 1" by (auto simp: polling_inv_def live_polls_def)
  then have "pl_timers p = [t]" using assms(2) by (cases "pl_timers p") auto
  with assms(1) show ?thesis
    by (auto simp: polling_inv_def live_polls_def timer_fired_def poll_start_def)
qed

text \<open>The end of a retry, once its poll has been answered.\<close>

lemma finish_inv: "polling_inv served (p\<lparr>pl_wait := NotWaiting, pl_isSubmitting := False, pl_isRetrySubmitting := False\<rparr>)
    \<Longrightarrow> polling_inv served (retry_finish p)"
  by (simp add: retry_finish_def polling_inv_def live_polls_def)

lemma stale_answer_inv:
  assumes inv: "polling_inv served p" and "g \<in> set (pl_requests p)" and "g \<noteq> pl_generation p"
  shows "polling_inv served (poll_answered g a p)"
proof -
  note d = polling_invD [OF inv]
  let ?rs = "remove1 g (pl_requests p)"
  let ?p = "p\<lparr>pl_requests := ?rs\<rparr>"
  have rs: "count_list ?rs (pl_generation p) = count_list (pl_requests p) (pl_generation p)"
      "pl_generation p \<in> set ?rs \<longleftrightarrow> pl_generation p \<in> set (pl_requests p)" "\<forall>g\<in>set ?rs. g \<le> pl_generation p"
    using assms(3) d(1) set_remove1_subset [of g "pl_requests p"] by (auto simp: count_list_remove_other)
  have live: "live_polls (p\<lparr>pl_requests := ?rs\<rparr>) = live_polls p" using assms(3) by (simp add: live_polls_def)
  have e: "poll_answered g a p = (if pl_wait p = WaitingRefresh g then retry_finish ?p else ?p)"
    using assms(3) by (simp add: poll_answered_def poll_end_def Let_def)
  have w: "\<forall>g'. pl_wait p = WaitingRefresh g' \<and> g' \<noteq> g \<longrightarrow> g' \<in> set ?rs" using d(9) by auto
  show ?thesis
  proof (cases "pl_wait p = WaitingRefresh g")
    case True
    have "polling_inv served (retry_finish ?p)"
      unfolding polling_inv_def retry_finish_def using d(2-6) rs(2,3) live by (simp add: live_polls_def)
    with True e show ?thesis by simp
  next
    case False
    then have w': "\<forall>g'. pl_wait p = WaitingRefresh g' \<longrightarrow> g' \<in> set ?rs" using w by auto
    have "polling_inv served ?p"
      unfolding polling_inv_def using d(2-8) rs(2,3) live w' by (simp add: live_polls_def)
    with False e show ?thesis by simp
  qed
qed

lemma poll_end_inv:
  assumes "\<forall>g\<in>set (pl_requests q). g \<le> pl_generation q" and "count_list (pl_requests q) (pl_generation q) = 0"
    and "pl_timers q = []" and "\<forall>d. pl_document q = Some d \<longrightarrow> served d" and "pl_isSubmitting q = (pl_wait q \<noteq> NotWaiting)"
    and "pl_isRetrySubmitting q = pl_isSubmitting q" and "\<forall>g. pl_wait q = WaitingRefresh g \<longrightarrow> g \<in> set (pl_requests q)"
    and "case a of Inl e \<Rightarrow> True | Inr d \<Rightarrow> served d"
  shows "polling_inv served (poll_end (pl_generation q) a q)"
proof (cases a)
  case (Inl e)
  with assms show ?thesis
    by (cases "pl_mounted q") (simp_all add: poll_end_def schedule_poll_def polling_inv_def live_polls_def)
next
  case (Inr d)
  with assms show ?thesis
    by (cases "pl_mounted q"; cases "terminal d") (simp_all add: poll_end_def schedule_poll_def polling_inv_def live_polls_def)
qed

lemma poll_end_frame:
  "pl_wait (poll_end g a q) = pl_wait q" "retry_finish (poll_end g a q) = poll_end g a (retry_finish q)"
  by (simp_all add: poll_end_def schedule_poll_def retry_finish_def split: sum.split)

lemma current_answer_inv:
  assumes "polling_inv served p" and "pl_generation p \<in> set (pl_requests p)" and "case a of Inl e \<Rightarrow> True | Inr d \<Rightarrow> served d"
  shows "polling_inv served (poll_answered (pl_generation p) a p)"
proof -
  let ?q = "p\<lparr>pl_requests := remove1 (pl_generation p) (pl_requests p)\<rparr>"
  note d = polling_invD [OF assms(1)]
  have "Suc (count_list (pl_requests ?q) (pl_generation ?q)) + length (pl_timers p) \<le> 1"
    using d(3) unfolding live_polls_def count_list_split [OF assms(2)] by simp
  then have c: "count_list (pl_requests ?q) (pl_generation ?q) = 0" "pl_timers ?q = []" by simp_all
  have old: "\<forall>g\<in>set (pl_requests ?q). g \<le> pl_generation ?q"
  proof
    fix g assume "g \<in> set (pl_requests ?q)"
    then have "g \<in> set (pl_requests p)" using set_remove1_subset by fastforce
    with d(1) show "g \<le> pl_generation ?q" by simp
  qed
  show ?thesis
  proof (cases "pl_wait p = WaitingRefresh (pl_generation p)")
    case True
    have "polling_inv served (poll_end (pl_generation (retry_finish ?q)) a (retry_finish ?q))"
      using d(4) assms(3) c old by (intro poll_end_inv) (simp_all add: retry_finish_def)
    moreover have "poll_answered (pl_generation p) a p = poll_end (pl_generation p) a (retry_finish ?q)"
      using True by (simp add: poll_answered_def Let_def poll_end_frame)
    moreover have "pl_generation (retry_finish ?q) = pl_generation p" by (simp add: retry_finish_def)
    ultimately show ?thesis by simp
  next
    case False
    have "polling_inv served (poll_end (pl_generation ?q) a ?q)"
      using d(4,7-9) assms(3) c old False by (intro poll_end_inv) (auto simp: in_set_remove1)
    with False show ?thesis by (simp add: poll_answered_def Let_def poll_end_frame)
  qed
qed

lemma polling_step_inv: "polling_step served p p' \<Longrightarrow> polling_inv served p \<Longrightarrow> polling_inv served p'"
proof (induction rule: polling_step.induct)
  case (answer g p a)
  then show ?case by (cases "g = pl_generation p") (auto intro: current_answer_inv stale_answer_inv)
qed (auto intro: mount_inv microtask_inv unmount_inv fire_inv poll_click_inv confirm_inv)

lemma polling_reachable_inv:
  assumes "polling_reachable served p"
  shows "polling_inv served p"
proof -
  have "polling_inv served polling_start" by (simp add: polling_start_def polling_inv_def live_polls_def)
  from assms [unfolded polling_reachable_def] this show ?thesis
    by (induction rule: rtranclp_induct) (auto intro: polling_step_inv)
qed

section \<open>Properties\<close>

text \<open>C34 Polling never doubles, never shows an outdated answer and never stops early: however answers, timers, retries
  and remounts interleave, at most one poll of the current generation is running or waiting; an answer to an
  older generation changes nothing that is shown; while the page is there a poll is running, waiting or about
  to start until the document is ready or failed; the loading state and the retry button end with the request
  they wait for.\<close>

theorem polling_single_chain:
  assumes "polling_reachable served p"
  shows "live_polls p \<le> 1 \<and> (\<forall>d. pl_document p = Some d \<longrightarrow> served d) \<and>
    (pl_mounted p \<longrightarrow> 0 < pl_microtasks p \<or> live_polls p = 1 \<or> (\<exists>d. pl_document p = Some d \<and> terminal d)) \<and>
    (pl_mounted p \<and> pl_isLoading p \<longrightarrow> 0 < pl_microtasks p \<or> pl_generation p \<in> set (pl_requests p)) \<and>
    (pl_isRetrySubmitting p \<longrightarrow> pl_wait p = WaitingConfirm \<or> (\<exists>g\<in>set (pl_requests p). pl_wait p = WaitingRefresh g)) \<and>
    (\<forall>g a. g \<noteq> pl_generation p \<longrightarrow> pl_document (poll_answered g a p) = pl_document p \<and>
       pl_error (poll_answered g a p) = pl_error p \<and> pl_isLoading (poll_answered g a p) = pl_isLoading p \<and>
       pl_timers (poll_answered g a p) = pl_timers p)"
proof (intro conjI)
  note d = polling_invD [OF polling_reachable_inv [OF assms]]
  show "live_polls p \<le> 1" "\<forall>d. pl_document p = Some d \<longrightarrow> served d"
    "pl_mounted p \<longrightarrow> 0 < pl_microtasks p \<or> live_polls p = 1 \<or> (\<exists>d. pl_document p = Some d \<and> terminal d)"
    "pl_mounted p \<and> pl_isLoading p \<longrightarrow> 0 < pl_microtasks p \<or> pl_generation p \<in> set (pl_requests p)"
    by (fact d(3-6))+
  show "pl_isRetrySubmitting p \<longrightarrow> pl_wait p = WaitingConfirm \<or> (\<exists>g\<in>set (pl_requests p). pl_wait p = WaitingRefresh g)"
    using d(7-9) by (cases "pl_wait p") auto
  show "\<forall>g a. g \<noteq> pl_generation p \<longrightarrow> pl_document (poll_answered g a p) = pl_document p \<and>
       pl_error (poll_answered g a p) = pl_error p \<and> pl_isLoading (poll_answered g a p) = pl_isLoading p \<and>
       pl_timers (poll_answered g a p) = pl_timers p"
    by (simp add: poll_answered_def poll_end_def retry_finish_def Let_def)
qed

text \<open>A page mounted twice before its first answer: one of the two polls is outdated.\<close>

definition twice_mounted :: polling where
  "twice_mounted =
     poll_refresh ((poll_refresh ((page_mount (page_unmount (page_mount polling_start)))\<lparr>pl_microtasks := 1\<rparr>))\<lparr>pl_microtasks := 0\<rparr>)"

lemma twice_mounted_reachable: "polling_reachable served twice_mounted"
proof -
  let ?a = "page_mount polling_start"
  let ?b = "page_mount (page_unmount ?a)"
  let ?c = "poll_refresh (?b\<lparr>pl_microtasks := 1\<rparr>)"
  have "polling_step served polling_start ?a" "polling_step served ?a (page_unmount ?a)" "polling_step served (page_unmount ?a) ?b"
    by (rule polling_step.mount polling_step.unmount, simp add: polling_start_def page_mount_def page_unmount_def clear_timeout_def)+
  moreover have "polling_step served ?b ?c" "polling_step served ?c twice_mounted"
    unfolding twice_mounted_def
    by (rule polling_step.microtask, simp add: polling_start_def page_mount_def page_unmount_def clear_timeout_def poll_refresh_def
        poll_start_def Let_def)+
  ultimately show ?thesis unfolding polling_reachable_def by (meson rtranclp.rtrancl_into_rtrancl rtranclp.rtrancl_refl)
qed

lemma polling_single_chain_witness:
  "length (pl_requests twice_mounted) = 2 \<and> live_polls twice_mounted \<le> 1 \<and>
    pl_isLoading (poll_answered 2 (Inl NoError) twice_mounted)"
proof -
  have "pl_requests twice_mounted = [3, 2] \<and> pl_generation twice_mounted = 3 \<and> pl_isLoading twice_mounted"
    by (simp add: twice_mounted_def polling_start_def page_mount_def page_unmount_def clear_timeout_def poll_refresh_def poll_start_def Let_def)
  with polling_single_chain [OF twice_mounted_reachable, where served = "\<lambda>d. True"] show ?thesis by simp
qed

end
