(* ===== verification/UploadClient.thy ===== *)
theory UploadClient imports ClientApi begin

text \<open>
  Uploading a document from the browser: \<open>components/upload/upload-workspace-utils.ts\<close>, the hook
  \<open>use-upload-model-estimate.ts\<close> and the handlers of \<open>upload-workspace.tsx\<close>, up to the requests they send.
  Vietnamese texts are written without their marks; titles and descriptions of the groups are left out.
\<close>

section \<open>Files and models\<close>

record picked_file =
  fi_name :: string
  fi_mime :: string
  fi_size :: int

record selected_file =
  sf_file :: picked_file
  sf_type :: phase0_document_type

definition getExtension :: "string \<Rightarrow> string" where
  "getExtension name = (let segments = split_char (CHR ''.'') name in if 1 < length segments then js_lower (last segments) else [])"

definition normalizeFileSelection :: "picked_file \<Rightarrow> string + selected_file" where
  "normalizeFileSelection f =
     (let extension = getExtension (fi_name f);
          mime = js_lower (js_trim (fi_mime f))
      in if fi_size f \<le> 0 then Inl ''Tep nay dang trong nen chua the tai len.''
         else if extension \<notin> {''pdf'', ''txt''} then Inl ''Hien chi ho tro file PDF hoac TXT.''
         else if \<not> (mime = [] \<or> mime \<in> {''application/pdf'', ''text/plain''})
         then Inl ''Khong doc duoc dung dinh dang cua tep nay. Hay chon lai file PDF hoac TXT goc.''
         else Inr \<lparr>sf_file = f, sf_type = (if extension = ''pdf'' then Phase0Pdf else Phase0Text)\<rparr>)"

record model_choice =
  ch_kind :: selection_kind
  ch_id :: string

definition serializeModelChoice :: "model_choice option \<Rightarrow> string" where
  "serializeModelChoice choice = (case choice of None \<Rightarrow> [] | Some c \<Rightarrow> selection_kind_str (ch_kind c) @ '':'' @ ch_id c)"

definition parseModelChoice :: "string \<Rightarrow> model_choice option" where
  "parseModelChoice v =
     (if v = [] then None
      else let parts = split_char (CHR '':'') v; kind = hd parts; id' = js_trim (join_with '':'' (tl parts))
           in if id' = [] then None
              else if kind = ''PLAN'' then Some \<lparr>ch_kind = PLAN, ch_id = id'\<rparr>
              else if kind = ''CUSTOM'' then Some \<lparr>ch_kind = CUSTOM, ch_id = id'\<rparr> else None)"

definition findModelOption :: "phase0_model_option list \<Rightarrow> model_choice option \<Rightarrow> phase0_model_option option" where
  "findModelOption models choice =
     (case choice of None \<Rightarrow> None | Some c \<Rightarrow> List.find (\<lambda>m. po_kind m = ch_kind c \<and> po_id m = ch_id c) models)"

definition groupModelOptions :: "phase0_model_option list \<Rightarrow> (selection_kind \<times> phase0_model_option list) list" where
  "groupModelOptions models =
     filter (\<lambda>g. snd g \<noteq> []) (map (\<lambda>k. (k, filter (\<lambda>m. po_kind m = k) models)) [PLAN, CUSTOM])"

text \<open>The object literal names one identifier, by kind.\<close>

definition buildUploadSelection :: "model_choice option \<Rightarrow> model_selection option" where
  "buildUploadSelection choice =
     map_option (\<lambda>c. if ch_kind c = PLAN
       then \<lparr>ms_customModelConfigId = None, ms_kind = PLAN, ms_platformModelId = Some (ch_id c)\<rparr>
       else \<lparr>ms_customModelConfigId = Some (ch_id c), ms_kind = CUSTOM, ms_platformModelId = None\<rparr>) choice"

text \<open>The body of the two requests, as the backend reads it.\<close>

definition backend_type :: "phase0_document_type \<Rightarrow> document_type" where
  "backend_type t = (case t of Phase0Pdf \<Rightarrow> PDF | Phase0Text \<Rightarrow> TEXT_TYPE)"

definition upload_body :: "selected_file \<Rightarrow> model_selection \<Rightarrow> upload_dto" where
  "upload_body f sel =
     \<lparr>ud_modelSelectionKind = ms_kind sel, ud_platformModelId = ms_platformModelId sel,
      ud_customModelConfigId = ms_customModelConfigId sel, ud_originalName = fi_name (sf_file f),
      ud_type = backend_type (sf_type f), ud_sizeBytes = fi_size (sf_file f)\<rparr>"

definition check_estimate :: "(string \<Rightarrow> bool) \<Rightarrow> upload_dto \<Rightarrow> bool" where
  "check_estimate isUUID dto \<longleftrightarrow>
     1 \<le> ud_sizeBytes dto \<and> ud_sizeBytes dto \<le> max_size_bytes \<and>
     (ud_modelSelectionKind dto = PLAN \<longrightarrow> (case ud_platformModelId dto of None \<Rightarrow> False | Some m \<Rightarrow> isNonBlankString m)) \<and>
     (ud_modelSelectionKind dto = CUSTOM \<longrightarrow> (case ud_customModelConfigId dto of None \<Rightarrow> False | Some m \<Rightarrow> isUUID m))"

section \<open>The page\<close>

datatype upload_step = StepIdle | StepCreating | StepUploading | StepUploaded | StepConfirming | StepConfirmed

text \<open>A submission is cut at its \<open>await\<close>s: it waits for the upload URL, the storage or the confirmation.\<close>

datatype upload_flow =
  CreatingUrl selected_file model_selection
| UploadingTo string
| Confirming string

record upload_page =
  ux_file :: "selected_file option"
  ux_model :: "model_choice option"
  ux_validationError :: "string option"
  ux_step :: upload_step
  ux_documentId :: "string option"
  ux_storageError :: "string option"
  ux_confirmError :: "string option"
  ux_confirmStatus :: "document_status option"
  ux_isLoadingModels :: bool
  ux_modelOptions :: "phase0_model_option list"
  ux_modelOptionsError :: "string option"
  ux_estimate :: "phase0_estimate option"
  ux_estimateError :: "string option"
  ux_isEstimating :: bool
  ux_estimateRequest :: "(selected_file \<times> model_selection) option"
  ux_flows :: "upload_flow list"
  ux_routed :: "string list"

definition upload_start :: upload_page where
  "upload_start =
     \<lparr>ux_file = None, ux_model = None, ux_validationError = None, ux_step = StepIdle, ux_documentId = None, ux_storageError = None,
      ux_confirmError = None, ux_confirmStatus = None, ux_isLoadingModels = True, ux_modelOptions = [], ux_modelOptionsError = None,
      ux_estimate = None, ux_estimateError = None, ux_isEstimating = False, ux_estimateRequest = None, ux_flows = [], ux_routed = []\<rparr>"

definition canSubmit :: "upload_page \<Rightarrow> bool" where
  "canSubmit p \<longleftrightarrow>
     ux_file p \<noteq> None \<and> buildUploadSelection (ux_model p) \<noteq> None \<and> (ux_estimate p \<noteq> None \<and> ux_estimateError p = None) \<and>
     \<not> ux_isLoadingModels p \<and> \<not> ux_isEstimating p \<and> ux_step p \<notin> {StepCreating, StepUploading, StepConfirming}"

definition resetFlowState :: "upload_page \<Rightarrow> upload_page" where
  "resetFlowState p =
     p\<lparr>ux_step := StepIdle, ux_documentId := None, ux_storageError := None, ux_confirmError := None, ux_confirmStatus := None\<rparr>"

text \<open>
  The effect of the estimate: both handlers give the request a new number, so it runs after either.  Its
  cleanup cancels the request before, whose answer then does nothing; only the one not cancelled is kept.
\<close>

definition estimate_effect :: "upload_page \<Rightarrow> upload_page" where
  "estimate_effect p =
     p\<lparr>ux_estimateRequest := (case (ux_file p, buildUploadSelection (ux_model p)) of (Some f, Some sel) \<Rightarrow> Some (f, sel) | _ \<Rightarrow> None)\<rparr>"

definition handleFileChange :: "picked_file option \<Rightarrow> upload_page \<Rightarrow> upload_page" where
  "handleFileChange next p =
     (let p1 = (resetFlowState p)\<lparr>ux_estimate := None, ux_estimateError := None\<rparr>
      in estimate_effect (case next of
           None \<Rightarrow> p1\<lparr>ux_isEstimating := False, ux_file := None, ux_validationError := None\<rparr>
         | Some f \<Rightarrow>
             (let p2 = p1\<lparr>ux_isEstimating := (ux_model p \<noteq> None)\<rparr>
              in case normalizeFileSelection f of
                   Inl e \<Rightarrow> p2\<lparr>ux_file := None, ux_validationError := Some e\<rparr>
                 | Inr sf \<Rightarrow> p2\<lparr>ux_file := Some sf, ux_validationError := None\<rparr>)))"

definition handleModelChange :: "string \<Rightarrow> upload_page \<Rightarrow> upload_page" where
  "handleModelChange nextValue p =
     (let nextSelection = parseModelChoice nextValue
      in estimate_effect ((resetFlowState p)\<lparr>ux_estimate := None, ux_estimateError := None,
           ux_isEstimating := (ux_file p \<noteq> None \<and> nextSelection \<noteq> None), ux_model := nextSelection\<rparr>))"

definition models_loaded :: "string + phase0_model_option list \<Rightarrow> upload_page \<Rightarrow> upload_page" where
  "models_loaded answer p =
     (case answer of
        Inr models \<Rightarrow> p\<lparr>ux_modelOptions := models, ux_isLoadingModels := False\<rparr>
      | Inl e \<Rightarrow> p\<lparr>ux_modelOptions := [], ux_modelOptionsError := Some e, ux_isLoadingModels := False\<rparr>)"

definition estimate_answered :: "string + phase0_estimate \<Rightarrow> upload_page \<Rightarrow> upload_page" where
  "estimate_answered answer p =
     (case answer of
        Inr e \<Rightarrow> p\<lparr>ux_estimate := Some e, ux_isEstimating := False, ux_estimateRequest := None\<rparr>
      | Inl e \<Rightarrow> p\<lparr>ux_estimate := None, ux_estimateError := Some e, ux_isEstimating := False, ux_estimateRequest := None\<rparr>)"

definition handleUploadSubmit :: "upload_page \<Rightarrow> upload_page" where
  "handleUploadSubmit p =
     (case ux_file p of
        None \<Rightarrow> p\<lparr>ux_validationError := Some ''Hay chon file PDF hoac TXT truoc khi tiep tuc.''\<rparr>
      | Some f \<Rightarrow>
          (case buildUploadSelection (ux_model p) of
             None \<Rightarrow> p\<lparr>ux_validationError := Some ''Hay chon model truoc khi tai tai lieu len.''\<rparr>
           | Some sel \<Rightarrow>
               if ux_estimate p = None \<or> (case ux_estimateError p of None \<Rightarrow> False | Some e \<Rightarrow> e \<noteq> [])
               then p\<lparr>ux_validationError := Some ''Can co uoc tinh hop le truoc khi tai tai lieu len.''\<rparr>
               else (resetFlowState p)\<lparr>ux_validationError := None, ux_step := StepCreating, ux_flows := CreatingUrl f sel # ux_flows p\<rparr>))"

definition runConfirm :: "string \<Rightarrow> upload_page \<Rightarrow> upload_page" where
  "runConfirm d p = p\<lparr>ux_step := StepConfirming, ux_confirmError := None, ux_flows := Confirming d # ux_flows p\<rparr>"

text \<open>The continuation of a flow that got its answer, the flow itself being taken off first.\<close>

definition url_answered :: "string + string \<Rightarrow> upload_page \<Rightarrow> upload_page" where
  "url_answered answer p =
     (case answer of
        Inl e \<Rightarrow> p\<lparr>ux_storageError := Some e, ux_step := StepIdle\<rparr>
      | Inr d \<Rightarrow> p\<lparr>ux_documentId := Some d, ux_step := StepUploading, ux_flows := UploadingTo d # ux_flows p\<rparr>)"

definition storage_answered :: "string \<Rightarrow> string option \<Rightarrow> upload_page \<Rightarrow> upload_page" where
  "storage_answered d error p =
     (case error of
        Some e \<Rightarrow> p\<lparr>ux_storageError := Some e, ux_step := StepIdle\<rparr>
      | None \<Rightarrow> runConfirm d (p\<lparr>ux_step := StepUploaded\<rparr>))"

definition confirm_answered :: "string + string \<times> document_status \<Rightarrow> upload_page \<Rightarrow> upload_page" where
  "confirm_answered answer p =
     (case answer of
        Inr (d, status) \<Rightarrow> p\<lparr>ux_confirmStatus := Some status, ux_step := StepConfirmed, ux_routed := ux_routed p @ [d]\<rparr>
      | Inl e \<Rightarrow> p\<lparr>ux_step := StepUploaded, ux_confirmError := Some e\<rparr>)"

definition handleRetryConfirm :: "upload_page \<Rightarrow> upload_page" where
  "handleRetryConfirm p = (case ux_documentId p of None \<Rightarrow> p | Some d \<Rightarrow> if d = [] then p else runConfirm d p)"

abbreviation flow_done :: "upload_flow \<Rightarrow> upload_page \<Rightarrow> upload_page" where
  "flow_done w p \<equiv> p\<lparr>ux_flows := remove1 w (ux_flows p)\<rparr>"

text \<open>
  \<^term>\<open>estimated f sel e\<close>: the backend may answer \<^term>\<open>e\<close> to the estimate.  The submit button is disabled unless
  \<^const>\<open>canSubmit\<close>, the button to confirm again is there for an error; files and models can be chosen at any time.
\<close>

inductive upload_step_rel ::
  "(selected_file \<Rightarrow> model_selection \<Rightarrow> phase0_estimate \<Rightarrow> bool) \<Rightarrow> upload_page \<Rightarrow> upload_page \<Rightarrow> bool" for estimated where
  pick_file: "upload_step_rel estimated p (handleFileChange f p)"
| pick_model: "upload_step_rel estimated p (handleModelChange v p)"
| models: "ux_isLoadingModels p \<Longrightarrow> upload_step_rel estimated p (models_loaded a p)"
| estimate: "ux_estimateRequest p = Some (f, sel) \<Longrightarrow> case a of Inl e \<Rightarrow> True | Inr e \<Rightarrow> estimated f sel e \<Longrightarrow>
    upload_step_rel estimated p (estimate_answered a p)"
| submit: "canSubmit p \<Longrightarrow> upload_step_rel estimated p (handleUploadSubmit p)"
| url: "CreatingUrl f sel \<in> set (ux_flows p) \<Longrightarrow> upload_step_rel estimated p (url_answered a (flow_done (CreatingUrl f sel) p))"
| stored: "UploadingTo d \<in> set (ux_flows p) \<Longrightarrow> upload_step_rel estimated p (storage_answered d e (flow_done (UploadingTo d) p))"
| confirmed: "Confirming d \<in> set (ux_flows p) \<Longrightarrow> upload_step_rel estimated p (confirm_answered a (flow_done (Confirming d) p))"
| again: "ux_confirmError p \<noteq> None \<Longrightarrow> ux_confirmError p \<noteq> Some [] \<Longrightarrow> upload_step_rel estimated p (handleRetryConfirm p)"

definition upload_reachable ::
  "(selected_file \<Rightarrow> model_selection \<Rightarrow> phase0_estimate \<Rightarrow> bool) \<Rightarrow> upload_page \<Rightarrow> bool" where
  "upload_reachable estimated p \<longleftrightarrow> (upload_step_rel estimated)\<^sup>*\<^sup>* upload_start p"

section \<open>Names and choices\<close>

lemma split_char_nonempty: "split_char c s \<noteq> []"
  by (induction s) (auto split: list.split)

lemma split_char_last:
  "1 < length (split_char c s) \<Longrightarrow> \<exists>pre. s = pre @ c # last (split_char c s)"
proof (induction s)
  case (Cons x s)
  obtain w ws where w: "split_char c s = w # ws" using split_char_nonempty [of c s] by (cases "split_char c s") auto
  show ?case
  proof (cases "ws = []")
    case True
    have "w = s" if "split_char c s = [w]" for w s using that
    proof (induction s arbitrary: w)
      case (Cons y s)
      then show ?case using split_char_nonempty [of c s] by (auto split: if_splits list.splits)
    qed simp
    with w True have "w = s" by simp
    with Cons.prems w True show ?thesis by (auto split: if_splits)
  next
    case False
    with w have "1 < length (split_char c s)" by (cases ws) auto
    from Cons.IH [OF this] obtain pre where "s = pre @ c # last (split_char c s)" by blast
    with w False show ?thesis by (intro exI [of _ "x # pre"]) auto
  qed
qed simp

lemma extension_suffix:
  assumes "getExtension name = e" and "e \<noteq> []"
  shows "ends_with (CHR ''.'' # e) (js_lower name)"
proof -
  let ?segs = "split_char (CHR ''.'') name"
  from assms have l: "1 < length ?segs" "e = js_lower (last ?segs)" by (auto simp: getExtension_def Let_def split: if_splits)
  from split_char_last [OF l(1)] obtain pre where pre: "name = pre @ CHR ''.'' # last ?segs" by blast
  have "char_lower (CHR ''.'') = CHR ''.''" by (simp add: char_lower_def Let_def)
  then have "js_lower name = js_lower pre @ CHR ''.'' # e" unfolding l(2) by (subst pre) (simp add: js_lower_def)
  then show ?thesis by (simp add: ends_with_def)
qed

lemma accepted_file:
  assumes "normalizeFileSelection pf = Inr f"
  shows "sf_file f = pf" and "1 \<le> fi_size pf" and "\<exists>policy. resolveDocumentUploadPolicy (backend_type (sf_type f)) (fi_name pf) = Inr policy"
    and "isNonBlankString (fi_name pf)"
proof -
  let ?e = "getExtension (fi_name pf)"
  from assms have f: "f = \<lparr>sf_file = pf, sf_type = (if ?e = ''pdf'' then Phase0Pdf else Phase0Text)\<rparr>" "0 < fi_size pf" "?e = ''pdf'' \<or> ?e = ''txt''"
    by (auto simp: normalizeFileSelection_def Let_def split: if_splits)
  show "sf_file f = pf" "1 \<le> fi_size pf" using f(1,2) by simp_all
  have s: "ends_with (CHR ''.'' # ?e) (js_lower (fi_name pf))" using f(3) by (intro extension_suffix) auto
  with f(1,3) show "\<exists>policy. resolveDocumentUploadPolicy (backend_type (sf_type f)) (fi_name pf) = Inr policy"
    by (auto simp: resolveDocumentUploadPolicy_def backend_type_def policy_of_def)
  from f(3) have "1 < length (split_char (CHR ''.'') (fi_name pf))" by (auto simp: getExtension_def Let_def split: if_splits)
  from split_char_last [OF this] have "CHR ''.'' \<in> set (fi_name pf)" by (metis in_set_conv_decomp)
  moreover have "\<not> is_ws (CHR ''.'')" by (simp add: is_ws_def)
  ultimately have "js_trim (fi_name pf) \<noteq> []" unfolding js_trim_Nil by blast
  then show "isNonBlankString (fi_name pf)" by (simp add: isNonBlankString_def)
qed

lemma split_char_join: "join_with [c] (split_char c s) = s"
proof (induction s)
  case (Cons x s)
  obtain w ws where w: "split_char c s = w # ws" using split_char_nonempty [of c s] by (cases "split_char c s") auto
  with Cons show ?case by (cases ws) auto
qed simp

text \<open>The value of an option of the menu names its model again.\<close>

lemma choice_roundtrip:
  assumes "js_trim (ch_id c) = ch_id c" and "ch_id c \<noteq> []"
  shows "parseModelChoice (serializeModelChoice (Some c)) = Some c"
proof -
  obtain k i where c: "c = \<lparr>ch_kind = k, ch_id = i\<rparr>" by (cases c) auto
  have "split_char (CHR '':'') (selection_kind_str k @ CHR '':'' # i) = selection_kind_str k # split_char (CHR '':'') i"
    by (cases k) (simp_all add: split_char_append del: append_Cons append.simps)
  moreover have "join_with '':'' (split_char (CHR '':'') i) = i" by (rule split_char_join)
  moreover have "selection_kind_str k \<noteq> []" "selection_kind_str k = ''PLAN'' \<longleftrightarrow> k = PLAN" "selection_kind_str k = ''CUSTOM'' \<longleftrightarrow> k = CUSTOM"
    by (cases k; simp)+
  ultimately show ?thesis
    using assms by (cases k) (simp_all add: c serializeModelChoice_def parseModelChoice_def Let_def)
qed

section \<open>The invariant of the page\<close>

definition upload_inv :: "(selected_file \<Rightarrow> model_selection \<Rightarrow> phase0_estimate \<Rightarrow> bool) \<Rightarrow> upload_page \<Rightarrow> bool" where
  "upload_inv estimated p \<longleftrightarrow>
     (\<forall>f. ux_file p = Some f \<longrightarrow> (\<exists>pf. normalizeFileSelection pf = Inr f)) \<and>
     (\<forall>f sel. ux_estimateRequest p = Some (f, sel) \<longrightarrow> ux_file p = Some f \<and> buildUploadSelection (ux_model p) = Some sel) \<and>
     (\<forall>e. ux_estimate p = Some e \<longrightarrow>
        (\<exists>f sel. ux_file p = Some f \<and> buildUploadSelection (ux_model p) = Some sel \<and> estimated f sel e)) \<and>
     (\<forall>f sel. CreatingUrl f sel \<in> set (ux_flows p) \<longrightarrow>
        (\<exists>pf e. normalizeFileSelection pf = Inr f \<and> estimated f sel e)) \<and>
     (ux_isEstimating p \<longrightarrow> ux_estimate p = None \<and>
        (ux_estimateRequest p \<noteq> None \<or> ux_file p = None \<and> ux_validationError p \<noteq> None))"

lemma upload_invI:
  assumes "\<And>f. ux_file p = Some f \<Longrightarrow> \<exists>pf. normalizeFileSelection pf = Inr f"
    and "\<And>f sel. ux_estimateRequest p = Some (f, sel) \<Longrightarrow> ux_file p = Some f \<and> buildUploadSelection (ux_model p) = Some sel"
    and "\<And>e. ux_estimate p = Some e \<Longrightarrow>
        \<exists>f sel. ux_file p = Some f \<and> buildUploadSelection (ux_model p) = Some sel \<and> estimated f sel e"
    and "\<And>f sel. CreatingUrl f sel \<in> set (ux_flows p) \<Longrightarrow> \<exists>pf e. normalizeFileSelection pf = Inr f \<and> estimated f sel e"
    and "ux_isEstimating p \<Longrightarrow> ux_estimate p = None \<and>
        (ux_estimateRequest p \<noteq> None \<or> ux_file p = None \<and> ux_validationError p \<noteq> None)"
  shows "upload_inv estimated p"
  unfolding upload_inv_def using assms by (intro conjI allI impI) blast+

lemma upload_invD:
  assumes "upload_inv estimated p"
  shows "ux_file p = Some f \<Longrightarrow> \<exists>pf. normalizeFileSelection pf = Inr f"
    and "ux_estimateRequest p = Some (f, sel) \<Longrightarrow> ux_file p = Some f \<and> buildUploadSelection (ux_model p) = Some sel"
    and "ux_estimate p = Some e \<Longrightarrow>
        \<exists>f sel. ux_file p = Some f \<and> buildUploadSelection (ux_model p) = Some sel \<and> estimated f sel e"
    and "CreatingUrl f sel \<in> set (ux_flows p) \<Longrightarrow> \<exists>pf e. normalizeFileSelection pf = Inr f \<and> estimated f sel e"
    and "ux_isEstimating p \<Longrightarrow> ux_estimate p = None \<and>
        (ux_estimateRequest p \<noteq> None \<or> ux_file p = None \<and> ux_validationError p \<noteq> None)"
  using assms unfolding upload_inv_def by blast+

text \<open>Steps that touch neither the choices nor the estimate, and start no request for an upload URL.\<close>

lemma flow_inv:
  assumes "upload_inv estimated p"
    and "ux_file p' = ux_file p" "ux_model p' = ux_model p" "ux_estimateRequest p' = ux_estimateRequest p"
      "ux_estimate p' = ux_estimate p" "ux_isEstimating p' = ux_isEstimating p" "ux_validationError p' = ux_validationError p"
    and "\<And>f sel. CreatingUrl f sel \<in> set (ux_flows p') \<Longrightarrow> CreatingUrl f sel \<in> set (ux_flows p)"
  shows "upload_inv estimated p'"
proof -
  have "\<forall>f sel. CreatingUrl f sel \<in> set (ux_flows p') \<longrightarrow> (\<exists>pf e. normalizeFileSelection pf = Inr f \<and> estimated f sel e)"
  proof (intro allI impI)
    fix f sel assume "CreatingUrl f sel \<in> set (ux_flows p')"
    then have "CreatingUrl f sel \<in> set (ux_flows p)" by (rule assms(8))
    then show "\<exists>pf e. normalizeFileSelection pf = Inr f \<and> estimated f sel e" by (rule upload_invD(4) [OF assms(1)])
  qed
  with assms(1) show ?thesis unfolding upload_inv_def assms(2-7) by (elim conjE) (intro conjI; assumption)
qed

text \<open>A new choice: no estimate, and a request exactly for a file and a model.\<close>

lemma choice_inv:
  assumes "upload_inv estimated p" and "ux_flows p' = ux_flows p" and "ux_estimate p' = None"
    and "\<And>f. ux_file p' = Some f \<Longrightarrow> \<exists>pf. normalizeFileSelection pf = Inr f"
    and "ux_isEstimating p' \<Longrightarrow>
      ux_file p' \<noteq> None \<and> ux_model p' \<noteq> None \<or> ux_file p' = None \<and> ux_validationError p' \<noteq> None"
  shows "upload_inv estimated (estimate_effect p')"
proof (rule upload_invI)
  show "\<exists>pf. normalizeFileSelection pf = Inr f" if "ux_file (estimate_effect p') = Some f" for f
    using that assms(4) by (simp add: estimate_effect_def)
  show "ux_file (estimate_effect p') = Some f \<and> buildUploadSelection (ux_model (estimate_effect p')) = Some sel"
    if "ux_estimateRequest (estimate_effect p') = Some (f, sel)" for f sel
    using that by (auto simp: estimate_effect_def split: option.splits)
  show "\<exists>pf e. normalizeFileSelection pf = Inr f \<and> estimated f sel e" if "CreatingUrl f sel \<in> set (ux_flows (estimate_effect p'))" for f sel
    using that upload_invD(4) [OF assms(1)] assms(2) by (simp add: estimate_effect_def)
  show "ux_estimate (estimate_effect p') = None \<and> (ux_estimateRequest (estimate_effect p') \<noteq> None \<or>
      ux_file (estimate_effect p') = None \<and> ux_validationError (estimate_effect p') \<noteq> None)"
    if "ux_isEstimating (estimate_effect p')"
    using that assms(3,5) by (auto simp: estimate_effect_def buildUploadSelection_def)
qed (simp add: estimate_effect_def assms(3))

lemma file_change_inv:
  assumes "upload_inv estimated p"
  shows "upload_inv estimated (handleFileChange next p)"
proof (cases "next")
  case None
  then show ?thesis unfolding handleFileChange_def Let_def
    by (simp, intro choice_inv [OF assms]) (simp_all add: resetFlowState_def)
next
  case (Some f)
  show ?thesis
  proof (cases "normalizeFileSelection f")
    case (Inl e)
    with Some show ?thesis unfolding handleFileChange_def Let_def
      by (simp, intro choice_inv [OF assms]) (simp_all add: resetFlowState_def)
  next
    case (Inr sf)
    with Some show ?thesis unfolding handleFileChange_def Let_def
      by (simp, intro choice_inv [OF assms]) (auto simp: resetFlowState_def)
  qed
qed

lemma model_change_inv:
  assumes "upload_inv estimated p"
  shows "upload_inv estimated (handleModelChange v p)"
  unfolding handleModelChange_def Let_def
  by (intro choice_inv [OF assms]) (use upload_invD(1) [OF assms] in \<open>simp_all add: resetFlowState_def\<close>)

lemma estimate_answer_inv:
  assumes "upload_inv estimated p" and "ux_estimateRequest p = Some (f, sel)" and "case a of Inl e \<Rightarrow> True | Inr e \<Rightarrow> estimated f sel e"
  shows "upload_inv estimated (estimate_answered a p)"
  using upload_invD [OF assms(1)] upload_invD(2) [OF assms(1,2)] assms(3)
  by (intro upload_invI) (auto simp: estimate_answered_def split: sum.splits)

lemma submit_inv:
  assumes "upload_inv estimated p" and "canSubmit p"
  shows "upload_inv estimated (handleUploadSubmit p)"
proof -
  from assms(2) obtain f sel e where f: "ux_file p = Some f" "buildUploadSelection (ux_model p) = Some sel" "ux_estimate p = Some e"
    "ux_estimateError p = None" "\<not> ux_isEstimating p" by (auto simp: canSubmit_def)
  from upload_invD(3) [OF assms(1) f(3)] f have e: "estimated f sel e" by simp
  from upload_invD(1) [OF assms(1) f(1)] obtain pf where pf: "normalizeFileSelection pf = Inr f" by blast
  have "handleUploadSubmit p = (resetFlowState p)\<lparr>ux_validationError := None, ux_step := StepCreating, ux_flows := CreatingUrl f sel # ux_flows p\<rparr>"
    by (simp add: handleUploadSubmit_def f)
  then show ?thesis
    using upload_invD [OF assms(1)] pf e f by (intro upload_invI) (auto simp: resetFlowState_def)
qed

lemma upload_step_inv: "upload_step_rel estimated p p' \<Longrightarrow> upload_inv estimated p \<Longrightarrow> upload_inv estimated p'"
proof (induction rule: upload_step_rel.induct)
  case (models p a)
  then show ?case by (cases a; elim flow_inv) (simp_all add: models_loaded_def)
next
  case (url f sel p a)
  then show ?case by (elim flow_inv) (auto simp: url_answered_def split: sum.splits dest: subsetD [OF set_remove1_subset])
next
  case (stored d p e)
  then show ?case by (elim flow_inv) (auto simp: storage_answered_def runConfirm_def split: option.splits dest: subsetD [OF set_remove1_subset])
next
  case (confirmed d p a)
  then show ?case by (elim flow_inv) (auto simp: confirm_answered_def split: sum.splits dest: subsetD [OF set_remove1_subset])
next
  case (again p)
  then show ?case by (elim flow_inv) (auto simp: handleRetryConfirm_def runConfirm_def split: option.splits if_splits)
qed (auto intro: file_change_inv model_change_inv estimate_answer_inv submit_inv)

lemma upload_reachable_inv:
  assumes "upload_reachable estimated p"
  shows "upload_inv estimated p"
proof -
  have "upload_inv estimated upload_start" by (intro upload_invI) (simp_all add: upload_start_def)
  from assms [unfolded upload_reachable_def] this show ?thesis
    by (induction rule: rtranclp_induct) (auto intro: upload_step_inv)
qed

section \<open>Properties\<close>

text \<open>What the backend answers to an estimate that passes its validation, read by the client.\<close>

definition estimate_json :: "estimate_result \<Rightarrow> json" where
  "estimate_json r =
     JObj [(''estimatedCredits'', JNum (JFin (es_estimatedCredits r))), (''precision'', JStr (es_precision r)),
           (''selectedModelKind'', JStr (selection_kind_str (es_selectedModelKind r))), (''selectedModelLabel'', JStr (es_selectedModelLabel r))]"

definition backend_estimate ::
  "(string \<Rightarrow> bool) \<Rightarrow> plan_model list \<Rightarrow> int \<Rightarrow> string \<Rightarrow> model_db \<Rightarrow> selected_file \<Rightarrow> model_selection \<Rightarrow> phase0_estimate \<Rightarrow> bool" where
  "backend_estimate isUUID models free ownerId mdb f sel e \<longleftrightarrow>
     check_estimate isUUID (upload_body f sel) \<and>
     (case fst (estimateBeforeUpload models free ownerId (fi_size (sf_file f)) (backend_type (sf_type f)) sel mdb) of
        Inl x \<Rightarrow> False | Inr r \<Rightarrow> mapEstimateResponse (Some (estimate_json r)) = Inr e)"

lemma upload_command_selection: "uc_selection (upload_command_of (upload_body f sel)) = sel"
  by (cases sel) (simp add: upload_command_of_def upload_body_def)

text \<open>
  The catalog, the free credits and the models of the owner may change between any two requests: an estimate was
  given under one of the states in \<^term>\<open>states\<close>.
\<close>

definition quoted ::
  "(string \<Rightarrow> bool) \<Rightarrow> string \<Rightarrow> (plan_model list \<times> int \<times> model_db) set \<Rightarrow> selected_file \<Rightarrow> model_selection \<Rightarrow> phase0_estimate \<Rightarrow> bool" where
  "quoted isUUID ownerId states f sel e \<longleftrightarrow>
     (\<exists>(models, free, mdb)\<in>states. backend_estimate isUUID models free ownerId mdb f sel e)"

text \<open>Of the checks of a request for an upload the page and the estimate leave one open.\<close>

lemma estimated_validated:
  assumes "normalizeFileSelection pf = Inr f" and "quoted isUUID ownerId states f sel e"
  shows "check_upload isUUID (upload_body f sel) \<longleftrightarrow> length (fi_name (sf_file f)) \<le> 500"
proof -
  from assms(2) have "check_estimate isUUID (upload_body f sel)" by (auto simp: quoted_def backend_estimate_def)
  with accepted_file(1,2,4) [OF assms(1)] show ?thesis by (simp add: check_estimate_def check_upload_def upload_body_def)
qed

lemma upload_refused_by_catalog:
  assumes "normalizeFileSelection pf = Inr f"
  shows "case fst (createUploadUrl sign bucket expiry models free rid newId now ownerId (upload_command_of (upload_body f sel)) (db, mdb)) of
       Inr r \<Rightarrow> \<exists>q. fst (estimateModelSelection models free ownerId (fi_size (sf_file f)) sel mdb) = Inr q
     | Inl x \<Rightarrow> (x = ContentDbFailure \<or> x = StorageFailure) \<and> (\<exists>q. fst (estimateModelSelection models free ownerId (fi_size (sf_file f)) sel mdb) = Inr q)
         \<or> fst (estimateModelSelection models free ownerId (fi_size (sf_file f)) sel mdb) = Inl x"
proof -
  let ?c = "upload_command_of (upload_body f sel)"
  note a = accepted_file [OF assms]
  from a(1,3) obtain policy where p: "resolveDocumentUploadPolicy (uc_type ?c) (uc_originalName ?c) = Inr policy"
    by (auto simp: upload_command_of_def upload_body_def)
  have size: "uc_sizeBytes ?c = fi_size (sf_file f)" by (simp add: upload_command_of_def upload_body_def)
  obtain x mdb1 where m: "estimateModelSelection models free ownerId (fi_size (sf_file f)) sel mdb = (x, mdb1)"
    by (cases "estimateModelSelection models free ownerId (fi_size (sf_file f)) sel mdb") auto
  show ?thesis
  proof (cases x)
    case (Inl e)
    with p m show ?thesis by (simp add: createUploadUrl_def upload_command_selection size)
  next
    case (Inr q)
    obtain credits label where q: "q = (credits, label)" by (cases q) auto
    have created: "fst (createUploaded newId now ownerId ?c credits label k db) = Inl y \<Longrightarrow> y = ContentDbFailure" for k y
      by (auto simp: createUploaded_def Let_def split: option.splits if_splits)
    let ?k = "ownerId @ CHR ''/'' # rid @ up_extension policy"
    obtain y db1 where y: "createUploaded newId now ownerId ?c credits label ?k db = (y, db1)"
      by (cases "createUploaded newId now ownerId ?c credits label ?k db") auto
    show ?thesis
    proof (cases y)
      case (Inl z)
      with y created [of ?k z] Inr show ?thesis by (simp add: createUploadUrl_def p m q upload_command_selection size Let_def)
    next
      case (Inr d)
      with y \<open>x = Inr q\<close> show ?thesis
        by (simp add: createUploadUrl_def p m q upload_command_selection size Let_def split: option.split)
    qed
  qed
qed

text \<open>C35 The browser asks for an upload only what the backend has already priced: on a page reached by any
  choices, answers and submissions, also of several uploads at once and while the catalog changes, an estimate that is
  shown is for the file and model selected now; and a request for an upload URL is for a file and model of an accepted
  estimate, is never refused for the type, the size or the extension of the file, passes the validation exactly if the
  name of the file has at most 500 code units, which the page does not check, and otherwise fails only in the
  database or the storage, or as the catalog of that moment refuses the model, which one that prices it does not.\<close>

theorem upload_matches_estimate:
  assumes "upload_reachable (quoted isUUID ownerId states) p"
  shows "(ux_estimate p = Some e \<longrightarrow>
      (\<exists>f sel. ux_file p = Some f \<and> buildUploadSelection (ux_model p) = Some sel \<and> quoted isUUID ownerId states f sel e)) \<and>
    (CreatingUrl f sel \<in> set (ux_flows p) \<longrightarrow>
      (\<exists>e'. quoted isUUID ownerId states f sel e') \<and>
      (check_upload isUUID (upload_body f sel) \<longleftrightarrow> length (fi_name (sf_file f)) \<le> 500) \<and>
      (case fst (createUploadUrl sign bucket expiry models free rid newId now ownerId (upload_command_of (upload_body f sel)) (db, mdb)) of
         Inr r \<Rightarrow> True
       | Inl x \<Rightarrow> x = ContentDbFailure \<or> x = StorageFailure
           \<or> fst (estimateModelSelection models free ownerId (fi_size (sf_file f)) sel mdb) = Inl x) \<and>
      (backend_estimate isUUID models free ownerId mdb f sel e' \<longrightarrow>
       (case fst (createUploadUrl sign bucket expiry models free rid newId now ownerId (upload_command_of (upload_body f sel)) (db, mdb)) of
          Inr r \<Rightarrow> True | Inl x \<Rightarrow> x = ContentDbFailure \<or> x = StorageFailure)))"
proof (intro conjI impI)
  note d = upload_invD [OF upload_reachable_inv [OF assms]]
  show "\<exists>f sel. ux_file p = Some f \<and> buildUploadSelection (ux_model p) = Some sel \<and> quoted isUUID ownerId states f sel e"
    if "ux_estimate p = Some e" using d(3) [OF that] .
  assume "CreatingUrl f sel \<in> set (ux_flows p)"
  from d(4) [OF this] obtain pf e0 where pf: "normalizeFileSelection pf = Inr f" and e0: "quoted isUUID ownerId states f sel e0" by blast
  show "\<exists>e'. quoted isUUID ownerId states f sel e'" using e0 ..
  show "check_upload isUUID (upload_body f sel) \<longleftrightarrow> length (fi_name (sf_file f)) \<le> 500" using pf e0 by (rule estimated_validated)
  note refused = upload_refused_by_catalog [OF pf, where sel = sel and models = models and free = free and ownerId = ownerId
      and mdb = mdb and sign = sign and bucket = bucket and expiry = expiry and rid = rid and newId = newId and now = now and db = db]
  then show "case fst (createUploadUrl sign bucket expiry models free rid newId now ownerId (upload_command_of (upload_body f sel)) (db, mdb)) of
         Inr r \<Rightarrow> True
       | Inl x \<Rightarrow> x = ContentDbFailure \<or> x = StorageFailure
           \<or> fst (estimateModelSelection models free ownerId (fi_size (sf_file f)) sel mdb) = Inl x"
    by (auto split: sum.splits)
  assume "backend_estimate isUUID models free ownerId mdb f sel e'"
  then obtain r where "fst (estimateBeforeUpload models free ownerId (fi_size (sf_file f)) (backend_type (sf_type f)) sel mdb) = Inr r"
    by (auto simp: backend_estimate_def split: sum.splits)
  then have "fst (estimateModelSelection models free ownerId (fi_size (sf_file f)) sel mdb) \<noteq> Inl y" for y
    by (auto simp: estimateBeforeUpload_def split: prod.splits sum.splits)
  with refused show "case fst (createUploadUrl sign bucket expiry models free rid newId now ownerId (upload_command_of (upload_body f sel)) (db, mdb)) of
          Inr r \<Rightarrow> True | Inl x \<Rightarrow> x = ContentDbFailure \<or> x = StorageFailure"
    by (auto split: sum.splits)
qed

definition sample_file :: picked_file where
  "sample_file = \<lparr>fi_name = ''a.txt'', fi_mime = ''text/plain'', fi_size = 4\<rparr>"

definition sample_models :: "plan_model list" where
  "sample_models = [\<lparr>pl_creditPerInputToken = 1, pl_creditPerOutputToken = 1, pl_id = ''m'', pl_label = ''M'', pl_model = ''m'', pl_planIds = [''free'']\<rparr>]"

definition sample_selected :: selected_file where
  "sample_selected = \<lparr>sf_file = sample_file, sf_type = Phase0Text\<rparr>"

definition sample_selection :: model_selection where
  "sample_selection = \<lparr>ms_customModelConfigId = None, ms_kind = PLAN, ms_platformModelId = Some ''m''\<rparr>"

definition sample_estimate :: phase0_estimate where
  "sample_estimate = \<lparr>pe_estimatedCredits = JFin 257, pe_precision = COARSE, pe_selectedModelKind = PLAN, pe_selectedModelLabel = ''M''\<rparr>"

definition chosen_page :: upload_page where
  "chosen_page = models_loaded (Inr []) (handleFileChange (Some sample_file) (handleModelChange ''PLAN:m'' upload_start))"

definition submitted_page :: upload_page where
  "submitted_page = handleUploadSubmit (estimate_answered (Inr sample_estimate) chosen_page)"

lemma sample_estimated: "backend_estimate (\<lambda>s. True) sample_models 1000 ''w'' empty_models sample_selected sample_selection sample_estimate"
  unfolding backend_estimate_def by code_simp

lemma sample_page_facts:
  "ux_estimateRequest chosen_page = Some (sample_selected, sample_selection)"
  "canSubmit (estimate_answered (Inr sample_estimate) chosen_page)"
  "ux_flows submitted_page = [CreatingUrl sample_selected sample_selection]"
  by code_simp+

lemma submitted_page_reachable:
  assumes "estimated sample_selected sample_selection sample_estimate"
  shows "upload_reachable estimated submitted_page"
proof -
  let ?a = "handleModelChange ''PLAN:m'' upload_start"
  let ?b = "handleFileChange (Some sample_file) ?a"
  have "ux_isLoadingModels ?b" by code_simp
  then have "upload_step_rel estimated ?b chosen_page" unfolding chosen_page_def by (rule upload_step_rel.models)
  moreover have "upload_step_rel estimated chosen_page (estimate_answered (Inr sample_estimate) chosen_page)"
    using sample_page_facts(1) assms by (intro upload_step_rel.estimate) simp_all
  moreover have "upload_step_rel estimated (estimate_answered (Inr sample_estimate) chosen_page) submitted_page"
    unfolding submitted_page_def by (rule upload_step_rel.submit [OF sample_page_facts(2)])
  ultimately show ?thesis
    unfolding upload_reachable_def
    by (meson upload_step_rel.pick_model upload_step_rel.pick_file rtranclp.rtrancl_into_rtrancl rtranclp.rtrancl_refl)
qed

lemma upload_matches_estimate_witness:
  "check_upload (\<lambda>s. True) (upload_body sample_selected sample_selection) \<and>
   (case fst (createUploadUrl (\<lambda>policy. None) ''b'' 900 sample_models 1000 ''r'' ''d'' 7 ''w''
      (upload_command_of (upload_body sample_selected sample_selection))
      (\<lparr>cs_documents = [], cs_outbox = [], cs_nextOutboxId = 0\<rparr>, empty_models)) of
     Inr r \<Rightarrow> True | Inl x \<Rightarrow> x = ContentDbFailure \<or> x = StorageFailure)"
proof -
  let ?states = "{(sample_models, 1000, empty_models), ([], 0, empty_models)}"
  have "quoted (\<lambda>s. True) ''w'' ?states sample_selected sample_selection sample_estimate"
    unfolding quoted_def using sample_estimated by simp
  note r = submitted_page_reachable [where estimated = "quoted (\<lambda>s. True) ''w'' ?states", OF this]
  have len: "length (fi_name (sf_file sample_selected)) \<le> 500" by (simp add: sample_selected_def sample_file_def)
  have "CreatingUrl sample_selected sample_selection \<in> set (ux_flows submitted_page)" by (simp add: sample_page_facts(3))
  note t = mp [OF conjunct2 [OF upload_matches_estimate [where p = submitted_page and models = sample_models and free = 1000
      and mdb = empty_models and f = sample_selected and sel = sample_selection and e' = sample_estimate, OF r]] this]
  show ?thesis
  proof
    show "check_upload (\<lambda>s. True) (upload_body sample_selected sample_selection)"
      using conjunct1 [OF conjunct2 [OF t]] len by (rule iffD2)
    show "case fst (createUploadUrl (\<lambda>policy. None) ''b'' 900 sample_models 1000 ''r'' ''d'' 7 ''w''
      (upload_command_of (upload_body sample_selected sample_selection))
      (\<lparr>cs_documents = [], cs_outbox = [], cs_nextOutboxId = 0\<rparr>, empty_models)) of
     Inr r \<Rightarrow> True | Inl x \<Rightarrow> x = ContentDbFailure \<or> x = StorageFailure"
      by (rule mp [OF conjunct2 [OF conjunct2 [OF conjunct2 [OF t]]] sample_estimated])
  qed
qed

section \<open>Two flaws of the page\<close>

text \<open>
  A refused file after a model has been chosen leaves the page saying that it estimates, with no request
  that could end it.
\<close>

lemma refused_file_keeps_estimating:
  assumes "ux_model p \<noteq> None" and "normalizeFileSelection f = Inl e"
  shows "ux_isEstimating (handleFileChange (Some f) p) \<and> ux_estimateRequest (handleFileChange (Some f) p) = None"
  using assms by (simp add: handleFileChange_def Let_def estimate_effect_def)

text \<open>
  A choice during an upload frees the button again: a second upload starts beside the first, and the answer to
  the first then shows the document and the step of the upload that was given up.
\<close>

lemma uploads_overlap:
  assumes "estimated sample_selected sample_selection sample_estimate"
  shows "\<exists>p. upload_reachable estimated p \<and> length (ux_flows p) = 2 \<and> ux_step p = StepCreating"
proof -
  let ?b = "handleFileChange (Some sample_file) submitted_page"
  let ?c = "estimate_answered (Inr sample_estimate) ?b"
  have r: "ux_estimateRequest ?b = Some (sample_selected, sample_selection)" "canSubmit ?c" by code_simp+
  have "upload_step_rel estimated ?b ?c" using r(1) assms by (intro upload_step_rel.estimate) simp_all
  moreover have "upload_step_rel estimated ?c (handleUploadSubmit ?c)" by (rule upload_step_rel.submit [OF r(2)])
  ultimately have "upload_reachable estimated (handleUploadSubmit ?c)"
    using submitted_page_reachable [where estimated = estimated, OF assms] unfolding upload_reachable_def
    by (meson upload_step_rel.pick_file rtranclp.rtrancl_into_rtrancl)
  moreover have "length (ux_flows (handleUploadSubmit ?c)) = 2" "ux_step (handleUploadSubmit ?c) = StepCreating" by code_simp+
  ultimately show ?thesis by blast
qed

end
