(* ===== verification/LlmClient.thy ===== *)
theory LlmClient imports QuizGeneration Configuration JsonText ClientApi begin

text \<open>
  The client of the language model, \<open>ai/openai-llm-provider.ts\<close>, and the deterministic stand-in
  \<open>ai/fake-llm-provider.ts\<close>.  The SDK of the vendor is a parameter: a function from the number of the call and
  the request to the response or the error it throws.
\<close>

section \<open>The SDK\<close>

text \<open>Errors by class and status; any other error is one the provider passes on.\<close>

datatype sdk_error = APIConnectionError string | APIError "nat option" string | OtherError string

record api_usage =
  au_input_tokens :: "jsnum option"
  au_output_tokens :: "jsnum option"
  au_prompt_tokens :: "jsnum option"
  au_completion_tokens :: "jsnum option"

record chat_choice =
  ch_finish_reason :: "string option"
  ch_content :: "string option"

record chat_completion =
  cp_choices :: "chat_choice list"
  cp_usage :: "api_usage option"

record responses_result =
  rr_output_text :: string
  rr_status :: "string option"
  rr_usage :: "api_usage option"

record sdk_request =
  sr_maxTokens :: int
  sr_instructions :: string
  sr_input :: string
  sr_model :: string
  sr_format :: json

record openai_client =
  ac_chat :: "nat \<Rightarrow> sdk_request \<Rightarrow> sdk_error + chat_completion"
  ac_responses :: "nat \<Rightarrow> sdk_request \<Rightarrow> sdk_error + responses_result"

section \<open>Requests\<close>

fun schema_type :: "string \<Rightarrow> json" where
  "schema_type t = JObj [(''type'', JStr t)]"

definition schema_object :: "(string \<times> json) list \<Rightarrow> json" where
  "schema_object ps =
     JObj [(''additionalProperties'', JBool False), (''properties'', JObj ps), (''required'', JArr (map (\<lambda>p. JStr (fst p)) ps)),
           (''type'', JStr ''object'')]"

definition QUIZ_RESPONSE_SCHEMA :: json where
  "QUIZ_RESPONSE_SCHEMA =
     schema_object [(''questions'',
       JObj [(''items'', schema_object
                [(''explanation'', schema_type ''string''),
                 (''options'', JObj [(''items'', schema_object [(''content'', schema_type ''string''), (''isCorrect'', schema_type ''boolean'')]),
                                     (''type'', JStr ''array'')]),
                 (''stem'', schema_type ''string'')]),
             (''maxItems'', JNum (JFin 1)), (''minItems'', JNum (JFin 1)), (''type'', JStr ''array'')])]"

fun createChatResponseFormat :: "output_mode \<Rightarrow> json" where
  "createChatResponseFormat JsonObject = JObj [(''type'', JStr ''json_object'')]"
| "createChatResponseFormat JsonSchemaStrict =
     JObj [(''json_schema'', JObj [(''name'', JStr ''quiz_questions''), (''schema'', QUIZ_RESPONSE_SCHEMA), (''strict'', JBool True)]),
           (''type'', JStr ''json_schema'')]"

fun createResponsesFormat :: "output_mode \<Rightarrow> json" where
  "createResponsesFormat JsonObject = JObj [(''type'', JStr ''json_object'')]"
| "createResponsesFormat JsonSchemaStrict =
     JObj [(''name'', JStr ''quiz_questions''), (''schema'', QUIZ_RESPONSE_SCHEMA), (''strict'', JBool True), (''type'', JStr ''json_schema'')]"

section \<open>Reading an answer\<close>

text \<open>A \<open>??\<close> chain.\<close>

definition or_else :: "'a option \<Rightarrow> 'a option \<Rightarrow> 'a option" where
  "or_else a b = (case a of None \<Rightarrow> b | Some x \<Rightarrow> Some x)"

definition mapUsage :: "api_usage option \<Rightarrow> provider_usage" where
  "mapUsage usage =
     (let inputTokens = Option.bind usage (\<lambda>u. or_else (au_input_tokens u) (au_prompt_tokens u));
          outputTokens = Option.bind usage (\<lambda>u. or_else (au_output_tokens u) (au_completion_tokens u))
      in case (inputTokens, outputTokens) of
           (Some i, Some out) \<Rightarrow>
             if js_is_safe_integer i \<and> js_is_safe_integer out
             then \<lparr>us_inputTokens = Some (js_to_int i), us_outputTokens = Some (js_to_int out), us_status = AVAILABLE\<rparr>
             else unavailableUsage
         | _ \<Rightarrow> unavailableUsage)"

definition opening_fence :: string where
  "opening_fence = ''```json'' @ [CHR 0x0A]"

definition closing_fence :: string where
  "closing_fence = CHR 0x0A # ''```''"

definition normalizeGeneratedJsonOutput :: "string option \<Rightarrow> string option" where
  "normalizeGeneratedJsonOutput v =
     (case map_option js_trim v of
        None \<Rightarrow> None
      | Some t \<Rightarrow>
          if t = [] then None
          else if \<not> starts_with ''```'' t then Some t
          else if \<not> starts_with opening_fence t \<or> \<not> ends_with closing_fence t then None
          else let inner = slice (length opening_fence) (length t - length closing_fence) t
               in if js_trim inner = [] then None else Some inner)"

definition parseGeneratedOutput :: "number_text \<Rightarrow> string option \<Rightarrow> provider_error + json" where
  "parseGeneratedOutput nt v =
     (case normalizeGeneratedJsonOutput v of
        None \<Rightarrow> Inl (ProviderFailure GENERATION_OUTPUT_INVALID)
      | Some t \<Rightarrow> (case json_parse nt t of None \<Rightarrow> Inl (ProviderFailure GENERATION_OUTPUT_INVALID) | Some x \<Rightarrow> Inr x))"

definition isGenerationOutputTruncated :: "string option \<Rightarrow> bool" where
  "isGenerationOutputTruncated reason \<longleftrightarrow> reason = Some ''length'' \<or> reason = Some ''max_tokens''"

definition no_credentials :: string where
  "no_credentials = ''No active credentials for provider''"

definition isProviderUnavailableError :: "sdk_error \<Rightarrow> bool" where
  "isProviderUnavailableError e =
     (case e of
        OtherError _ \<Rightarrow> False
      | APIConnectionError _ \<Rightarrow> True
      | APIError status m \<Rightarrow>
          if status = Some 429 \<or> (case status of None \<Rightarrow> False | Some n \<Rightarrow> 500 \<le> n) then True
          else status = Some 404 \<and> list_ex (\<lambda>i. starts_with no_credentials (drop i m)) [0..<Suc (length m)])"

definition sdk_message :: "sdk_error \<Rightarrow> string" where
  "sdk_message e = (case e of APIConnectionError m \<Rightarrow> m | APIError _ m \<Rightarrow> m | OtherError m \<Rightarrow> m)"

section \<open>Providers\<close>

text \<open>The \<open>catch\<close> of \<open>generate\<close>.\<close>

definition sdk_failure :: "sdk_error \<Rightarrow> provider_error" where
  "sdk_failure e = (if isProviderUnavailableError e then ProviderFailure PROVIDER_UNAVAILABLE else ProviderError (sdk_message e))"

definition request_of :: "string \<Rightarrow> string \<Rightarrow> string \<Rightarrow> json \<Rightarrow> sdk_request" where
  "request_of template sourceText model format =
     \<lparr>sr_maxTokens = gp_maxOutputTokens QUIZ_GENERATION_PARAMETERS, sr_instructions = template, sr_input = sourceText,
      sr_model = model, sr_format = format\<rparr>"

definition generateChatCompletion ::
  "number_text \<Rightarrow> openai_client \<Rightarrow> provider_settings \<Rightarrow> string \<Rightarrow> nat \<Rightarrow> string \<Rightarrow> provider_error + (json \<times> provider_usage)" where
  "generateChatCompletion nt client st template i sourceText =
     (case ac_chat client i (request_of template sourceText (ps_model st) (createChatResponseFormat (ps_structuredOutputMode st))) of
        Inl e \<Rightarrow> Inl (sdk_failure e)
      | Inr response \<Rightarrow>
          let choice = (case cp_choices response of [] \<Rightarrow> None | c # cs \<Rightarrow> Some c)
          in if isGenerationOutputTruncated (Option.bind choice ch_finish_reason)
             then Inl (ProviderFailure GENERATION_OUTPUT_TRUNCATED)
             else and_then (parseGeneratedOutput nt (Option.bind choice ch_content)) (\<lambda>output. Inr (output, mapUsage (cp_usage response))))"

definition generateResponse ::
  "number_text \<Rightarrow> openai_client \<Rightarrow> provider_settings \<Rightarrow> string \<Rightarrow> nat \<Rightarrow> string \<Rightarrow> provider_error + (json \<times> provider_usage)" where
  "generateResponse nt client st template i sourceText =
     (case ac_responses client i (request_of template sourceText (ps_model st) (createResponsesFormat (ps_structuredOutputMode st))) of
        Inl e \<Rightarrow> Inl (sdk_failure e)
      | Inr response \<Rightarrow>
          if rr_status response \<noteq> Some ''completed'' then Inl (ProviderFailure GENERATION_OUTPUT_INVALID)
          else and_then (parseGeneratedOutput nt (Some (rr_output_text response))) (\<lambda>output. Inr (output, mapUsage (rr_usage response))))"

fun transport_str :: "llm_transport \<Rightarrow> string" where
  "transport_str ChatCompletionsTransport = ''chat-completions''"
| "transport_str ResponsesTransport = ''responses''"

fun output_mode_str :: "output_mode \<Rightarrow> string" where
  "output_mode_str JsonObject = ''json-object''"
| "output_mode_str JsonSchemaStrict = ''json-schema-strict''"

definition createOpenAiProviderIdentity :: "digest \<Rightarrow> provider_settings \<Rightarrow> string" where
  "createOpenAiProviderIdentity dg st =
     sha256 dg (join_with [CHR 0x0A]
       [''provider-type'', ''openai-compatible'', ''base-url'', ps_baseUrl st, ''model'', ps_model st,
        ''transport'', transport_str (ps_transport st), ''structured-output-mode'', output_mode_str (ps_structuredOutputMode st),
        ''capability-version'', ps_capabilityVersion st])"

text \<open>\<open>sdk\<close> builds a client from the key, the address and the timeout.\<close>

definition createOpenAiCompatibleProvider ::
  "digest \<Rightarrow> number_text \<Rightarrow> (string \<Rightarrow> string \<Rightarrow> nat \<Rightarrow> openai_client) \<Rightarrow> string \<Rightarrow> provider_settings \<Rightarrow> nat option \<Rightarrow> llm_provider" where
  "createOpenAiCompatibleProvider dg nt sdk template st timeout =
     (let client = sdk (ps_apiKey st) (ps_baseUrl st) (case timeout of None \<Rightarrow> 60000 | Some n \<Rightarrow> n)
      in \<lparr>lp_model = ps_model st, lp_providerIdentity = createOpenAiProviderIdentity dg st,
          lp_generate = (case ps_transport st of
             ChatCompletionsTransport \<Rightarrow> generateChatCompletion nt client st template
           | ResponsesTransport \<Rightarrow> generateResponse nt client st template)\<rparr>)"

definition fake_output :: "digest \<Rightarrow> string \<Rightarrow> json" where
  "fake_output dg source =
     (let sourceText = normalizeGenerationInput source
      in if js_trim sourceText = [] then JObj [(''questions'', JArr [])]
         else let identifier = take 12 (sha256 dg sourceText)
              in JObj [(''questions'', JArr [JObj
                   [(''explanation'', JStr (''The answer is stated in source chunk '' @ identifier @ ''.'')),
                    (''options'', JArr
                       [JObj [(''content'', JStr sourceText), (''isCorrect'', JBool True)],
                        JObj [(''content'', JStr (''Unsupported alternative '' @ identifier @ ''.'')), (''isCorrect'', JBool False)]]),
                    (''stem'', JStr (''Which statement is supported by source chunk '' @ identifier @ ''?''))]])])"

definition FakeLlmProvider :: "digest \<Rightarrow> llm_provider" where
  "FakeLlmProvider dg =
     \<lparr>lp_model = ''fake-llm-v1'', lp_providerIdentity = ''fake:fake-llm-v1'',
      lp_generate = (\<lambda>i source. Inr (fake_output dg source, unavailableUsage))\<rparr>"

text \<open>
  The provider of the configuration.  The configuration has checked that transport and output mode are among
  the known names.
\<close>

definition settings_of :: "openai_settings \<Rightarrow> provider_settings" where
  "settings_of oa =
     \<lparr>ps_apiKey = oa_apiKey oa, ps_baseUrl = oa_baseUrl oa, ps_capabilityVersion = oa_capabilityVersion oa, ps_model = oa_model oa,
      ps_structuredOutputMode = (if oa_structuredOutputMode oa = ''json-object'' then JsonObject else JsonSchemaStrict),
      ps_transport = (if oa_transport oa = ''chat-completions'' then ChatCompletionsTransport else ResponsesTransport)\<rparr>"

definition createLlmProvider ::
  "digest \<Rightarrow> number_text \<Rightarrow> (string \<Rightarrow> string \<Rightarrow> nat \<Rightarrow> openai_client) \<Rightarrow> string \<Rightarrow> llm_provider_settings \<Rightarrow> string + llm_provider" where
  "createLlmProvider dg nt sdk template settings =
     (case settings of
        FakeProvider \<Rightarrow> Inr (FakeLlmProvider dg)
      | OpenAiProvider oa \<Rightarrow>
          if oa_apiKey oa = [] \<or> oa_baseUrl oa = [] \<or> oa_capabilityVersion oa = [] \<or> oa_model oa = [] \<or>
             oa_structuredOutputMode oa = [] \<or> oa_transport oa = []
          then Inl ''OpenAI-compatible provider configuration was not validated''
          else Inr (createOpenAiCompatibleProvider dg nt sdk template (settings_of oa) (Some (oa_requestTimeoutMs oa))))"

section \<open>What the provider makes of an answer\<close>

lemma trim_padded:
  assumes "list_all is_ws pre" and "list_all is_ws post" and "t \<noteq> []" and "\<not> is_ws (hd t)" and "\<not> is_ws (last t)"
  shows "js_trim (pre @ t @ post) = t"
proof -
  have d: "dropWhile is_ws (pre @ t @ post) = t @ post"
    using assms(1,3,4) by (cases t) (auto simp: dropWhile_append2 list_all_iff)
  have r: "rev t = last t # rev (butlast t)" using assms(3) by (metis append_butlast_last_id rev_eq_Cons_iff rev_rev_ident)
  have "dropWhile is_ws (rev (t @ post)) = rev t"
    unfolding rev_append r using assms(2,5) by (subst dropWhile_append2) (auto simp: list_all_iff)
  with d show ?thesis by (simp add: js_trim_def)
qed

text \<open>A JSON object as text, bare or in a fence.\<close>

definition wrapped :: "string \<Rightarrow> string \<Rightarrow> bool" where
  "wrapped t v \<longleftrightarrow>
     (\<exists>pre post. list_all is_ws pre \<and> list_all is_ws post \<and>
        (v = pre @ t @ post \<or> v = pre @ (opening_fence @ t @ closing_fence) @ post))"

lemma normalize_wrapped:
  assumes "wrapped t v" and "t = CHR ''{'' # s @ [CHR ''}'']"
  shows "normalizeGeneratedJsonOutput (Some v) = Some t"
proof -
  have ends: "\<not> is_ws (CHR ''{'')" "\<not> is_ws (CHR ''}'')" "\<not> is_ws (CHR ''`'')" by (simp_all add: is_ws_def)
  from assms(1) obtain pre post where p: "list_all is_ws pre" "list_all is_ws post"
    "v = pre @ t @ post \<or> v = pre @ (opening_fence @ t @ closing_fence) @ post" by (auto simp: wrapped_def)
  from p(3) show ?thesis
  proof
    assume v: "v = pre @ t @ post"
    have "js_trim v = t" unfolding v using p(1,2) ends by (intro trim_padded) (simp_all add: assms(2))
    then show ?thesis by (simp add: normalizeGeneratedJsonOutput_def assms(2) starts_with_def)
  next
    assume v: "v = pre @ (opening_fence @ t @ closing_fence) @ post"
    let ?f = "opening_fence @ t @ closing_fence"
    have j: "js_trim v = ?f" unfolding v
      using p(1,2) ends by (intro trim_padded) (simp_all add: opening_fence_def closing_fence_def)
    have s: "starts_with ''```'' ?f" "starts_with opening_fence ?f" by (simp_all add: starts_with_def opening_fence_def)
    have e: "ends_with closing_fence ?f" by (simp add: ends_with_def)
    have i: "slice (length opening_fence) (length ?f - length closing_fence) ?f = t"
      by (simp add: slice_def)
    have "js_trim t = t" using trim_padded [of "[]" "[]" t] ends by (simp add: assms(2))
    with j s e i show ?thesis by (simp add: normalizeGeneratedJsonOutput_def Let_def assms(2))
  qed
qed

lemma encode_plain: "json_plain nt (encode_output qs)"
proof -
  have k: "\<not> is_array_index ''questions'' \<and> \<not> is_array_index ''explanation'' \<and> \<not> is_array_index ''options'' \<and>
    \<not> is_array_index ''stem'' \<and> \<not> is_array_index ''content'' \<and> \<not> is_array_index ''isCorrect''" by code_simp
  have o': "json_plain nt (encode_option x)" for x
    using k unfolding encode_option_def json_plain.simps by (intro conjI object_entries_plain) simp_all
  have q: "json_plain nt (encode_question x)" for x
    using k o' unfolding encode_question_def json_plain.simps by (intro conjI object_entries_plain) (simp_all add: list_all_iff)
  show ?thesis
    using k q unfolding encode_output_def json_plain.simps by (intro conjI object_entries_plain) (simp_all add: list_all_iff)
qed

lemma encode_shape: "output_shape (encode_output qs) qs"
proof -
  have "option_shape (encode_option x) x" for x by (auto simp: option_shape_def encode_option_def)
  then have "question_shape (encode_question x) x" for x
    unfolding question_shape_def encode_question_def
    by (intro exI [of _ "map encode_option (gn_options x)"] exI conjI)
      (auto simp: list_all2_conv_all_nth)
  then show ?thesis
    unfolding output_shape_def encode_output_def by (intro exI conjI) (auto simp: list_all2_conv_all_nth)
qed

lemma parse_wrapped:
  assumes "wrapped (json_str nt (encode_output qs)) v"
  shows "parseGeneratedOutput nt (Some v) = Inr (encode_output qs)"
proof -
  have "json_str nt (encode_output qs)
      = CHR ''{'' # (quote_text ''questions'' @ '':'' @ json_str nt (JArr (map encode_question qs))) @ [CHR ''}'']"
    by (simp add: encode_output_def)
  from normalize_wrapped [OF assms this] show ?thesis
    by (simp add: parseGeneratedOutput_def json_round_trip [OF encode_plain])
qed

lemma decode_encoded: "decodeGeneratedQuestionOutput (encode_output qs) = Inr qs"
proof -
  have "map_result decodeOption (map encode_option xs) = Inr xs" for xs
    by (induction xs) (simp_all add: decodeOption_def encode_option_def readObject_json_def requireExactKeys_def obj_keys_def
        obj_get_def readString_def readBoolean_def)
  then have "map_result decodeQuestion (map encode_question qs) = Inr qs" for qs
    by (induction qs) (simp_all add: decodeQuestion_def encode_question_def readObject_json_def requireExactKeys_def obj_keys_def
        obj_get_def readString_def readArray_def)
  then show ?thesis
    by (simp add: decodeGeneratedQuestionOutput_def encode_output_def readObject_json_def requireExactKeys_def obj_keys_def
        obj_get_def readArray_def)
qed

section \<open>Properties\<close>

text \<open>C13 What a model writes for some questions is what the worker decodes: on either transport, whatever white
  space or \<open>json\<close> fence surrounds the JSON text of the questions, the provider returns a value that the decoder
  maps back to exactly these questions, unless the model stopped for length or did not complete.\<close>

theorem generated_text_decoded:
  assumes "wrapped (json_str nt (encode_output qs)) v"
  shows "(ac_chat client i (request_of template src (ps_model st) (createChatResponseFormat (ps_structuredOutputMode st)))
        = Inr \<lparr>cp_choices = \<lparr>ch_finish_reason = reason, ch_content = Some v\<rparr> # others, cp_usage = u\<rparr> \<longrightarrow>
      and_then (generateChatCompletion nt client st template i src)
        (\<lambda>(output, usage). map_sum ProviderFailure (\<lambda>d. (d, usage)) (decodeGeneratedQuestionOutput output)) =
      (if isGenerationOutputTruncated reason then Inl (ProviderFailure GENERATION_OUTPUT_TRUNCATED) else Inr (qs, mapUsage u)))
    \<and> (ac_responses client i (request_of template src (ps_model st) (createResponsesFormat (ps_structuredOutputMode st)))
        = Inr \<lparr>rr_output_text = v, rr_status = status, rr_usage = u\<rparr> \<longrightarrow>
      and_then (generateResponse nt client st template i src)
        (\<lambda>(output, usage). map_sum ProviderFailure (\<lambda>d. (d, usage)) (decodeGeneratedQuestionOutput output)) =
      (if status = Some ''completed'' then Inr (qs, mapUsage u) else Inl (ProviderFailure GENERATION_OUTPUT_INVALID)))"
  by (simp add: generateChatCompletion_def generateResponse_def parse_wrapped [OF assms] decode_encoded)

lemma generated_text_decoded_witness:
  "and_then (generateChatCompletion safe_numbers
       \<lparr>ac_chat = (\<lambda>i r. Inr \<lparr>cp_choices = [\<lparr>ch_finish_reason = Some ''stop'', ch_content =
          Some (opening_fence @ json_str safe_numbers (encode_output [\<lparr>gn_explanation = ''e'', gn_options = [], gn_stem = ''s''\<rparr>]) @ closing_fence)\<rparr>],
          cp_usage = None\<rparr>), ac_responses = (\<lambda>i r. Inl (OtherError ''''))\<rparr>
       \<lparr>ps_apiKey = ''k'', ps_baseUrl = ''https://m'', ps_capabilityVersion = ''v'', ps_model = ''m'', ps_structuredOutputMode = JsonObject,
        ps_transport = ChatCompletionsTransport\<rparr> ''t'' 0 ''text'')
     (\<lambda>(output, usage). map_sum ProviderFailure (\<lambda>d. (d, usage)) (decodeGeneratedQuestionOutput output))
   = Inr ([\<lparr>gn_explanation = ''e'', gn_options = [], gn_stem = ''s''\<rparr>], unavailableUsage)"
proof -
  let ?qs = "[\<lparr>gn_explanation = ''e'', gn_options = [], gn_stem = ''s''\<rparr>]"
  have "wrapped (json_str safe_numbers (encode_output ?qs)) (opening_fence @ json_str safe_numbers (encode_output ?qs) @ closing_fence)"
    unfolding wrapped_def by (intro exI [of _ "[]"]) simp
  from generated_text_decoded [OF this, THEN conjunct1, where reason1 = "Some ''stop''"]
  show ?thesis by (simp add: isGenerationOutputTruncated_def mapUsage_def)
qed

text \<open>The error the SDK threw for this call, if any.\<close>

definition sdk_error_of :: "openai_client \<Rightarrow> provider_settings \<Rightarrow> string \<Rightarrow> nat \<Rightarrow> string \<Rightarrow> sdk_error option" where
  "sdk_error_of client st template i src =
     (case ps_transport st of
           ChatCompletionsTransport \<Rightarrow>
             (case ac_chat client i (request_of template src (ps_model st) (createChatResponseFormat (ps_structuredOutputMode st))) of
                Inl e \<Rightarrow> Some e | Inr _ \<Rightarrow> None)
         | ResponsesTransport \<Rightarrow>
             (case ac_responses client i (request_of template src (ps_model st) (createResponsesFormat (ps_structuredOutputMode st))) of
                Inl e \<Rightarrow> Some e | Inr _ \<Rightarrow> None))"

lemma parse_output_cases:
  "(\<exists>v. parseGeneratedOutput nt t = Inr v \<and> json_wf v) \<or> parseGeneratedOutput nt t = Inl (ProviderFailure GENERATION_OUTPUT_INVALID)"
  by (auto simp: parseGeneratedOutput_def dest: json_parse_wf split: option.split)

lemma mapUsage_known:
  "(us_status (mapUsage u) = AVAILABLE \<longleftrightarrow> us_inputTokens (mapUsage u) \<noteq> None) \<and>
   (us_inputTokens (mapUsage u) = None \<longleftrightarrow> us_outputTokens (mapUsage u) = None)"
  by (auto simp: mapUsage_def unavailableUsage_def Let_def split: option.split)

text \<open>An outage: a lost connection, a rate limit, an error of the server, or no credentials left for the provider.\<close>

definition provider_outage :: "sdk_error \<Rightarrow> bool" where
  "provider_outage e \<longleftrightarrow>
     (\<exists>m. e = APIConnectionError m) \<or> (\<exists>n m. e = APIError (Some n) m \<and> (n = 429 \<or> 500 \<le> n)) \<or>
     (\<exists>a b. e = APIError (Some 404) (a @ ''No active credentials for provider'' @ b))"

text \<open>An answer that ran into the limit of tokens, and one that is not completed.\<close>

definition cut_off :: "openai_client \<Rightarrow> provider_settings \<Rightarrow> string \<Rightarrow> nat \<Rightarrow> string \<Rightarrow> bool" where
  "cut_off client st template i src \<longleftrightarrow>
     ps_transport st = ChatCompletionsTransport \<and>
     (\<exists>a c cs. ac_chat client i (request_of template src (ps_model st) (createChatResponseFormat (ps_structuredOutputMode st))) = Inr a \<and>
        cp_choices a = c # cs \<and> (ch_finish_reason c = Some ''length'' \<or> ch_finish_reason c = Some ''max_tokens''))"

definition unfinished :: "openai_client \<Rightarrow> provider_settings \<Rightarrow> string \<Rightarrow> nat \<Rightarrow> string \<Rightarrow> bool" where
  "unfinished client st template i src \<longleftrightarrow>
     ps_transport st = ResponsesTransport \<and>
     (\<exists>a. ac_responses client i (request_of template src (ps_model st) (createResponsesFormat (ps_structuredOutputMode st))) = Inr a \<and>
        rr_status a \<noteq> Some ''completed'')"

lemma contains_iff: "list_ex (\<lambda>i. starts_with p (drop i m)) [0..<Suc (length m)] \<longleftrightarrow> (\<exists>a b. m = a @ p @ b)"
proof
  assume "list_ex (\<lambda>i. starts_with p (drop i m)) [0..<Suc (length m)]"
  then obtain i where "take (length p) (drop i m) = p" by (auto simp: list_ex_iff starts_with_def)
  then have "m = take i m @ p @ drop (length p) (drop i m)" by (metis append_take_drop_id)
  then show "\<exists>a b. m = a @ p @ b" by blast
next
  assume "\<exists>a b. m = a @ p @ b"
  then obtain a b where "m = a @ p @ b" by blast
  then show "list_ex (\<lambda>i. starts_with p (drop i m)) [0..<Suc (length m)]"
    by (auto simp: list_ex_iff starts_with_def intro!: bexI [of _ "length a"])
qed

lemma outage_iff: "isProviderUnavailableError e \<longleftrightarrow> provider_outage e"
proof (cases e)
  case (APIError status m)
  show ?thesis
  proof (cases status)
    case (Some n)
    then show ?thesis
      unfolding APIError isProviderUnavailableError_def provider_outage_def no_credentials_def [symmetric]
      by (auto simp only: contains_iff sdk_error.case option.case option.inject sdk_error.inject sdk_error.distinct if_True if_False
          split: if_split)
  qed (simp add: APIError isProviderUnavailableError_def provider_outage_def)
qed (simp_all add: isProviderUnavailableError_def provider_outage_def)

lemma chat_outcome:
  assumes "ps_transport st = ChatCompletionsTransport"
  shows "case generateChatCompletion nt client st template i src of
     Inr (v, u) \<Rightarrow> json_wf v \<and> (us_status u = AVAILABLE \<longleftrightarrow> us_inputTokens u \<noteq> None) \<and>
       (us_inputTokens u = None \<longleftrightarrow> us_outputTokens u = None) \<and>
       sdk_error_of client st template i src = None \<and> \<not> cut_off client st template i src
   | Inl (ProviderFailure c) \<Rightarrow> (c = PROVIDER_UNAVAILABLE \<or> c = GENERATION_OUTPUT_TRUNCATED \<or> c = GENERATION_OUTPUT_INVALID) \<and>
       (c = PROVIDER_UNAVAILABLE \<longleftrightarrow> (\<exists>e. sdk_error_of client st template i src = Some e \<and> provider_outage e)) \<and>
       (c = GENERATION_OUTPUT_TRUNCATED \<longleftrightarrow> cut_off client st template i src)
   | Inl (ProviderError m) \<Rightarrow> (\<exists>e. sdk_error_of client st template i src = Some e \<and> \<not> provider_outage e \<and> m = sdk_message e)"
proof -
  let ?r = "ac_chat client i (request_of template src (ps_model st) (createChatResponseFormat (ps_structuredOutputMode st)))"
  show ?thesis
  proof (cases ?r)
    case (Inl e)
    then show ?thesis
      using assms by (simp add: generateChatCompletion_def sdk_error_of_def sdk_failure_def outage_iff cut_off_def)
  next
    case (Inr a)
    let ?choice = "case cp_choices a of [] \<Rightarrow> None | c # cs \<Rightarrow> Some c"
    have cut: "cut_off client st template i src \<longleftrightarrow> isGenerationOutputTruncated (Option.bind ?choice ch_finish_reason)"
      using Inr assms by (cases "cp_choices a") (auto simp: cut_off_def isGenerationOutputTruncated_def)
    have none: "sdk_error_of client st template i src = None" using Inr assms by (simp add: sdk_error_of_def)
    show ?thesis
    proof (cases "cut_off client st template i src")
      case True
      with cut none Inr show ?thesis by (simp add: generateChatCompletion_def Let_def)
    next
      case False
      with cut none Inr parse_output_cases [of nt "Option.bind ?choice ch_content"] mapUsage_known [of "cp_usage a"]
      show ?thesis by (auto simp: generateChatCompletion_def Let_def)
    qed
  qed
qed

lemma responses_outcome:
  assumes "ps_transport st = ResponsesTransport"
  shows "case generateResponse nt client st template i src of
     Inr (v, u) \<Rightarrow> json_wf v \<and> (us_status u = AVAILABLE \<longleftrightarrow> us_inputTokens u \<noteq> None) \<and>
       (us_inputTokens u = None \<longleftrightarrow> us_outputTokens u = None) \<and>
       sdk_error_of client st template i src = None \<and> \<not> unfinished client st template i src
   | Inl (ProviderFailure c) \<Rightarrow> (c = PROVIDER_UNAVAILABLE \<or> c = GENERATION_OUTPUT_INVALID) \<and>
       (c = PROVIDER_UNAVAILABLE \<longleftrightarrow> (\<exists>e. sdk_error_of client st template i src = Some e \<and> provider_outage e)) \<and>
       (unfinished client st template i src \<longrightarrow> c = GENERATION_OUTPUT_INVALID)
   | Inl (ProviderError m) \<Rightarrow> (\<exists>e. sdk_error_of client st template i src = Some e \<and> \<not> provider_outage e \<and> m = sdk_message e)"
proof -
  let ?r = "ac_responses client i (request_of template src (ps_model st) (createResponsesFormat (ps_structuredOutputMode st)))"
  show ?thesis
  proof (cases ?r)
    case (Inl e)
    then show ?thesis
      using assms by (simp add: generateResponse_def sdk_error_of_def sdk_failure_def outage_iff unfinished_def)
  next
    case (Inr a)
    have un: "unfinished client st template i src \<longleftrightarrow> rr_status a \<noteq> Some ''completed''" using Inr assms by (simp add: unfinished_def)
    have none: "sdk_error_of client st template i src = None" using Inr assms by (simp add: sdk_error_of_def)
    show ?thesis
    proof (cases "unfinished client st template i src")
      case True
      with un none Inr show ?thesis by (simp add: generateResponse_def)
    next
      case False
      with un none Inr parse_output_cases [of nt "Some (rr_output_text a)"] mapUsage_known [of "rr_usage a"]
      show ?thesis by (auto simp: generateResponse_def)
    qed
  qed
qed

text \<open>C32 Every way a call of the language model can end: it fails as \<open>PROVIDER_UNAVAILABLE\<close> exactly when the SDK
  reports a lost connection, the status 429, a status from 500 on, or a 404 that says there are no credentials; any other error of
  the SDK is passed on with its message; it fails as truncated exactly when the chat answer says that it ran into the limit of
  tokens, and as invalid when a response is not completed or the text is no JSON; every failure with a code is one
  the web client offers to retry; otherwise the value is a well-formed JSON value, with both token counts or none.\<close>

theorem provider_outcome:
  "case lp_generate (createOpenAiCompatibleProvider dg nt sdk template st timeout) i src of
     Inr (v, u) \<Rightarrow> json_wf v \<and> (us_status u = AVAILABLE \<longleftrightarrow> us_inputTokens u \<noteq> None) \<and>
       (us_inputTokens u = None \<longleftrightarrow> us_outputTokens u = None) \<and>
       sdk_error_of (sdk (ps_apiKey st) (ps_baseUrl st) (case timeout of None \<Rightarrow> 60000 | Some n \<Rightarrow> n)) st template i src = None \<and>
       \<not> cut_off (sdk (ps_apiKey st) (ps_baseUrl st) (case timeout of None \<Rightarrow> 60000 | Some n \<Rightarrow> n)) st template i src \<and>
       \<not> unfinished (sdk (ps_apiKey st) (ps_baseUrl st) (case timeout of None \<Rightarrow> 60000 | Some n \<Rightarrow> n)) st template i src
   | Inl (ProviderFailure c) \<Rightarrow> isRetryableDocumentFailureCode (Some c) \<and>
       (c = PROVIDER_UNAVAILABLE \<or> c = GENERATION_OUTPUT_TRUNCATED \<or> c = GENERATION_OUTPUT_INVALID) \<and>
       (c = PROVIDER_UNAVAILABLE \<longleftrightarrow>
         (\<exists>e. sdk_error_of (sdk (ps_apiKey st) (ps_baseUrl st) (case timeout of None \<Rightarrow> 60000 | Some n \<Rightarrow> n)) st template i src = Some e
            \<and> provider_outage e)) \<and>
       (c = GENERATION_OUTPUT_TRUNCATED \<longleftrightarrow>
         cut_off (sdk (ps_apiKey st) (ps_baseUrl st) (case timeout of None \<Rightarrow> 60000 | Some n \<Rightarrow> n)) st template i src)
   | Inl (ProviderError m) \<Rightarrow>
       (\<exists>e. sdk_error_of (sdk (ps_apiKey st) (ps_baseUrl st) (case timeout of None \<Rightarrow> 60000 | Some n \<Rightarrow> n)) st template i src = Some e
          \<and> \<not> provider_outage e \<and> m = sdk_message e)"
proof (cases "ps_transport st")
  case ChatCompletionsTransport
  then have "lp_generate (createOpenAiCompatibleProvider dg nt sdk template st timeout) i src =
      generateChatCompletion nt (sdk (ps_apiKey st) (ps_baseUrl st) (case timeout of None \<Rightarrow> 60000 | Some n \<Rightarrow> n)) st template i src"
    by (simp add: createOpenAiCompatibleProvider_def Let_def)
  with chat_outcome [OF ChatCompletionsTransport, where nt = nt and template = template and i = i and src = src
      and client = "sdk (ps_apiKey st) (ps_baseUrl st) (case timeout of None \<Rightarrow> 60000 | Some n \<Rightarrow> n)"] ChatCompletionsTransport
  show ?thesis by (auto simp: unfinished_def isRetryableDocumentFailureCode_def split: sum.splits prod.splits provider_error.splits)
next
  case ResponsesTransport
  then have "lp_generate (createOpenAiCompatibleProvider dg nt sdk template st timeout) i src =
      generateResponse nt (sdk (ps_apiKey st) (ps_baseUrl st) (case timeout of None \<Rightarrow> 60000 | Some n \<Rightarrow> n)) st template i src"
    by (simp add: createOpenAiCompatibleProvider_def Let_def)
  with responses_outcome [OF ResponsesTransport, where nt = nt and template = template and i = i and src = src
      and client = "sdk (ps_apiKey st) (ps_baseUrl st) (case timeout of None \<Rightarrow> 60000 | Some n \<Rightarrow> n)"] ResponsesTransport
  show ?thesis by (auto simp: cut_off_def isRetryableDocumentFailureCode_def split: sum.splits prod.splits provider_error.splits)
qed

section \<open>Identities and configuration\<close>

definition identity_source :: "provider_settings \<Rightarrow> string" where
  "identity_source st = join_with [CHR 0x0A]
       [''provider-type'', ''openai-compatible'', ''base-url'', ps_baseUrl st, ''model'', ps_model st,
        ''transport'', transport_str (ps_transport st), ''structured-output-mode'', output_mode_str (ps_structuredOutputMode st),
        ''capability-version'', ps_capabilityVersion st]"

definition one_line :: "provider_settings \<Rightarrow> bool" where
  "one_line st \<longleftrightarrow> CHR 0x0A \<notin> set (ps_baseUrl st) \<and> CHR 0x0A \<notin> set (ps_model st) \<and> CHR 0x0A \<notin> set (ps_capabilityVersion st)"

lemma identity_source_inj:
  assumes "one_line a" and "one_line b" and "identity_source a = identity_source b"
  shows "b = a\<lparr>ps_apiKey := ps_apiKey b\<rparr>"
proof -
  let ?parts = "\<lambda>st. [''provider-type'', ''openai-compatible'', ''base-url'', ps_baseUrl st, ''model'', ps_model st,
        ''transport'', transport_str (ps_transport st), ''structured-output-mode'', output_mode_str (ps_structuredOutputMode st),
        ''capability-version'', ps_capabilityVersion st]"
  have tr: "CHR 0x0A \<notin> set (transport_str t)" "transport_str t = transport_str u \<longleftrightarrow> t = u" for t u
    by (cases t; cases u; simp)+
  have om: "CHR 0x0A \<notin> set (output_mode_str t)" "output_mode_str t = output_mode_str u \<longleftrightarrow> t = u" for t u
    by (cases t; cases u; simp)+
  have "?parts a = ?parts b"
    using assms tr(1) om(1) unfolding identity_source_def one_line_def
    by (intro join_with_inj [of _ "CHR 0x0A"]) (simp_all del: join_with.simps)
  then show ?thesis by (cases a; cases b) (simp add: tr(2) om(2))
qed

lemma one_of_Inr: "one_of a b m v = Inr x \<Longrightarrow> x = v \<and> (x = a \<or> x = b)"
  by (auto simp: one_of_def split: if_splits)

lemma complete_openai_fields:
  assumes "complete_openai parse g = Inr (OpenAiProvider oa)"
  shows "(\<exists>baseUrl. canonicalOpenAiBaseUrl parse baseUrl = Inr (oa_baseUrl oa)) \<and>
    og_apiKey g = Some (oa_apiKey oa) \<and> og_model g = Some (oa_model oa) \<and> og_capabilityVersion g = Some (oa_capabilityVersion oa) \<and>
    oa_structuredOutputMode oa \<in> {''json-object'', ''json-schema-strict''} \<and> oa_transport oa \<in> {''chat-completions'', ''responses''}"
proof -
  have "og_apiKey g \<noteq> None \<and> og_baseUrl g \<noteq> None \<and> og_capabilityVersion g \<noteq> None \<and> og_model g \<noteq> None \<and>
      og_structuredOutputMode g \<noteq> None \<and> og_transport g \<noteq> None"
    using assms by (auto simp: complete_openai_def split: option.splits)
  then obtain k u c m f t where o': "og_apiKey g = Some k" "og_baseUrl g = Some u" "og_capabilityVersion g = Some c"
      "og_model g = Some m" "og_structuredOutputMode g = Some f" "og_transport g = Some t" by blast
  from assms obtain c' t' u' f' where r: "oa = \<lparr>oa_apiKey = k, oa_baseUrl = u', oa_capabilityVersion = c', oa_model = m,
        oa_requestTimeoutMs = og_requestTimeoutMs g, oa_structuredOutputMode = f', oa_transport = t'\<rparr>"
      "canonicalOpenAiBaseUrl parse u = Inr u'"
      "\<exists>a b x. one_of a b x c = Inr c'" "\<exists>x. one_of ''chat-completions'' ''responses'' x t = Inr t'"
      "\<exists>x. one_of ''json-object'' ''json-schema-strict'' x f = Inr f'"
    unfolding complete_openai_def by (simp add: o' and_then_eq_Inr split: if_splits) metis
  from r(3-5) one_of_Inr have "c' = c" "t' = ''chat-completions'' \<or> t' = ''responses''" "f' = ''json-object'' \<or> f' = ''json-schema-strict''"
    by metis+
  with r(1,2) o' show ?thesis by (auto simp del: One_nat_def)
qed

text \<open>A provider that follows from an accepted configuration; the address of a URL object is never empty.\<close>

lemma configured_provider:
  assumes "llm_provider_config parse c = Inr settings" and "\<forall>v u. parse v = Some u \<longrightarrow> 2 \<le> length (url_toString u)"
  shows "\<exists>p. createLlmProvider dg nt sdk template settings = Inr p"
proof (cases settings)
  case FakeProvider
  then show ?thesis by (simp add: createLlmProvider_def)
next
  case (OpenAiProvider oa)
  have trim: "s \<noteq> []" if "js_trim s \<noteq> []" for s using that by (auto simp: js_trim_def)
  from assms(1) OpenAiProvider obtain g where g: "complete_openai parse g = Inr (OpenAiProvider oa)"
      "non_blank (og_apiKey g)" "non_blank (og_capabilityVersion g)" "non_blank (og_model g)"
    by (auto simp: llm_provider_config_def and_then_eq_Inr split: if_splits)
  from complete_openai_fields [OF g(1)] obtain baseUrl where b: "canonicalOpenAiBaseUrl parse baseUrl = Inr (oa_baseUrl oa)"
      and o': "og_apiKey g = Some (oa_apiKey oa)" "og_model g = Some (oa_model oa)" "og_capabilityVersion g = Some (oa_capabilityVersion oa)"
        "oa_structuredOutputMode oa \<in> {''json-object'', ''json-schema-strict''}" "oa_transport oa \<in> {''chat-completions'', ''responses''}"
    by blast
  from b obtain u where u: "parse baseUrl = Some u" "oa_baseUrl oa = strip_base_slash (url_toString u)"
    by (auto simp: canonicalOpenAiBaseUrl_def split: option.splits if_splits)
  have "1 \<le> length (strip_base_slash t)" if "2 \<le> length t" for t using that by (auto simp: strip_base_slash_def)
  then have "1 \<le> length (strip_base_slash (url_toString u))" using assms(2) u(1) by simp
  then have "oa_baseUrl oa \<noteq> []" by (auto simp: u(2))
  moreover have "oa_apiKey oa \<noteq> []" "oa_model oa \<noteq> []" "oa_capabilityVersion oa \<noteq> []"
    using g(2-4) trim by (auto simp: o'(1-3) non_blank_def)
  ultimately show ?thesis using o'(4,5) by (auto simp add: createLlmProvider_def OpenAiProvider)
qed

section \<open>The stand-in\<close>

lemma map_result_decodeOption: "map_result decodeOption [encode_option a, encode_option b] = Inr [a, b]"
  by (simp add: decodeOption_def encode_option_def readObject_json_def requireExactKeys_def obj_keys_def
        obj_get_def readString_def readBoolean_def)

definition fake_question :: "digest \<Rightarrow> string \<Rightarrow> generated_question" where
  "fake_question dg source =
     (let sourceText = normalizeGenerationInput source; identifier = take 12 (sha256 dg sourceText)
      in \<lparr>gn_explanation = ''The answer is stated in source chunk '' @ identifier @ ''.'',
          gn_options = [\<lparr>oc_content = sourceText, oc_isCorrect = True\<rparr>,
                        \<lparr>oc_content = ''Unsupported alternative '' @ identifier @ ''.'', oc_isCorrect = False\<rparr>],
          gn_stem = ''Which statement is supported by source chunk '' @ identifier @ ''?''\<rparr>)"

lemma fake_output_eq:
  "fake_output dg source = encode_output (if js_trim (normalizeGenerationInput source) = [] then [] else [fake_question dg source])"
  by (simp add: fake_output_def encode_output_def encode_question_def encode_option_def fake_question_def Let_def)

lemma tokenize_normal: "tokenizeWords (normalizeGenerationInput t) = tokenizeWords t"
proof -
  have "normalizeGenerationInput (normalizeGenerationInput t) = normalizeGenerationInput t"
    by (induction t rule: normalizeGenerationInput.induct) (auto split: list.split)
  then show ?thesis by (simp add: tokenizeWords_def)
qed

text \<open>
  The stand-in offers the source itself as the right option, so the check against copied sources refuses its
  question as soon as the source has a long enough run of English words.
\<close>

lemma tokens_nonblank: "tokenizeWords t \<noteq> [] \<Longrightarrow> js_trim (normalizeGenerationInput t) \<noteq> []"
proof
  assume t: "tokenizeWords t \<noteq> []" and "js_trim (normalizeGenerationInput t) = []"
  then have "\<forall>c\<in>set (normalizeGenerationInput t). is_ws c" by (simp add: js_trim_Nil)
  moreover have "match_words s = []" if "\<forall>c\<in>set s. is_ws c" for s
    using that
  proof (induction s rule: match_words.induct)
    case (2 c cs)
    then have "is_ws c" by simp
    then have "\<not> is_letter c" by (auto simp: is_ws_def is_letter_def Let_def)
    with 2 show ?case by simp
  qed simp
  ultimately show False using t by (simp add: tokenizeWords_def)
qed

lemma fake_copies:
  assumes "english_run w" and "sublist w (tokenizeWords source)"
  shows "\<exists>qs. decodeGeneratedQuestionOutput (fake_output dg source) = Inr qs \<and>
    validateGeneratedQuestionOutputAgainstSource source qs = Inl GENERATION_OUTPUT_INVALID"
proof -
  have "tokenizeWords source \<noteq> []" using assms by (auto simp: english_run_def)
  then have d: "decodeGeneratedQuestionOutput (fake_output dg source) = Inr [fake_question dg source]"
    using tokens_nonblank by (simp add: fake_output_eq decode_encoded)
  have "copied source (normalizeGenerationInput source)"
    using assms unfolding copied_def tokenize_normal by blast
  moreover have "normalizeGenerationInput source \<in> set (question_texts (fake_question dg source))"
    by (simp add: question_texts_def fake_question_def Let_def)
  ultimately show ?thesis using d by (auto simp: copies_rejected)
qed

end
