(* ===== verification/Migrations.thy ===== *)
theory Migrations imports JsonText begin

text \<open>
  The migration runner \<open>database/migrate.ts\<close>: its connection settings, the files it finds, and one run as a
  machine that sends a query, waits for the answer and goes on.  Many runs against one database are a fleet:
  replicas whose queries interleave, an advisory lock, a transaction per session, connections that break at any
  moment.  The scripts are run by a parameter \<^term>\<open>exec\<close> on the rest of the database; none of them has
  transaction commands of its own.  Vietnamese texts are written without their marks.
\<close>

section \<open>Connection settings\<close>

record migration_environment =
  me_DB_HOST :: "string option"
  me_DB_NAME :: "string option"
  me_DB_PASSWORD :: "string option"
  me_DB_PORT :: "string option"
  me_DB_SSL_CA :: "string option"
  me_DB_SSL_MODE :: "string option"
  me_DB_USER :: "string option"
  me_NODE_ENV :: "string option"

record client_config =
  cc_connectionTimeoutMillis :: nat
  cc_database :: string
  cc_host :: string
  cc_application_name :: string
  cc_lock_timeout :: nat
  cc_options :: string
  cc_password :: string
  cc_port :: nat
  cc_query_timeout :: nat
  cc_statement_timeout :: nat
  cc_user :: string
  cc_sslCa :: "string option"

definition or_default :: "string option \<Rightarrow> string \<Rightarrow> string" where
  "or_default v d = (case v of None \<Rightarrow> d | Some s \<Rightarrow> s)"

definition CONNECTION_TIMEOUT_MILLIS :: nat where "CONNECTION_TIMEOUT_MILLIS = 10000"
definition QUERY_TIMEOUT_MILLIS :: nat where "QUERY_TIMEOUT_MILLIS = 240000"
definition LOCK_TIMEOUT_MILLIS :: nat where "LOCK_TIMEOUT_MILLIS = 30000"
definition STATEMENT_TIMEOUT_MILLIS :: nat where "STATEMENT_TIMEOUT_MILLIS = 240000"
definition ADVISORY_LOCK_DEADLINE_MILLIS :: nat where "ADVISORY_LOCK_DEADLINE_MILLIS = 60000"
definition ADVISORY_LOCK_POLL_INTERVAL_MILLIS :: nat where "ADVISORY_LOCK_POLL_INTERVAL_MILLIS = 1000"

definition STARTUP_OPTIONS :: string where
  "STARTUP_OPTIONS = ''-c timezone=UTC -c lock_timeout='' @ nat_str LOCK_TIMEOUT_MILLIS @ ''ms -c statement_timeout=''
     @ nat_str STATEMENT_TIMEOUT_MILLIS @ ''ms''"

definition parsePort :: "string \<Rightarrow> string + nat" where
  "parsePort v =
     (if \<not> all_digits v then Inl ''DB_PORT must be a valid integer''
      else let port = decimal_value 0 v
           in if port < 1 \<or> 65535 < port then Inl ''DB_PORT must be a valid integer'' else Inr port)"

definition buildClientConfig :: "migration_environment \<Rightarrow> string + client_config" where
  "buildClientConfig env =
     (let sslMode = or_default (me_DB_SSL_MODE env) ''disabled''
      in if sslMode \<noteq> ''disabled'' \<and> sslMode \<noteq> ''verify-ca'' then Inl ''DB_SSL_MODE must be disabled or verify-ca''
         else if me_NODE_ENV env = Some ''production'' \<and> sslMode \<noteq> ''verify-ca''
         then Inl ''DB_SSL_MODE must be verify-ca when NODE_ENV is production''
         else and_then (parsePort (or_default (me_DB_PORT env) ''5432'')) (\<lambda>port.
           let config =
             \<lparr>cc_connectionTimeoutMillis = CONNECTION_TIMEOUT_MILLIS, cc_database = or_default (me_DB_NAME env) ''learning'',
              cc_host = or_default (me_DB_HOST env) ''localhost'', cc_application_name = ''learning-platform-migration'',
              cc_lock_timeout = LOCK_TIMEOUT_MILLIS, cc_options = STARTUP_OPTIONS,
              cc_password = or_default (me_DB_PASSWORD env) ''learning'', cc_port = port,
              cc_query_timeout = QUERY_TIMEOUT_MILLIS, cc_statement_timeout = STATEMENT_TIMEOUT_MILLIS,
              cc_user = or_default (me_DB_USER env) ''learning'', cc_sslCa = None\<rparr>
           in if sslMode = ''verify-ca''
              then (case me_DB_SSL_CA env of
                      None \<Rightarrow> Inl ''DB_SSL_CA must be a non-blank string when DB_SSL_MODE is verify-ca''
                    | Some ca \<Rightarrow>
                        if js_trim ca = [] then Inl ''DB_SSL_CA must be a non-blank string when DB_SSL_MODE is verify-ca''
                        else Inr (config\<lparr>cc_sslCa := Some ca\<rparr>))
              else Inr config))"

section \<open>Files\<close>

record migration_file =
  mf_version :: string
  mf_name :: string
  mf_upPath :: string
  mf_downPath :: string

definition MIGRATIONS_DIR :: string where
  "MIGRATIONS_DIR = ''migrations/''"

definition migration_of :: "string list \<Rightarrow> string \<Rightarrow> string + migration_file" where
  "migration_of files up =
     (let name = take (length up - length ''.up.sql'') up;
          version = hd (split_char (CHR ''_'') name);
          down = name @ ''.down.sql''
      in if down \<notin> set files then Inl (''Thieu file down cho migration \"'' @ name @ ''\": '' @ down)
         else Inr \<lparr>mf_version = version, mf_name = name, mf_upPath = MIGRATIONS_DIR @ up, mf_downPath = MIGRATIONS_DIR @ down\<rparr>)"

text \<open>\<^term>\<open>lc\<close> is \<open>localeCompare\<close> with numeric collation.\<close>

definition discoverMigrations :: "(string \<Rightarrow> string \<Rightarrow> int) \<Rightarrow> string list \<Rightarrow> string + migration_file list" where
  "discoverMigrations lc files =
     map_sum id (js_sort (\<lambda>a b. lc (mf_version a) (mf_version b))) (map_result (migration_of files) (filter (ends_with ''.up.sql'') files))"

section \<open>The server\<close>

type_synonym version_row = "string \<times> string"

datatype statement =
  TryAdvisoryLock | AdvisoryUnlock | CreateTracking | SelectVersions | SelectLast
| BeginTx | CommitTx | RollbackTx | RunSql string | InsertVersion string string | DeleteVersion string

datatype answer = Failed string | Acquired bool | Rows "version_row list" | Ok

text \<open>What a transaction would commit; \<open>aborted\<close> after a statement of it failed.\<close>

record 'd session_tx =
  tx_rows :: "version_row list option"
  tx_data :: 'd
  tx_aborted :: bool

record 'd pg =
  pg_rows :: "version_row list option"
  pg_data :: 'd
  pg_lock :: "nat option"
  pg_tx :: "nat \<Rightarrow> 'd session_tx option"

definition tracked :: "'d pg \<Rightarrow> version_row list" where
  "tracked pg = (case pg_rows pg of None \<Rightarrow> [] | Some rs \<Rightarrow> rs)"

text \<open>\<open>ORDER BY version DESC LIMIT 1\<close> in the collation \<^term>\<open>coll\<close> of the database.\<close>

definition newest :: "(string \<Rightarrow> string \<Rightarrow> int) \<Rightarrow> version_row list \<Rightarrow> version_row list" where
  "newest coll rs = take 1 (js_sort (\<lambda>a b. coll (fst b) (fst a)) rs)"

definition aborted :: "nat \<Rightarrow> 'd pg \<Rightarrow> bool" where
  "aborted i pg \<longleftrightarrow> (case pg_tx pg i of None \<Rightarrow> False | Some t \<Rightarrow> tx_aborted t)"

definition abort_tx :: "nat \<Rightarrow> 'd pg \<Rightarrow> 'd pg" where
  "abort_tx i pg = pg\<lparr>pg_tx := (pg_tx pg)(i := map_option (\<lambda>t. t\<lparr>tx_aborted := True\<rparr>) (pg_tx pg i))\<rparr>"

definition end_tx :: "nat \<Rightarrow> 'd pg \<Rightarrow> 'd pg" where
  "end_tx i pg = pg\<lparr>pg_tx := (pg_tx pg)(i := None)\<rparr>"

definition in_tx :: "nat \<Rightarrow> 'd session_tx \<Rightarrow> 'd pg \<Rightarrow> 'd pg" where
  "in_tx i t pg = pg\<lparr>pg_tx := (pg_tx pg)(i := Some t)\<rparr>"

text \<open>
  One statement of session \<^term>\<open>i\<close>.  The scripts and the two changes of the tracking table are only sent
  inside a transaction.
\<close>

definition serve ::
  "(string \<Rightarrow> 'd \<Rightarrow> string + 'd) \<Rightarrow> (string \<Rightarrow> string \<Rightarrow> int) \<Rightarrow> nat \<Rightarrow> statement \<Rightarrow> 'd pg \<Rightarrow> answer \<times> 'd pg" where
  "serve exec coll i st pg =
     (if aborted i pg \<and> st \<noteq> RollbackTx \<and> st \<noteq> CommitTx then (Failed ''current transaction is aborted'', pg)
      else case st of
        TryAdvisoryLock \<Rightarrow>
          if pg_lock pg = None \<or> pg_lock pg = Some i then (Acquired True, pg\<lparr>pg_lock := Some i\<rparr>) else (Acquired False, pg)
      | AdvisoryUnlock \<Rightarrow> (Ok, if pg_lock pg = Some i then pg\<lparr>pg_lock := None\<rparr> else pg)
      | CreateTracking \<Rightarrow> (Ok, pg\<lparr>pg_rows := Some (tracked pg)\<rparr>)
      | SelectVersions \<Rightarrow> (case pg_rows pg of None \<Rightarrow> (Failed ''relation does not exist'', pg) | Some rs \<Rightarrow> (Rows rs, pg))
      | SelectLast \<Rightarrow> (case pg_rows pg of None \<Rightarrow> (Failed ''relation does not exist'', pg) | Some rs \<Rightarrow> (Rows (newest coll rs), pg))
      | BeginTx \<Rightarrow> (Ok, in_tx i \<lparr>tx_rows = pg_rows pg, tx_data = pg_data pg, tx_aborted = False\<rparr> pg)
      | CommitTx \<Rightarrow>
          (Ok, case pg_tx pg i of None \<Rightarrow> pg
               | Some t \<Rightarrow> end_tx i (if tx_aborted t then pg else pg\<lparr>pg_rows := tx_rows t, pg_data := tx_data t\<rparr>))
      | RollbackTx \<Rightarrow> (Ok, end_tx i pg)
      | RunSql sql \<Rightarrow>
          (case pg_tx pg i of None \<Rightarrow> (Failed ''no transaction'', pg)
           | Some t \<Rightarrow> (case exec sql (tx_data t) of
               Inl e \<Rightarrow> (Failed e, abort_tx i pg) | Inr d \<Rightarrow> (Ok, in_tx i (t\<lparr>tx_data := d\<rparr>) pg)))
      | InsertVersion v n \<Rightarrow>
          (case pg_tx pg i of None \<Rightarrow> (Failed ''no transaction'', pg)
           | Some t \<Rightarrow> (case tx_rows t of None \<Rightarrow> (Failed ''relation does not exist'', abort_tx i pg)
               | Some rs \<Rightarrow>
                   if v \<in> fst ` set rs \<or> 40 < length v \<or> 200 < length n then (Failed ''constraint violated'', abort_tx i pg)
                   else (Ok, in_tx i (t\<lparr>tx_rows := Some (rs @ [(v, n)])\<rparr>) pg)))
      | DeleteVersion v \<Rightarrow>
          (case pg_tx pg i of None \<Rightarrow> (Failed ''no transaction'', pg)
           | Some t \<Rightarrow> (Ok, in_tx i (t\<lparr>tx_rows := map_option (filter (\<lambda>r. fst r \<noteq> v)) (tx_rows t)\<rparr>) pg)))"

text \<open>A statement the server refuses, and the end of a session.\<close>

definition refuse :: "nat \<Rightarrow> statement \<Rightarrow> 'd pg \<Rightarrow> 'd pg" where
  "refuse i st pg = (if st = CommitTx then end_tx i pg else abort_tx i pg)"

definition end_session :: "nat \<Rightarrow> 'd pg \<Rightarrow> 'd pg" where
  "end_session i pg = end_tx i (if pg_lock pg = Some i then pg\<lparr>pg_lock := None\<rparr> else pg)"

section \<open>One run\<close>

text \<open>Where a run is: the query it will send next, or what it waits for.\<close>

datatype pc =
  PStart
| PTryLock nat
| PSleep nat nat
| PUpTable | PUpVersions
| PBegin migration_file "migration_file list"
| PUpSql migration_file "migration_file list"
| PInsert migration_file "migration_file list"
| PUpCommit migration_file "migration_file list"
| PDownTable | PDownLast
| PDownBegin migration_file | PDownSql migration_file | PDelete migration_file | PDownCommit migration_file
| PStatusTable | PStatusVersions
| PRollback string
| PUnlock "string option"
| PClosing "string option"
| PDone "string option"

text \<open>A run has the files of its image, \<open>rp_read\<close> their contents.\<close>

record replica =
  rp_cmd :: string
  rp_files :: "string list"
  rp_read :: "string \<Rightarrow> string"
  rp_pc :: pc

definition next_query :: "replica \<Rightarrow> statement option" where
  "next_query r =
     (case rp_pc r of
        PTryLock _ \<Rightarrow> Some TryAdvisoryLock
      | PUpTable \<Rightarrow> Some CreateTracking | PUpVersions \<Rightarrow> Some SelectVersions
      | PBegin _ _ \<Rightarrow> Some BeginTx | PUpSql m _ \<Rightarrow> Some (RunSql (rp_read r (mf_upPath m)))
      | PInsert m _ \<Rightarrow> Some (InsertVersion (mf_version m) (mf_name m)) | PUpCommit _ _ \<Rightarrow> Some CommitTx
      | PDownTable \<Rightarrow> Some CreateTracking | PDownLast \<Rightarrow> Some SelectLast
      | PDownBegin _ \<Rightarrow> Some BeginTx | PDownSql m \<Rightarrow> Some (RunSql (rp_read r (mf_downPath m)))
      | PDelete m \<Rightarrow> Some (DeleteVersion (mf_version m)) | PDownCommit _ \<Rightarrow> Some CommitTx
      | PStatusTable \<Rightarrow> Some CreateTracking | PStatusVersions \<Rightarrow> Some SelectVersions
      | PRollback _ \<Rightarrow> Some RollbackTx | PUnlock _ \<Rightarrow> Some AdvisoryUnlock
      | _ \<Rightarrow> None)"

definition no_lock :: string where
  "no_lock = ''Migration advisory lock could not be acquired before the lock deadline.''"

text \<open>The head of the loop of \<open>withLock\<close>.\<close>

definition lock_loop :: "nat \<Rightarrow> nat \<Rightarrow> pc" where
  "lock_loop now deadline = (if now < deadline then PTryLock deadline else PClosing (Some no_lock))"

definition run_command :: "string \<Rightarrow> pc" where
  "run_command cmd =
     (if cmd = ''up'' then PUpTable else if cmd = ''down'' then PDownTable else if cmd = ''status'' then PStatusTable
      else PUnlock (Some (''Lenh khong hop le: '' @ cmd @ '' (dung up|down|status)'')))"

definition lock_answer :: "nat \<Rightarrow> string \<Rightarrow> nat \<Rightarrow> answer \<Rightarrow> pc" where
  "lock_answer now cmd deadline a =
     (case a of
        Failed e \<Rightarrow> PClosing (Some e)
      | _ \<Rightarrow> if a = Acquired True then run_command cmd
             else if now < deadline then PSleep (now + ADVISORY_LOCK_POLL_INTERVAL_MILLIS) deadline
             else lock_loop now deadline)"

text \<open>The error of the operation wins over the error of the unlock.\<close>

definition unlock_answer :: "string option \<Rightarrow> answer \<Rightarrow> pc" where
  "unlock_answer failure a =
     (case a of Failed e \<Rightarrow> PClosing (if failure = None then Some e else failure) | _ \<Rightarrow> PClosing failure)"

definition answer_rows :: "answer \<Rightarrow> version_row list" where
  "answer_rows a = (case a of Rows rs \<Rightarrow> rs | _ \<Rightarrow> [])"

definition pending_files :: "version_row list \<Rightarrow> migration_file list \<Rightarrow> migration_file list" where
  "pending_files rs = filter (\<lambda>m. mf_version m \<notin> fst ` set rs)"

definition next_pending :: "migration_file list \<Rightarrow> pc" where
  "next_pending ms = (case ms of [] \<Rightarrow> PUnlock None | m # ms' \<Rightarrow> PBegin m ms')"

definition up_failed :: "migration_file \<Rightarrow> string \<Rightarrow> string" where
  "up_failed m e = ''Migration \"'' @ mf_name m @ ''\" that bai: '' @ e"

definition down_failed :: "migration_file \<Rightarrow> string \<Rightarrow> string" where
  "down_failed m e = ''Revert \"'' @ mf_name m @ ''\" that bai: '' @ e"

definition failing :: "answer \<Rightarrow> (string \<Rightarrow> pc) \<Rightarrow> pc \<Rightarrow> pc" where
  "failing a h k = (case a of Failed e \<Rightarrow> h e | _ \<Rightarrow> k)"

definition runUp :: "(string \<Rightarrow> string \<Rightarrow> int) \<Rightarrow> replica \<Rightarrow> answer \<Rightarrow> pc" where
  "runUp lc r a =
     (case rp_pc r of
        PUpTable \<Rightarrow> failing a (\<lambda>e. PUnlock (Some e)) PUpVersions
      | PUpVersions \<Rightarrow> failing a (\<lambda>e. PUnlock (Some e))
          (case discoverMigrations lc (rp_files r) of
             Inl e \<Rightarrow> PUnlock (Some e) | Inr all \<Rightarrow> next_pending (pending_files (answer_rows a) all))
      | PBegin m ms \<Rightarrow> failing a (\<lambda>e. PUnlock (Some e)) (PUpSql m ms)
      | PUpSql m ms \<Rightarrow> failing a (\<lambda>e. PRollback (up_failed m e)) (PInsert m ms)
      | PInsert m ms \<Rightarrow> failing a (\<lambda>e. PRollback (up_failed m e)) (PUpCommit m ms)
      | PUpCommit m ms \<Rightarrow> failing a (\<lambda>e. PRollback (up_failed m e)) (next_pending ms)
      | q \<Rightarrow> q)"

definition runDown :: "(string \<Rightarrow> string \<Rightarrow> int) \<Rightarrow> replica \<Rightarrow> answer \<Rightarrow> pc" where
  "runDown lc r a =
     (case rp_pc r of
        PDownTable \<Rightarrow> failing a (\<lambda>e. PUnlock (Some e)) PDownLast
      | PDownLast \<Rightarrow> failing a (\<lambda>e. PUnlock (Some e))
          (case answer_rows a of
             [] \<Rightarrow> PUnlock None
           | latest # _ \<Rightarrow> (case discoverMigrations lc (rp_files r) of
               Inl e \<Rightarrow> PUnlock (Some e)
             | Inr all \<Rightarrow> (case List.find (\<lambda>m. mf_version m = fst latest) all of
                 None \<Rightarrow> PUnlock (Some (''Khong tim thay file cho migration da ap dung: '' @ snd latest))
               | Some target \<Rightarrow> PDownBegin target)))
      | PDownBegin m \<Rightarrow> failing a (\<lambda>e. PUnlock (Some e)) (PDownSql m)
      | PDownSql m \<Rightarrow> failing a (\<lambda>e. PRollback (down_failed m e)) (PDelete m)
      | PDelete m \<Rightarrow> failing a (\<lambda>e. PRollback (down_failed m e)) (PDownCommit m)
      | PDownCommit m \<Rightarrow> failing a (\<lambda>e. PRollback (down_failed m e)) (PUnlock None)
      | q \<Rightarrow> q)"

text \<open>The lines of \<open>runStatus\<close>, and its queries.\<close>

definition status_lines :: "version_row list \<Rightarrow> migration_file list \<Rightarrow> string list" where
  "status_lines rs = map (\<lambda>m. ''  ['' @ (if mf_version m \<in> fst ` set rs then ''x'' else '' '') @ ''] '' @ mf_name m)"

definition runStatus :: "(string \<Rightarrow> string \<Rightarrow> int) \<Rightarrow> replica \<Rightarrow> answer \<Rightarrow> pc" where
  "runStatus lc r a =
     (case rp_pc r of
        PStatusTable \<Rightarrow> failing a (\<lambda>e. PUnlock (Some e)) PStatusVersions
      | PStatusVersions \<Rightarrow> failing a (\<lambda>e. PUnlock (Some e))
          (case discoverMigrations lc (rp_files r) of Inl e \<Rightarrow> PUnlock (Some e) | Inr all \<Rightarrow> PUnlock None)
      | q \<Rightarrow> q)"

text \<open>A failing \<open>ROLLBACK\<close> replaces the error it was to report.\<close>

definition resume :: "(string \<Rightarrow> string \<Rightarrow> int) \<Rightarrow> nat \<Rightarrow> replica \<Rightarrow> answer \<Rightarrow> pc" where
  "resume lc now r a =
     (case rp_pc r of
        PTryLock deadline \<Rightarrow> lock_answer now (rp_cmd r) deadline a
      | PRollback e \<Rightarrow> failing a (\<lambda>e'. PUnlock (Some e')) (PUnlock (Some e))
      | PUnlock failure \<Rightarrow> unlock_answer failure a
      | PDownTable \<Rightarrow> runDown lc r a | PDownLast \<Rightarrow> runDown lc r a | PDownBegin _ \<Rightarrow> runDown lc r a | PDownSql _ \<Rightarrow> runDown lc r a
      | PDelete _ \<Rightarrow> runDown lc r a | PDownCommit _ \<Rightarrow> runDown lc r a
      | PStatusTable \<Rightarrow> runStatus lc r a | PStatusVersions \<Rightarrow> runStatus lc r a
      | _ \<Rightarrow> runUp lc r a)"

text \<open>\<open>closeClient\<close>: ending the session is given five seconds.\<close>

datatype end_answer = Ended | EndFailed | EndTimedOut

definition closeClient :: "end_answer \<Rightarrow> string option" where
  "closeClient a = (if a = Ended then None else Some ''Migration database cleanup failed.'')"

definition closeClientAfterMigration :: "string option \<Rightarrow> end_answer \<Rightarrow> string option" where
  "closeClientAfterMigration primary a = (if primary = None then closeClient a else primary)"

section \<open>A fleet\<close>

record 'd fleet =
  fl_pg :: "'d pg"
  fl_replicas :: "nat \<Rightarrow> replica"
  fl_now :: nat

abbreviation pc_at :: "'d fleet \<Rightarrow> nat \<Rightarrow> pc" where
  "pc_at s i \<equiv> rp_pc (fl_replicas s i)"

definition goto :: "nat \<Rightarrow> pc \<Rightarrow> 'd pg \<Rightarrow> 'd fleet \<Rightarrow> 'd fleet" where
  "goto i q pg s = s\<lparr>fl_pg := pg, fl_replicas := (fl_replicas s)(i := (fl_replicas s i)\<lparr>rp_pc := q\<rparr>)\<rparr>"

definition leaving :: "pc \<Rightarrow> bool" where
  "leaving q \<longleftrightarrow> (case q of PClosing _ \<Rightarrow> True | PDone _ \<Rightarrow> True | _ \<Rightarrow> False)"

text \<open>
  A step of replica \<^term>\<open>i\<close> has the label \<^term>\<open>Some i\<close>.  A connection can break, or the deadline of the whole
  operation pass, at any moment; a query under way may still have its effect, whose answer nobody sees.  The
  server ends a session some time after its client has gone.
\<close>

inductive fleet_step ::
  "(string \<Rightarrow> 'd \<Rightarrow> string + 'd) \<Rightarrow> (string \<Rightarrow> string \<Rightarrow> int) \<Rightarrow> (string \<Rightarrow> string \<Rightarrow> int) \<Rightarrow> nat option \<Rightarrow> 'd fleet \<Rightarrow> 'd fleet \<Rightarrow> bool"
  for exec lc coll
where
  time: "fleet_step exec lc coll None s (s\<lparr>fl_now := fl_now s + n\<rparr>)"
| connected: "pc_at s i = PStart \<Longrightarrow>
    fleet_step exec lc coll (Some i) s (goto i (lock_loop (fl_now s) (fl_now s + ADVISORY_LOCK_DEADLINE_MILLIS)) (fl_pg s) s)"
| unreachable: "pc_at s i = PStart \<Longrightarrow> fleet_step exec lc coll (Some i) s (goto i (PClosing (Some e)) (fl_pg s) s)"
| query: "next_query (fl_replicas s i) = Some st \<Longrightarrow> serve exec coll i st (fl_pg s) = (a, pg) \<Longrightarrow>
    fleet_step exec lc coll (Some i) s (goto i (resume lc (fl_now s) (fl_replicas s i) a) pg s)"
| refused: "next_query (fl_replicas s i) = Some st \<Longrightarrow>
    fleet_step exec lc coll (Some i) s (goto i (resume lc (fl_now s) (fl_replicas s i) (Failed e)) (refuse i st (fl_pg s)) s)"
| wake: "pc_at s i = PSleep w d \<Longrightarrow> w \<le> fl_now s \<Longrightarrow>
    fleet_step exec lc coll (Some i) s (goto i (lock_loop (fl_now s) d) (fl_pg s) s)"
| lost: "pc_at s i \<noteq> PStart \<Longrightarrow> \<not> leaving (pc_at s i) \<Longrightarrow>
    pg = fl_pg s \<or> (\<exists>st. next_query (fl_replicas s i) = Some st \<and> pg = snd (serve exec coll i st (fl_pg s))) \<Longrightarrow>
    fleet_step exec lc coll (Some i) s (goto i (PClosing (Some e)) pg s)"
| closed: "pc_at s i = PClosing e \<Longrightarrow>
    fleet_step exec lc coll (Some i) s (goto i (PDone (closeClientAfterMigration e a)) (fl_pg s) s)"
| session_ends: "leaving (pc_at s i) \<Longrightarrow> fleet_step exec lc coll None s (s\<lparr>fl_pg := end_session i (fl_pg s)\<rparr>)"

text \<open>A fleet at rest: nobody has started, nobody holds the lock.\<close>

definition fleet_start :: "'d fleet \<Rightarrow> bool" where
  "fleet_start s \<longleftrightarrow> (\<forall>i. pc_at s i = PStart \<and> pg_tx (fl_pg s) i = None) \<and> pg_lock (fl_pg s) = None"

definition fleet_reachable ::
  "(string \<Rightarrow> 'd \<Rightarrow> string + 'd) \<Rightarrow> (string \<Rightarrow> string \<Rightarrow> int) \<Rightarrow> (string \<Rightarrow> string \<Rightarrow> int) \<Rightarrow> 'd fleet \<Rightarrow> 'd fleet \<Rightarrow> bool" where
  "fleet_reachable exec lc coll s0 s \<longleftrightarrow> (\<lambda>s s'. \<exists>l. fleet_step exec lc coll l s s')\<^sup>*\<^sup>* s0 s"

section \<open>What a fleet amounts to\<close>

text \<open>
  One migration after the other, each as a whole: the first file of some replica that is not recorded, or the
  reversal of the latest recorded one.
\<close>

inductive one_migration ::
  "(string \<Rightarrow> 'd \<Rightarrow> string + 'd) \<Rightarrow> (string \<Rightarrow> string \<Rightarrow> int) \<Rightarrow> (string \<Rightarrow> string \<Rightarrow> int) \<Rightarrow> replica set
    \<Rightarrow> version_row list \<times> 'd \<Rightarrow> version_row list \<times> 'd \<Rightarrow> bool"
  for exec lc coll R
where
  applied: "r \<in> R \<Longrightarrow> rp_cmd r = ''up'' \<Longrightarrow> discoverMigrations lc (rp_files r) = Inr all \<Longrightarrow> pending_files rs all = m # ms \<Longrightarrow>
    exec (rp_read r (mf_upPath m)) d = Inr d' \<Longrightarrow>
    one_migration exec lc coll R (rs, d) (rs @ [(mf_version m, mf_name m)], d')"
| reverted: "r \<in> R \<Longrightarrow> rp_cmd r = ''down'' \<Longrightarrow> discoverMigrations lc (rp_files r) = Inr all \<Longrightarrow> newest coll rs = [(v, n)] \<Longrightarrow>
    List.find (\<lambda>m. mf_version m = v) all = Some m \<Longrightarrow> exec (rp_read r (mf_downPath m)) d = Inr d' \<Longrightarrow>
    one_migration exec lc coll R (rs, d) (filter (\<lambda>x. fst x \<noteq> v) rs, d')"

section \<open>The invariant\<close>

text \<open>The places between the lock and its release.\<close>

definition locked :: "pc \<Rightarrow> bool" where
  "locked q \<longleftrightarrow>
     (case q of PStart \<Rightarrow> False | PTryLock _ \<Rightarrow> False | PSleep _ _ \<Rightarrow> False | PClosing _ \<Rightarrow> False | PDone _ \<Rightarrow> False | _ \<Rightarrow> True)"

definition quiet :: "'d session_tx option \<Rightarrow> bool" where
  "quiet t \<longleftrightarrow> (case t of None \<Rightarrow> True | Some t' \<Rightarrow> tx_aborted t')"

text \<open>What is still to be done by an \<open>up\<close> whose list is \<^term>\<open>ms\<close>, and what a \<open>down\<close> is about to undo.\<close>

definition up_next :: "(string \<Rightarrow> string \<Rightarrow> int) \<Rightarrow> 'd pg \<Rightarrow> replica \<Rightarrow> migration_file list \<Rightarrow> bool" where
  "up_next lc pg r ms \<longleftrightarrow> rp_cmd r = ''up'' \<and>
     (\<exists>all. discoverMigrations lc (rp_files r) = Inr all \<and> pending_files (tracked pg) all = pending_files (tracked pg) ms)"

definition down_next ::
  "(string \<Rightarrow> string \<Rightarrow> int) \<Rightarrow> (string \<Rightarrow> string \<Rightarrow> int) \<Rightarrow> 'd pg \<Rightarrow> replica \<Rightarrow> migration_file \<Rightarrow> bool" where
  "down_next lc coll pg r m \<longleftrightarrow> rp_cmd r = ''down'' \<and>
     (\<exists>all v n. discoverMigrations lc (rp_files r) = Inr all \<and> newest coll (tracked pg) = [(v, n)]
        \<and> List.find (\<lambda>m. mf_version m = v) all = Some m)"

definition tx_ok ::
  "(string \<Rightarrow> 'd \<Rightarrow> string + 'd) \<Rightarrow> (string \<Rightarrow> string \<Rightarrow> int) \<Rightarrow> (string \<Rightarrow> string \<Rightarrow> int) \<Rightarrow> 'd pg \<Rightarrow> replica
     \<Rightarrow> 'd session_tx option \<Rightarrow> bool" where
  "tx_ok exec lc coll pg r t \<longleftrightarrow>
     (case rp_pc r of
        PUpTable \<Rightarrow> t = None \<and> rp_cmd r = ''up'' | PUpVersions \<Rightarrow> t = None \<and> rp_cmd r = ''up''
      | PBegin m ms \<Rightarrow> t = None \<and> up_next lc pg r (m # ms)
      | PUpSql m ms \<Rightarrow> up_next lc pg r (m # ms) \<and> t = Some \<lparr>tx_rows = pg_rows pg, tx_data = pg_data pg, tx_aborted = False\<rparr>
      | PInsert m ms \<Rightarrow> up_next lc pg r (m # ms) \<and>
          (\<exists>d. exec (rp_read r (mf_upPath m)) (pg_data pg) = Inr d \<and> t = Some \<lparr>tx_rows = pg_rows pg, tx_data = d, tx_aborted = False\<rparr>)
      | PUpCommit m ms \<Rightarrow> up_next lc pg r (m # ms) \<and> mf_version m \<notin> fst ` set (tracked pg) \<and>
          (\<exists>d. exec (rp_read r (mf_upPath m)) (pg_data pg) = Inr d \<and>
             t = Some \<lparr>tx_rows = Some (tracked pg @ [(mf_version m, mf_name m)]), tx_data = d, tx_aborted = False\<rparr>)
      | PDownTable \<Rightarrow> t = None \<and> rp_cmd r = ''down'' | PDownLast \<Rightarrow> t = None \<and> rp_cmd r = ''down''
      | PDownBegin m \<Rightarrow> t = None \<and> down_next lc coll pg r m
      | PDownSql m \<Rightarrow> down_next lc coll pg r m \<and> t = Some \<lparr>tx_rows = pg_rows pg, tx_data = pg_data pg, tx_aborted = False\<rparr>
      | PDelete m \<Rightarrow> down_next lc coll pg r m \<and>
          (\<exists>d. exec (rp_read r (mf_downPath m)) (pg_data pg) = Inr d \<and> t = Some \<lparr>tx_rows = pg_rows pg, tx_data = d, tx_aborted = False\<rparr>)
      | PDownCommit m \<Rightarrow> down_next lc coll pg r m \<and>
          (\<exists>d. exec (rp_read r (mf_downPath m)) (pg_data pg) = Inr d \<and>
             t = Some \<lparr>tx_rows = map_option (filter (\<lambda>x. fst x \<noteq> mf_version m)) (pg_rows pg), tx_data = d, tx_aborted = False\<rparr>)
      | PStatusTable \<Rightarrow> t = None \<and> rp_cmd r = ''status'' | PStatusVersions \<Rightarrow> t = None \<and> rp_cmd r = ''status''
      | PRollback _ \<Rightarrow> quiet t
      | PUnlock (Some _) \<Rightarrow> quiet t
      | PUnlock None \<Rightarrow> t = None \<and> (rp_cmd r = ''up'' \<longrightarrow> up_next lc pg r [])
      | PClosing _ \<Rightarrow> True
      | PDone _ \<Rightarrow> True
      | _ \<Rightarrow> t = None)"

definition fleet_inv ::
  "(string \<Rightarrow> 'd \<Rightarrow> string + 'd) \<Rightarrow> (string \<Rightarrow> string \<Rightarrow> int) \<Rightarrow> (string \<Rightarrow> string \<Rightarrow> int) \<Rightarrow> 'd fleet \<Rightarrow> bool" where
  "fleet_inv exec lc coll s \<longleftrightarrow>
     (\<forall>i. (locked (pc_at s i) \<or> pg_tx (fl_pg s) i \<noteq> None \<longrightarrow> pg_lock (fl_pg s) = Some i) \<and>
          tx_ok exec lc coll (fl_pg s) (fl_replicas s i) (pg_tx (fl_pg s) i))"

lemma fleet_invD:
  assumes "fleet_inv exec lc coll s"
  shows "locked (pc_at s i) \<Longrightarrow> pg_lock (fl_pg s) = Some i" and "pg_tx (fl_pg s) i \<noteq> None \<Longrightarrow> pg_lock (fl_pg s) = Some i"
    and "tx_ok exec lc coll (fl_pg s) (fl_replicas s i) (pg_tx (fl_pg s) i)"
  using assms by (simp_all add: fleet_inv_def)

named_theorems pg_simps \<open>what a statement leaves unchanged\<close>

lemma tx_updates [pg_simps]:
  "pg_lock (end_tx i pg) = pg_lock pg" "pg_rows (end_tx i pg) = pg_rows pg" "pg_data (end_tx i pg) = pg_data pg"
  "pg_lock (abort_tx i pg) = pg_lock pg" "pg_rows (abort_tx i pg) = pg_rows pg" "pg_data (abort_tx i pg) = pg_data pg"
  "pg_lock (in_tx i t pg) = pg_lock pg" "pg_rows (in_tx i t pg) = pg_rows pg" "pg_data (in_tx i t pg) = pg_data pg"
  "pg_tx (end_tx i pg) = (pg_tx pg)(i := None)" "pg_tx (in_tx i t pg) = (pg_tx pg)(i \<mapsto> t)"
  "pg_tx (abort_tx i pg) = (pg_tx pg)(i := map_option (\<lambda>t. t\<lparr>tx_aborted := True\<rparr>) (pg_tx pg i))"
  by (simp_all add: end_tx_def abort_tx_def in_tx_def)

lemma tracked_updates [pg_simps]:
  "tracked (end_tx i pg) = tracked pg" "tracked (abort_tx i pg) = tracked pg" "tracked (in_tx i t pg) = tracked pg"
  by (simp_all add: tracked_def pg_simps)

lemma serve_frame:
  assumes "serve exec coll i st pg = (a, pg')"
  shows "j \<noteq> i \<Longrightarrow> pg_tx pg' j = pg_tx pg j" and "st \<noteq> CommitTx \<Longrightarrow> tracked pg' = tracked pg \<and> pg_data pg' = pg_data pg"
    and "st \<noteq> TryAdvisoryLock \<Longrightarrow> st \<noteq> AdvisoryUnlock \<Longrightarrow> pg_lock pg' = pg_lock pg"
    and "st = TryAdvisoryLock \<Longrightarrow> pg_rows pg' = pg_rows pg"
  using assms by (auto simp: serve_def pg_simps tracked_def split: if_splits statement.splits option.splits sum.splits)

lemma refuse_frame:
  "j \<noteq> i \<Longrightarrow> pg_tx (refuse i st pg) j = pg_tx pg j" "tracked (refuse i st pg) = tracked pg" "pg_rows (refuse i st pg) = pg_rows pg"
  "pg_data (refuse i st pg) = pg_data pg" "pg_lock (refuse i st pg) = pg_lock pg" "quiet (pg_tx (refuse i st pg) i)"
  by (simp_all add: refuse_def pg_simps quiet_def split: option.split)

text \<open>The tables matter to a replica only while it holds the lock.\<close>

lemma tx_ok_frame:
  assumes "tx_ok exec lc coll pg r t" and "locked (rp_pc r) \<Longrightarrow> pg_rows pg' = pg_rows pg \<and> pg_data pg' = pg_data pg"
  shows "tx_ok exec lc coll pg' r t"
proof (cases "locked (rp_pc r)")
  case True
  with assms(2) have "pg_rows pg' = pg_rows pg" "pg_data pg' = pg_data pg" by simp_all
  moreover have "tracked pg' = tracked pg" using calculation by (simp add: tracked_def)
  ultimately show ?thesis using assms(1) by (cases "rp_pc r") (simp_all add: tx_ok_def up_next_def down_next_def split: option.splits)
next
  case False
  with assms(1) show ?thesis by (cases "rp_pc r") (simp_all add: tx_ok_def locked_def)
qed

lemma aborted_iff: "aborted i pg \<longleftrightarrow> (\<exists>t. pg_tx pg i = Some t \<and> tx_aborted t)"
  by (simp add: aborted_def split: option.split)

lemma pending_after:
  assumes "pending_files rs all = pending_files rs (m # ms)"
  shows "pending_files (rs @ [(mf_version m, n)]) all = pending_files (rs @ [(mf_version m, n)]) ms"
proof -
  have split: "pending_files (rs @ [(v, n)]) xs = filter (\<lambda>m. mf_version m \<noteq> v) (pending_files rs xs)" for v xs
    unfolding pending_files_def filter_filter by (rule filter_cong) auto
  show ?thesis unfolding split assms by (simp add: pending_files_def)
qed

lemma pending_files_idem: "pending_files rs (pending_files rs all) = pending_files rs all"
  by (simp add: pending_files_def)

lemma next_pending_ok:
  assumes "up_next lc pg r ms"
  shows "tx_ok exec lc coll pg (r\<lparr>rp_pc := next_pending ms\<rparr>) None \<and> locked (next_pending ms)"
  using assms by (cases ms) (auto simp: next_pending_def tx_ok_def locked_def up_next_def)

lemma newest_Cons: "newest coll rs = x # xs \<Longrightarrow> xs = []"
  by (cases "js_sort (\<lambda>a b. coll (fst b) (fst a)) rs") (simp_all add: newest_def)

lemmas code_defs = next_query_def resume_def runUp_def runDown_def runStatus_def failing_def serve_def

text \<open>A query of a replica keeps its own part of the invariant.\<close>

lemma query_keeps:
  assumes "locked (rp_pc r) \<Longrightarrow> pg_lock pg = Some i" and "pg_tx pg i \<noteq> None \<Longrightarrow> pg_lock pg = Some i"
    and "tx_ok exec lc coll pg r (pg_tx pg i)" and "next_query r = Some st" and "serve exec coll i st pg = (a, pg')"
  shows "tx_ok exec lc coll pg' (r\<lparr>rp_pc := resume lc now r a\<rparr>) (pg_tx pg' i) \<and>
    (locked (resume lc now r a) \<or> pg_tx pg' i \<noteq> None \<longrightarrow> pg_lock pg' = Some i)"
proof (cases "rp_pc r")
  case (PTryLock d)
  with assms show ?thesis
    by (auto simp: code_defs tx_ok_def aborted_iff lock_answer_def run_command_def lock_loop_def locked_def quiet_def split: if_splits)
next
  case PUpTable
  with assms show ?thesis by (auto simp: code_defs tx_ok_def aborted_iff locked_def)
next
  case PUpVersions
  with assms have t: "pg_tx pg i = None" "rp_cmd r = ''up''" "pg_lock pg = Some i" "pg' = pg"
    and a: "a = Rows (tracked pg) \<or> (\<exists>e. a = Failed e)"
    by (auto simp: next_query_def serve_def tx_ok_def locked_def tracked_def aborted_iff split: option.splits)
  show ?thesis
  proof (cases "discoverMigrations lc (rp_files r)")
    case (Inl e)
    with PUpVersions t a show ?thesis by (auto simp: resume_def runUp_def failing_def tx_ok_def quiet_def locked_def)
  next
    case (Inr all)
    with t(2) have "up_next lc pg r (pending_files (tracked pg) all)" by (simp add: up_next_def pending_files_idem)
    from next_pending_ok [OF this] PUpVersions t a Inr show ?thesis
      by (auto simp: resume_def runUp_def failing_def answer_rows_def) (simp_all add: tx_ok_def quiet_def locked_def)
  qed
next
  case PDownTable
  with assms show ?thesis by (auto simp: code_defs tx_ok_def aborted_iff locked_def)
next
  case PStatusTable
  with assms show ?thesis by (auto simp: code_defs tx_ok_def aborted_iff locked_def)
next
  case PStatusVersions
  with assms show ?thesis by (auto simp: code_defs tx_ok_def aborted_iff locked_def quiet_def split: option.splits sum.splits)
next
  case (PRollback e)
  with assms show ?thesis by (auto simp: code_defs tx_ok_def aborted_iff locked_def quiet_def pg_simps)
next
  case (PUnlock e)
  with assms show ?thesis by (auto simp: code_defs tx_ok_def aborted_iff locked_def quiet_def unlock_answer_def split: option.splits)
next
  case (PBegin m ms)
  with assms show ?thesis by (auto simp: code_defs tx_ok_def aborted_iff locked_def pg_simps up_next_def)
next
  case (PDownBegin m)
  with assms show ?thesis by (auto simp: code_defs tx_ok_def aborted_iff locked_def pg_simps down_next_def)
next
  case (PUpSql m ms)
  with assms show ?thesis by (auto simp: code_defs tx_ok_def aborted_iff locked_def quiet_def pg_simps up_next_def split: sum.splits)
next
  case (PDownSql m)
  with assms show ?thesis by (auto simp: code_defs tx_ok_def aborted_iff locked_def quiet_def pg_simps down_next_def split: sum.splits)
next
  case (PInsert m ms)
  with assms show ?thesis
    by (auto simp: code_defs tx_ok_def aborted_iff locked_def quiet_def pg_simps up_next_def tracked_def
        split: option.splits if_splits) force+
next
  case (PDelete m)
  with assms show ?thesis by (auto simp: code_defs tx_ok_def aborted_iff locked_def pg_simps down_next_def)
next
  case (PDownCommit m)
  with assms show ?thesis by (auto simp: code_defs tx_ok_def aborted_iff locked_def pg_simps down_next_def)
next
  case (PDownLast)
  with assms show ?thesis
    by (auto simp: code_defs tx_ok_def aborted_iff locked_def quiet_def answer_rows_def down_next_def tracked_def
        dest: newest_Cons split: option.splits sum.splits list.splits)
next
  case (PUpCommit m ms)
  with assms obtain d where t: "pg_tx pg i = Some \<lparr>tx_rows = Some (tracked pg @ [(mf_version m, mf_name m)]), tx_data = d, tx_aborted = False\<rparr>"
    and up: "up_next lc pg r (m # ms)" and lock: "pg_lock pg = Some i" and st: "st = CommitTx"
    by (auto simp: tx_ok_def next_query_def locked_def)
  from assms(5) st t have pg': "pg' = end_tx i (pg\<lparr>pg_rows := Some (tracked pg @ [(mf_version m, mf_name m)]), pg_data := d\<rparr>)" "a = Ok"
    by (simp_all add: serve_def)
  have rows: "tracked pg' = tracked pg @ [(mf_version m, mf_name m)]" by (simp add: pg' pg_simps) (simp add: tracked_def)
  from up have "up_next lc pg' r ms" unfolding up_next_def rows by (blast intro: pending_after)
  from next_pending_ok [OF this] PUpCommit show ?thesis
    by (simp add: resume_def runUp_def failing_def pg'(2)) (simp add: pg' pg_simps lock)
qed (use assms(4) in \<open>simp_all add: next_query_def\<close>)

lemma serve_other_lock:
  "serve exec coll i st pg = (a, pg') \<Longrightarrow> pg_lock pg = Some j \<Longrightarrow> j \<noteq> i \<Longrightarrow> pg_lock pg' = Some j"
  by (auto simp: serve_def pg_simps split: if_splits statement.splits option.splits sum.splits)

text \<open>A query from outside the lock can only be for the lock.\<close>

lemma next_query_locked: "next_query r = Some st \<Longrightarrow> st = TryAdvisoryLock \<or> locked (rp_pc r)"
  by (cases "rp_pc r") (simp_all add: next_query_def locked_def)

lemma refused_pc:
  assumes "next_query r = Some st"
  shows "(\<exists>x. resume lc now r (Failed e) \<in> {PClosing (Some x), PUnlock (Some x), PRollback x}) \<and>
    (locked (resume lc now r (Failed e)) \<longrightarrow> locked (rp_pc r))"
  using assms by (cases "rp_pc r") (auto simp: code_defs locked_def lock_answer_def unlock_answer_def)

lemma replica_goto [simp]:
  "fl_replicas (goto i q pg s) = (fl_replicas s)(i := (fl_replicas s i)\<lparr>rp_pc := q\<rparr>)" "fl_pg (goto i q pg s) = pg"
  "fl_now (goto i q pg s) = fl_now s"
  by (simp_all add: goto_def)

lemma goto_inv:
  assumes inv: "fleet_inv exec lc coll s" and tx: "\<And>j. j \<noteq> i \<Longrightarrow> pg_tx pg j = pg_tx (fl_pg s) j"
    and lock: "\<And>j. pg_lock (fl_pg s) = Some j \<Longrightarrow> j \<noteq> i \<Longrightarrow> pg_lock pg = Some j"
    and tables: "locked (pc_at s i) \<or> pg_rows pg = pg_rows (fl_pg s) \<and> pg_data pg = pg_data (fl_pg s)"
    and own: "tx_ok exec lc coll pg ((fl_replicas s i)\<lparr>rp_pc := q\<rparr>) (pg_tx pg i)" "locked q \<or> pg_tx pg i \<noteq> None \<longrightarrow> pg_lock pg = Some i"
  shows "fleet_inv exec lc coll (goto i q pg s)"
  unfolding fleet_inv_def
proof
  fix j
  note d = fleet_invD [OF inv]
  show "(locked (pc_at (goto i q pg s) j) \<or> pg_tx (fl_pg (goto i q pg s)) j \<noteq> None \<longrightarrow> pg_lock (fl_pg (goto i q pg s)) = Some j) \<and>
    tx_ok exec lc coll (fl_pg (goto i q pg s)) (fl_replicas (goto i q pg s) j) (pg_tx (fl_pg (goto i q pg s)) j)"
  proof (cases "j = i")
    case True
    with own show ?thesis by simp
  next
    case False
    have "tx_ok exec lc coll pg (fl_replicas s j) (pg_tx (fl_pg s) j)"
    proof (rule tx_ok_frame [OF d(3)])
      assume "locked (pc_at s j)"
      then have "pg_lock (fl_pg s) = Some j" by (rule d(1))
      with False d(1) [of i] have "\<not> locked (pc_at s i)" by auto
      with tables show "pg_rows pg = pg_rows (fl_pg s) \<and> pg_data pg = pg_data (fl_pg s)" by simp
    qed
    moreover have "pg_lock pg = Some j" if "locked (pc_at s j) \<or> pg_tx (fl_pg s) j \<noteq> None"
      using d(1,2) [of j] that lock False by blast
    ultimately show ?thesis using False by (simp add: tx)
  qed
qed

text \<open>The effect of a query on the tables: none, or a whole migration.\<close>

lemma query_tables:
  assumes "tx_ok exec lc coll pg r (pg_tx pg i)" and "next_query r = Some st" and "serve exec coll i st pg = (a, pg')"
  shows "tracked pg' = tracked pg \<and> pg_data pg' = pg_data pg \<or>
    one_migration exec lc coll {r} (tracked pg, pg_data pg) (tracked pg', pg_data pg')"
proof (cases "st = CommitTx")
  case False
  with serve_frame(2) [OF assms(3)] show ?thesis by simp
next
  case st: True
  have "(\<exists>m ms. rp_pc r = PUpCommit m ms) \<or> (\<exists>m. rp_pc r = PDownCommit m)"
    using assms(2) st by (cases "rp_pc r") (simp_all add: next_query_def)
  then show ?thesis
  proof (elim disjE exE)
    fix m ms assume pc: "rp_pc r = PUpCommit m ms"
    with assms(1) obtain d all where t: "pg_tx pg i = Some \<lparr>tx_rows = Some (tracked pg @ [(mf_version m, mf_name m)]), tx_data = d, tx_aborted = False\<rparr>"
      and e: "exec (rp_read r (mf_upPath m)) (pg_data pg) = Inr d" and v: "mf_version m \<notin> fst ` set (tracked pg)"
      and all: "rp_cmd r = ''up''" "discoverMigrations lc (rp_files r) = Inr all" "pending_files (tracked pg) all = pending_files (tracked pg) (m # ms)"
      by (auto simp: tx_ok_def up_next_def)
    from assms(3) st t have "tracked pg' = tracked pg @ [(mf_version m, mf_name m)]" "pg_data pg' = d"
      by (auto simp: serve_def pg_simps tracked_def aborted_iff)
    moreover have "pending_files (tracked pg) all = m # pending_files (tracked pg) ms" using all(3) v by (simp add: pending_files_def)
    ultimately show ?thesis
      using one_migration.applied [of r "{r}" lc all "tracked pg" m "pending_files (tracked pg) ms" exec "pg_data pg" d coll] all(1,2) e
      by simp
  next
    fix m assume pc: "rp_pc r = PDownCommit m"
    with assms(1) obtain d all v n where t: "pg_tx pg i = Some \<lparr>tx_rows = map_option (filter (\<lambda>x. fst x \<noteq> mf_version m)) (pg_rows pg), tx_data = d, tx_aborted = False\<rparr>"
      and e: "exec (rp_read r (mf_downPath m)) (pg_data pg) = Inr d"
      and all: "rp_cmd r = ''down''" "discoverMigrations lc (rp_files r) = Inr all" "newest coll (tracked pg) = [(v, n)]"
        "List.find (\<lambda>m. mf_version m = v) all = Some m"
      by (auto simp: tx_ok_def down_next_def)
    have v: "mf_version m = v" using find_SomeD [OF all(4)] by simp
    from assms(3) st t have "tracked pg' = filter (\<lambda>x. fst x \<noteq> v) (tracked pg)" "pg_data pg' = d"
      by (auto simp: serve_def pg_simps tracked_def aborted_iff v split: option.split)
    then show ?thesis
      using one_migration.reverted [of r "{r}" lc all coll "tracked pg" v n m exec "pg_data pg" d] all e by simp
  qed
qed

lemma end_session_frame:
  "pg_tx (end_session i pg) = (pg_tx pg)(i := None)" "pg_rows (end_session i pg) = pg_rows pg" "pg_data (end_session i pg) = pg_data pg"
  "pg_lock (end_session i pg) = (if pg_lock pg = Some i then None else pg_lock pg)" "tracked (end_session i pg) = tracked pg"
  by (simp_all add: end_session_def pg_simps tracked_def)

lemma fleet_step_inv:
  assumes "fleet_step exec lc coll l s s'" and inv: "fleet_inv exec lc coll s"
  shows "fleet_inv exec lc coll s'"
  using assms(1)
proof cases
  case (time n)
  with inv show ?thesis by (simp add: fleet_inv_def)
next
  case (connected i)
  with fleet_invD [OF inv, of i] show ?thesis
    by (auto intro!: goto_inv [OF inv] simp: lock_loop_def tx_ok_def locked_def)
next
  case (unreachable i e)
  with fleet_invD [OF inv, of i] show ?thesis by (auto intro!: goto_inv [OF inv] simp: tx_ok_def locked_def)
next
  case (query i st a pg)
  note q = query_keeps [OF fleet_invD [OF inv, of i] query(3,4), of "fl_now s"]
  show ?thesis unfolding query(2)
  proof (rule goto_inv [OF inv serve_frame(1) [OF query(4)] serve_other_lock [OF query(4)]])
    show "locked (pc_at s i) \<or> pg_rows pg = pg_rows (fl_pg s) \<and> pg_data pg = pg_data (fl_pg s)"
      using next_query_locked [OF query(3)] serve_frame(2,4) [OF query(4)] by auto
  qed (use q in blast)+
next
  case (refused i st e)
  have r: "locked (resume lc (fl_now s) (fl_replicas s i) (Failed e)) \<longrightarrow> locked (pc_at s i)"
    and q: "\<exists>x. resume lc (fl_now s) (fl_replicas s i) (Failed e) \<in> {PClosing (Some x), PUnlock (Some x), PRollback x}"
    using refused_pc [OF refused(3)] by blast+
  show ?thesis unfolding refused(2)
  proof (rule goto_inv [OF inv])
    show "tx_ok exec lc coll (refuse i st (fl_pg s)) ((fl_replicas s i)\<lparr>rp_pc := resume lc (fl_now s) (fl_replicas s i) (Failed e)\<rparr>)
        (pg_tx (refuse i st (fl_pg s)) i)"
      using q by (auto simp: tx_ok_def refuse_frame)
    show "locked (resume lc (fl_now s) (fl_replicas s i) (Failed e)) \<or> pg_tx (refuse i st (fl_pg s)) i \<noteq> None \<longrightarrow>
        pg_lock (refuse i st (fl_pg s)) = Some i"
      using r fleet_invD(1,2) [OF inv, of i] by (auto simp: refuse_def pg_simps)
  qed (simp_all add: refuse_frame)
next
  case (wake i w d)
  with fleet_invD [OF inv, of i] show ?thesis
    by (auto intro!: goto_inv [OF inv] simp: lock_loop_def tx_ok_def locked_def)
next
  case (lost i pg e)
  from lost(5) show ?thesis unfolding lost(2)
  proof
    assume "pg = fl_pg s"
    with fleet_invD [OF inv, of i] show "fleet_inv exec lc coll (goto i (PClosing (Some e)) pg s)"
      by (auto intro!: goto_inv [OF inv] simp: tx_ok_def locked_def)
  next
    assume "\<exists>st. next_query (fl_replicas s i) = Some st \<and> pg = snd (serve exec coll i st (fl_pg s))"
    then obtain st a where st: "next_query (fl_replicas s i) = Some st" and serve: "serve exec coll i st (fl_pg s) = (a, pg)"
      by (metis surjective_pairing)
    note q = query_keeps [OF fleet_invD [OF inv, of i] st serve, of "fl_now s"]
    show "fleet_inv exec lc coll (goto i (PClosing (Some e)) pg s)"
    proof (rule goto_inv [OF inv serve_frame(1) [OF serve] serve_other_lock [OF serve]])
      show "locked (pc_at s i) \<or> pg_rows pg = pg_rows (fl_pg s) \<and> pg_data pg = pg_data (fl_pg s)"
        using next_query_locked [OF st] serve_frame(2,4) [OF serve] by auto
      show "locked (PClosing (Some e)) \<or> pg_tx pg i \<noteq> None \<longrightarrow> pg_lock pg = Some i" using q by (simp add: locked_def)
    qed (simp_all add: tx_ok_def)
  qed
next
  case (closed i e a)
  with fleet_invD [OF inv, of i] show ?thesis by (auto intro!: goto_inv [OF inv] simp: tx_ok_def locked_def)
next
  case (session_ends i)
  show ?thesis unfolding session_ends(2) fleet_inv_def
  proof
    fix j
    note d = fleet_invD [OF inv, of j]
    have "locked (pc_at s j) \<Longrightarrow> j \<noteq> i" using session_ends(3) by (auto simp: leaving_def locked_def split: pc.splits)
    then have "locked (pc_at s j) \<or> pg_tx (end_session i (fl_pg s)) j \<noteq> None \<longrightarrow> pg_lock (end_session i (fl_pg s)) = Some j"
      using d(1,2) by (cases "pg_tx (fl_pg s) j") (auto simp: end_session_frame)
    moreover have "tx_ok exec lc coll (end_session i (fl_pg s)) (fl_replicas s j) (pg_tx (end_session i (fl_pg s)) j)"
    proof (cases "j = i")
      case True
      with session_ends(3) show ?thesis by (cases "pc_at s i") (simp_all add: leaving_def tx_ok_def)
    next
      case False
      then show ?thesis using tx_ok_frame [OF d(3)] by (simp add: end_session_frame)
    qed
    ultimately show "(locked (pc_at (s\<lparr>fl_pg := end_session i (fl_pg s)\<rparr>) j)
          \<or> pg_tx (fl_pg (s\<lparr>fl_pg := end_session i (fl_pg s)\<rparr>)) j \<noteq> None \<longrightarrow> pg_lock (fl_pg (s\<lparr>fl_pg := end_session i (fl_pg s)\<rparr>)) = Some j) \<and>
        tx_ok exec lc coll (fl_pg (s\<lparr>fl_pg := end_session i (fl_pg s)\<rparr>)) (fl_replicas (s\<lparr>fl_pg := end_session i (fl_pg s)\<rparr>) j)
          (pg_tx (fl_pg (s\<lparr>fl_pg := end_session i (fl_pg s)\<rparr>)) j)" by simp
  qed
qed

text \<open>Every step is invisible in the tables or one migration.\<close>

definition same_image :: "replica \<Rightarrow> replica \<Rightarrow> bool" where
  "same_image r r' \<longleftrightarrow> rp_cmd r = rp_cmd r' \<and> rp_files r = rp_files r' \<and> rp_read r = rp_read r'"

lemma one_migration_image:
  assumes "one_migration exec lc coll {r} x y" and "same_image r r'" and "r' \<in> R"
  shows "one_migration exec lc coll R x y"
  using assms(1)
proof cases
  case (applied r2 all rs m ms d d')
  with assms(2,3) show ?thesis unfolding applied(1,2) by (intro one_migration.applied [of r']) (simp_all add: same_image_def)
next
  case (reverted r2 all rs v n m d d')
  with assms(2,3) show ?thesis unfolding reverted(1,2) by (intro one_migration.reverted [of r']) (simp_all add: same_image_def)
qed

definition tables :: "'d fleet \<Rightarrow> version_row list \<times> 'd" where
  "tables s = (tracked (fl_pg s), pg_data (fl_pg s))"

lemma fleet_step_tables:
  assumes "fleet_step exec lc coll l s s'" and inv: "fleet_inv exec lc coll s"
  shows "tables s' = tables s \<or> (\<exists>i. one_migration exec lc coll {fl_replicas s i} (tables s) (tables s'))"
  using assms(1)
proof cases
  case (query i st a pg)
  from query_tables [OF fleet_invD(3) [OF inv, of i] query(3,4)] show ?thesis unfolding query(2) tables_def by auto
next
  case (lost i pg e)
  from lost(5) show ?thesis unfolding lost(2)
  proof
    assume "\<exists>st. next_query (fl_replicas s i) = Some st \<and> pg = snd (serve exec coll i st (fl_pg s))"
    then obtain st a where "next_query (fl_replicas s i) = Some st" "serve exec coll i st (fl_pg s) = (a, pg)"
      by (metis surjective_pairing)
    from query_tables [OF fleet_invD(3) [OF inv, of i] this]
    show "tables (goto i (PClosing (Some e)) pg s) = tables s \<or>
      (\<exists>k. one_migration exec lc coll {fl_replicas s k} (tables s) (tables (goto i (PClosing (Some e)) pg s)))"
      unfolding tables_def by auto
  qed (simp add: tables_def)
qed (simp_all add: tables_def refuse_frame end_session_frame)

lemma fleet_step_images: "fleet_step exec lc coll l s s' \<Longrightarrow> same_image (fl_replicas s' i) (fl_replicas s i)"
  by (induction rule: fleet_step.induct) (simp_all add: same_image_def)

lemma fleet_start_inv: "fleet_start s \<Longrightarrow> fleet_inv exec lc coll s"
  by (simp add: fleet_start_def fleet_inv_def locked_def tx_ok_def)

lemma fleet_reachable_induct [consumes 2, case_names start step]:
  assumes "fleet_reachable exec lc coll s0 s" and "fleet_start s0" and "P s0"
    and "\<And>s l s'. fleet_inv exec lc coll s \<Longrightarrow> (\<And>i. same_image (fl_replicas s i) (fl_replicas s0 i)) \<Longrightarrow> P s \<Longrightarrow>
      fleet_step exec lc coll l s s' \<Longrightarrow> P s'"
  shows "P s \<and> fleet_inv exec lc coll s \<and> (\<forall>i. same_image (fl_replicas s i) (fl_replicas s0 i))"
  using assms(1) unfolding fleet_reachable_def
proof (induction rule: rtranclp_induct)
  case base
  with assms(2,3) show ?case by (simp add: fleet_start_inv same_image_def)
next
  case (step s s')
  then obtain l where l: "fleet_step exec lc coll l s s'" by blast
  have "same_image (fl_replicas s' i) (fl_replicas s0 i)" for i
    using fleet_step_images [OF l, of i] step.IH by (simp add: same_image_def)
  with assms(4) [OF _ _ _ l] fleet_step_inv [OF l] step.IH show ?case by blast
qed

section \<open>Replicas that all bring the database up\<close>

fun run_scripts :: "(string \<Rightarrow> 'd \<Rightarrow> string + 'd) \<Rightarrow> string list \<Rightarrow> 'd \<Rightarrow> string + 'd" where
  "run_scripts exec [] d = Inr d"
| "run_scripts exec (sql # sqls) d = and_then (exec sql d) (run_scripts exec sqls)"

lemma run_scripts_append: "run_scripts exec (xs @ ys) d = and_then (run_scripts exec xs d) (run_scripts exec ys)"
proof (induction xs arbitrary: d)
  case (Cons x xs)
  then show ?case by (cases "exec x d") simp_all
qed simp

definition record_of :: "migration_file \<Rightarrow> version_row" where
  "record_of m = (mf_version m, mf_name m)"

text \<open>The first \<^term>\<open>k\<close> files are applied, and nothing else.\<close>

definition at_version ::
  "(string \<Rightarrow> 'd \<Rightarrow> string + 'd) \<Rightarrow> (string \<Rightarrow> string) \<Rightarrow> migration_file list \<Rightarrow> 'd \<Rightarrow> nat \<Rightarrow> version_row list \<times> 'd \<Rightarrow> bool" where
  "at_version exec content all d0 k t \<longleftrightarrow> k \<le> length all \<and> fst t = map record_of (take k all) \<and>
     run_scripts exec (map (\<lambda>m. content (mf_upPath m)) (take k all)) d0 = Inr (snd t)"

lemma pending_of_prefix:
  assumes "distinct (map mf_version all)"
  shows "pending_files (map record_of (take k all)) all = drop k all"
proof -
  have versions: "fst ` set (map record_of xs) = mf_version ` set xs" for xs by (auto simp: record_of_def image_iff)
  have "distinct (map mf_version (take k all @ drop k all))" using assms by simp
  then have "\<forall>m\<in>set (drop k all). mf_version m \<notin> mf_version ` set (take k all)" unfolding map_append distinct_append by auto
  then have "pending_files (map record_of (take k all)) (take k all @ drop k all) = drop k all"
    unfolding pending_files_def versions filter_append by (simp add: filter_all filter_none)
  then show ?thesis by simp
qed

lemma at_version_step:
  assumes "at_version exec content all d0 k t" and "distinct (map mf_version all)" and "one_migration exec lc coll R t t'"
    and "\<forall>r\<in>R. rp_cmd r = ''up'' \<and> rp_read r = content \<and> discoverMigrations lc (rp_files r) = Inr all"
  shows "at_version exec content all d0 (Suc k) t'"
  using assms(3)
proof cases
  case (applied r all' rs m ms d d')
  with assms(4) have all: "all' = all" and r: "rp_read r = content" by auto
  have rs: "rs = map record_of (take k all)" and d: "run_scripts exec (map (\<lambda>m. content (mf_upPath m)) (take k all)) d0 = Inr d"
    and k: "k \<le> length all" using assms(1) applied(1) by (simp_all add: at_version_def)
  have "drop k all = m # ms" using applied(6) unfolding all rs pending_of_prefix [OF assms(2)] .
  then have less: "k < length all" and m: "all ! k = m" by (auto simp: nth_via_drop intro: ccontr)
  show ?thesis unfolding at_version_def applied(2)
    using less m rs d r applied(7) by (simp add: take_Suc_conv_app_nth run_scripts_append record_of_def)
next
  case (reverted r all' rs v n m d d')
  with assms(4) show ?thesis by auto
qed

lemma closed_None: "closeClientAfterMigration e a = None \<Longrightarrow> e = None"
  by (simp add: closeClientAfterMigration_def split: if_splits)

text \<open>Who reports success has seen everything applied.\<close>

lemma success_seen:
  assumes "fleet_step exec lc coll l s s'" and inv: "fleet_inv exec lc coll s" and up: "rp_cmd (fl_replicas s i) = ''up''"
    and "pc_at s' i \<in> {PClosing None, PDone None}"
  shows "pc_at s i \<in> {PClosing None, PDone None} \<or> up_next lc (fl_pg s) (fl_replicas s i) [] \<and> tables s' = tables s"
  using assms(1)
proof cases
  case (query j st a pg)
  show ?thesis
  proof (cases "j = i")
    case True
    with query assms(4) have r: "resume lc (fl_now s) (fl_replicas s i) a \<in> {PClosing None, PDone None}" by simp
    have "pc_at s i = PUnlock None"
      using r query(3) True
      by (cases "pc_at s i")
        (auto simp: code_defs lock_answer_def run_command_def lock_loop_def unlock_answer_def next_pending_def
          split: answer.splits if_splits sum.splits list.splits option.splits)
    moreover from this query True have "tables s' = tables s"
      using serve_frame(2) [OF query(4)] by (simp add: next_query_def tables_def)
    ultimately show ?thesis using fleet_invD(3) [OF inv, of i] up by (simp add: tx_ok_def)
  next
    case False
    with query assms(4) show ?thesis by simp
  qed
next
  case (refused j st e)
  then show ?thesis using assms(4) refused_pc [OF refused(3), of lc "fl_now s" e] by (cases "j = i") auto
next
  case (closed j e a)
  then show ?thesis using assms(4) closed_None [of e a] by (cases "j = i") auto
qed (use assms(4) in \<open>auto simp: lock_loop_def split: if_splits\<close>)

lemma fleet_at_version:
  assumes reach: "fleet_reachable exec lc coll s0 s" and start: "fleet_start s0" and none: "tracked (fl_pg s0) = []"
    and up: "\<And>i. rp_cmd (fl_replicas s0 i) = ''up'' \<and> rp_files (fl_replicas s0 i) = files \<and> rp_read (fl_replicas s0 i) = content"
    and all: "discoverMigrations lc files = Inr all" "distinct (map mf_version all)"
  shows "\<exists>k. at_version exec content all (pg_data (fl_pg s0)) k (tables s) \<and>
    (\<forall>i. pc_at s i \<in> {PClosing None, PDone None} \<longrightarrow> k = length all)"
proof -
  let ?P = "\<lambda>s. \<exists>k. at_version exec content all (pg_data (fl_pg s0)) k (tables s) \<and>
    (\<forall>i. pc_at s i \<in> {PClosing None, PDone None} \<longrightarrow> k = length all)"
  have "?P s \<and> fleet_inv exec lc coll s \<and> (\<forall>i. same_image (fl_replicas s i) (fl_replicas s0 i))"
  proof (rule fleet_reachable_induct [OF reach start])
    show "?P s0" using start by (intro exI [of _ 0]) (simp add: at_version_def tables_def none fleet_start_def)
  next
    fix s l s'
    assume inv: "fleet_inv exec lc coll s" and same: "\<And>i. same_image (fl_replicas s i) (fl_replicas s0 i)" and "?P s"
      and step: "fleet_step exec lc coll l s s'"
    from \<open>?P s\<close> obtain k where k: "at_version exec content all (pg_data (fl_pg s0)) k (tables s)"
      and d: "\<And>i. pc_at s i \<in> {PClosing None, PDone None} \<Longrightarrow> k = length all" by blast
    have image: "rp_cmd (fl_replicas s i) = ''up''" "rp_files (fl_replicas s i) = files" "rp_read (fl_replicas s i) = content" for i
      using same [of i] up [of i] by (simp_all add: same_image_def)
    have pending: "pending_files (tracked (fl_pg s)) all = drop k all"
      using k pending_of_prefix [OF all(2)] by (simp add: at_version_def tables_def)
    have seen: "k = length all" if "up_next lc (fl_pg s) (fl_replicas s i) []" for i
    proof -
      from that all(1) image have "pending_files (tracked (fl_pg s)) all = []" by (simp add: up_next_def pending_files_def)
      with pending k show ?thesis by (simp add: at_version_def)
    qed
    from fleet_step_tables [OF step inv] show "?P s'"
    proof
      assume same_tables: "tables s' = tables s"
      have "k = length all" if "pc_at s' i \<in> {PClosing None, PDone None}" for i
        using success_seen [OF step inv image(1) that] d seen by blast
      with k same_tables show ?thesis by auto
    next
      assume "\<exists>i. one_migration exec lc coll {fl_replicas s i} (tables s) (tables s')"
      then obtain i where one: "one_migration exec lc coll {fl_replicas s i} (tables s) (tables s')" ..
      have k': "at_version exec content all (pg_data (fl_pg s0)) (Suc k) (tables s')"
        by (rule at_version_step [OF k all(2) one]) (simp add: image all(1))
      then have "k \<noteq> length all" by (simp add: at_version_def)
      moreover have "tables s' \<noteq> tables s" using k k' by (auto simp: at_version_def dest: arg_cong [where f = length])
      ultimately have "pc_at s' i \<notin> {PClosing None, PDone None}" for i
        using success_seen [OF step inv image(1), of i] d by blast
      with k' show ?thesis by blast
    qed
  qed
  then show ?thesis by blast
qed

section \<open>A run that is not disturbed\<close>

text \<open>The next step of replica \<^term>\<open>i\<close> when nothing fails and nobody else moves.\<close>

definition drive ::
  "(string \<Rightarrow> 'd \<Rightarrow> string + 'd) \<Rightarrow> (string \<Rightarrow> string \<Rightarrow> int) \<Rightarrow> (string \<Rightarrow> string \<Rightarrow> int) \<Rightarrow> nat \<Rightarrow> 'd fleet \<Rightarrow> 'd fleet" where
  "drive exec lc coll i s =
     (case pc_at s i of
        PStart \<Rightarrow> goto i (lock_loop (fl_now s) (fl_now s + ADVISORY_LOCK_DEADLINE_MILLIS)) (fl_pg s) s
      | PClosing e \<Rightarrow> goto i (PDone (closeClientAfterMigration e Ended)) (fl_pg s) s
      | _ \<Rightarrow> (case next_query (fl_replicas s i) of
          None \<Rightarrow> s
        | Some st \<Rightarrow>
            (let (a, pg) = serve exec coll i st (fl_pg s) in goto i (resume lc (fl_now s) (fl_replicas s i) a) pg s)))"

lemma drive_step: "drive exec lc coll i s = s \<or> fleet_step exec lc coll (Some i) s (drive exec lc coll i s)"
proof (cases "next_query (fl_replicas s i)")
  case None
  show ?thesis
  proof (cases "pc_at s i")
    case PStart
    from fleet_step.connected [OF PStart, of exec lc coll] PStart show ?thesis by (simp add: drive_def)
  next
    case (PClosing e)
    from fleet_step.closed [OF PClosing, of exec lc coll Ended] PClosing show ?thesis by (simp add: drive_def)
  qed (simp_all add: drive_def None)
next
  case (Some st)
  obtain a pg where serve: "serve exec coll i st (fl_pg s) = (a, pg)" by fastforce
  have "drive exec lc coll i s = goto i (resume lc (fl_now s) (fl_replicas s i) a) pg s"
    using Some serve by (cases "pc_at s i") (simp_all add: drive_def next_query_def)
  with fleet_step.query [OF Some serve, of lc] show ?thesis by simp
qed

lemma driven_reachable:
  "fleet_reachable exec lc coll s0 s \<Longrightarrow> fleet_reachable exec lc coll s0 ((drive exec lc coll i ^^ n) s)"
proof (induction n)
  case (Suc n)
  then have "fleet_reachable exec lc coll s0 ((drive exec lc coll i ^^ n) s)" by simp
  with drive_step [of exec lc coll i "(drive exec lc coll i ^^ n) s"] show ?case
    unfolding fleet_reachable_def by (auto intro: rtranclp.rtrancl_into_rtrancl)
qed simp

definition drives ::
  "(string \<Rightarrow> 'd \<Rightarrow> string + 'd) \<Rightarrow> (string \<Rightarrow> string \<Rightarrow> int) \<Rightarrow> (string \<Rightarrow> string \<Rightarrow> int) \<Rightarrow> nat \<Rightarrow> 'd fleet \<Rightarrow> 'd fleet \<Rightarrow> bool" where
  "drives exec lc coll i s s' \<longleftrightarrow> (\<exists>n. (drive exec lc coll i ^^ n) s = s')"

lemma drives_trans: "drives exec lc coll i s s' \<Longrightarrow> drives exec lc coll i s' s'' \<Longrightarrow> drives exec lc coll i s s''"
  unfolding drives_def by (metis funpow_add comp_apply)

lemma drives_step: "drives exec lc coll i (drive exec lc coll i s) s' \<Longrightarrow> drives exec lc coll i s s'"
  unfolding drives_def by (metis funpow_Suc_right comp_apply)

lemma drives_refl: "drives exec lc coll i s s"
  unfolding drives_def by (metis funpow_0)

lemma goto_goto [simp]: "goto i q pg (goto i q' pg' s) = goto i q pg s"
  by (simp add: goto_def)

text \<open>What a run makes of its list: each script and its record, until one fails.\<close>

fun migrate_all ::
  "(string \<Rightarrow> 'd \<Rightarrow> string + 'd) \<Rightarrow> (string \<Rightarrow> string) \<Rightarrow> version_row list \<times> 'd \<Rightarrow> migration_file list
     \<Rightarrow> string option \<times> version_row list \<times> 'd" where
  "migrate_all exec content (rs, d) [] = (None, rs, d)"
| "migrate_all exec content (rs, d) (m # ms) =
     (case exec (content (mf_upPath m)) d of
        Inl e \<Rightarrow> (Some (up_failed m e), rs, d)
      | Inr d' \<Rightarrow>
          if mf_version m \<in> fst ` set rs \<or> 40 < length (mf_version m) \<or> 200 < length (mf_name m)
          then (Some (up_failed m ''constraint violated''), rs, d)
          else migrate_all exec content (rs @ [record_of m], d') ms)"

definition standing :: "nat \<Rightarrow> version_row list \<times> 'd \<Rightarrow> 'd pg \<Rightarrow> bool" where
  "standing i t pg \<longleftrightarrow> pg_rows pg = Some (fst t) \<and> pg_data pg = snd t \<and> pg_lock pg = Some i \<and> pg_tx pg i = None"

lemmas drive_defs = drive_def next_query_def resume_def runUp_def serve_def failing_def aborted_iff

lemma drive_begin:
  "standing i t pg \<Longrightarrow> drive exec lc coll i (goto i (PBegin m ms) pg s) =
     goto i (PUpSql m ms) (in_tx i \<lparr>tx_rows = Some (fst t), tx_data = snd t, tx_aborted = False\<rparr> pg) s"
  by (simp add: drive_defs standing_def)

lemma drive_sql:
  assumes "standing i t pg"
  shows "drive exec lc coll i (goto i (PUpSql m ms) (in_tx i \<lparr>tx_rows = Some (fst t), tx_data = snd t, tx_aborted = False\<rparr> pg) s) =
    (case exec (rp_read (fl_replicas s i) (mf_upPath m)) (snd t) of
       Inl e \<Rightarrow> goto i (PRollback (up_failed m e)) (in_tx i \<lparr>tx_rows = Some (fst t), tx_data = snd t, tx_aborted = True\<rparr> pg) s
     | Inr d \<Rightarrow> goto i (PInsert m ms) (in_tx i \<lparr>tx_rows = Some (fst t), tx_data = d, tx_aborted = False\<rparr> pg) s)"
  by (cases "exec (rp_read (fl_replicas s i) (mf_upPath m)) (snd t)")
    (simp_all add: drive_defs pg_simps abort_tx_def in_tx_def)

lemma drive_insert:
  "drive exec lc coll i (goto i (PInsert m ms) (in_tx i \<lparr>tx_rows = Some rs, tx_data = d, tx_aborted = False\<rparr> pg) s) =
    (if mf_version m \<in> fst ` set rs \<or> 40 < length (mf_version m) \<or> 200 < length (mf_name m)
     then goto i (PRollback (up_failed m ''constraint violated'')) (in_tx i \<lparr>tx_rows = Some rs, tx_data = d, tx_aborted = True\<rparr> pg) s
     else goto i (PUpCommit m ms) (in_tx i \<lparr>tx_rows = Some (rs @ [record_of m]), tx_data = d, tx_aborted = False\<rparr> pg) s)"
  by (simp add: drive_defs pg_simps abort_tx_def in_tx_def record_of_def)

lemma drive_commit:
  "drive exec lc coll i (goto i (PUpCommit m ms) (in_tx i \<lparr>tx_rows = Some rs, tx_data = d, tx_aborted = False\<rparr> pg) s) =
    goto i (next_pending ms) (end_tx i (pg\<lparr>pg_rows := Some rs, pg_data := d\<rparr>)) s"
  by (simp add: drive_defs pg_simps end_tx_def in_tx_def)

lemma drive_rollback:
  "drive exec lc coll i (goto i (PRollback e) (in_tx i x pg) s) = goto i (PUnlock (Some e)) (end_tx i pg) s"
  by (simp add: drive_defs pg_simps end_tx_def in_tx_def)

lemma standing_end: "standing i t pg \<Longrightarrow> standing i t (end_tx i pg)"
  "standing i t pg \<Longrightarrow> standing i (rs, d) (end_tx i (pg\<lparr>pg_rows := Some rs, pg_data := d\<rparr>))"
  by (simp_all add: standing_def pg_simps)

lemma up_loop:
  "standing i (rs, d) pg \<Longrightarrow>
    \<exists>pg'. drives exec lc coll i (goto i (next_pending ms) pg s)
        (goto i (PUnlock (fst (migrate_all exec (rp_read (fl_replicas s i)) (rs, d) ms))) pg' s) \<and>
      standing i (snd (migrate_all exec (rp_read (fl_replicas s i)) (rs, d) ms)) pg'"
proof (induction ms arbitrary: rs d pg)
  case Nil
  then show ?case by (auto simp: next_pending_def intro: drives_refl)
next
  case (Cons m ms)
  let ?go = "\<lambda>q pg. goto i q pg s" and ?tx = "\<lambda>rs d a. in_tx i \<lparr>tx_rows = Some rs, tx_data = d, tx_aborted = a\<rparr> pg"
  let ?out = "migrate_all exec (rp_read (fl_replicas s i)) (rs, d) (m # ms)"
  have start: "drives exec lc coll i (?go (next_pending (m # ms)) pg) s'"
    if "drives exec lc coll i (drive exec lc coll i (?go (PUpSql m ms) (?tx rs d False))) s'" for s'
    unfolding next_pending_def list.case by (rule drives_step) (use that drive_begin [OF Cons.prems] in \<open>auto intro: drives_step\<close>)
  have failed: "\<exists>pg'. drives exec lc coll i (?go (PRollback e) (in_tx i x pg)) (?go (PUnlock (Some e)) pg') \<and> standing i (rs, d) pg'" for e x
  proof (intro exI conjI)
    show "drives exec lc coll i (?go (PRollback e) (in_tx i x pg)) (?go (PUnlock (Some e)) (end_tx i pg))"
      by (rule drives_step) (simp only: drive_rollback drives_refl)
  qed (rule standing_end(1) [OF Cons.prems])
  show ?case
  proof (cases "exec (rp_read (fl_replicas s i) (mf_upPath m)) d")
    case (Inl e)
    with start failed [of "up_failed m e"] show ?thesis by (simp add: drive_sql [OF Cons.prems, unfolded fst_conv snd_conv]) blast
  next
    case (Inr d')
    note sql = drive_sql [OF Cons.prems, unfolded fst_conv snd_conv]
    show ?thesis
    proof (cases "mf_version m \<in> fst ` set rs \<or> 40 < length (mf_version m) \<or> 200 < length (mf_name m)")
      case True
      obtain pg' where pg': "drives exec lc coll i (?go (PRollback (up_failed m ''constraint violated'')) (?tx rs d' True))
          (?go (PUnlock (Some (up_failed m ''constraint violated''))) pg')" "standing i (rs, d) pg'" using failed by blast
      have "drives exec lc coll i (?go (PInsert m ms) (?tx rs d' False)) (?go (PUnlock (Some (up_failed m ''constraint violated''))) pg')"
        by (rule drives_step) (simp only: drive_insert True if_True pg')
      with start Inr True pg'(2) show ?thesis by (auto simp: sql)
    next
      case False
      have st: "standing i (rs @ [record_of m], d') (end_tx i (pg\<lparr>pg_rows := Some (rs @ [record_of m]), pg_data := d'\<rparr>))"
        by (rule standing_end(2) [OF Cons.prems])
      from Cons.IH [OF this] obtain pg' where pg': "drives exec lc coll i
          (?go (next_pending ms) (end_tx i (pg\<lparr>pg_rows := Some (rs @ [record_of m]), pg_data := d'\<rparr>)))
          (?go (PUnlock (fst (migrate_all exec (rp_read (fl_replicas s i)) (rs @ [record_of m], d') ms))) pg')"
        "standing i (snd (migrate_all exec (rp_read (fl_replicas s i)) (rs @ [record_of m], d') ms)) pg'" by blast
      have "drives exec lc coll i (?go (PInsert m ms) (?tx rs d' False))
          (?go (PUnlock (fst (migrate_all exec (rp_read (fl_replicas s i)) (rs @ [record_of m], d') ms))) pg')"
        by (rule drives_step, simp only: drive_insert False if_False, rule drives_step, simp only: drive_commit pg')
      with start Inr False pg'(2) show ?thesis by (auto simp: sql)
    qed
  qed
qed

text \<open>From the start to the list, and from the list to the end.\<close>

definition up_outcome ::
  "(string \<Rightarrow> 'd \<Rightarrow> string + 'd) \<Rightarrow> (string \<Rightarrow> string \<Rightarrow> int) \<Rightarrow> replica \<Rightarrow> version_row list \<times> 'd
     \<Rightarrow> string option \<times> version_row list \<times> 'd" where
  "up_outcome exec lc r t =
     (case discoverMigrations lc (rp_files r) of
        Inl e \<Rightarrow> (Some e, t) | Inr all \<Rightarrow> migrate_all exec (rp_read r) t (pending_files (fst t) all))"

lemma up_start:
  assumes "pc_at s i = PStart" and "rp_cmd (fl_replicas s i) = ''up''" and "pg_lock (fl_pg s) = None" and "pg_tx (fl_pg s) i = None"
  shows "\<exists>pg. standing i (tables s) pg \<and>
    (drive exec lc coll i ^^ 4) s = goto i
      (case discoverMigrations lc (rp_files (fl_replicas s i)) of
         Inl e \<Rightarrow> PUnlock (Some e) | Inr all \<Rightarrow> next_pending (pending_files (tracked (fl_pg s)) all)) pg s"
proof (intro exI conjI)
  let ?pg = "(fl_pg s)\<lparr>pg_rows := Some (tracked (fl_pg s)), pg_lock := Some i\<rparr>"
  show "standing i (tables s) ?pg" using assms(4) by (simp add: standing_def tables_def)
  have 1: "drive exec lc coll i s = goto i (PTryLock (fl_now s + 60000)) (fl_pg s) s"
    using assms(1) by (simp add: drive_def lock_loop_def ADVISORY_LOCK_DEADLINE_MILLIS_def)
  have 2: "drive exec lc coll i (goto i (PTryLock d) (fl_pg s) s) = goto i PUpTable ((fl_pg s)\<lparr>pg_lock := Some i\<rparr>) s" for d
    using assms(2-4) by (simp add: drive_defs lock_answer_def run_command_def)
  have 3: "drive exec lc coll i (goto i PUpTable ((fl_pg s)\<lparr>pg_lock := Some i\<rparr>) s) = goto i PUpVersions ?pg s"
    using assms(4) by (simp add: drive_defs tracked_def)
  have 4: "drive exec lc coll i (goto i PUpVersions ?pg s) = goto i
      (case discoverMigrations lc (rp_files (fl_replicas s i)) of
         Inl e \<Rightarrow> PUnlock (Some e) | Inr all \<Rightarrow> next_pending (pending_files (tracked (fl_pg s)) all)) ?pg s"
    using assms(4) by (cases "discoverMigrations lc (rp_files (fl_replicas s i))") (simp_all add: drive_defs answer_rows_def)
  have four: "(f ^^ 4) x = f (f (f (f x)))" for f :: "'x \<Rightarrow> 'x" and x by (simp add: numeral_eq_Suc)
  show "(drive exec lc coll i ^^ 4) s = goto i
      (case discoverMigrations lc (rp_files (fl_replicas s i)) of
         Inl e \<Rightarrow> PUnlock (Some e) | Inr all \<Rightarrow> next_pending (pending_files (tracked (fl_pg s)) all)) ?pg s"
    unfolding four 1 2 3 4 ..
qed

lemma up_end:
  assumes "standing i t pg"
  shows "\<exists>pg'. drives exec lc coll i (goto i (PUnlock e) pg s) (goto i (PDone e) pg' s) \<and>
    tracked pg' = fst t \<and> pg_data pg' = snd t \<and> pg_lock pg' = None \<and> pg_tx pg' i = None"
proof (intro exI conjI)
  have 1: "drive exec lc coll i (goto i (PUnlock e) pg s) = goto i (PClosing e) (pg\<lparr>pg_lock := None\<rparr>) s"
    using assms by (simp add: drive_defs standing_def unlock_answer_def)
  have 2: "drive exec lc coll i (goto i (PClosing e) (pg\<lparr>pg_lock := None\<rparr>) s) = goto i (PDone e) (pg\<lparr>pg_lock := None\<rparr>) s"
    by (simp add: drive_def closeClientAfterMigration_def closeClient_def)
  show "drives exec lc coll i (goto i (PUnlock e) pg s) (goto i (PDone e) (pg\<lparr>pg_lock := None\<rparr>) s)"
    by (rule drives_step, simp only: 1, rule drives_step, simp only: 2 drives_refl)
qed (use assms in \<open>simp_all add: standing_def tracked_def\<close>)

lemma up_run_ends:
  assumes "pc_at s i = PStart" and "rp_cmd (fl_replicas s i) = ''up''" and "pg_lock (fl_pg s) = None" and "pg_tx (fl_pg s) i = None"
  shows "\<exists>n. let s' = (drive exec lc coll i ^^ n) s; out = up_outcome exec lc (fl_replicas s i) (tables s)
    in pc_at s' i = PDone (fst out) \<and> tables s' = snd out \<and> pg_lock (fl_pg s') = None"
proof -
  let ?out = "up_outcome exec lc (fl_replicas s i) (tables s)"
  obtain pg where pg: "standing i (tables s) pg" and start: "(drive exec lc coll i ^^ 4) s = goto i
      (case discoverMigrations lc (rp_files (fl_replicas s i)) of
         Inl e \<Rightarrow> PUnlock (Some e) | Inr all \<Rightarrow> next_pending (pending_files (tracked (fl_pg s)) all)) pg s"
    using up_start [OF assms] by blast
  obtain pg' where "drives exec lc coll i ((drive exec lc coll i ^^ 4) s) (goto i (PUnlock (fst ?out)) pg' s)" and "standing i (snd ?out) pg'"
  proof (cases "discoverMigrations lc (rp_files (fl_replicas s i))")
    case (Inl e)
    with start pg show thesis by (auto simp: up_outcome_def intro!: that drives_refl)
  next
    case (Inr all)
    with start up_loop [of i "tracked (fl_pg s)" "pg_data (fl_pg s)" pg exec lc coll "pending_files (tracked (fl_pg s)) all" s] pg
    show thesis by (auto simp: up_outcome_def tables_def intro: that)
  qed
  moreover obtain pg'' where "drives exec lc coll i (goto i (PUnlock (fst ?out)) pg' s) (goto i (PDone (fst ?out)) pg'' s)"
    and "tracked pg'' = fst (snd ?out)" "pg_data pg'' = snd (snd ?out)" "pg_lock pg'' = None"
    using up_end [OF \<open>standing i (snd ?out) pg'\<close>] by blast
  moreover have "drives exec lc coll i s ((drive exec lc coll i ^^ 4) s)" by (auto simp: drives_def)
  ultimately have "drives exec lc coll i s (goto i (PDone (fst ?out)) pg'' s)" by (blast intro: drives_trans)
  then obtain n where "(drive exec lc coll i ^^ n) s = goto i (PDone (fst ?out)) pg'' s" by (auto simp: drives_def)
  then show ?thesis
    using \<open>tracked pg'' = fst (snd ?out)\<close> \<open>pg_data pg'' = snd (snd ?out)\<close> \<open>pg_lock pg'' = None\<close>
    by (intro exI [of _ n]) (simp add: tables_def Let_def)
qed

section \<open>Every run ends\<close>

text \<open>
  How many queries, waits and closings can still follow: four queries for a file, at most sixty-one tries for the lock.
\<close>

definition tries :: "nat \<Rightarrow> nat \<Rightarrow> nat" where
  "tries deadline now = (deadline - now + 999) div 1000"

definition rank :: "nat \<Rightarrow> replica \<Rightarrow> nat" where
  "rank now r =
     (case rp_pc r of
        PStart \<Rightarrow> 4 * length (rp_files r) + 132
      | PTryLock d \<Rightarrow> 4 * length (rp_files r) + 11 + 2 * tries d now
      | PSleep w d \<Rightarrow> 4 * length (rp_files r) + 12 + 2 * tries d w
      | PUpTable \<Rightarrow> 4 * length (rp_files r) + 5 | PUpVersions \<Rightarrow> 4 * length (rp_files r) + 4
      | PBegin _ ms \<Rightarrow> 4 * length ms + 7 | PUpSql _ ms \<Rightarrow> 4 * length ms + 6 | PInsert _ ms \<Rightarrow> 4 * length ms + 5 | PUpCommit _ ms \<Rightarrow> 4 * length ms + 4
      | PDownTable \<Rightarrow> 9 | PDownLast \<Rightarrow> 8 | PDownBegin _ \<Rightarrow> 7 | PDownSql _ \<Rightarrow> 6 | PDelete _ \<Rightarrow> 5 | PDownCommit _ \<Rightarrow> 4
      | PStatusTable \<Rightarrow> 4 | PStatusVersions \<Rightarrow> 3
      | PRollback _ \<Rightarrow> 3 | PUnlock _ \<Rightarrow> 2 | PClosing _ \<Rightarrow> 1 | PDone _ \<Rightarrow> 0)"

lemma tries_mono: "now \<le> now' \<Longrightarrow> tries d now' \<le> tries d now"
  unfolding tries_def by (rule div_le_mono) simp

lemma tries_later: "now < d \<Longrightarrow> now + 1000 \<le> w \<Longrightarrow> tries d w < tries d now"
proof -
  assume a: "now < d" "now + 1000 \<le> w"
  have "tries d w \<le> (d - (now + 1000) + 999) div 1000" unfolding tries_def using a by (intro div_le_mono) simp
  also have "\<dots> < (d - now + 999) div 1000"
  proof (cases "d - now < 1000")
    case False
    define x where "x = d - (now + 1000)"
    have later: "d - (now + 1000) + 999 = x + 999" and now: "d - now + 999 = (x + 999) + 1000" using False by (simp_all add: x_def)
    have "(x + 999) div 1000 < ((x + 999) + 1000) div 1000" by simp
    then show ?thesis unfolding later now .
  next
    case True
    then have "d - (now + 1000) + 999 < 1000" and "1000 \<le> d - now + 999" using a(1) by simp_all
    then show ?thesis by (simp add: div_greater_zero_iff)
  qed
  finally show ?thesis by (simp add: tries_def)
qed

lemma discover_length: "discoverMigrations lc files = Inr all \<Longrightarrow> length all \<le> length files"
  by (auto simp: discoverMigrations_def map_sum_def dest!: map_result_length split: sum.splits)

lemma next_pending_rank: "rank now (r\<lparr>rp_pc := next_pending ms\<rparr>) < 4 * length ms + 4"
  by (cases ms) (simp_all add: next_pending_def rank_def)

lemma rank_resume:
  assumes "next_query r = Some st"
  shows "rank now (r\<lparr>rp_pc := resume lc now r a\<rparr>) < rank now r"
proof (cases "rp_pc r")
  case (PTryLock d)
  then show ?thesis
    using tries_later [of now d "now + 1000"]
    by (auto simp: resume_def lock_answer_def run_command_def lock_loop_def rank_def ADVISORY_LOCK_POLL_INTERVAL_MILLIS_def split: answer.split)
next
  case PUpVersions
  show ?thesis
  proof (cases "discoverMigrations lc (rp_files r)")
    case (Inl e)
    with PUpVersions show ?thesis by (cases a) (simp_all add: resume_def runUp_def failing_def rank_def)
  next
    case (Inr all)
    have "length (pending_files (answer_rows a) all) \<le> length (rp_files r)"
      unfolding pending_files_def using length_filter_le discover_length [OF Inr] by (rule order_trans)
    with next_pending_rank [where now = now and r = r and ms = "pending_files (answer_rows a) all"] PUpVersions Inr show ?thesis
      by (cases a) (simp_all add: resume_def runUp_def failing_def rank_def)
  qed
next
  case (PUpCommit m ms)
  with next_pending_rank [where now = now and r = r and ms = ms] show ?thesis
    by (cases a) (simp_all add: resume_def runUp_def failing_def rank_def)
next
  case PDownLast
  then show ?thesis by (auto simp: resume_def runDown_def failing_def rank_def split: answer.split list.split sum.split option.split)
next
  case PStatusVersions
  then show ?thesis by (auto simp: resume_def runStatus_def failing_def rank_def split: answer.split sum.split)
qed (use assms in \<open>cases a; simp add: code_defs unlock_answer_def rank_def\<close>)+

text \<open>A step of a replica takes one off its own rank and nothing onto any.\<close>

lemma fleet_step_rank:
  assumes "fleet_step exec lc coll l s s'"
  shows "rank (fl_now s') (fl_replicas s' i) + (if l = Some i then 1 else 0) \<le> rank (fl_now s) (fl_replicas s i)"
  using assms
proof cases
  case (time n)
  then show ?thesis using tries_mono [of "fl_now s" "fl_now s + n"] by (cases "pc_at s i") (simp_all add: rank_def)
next
  case (connected j)
  then show ?thesis by (auto simp: rank_def lock_loop_def ADVISORY_LOCK_DEADLINE_MILLIS_def tries_def)
next
  case (query j st a pg)
  then show ?thesis using rank_resume [OF query(3), of "fl_now s" lc a] by auto
next
  case (refused j st e)
  then show ?thesis using rank_resume [OF refused(3), of "fl_now s" lc "Failed e"] by auto
next
  case (wake j w d)
  then show ?thesis using tries_mono [of w "fl_now s" d] by (auto simp: rank_def lock_loop_def)
next
  case (lost j pg e)
  then show ?thesis by (cases "pc_at s j") (auto simp: rank_def leaving_def)
qed (auto simp: rank_def)

inductive fleet_run ::
  "(string \<Rightarrow> 'd \<Rightarrow> string + 'd) \<Rightarrow> (string \<Rightarrow> string \<Rightarrow> int) \<Rightarrow> (string \<Rightarrow> string \<Rightarrow> int) \<Rightarrow> nat option list \<Rightarrow> 'd fleet \<Rightarrow> 'd fleet \<Rightarrow> bool"
  for exec lc coll
where
  stop: "fleet_run exec lc coll [] s s"
| step: "fleet_step exec lc coll l s s' \<Longrightarrow> fleet_run exec lc coll ls s' s'' \<Longrightarrow> fleet_run exec lc coll (l # ls) s s''"

lemma fleet_run_rank:
  "fleet_run exec lc coll ls s s' \<Longrightarrow> rank (fl_now s') (fl_replicas s' i) + count_list ls (Some i) \<le> rank (fl_now s) (fl_replicas s i)"
proof (induction rule: fleet_run.induct)
  case (step l s s' ls s'')
  from fleet_step_rank [OF step.hyps(1), of i] step.IH show ?case by auto
qed simp

section \<open>A fleet of one image\<close>

definition sample_lc :: "string \<Rightarrow> string \<Rightarrow> int" where
  "sample_lc a b = int (decimal_value 0 a) - int (decimal_value 0 b)"

definition sample_files :: "string list" where
  "sample_files = [''10_b.down.sql'', ''10_b.up.sql'', ''9_a.down.sql'', ''9_a.up.sql'']"

text \<open>A script appends its own text to the database.\<close>

definition sample_exec :: "string \<Rightarrow> string list \<Rightarrow> string + string list" where
  "sample_exec sql d = Inr (d @ [sql])"

definition sample_fleet :: "string list fleet" where
  "sample_fleet =
     \<lparr>fl_pg = \<lparr>pg_rows = None, pg_data = [], pg_lock = None, pg_tx = (\<lambda>i. None)\<rparr>,
      fl_replicas = (\<lambda>i. \<lparr>rp_cmd = ''up'', rp_files = sample_files, rp_read = (\<lambda>p. p), rp_pc = PStart\<rparr>), fl_now = 0\<rparr>"

abbreviation sample_drive :: "nat \<Rightarrow> string list fleet \<Rightarrow> string list fleet" where
  "sample_drive \<equiv> drive sample_exec sample_lc sample_lc"

lemma sample_start: "fleet_start sample_fleet" "tracked (fl_pg sample_fleet) = []"
  by (simp_all add: fleet_start_def sample_fleet_def tracked_def)

lemma sample_discover:
  "map_sum id (map record_of) (discoverMigrations sample_lc sample_files) = Inr [(''9'', ''9_a''), (''10'', ''10_b'')]"
  by code_simp

lemma sample_outcome:
  "up_outcome sample_exec sample_lc (fl_replicas sample_fleet 0) (tables sample_fleet) =
     (None, [(''9'', ''9_a''), (''10'', ''10_b'')], [''migrations/9_a.up.sql'', ''migrations/10_b.up.sql''])"
  by code_simp

lemma sample_run:
  "\<exists>s. fleet_reachable sample_exec sample_lc sample_lc sample_fleet s \<and> pc_at s 0 = PDone None \<and>
    tables s = ([(''9'', ''9_a''), (''10'', ''10_b'')], [''migrations/9_a.up.sql'', ''migrations/10_b.up.sql''])"
proof -
  have "pc_at sample_fleet 0 = PStart" "rp_cmd (fl_replicas sample_fleet 0) = ''up''" "pg_lock (fl_pg sample_fleet) = None"
    "pg_tx (fl_pg sample_fleet) 0 = None" by (simp_all add: sample_fleet_def)
  from up_run_ends [OF this, of sample_exec sample_lc sample_lc] obtain n where
    "pc_at ((sample_drive 0 ^^ n) sample_fleet) 0 = PDone None"
    "tables ((sample_drive 0 ^^ n) sample_fleet) = ([(''9'', ''9_a''), (''10'', ''10_b'')], [''migrations/9_a.up.sql'', ''migrations/10_b.up.sql''])"
    unfolding Let_def sample_outcome fst_conv snd_conv by blast
  moreover have "fleet_reachable sample_exec sample_lc sample_lc sample_fleet ((sample_drive 0 ^^ n) sample_fleet)"
    by (rule driven_reachable) (simp add: fleet_reachable_def)
  ultimately show ?thesis by blast
qed

section \<open>Properties\<close>

text \<open>C24 Replicas that migrate one database at the same time leave it as if the migrations had been applied one
  after the other: from a fleet at rest, whatever commands the replicas have, however their queries interleave
  and wherever connections break, the tables are reached by whole migrations, each the first file of some
  replica that is not recorded yet or the reversal of the latest recorded one, with its record written in the
  same transaction; and an \<open>up\<close> that releases the lock without an error has none of its files left.\<close>

theorem migrations_serialised:
  assumes "fleet_start s0" and "fleet_reachable exec lc coll s0 s"
  shows "(one_migration exec lc coll (range (fl_replicas s0)))\<^sup>*\<^sup>* (tables s0) (tables s) \<and>
    (\<forall>i. pc_at s i = PUnlock None \<and> rp_cmd (fl_replicas s0 i) = ''up'' \<longrightarrow>
      (\<exists>all. discoverMigrations lc (rp_files (fl_replicas s0 i)) = Inr all \<and> pending_files (fst (tables s)) all = []))"
proof -
  have r: "(one_migration exec lc coll (range (fl_replicas s0)))\<^sup>*\<^sup>* (tables s0) (tables s) \<and> fleet_inv exec lc coll s
      \<and> (\<forall>i. same_image (fl_replicas s i) (fl_replicas s0 i))"
  proof (rule fleet_reachable_induct [OF assms(2,1)])
    fix s l s'
    assume "fleet_inv exec lc coll s" and same: "\<And>i. same_image (fl_replicas s i) (fl_replicas s0 i)"
      and path: "(one_migration exec lc coll (range (fl_replicas s0)))\<^sup>*\<^sup>* (tables s0) (tables s)"
      and "fleet_step exec lc coll l s s'"
    then consider "tables s' = tables s" | i where "one_migration exec lc coll {fl_replicas s i} (tables s) (tables s')"
      using fleet_step_tables by blast
    then show "(one_migration exec lc coll (range (fl_replicas s0)))\<^sup>*\<^sup>* (tables s0) (tables s')"
    proof cases
      case (2 i)
      from one_migration_image [OF this same] path show ?thesis by (auto intro: rtranclp.rtrancl_into_rtrancl)
    qed (use path in simp)
  qed simp
  have "\<exists>all. discoverMigrations lc (rp_files (fl_replicas s0 i)) = Inr all \<and> pending_files (fst (tables s)) all = []"
    if "pc_at s i = PUnlock None" "rp_cmd (fl_replicas s0 i) = ''up''" for i
  proof -
    from r have "tx_ok exec lc coll (fl_pg s) (fl_replicas s i) (pg_tx (fl_pg s) i)" and "same_image (fl_replicas s i) (fl_replicas s0 i)"
      using fleet_invD(3) by blast+
    with that show ?thesis by (simp add: tx_ok_def up_next_def same_image_def tables_def pending_files_def)
  qed
  with r show ?thesis by blast
qed

lemma migrations_serialised_witness:
  "\<exists>s. pc_at s 0 = PDone None \<and>
    (one_migration sample_exec sample_lc sample_lc (range (fl_replicas sample_fleet)))\<^sup>*\<^sup>* ([], []) (tables s) \<and>
    tables s = ([(''9'', ''9_a''), (''10'', ''10_b'')], [''migrations/9_a.up.sql'', ''migrations/10_b.up.sql''])"
proof -
  obtain s where s: "fleet_reachable sample_exec sample_lc sample_lc sample_fleet s" "pc_at s 0 = PDone None"
    "tables s = ([(''9'', ''9_a''), (''10'', ''10_b'')], [''migrations/9_a.up.sql'', ''migrations/10_b.up.sql''])" using sample_run by blast
  have "tables sample_fleet = ([], [])" by (simp add: tables_def sample_fleet_def tracked_def)
  with migrations_serialised [OF sample_start(1) s(1)] s(2,3) show ?thesis by metis
qed

text \<open>C25 A fleet of replicas of one image that all start with \<open>up\<close> on an empty database keeps it at a version: at
  every moment exactly the first files in order are applied and recorded, each once and as a whole, whatever
  breaks; and when a replica ends without an error, all files are applied.\<close>

theorem migrations_prefix:
  assumes "fleet_start s0" and "tracked (fl_pg s0) = []" and "fleet_reachable exec lc coll s0 s"
    and "\<forall>i. rp_cmd (fl_replicas s0 i) = ''up'' \<and> rp_files (fl_replicas s0 i) = files \<and> rp_read (fl_replicas s0 i) = content"
    and "discoverMigrations lc files = Inr all" and "distinct (map mf_version all)"
  shows "\<exists>k. at_version exec content all (pg_data (fl_pg s0)) k (tables s) \<and> (\<forall>i. pc_at s i = PDone None \<longrightarrow> k = length all)"
  using fleet_at_version [OF assms(3,1,2) _ assms(5,6)] assms(4) by fastforce

lemma migrations_prefix_witness:
  "\<exists>s all. pc_at s 0 = PDone None \<and> length all = 2 \<and> at_version sample_exec (\<lambda>p. p) all [] 2 (tables s)"
proof -
  obtain s where s: "fleet_reachable sample_exec sample_lc sample_lc sample_fleet s" "pc_at s 0 = PDone None" using sample_run by blast
  obtain all where all: "discoverMigrations sample_lc sample_files = Inr all" "map record_of all = [(''9'', ''9_a''), (''10'', ''10_b'')]"
    using sample_discover by (cases "discoverMigrations sample_lc sample_files") auto
  have "map mf_version all = map fst (map record_of all)" by (simp add: record_of_def)
  then have d: "distinct (map mf_version all)" unfolding all(2) by simp
  have same: "\<forall>i. rp_cmd (fl_replicas sample_fleet i) = ''up'' \<and> rp_files (fl_replicas sample_fleet i) = sample_files
      \<and> rp_read (fl_replicas sample_fleet i) = (\<lambda>p. p)" by (simp add: sample_fleet_def)
  have "pg_data (fl_pg sample_fleet) = []" "length all = 2"
    using arg_cong [OF all(2), of length] by (simp_all add: sample_fleet_def)
  with migrations_prefix [OF sample_start s(1) same all(1) d] s(2) show ?thesis by metis
qed

text \<open>A run of \<open>up\<close> that nothing disturbs ends, and as it should: it applies and records the files that are not
  recorded, in order, up to the first whose script fails or whose record is refused, reports exactly that
  failure, and gives the lock back.\<close>

theorem up_run_outcome:
  assumes "pc_at s i = PStart" and "rp_cmd (fl_replicas s i) = ''up''" and "pg_lock (fl_pg s) = None" and "pg_tx (fl_pg s) i = None"
  shows "\<exists>n. let s' = (drive exec lc coll i ^^ n) s; out = up_outcome exec lc (fl_replicas s i) (tables s)
    in pc_at s' i = PDone (fst out) \<and> tables s' = snd out \<and> pg_lock (fl_pg s') = None"
  using assms by (rule up_run_ends)

lemma up_run_outcome_witness:
  "\<exists>n. let s' = (sample_drive 0 ^^ n) sample_fleet
    in pc_at s' 0 = PDone None \<and> fst (tables s') = [(''9'', ''9_a''), (''10'', ''10_b'')] \<and> pg_lock (fl_pg s') = None"
proof -
  have "pc_at sample_fleet 0 = PStart" "rp_cmd (fl_replicas sample_fleet 0) = ''up''" "pg_lock (fl_pg sample_fleet) = None"
    "pg_tx (fl_pg sample_fleet) 0 = None" by (simp_all add: sample_fleet_def)
  from up_run_outcome [OF this, of sample_exec sample_lc sample_lc] show ?thesis
    unfolding sample_outcome Let_def fst_conv snd_conv by (elim exE conjE, intro exI conjI) (assumption | simp only: fst_conv)+
qed

text \<open>C39 No replica runs for ever, whatever the others, the server and the network do: it takes at most 132 steps
  and four for each of its files, and until it is done it always has a next step, at the latest when its sleep
  is over.\<close>

theorem replica_ends:
  "(\<forall>ls s'. fleet_run exec lc coll ls s s' \<and> pc_at s i = PStart \<longrightarrow> count_list ls (Some i) \<le> 132 + 4 * length (rp_files (fl_replicas s i))) \<and>
   ((\<forall>e. pc_at s i \<noteq> PDone e) \<longrightarrow>
     (\<exists>wait s'. (\<forall>w d. pc_at s i = PSleep w d \<longrightarrow> wait = w - fl_now s) \<and> fleet_step exec lc coll (Some i) (s\<lparr>fl_now := fl_now s + wait\<rparr>) s'))"
proof (intro conjI allI impI)
  fix ls s' assume "fleet_run exec lc coll ls s s' \<and> pc_at s i = PStart"
  with fleet_run_rank [of exec lc coll ls s s' i] show "count_list ls (Some i) \<le> 132 + 4 * length (rp_files (fl_replicas s i))"
    by (simp add: rank_def)
next
  assume open': "\<forall>e. pc_at s i \<noteq> PDone e"
  let ?s = "\<lambda>n. s\<lparr>fl_now := fl_now s + n\<rparr>"
  have asks: "\<exists>s'. fleet_step exec lc coll (Some i) (?s 0) s'" if "next_query (fl_replicas s i) = Some st" for st
    using fleet_step.refused [of "?s 0" i st exec lc coll] that by auto
  show "\<exists>wait s'. (\<forall>w d. pc_at s i = PSleep w d \<longrightarrow> wait = w - fl_now s) \<and> fleet_step exec lc coll (Some i) (?s wait) s'"
  proof (cases "pc_at s i")
    case PStart
    then have "pc_at (?s 0) i = PStart" by simp
    from fleet_step.connected [OF this, of exec lc coll] PStart show ?thesis by (intro exI [of _ 0]) auto
  next
    case (PSleep w d)
    have "w \<le> n + (w - n)" for n by arith
    then have "fleet_step exec lc coll (Some i) (?s (w - fl_now s)) (goto i (lock_loop (fl_now (?s (w - fl_now s))) d) (fl_pg (?s (w - fl_now s))) (?s (w - fl_now s)))"
      using PSleep by (intro fleet_step.wake) simp_all
    moreover have "\<forall>w' d'. pc_at s i = PSleep w' d' \<longrightarrow> w - fl_now s = w' - fl_now s" by (simp add: PSleep)
    ultimately show ?thesis by (intro exI conjI)
  next
    case (PClosing e)
    then have "pc_at (?s 0) i = PClosing e" by simp
    from fleet_step.closed [OF this, of exec lc coll Ended] PClosing show ?thesis by (intro exI [of _ 0]) auto
  next
    case (PDone e)
    with open' show ?thesis by simp
  qed (use asks in \<open>intro exI [of _ 0], simp add: next_query_def\<close>)+
qed

lemma replica_ends_witness:
  "\<exists>s'. fleet_run sample_exec sample_lc sample_lc [Some 0] sample_fleet s' \<and> count_list [Some 0] (Some (0::nat)) \<le> 132 + 4 * 4"
proof -
  have pc: "pc_at sample_fleet 0 = PStart" by (simp add: sample_fleet_def)
  then obtain s' where "fleet_run sample_exec sample_lc sample_lc [Some 0] sample_fleet s'"
    by (blast intro: fleet_run.intros fleet_step.connected)
  moreover from this pc have "count_list [Some 0] (Some (0::nat)) \<le> 132 + 4 * length (rp_files (fl_replicas sample_fleet 0))"
    using replica_ends [of sample_exec sample_lc sample_lc sample_fleet 0] by blast
  ultimately show ?thesis by (auto simp: sample_fleet_def sample_files_def)
qed

end
