(* ===== verification/Runtime.thy ===== *)
theory Runtime imports Worker begin

text \<open>
  The processes around the relays: the life of a runner (\<open>worker/worker-runner.service.ts\<close>, and the same code in
  \<open>worker/legacy-worker-runner.service.ts\<close>), the health server of the worker (\<open>worker-health-server.service.ts\<close>)
  and the reloading of certificates (\<open>internal-mtls-server.ts\<close>), as transition systems over timers, events and
  what an \<open>await\<close> lets happen in between.
\<close>

section \<open>The runner\<close>

datatype shutdown = NotAsked | Draining | ShutDown

record runner =
  rn_active :: bool
  rn_timer :: "nat option"
  rn_stopping :: bool
  rn_shutdown :: shutdown
  rn_store :: return_state

definition runner_start :: "return_state \<Rightarrow> runner" where
  "runner_start s = \<lparr>rn_active = False, rn_timer = None, rn_stopping = False, rn_shutdown = NotAsked, rn_store = s\<rparr>"

text \<open>\<open>run\<close> up to its \<open>await\<close>, and after it: \<^term>\<open>cycle\<close> is the function that is awaited.\<close>

definition run_begin :: "runner \<Rightarrow> runner" where
  "run_begin p = (if rn_stopping p then p else p\<lparr>rn_active := True\<rparr>)"

definition run_end :: "(return_state \<Rightarrow> nat \<times> return_state) \<Rightarrow> runner \<Rightarrow> runner" where
  "run_end cycle p =
     (let (delayMs, s) = cycle (rn_store p);
          p1 = p\<lparr>rn_store := s, rn_active := False\<rparr>
      in if \<not> rn_stopping p then p1\<lparr>rn_timer := Some delayMs\<rparr> else p1)"

definition runner_timer :: "runner \<Rightarrow> runner" where
  "runner_timer p = run_begin (p\<lparr>rn_timer := None\<rparr>)"

text \<open>\<open>onApplicationShutdown\<close>, cut at its \<open>await\<close> of the active run.\<close>

definition runner_shutdown :: "runner \<Rightarrow> runner" where
  "runner_shutdown p = p\<lparr>rn_stopping := True, rn_timer := None, rn_shutdown := Draining\<rparr>"

definition runner_drained :: "runner \<Rightarrow> runner" where
  "runner_drained p = p\<lparr>rn_shutdown := ShutDown\<rparr>"

text \<open>
  The application starts the runner once; afterwards a cycle ends, the timer fires, or the application asks for
  the shutdown.  What other processes do to the store happens between the steps.
\<close>

inductive runner_step :: "(return_state \<Rightarrow> nat \<times> return_state) set \<Rightarrow> runner \<Rightarrow> runner \<Rightarrow> bool" for cycles where
  cycle_ends: "rn_active p \<Longrightarrow> cycle \<in> cycles \<Longrightarrow> runner_step cycles p (run_end cycle p)"
| timer: "rn_timer p = Some d \<Longrightarrow> runner_step cycles p (runner_timer p)"
| shutdown: "rn_shutdown p = NotAsked \<Longrightarrow> runner_step cycles p (runner_shutdown p)"
| drained: "rn_shutdown p = Draining \<Longrightarrow> \<not> rn_active p \<Longrightarrow> runner_step cycles p (runner_drained p)"
| others: "runner_step cycles p (p\<lparr>rn_store := s\<rparr>)"

definition runner_reachable :: "(return_state \<Rightarrow> nat \<times> return_state) set \<Rightarrow> runner \<Rightarrow> bool" where
  "runner_reachable cycles p \<longleftrightarrow> (\<exists>s. (runner_step cycles)\<^sup>*\<^sup>* (run_begin (runner_start s)) p)"

text \<open>A runner that was not asked to stop has exactly one of a running cycle and a timer; one that was has no timer.\<close>

definition runner_inv :: "(return_state \<Rightarrow> nat \<times> return_state) set \<Rightarrow> runner \<Rightarrow> bool" where
  "runner_inv cycles p \<longleftrightarrow>
     rn_stopping p = (rn_shutdown p \<noteq> NotAsked) \<and>
     (rn_stopping p \<longrightarrow> rn_timer p = None) \<and> (\<not> rn_stopping p \<longrightarrow> rn_active p = (rn_timer p = None)) \<and>
     (rn_shutdown p = ShutDown \<longrightarrow> \<not> rn_active p) \<and>
     (\<forall>d. rn_timer p = Some d \<longrightarrow> (\<exists>cycle\<in>cycles. \<exists>s. fst (cycle s) = d))"

lemma runner_step_inv: "runner_step cycles p p' \<Longrightarrow> runner_inv cycles p \<Longrightarrow> runner_inv cycles p'"
proof (induction rule: runner_step.induct)
  case (cycle_ends p cycle)
  obtain d s where c: "cycle (rn_store p) = (d, s)" by fastforce
  from cycle_ends c have "\<exists>cycle\<in>cycles. \<exists>s. fst (cycle s) = d" by (metis fst_conv)
  with cycle_ends c show ?case by (cases "rn_stopping p") (auto simp: runner_inv_def run_end_def)
qed (auto simp: runner_inv_def runner_timer_def run_begin_def runner_shutdown_def runner_drained_def)

lemma runner_reachable_inv: "runner_reachable cycles p \<Longrightarrow> runner_inv cycles p"
proof -
  assume "runner_reachable cycles p"
  then obtain s where "(runner_step cycles)\<^sup>*\<^sup>* (run_begin (runner_start s)) p" by (auto simp: runner_reachable_def)
  then show ?thesis
  proof (induction rule: rtranclp_induct)
    case base
    show ?case by (simp add: runner_inv_def run_begin_def runner_start_def)
  qed (rule runner_step_inv)
qed

text \<open>A runner that is shut down does nothing any more.\<close>

lemma shut_down_stays:
  assumes "runner_step cycles p p'" and "runner_inv cycles p" and "rn_shutdown p = ShutDown"
  shows "p' = p\<lparr>rn_store := rn_store p'\<rparr>"
  using assms by (induction rule: runner_step.induct) (auto simp: runner_inv_def)

section \<open>The health server\<close>

record health_server =
  hs_listening :: bool
  hs_sockets :: "nat set"

definition handleRequest :: "string \<Rightarrow> string \<Rightarrow> nat \<times> string" where
  "handleRequest verb url = (if verb = ''GET'' \<and> url = ''/health'' then (200, ''{\"status\":\"ok\"}'') else (404, []))"

definition socket_opened :: "nat \<Rightarrow> health_server \<Rightarrow> health_server" where
  "socket_opened c h = h\<lparr>hs_sockets := insert c (hs_sockets h)\<rparr>"

definition socket_closed :: "nat \<Rightarrow> health_server \<Rightarrow> health_server" where
  "socket_closed c h = h\<lparr>hs_sockets := hs_sockets h - {c}\<rparr>"

text \<open>
  \<open>stop\<close>: closing waits for the open connections, at most for the timeout, after which they are destroyed.  The
  answer says whether it was forced, or the error of \<open>close\<close>.
\<close>

datatype close_answer = CloseError string | CloseDone | CloseTimeout

definition health_stop :: "close_answer \<Rightarrow> health_server \<Rightarrow> (string + bool) \<times> health_server" where
  "health_stop a h =
     (if \<not> hs_listening h then (Inr False, h)
      else let h1 = h\<lparr>hs_listening := False\<rparr>
           in case a of
                CloseError e \<Rightarrow> (Inl e, h1) | CloseDone \<Rightarrow> (Inr False, h1\<lparr>hs_sockets := {}\<rparr>) | CloseTimeout \<Rightarrow> (Inr True, h1\<lparr>hs_sockets := {}\<rparr>))"

lemma health_stop_ends: "fst (health_stop a h) \<noteq> Inl e \<Longrightarrow> (\<forall>e. a \<noteq> CloseError e) \<Longrightarrow> hs_listening h \<Longrightarrow>
    \<not> hs_listening (snd (health_stop a h)) \<and> hs_sockets (snd (health_stop a h)) = {}"
  by (cases a) (simp_all add: health_stop_def)

section \<open>Certificates\<close>

text \<open>
  The three files of a projected secret have a common version on disk; three reads that run while it changes may
  see different ones.  A read that is under way remembers the version at its start.
\<close>

type_synonym tls_material = "nat \<times> nat \<times> nat"

record mtls_server =
  mt_disk :: nat
  mt_events :: nat
  mt_timer :: bool
  mt_reloading :: "nat option"
  mt_reloadQueued :: bool
  mt_closed :: bool
  mt_context :: tls_material
  mt_failed :: bool

definition one_version :: "nat \<Rightarrow> tls_material" where
  "one_version v = (v, v, v)"

text \<open>\<open>reload\<close> up to its \<open>await\<close>.\<close>

definition reload :: "mtls_server \<Rightarrow> mtls_server" where
  "reload m =
     (if mt_closed m then m
      else if mt_reloading m \<noteq> None then m\<lparr>mt_reloadQueued := True\<rparr>
      else m\<lparr>mt_reloading := Some (mt_disk m)\<rparr>)"

text \<open>The \<open>finally\<close> of \<open>reload\<close>.\<close>

definition reload_done :: "mtls_server \<Rightarrow> mtls_server" where
  "reload_done m =
     (let m1 = m\<lparr>mt_reloading := None\<rparr>
      in if mt_reloadQueued m1 then reload (m1\<lparr>mt_reloadQueued := False\<rparr>) else m1)"

text \<open>The rest of \<open>reload\<close>: \<^const>\<open>None\<close> if a file could not be read; \<^term>\<open>accepts\<close> is \<open>createSecureContext\<close>.\<close>

definition reload_read :: "(tls_material \<Rightarrow> bool) \<Rightarrow> tls_material option \<Rightarrow> mtls_server \<Rightarrow> mtls_server" where
  "reload_read accepts material m =
     (case material of
        None \<Rightarrow> reload_done (m\<lparr>mt_failed := True\<rparr>)
      | Some x \<Rightarrow>
          if \<not> accepts x then reload_done (m\<lparr>mt_failed := True\<rparr>)
          else if mt_closed m then reload_done m
          else reload_done (m\<lparr>mt_context := x, mt_failed := False\<rparr>))"

definition scheduleReload :: "mtls_server \<Rightarrow> mtls_server" where
  "scheduleReload m = (if mt_closed m then m else m\<lparr>mt_timer := True\<rparr>)"

definition mtls_close :: "mtls_server \<Rightarrow> mtls_server" where
  "mtls_close m = m\<lparr>mt_closed := True, mt_timer := False, mt_events := 0\<rparr>"

text \<open>\<open>createInternalMtlsServer\<close>: the first context is read before the directories are watched.\<close>

definition mtls_start :: "tls_material \<Rightarrow> nat \<Rightarrow> mtls_server" where
  "mtls_start x v =
     \<lparr>mt_disk = v, mt_events = 0, mt_timer = False, mt_reloading = None, mt_reloadQueued = False, mt_closed = False,
      mt_context = x, mt_failed = False\<rparr>"

text \<open>Every change of the secret is followed by an event of a watched directory.\<close>

inductive mtls_step :: "(tls_material \<Rightarrow> bool) \<Rightarrow> mtls_server \<Rightarrow> mtls_server \<Rightarrow> bool" for accepts where
  secret_changes: "mtls_step accepts m (m\<lparr>mt_disk := mt_disk m + 1, mt_events := (if mt_closed m then 0 else mt_events m + 1)\<rparr>)"
| event: "mt_events m = Suc n \<Longrightarrow> mtls_step accepts m (scheduleReload (m\<lparr>mt_events := n\<rparr>))"
| stray_event: "mtls_step accepts m (scheduleReload m)"
| timer: "mt_timer m \<Longrightarrow> mtls_step accepts m (reload (m\<lparr>mt_timer := False\<rparr>))"
| read: "mt_reloading m = Some v \<Longrightarrow> {a, b, c} \<subseteq> {v..mt_disk m} \<Longrightarrow> mtls_step accepts m (reload_read accepts (Some (a, b, c)) m)"
| unreadable: "mt_reloading m = Some v \<Longrightarrow> mtls_step accepts m (reload_read accepts None m)"
| close: "mtls_step accepts m (mtls_close m)"

definition mtls_reachable :: "(tls_material \<Rightarrow> bool) \<Rightarrow> mtls_server \<Rightarrow> mtls_server \<Rightarrow> bool" where
  "mtls_reachable accepts m0 m \<longleftrightarrow> (mtls_step accepts)\<^sup>*\<^sup>* m0 m"

text \<open>Whatever is out of date will be looked at again.\<close>

definition watched :: "mtls_server \<Rightarrow> bool" where
  "watched m \<longleftrightarrow> 0 < mt_events m \<or> mt_timer m \<or> mt_reloading m = Some (mt_disk m) \<or> mt_reloading m \<noteq> None \<and> mt_reloadQueued m"

definition mtls_inv :: "(tls_material \<Rightarrow> bool) \<Rightarrow> mtls_server \<Rightarrow> bool" where
  "mtls_inv accepts m \<longleftrightarrow>
     (\<forall>v. mt_reloading m = Some v \<longrightarrow> v \<le> mt_disk m) \<and> (mt_reloadQueued m \<longrightarrow> mt_reloading m \<noteq> None) \<and>
     accepts (mt_context m) \<and>
     (\<not> mt_closed m \<longrightarrow> mt_context m = one_version (mt_disk m) \<or> watched m \<or> mt_failed m) \<and>
     (\<not> mt_closed m \<and> mt_reloading m \<noteq> None \<longrightarrow> watched m) \<and>
     (mt_closed m \<longrightarrow> \<not> mt_timer m \<and> mt_events m = 0)"

lemma reload_done_inv:
  assumes "accepts (mt_context m)" and "mt_closed m \<longrightarrow> \<not> mt_timer m \<and> mt_events m = 0"
    and "\<not> mt_closed m \<and> \<not> mt_reloadQueued m \<longrightarrow> mt_context m = one_version (mt_disk m) \<or> 0 < mt_events m \<or> mt_timer m \<or> mt_failed m"
  shows "mtls_inv accepts (reload_done m)"
proof (cases "mt_reloadQueued m")
  case True
  with assms(1,2) show ?thesis
    by (cases "mt_closed m") (simp_all add: reload_done_def reload_def mtls_inv_def watched_def)
next
  case False
  with assms show ?thesis by (simp add: reload_done_def mtls_inv_def watched_def)
qed

lemma mtls_invD:
  assumes "mtls_inv accepts m"
  shows "accepts (mt_context m)" "mt_closed m \<longrightarrow> \<not> mt_timer m \<and> mt_events m = 0"
    "\<not> mt_closed m \<Longrightarrow> mt_context m = one_version (mt_disk m) \<or> watched m \<or> mt_failed m"
    "\<not> mt_closed m \<Longrightarrow> mt_reloading m \<noteq> None \<Longrightarrow> watched m"
  using assms unfolding mtls_inv_def by blast+

lemma reload_read_inv:
  assumes inv: "mtls_inv accepts m" and v: "mt_reloading m = Some v" and abc: "{a, b, c} \<subseteq> {v..mt_disk m}"
  shows "mtls_inv accepts (reload_read accepts (Some (a, b, c)) m)"
proof (cases "accepts (a, b, c) \<and> \<not> mt_closed m")
  case True
  have "(a, b, c) = one_version (mt_disk m) \<or> 0 < mt_events m \<or> mt_timer m \<or> mt_reloadQueued m"
  proof (cases "v = mt_disk m")
    case True
    with abc show ?thesis by (simp add: one_version_def)
  next
    case False
    with mtls_invD(4) [OF inv] True v show ?thesis by (simp add: watched_def)
  qed
  then have "mtls_inv accepts (reload_done (m\<lparr>mt_context := (a, b, c), mt_failed := False\<rparr>))"
    using True by (intro reload_done_inv) auto
  with True show ?thesis by (simp add: reload_read_def)
next
  case False
  then have "mtls_inv accepts (reload_done (if \<not> accepts (a, b, c) then m\<lparr>mt_failed := True\<rparr> else m))"
    using mtls_invD(1,2) [OF inv] by (intro reload_done_inv) auto
  with False show ?thesis by (auto simp: reload_read_def split: if_splits)
qed

lemma unreadable_inv: "mtls_inv accepts m \<Longrightarrow> mtls_inv accepts (reload_read accepts None m)"
  using mtls_invD(1,2) [of accepts m] by (auto simp: reload_read_def intro!: reload_done_inv)

lemma mtls_step_inv: "mtls_step accepts m m' \<Longrightarrow> mtls_inv accepts m \<Longrightarrow> mtls_inv accepts m'"
proof (induction rule: mtls_step.induct)
  case (read m v a b c)
  then show ?case by (intro reload_read_inv)
next
  case (unreadable m v)
  then show ?case by (intro unreadable_inv)
qed (auto simp: mtls_inv_def watched_def scheduleReload_def reload_def mtls_close_def)

lemma mtls_reachable_inv:
  assumes "mtls_reachable accepts (mtls_start (one_version v) v) m" and "accepts (one_version v)"
  shows "mtls_inv accepts m"
  using assms(1) unfolding mtls_reachable_def
proof (induction rule: rtranclp_induct)
  case base
  show ?case using assms(2) by (simp add: mtls_inv_def mtls_start_def)
qed (rule mtls_step_inv)

text \<open>A change between the first read and the watching of the directories is not noticed.\<close>

lemma missed_before_watching:
  assumes "mtls_start (one_version v) (Suc v) = m"
  shows "mt_context m \<noteq> one_version (mt_disk m) \<and> \<not> watched m \<and> \<not> mt_failed m"
  using assms by (auto simp: mtls_start_def one_version_def watched_def)

section \<open>Properties\<close>

definition runner_cycles :: "worker_settings \<Rightarrow> digest \<Rightarrow> (string \<Rightarrow> string \<Rightarrow> int) \<Rightarrow> (return_state \<Rightarrow> nat \<times> return_state) set" where
  "runner_cycles w dg lc = {c. \<exists>ids now. c = worker_cycle w dg lc ids now \<or> c = legacy_cycle w dg lc ids now}"

lemma cycle_delay: "c \<in> runner_cycles w dg lc \<Longrightarrow> fst (c s) \<in> {wc_pollIntervalMs w, wc_errorBackoffMs w}"
  by (auto simp: runner_cycles_def worker_cycle_def legacy_cycle_def deliver_results_def Let_def split: prod.splits sum.splits)

text \<open>C29 A runner keeps working until it is asked to stop and then stops cleanly: before, either one cycle is
  running or one timer waits, for the polling interval or after a failure for the backoff, never both and never
  neither, so a failed cycle cannot end the loop and cycles never overlap; once asked, no timer is set, the
  shutdown waits for the cycle that is running, and after it the runner never acts again.\<close>

theorem runner_life:
  assumes "runner_reachable (runner_cycles w dg lc) p"
  shows "(\<not> rn_stopping p \<longrightarrow> rn_active p = (rn_timer p = None)) \<and>
    (\<forall>d. rn_timer p = Some d \<longrightarrow> \<not> rn_stopping p \<and> d \<in> {wc_pollIntervalMs w, wc_errorBackoffMs w}) \<and>
    (rn_stopping p \<and> rn_active p \<longrightarrow> rn_shutdown p = Draining) \<and>
    (rn_shutdown p = ShutDown \<longrightarrow> (\<forall>p'. (runner_step (runner_cycles w dg lc))\<^sup>*\<^sup>* p p' \<longrightarrow> p' = p\<lparr>rn_store := rn_store p'\<rparr>))"
proof (intro conjI allI impI)
  have inv: "runner_inv (runner_cycles w dg lc) p" using assms by (rule runner_reachable_inv)
  show "rn_active p = (rn_timer p = None)" if "\<not> rn_stopping p" using inv that by (simp add: runner_inv_def)
  show "\<not> rn_stopping p" if "rn_timer p = Some d" for d using inv that by (auto simp: runner_inv_def)
  show "d \<in> {wc_pollIntervalMs w, wc_errorBackoffMs w}" if "rn_timer p = Some d" for d
    using inv that cycle_delay by (fastforce simp: runner_inv_def)
  show "rn_shutdown p = Draining" if "rn_stopping p \<and> rn_active p"
    using inv that by (cases "rn_shutdown p") (simp_all add: runner_inv_def)
  fix p' assume down: "rn_shutdown p = ShutDown" and "(runner_step (runner_cycles w dg lc))\<^sup>*\<^sup>* p p'"
  from this(2) have "p' = p\<lparr>rn_store := rn_store p'\<rparr> \<and> runner_inv (runner_cycles w dg lc) p'"
  proof (induction rule: rtranclp_induct)
    case (step q q')
    then have "rn_shutdown q = ShutDown" using down by (metis runner.select_convs(4) runner.surjective runner.update_convs(5))
    from shut_down_stays [OF step.hyps(2) _ this] runner_step_inv [OF step.hyps(2)] step.IH show ?case
      by (metis (no_types, lifting) runner.surjective runner.update_convs(5))
  qed (simp add: inv)
  then show "p' = p\<lparr>rn_store := rn_store p'\<rparr>" ..
qed

lemma runner_life_witness:
  "\<exists>p. runner_reachable (runner_cycles default_worker_settings sample_digest by_length) p \<and> rn_shutdown p = ShutDown
    \<and> (\<forall>p'. (runner_step (runner_cycles default_worker_settings sample_digest by_length))\<^sup>*\<^sup>* p p' \<longrightarrow> p' = p\<lparr>rn_store := rn_store p'\<rparr>)"
proof -
  let ?C = "runner_cycles default_worker_settings sample_digest by_length"
    and ?c = "worker_cycle default_worker_settings sample_digest by_length (\<lambda>n. []) 0"
  let ?p1 = "run_begin (runner_start sample_return)"
  let ?p2 = "runner_shutdown ?p1"
  let ?p3 = "run_end ?c ?p2"
  have "?c \<in> ?C" by (auto simp: runner_cycles_def)
  have 2: "runner_step ?C ?p1 ?p2" by (rule runner_step.shutdown) (simp add: run_begin_def runner_start_def)
  have 3: "runner_step ?C ?p2 ?p3"
    using \<open>?c \<in> ?C\<close> by (intro runner_step.cycle_ends) (simp_all add: runner_shutdown_def run_begin_def runner_start_def)
  have s3: "rn_shutdown ?p3 = Draining" "\<not> rn_active ?p3"
    by (simp_all add: run_end_def runner_shutdown_def run_begin_def runner_start_def split: prod.split)
  have "runner_reachable ?C (runner_drained ?p3)"
    unfolding runner_reachable_def using 2 3 runner_step.drained [OF s3, of ?C] by (meson converse_rtranclp_into_rtranclp rtranclp.rtrancl_refl)
  moreover have "rn_shutdown (runner_drained ?p3) = ShutDown" by (simp add: runner_drained_def)
  ultimately show ?thesis using runner_life by blast
qed

text \<open>C40 The server never serves certificates that were not accepted, whatever mixture of versions a reload reads;
  and when it comes to rest after changes of the secret, with nothing reported, scheduled or being read and the
  last reload not failed, it serves exactly the version on disk, however changes, events, timers and reloads
  interleave, as long as nothing changed before the directories were watched.\<close>

theorem certificates_current:
  assumes "accepts (one_version v)" and "mtls_reachable accepts (mtls_start (one_version v) v) m"
  shows "accepts (mt_context m) \<and>
    (\<not> mt_closed m \<and> mt_events m = 0 \<and> \<not> mt_timer m \<and> mt_reloading m = None \<and> \<not> mt_failed m \<longrightarrow>
      mt_context m = one_version (mt_disk m))"
proof -
  have inv: "mtls_inv accepts m" using mtls_reachable_inv [OF assms(2,1)] .
  from mtls_invD(1,3) [OF inv] show ?thesis by (auto simp: watched_def)
qed

lemma certificates_current_witness:
  "\<exists>m. mtls_reachable (\<lambda>x. True) (mtls_start (one_version 1) 1) m \<and> mt_disk m = 2 \<and> mt_context m = one_version 2"
proof -
  let ?A = "\<lambda>x :: tls_material. True" and ?m0 = "mtls_start (one_version 1) 1"
  let ?m1 = "?m0\<lparr>mt_disk := mt_disk ?m0 + 1, mt_events := (if mt_closed ?m0 then 0 else mt_events ?m0 + 1)\<rparr>"
  let ?m2 = "scheduleReload (?m1\<lparr>mt_events := 0\<rparr>)"
  let ?m3 = "reload (?m2\<lparr>mt_timer := False\<rparr>)"
  let ?m4 = "reload_read ?A (Some (2, 2, 2)) ?m3"
  have 1: "mtls_step ?A ?m0 ?m1" by (rule mtls_step.secret_changes)
  have 2: "mtls_step ?A ?m1 ?m2" by (rule mtls_step.event) (simp add: mtls_start_def)
  have 3: "mtls_step ?A ?m2 ?m3" by (rule mtls_step.timer) (simp add: mtls_start_def scheduleReload_def)
  have 4: "mtls_step ?A ?m3 ?m4"
    by (rule mtls_step.read [where v = 2]) (simp_all add: mtls_start_def scheduleReload_def reload_def)
  have reach: "mtls_reachable ?A ?m0 ?m4"
    unfolding mtls_reachable_def using 1 2 3 4 by (meson converse_rtranclp_into_rtranclp rtranclp.rtrancl_refl)
  have end': "mt_disk ?m4 = 2" "\<not> mt_closed ?m4" "mt_events ?m4 = 0" "\<not> mt_timer ?m4" "mt_reloading ?m4 = None" "\<not> mt_failed ?m4"
    by (simp_all add: mtls_start_def scheduleReload_def reload_def reload_read_def reload_done_def)
  from certificates_current [of ?A 1, OF _ reach] end' have "mt_context ?m4 = one_version 2" by simp
  with reach end'(1) show ?thesis by blast
qed

end
