(* ===== verification/DocumentTexts.thy ===== *)
theory DocumentTexts imports ClientApi begin

text \<open>
  What the pages say about a document: sizes, states, credits and failures (\<open>document-failure.ts\<close>,
  \<open>processing-status-utils.ts\<close>, \<open>upload-workspace-utils.ts\<close>, and the copies of these functions in
  \<open>library-browser.tsx\<close> and \<open>document-detail.tsx\<close>).  Texts are written without their accents.  The number format of
  the locale is the argument \<^term>\<open>credits\<close>.
\<close>

section \<open>Sizes\<close>

text \<open>
  \<open>toFixed\<close> of a number that is not negative: the integer nearest to \<open>x * 10 ^ d\<close>, of two the larger one, with
  the point set.  From \<open>10 ^ 21\<close> on it is the plain text of the number.
\<close>

definition to_fixed_digits :: "nat \<Rightarrow> rat \<Rightarrow> nat" where
  "to_fixed_digits d x = nat \<lfloor>x * 10 ^ d + 1 / 2\<rfloor>"

definition pad_left :: "nat \<Rightarrow> string \<Rightarrow> string" where
  "pad_left w s = replicate (w - length s) CHR ''0'' @ s"

definition to_fixed :: "number_text \<Rightarrow> nat \<Rightarrow> rat \<Rightarrow> string" where
  "to_fixed nt d x =
     (if 10 ^ 21 \<le> x then number_str nt x
      else let s = pad_left (Suc d) (nat_str (to_fixed_digits d x))
           in take (length s - d) s @ ''.'' @ drop (length s - d) s)"

text \<open>The loop over the units: the value and the index it stops at.\<close>

fun scale_unit :: "nat \<Rightarrow> nat \<Rightarrow> rat \<Rightarrow> rat \<times> nat" where
  "scale_unit 0 i v = (v, i)"
| "scale_unit (Suc n) i v = (if 1024 \<le> v then scale_unit n (Suc i) (v / 1024) else (v, i))"

definition byte_units :: "string list" where
  "byte_units = [''KB'', ''MB'', ''GB'', ''TB'']"

definition formatBytes :: "number_text \<Rightarrow> rat \<Rightarrow> string" where
  "formatBytes nt sizeBytes =
     (if sizeBytes < 1024 then number_str nt sizeBytes @ '' B''
      else let (v, i) = scale_unit (length byte_units - 1) 0 (sizeBytes / 1024)
           in to_fixed nt (if 10 \<le> v then 1 else 2) v @ '' '' @ byte_units ! i)"

lemma scale_unit_bounds:
  assumes "scale_unit n i v = (w, j)" and "1 \<le> v"
  shows "i \<le> j \<and> j \<le> i + n \<and> w * 1024 ^ (j - i) = v \<and> 1 \<le> w \<and> (w < 1024 \<or> j = i + n)"
  using assms
proof (induction n arbitrary: i v)
  case (Suc n)
  show ?case
  proof (cases "1024 \<le> v")
    case True
    with Suc.prems have "scale_unit n (Suc i) (v / 1024) = (w, j)" "1 \<le> v / 1024" by simp_all
    from Suc.IH [OF this]
    have "Suc i \<le> j \<and> j \<le> Suc i + n \<and> w * 1024 ^ (j - Suc i) = v / 1024 \<and> 1 \<le> w \<and> (w < 1024 \<or> j = Suc i + n)" .
    moreover from this have "j - i = Suc (j - Suc i)" by (intro Suc_diff_Suc [symmetric]) simp
    ultimately show ?thesis by simp
  qed (use Suc in auto)
qed auto

lemma to_fixed_error:
  assumes "0 \<le> x"
  shows "\<bar>of_nat (to_fixed_digits d x) - x * 10 ^ d\<bar> \<le> 1 / 2"
proof -
  let ?y = "x * 10 ^ d + 1 / 2"
  have "0 \<le> \<lfloor>?y\<rfloor>" using assms by simp
  then have "rat_of_nat (to_fixed_digits d x) = of_int \<lfloor>?y\<rfloor>" by (simp add: to_fixed_digits_def)
  moreover have "rat_of_int \<lfloor>?y\<rfloor> \<le> ?y" "?y < of_int \<lfloor>?y\<rfloor> + 1" by linarith+
  ultimately show ?thesis unfolding abs_le_iff by (intro conjI) linarith+
qed

text \<open>A shown size of at least a kibibyte is the size rounded in its unit, and the unit is the one that fits.\<close>

lemma formatted_size:
  assumes "1024 \<le> s" and "s < 1024 * 10 ^ 21"
  shows "\<exists>i w d. i < length byte_units \<and> w * 1024 ^ Suc i = s \<and> 1 \<le> w \<and> (w < 1024 \<or> i = 3) \<and> d = (if 10 \<le> w then 1 else 2) \<and>
    \<bar>of_nat (to_fixed_digits d w) - w * 10 ^ d\<bar> \<le> 1 / 2 \<and> formatBytes nt s = to_fixed nt d w @ '' '' @ byte_units ! i"
proof -
  obtain w i where wi: "scale_unit 3 0 (s / 1024) = (w, i)" by fastforce
  from scale_unit_bounds [OF wi] assms(1) have b: "i \<le> 3" "w * 1024 ^ i = s / 1024" "1 \<le> w" "w < 1024 \<or> i = 3" by auto
  then have e: "w * 1024 ^ Suc i = s" by simp
  have units: "length byte_units - 1 = 3" by (simp add: byte_units_def)
  have "formatBytes nt s = to_fixed nt (if 10 \<le> w then 1 else 2) w @ '' '' @ byte_units ! i"
    using assms(1) by (simp only: formatBytes_def units wi) simp
  with b e to_fixed_error [of w] show ?thesis
    by (intro exI [of _ i] exI [of _ w] exI [of _ "if 10 \<le> w then 1 else 2"]) (auto simp: byte_units_def)
qed

section \<open>States\<close>

datatype shown_type = ShownPdf | ShownText

datatype shown_status = ShownUploaded | ShownProcessing | ShownReady | ShownFailed

definition mapType :: "phase0_document_type \<Rightarrow> shown_type" where
  "mapType t = (if t = Phase0Pdf then ShownPdf else ShownText)"

fun mapStatus :: "document_status \<Rightarrow> shown_status" where
  "mapStatus UPLOADED = ShownUploaded"
| "mapStatus PROCESSING = ShownProcessing"
| "mapStatus READY = ShownReady"
| "mapStatus DOCUMENT_FAILED = ShownFailed"

fun getStatusLabel :: "document_status \<Rightarrow> string" where
  "getStatusLabel UPLOADED = ''Da tai len''"
| "getStatusLabel PROCESSING = ''Dang xu ly''"
| "getStatusLabel READY = ''San sang''"
| "getStatusLabel DOCUMENT_FAILED = ''Xu ly chua thanh cong''"

definition getModelSourceLabel :: "selection_kind option \<Rightarrow> string" where
  "getModelSourceLabel kind =
     (if kind = Some PLAN then ''Co trong goi cua ban'' else if kind = Some CUSTOM then ''API rieng cua ban'' else ''Chua co'')"

definition getEstimateStatusLabel :: "(jsnum \<Rightarrow> string) \<Rightarrow> phase0_document option \<Rightarrow> string" where
  "getEstimateStatusLabel credits document =
     (case document of
        None \<Rightarrow> ''Chua co''
      | Some d \<Rightarrow>
          (if pd_estimateStatus d = None then ''Chua co''
           else case pd_estimatedCredits d of
                  None \<Rightarrow> ''Chua co''
                | Some n \<Rightarrow> if pd_selectedModelKind d = Some CUSTOM then ''Khong dung credit trong goi''
                            else ''Khoang '' @ credits n @ '' credit''))"

definition getSettledCreditsLabel :: "(jsnum \<Rightarrow> string) \<Rightarrow> phase0_document option \<Rightarrow> string" where
  "getSettledCreditsLabel credits document =
     (case Option.bind document pd_settledCredits of
        None \<Rightarrow> if map_option pd_status document = Some DOCUMENT_FAILED then ''Chua ghi nhan'' else ''Dang cho chot''
      | Some n \<Rightarrow> credits n @ '' credit'')"

definition getBudgetStatusLabel :: "phase0_budget_status option \<Rightarrow> string" where
  "getBudgetStatusLabel status =
     (case status of
        Some NOT_RESERVED \<Rightarrow> ''Chua giu credit''
      | Some CUSTOM_ZERO_COST \<Rightarrow> ''Khong dung credit goi''
      | Some BUDGET_SETTLED \<Rightarrow> ''Da chot credit''
      | Some BUDGET_HELD \<Rightarrow> ''Dang giu credit''
      | Some EXHAUSTED \<Rightarrow> ''Da dung het credit''
      | None \<Rightarrow> ''Dang cap nhat'')"

definition getBudgetMessage :: "phase0_document option \<Rightarrow> string" where
  "getBudgetMessage document =
     (case document of
        None \<Rightarrow> ''Sau khi co them du lieu xu ly, trang nay se cap nhat muc uoc tinh va credit chot cuoi cung.''
      | Some d \<Rightarrow>
          (if pd_status d = DOCUMENT_FAILED then
             ''Lan xu ly nay chua thanh cong nen credit chot co the chua xuat hien hoac chua duoc ghi nhan day du.''
           else if pd_selectedModelKind d = Some CUSTOM then
             ''Model API rieng khong dung credit suy luan trong goi. Nha cung cap ban chon co the tinh phi rieng ngoai he thong nay.''
           else if pd_settledCredits d \<noteq> None then
             ''Credit chot cuoi cung da duoc ghi nhan cho lan xu ly nay.''
           else ''Muc credit dang hien thi la uoc tinh ban dau, chua phai so chot cuoi cung.''))"

definition getEstimateSummary :: "(jsnum \<Rightarrow> string) \<Rightarrow> phase0_estimate \<Rightarrow> string" where
  "getEstimateSummary credits e =
     (if pe_selectedModelKind e = CUSTOM then
        ''Tai lieu nay khong dung credit suy luan trong goi. Nha cung cap model rieng cua ban co the tinh phi rieng.''
      else ''Uoc tinh khoang '' @ credits (pe_estimatedCredits e) @ '' credit cho lan xu ly nay.'')"

section \<open>Failures\<close>

record failure_presentation =
  fp_title :: string
  fp_description :: string
  fp_retryable :: bool

definition shown_failure :: "string \<Rightarrow> string \<Rightarrow> bool \<Rightarrow> failure_presentation" where
  "shown_failure title description retryable = \<lparr>fp_title = title, fp_description = description, fp_retryable = retryable\<rparr>"

fun getDocumentFailurePresentation :: "failure_code option \<Rightarrow> failure_presentation" where
  "getDocumentFailurePresentation (Some BUDGET_EXHAUSTED) =
     shown_failure ''Chua the xu ly tai lieu'' ''Ban da dung het credit cho lan nay. Hay cho them roi thu lai sau.'' True"
| "getDocumentFailurePresentation (Some CHUNK_RESOURCE_LIMIT_EXCEEDED) =
     shown_failure ''Tai lieu qua dai hoac qua day'' ''Hay chia nho tai lieu hoac bo bot phan khong can thiet roi tai lai.'' False"
| "getDocumentFailurePresentation (Some EXTRACTION_OBJECT_NOT_FOUND) =
     shown_failure ''Khong tim thay file tai lieu'' ''Hay tai lai dung file roi bat dau lai tu dau.'' False"
| "getDocumentFailurePresentation (Some EXTRACTION_OBJECT_TOO_LARGE) =
     shown_failure ''File qua lon'' ''Hay giam dung luong file hoac tach thanh nhieu file nho hon roi tai lai.'' False"
| "getDocumentFailurePresentation (Some GENERATION_OUTPUT_INVALID) =
     shown_failure ''Chua the tao bo cau hoi on dinh''
       ''Hay thu lai sau. Neu loi lap lai, ban co the rut gon hoac lam ro noi dung tai lieu roi tai lai.'' True"
| "getDocumentFailurePresentation (Some GENERATION_OUTPUT_TRUNCATED) =
     shown_failure ''Chua the tao bo cau hoi hoan chinh'' ''Hay thu lai sau de tao lai bo cau hoi.'' True"
| "getDocumentFailurePresentation (Some INSUFFICIENT_QUESTIONS) =
     shown_failure ''Noi dung chua du de tao cau hoi'' ''Hay bo sung them noi dung ro rang, co y chinh day du roi tai lai.'' False"
| "getDocumentFailurePresentation (Some PDF_INVALID) =
     shown_failure ''File PDF khong hop le'' ''Hay mo lai file, xuat hoac luu thanh PDF hop le roi tai lai.'' False"
| "getDocumentFailurePresentation (Some PDF_TEXT_NOT_FOUND) =
     shown_failure ''PDF chua co phan chu de doc'' ''Hay dung PDF co the chon duoc chu hoac them OCR truoc khi tai lai.'' False"
| "getDocumentFailurePresentation (Some PROCESSING_FAILED) =
     shown_failure ''Chua the xu ly tai lieu'' ''Hay kiem tra lai file va noi dung roi tai lai mot ban phu hop hon.'' False"
| "getDocumentFailurePresentation (Some PROCESSING_TIMED_OUT) =
     shown_failure ''Xu ly mat lau hon du kien'' ''Hay thu lai sau. Neu van cham, ban co the rut gon tai lieu roi tai lai.'' True"
| "getDocumentFailurePresentation (Some PROVIDER_UNAVAILABLE) =
     shown_failure ''He thong dang ban'' ''Hay cho mot luc roi thu lai sau.'' True"
| "getDocumentFailurePresentation None =
     shown_failure ''Chua the xu ly tai lieu'' ''Hay thu lai sau hoac tai lai file neu tinh trang nay tiep tuc.'' False"

text \<open>The page says that a retry can help exactly when it offers one, and so does the backend's answer.\<close>

lemma failure_retry_shown:
  "fp_retryable (getDocumentFailurePresentation c) = isRetryableDocumentFailureCode c"
  "isRetryableDocumentFailureCode c = isDocumentProcessingFailureRetryable c"
  by (cases c rule: getDocumentFailurePresentation.cases;
      simp add: shown_failure_def isRetryableDocumentFailureCode_def isDocumentProcessingFailureRetryable_def)+

end
