(* ===== verification/QueryText.thy ===== *)
theory QueryText imports Prelude begin

text \<open>
  \<open>URLSearchParams\<close> of the language's platform, as the library page uses it: the text of a list of parameters, the
  parameters of a text, and \<open>get\<close>, \<open>set\<close> and \<open>delete\<close>.  The text is in the \<open>application/x-www-form-urlencoded\<close> format:
  UTF-8 bytes, escaped but for letters, digits and four signs.  Reading a text gives \<^const>\<open>None\<close> if a name or value has
  a character the model's strings cannot hold.
\<close>

section \<open>Bytes\<close>

definition utf8_char :: "char \<Rightarrow> nat list" where
  "utf8_char c = (let n = of_char c :: nat in if n < 128 then [n] else [192 + n div 64, 128 + n mod 64])"

definition utf8_bytes :: "string \<Rightarrow> nat list" where
  "utf8_bytes s = concat (map utf8_char s)"

fun utf8_text :: "nat list \<Rightarrow> string option" where
  "utf8_text [] = Some []"
| "utf8_text [b] = (if b < 128 then Some [char_of b] else None)"
| "utf8_text (b # b' # bs) =
     (if b < 128 then map_option (Cons (char_of b)) (utf8_text (b' # bs))
      else if (b = 194 \<or> b = 195) \<and> 128 \<le> b' \<and> b' < 192
      then map_option (Cons (char_of (64 * (b - 192) + (b' - 128)))) (utf8_text bs) else None)"

lemma of_char_less: "(of_char c :: nat) < 256"
  by (metis mod_less_divisor of_char_mod_256 zero_less_numeral)

lemma utf8_bytes_simps [simp]: "utf8_bytes [] = []" "utf8_bytes (c # s) = utf8_char c @ utf8_bytes s"
  "utf8_bytes (s @ t) = utf8_bytes s @ utf8_bytes t"
  by (simp_all add: utf8_bytes_def)

lemma utf8_round_trip: "utf8_text (utf8_bytes s) = Some s"
proof (induction s)
  case (Cons c s)
  let ?n = "of_char c :: nat"
  have n: "?n < 256" by (rule of_char_less)
  show ?case
  proof (cases "?n < 128")
    case True
    then have "utf8_bytes (c # s) = ?n # utf8_bytes s" by (simp add: utf8_char_def)
    with True Cons show ?thesis by (cases "utf8_bytes s") auto
  next
    case False
    have n': "64 * (?n div 64) + ?n mod 64 = ?n" by (rule mult_div_mod_eq)
    from False n have "?n div 64 = 2 \<or> ?n div 64 = 3" by arith
    then have "?n div 64 = 2 \<and> 128 + ?n mod 64 = ?n \<or> ?n div 64 = 3 \<and> 192 + ?n mod 64 = ?n"
      using n' by linarith
    then have "?n div 64 = 2 \<and> char_of (128 + ?n mod 64) = c \<or> ?n div 64 = 3 \<and> char_of (192 + ?n mod 64) = c"
      by (elim disjE) (simp_all only: char_of_char simp_thms)
    with False Cons show ?thesis by (auto simp: utf8_char_def)
  qed
qed simp

lemma utf8_ascii: "(\<And>b. b \<in> set bs \<Longrightarrow> b < 128) \<Longrightarrow> utf8_bytes (map char_of bs) = bs"
proof (induction bs)
  case (Cons b bs)
  then have "b < 128" "utf8_bytes (map char_of bs) = bs" by auto
  then show ?case by (simp add: utf8_char_def)
qed simp

lemma utf8_less: "b \<in> set (utf8_bytes s) \<Longrightarrow> b < 256"
proof (induction s)
  case (Cons c s)
  have "(of_char c :: nat) < 256" by (rule of_char_less)
  then have "(of_char c :: nat) div 64 < 64" by arith
  with \<open>(of_char c :: nat) < 256\<close> have "b < 256" if "b \<in> set (utf8_char c)"
    using that by (auto simp: utf8_char_def Let_def split: if_splits)
  with Cons show ?case by auto
qed simp

section \<open>Escapes\<close>

definition plain_byte :: "nat \<Rightarrow> bool" where
  "plain_byte b \<longleftrightarrow> 48 \<le> b \<and> b \<le> 57 \<or> 65 \<le> b \<and> b \<le> 90 \<or> 97 \<le> b \<and> b \<le> 122 \<or> b \<in> {42, 45, 46, 95}"

definition hex_upper :: "nat \<Rightarrow> nat" where
  "hex_upper d = (if d < 10 then 48 + d else 55 + d)"

definition escape_byte :: "nat \<Rightarrow> nat list" where
  "escape_byte b = (if plain_byte b then [b] else if b = 32 then [43] else [37, hex_upper (b div 16), hex_upper (b mod 16)])"

definition form_encode :: "string \<Rightarrow> string" where
  "form_encode s = map char_of (concat (map escape_byte (utf8_bytes s)))"

definition hex_digit :: "nat \<Rightarrow> nat option" where
  "hex_digit b =
     (if 48 \<le> b \<and> b \<le> 57 then Some (b - 48) else if 65 \<le> b \<and> b \<le> 70 then Some (b - 55)
      else if 97 \<le> b \<and> b \<le> 102 then Some (b - 87) else None)"

fun percent_decode :: "nat list \<Rightarrow> nat list" where
  "percent_decode [] = []"
| "percent_decode [c] = [c]"
| "percent_decode [c, a] = [c, a]"
| "percent_decode (c # a # b # r) =
     (if c = 37 \<and> hex_digit a \<noteq> None \<and> hex_digit b \<noteq> None
      then (16 * the (hex_digit a) + the (hex_digit b)) # percent_decode r
      else c # percent_decode (a # b # r))"

definition plus_space :: "nat list \<Rightarrow> nat list" where
  "plus_space = map (\<lambda>b. if b = 43 then 32 else b)"

definition form_decode :: "string \<Rightarrow> string option" where
  "form_decode s = utf8_text (percent_decode (plus_space (utf8_bytes s)))"

lemma hex_digit_upper: "d < 16 \<Longrightarrow> hex_digit (hex_upper d) = Some d"
  by (auto simp: hex_digit_def hex_upper_def)

lemma percent_decode_plain: "c \<noteq> 37 \<Longrightarrow> percent_decode (c # bs) = c # percent_decode bs"
  by (cases bs; cases "tl bs") auto

lemma percent_decode_escape:
  "hex_digit a = Some x \<Longrightarrow> hex_digit b = Some y \<Longrightarrow> percent_decode (37 # a # b # r) = (16 * x + y) # percent_decode r"
  by simp

lemma escape_decoded:
  assumes "b < 256"
  shows "percent_decode (plus_space (escape_byte b) @ r) = b # percent_decode r"
proof -
  have d: "b div 16 < 16" "b mod 16 < 16" using assms by auto
  then have "hex_upper (b div 16) \<noteq> 43" "hex_upper (b mod 16) \<noteq> 43" by (auto simp: hex_upper_def)
  then have "plus_space [37, hex_upper (b div 16), hex_upper (b mod 16)] = [37, hex_upper (b div 16), hex_upper (b mod 16)]"
    by (simp add: plus_space_def)
  with percent_decode_escape [OF hex_digit_upper [OF d(1)] hex_digit_upper [OF d(2)], of r]
  have e: "percent_decode (plus_space [37, hex_upper (b div 16), hex_upper (b mod 16)] @ r) = b # percent_decode r" by simp
  consider "plain_byte b" | "\<not> plain_byte b" "b = 32" | "\<not> plain_byte b" "b \<noteq> 32" by blast
  then show ?thesis
  proof cases
    case 1
    then have "b \<noteq> 37" "b \<noteq> 43" by (auto simp: plain_byte_def)
    with 1 show ?thesis by (simp add: escape_byte_def plus_space_def percent_decode_plain)
  next
    case 2
    then show ?thesis by (simp add: escape_byte_def plus_space_def percent_decode_plain)
  next
    case 3
    with e show ?thesis by (simp only: escape_byte_def if_False)
  qed
qed

lemma escapes_decoded: "(\<And>b. b \<in> set bs \<Longrightarrow> b < 256) \<Longrightarrow> percent_decode (plus_space (concat (map escape_byte bs))) = bs"
proof (induction bs)
  case (Cons b bs)
  have "plus_space (concat (map escape_byte (b # bs))) = plus_space (escape_byte b) @ plus_space (concat (map escape_byte bs))"
    by (simp add: plus_space_def)
  with Cons escape_decoded [of b] show ?case by simp
qed (simp add: plus_space_def)

lemma escape_bytes:
  assumes "b < 256" and "x \<in> set (escape_byte b)"
  shows "x < 128 \<and> x \<noteq> 38 \<and> x \<noteq> 61"
proof -
  have h: "hex_upper d < 128 \<and> hex_upper d \<noteq> 38 \<and> hex_upper d \<noteq> 61" if "d < 16" for d using that by (auto simp: hex_upper_def)
  have "b div 16 < 16" "b mod 16 < 16" using assms(1) by auto
  with assms(2) h show ?thesis by (auto simp: escape_byte_def plain_byte_def split: if_splits)
qed

lemma form_round_trip: "form_decode (form_encode s) = Some s"
proof -
  let ?bs = "utf8_bytes s"
  have "b < 128" if "b \<in> set (concat (map escape_byte ?bs))" for b
  proof -
    from that obtain b' where "b' \<in> set ?bs" "b \<in> set (escape_byte b')" by auto
    with escape_bytes [of b' b] utf8_less [of b' s] show ?thesis by blast
  qed
  then have "utf8_bytes (form_encode s) = concat (map escape_byte ?bs)" unfolding form_encode_def by (intro utf8_ascii)
  moreover have "percent_decode (plus_space (concat (map escape_byte ?bs))) = ?bs"
    using utf8_less [of _ s] by (intro escapes_decoded)
  ultimately show ?thesis unfolding form_decode_def by (simp only: utf8_round_trip)
qed

lemma form_encode_chars: "CHR ''&'' \<notin> set (form_encode s)" "CHR ''='' \<notin> set (form_encode s)"
proof -
  have "(of_char c :: nat) \<noteq> 38 \<and> (of_char c :: nat) \<noteq> 61" if "c \<in> set (form_encode s)" for c
  proof -
    from that obtain b x where b: "b \<in> set (utf8_bytes s)" and x: "x \<in> set (escape_byte b)" and c: "c = char_of x"
      by (auto simp: form_encode_def)
    from escape_bytes [OF utf8_less [OF b] x] show ?thesis unfolding c by simp
  qed
  then show "CHR ''&'' \<notin> set (form_encode s)" "CHR ''='' \<notin> set (form_encode s)" by force+
qed

section \<open>Parameters\<close>

type_synonym search_params = "(string \<times> string) list"

definition params_text :: "search_params \<Rightarrow> string" where
  "params_text ps = join_with ''&'' (map (\<lambda>(k, v). form_encode k @ ''='' @ form_encode v) ps)"

definition param_of :: "string \<Rightarrow> (string \<times> string) option" where
  "param_of s =
     (let k = takeWhile (\<lambda>c. c \<noteq> CHR ''='') s
      in Option.bind (form_decode k) (\<lambda>k'. map_option (Pair k') (form_decode (drop (Suc (length k)) s))))"

definition params_of :: "string \<Rightarrow> search_params option" where
  "params_of q = those (map param_of (filter (\<lambda>s. s \<noteq> []) (split_char (CHR ''&'') q)))"

definition params_get :: "string \<Rightarrow> search_params \<Rightarrow> string option" where
  "params_get k ps = map_of ps k"

definition params_delete :: "string \<Rightarrow> search_params \<Rightarrow> search_params" where
  "params_delete k = filter (\<lambda>p. fst p \<noteq> k)"

text \<open>\<open>set\<close> gives the first parameter of the name the value and drops the others, or adds one at the end.\<close>

fun params_set :: "string \<Rightarrow> string \<Rightarrow> search_params \<Rightarrow> search_params" where
  "params_set k v [] = [(k, v)]"
| "params_set k v (p # ps) = (if fst p = k then (k, v) # params_delete k ps else p # params_set k v ps)"

lemma params_get_delete [simp]: "params_get k (params_delete k' ps) = (if k = k' then None else params_get k ps)"
  by (induction ps) (auto simp: params_get_def params_delete_def)

lemma params_get_set [simp]: "params_get k (params_set k' v ps) = (if k = k' then Some v else params_get k ps)"
proof (induction ps)
  case (Cons p ps)
  then show ?case using params_get_delete [of k k' ps] by (cases p) (auto simp: params_get_def)
qed (simp add: params_get_def)

lemma split_join:
  assumes "\<And>x. x \<in> set xs \<Longrightarrow> c \<notin> set x"
  shows "xs \<noteq> [] \<Longrightarrow> split_char c (join_with [c] xs) = xs"
  using assms
proof (induction "[c]" xs rule: join_with.induct)
  case (3 x y ys)
  have "split_char c (a @ c # r) = a # split_char c r" if "c \<notin> set a" for a r
    using that by (induction a) auto
  with 3 show ?case by simp
next
  case (2 x)
  have "split_char c a = [a]" if "c \<notin> set a" for a using that by (induction a) auto
  with 2 show ?case by simp
qed simp

lemma param_round_trip: "param_of (form_encode k @ ''='' @ form_encode v) = Some (k, v)"
proof -
  have "takeWhile (\<lambda>c. c \<noteq> CHR ''='') (form_encode k @ ''='' @ form_encode v) = form_encode k"
    using form_encode_chars(2) [of k] by (subst takeWhile_append2) auto
  then show ?thesis by (simp add: param_of_def form_round_trip Let_def)
qed

text \<open>The text of every list of parameters is read back as it was.\<close>

lemma params_round_trip: "params_of (params_text ps) = Some ps"
proof (cases ps)
  case (Cons p ps')
  let ?f = "\<lambda>(k, v). form_encode k @ ''='' @ form_encode v"
  have "CHR ''&'' \<notin> set (?f x)" for x using form_encode_chars(1) by (auto split: prod.split)
  then have "split_char (CHR ''&'') (params_text ps) = map ?f ps"
    unfolding params_text_def using Cons by (intro split_join) auto
  moreover have "filter (\<lambda>s. s \<noteq> []) (map ?f ps) = map ?f ps" by (rule filter_True) auto
  moreover have "map param_of (map ?f ps) = map Some ps"
    unfolding map_map comp_def using param_round_trip by (intro map_cong refl) (auto split: prod.split)
  moreover have "those (map Some xs) = Some xs" for xs :: search_params by (induction xs) auto
  ultimately show ?thesis unfolding params_of_def by (simp only:)
qed (simp add: params_of_def params_text_def)

end
