(* ===== verification/LibraryView.thy ===== *)
theory LibraryView imports DocumentTexts DocumentPolling QueryText begin

text \<open>
  The library page, \<open>components/library/library-browser.tsx\<close>: the documents of the owner as they are loaded, filtered,
  sorted and shown, with every choice kept in the address of the page.  \<^term>\<open>lc\<close> is \<open>localeCompare\<close> with the locale
  \<open>vi\<close>, \<^term>\<open>time_of\<close> the time of \<open>new Date\<close> of a text (NaN if it is none).
\<close>

section \<open>Documents\<close>

record library_document =
  ld_id :: string
  ld_originalName :: string
  ld_type :: shown_type
  ld_status :: shown_status
  ld_sizeBytes :: jsnum
  ld_language :: "string option"
  ld_pageCount :: "jsnum option"
  ld_durationSec :: "jsnum option"
  ld_errorCode :: "failure_code option"
  ld_createdAt :: string
  ld_updatedAt :: string

definition toPresentationDocument :: "phase0_document \<Rightarrow> library_document" where
  "toPresentationDocument d =
     \<lparr>ld_id = pd_id d, ld_originalName = pd_originalName d, ld_type = mapType (pd_type d), ld_status = mapStatus (pd_status d),
      ld_sizeBytes = pd_sizeBytes d, ld_language = pd_language d, ld_pageCount = pd_pageCount d,
      ld_durationSec = pd_durationSec d, ld_errorCode = pd_errorCode d, ld_createdAt = pd_createdAt d,
      ld_updatedAt = pd_updatedAt d\<rparr>"

datatype library_sort = SortRecent | SortName | SortStatus | SortUpdated

datatype library_view = GridView | ListView

datatype type_filter = AnyType | OnlyType phase0_document_type

datatype status_filter = AnyStatus | OnlyStatus document_status

definition normalizeSort :: "string option \<Rightarrow> library_sort" where
  "normalizeSort v =
     (if v = Some ''updated'' then SortUpdated else if v = Some ''name'' then SortName
      else if v = Some ''status'' then SortStatus else SortRecent)"

definition normalizeView :: "string option \<Rightarrow> library_view" where
  "normalizeView v = (if v = Some ''list'' then ListView else GridView)"

definition normalizeTypeFilter :: "string option \<Rightarrow> type_filter" where
  "normalizeTypeFilter v =
     (if v = Some ''PDF'' then OnlyType Phase0Pdf else if v = Some ''TEXT'' then OnlyType Phase0Text else AnyType)"

definition normalizeStatusFilter :: "string option \<Rightarrow> status_filter" where
  "normalizeStatusFilter v =
     (if v = Some ''UPLOADED'' then OnlyStatus UPLOADED else if v = Some ''PROCESSING'' then OnlyStatus PROCESSING
      else if v = Some ''READY'' then OnlyStatus READY else if v = Some ''FAILED'' then OnlyStatus DOCUMENT_FAILED
      else AnyStatus)"

fun STATUS_ORDER :: "shown_status \<Rightarrow> int" where
  "STATUS_ORDER ShownReady = 0"
| "STATUS_ORDER ShownProcessing = 1"
| "STATUS_ORDER ShownUploaded = 2"
| "STATUS_ORDER ShownFailed = 3"

text \<open>The comparator of \<open>sortDocuments\<close>: a difference that is NaN counts as none.\<close>

definition document_order ::
  "(string \<Rightarrow> string \<Rightarrow> int) \<Rightarrow> (string \<Rightarrow> jsnum) \<Rightarrow> library_sort \<Rightarrow> library_document \<Rightarrow> library_document \<Rightarrow> int" where
  "document_order lc time_of key left right =
     (case key of
        SortName \<Rightarrow> lc (ld_originalName left) (ld_originalName right)
      | SortStatus \<Rightarrow> STATUS_ORDER (ld_status left) - STATUS_ORDER (ld_status right)
      | SortUpdated \<Rightarrow> js_diff_sign (time_of (ld_updatedAt right)) (time_of (ld_updatedAt left))
      | SortRecent \<Rightarrow> js_diff_sign (time_of (ld_createdAt right)) (time_of (ld_createdAt left)))"

definition sortDocuments ::
  "(string \<Rightarrow> string \<Rightarrow> int) \<Rightarrow> (string \<Rightarrow> jsnum) \<Rightarrow> library_sort \<Rightarrow> library_document list \<Rightarrow> library_document list" where
  "sortDocuments lc time_of key ds = js_sort (document_order lc time_of key) ds"

text \<open>\<open>includes\<close> of a string.\<close>

definition js_includes :: "string \<Rightarrow> string \<Rightarrow> bool" where
  "js_includes s p \<longleftrightarrow> list_ex (\<lambda>i. starts_with p (drop i s)) [0..<Suc (length s)]"

definition filterDocuments :: "string \<Rightarrow> type_filter \<Rightarrow> status_filter \<Rightarrow> library_document list \<Rightarrow> library_document list" where
  "filterDocuments searchTerm typeFilter statusFilter =
     (let normalizedSearch = js_lower (js_trim searchTerm)
      in filter (\<lambda>d.
           (normalizedSearch = [] \<or> js_includes (js_lower (ld_originalName d)) normalizedSearch \<or>
            js_includes (js_lower (ld_id d)) normalizedSearch \<or>
            js_includes (js_lower (case ld_language d of None \<Rightarrow> [] | Some l \<Rightarrow> l)) normalizedSearch) \<and>
           (case typeFilter of AnyType \<Rightarrow> True | OnlyType t \<Rightarrow> if t = Phase0Pdf then ld_type d = ShownPdf else ld_type d = ShownText) \<and>
           (case statusFilter of AnyStatus \<Rightarrow> True | OnlyStatus s \<Rightarrow> ld_status d = mapStatus s)))"

section \<open>The address\<close>

definition library_path :: string where
  "library_path = ''/library''"

definition buildLibraryUrl :: "string \<Rightarrow> search_params \<Rightarrow> string" where
  "buildLibraryUrl pathname ps = (let query = params_text ps in if query \<noteq> [] then pathname @ ''?'' @ query else pathname)"

text \<open>The page's entries of the history, the current one apart.\<close>

record library_page =
  lp_url :: string
  lp_history :: "string list"
  lp_documents :: "library_document list"
  lp_isLoading :: bool
  lp_error :: "string option"
  lp_cancelled :: bool

definition url_params :: "library_page \<Rightarrow> search_params option" where
  "url_params p = params_of (drop (Suc (length (takeWhile (\<lambda>c. c \<noteq> CHR ''?'') (lp_url p)))) (lp_url p))"

definition url_param :: "string \<Rightarrow> library_page \<Rightarrow> string option" where
  "url_param k p = Option.bind (url_params p) (params_get k)"

definition searchTerm :: "library_page \<Rightarrow> string" where
  "searchTerm p = (case url_param ''q'' p of None \<Rightarrow> [] | Some v \<Rightarrow> v)"

definition typeFilter :: "library_page \<Rightarrow> type_filter" where
  "typeFilter p = normalizeTypeFilter (url_param ''type'' p)"

definition statusFilter :: "library_page \<Rightarrow> status_filter" where
  "statusFilter p = normalizeStatusFilter (url_param ''status'' p)"

definition sortKey :: "library_page \<Rightarrow> library_sort" where
  "sortKey p = normalizeSort (url_param ''sort'' p)"

definition libraryView :: "library_page \<Rightarrow> library_view" where
  "libraryView p = normalizeView (url_param ''view'' p)"

definition filteredDocuments :: "(string \<Rightarrow> string \<Rightarrow> int) \<Rightarrow> (string \<Rightarrow> jsnum) \<Rightarrow> library_page \<Rightarrow> library_document list" where
  "filteredDocuments lc time_of p =
     sortDocuments lc time_of (sortKey p) (filterDocuments (searchTerm p) (typeFilter p) (statusFilter p) (lp_documents p))"

definition activeFilterCount :: "library_page \<Rightarrow> nat" where
  "activeFilterCount p =
     (if typeFilter p \<noteq> AnyType then 1 else 0) + (if statusFilter p \<noteq> AnyStatus then 1 else 0)
     + (if js_trim (searchTerm p) \<noteq> [] then 1 else 0)"

datatype search_update_mode = Push | Replace

definition navigate :: "search_update_mode \<Rightarrow> string \<Rightarrow> library_page \<Rightarrow> library_page" where
  "navigate mode url p =
     (case mode of Replace \<Rightarrow> p\<lparr>lp_url := url\<rparr> | Push \<Rightarrow> p\<lparr>lp_url := url, lp_history := lp_url p # lp_history p\<rparr>)"

definition apply_update :: "string \<times> string option \<Rightarrow> search_params \<Rightarrow> search_params" where
  "apply_update u ps =
     (case snd u of
        None \<Rightarrow> params_delete (fst u) ps
      | Some v \<Rightarrow> if v = [] \<or> v = ''all'' then params_delete (fst u) ps else params_set (fst u) v ps)"

text \<open>The copy is made from the text of the parameters.\<close>

definition updateSearchParams :: "(string \<times> string option) list \<Rightarrow> search_update_mode \<Rightarrow> library_page \<Rightarrow> library_page" where
  "updateSearchParams updates mode p =
     (case Option.bind (url_params p) (\<lambda>ps. params_of (params_text ps)) of
        None \<Rightarrow> p
      | Some nextParams \<Rightarrow> navigate mode (buildLibraryUrl library_path (fold apply_update updates nextParams)) p)"

definition clearFilters :: "library_page \<Rightarrow> library_page" where
  "clearFilters = navigate Push library_path"

section \<open>The page\<close>

definition library_opened :: "search_params \<Rightarrow> string list \<Rightarrow> library_page" where
  "library_opened ps before =
     \<lparr>lp_url = buildLibraryUrl library_path ps, lp_history = before, lp_documents = [], lp_isLoading = True,
      lp_error = None, lp_cancelled = False\<rparr>"

definition library_error_message :: "client_error \<Rightarrow> string" where
  "library_error_message e =
     (case e of
        Phase0Error n se \<Rightarrow> se_message se
      | PlainError m \<Rightarrow> if js_trim m \<noteq> [] then m else ''Chua the tai thu vien luc nay.''
      | NoError \<Rightarrow> ''Chua the tai thu vien luc nay.'')"

text \<open>The rest of \<open>load\<close> after its \<open>await\<close>.\<close>

definition library_answered :: "client_error + phase0_document list \<Rightarrow> library_page \<Rightarrow> library_page" where
  "library_answered a p =
     (if lp_cancelled p then p
      else (case a of
              Inr response \<Rightarrow> p\<lparr>lp_documents := map toPresentationDocument response, lp_isLoading := False\<rparr>
            | Inl e \<Rightarrow> p\<lparr>lp_error := Some (library_error_message e), lp_isLoading := False\<rparr>))"

definition library_closed :: "library_page \<Rightarrow> library_page" where
  "library_closed p = p\<lparr>lp_cancelled := True\<rparr>"

definition library_back :: "library_page \<Rightarrow> library_page" where
  "library_back p = (case lp_history p of [] \<Rightarrow> p | u # us \<Rightarrow> p\<lparr>lp_url := u, lp_history := us\<rparr>)"

definition search_changed :: "string \<Rightarrow> library_page \<Rightarrow> library_page" where
  "search_changed v = updateSearchParams [(''q'', if v = [] then None else Some v)] Replace"

definition type_changed :: "string \<Rightarrow> library_page \<Rightarrow> library_page" where
  "type_changed v = updateSearchParams [(''type'', Some v)] Push"

definition status_changed :: "string \<Rightarrow> library_page \<Rightarrow> library_page" where
  "status_changed v = updateSearchParams [(''status'', Some v)] Push"

definition sort_changed :: "string \<Rightarrow> library_page \<Rightarrow> library_page" where
  "sort_changed v = updateSearchParams [(''sort'', Some v)] Push"

definition view_changed :: "string \<Rightarrow> library_page \<Rightarrow> library_page" where
  "view_changed v = updateSearchParams [(''view'', Some v)] Push"

inductive library_step :: "library_page \<Rightarrow> library_page \<Rightarrow> bool" where
  "library_step p (search_changed v p)"
| "v \<in> {''all'', ''PDF'', ''TEXT''} \<Longrightarrow> library_step p (type_changed v p)"
| "v \<in> {''all'', ''READY'', ''PROCESSING'', ''UPLOADED'', ''FAILED''} \<Longrightarrow> library_step p (status_changed v p)"
| "v \<in> {''recent'', ''updated'', ''name'', ''status''} \<Longrightarrow> library_step p (sort_changed v p)"
| "v \<in> {''grid'', ''list''} \<Longrightarrow> library_step p (view_changed v p)"
| "library_step p (clearFilters p)"
| "lp_history p \<noteq> [] \<Longrightarrow> library_step p (library_back p)"
| "lp_isLoading p \<Longrightarrow> library_step p (library_answered a p)"
| "library_step p (library_closed p)"

text \<open>
  The card of a document.  \<^term>\<open>date_text\<close> is \<open>formatDateTime\<close>, \<^term>\<open>nt\<close> the text of a number.
\<close>

record library_card =
  lc_type :: shown_type
  lc_status :: shown_status
  lc_href :: string
  lc_title :: string
  lc_dates :: string
  lc_specs :: "(string \<times> string) list"
  lc_notice :: "string option"
  lc_failure :: "(string \<times> string) option"
  lc_links :: "(string \<times> string) list"

definition size_text :: "number_text \<Rightarrow> jsnum \<Rightarrow> string" where
  "size_text nt n =
     (case n of JFin r \<Rightarrow> formatBytes nt r | JNaN \<Rightarrow> ''NaN KB'' | JPosInf \<Rightarrow> ''Infinity TB'' | JNegInf \<Rightarrow> ''-Infinity B'')"

definition number_shown :: "number_text \<Rightarrow> jsnum \<Rightarrow> string" where
  "number_shown nt n =
     (case n of JFin r \<Rightarrow> number_str nt r | JNaN \<Rightarrow> ''NaN'' | JPosInf \<Rightarrow> ''Infinity'' | JNegInf \<Rightarrow> ''-Infinity'')"

definition LibraryDocumentCard :: "(string \<Rightarrow> string) \<Rightarrow> number_text \<Rightarrow> library_document \<Rightarrow> library_card" where
  "LibraryDocumentCard date_text nt d =
     (let failurePresentation =
        (if ld_status d = ShownFailed then Some (getDocumentFailurePresentation (ld_errorCode d)) else None)
      in \<lparr>lc_type = ld_type d, lc_status = ld_status d, lc_href = ''/library/'' @ ld_id d, lc_title = ld_originalName d,
          lc_dates = ''Tao '' @ date_text (ld_createdAt d) @ '' - Cap nhat '' @ date_text (ld_updatedAt d),
          lc_specs =
            [(''Kich thuoc'', size_text nt (ld_sizeBytes d)),
             (''Ngon ngu'', case ld_language d of None \<Rightarrow> ''Chua co'' | Some l \<Rightarrow> l),
             (''So trang'', case ld_pageCount d of None \<Rightarrow> ''Chua co'' | Some n \<Rightarrow> number_shown nt n)],
          lc_notice =
            (if ld_status d = ShownProcessing
             then Some ''Tai lieu nay van dang duoc xu ly. Mo chi tiet de theo doi them.'' else None),
          lc_failure = map_option (\<lambda>f. (fp_title f, fp_description f)) failurePresentation,
          lc_links =
            [(''Xem chi tiet'', ''/library/'' @ ld_id d)]
            @ (if ld_status d = ShownProcessing then [(''Theo doi xu ly'', ''/processing/'' @ ld_id d)] else [])
            @ [(''Tai tai lieu khac'', ''/upload'')]\<rparr>)"

section \<open>Sorting\<close>

text \<open>The sort keeps the order of elements that compare equal, and leaves a sorted list as it is.\<close>

lemma filter_insert_by_other: "\<not> P x \<Longrightarrow> filter P (insert_by cmp x ys) = filter P ys"
  by (induction ys) auto

lemma filter_insert_by: "P x \<Longrightarrow> (\<And>y. y \<in> set ys \<Longrightarrow> P y \<Longrightarrow> cmp x y \<le> 0) \<Longrightarrow> filter P (insert_by cmp x ys) = x # filter P ys"
  by (induction ys) auto

lemma js_sort_Cons: "js_sort cmp (x # xs) = insert_by cmp x (js_sort cmp xs)"
  by (simp add: js_sort_def)

lemma js_sort_stable:
  assumes "\<And>x y. x \<in> set xs \<Longrightarrow> y \<in> set xs \<Longrightarrow> P x \<Longrightarrow> P y \<Longrightarrow> cmp x y \<le> 0"
  shows "filter P (js_sort cmp xs) = filter P xs"
  using assms
proof (induction xs)
  case (Cons x xs)
  then have IH: "filter P (js_sort cmp xs) = filter P xs" by simp
  show ?case
  proof (cases "P x")
    case True
    with Cons.prems have "filter P (insert_by cmp x (js_sort cmp xs)) = x # filter P (js_sort cmp xs)"
      by (intro filter_insert_by) auto
    with True IH show ?thesis by (simp add: js_sort_Cons)
  qed (simp add: js_sort_Cons filter_insert_by_other IH)
qed (simp add: js_sort_def)

lemma js_sort_sorted: "sorted_wrt (\<lambda>x y. cmp x y \<le> 0) xs \<Longrightarrow> js_sort cmp xs = xs"
proof (induction xs)
  case (Cons x xs)
  then have "js_sort cmp (x # xs) = insert_by cmp x xs" by (simp add: js_sort_Cons)
  also have "\<dots> = x # xs" using Cons.prems by (cases xs) auto
  finally show ?case .
qed (simp add: js_sort_def)

lemma diff_sign_le: "js_diff_sign (JFin a) (JFin b) \<le> 0 \<longleftrightarrow> a \<le> b"
  by auto

section \<open>The address is read back\<close>

lemma params_text_Nil: "params_text ps = [] \<longleftrightarrow> ps = []"
proof
  assume "params_text ps = []"
  then have "params_of (params_text ps) = params_of (params_text [])" by (simp add: params_text_def)
  then show "ps = []" by (simp only: params_round_trip option.inject)
qed (simp add: params_text_def)

lemma url_read_back:
  assumes "lp_url p = buildLibraryUrl library_path ps"
  shows "url_params p = Some ps"
proof (cases "ps = []")
  case True
  with assms have "lp_url p = library_path" by (simp add: buildLibraryUrl_def params_text_def)
  moreover have "params_of [] = Some []" using params_round_trip [of "[]"] by (simp add: params_text_def)
  ultimately show ?thesis using True by (simp add: url_params_def library_path_def)
next
  case False
  with assms have u: "lp_url p = library_path @ CHR ''?'' # params_text ps" by (simp add: buildLibraryUrl_def params_text_Nil)
  have "takeWhile (\<lambda>c. c \<noteq> CHR ''?'') (lp_url p) = library_path"
    unfolding u by (subst takeWhile_append2) (auto simp: library_path_def)
  then have "drop (Suc (length (takeWhile (\<lambda>c. c \<noteq> CHR ''?'') (lp_url p)))) (lp_url p) = params_text ps" by (simp add: u)
  then show ?thesis by (simp add: url_params_def params_round_trip)
qed

lemma navigate_simps [simp]:
  "lp_url (navigate mode url p) = url" "lp_documents (navigate mode url p) = lp_documents p"
  "lp_history (navigate mode url p) = (if mode = Push then lp_url p # lp_history p else lp_history p)"
  by (cases mode; simp add: navigate_def)+

lemma updated_params:
  assumes "url_params p = Some ps"
  shows "url_params (updateSearchParams us mode p) = Some (fold apply_update us ps)"
    and "lp_history (updateSearchParams us mode p) = (if mode = Push then lp_url p # lp_history p else lp_history p)"
    and "mode = Push \<Longrightarrow> library_back (updateSearchParams us mode p) = p"
proof -
  have u: "updateSearchParams us mode p = navigate mode (buildLibraryUrl library_path (fold apply_update us ps)) p"
    using assms by (simp add: updateSearchParams_def params_round_trip)
  show "url_params (updateSearchParams us mode p) = Some (fold apply_update us ps)"
    unfolding u by (rule url_read_back) simp
  show "lp_history (updateSearchParams us mode p) = (if mode = Push then lp_url p # lp_history p else lp_history p)"
    unfolding u by simp
  show "mode = Push \<Longrightarrow> library_back (updateSearchParams us mode p) = p"
    unfolding u by (simp add: library_back_def navigate_def)
qed

lemma updated_param:
  assumes "url_params p = Some ps"
  shows "url_param k (updateSearchParams [(k', v)] mode p) =
    (if k = k' then (if v = None \<or> v = Some [] \<or> v = Some ''all'' then None else v) else url_param k p)"
  using updated_params(1) [OF assms, of "[(k', v)]" mode] assms
  by (cases v) (auto simp: url_param_def apply_update_def)

definition url_readable :: "string \<Rightarrow> bool" where
  "url_readable u \<longleftrightarrow> params_of (drop (Suc (length (takeWhile (\<lambda>c. c \<noteq> CHR ''?'') u))) u) \<noteq> None"

definition library_reachable :: "string \<Rightarrow> library_page \<Rightarrow> bool" where
  "library_reachable url p \<longleftrightarrow> library_step\<^sup>*\<^sup>* ((library_opened [] [])\<lparr>lp_url := url\<rparr>) p"

definition library_inv :: "library_page \<Rightarrow> bool" where
  "library_inv p \<longleftrightarrow> url_params p \<noteq> None \<and> (\<forall>u\<in>set (lp_history p). url_readable u) \<and>
     (lp_isLoading p \<longrightarrow> lp_documents p = [] \<and> lp_error p = None) \<and> (lp_error p \<noteq> None \<longrightarrow> lp_documents p = [])"

lemma update_loading [simp]:
  "lp_isLoading (updateSearchParams us mode p) = lp_isLoading p" "lp_documents (updateSearchParams us mode p) = lp_documents p"
  "lp_error (updateSearchParams us mode p) = lp_error p"
  by (cases mode; simp add: updateSearchParams_def navigate_def split: option.split)+

lemma update_inv:
  assumes "library_inv p"
  shows "library_inv (updateSearchParams us mode p)"
proof -
  from assms obtain ps where ps: "url_params p = Some ps" by (auto simp: library_inv_def)
  then have "url_readable (lp_url p)" by (simp add: url_readable_def url_params_def)
  with assms updated_params(1,2) [OF ps, of us mode] show ?thesis by (auto simp: library_inv_def)
qed

lemma clear_inv: "library_inv p \<Longrightarrow> library_inv (clearFilters p)"
proof -
  assume inv: "library_inv p"
  have "url_params (clearFilters p) = Some []"
    by (rule url_read_back) (simp add: clearFilters_def buildLibraryUrl_def params_text_def)
  with inv show ?thesis by (auto simp: library_inv_def clearFilters_def navigate_def url_readable_def url_params_def)
qed

lemma library_step_inv: "library_step p p' \<Longrightarrow> library_inv p \<Longrightarrow> library_inv p'"
proof (induction rule: library_step.induct)
  case (7 p)
  then show ?case
    by (cases "lp_history p") (auto simp: library_back_def library_inv_def url_params_def url_readable_def)
next
  case (8 p a)
  then show ?case by (auto simp: library_inv_def library_answered_def url_params_def split: sum.splits)
next
  case (9 p)
  then show ?case by (simp add: library_inv_def library_closed_def url_params_def)
qed (simp_all only: search_changed_def type_changed_def status_changed_def sort_changed_def view_changed_def update_inv clear_inv)

lemma library_reachable_inv:
  assumes "library_reachable url p" and "url_readable url"
  shows "library_inv p"
  using assms(1) unfolding library_reachable_def
proof (induction rule: rtranclp_induct)
  case base
  show ?case using assms(2) by (simp add: library_inv_def library_opened_def url_params_def url_readable_def)
qed (rule library_step_inv)

text \<open>
  What the choices on the page mean: every text that a selection offers, with the choice it stands for.
\<close>

definition type_choices :: "(string \<times> type_filter) list" where
  "type_choices = [(''all'', AnyType), (''PDF'', OnlyType Phase0Pdf), (''TEXT'', OnlyType Phase0Text)]"

definition status_choices :: "(string \<times> status_filter) list" where
  "status_choices =
     [(''all'', AnyStatus), (''READY'', OnlyStatus READY), (''PROCESSING'', OnlyStatus PROCESSING),
      (''UPLOADED'', OnlyStatus UPLOADED), (''FAILED'', OnlyStatus DOCUMENT_FAILED)]"

definition sort_choices :: "(string \<times> library_sort) list" where
  "sort_choices = [(''recent'', SortRecent), (''updated'', SortUpdated), (''name'', SortName), (''status'', SortStatus)]"

definition view_choices :: "(string \<times> library_view) list" where
  "view_choices = [(''grid'', GridView), (''list'', ListView)]"

text \<open>
  A selection that changes the parameter \<^term>\<open>k\<close>: the other parameters are as before, the page before it becomes the
  newest entry of the history, and going back gives exactly that page.
\<close>

definition selects :: "string \<Rightarrow> library_page \<Rightarrow> library_page \<Rightarrow> bool" where
  "selects k p p' \<longleftrightarrow>
     (\<forall>j. j \<noteq> k \<longrightarrow> url_param j p' = url_param j p) \<and> lp_history p' = lp_url p # lp_history p \<and> library_back p' = p"

lemma selectsI:
  assumes "url_params p = Some ps"
  shows "selects k p (updateSearchParams [(k, Some v)] Push p)"
  using updated_params(2,3) [OF assms, where us = "[(k, Some v)]" and mode = Push] by (simp add: selects_def updated_param [OF assms])

lemma choice_read_back:
  assumes "url_params p = Some ps"
  shows "\<forall>(t, f)\<in>set type_choices. typeFilter (type_changed t p) = f"
    and "\<forall>(t, f)\<in>set status_choices. statusFilter (status_changed t p) = f"
    and "\<forall>(t, f)\<in>set sort_choices. sortKey (sort_changed t p) = f"
    and "\<forall>(t, f)\<in>set view_choices. libraryView (view_changed t p) = f"
  by (simp_all add: type_choices_def status_choices_def sort_choices_def view_choices_def type_changed_def status_changed_def
      sort_changed_def view_changed_def typeFilter_def statusFilter_def sortKey_def libraryView_def updated_param [OF assms]
      normalizeTypeFilter_def normalizeStatusFilter_def normalizeSort_def normalizeView_def)

lemma filters_cleared:
  "url_param k (clearFilters p) = None \<and> lp_history (clearFilters p) = lp_url p # lp_history p \<and> library_back (clearFilters p) = p"
proof -
  have "url_params (clearFilters p) = Some []"
    by (rule url_read_back) (simp add: clearFilters_def buildLibraryUrl_def params_text_def)
  then have "url_param k (clearFilters p) = None" by (simp add: url_param_def params_get_def)
  then show ?thesis by (simp add: clearFilters_def library_back_def navigate_def)
qed

section \<open>Properties\<close>

text \<open>C37 The choices of the library page survive in its address: on every page reached from an address that can be
  read, a search term, and every type, status, order and view that the page offers, is read back from the new address
  exactly as it was chosen, and every other parameter is as before.  Typing adds no entry to the history; a selection
  of type, status, order or view adds the address before it, and going back then gives exactly the page before it.
  Clearing removes every parameter, and going back brings them all again.  Only the search term \<open>all\<close> cannot be
  chosen: it counts as none.\<close>

theorem library_choices_read_back:
  assumes "library_reachable url p" and "url_readable url"
  shows "searchTerm (search_changed v p) = (if v = ''all'' then [] else v) \<and>
    (\<forall>k. k \<noteq> ''q'' \<longrightarrow> url_param k (search_changed v p) = url_param k p) \<and> lp_history (search_changed v p) = lp_history p \<and>
    (\<forall>(t, f)\<in>set type_choices. typeFilter (type_changed t p) = f) \<and> (\<forall>t. selects ''type'' p (type_changed t p)) \<and>
    (\<forall>(t, f)\<in>set status_choices. statusFilter (status_changed t p) = f) \<and> (\<forall>t. selects ''status'' p (status_changed t p)) \<and>
    (\<forall>(t, f)\<in>set sort_choices. sortKey (sort_changed t p) = f) \<and> (\<forall>t. selects ''sort'' p (sort_changed t p)) \<and>
    (\<forall>(t, f)\<in>set view_choices. libraryView (view_changed t p) = f) \<and> (\<forall>t. selects ''view'' p (view_changed t p)) \<and>
    (\<forall>k. url_param k (clearFilters p) = None) \<and> lp_history (clearFilters p) = lp_url p # lp_history p \<and>
    library_back (clearFilters p) = p"
proof -
  from library_reachable_inv [OF assms] obtain ps where ps: "url_params p = Some ps" by (auto simp: library_inv_def)
  have "searchTerm (search_changed v p) = (if v = ''all'' then [] else v) \<and>
      (\<forall>k. k \<noteq> ''q'' \<longrightarrow> url_param k (search_changed v p) = url_param k p) \<and> lp_history (search_changed v p) = lp_history p"
    using updated_params(2) [OF ps, of "[(''q'', if v = [] then None else Some v)]" Replace]
    by (simp add: search_changed_def searchTerm_def updated_param [OF ps])
  moreover have "\<forall>t. selects ''type'' p (type_changed t p)" "\<forall>t. selects ''status'' p (status_changed t p)"
      "\<forall>t. selects ''sort'' p (sort_changed t p)" "\<forall>t. selects ''view'' p (view_changed t p)"
    unfolding type_changed_def status_changed_def sort_changed_def view_changed_def by (intro allI selectsI [OF ps])+
  ultimately show ?thesis
    using filters_cleared [where p = p] by (elim conjE) (intro conjI choice_read_back [OF ps] allI; simp)
qed

lemma library_choices_read_back_witness:
  "searchTerm (search_changed ''a b&c=1'' ((library_opened [] [])\<lparr>lp_url := ''/library?type=PDF''\<rparr>)) = ''a b&c=1''"
proof -
  let ?p = "(library_opened [] [])\<lparr>lp_url := ''/library?type=PDF''\<rparr>"
  have "library_reachable ''/library?type=PDF'' ?p" by (simp add: library_reachable_def)
  moreover have "url_readable ''/library?type=PDF''" by code_simp
  ultimately have "searchTerm (search_changed ''a b&c=1'' ?p) = (if ''a b&c=1'' = ''all'' then [] else ''a b&c=1'')"
    using library_choices_read_back by blast
  then show ?thesis by simp
qed

section \<open>The documents shown\<close>

text \<open>What the filters ask of a document, said of its row.\<close>

definition row_matches :: "string \<Rightarrow> type_filter \<Rightarrow> status_filter \<Rightarrow> document_row \<Rightarrow> bool" where
  "row_matches q tf sf r \<longleftrightarrow>
     (let w = js_lower (js_trim q)
      in w = [] \<or> js_includes (js_lower (dc_originalName r)) w \<or> js_includes (js_lower (dc_id r)) w \<or>
         js_includes (js_lower (case dc_language r of None \<Rightarrow> [] | Some l \<Rightarrow> l)) w) \<and>
     (tf = AnyType \<or> tf = OnlyType Phase0Pdf \<and> dc_type r = PDF \<or> tf = OnlyType Phase0Text \<and> dc_type r \<noteq> PDF) \<and>
     (sf = AnyStatus \<or> sf = OnlyStatus (dc_status r))"

definition shown_row :: "(int \<Rightarrow> string) \<Rightarrow> document_row \<Rightarrow> library_document" where
  "shown_row toIso r = toPresentationDocument (client_document (to_document_response toIso r))"

lemma shown_row_fields:
  "ld_id (shown_row toIso r) = dc_id r" "ld_originalName (shown_row toIso r) = dc_originalName r"
  "ld_language (shown_row toIso r) = dc_language r" "ld_status (shown_row toIso r) = mapStatus (dc_status r)"
  "ld_type (shown_row toIso r) = (if dc_type r = PDF then ShownPdf else ShownText)"
  "ld_createdAt (shown_row toIso r) = toIso (dc_createdAt r)" "ld_updatedAt (shown_row toIso r) = toIso (dc_updatedAt r)"
  by (simp_all add: shown_row_def toPresentationDocument_def client_document_def to_document_response_def mapType_def)

lemma mapStatus_inj: "mapStatus s = mapStatus s' \<longleftrightarrow> s = s'"
  by (cases s; cases s') simp_all

lemma not_pdf: "t \<noteq> Phase0Pdf \<longleftrightarrow> t = Phase0Text"
  by (cases t) simp_all

lemma filter_shown_rows:
  "filterDocuments q tf sf (map (shown_row toIso) rs) = map (shown_row toIso) (filter (row_matches q tf sf) rs)"
proof -
  have "(\<lambda>d. (js_lower (js_trim q) = [] \<or> js_includes (js_lower (ld_originalName d)) (js_lower (js_trim q)) \<or>
      js_includes (js_lower (ld_id d)) (js_lower (js_trim q)) \<or>
      js_includes (js_lower (case ld_language d of None \<Rightarrow> [] | Some l \<Rightarrow> l)) (js_lower (js_trim q))) \<and>
      (case tf of AnyType \<Rightarrow> True | OnlyType t \<Rightarrow> if t = Phase0Pdf then ld_type d = ShownPdf else ld_type d = ShownText) \<and>
      (case sf of AnyStatus \<Rightarrow> True | OnlyStatus s \<Rightarrow> ld_status d = mapStatus s)) (shown_row toIso r) = row_matches q tf sf r" for r
    by (cases tf; cases sf) (auto simp: shown_row_fields row_matches_def Let_def mapStatus_inj not_pdf split: if_splits)
  then show ?thesis unfolding filterDocuments_def Let_def by (simp add: filter_map comp_def)
qed

lemma order_consistent:
  assumes times: "\<And>t. time_of (toIso t) = JFin (of_int t)" and lc: "consistent_on UNIV lc"
  shows "consistent_on (range (shown_row toIso)) (document_order lc time_of key)"
proof -
  have r: "consistent_on (range (shown_row toIso)) (\<lambda>x y. js_diff_sign (time_of (f y)) (time_of (f x)))"
    if "\<And>r. \<exists>t. f (shown_row toIso r) = toIso t" for f
  proof -
    from that obtain g where "\<And>r. f (shown_row toIso r) = toIso (g r)" by metis
    then show ?thesis by (auto simp: consistent_on_def times simp del: js_diff_sign.simps simp add: diff_sign_le)
  qed
  show ?thesis
  proof (cases key)
    case SortName
    with lc show ?thesis by (auto simp: consistent_on_def document_order_def)
  next
    case SortStatus
    then show ?thesis by (auto simp: consistent_on_def document_order_def)
  next
    case SortRecent
    with r [of ld_createdAt] show ?thesis by (auto simp: document_order_def [abs_def] shown_row_fields)
  next
    case SortUpdated
    with r [of ld_updatedAt] show ?thesis by (auto simp: document_order_def [abs_def] shown_row_fields)
  qed
qed

lemma recent_sorted:
  assumes times: "\<And>t. time_of (toIso t) = JFin (of_int t)"
  shows "sorted_wrt (\<lambda>x y. document_order lc time_of SortRecent x y \<le> 0)
    (map (shown_row toIso) (filter P (findAllByOwnerId ownerId db)))"
proof -
  have "sorted (map (\<lambda>d. - dc_createdAt d) (findAllByOwnerId ownerId db))" by (simp add: findAllByOwnerId_def)
  then have "sorted_wrt (\<lambda>x y. - dc_createdAt x \<le> - dc_createdAt y) (filter P (findAllByOwnerId ownerId db))"
    by (simp add: sorted_wrt_map sorted_wrt_filter)
  then show ?thesis
    by (simp add: sorted_wrt_map document_order_def shown_row_fields times diff_sign_le del: js_diff_sign.simps)
qed

definition status_group :: "document_status \<Rightarrow> library_document \<Rightarrow> bool" where
  "status_group s d \<longleftrightarrow> ld_status d = mapStatus s"

lemma library_shows:
  assumes times: "\<And>t. time_of (toIso t) = JFin (of_int t)" and lc: "consistent_on UNIV lc"
    and docs: "lp_documents p = map (shown_row toIso) (findAllByOwnerId ownerId db)"
  shows "let rows = filter (row_matches (searchTerm p) (typeFilter p) (statusFilter p)) (findAllByOwnerId ownerId db);
      shown = filteredDocuments lc time_of p
    in mset (map ld_id shown) = mset (map dc_id rows) \<and>
       sorted_wrt (\<lambda>x y. document_order lc time_of (sortKey p) x y \<le> 0) shown \<and>
       (sortKey p = SortRecent \<longrightarrow> map ld_id shown = map dc_id rows) \<and>
       (sortKey p = SortStatus \<longrightarrow> (\<forall>s. map ld_id (filter (status_group s) shown) = map dc_id (filter (\<lambda>r. dc_status r = s) rows)))"
proof -
  let ?rows = "filter (row_matches (searchTerm p) (typeFilter p) (statusFilter p)) (findAllByOwnerId ownerId db)"
  let ?cmp = "document_order lc time_of (sortKey p)"
  have shown: "filteredDocuments lc time_of p = js_sort ?cmp (map (shown_row toIso) ?rows)"
    by (simp add: filteredDocuments_def sortDocuments_def docs filter_shown_rows)
  have ids: "map ld_id (map (shown_row toIso) rs) = map dc_id rs" for rs by (simp add: shown_row_fields)
  have "mset (map ld_id (filteredDocuments lc time_of p)) = mset (map ld_id (map (shown_row toIso) ?rows))"
    unfolding shown by (simp only: mset_map mset_js_sort)
  then have 1: "mset (map ld_id (filteredDocuments lc time_of p)) = mset (map dc_id ?rows)" by (simp only: ids)
  have "consistent_on (set (map (shown_row toIso) ?rows)) ?cmp"
    using order_consistent [OF times lc] by (rule consistent_on_subset) auto
  then have 2: "sorted_wrt (\<lambda>x y. ?cmp x y \<le> 0) (filteredDocuments lc time_of p)" unfolding shown by (rule sorted_js_sort)
  have 3: "map ld_id (filteredDocuments lc time_of p) = map dc_id ?rows" if "sortKey p = SortRecent"
    using js_sort_sorted [OF recent_sorted [OF times]] ids unfolding shown that by (simp only:)
  have 4: "map ld_id (filter (status_group s) (filteredDocuments lc time_of p)) = map dc_id (filter (\<lambda>r. dc_status r = s) ?rows)"
    if "sortKey p = SortStatus" for s
  proof -
    have "filter (status_group s) (filteredDocuments lc time_of p) = filter (status_group s) (map (shown_row toIso) ?rows)"
      unfolding shown that by (rule js_sort_stable) (simp add: document_order_def status_group_def)
    also have "\<dots> = map (shown_row toIso) (filter (\<lambda>r. dc_status r = s) ?rows)"
      by (simp add: filter_map comp_def status_group_def shown_row_fields mapStatus_inj)
    finally show ?thesis by (simp only: ids)
  qed
  from 1 2 3 4 show ?thesis by (simp only: Let_def) simp
qed

text \<open>C21 The library shows exactly the owner's documents that match: once the backend's list has arrived, the page lists
  every row of the owner that matches the search and the filters in its address, and no other, in the chosen order; the
  usual order is the backend's own, newest first, and by state it keeps that order inside every state.\<close>

theorem library_shows_documents:
  assumes "mapDocumentsResponse (Some (JArr (map document_json (listDocuments toIso ownerId db)))) = Inr ps"
    and "\<not> lp_cancelled p0" and "p = library_answered (Inr ps) p0"
    and "\<forall>t. time_of (toIso t) = JFin (of_int t)" and "consistent_on UNIV lc"
  shows "let rows = filter (row_matches (searchTerm p) (typeFilter p) (statusFilter p)) (findAllByOwnerId ownerId db);
      shown = filteredDocuments lc time_of p
    in mset (map ld_id shown) = mset (map dc_id rows) \<and>
       sorted_wrt (\<lambda>x y. document_order lc time_of (sortKey p) x y \<le> 0) shown \<and>
       (sortKey p = SortRecent \<longrightarrow> map ld_id shown = map dc_id rows) \<and>
       (sortKey p = SortStatus \<longrightarrow> (\<forall>s. map ld_id (filter (status_group s) shown) = map dc_id (filter (\<lambda>r. dc_status r = s) rows)))"
proof (rule library_shows)
  show "time_of (toIso t) = JFin (of_int t)" for t using assms(4) ..
  from assms(1) have "ps = map client_document (listDocuments toIso ownerId db)" by (simp add: documents_read)
  then show "lp_documents p = map (shown_row toIso) (findAllByOwnerId ownerId db)"
    using assms(2,3) by (simp add: library_answered_def listDocuments_def shown_row_def comp_def)
qed (rule assms(5))

definition tally_time :: "string \<Rightarrow> jsnum" where
  "tally_time s = JFin (of_int (int (count_list s CHR ''+'') - int (count_list s CHR ''-'')))"

definition tally_text :: "int \<Rightarrow> string" where
  "tally_text t = replicate (nat t) CHR ''+'' @ replicate (nat (- t)) CHR ''-''"

lemma tally_read: "tally_time (tally_text t) = JFin (of_int t)"
proof -
  have c: "count_list (replicate n x) y = (if x = y then n else 0)" for n and x y :: char by (induction n) auto
  show ?thesis by (simp add: tally_time_def tally_text_def c)
qed

lemma library_shows_documents_witness:
  "\<exists>ps. mapDocumentsResponse (Some (JArr (map document_json (listDocuments tally_text ''u'' sample_course)))) = Inr ps \<and>
    map ld_id (filteredDocuments by_length tally_time (library_answered (Inr ps) (library_opened [(''type'', ''PDF'')] []))) = [''d'']"
proof -
  let ?ps = "map client_document (listDocuments tally_text ''u'' sample_course)"
  let ?p = "library_answered (Inr ?ps) (library_opened [(''type'', ''PDF'')] [])"
  have "list_all readable_document (listDocuments tally_text ''u'' sample_course)"
    by (simp add: listDocuments_def findAllByOwnerId_def sample_course_def sample_document_def new_document_def
        to_document_response_def readable_document_def phase0_precisions_def phase0_budget_statuses_def)
  then have ps: "mapDocumentsResponse (Some (JArr (map document_json (listDocuments tally_text ''u'' sample_course)))) = Inr ?ps"
    by (simp add: documents_read)
  have params: "url_params ?p = Some [(''type'', ''PDF'')]"
    by (rule url_read_back) (simp add: library_answered_def library_opened_def)
  then have p: "searchTerm ?p = []" "typeFilter ?p = OnlyType Phase0Pdf" "statusFilter ?p = AnyStatus" "sortKey ?p = SortRecent"
    by (simp_all add: searchTerm_def typeFilter_def statusFilter_def sortKey_def url_param_def params_get_def
        normalizeTypeFilter_def normalizeStatusFilter_def normalizeSort_def)
  have lc: "consistent_on UNIV by_length" by (auto simp: consistent_on_def by_length_def)
  have times: "\<forall>t. tally_time (tally_text t) = JFin (of_int t)" by (simp add: tally_read)
  have "\<not> lp_cancelled (library_opened [(''type'', ''PDF'')] [])" by (simp add: library_opened_def)
  note page_shows = library_shows_documents [OF ps this refl times lc, unfolded Let_def]
  have "map ld_id (filteredDocuments by_length tally_time ?p) =
      map dc_id (filter (row_matches (searchTerm ?p) (typeFilter ?p) (statusFilter ?p)) (findAllByOwnerId ''u'' sample_course))"
    using page_shows [THEN conjunct2, THEN conjunct2, THEN conjunct1] p(4) by (rule mp)
  then have "map ld_id (filteredDocuments by_length tally_time ?p) =
      map dc_id (filter (row_matches [] (OnlyType Phase0Pdf) AnyStatus) (findAllByOwnerId ''u'' sample_course))"
    unfolding p(1,2,3) .
  also have "\<dots> = [''d'']"
  proof -
    have d: "findAllByOwnerId ''u'' sample_course = [sample_document]"
      by (simp add: findAllByOwnerId_def sample_course_def sample_document_def new_document_def)
    have q: "js_lower (js_trim []) = []" by code_simp
    have f: "dc_type sample_document = PDF" "dc_id sample_document = ''d''" by (simp_all add: sample_document_def new_document_def)
    have "row_matches [] (OnlyType Phase0Pdf) AnyStatus sample_document" by (rule iffD2 [OF row_matches_def]) (simp only: Let_def q f(1) simp_thms)
    with d f(2) show ?thesis by (simp only: filter.simps if_True list.map)
  qed
  finally show ?thesis by (intro exI [of _ ?ps] conjI ps)
qed

end
