(* ===== verification/ApiBootstrap.thy ===== *)
theory ApiBootstrap imports Runtime Configuration QueryText ClientApi begin

text \<open>
  The start of the API process, \<open>main.ts\<close>: its stages in order, what a failing stage reports, the credentials that open
  the API documentation (\<open>swagger-basic-auth.middleware.ts\<close>), the correlation identifier of a request
  (\<open>request-lifecycle.middleware.ts\<close>), the log line of an event (\<open>application-logger.factory.ts\<close>) and the check of the
  bucket at start (\<open>storage.service.ts\<close>).  \<^term>\<open>decode64\<close> is node's lenient base64 decoder.
\<close>

section \<open>Replacing\<close>

text \<open>
  \<open>s.replace(/p/g, f)\<close>: \<^term>\<open>m\<close> gives the length of the match at a place, less one, from the character before it and
  the rest of the text.  The matches are replaced from left to right.
\<close>

function replace_all :: "(char option \<Rightarrow> string \<Rightarrow> nat option) \<Rightarrow> (string \<Rightarrow> string) \<Rightarrow> char option \<Rightarrow> string \<Rightarrow> string" where
  "replace_all m f prev [] = []"
| "replace_all m f prev (c # s) =
     (case m prev (c # s) of
        None \<Rightarrow> c # replace_all m f (Some c) s
      | Some n \<Rightarrow> f (c # take n s) @ replace_all m f (Some (last (c # take n s))) (drop n s))"
  by pat_completeness auto

termination by (relation "measure (\<lambda>(m, f, prev, s). length s)") auto

definition spaces :: "string \<Rightarrow> nat" where
  "spaces s = length (takeWhile is_ws s)"

text \<open>A match of \<open>n\<close> characters, if there is one.\<close>

definition matched :: "nat \<Rightarrow> nat option" where
  "matched n = (if n = 0 then None else Some (n - 1))"

definition is_word :: "char \<Rightarrow> bool" where
  "is_word c \<longleftrightarrow> is_ascii_letter c \<or> is_ascii_digit c \<or> c = CHR ''_''"

text \<open>\<open>\\b\<close> before a place.\<close>

definition word_edge :: "char option \<Rightarrow> string \<Rightarrow> bool" where
  "word_edge prev s \<longleftrightarrow>
     (case prev of None \<Rightarrow> False | Some c \<Rightarrow> is_word c) \<noteq> (case s of [] \<Rightarrow> False | c # _ \<Rightarrow> is_word c)"

definition one_of_chars :: "string \<Rightarrow> char \<Rightarrow> bool" where
  "one_of_chars s c \<longleftrightarrow> c \<in> set s"

text \<open>The first of some lower-case words a text begins with, in any case.\<close>

definition word_length :: "string list \<Rightarrow> string \<Rightarrow> nat option" where
  "word_length ws s = map_option length (List.find (\<lambda>w. starts_with w (js_lower s)) ws)"

section \<open>Safe error messages\<close>

definition blanks_match :: "char option \<Rightarrow> string \<Rightarrow> nat option" where
  "blanks_match prev s = matched (length (takeWhile (one_of_chars [CHR 0x0D, CHR 0x0A, CHR 0x09, CHR 0x20]) s))"

definition url_match :: "char option \<Rightarrow> string \<Rightarrow> nat option" where
  "url_match prev s =
     (if \<not> word_edge prev s then None
      else case word_length [''http://'', ''https://'', ''ws://'', ''wss://'', ''ftp://''] s of
             None \<Rightarrow> None
           | Some n \<Rightarrow>
               let m = length (takeWhile (\<lambda>c. \<not> is_ws c \<and> c \<noteq> CHR '')'' \<and> c \<noteq> CHR ''}'' \<and> c \<noteq> CHR '']'') (drop n s))
               in if m = 0 then None else matched (n + m))"

definition scheme_match :: "char option \<Rightarrow> string \<Rightarrow> nat option" where
  "scheme_match prev s =
     (if \<not> word_edge prev s then None
      else case word_length [''bearer'', ''basic''] s of
             None \<Rightarrow> None
           | Some n \<Rightarrow>
               let b = spaces (drop n s);
                   m = length (takeWhile (\<lambda>c. \<not> is_ws c \<and> c \<noteq> CHR '','' \<and> c \<noteq> CHR '';'') (drop (n + b) s))
               in if b = 0 \<or> m = 0 then None else matched (n + b + m))"

text \<open>\<open>slice(0, indexOf(' '))\<close>; without a space the index is -1, which counts from the end.\<close>

definition scheme_replacement :: "string \<Rightarrow> string" where
  "scheme_replacement t =
     (let i = length (takeWhile (\<lambda>c. c \<noteq> CHR 0x20) t)
      in take (if i = length t then length t - 1 else i) t @ '' [redacted]'')"

definition secret_names :: "string list" where
  "secret_names =
     [''password'', ''passwd'', ''secret'', ''token'', ''apikey'', ''api_key'', ''api-key'', ''authorization'', ''credential'',
      ''privatekey'', ''private_key'', ''private-key'']"

definition secret_match :: "char option \<Rightarrow> string \<Rightarrow> nat option" where
  "secret_match prev s =
     (if \<not> word_edge prev s then None
      else case word_length secret_names s of
             None \<Rightarrow> None
           | Some n \<Rightarrow>
               let b = spaces (drop n s); r = drop (n + b) s; b' = spaces (drop 1 r);
                   m = length (takeWhile (\<lambda>c. \<not> is_ws c \<and> c \<noteq> CHR '','' \<and> c \<noteq> CHR '';'' \<and> c \<noteq> CHR ''}'') (drop (Suc b') r))
               in if r = [] \<or> hd r \<noteq> CHR '':'' \<and> hd r \<noteq> CHR ''='' \<or> m = 0 then None else matched (n + b + Suc b' + m))"

definition secret_replacement :: "string \<Rightarrow> string" where
  "secret_replacement t =
     (case word_length secret_names t of None \<Rightarrow> t | Some n \<Rightarrow> take n t @ ''=[redacted]'')"

definition query_match :: "char option \<Rightarrow> string \<Rightarrow> nat option" where
  "query_match prev s =
     (let n = length (takeWhile (\<lambda>c. is_word c \<or> c = CHR ''-'') s);
          m = length (takeWhile (\<lambda>c. \<not> is_ws c \<and> c \<noteq> CHR '')'' \<and> c \<noteq> CHR ''}'' \<and> c \<noteq> CHR '']'') (drop (Suc n) s))
      in if \<not> word_edge prev s \<or> n = 0 \<or> take 1 (drop n s) \<noteq> ''?'' \<or> m = 0 then None else matched (Suc n + m))"

definition payload_match :: "char option \<Rightarrow> string \<Rightarrow> nat option" where
  "payload_match prev s =
     (let n = length (takeWhile (\<lambda>c. c \<noteq> CHR ''{'' \<and> c \<noteq> CHR ''}'') (drop 1 s))
      in if take 1 s = ''{'' \<and> take 1 (drop (Suc n) s) = ''}'' then matched (n + 2) else None)"

definition MAX_BOOTSTRAP_ERROR_MESSAGE_LENGTH :: nat where
  "MAX_BOOTSTRAP_ERROR_MESSAGE_LENGTH = 240"

definition redactErrorMessage :: "string \<Rightarrow> string" where
  "redactErrorMessage message =
     (let s1 = js_trim (replace_all blanks_match (\<lambda>t. '' '') None message);
          s2 = replace_all url_match (\<lambda>t. ''[redacted-url]'') None s1;
          s3 = replace_all scheme_match scheme_replacement None s2;
          s4 = replace_all secret_match secret_replacement None s3;
          s5 = replace_all query_match (\<lambda>t. ''[redacted-query]'') None s4
      in replace_all payload_match (\<lambda>t. ''[redacted-payload]'') None s5)"

definition sanitizeErrorMessage :: "string \<Rightarrow> string" where
  "sanitizeErrorMessage message =
     (let safeMessage = redactErrorMessage message
      in if MAX_BOOTSTRAP_ERROR_MESSAGE_LENGTH < length safeMessage
         then take (MAX_BOOTSTRAP_ERROR_MESSAGE_LENGTH - 3) safeMessage @ ''...'' else safeMessage)"

section \<open>Failures\<close>

datatype api_stage =
  StartupMigrations | NestCreate | ApplicationConfig | ModuleSetup | InternalMtls | ApiListen | UnknownStage

text \<open>What can be thrown: an error with its name, message and code, or any other value by its kind.\<close>

datatype rejection =
  ErrorValue string string "string option"
| ApiBootstrapError api_stage rejection
| TextValue string
| NullishValue
| ObjectValue "string option"
| OtherValue string

definition safe_name :: "string \<Rightarrow> bool" where
  "safe_name s \<longleftrightarrow>
     1 \<le> length s \<and> length s \<le> 64 \<and> list_all (\<lambda>c. is_word c \<or> c = CHR ''.'' \<or> c = CHR ''-'') s"

fun getThrownErrorMessage :: "rejection \<Rightarrow> string" where
  "getThrownErrorMessage (ErrorValue name message code) = message"
| "getThrownErrorMessage (ApiBootstrapError stage cause) = getThrownErrorMessage cause"
| "getThrownErrorMessage (TextValue s) = s"
| "getThrownErrorMessage _ = ''API bootstrap failed''"

fun getErrorType :: "rejection \<Rightarrow> string option" where
  "getErrorType (ErrorValue name message code) = Some (if safe_name name then name else ''Error'')"
| "getErrorType (ApiBootstrapError stage cause) = Some ''ApiBootstrapError''"
| "getErrorType NullishValue = None"
| "getErrorType (ObjectValue code) = Some ''UnknownRejection''"
| "getErrorType (TextValue s) = Some ''string''"
| "getErrorType (OtherValue kind) = Some kind"

definition API_BOOTSTRAP_ERROR_CODE :: string where
  "API_BOOTSTRAP_ERROR_CODE = ''API_BOOTSTRAP_FAILED''"

fun getErrorCode :: "rejection \<Rightarrow> string option" where
  "getErrorCode (ErrorValue name message code) = (case code of Some c \<Rightarrow> if safe_name c then Some c else None | None \<Rightarrow> None)"
| "getErrorCode (ApiBootstrapError stage cause) = Some API_BOOTSTRAP_ERROR_CODE"
| "getErrorCode (ObjectValue code) = (case code of Some c \<Rightarrow> if safe_name c then Some c else None | None \<Rightarrow> None)"
| "getErrorCode _ = None"

fun getSafeErrorMessage :: "rejection \<Rightarrow> string" where
  "getSafeErrorMessage (ErrorValue name message code) = sanitizeErrorMessage message"
| "getSafeErrorMessage (ApiBootstrapError stage cause) = sanitizeErrorMessage (getThrownErrorMessage cause)"
| "getSafeErrorMessage (TextValue s) = sanitizeErrorMessage s"
| "getSafeErrorMessage NullishValue = sanitizeErrorMessage []"
| "getSafeErrorMessage _ = sanitizeErrorMessage ''Unknown bootstrap rejection''"

record api_failure_event =
  fe_causeCode :: "string option"
  fe_causeMessage :: "string option"
  fe_causeType :: "string option"
  fe_errorMessage :: string
  fe_errorType :: string
  fe_stage :: api_stage

definition formatApiBootstrapFailure :: "rejection \<Rightarrow> api_failure_event" where
  "formatApiBootstrapFailure rejection =
     (let cause = (case rejection of ApiBootstrapError stage c \<Rightarrow> c | _ \<Rightarrow> NullishValue);
          causeMessage = getSafeErrorMessage cause
      in \<lparr>fe_causeCode = getErrorCode cause, fe_causeMessage = (if causeMessage = [] then None else Some causeMessage),
          fe_causeType = getErrorType cause, fe_errorMessage = getSafeErrorMessage rejection,
          fe_errorType = (case getErrorType rejection of None \<Rightarrow> ''UnknownRejection'' | Some t \<Rightarrow> t),
          fe_stage = (case rejection of ApiBootstrapError stage c \<Rightarrow> stage | _ \<Rightarrow> UnknownStage)\<rparr>)"

text \<open>An operation returns, throws, or the process ends under it.\<close>

datatype 'a api_result = Returned 'a | Thrown rejection | ProcessEnded

definition runApiBootstrapStage :: "api_stage \<Rightarrow> 'a api_result \<Rightarrow> 'a api_result" where
  "runApiBootstrapStage stage r =
     (case r of
        Thrown cause \<Rightarrow> Thrown (case cause of ApiBootstrapError _ _ \<Rightarrow> cause | _ \<Rightarrow> ApiBootstrapError stage cause)
      | _ \<Rightarrow> r)"

section \<open>Stages\<close>

text \<open>What the environment answers: \<^const>\<open>None\<close> where an operation succeeds.\<close>

record api_env =
  ae_migrations :: "rejection option"
  ae_create :: "rejection option"
  ae_config :: "string + application_settings"
  ae_document :: "rejection option"
  ae_material :: "rejection option"
  ae_watch :: "rejection option"
  ae_mtlsListens :: bool
  ae_listen :: "rejection option"

datatype api_effect =
  Migrated | AppCreated | PrefixSet | PipesSet | DocsProtected string string | DocsServed
| MtlsWatching | MtlsListening jsnum | ApiListening jsnum

text \<open>A result with what was done on the way; what fails leaves what was done before it.\<close>

type_synonym 'a api_run = "api_effect list \<times> 'a api_result"

definition api_bind :: "'a api_run \<Rightarrow> ('a \<Rightarrow> 'b api_run) \<Rightarrow> 'b api_run" where
  "api_bind r f =
     (case snd r of
        Thrown e \<Rightarrow> (fst r, Thrown e)
      | ProcessEnded \<Rightarrow> (fst r, ProcessEnded)
      | Returned a \<Rightarrow> (fst r @ fst (f a), snd (f a)))"

definition api_try :: "api_stage \<Rightarrow> 'a api_run \<Rightarrow> 'a api_run" where
  "api_try stage r = (fst r, runApiBootstrapStage stage (snd r))"

definition api_does :: "rejection option \<Rightarrow> api_effect list \<Rightarrow> unit api_run" where
  "api_does failure fx = (case failure of Some e \<Rightarrow> ([], Thrown e) | None \<Rightarrow> (fx, Returned ()))"

definition plain_error :: "string \<Rightarrow> rejection" where
  "plain_error m = ErrorValue ''Error'' m None"

definition module_setup :: "api_env \<Rightarrow> application_settings \<Rightarrow> unit api_run" where
  "module_setup env application =
     api_bind ([PrefixSet, PipesSet], Returned ()) (\<lambda>_.
       if \<not> ap_swaggerEnabled application then ([], Returned ())
       else (case (ap_swaggerUsername application, ap_swaggerPassword application) of
               (Some u, Some p) \<Rightarrow>
                 if u = [] \<or> p = []
                 then ([], Thrown (plain_error ''SWAGGER_USERNAME and SWAGGER_PASSWORD are required when Swagger is enabled''))
                 else api_bind ([DocsProtected u p], Returned ()) (\<lambda>_. api_does (ae_document env) [DocsServed])
             | _ \<Rightarrow> ([], Thrown (plain_error ''SWAGGER_USERNAME and SWAGGER_PASSWORD are required when Swagger is enabled''))))"

text \<open>\<open>createInternalMtlsServer\<close> before it serves: its material, then the directories it watches.\<close>

definition create_mtls :: "api_env \<Rightarrow> mtls_settings \<Rightarrow> bool api_run" where
  "create_mtls env s =
     (if \<not> mt_enabled s then ([], Returned False)
      else if list_ex (\<lambda>p. p = None \<or> p = Some []) [mt_caPath s, mt_certPath s, mt_keyPath s]
      then ([], Thrown (plain_error ''Internal mTLS paths are incomplete''))
      else api_bind (api_does (ae_material env) []) (\<lambda>_. api_bind (api_does (ae_watch env) [MtlsWatching]) (\<lambda>_. ([], Returned True))))"

text \<open>Nobody handles the error event of the server with client certificates: it ends the process.\<close>

definition bootstrapApi :: "api_env \<Rightarrow> unit api_run" where
  "bootstrapApi env =
     api_bind (api_try StartupMigrations (api_does (ae_migrations env) [Migrated])) (\<lambda>_.
     api_bind (api_try NestCreate (api_does (ae_create env) [AppCreated])) (\<lambda>_.
     api_bind (api_try ApplicationConfig ([], case ae_config env of Inl m \<Rightarrow> Thrown (plain_error m) | Inr a \<Rightarrow> Returned a)) (\<lambda>application.
     api_bind (api_try ModuleSetup (module_setup env application)) (\<lambda>_.
     api_bind (api_try InternalMtls (create_mtls env (ap_internalMtls application))) (\<lambda>internalMtls.
     api_bind (if \<not> internalMtls then ([], Returned ())
       else if ae_mtlsListens env then ([MtlsListening (mt_port (ap_internalMtls application))], Returned ())
       else ([], ProcessEnded)) (\<lambda>_.
     api_try ApiListen (api_does (ae_listen env) [ApiListening (ap_port application)])))))))"

text \<open>\<open>onModuleInit\<close> of the storage service, part of the creation: every failure becomes one message.\<close>

definition storage_init :: "rejection + bool \<Rightarrow> rejection option" where
  "storage_init bucketExists =
     (case bucketExists of
        Inr True \<Rightarrow> None
      | _ \<Rightarrow> Some (plain_error ''Object storage bucket is unavailable or misconfigured''))"

text \<open>\<open>bootstrapWorker\<close>: the module is chosen from the environment, before the configuration is read.\<close>

definition worker_module :: "string option \<Rightarrow> execution_mode" where
  "worker_module mode = (if mode = Some ''relay-only'' then RelayOnly else LegacyProcessing)"

section \<open>Requests\<close>

definition base64_digits :: string where
  "base64_digits = ''ABCDEFGHIJKLMNOPQRSTUVWXYZabcdefghijklmnopqrstuvwxyz0123456789+/''"

fun base64_encode :: "nat list \<Rightarrow> string" where
  "base64_encode [] = []"
| "base64_encode [a] = [base64_digits ! (a div 4), base64_digits ! (a mod 4 * 16), CHR ''='', CHR ''='']"
| "base64_encode [a, b] =
     [base64_digits ! (a div 4), base64_digits ! (a mod 4 * 16 + b div 16), base64_digits ! (b mod 16 * 4), CHR ''='']"
| "base64_encode (a # b # c # r) =
     base64_digits ! (a div 4) # base64_digits ! (a mod 4 * 16 + b div 16) # base64_digits ! (b mod 16 * 4 + c div 64)
       # base64_digits ! (c mod 64) # base64_encode r"

datatype middleware_answer = NextHandler | Refused nat "(string \<times> string) list" string

definition createSwaggerBasicAuthMiddleware ::
  "(string \<Rightarrow> nat list) \<Rightarrow> string \<Rightarrow> string \<Rightarrow> string option \<Rightarrow> middleware_answer" where
  "createSwaggerBasicAuthMiddleware decode64 username password authorization =
     (let expectedCredentials = utf8_bytes (username @ '':'' @ password);
          credentials = (case authorization of
            Some a \<Rightarrow> if starts_with ''Basic '' a then decode64 (drop (length ''Basic '') a) else [] | None \<Rightarrow> [])
      in if length credentials = length expectedCredentials \<and> credentials = expectedCredentials then NextHandler
         else Refused 401 [(''WWW-Authenticate'', ''Basic realm=\"API documentation\"'')] ''Unauthorized'')"

definition uuid_pattern :: "string \<Rightarrow> string \<Rightarrow> bool" where
  "uuid_pattern versions s \<longleftrightarrow>
     length s = 36 \<and>
     list_all (\<lambda>i. let c = char_lower (s ! i)
       in if i \<in> {8, 13, 18, 23} then c = CHR ''-'' else if i = 14 then c \<in> set versions
          else if i = 19 then c \<in> set ''89ab'' else is_hex c) [0..<36]"

definition resolveCorrelationId :: "string option \<Rightarrow> string \<Rightarrow> string" where
  "resolveCorrelationId v fresh =
     (case v of Some s \<Rightarrow> if uuid_pattern ''12345678'' s then s else fresh | None \<Rightarrow> fresh)"

text \<open>
  The middleware: the headers the handlers see, those of the response, and the event of the response's end.
  \<open>randomUUID\<close> and both readings of the clock are arguments; \<open>Math.round\<close> rounds halves up.
\<close>

record request_event =
  rv_correlationId :: string
  rv_durationMs :: int
  rv_verb :: string
  rv_pathname :: string
  rv_statusCode :: nat

definition createRequestLifecycleMiddleware ::
  "string \<Rightarrow> rat \<Rightarrow> (string \<rightharpoonup> string) \<Rightarrow> string \<Rightarrow> string \<Rightarrow>
   (string \<rightharpoonup> string) \<times> (string \<times> string) list \<times> (rat \<Rightarrow> nat \<Rightarrow> request_event)" where
  "createRequestLifecycleMiddleware fresh startedAt headers verb path =
     (let correlationId = resolveCorrelationId (headers ''x-correlation-id'') fresh
      in (headers(''x-correlation-id'' \<mapsto> correlationId), [(''x-correlation-id'', correlationId)],
          \<lambda>now status. \<lparr>rv_correlationId = correlationId, rv_durationMs = \<lfloor>now - startedAt + 1 / 2\<rfloor>, rv_verb = verb,
            rv_pathname = path, rv_statusCode = status\<rparr>))"

section \<open>Log lines\<close>

datatype log_value = LogText string | LogNumber rat | LogBool bool | LogNull | LogUndefined | LogOther string

definition formatEventValue :: "number_text \<Rightarrow> log_value \<Rightarrow> string" where
  "formatEventValue nt v =
     (case v of
        LogText s \<Rightarrow>
          if s \<noteq> [] \<and> list_all (\<lambda>c. is_word c \<or> one_of_chars ''.:/-'' c) s then s else quote_text s
      | LogNumber r \<Rightarrow> number_str nt r
      | LogBool b \<Rightarrow> if b then ''true'' else ''false''
      | LogNull \<Rightarrow> ''null''
      | LogUndefined \<Rightarrow> ''undefined''
      | LogOther kind \<Rightarrow> ''['' @ kind @ '']'')"

definition formatApplicationEvent :: "number_text \<Rightarrow> string \<Rightarrow> (string \<times> log_value) list \<Rightarrow> string" where
  "formatApplicationEvent nt event kvs =
     join_with '' '' (event # map (\<lambda>(k, v). k @ ''='' @ formatEventValue nt v) (sort_key fst (filter (\<lambda>(k, v). k \<noteq> ''event'') kvs)))"

section \<open>Reported messages\<close>

lemma take_drop_sub: "set (c # take n s) \<subseteq> set (c # s)" "set (drop n s) \<subseteq> set (c # s)"
  using set_take_subset [of n s] set_drop_subset [of n s] by auto

lemma replace_all_chars:
  assumes "\<And>t. set (f t) \<subseteq> set t \<union> K"
  shows "set (replace_all m f prev s) \<subseteq> set s \<union> K"
proof (induction m f prev s rule: replace_all.induct [where P = "\<lambda>m' f' prev s. f' = f \<longrightarrow> set (replace_all m' f' prev s) \<subseteq> set s \<union> K", THEN mp])
  case (2 m' f' prev c s)
  show ?case
  proof
    assume f: "f' = f"
    show "set (replace_all m' f' prev (c # s)) \<subseteq> set (c # s) \<union> K"
    proof (cases "m' prev (c # s)")
      case None
      with 2(1) f show ?thesis by auto
    next
      case (Some n)
      from 2(2) [OF Some] f have "set (replace_all m' f (Some (last (c # take n s))) (drop n s)) \<subseteq> set (drop n s) \<union> K" by blast
      moreover have "set (f (c # take n s)) \<subseteq> set (c # take n s) \<union> K" by (rule assms)
      ultimately have "set (f (c # take n s)) \<union> set (replace_all m' f (Some (last (c # take n s))) (drop n s)) \<subseteq> set (c # s) \<union> K"
        using take_drop_sub [where c = c and n = n and s = s] by blast
      with Some f show ?thesis by simp
    qed
  qed
qed auto

definition line_break :: "char \<Rightarrow> bool" where
  "line_break c \<longleftrightarrow> c = CHR 0x0D \<or> c = CHR 0x0A \<or> c = CHR 0x09"

lemma blanks_replaced: "c \<in> set (replace_all blanks_match (\<lambda>t. '' '') prev s) \<Longrightarrow> \<not> line_break c"
proof (induction blanks_match "\<lambda>t :: string. '' ''" prev s rule: replace_all.induct)
  case (2 prev d s)
  show ?case
  proof (cases "blanks_match prev (d # s)")
    case None
    then have "\<not> line_break d" by (auto simp: blanks_match_def matched_def one_of_chars_def line_break_def split: if_splits)
    with 2 None show ?thesis by auto
  next
    case (Some n)
    with 2 show ?thesis by (auto simp: line_break_def)
  qed
qed simp

lemma scheme_replacement_chars: "set (scheme_replacement t) \<subseteq> set t \<union> set '' [redacted]''"
  unfolding scheme_replacement_def Let_def set_append by (intro Un_mono set_take_subset order_refl)

lemma secret_replacement_chars: "set (secret_replacement t) \<subseteq> set t \<union> set ''=[redacted]''"
proof (cases "word_length secret_names t")
  case (Some n)
  have "set (take n t) \<union> set ''=[redacted]'' \<subseteq> set t \<union> set ''=[redacted]''" by (intro Un_mono set_take_subset order_refl)
  with Some show ?thesis by (simp only: secret_replacement_def option.case set_append)
next
  case None
  then show ?thesis by (simp only: secret_replacement_def option.case Un_upper1)
qed

lemma redacted_one_line: "c \<in> set (redactErrorMessage m) \<Longrightarrow> \<not> line_break c"
proof -
  let ?B = "Collect (\<lambda>c. \<not> line_break c)"
  have s1: "set (js_trim (replace_all blanks_match (\<lambda>t. '' '') None m)) \<subseteq> ?B"
    using js_trim_set blanks_replaced by blast
  have step: "set (replace_all mt (f :: string \<Rightarrow> string) None s) \<subseteq> ?B" if "set s \<subseteq> ?B" "\<And>t. set (f t) \<subseteq> set t \<union> K" "K \<subseteq> ?B" for mt f s K
    using replace_all_chars [of f K mt None s] that by blast
  have k: "set ''[redacted-url]'' \<subseteq> ?B" "set '' [redacted]'' \<subseteq> ?B" "set ''=[redacted]'' \<subseteq> ?B" "set ''[redacted-query]'' \<subseteq> ?B"
    "set ''[redacted-payload]'' \<subseteq> ?B" by (simp_all add: line_break_def)
  have "set (redactErrorMessage m) \<subseteq> ?B"
    unfolding redactErrorMessage_def Let_def
    by (rule step [OF step [OF step [OF step [OF step [OF s1 _ k(1)] scheme_replacement_chars k(2)] secret_replacement_chars k(3)] _ k(4)] _ k(5)]) blast+
  then show "c \<in> set (redactErrorMessage m) \<Longrightarrow> \<not> line_break c" by blast
qed

definition reportable :: "string \<Rightarrow> bool" where
  "reportable s \<longleftrightarrow> length s \<le> 240 \<and> (\<forall>c\<in>set s. \<not> line_break c)"

lemma sanitized_reportable: "reportable (sanitizeErrorMessage m)"
proof -
  have "\<forall>c\<in>set (take n (redactErrorMessage m)). \<not> line_break c" for n
    using redacted_one_line set_take_subset [of n "redactErrorMessage m"] by blast
  moreover have "\<not> line_break CHR ''.''" by (simp add: line_break_def)
  ultimately show ?thesis
    using redacted_one_line by (auto simp: reportable_def sanitizeErrorMessage_def MAX_BOOTSTRAP_ERROR_MESSAGE_LENGTH_def Let_def)
qed

lemma safe_message_reportable: "reportable (getSafeErrorMessage r)"
  by (cases r rule: getSafeErrorMessage.cases) (simp_all add: sanitized_reportable)

text \<open>A name in front of a secret is only seen at a word boundary, and a URL only with one of five schemes.\<close>

lemma secrets_passed: "sanitizeErrorMessage ''DB_PASSWORD=hunter2'' = ''DB_PASSWORD=hunter2''"
  "sanitizeErrorMessage ''postgres://u:hunter2@h/db'' = ''postgres://u:hunter2@h/db''"
  by code_simp+

section \<open>Properties\<close>

text \<open>The stage that stops a start, read off the answers of the environment.\<close>

definition docs_fail :: "api_env \<Rightarrow> application_settings \<Rightarrow> bool" where
  "docs_fail env a \<longleftrightarrow>
     ap_swaggerEnabled a \<and>
     (ap_swaggerUsername a \<in> {None, Some []} \<or> ap_swaggerPassword a \<in> {None, Some []} \<or> ae_document env \<noteq> None)"

definition mtls_fail :: "api_env \<Rightarrow> mtls_settings \<Rightarrow> bool" where
  "mtls_fail env m \<longleftrightarrow>
     mt_enabled m \<and>
     (mt_caPath m \<in> {None, Some []} \<or> mt_certPath m \<in> {None, Some []} \<or> mt_keyPath m \<in> {None, Some []} \<or>
      ae_material env \<noteq> None \<or> ae_watch env \<noteq> None)"

definition failing_stage :: "api_env \<Rightarrow> api_stage option" where
  "failing_stage env =
     (if ae_migrations env \<noteq> None then Some StartupMigrations
      else if ae_create env \<noteq> None then Some NestCreate
      else case ae_config env of
             Inl m \<Rightarrow> Some ApplicationConfig
           | Inr a \<Rightarrow>
               if docs_fail env a then Some ModuleSetup
               else if mtls_fail env (ap_internalMtls a) then Some InternalMtls
               else if mt_enabled (ap_internalMtls a) \<and> \<not> ae_mtlsListens env then None
               else if ae_listen env \<noteq> None then Some ApiListen else None)"

definition full_start :: "application_settings \<Rightarrow> api_effect list" where
  "full_start a =
     [Migrated, AppCreated, PrefixSet, PipesSet]
     @ (if ap_swaggerEnabled a then [DocsProtected (the (ap_swaggerUsername a)) (the (ap_swaggerPassword a)), DocsServed] else [])
     @ (if mt_enabled (ap_internalMtls a) then [MtlsWatching, MtlsListening (mt_port (ap_internalMtls a))] else [])
     @ [ApiListening (ap_port a)]"

definition env_plain :: "api_env \<Rightarrow> bool" where
  "env_plain env \<longleftrightarrow>
     (\<forall>e st c. e \<in> {ae_migrations env, ae_create env, ae_document env, ae_material env, ae_watch env, ae_listen env} \<longrightarrow>
       e \<noteq> Some (ApiBootstrapError st c))"

definition stage_thrown :: "api_stage \<Rightarrow> 'a api_result \<Rightarrow> bool" where
  "stage_thrown st r \<longleftrightarrow> (\<exists>c. r = Thrown (ApiBootstrapError st c))"

lemma stage_wraps: "\<lbrakk>\<And>s c'. e \<noteq> ApiBootstrapError s c'\<rbrakk> \<Longrightarrow> runApiBootstrapStage st (Thrown e) = Thrown (ApiBootstrapError st e)"
  by (cases e) (auto simp: runApiBootstrapStage_def)

lemma stage_returns [simp]: "runApiBootstrapStage st (Returned a) = Returned a"
  by (simp add: runApiBootstrapStage_def)

lemma module_setup_result:
  assumes "env_plain env"
  shows "if docs_fail env a then stage_thrown ModuleSetup (snd (api_try ModuleSetup (module_setup env a))) \<and>
      (\<forall>p. MtlsListening p \<notin> set (fst (module_setup env a)) \<and> ApiListening p \<notin> set (fst (module_setup env a)))
    else api_try ModuleSetup (module_setup env a) =
      ([PrefixSet, PipesSet] @ (if ap_swaggerEnabled a then [DocsProtected (the (ap_swaggerUsername a)) (the (ap_swaggerPassword a)), DocsServed] else []),
       Returned ())"
proof -
  have w: "stage_thrown ModuleSetup (runApiBootstrapStage ModuleSetup (Thrown e))" if "\<And>s c. e \<noteq> ApiBootstrapError s c" for e
    using stage_wraps [of e ModuleSetup, OF that] by (auto simp: stage_thrown_def)
  have d: "ae_document env \<noteq> Some (ApiBootstrapError s c)" for s c using assms by (auto simp: env_plain_def)
  show ?thesis
    by (cases "ap_swaggerUsername a"; cases "ap_swaggerPassword a"; cases "ae_document env")
      (auto simp: docs_fail_def module_setup_def api_try_def api_bind_def api_does_def plain_error_def d intro!: w)
qed

lemma create_mtls_result:
  assumes "env_plain env"
  shows "if mtls_fail env m then stage_thrown InternalMtls (snd (api_try InternalMtls (create_mtls env m))) \<and>
      (\<forall>p. MtlsListening p \<notin> set (fst (create_mtls env m)) \<and> ApiListening p \<notin> set (fst (create_mtls env m)))
    else api_try InternalMtls (create_mtls env m) = (if mt_enabled m then [MtlsWatching] else [], Returned (mt_enabled m))"
proof -
  have w: "stage_thrown InternalMtls (runApiBootstrapStage InternalMtls (Thrown e))" if "\<And>s c. e \<noteq> ApiBootstrapError s c" for e
    using stage_wraps [of e InternalMtls, OF that] by (auto simp: stage_thrown_def)
  have d: "ae_material env \<noteq> Some (ApiBootstrapError s c)" "ae_watch env \<noteq> Some (ApiBootstrapError s c)" for s c
    using assms by (auto simp: env_plain_def)
  show ?thesis
    by (cases "ae_material env"; cases "ae_watch env")
      (auto simp: mtls_fail_def create_mtls_def api_try_def api_bind_def api_does_def plain_error_def d intro!: w)
qed

lemma bind_simps [simp]:
  "snd r = Returned a \<Longrightarrow> api_bind r f = (fst r @ fst (f a), snd (f a))"
  "snd r = Thrown e \<Longrightarrow> api_bind r f = (fst r, Thrown e)"
  by (simp_all add: api_bind_def)

lemma try_does:
  "api_try st (api_does None fx) = (fx, Returned ())"
  "(\<And>s c. e \<noteq> ApiBootstrapError s c) \<Longrightarrow> api_try st (api_does (Some e) fx) = ([], Thrown (ApiBootstrapError st e))"
  using stage_wraps [of e st] by (auto simp: api_try_def api_does_def)

lemma try_returned: "api_try st (fx, Returned a) = (fx, Returned a)"
  by (simp add: api_try_def)

lemma plain_wraps: "runApiBootstrapStage st (Thrown (plain_error m)) = Thrown (ApiBootstrapError st (plain_error m))"
  by (simp add: runApiBootstrapStage_def plain_error_def)

text \<open>The whole start in one case distinction.\<close>

lemma bootstrap_result:
  assumes plain: "env_plain env"
  shows "case failing_stage env of
      Some st \<Rightarrow> stage_thrown st (snd (bootstrapApi env)) \<and> (\<forall>p. ApiListening p \<notin> set (fst (bootstrapApi env))) \<and>
        (st = ApiListen \<longrightarrow> (\<exists>a. ae_config env = Inr a \<and> fst (bootstrapApi env) @ [ApiListening (ap_port a)] = full_start a))
    | None \<Rightarrow> (\<exists>a. ae_config env = Inr a \<and> \<not> docs_fail env a \<and>
        (if mt_enabled (ap_internalMtls a) \<and> \<not> ae_mtlsListens env
         then snd (bootstrapApi env) = ProcessEnded \<and> (\<forall>p. ApiListening p \<notin> set (fst (bootstrapApi env)))
         else bootstrapApi env = (full_start a, Returned ())))"
proof -
  have d: "ae_migrations env \<noteq> Some (ApiBootstrapError s c)" "ae_create env \<noteq> Some (ApiBootstrapError s c)"
    "ae_listen env \<noteq> Some (ApiBootstrapError s c)" for s c
    using plain by (auto simp: env_plain_def)
  show ?thesis
  proof (cases "ae_migrations env")
    case (Some e)
    with d(1) have "api_try StartupMigrations (api_does (ae_migrations env) [Migrated]) = ([], Thrown (ApiBootstrapError StartupMigrations e))"
      by (auto intro: try_does(2))
    with Some show ?thesis by (simp add: bootstrapApi_def failing_stage_def stage_thrown_def)
  next
    case m: None
    show ?thesis
    proof (cases "ae_create env")
      case (Some e)
      with d(2) have "api_try NestCreate (api_does (ae_create env) [AppCreated]) = ([], Thrown (ApiBootstrapError NestCreate e))"
        by (auto intro: try_does(2))
      with m Some show ?thesis by (simp add: bootstrapApi_def failing_stage_def stage_thrown_def try_does(1))
    next
      case c: None
      show ?thesis
      proof (cases "ae_config env")
        case (Inl msg)
        with m c show ?thesis by (simp add: bootstrapApi_def failing_stage_def stage_thrown_def api_try_def api_does_def plain_wraps)
      next
        case a: (Inr a)
        let ?docs = "api_try ModuleSetup (module_setup env a)"
        have start: "bootstrapApi env = api_bind ([Migrated, AppCreated], Returned ()) (\<lambda>_. api_bind ?docs (\<lambda>_.
            api_bind (api_try InternalMtls (create_mtls env (ap_internalMtls a))) (\<lambda>internalMtls.
            api_bind (if \<not> internalMtls then ([], Returned ())
              else if ae_mtlsListens env then ([MtlsListening (mt_port (ap_internalMtls a))], Returned ()) else ([], ProcessEnded)) (\<lambda>_.
            api_try ApiListen (api_does (ae_listen env) [ApiListening (ap_port a)])))))"
          using m c a by (simp add: bootstrapApi_def try_does(1) try_returned)
        show ?thesis
        proof (cases "docs_fail env a")
          case True
          with module_setup_result [OF plain, of a] obtain c' where s: "snd ?docs = Thrown (ApiBootstrapError ModuleSetup c')"
            and n: "\<And>p. ApiListening p \<notin> set (fst (module_setup env a))" by (auto simp: stage_thrown_def)
          have "fst ?docs = fst (module_setup env a)" by (simp add: api_try_def)
          with True m c a s n show ?thesis unfolding start by (simp add: failing_stage_def stage_thrown_def)
        next
          case docs: False
          with module_setup_result [OF plain, of a] have ready: "?docs = ([PrefixSet, PipesSet] @ (if ap_swaggerEnabled a
            then [DocsProtected (the (ap_swaggerUsername a)) (the (ap_swaggerPassword a)), DocsServed] else []), Returned ())" by simp
          let ?mtls = "api_try InternalMtls (create_mtls env (ap_internalMtls a))"
          show ?thesis
          proof (cases "mtls_fail env (ap_internalMtls a)")
            case True
            with create_mtls_result [OF plain, of "ap_internalMtls a"] obtain c' where s: "snd ?mtls = Thrown (ApiBootstrapError InternalMtls c')"
              and n: "\<And>p. ApiListening p \<notin> set (fst (create_mtls env (ap_internalMtls a)))" by (auto simp: stage_thrown_def)
            have "fst ?mtls = fst (create_mtls env (ap_internalMtls a))" by (simp add: api_try_def)
            with True docs m c a s n ready show ?thesis unfolding start by (simp add: failing_stage_def stage_thrown_def)
          next
            case tls: False
            with create_mtls_result [OF plain, of "ap_internalMtls a"]
            have mtls: "?mtls = (if mt_enabled (ap_internalMtls a) then [MtlsWatching] else [], Returned (mt_enabled (ap_internalMtls a)))" by simp
            show ?thesis
            proof (cases "mt_enabled (ap_internalMtls a) \<and> \<not> ae_mtlsListens env")
              case True
              with tls docs m c a ready mtls show ?thesis unfolding start by (simp add: failing_stage_def api_bind_def)
            next
              case listens: False
              show ?thesis
              proof (cases "ae_listen env")
                case None
                with listens tls docs m c a ready mtls show ?thesis
                  unfolding start by (auto simp: failing_stage_def try_does(1) full_start_def)
              next
                case (Some e)
                with d(3) have l: "api_try ApiListen (api_does (ae_listen env) [ApiListening (ap_port a)]) = ([], Thrown (ApiBootstrapError ApiListen e))"
                  by (auto intro: try_does(2))
                with Some listens tls docs m c a ready mtls show ?thesis
                  unfolding start by (auto simp: failing_stage_def full_start_def stage_thrown_def)
              qed
            qed
          qed
        qed
      qed
    qed
  qed
qed

lemma bootstrap_reports:
  assumes "env_plain env" and "snd (bootstrapApi env) = Thrown e"
  shows "failing_stage env = Some (fe_stage (formatApiBootstrapFailure e)) \<and> fe_errorType (formatApiBootstrapFailure e) = ''ApiBootstrapError''"
proof (cases "failing_stage env")
  case None
  with bootstrap_result [OF assms(1)] assms(2) show ?thesis by (auto split: if_splits)
next
  case (Some st)
  with bootstrap_result [OF assms(1)] assms(2) obtain c where "e = ApiBootstrapError st c" by (auto simp: stage_thrown_def)
  with Some show ?thesis by (simp add: formatApiBootstrapFailure_def Let_def)
qed

lemma bootstrap_listens:
  assumes "env_plain env"
  shows "(\<exists>p. ApiListening p \<in> set (fst (bootstrapApi env))) \<longleftrightarrow> snd (bootstrapApi env) = Returned ()"
    and "snd (bootstrapApi env) = Returned () \<longleftrightarrow>
      (\<exists>a. ae_config env = Inr a \<and> failing_stage env = None \<and> \<not> docs_fail env a \<and> fst (bootstrapApi env) = full_start a)"
proof -
  have l: "\<exists>p. ApiListening p \<in> set (full_start a)" for a by (auto simp: full_start_def)
  show "(\<exists>p. ApiListening p \<in> set (fst (bootstrapApi env))) \<longleftrightarrow> snd (bootstrapApi env) = Returned ()"
    using bootstrap_result [OF assms] l by (cases "failing_stage env") (auto simp: stage_thrown_def split: if_splits)
  show "snd (bootstrapApi env) = Returned () \<longleftrightarrow>
      (\<exists>a. ae_config env = Inr a \<and> failing_stage env = None \<and> \<not> docs_fail env a \<and> fst (bootstrapApi env) = full_start a)"
    using bootstrap_result [OF assms] l by (cases "failing_stage env") (force simp: stage_thrown_def split: if_splits)+
qed

text \<open>C28 The API serves only after a whole start: whatever the environment answers, it listens exactly when every stage
  succeeded, and then the database was migrated first, the documentation, if it is on, is behind credentials that are not
  empty, and the server for other services, if it is on, listens already.  A failed start reports the stage that stopped
  it, with an error text and a cause text of at most 240 characters on one line.  When the last stage fails, everything
  before it has been done and stays, the other server included.\<close>

theorem api_bootstrap_ordered:
  assumes "env_plain env" and "bootstrapApi env = (fx, r)"
  shows "((\<exists>p. ApiListening p \<in> set fx) \<longleftrightarrow> r = Returned ()) \<and>
    (r = Returned () \<longrightarrow> (\<exists>a. ae_config env = Inr a \<and> fx = full_start a \<and>
      (ap_swaggerEnabled a \<longrightarrow> (\<exists>u p. ap_swaggerUsername a = Some u \<and> ap_swaggerPassword a = Some p \<and> u \<noteq> [] \<and> p \<noteq> [])))) \<and>
    (\<forall>e. r = Thrown e \<longrightarrow> failing_stage env = Some (fe_stage (formatApiBootstrapFailure e)) \<and>
      reportable (fe_errorMessage (formatApiBootstrapFailure e)) \<and>
      (\<forall>m. fe_causeMessage (formatApiBootstrapFailure e) = Some m \<longrightarrow> reportable m)) \<and>
    (failing_stage env = Some ApiListen \<longrightarrow> (\<exists>a. ae_config env = Inr a \<and> fx @ [ApiListening (ap_port a)] = full_start a))"
proof (intro conjI allI impI)
  show "(\<exists>p. ApiListening p \<in> set fx) \<longleftrightarrow> r = Returned ()" using bootstrap_listens(1) [OF assms(1)] assms(2) by simp
  show "\<exists>a. ae_config env = Inr a \<and> fx = full_start a \<and>
      (ap_swaggerEnabled a \<longrightarrow> (\<exists>u p. ap_swaggerUsername a = Some u \<and> ap_swaggerPassword a = Some p \<and> u \<noteq> [] \<and> p \<noteq> []))"
    if ret: "r = Returned ()"
  proof -
    from bootstrap_listens(2) [OF assms(1)] assms(2) ret obtain a where a: "ae_config env = Inr a" "\<not> docs_fail env a" "fx = full_start a" by auto
    moreover from a(2) have "ap_swaggerEnabled a \<longrightarrow> (\<exists>u p. ap_swaggerUsername a = Some u \<and> ap_swaggerPassword a = Some p \<and> u \<noteq> [] \<and> p \<noteq> [])"
      by (cases "ap_swaggerUsername a"; cases "ap_swaggerPassword a") (auto simp: docs_fail_def)
    ultimately show ?thesis by blast
  qed
  show "failing_stage env = Some (fe_stage (formatApiBootstrapFailure e))" if "r = Thrown e" for e
    using bootstrap_reports [OF assms(1)] assms(2) that by simp
  show "reportable (fe_errorMessage (formatApiBootstrapFailure e))" for e
    by (simp add: formatApiBootstrapFailure_def Let_def safe_message_reportable)
  show "reportable m" if "fe_causeMessage (formatApiBootstrapFailure e) = Some m" for e m
  proof -
    from that have "m = getSafeErrorMessage (case e of ApiBootstrapError stage c \<Rightarrow> c | _ \<Rightarrow> NullishValue)"
      by (simp add: formatApiBootstrapFailure_def Let_def split: if_splits)
    then show ?thesis by (simp only: safe_message_reportable)
  qed
  show "\<exists>a. ae_config env = Inr a \<and> fx @ [ApiListening (ap_port a)] = full_start a" if "failing_stage env = Some ApiListen"
    using bootstrap_result [OF assms(1)] assms(2) that by auto
qed

definition sample_application :: application_settings where
  "sample_application =
     \<lparr>ap_environment = ''test'', ap_internalMtls = \<lparr>mt_caPath = Some ''ca'', mt_certPath = Some ''cert'', mt_enabled = True,
        mt_expectedClientSpiffeUri = None, mt_keyPath = Some ''key'', mt_port = JFin 3443\<rparr>,
      ap_port = JFin 3000, ap_swaggerEnabled = False, ap_swaggerPassword = None, ap_swaggerUsername = None\<rparr>"

definition taken_port :: api_env where
  "taken_port =
     \<lparr>ae_migrations = None, ae_create = None, ae_config = Inr sample_application, ae_document = None, ae_material = None,
      ae_watch = None, ae_mtlsListens = True, ae_listen = Some (ErrorValue ''Error'' ''listen EADDRINUSE'' (Some ''EADDRINUSE''))\<rparr>"

lemma api_bootstrap_ordered_witness:
  "MtlsListening (JFin 3443) \<in> set (fst (bootstrapApi taken_port)) \<and> \<not> (\<exists>p. ApiListening p \<in> set (fst (bootstrapApi taken_port)))"
proof -
  have plain: "env_plain taken_port" by (simp add: env_plain_def taken_port_def)
  obtain fx r where b: "bootstrapApi taken_port = (fx, r)" by fastforce
  have st: "failing_stage taken_port = Some ApiListen"
    by (simp add: failing_stage_def taken_port_def sample_application_def docs_fail_def mtls_fail_def)
  from api_bootstrap_ordered [OF plain b] st obtain a where a: "ae_config taken_port = Inr a" "fx @ [ApiListening (ap_port a)] = full_start a" by blast
  from a(1) have "a = sample_application" by (simp add: taken_port_def)
  with a(2) have fx: "fx = [Migrated, AppCreated, PrefixSet, PipesSet, MtlsWatching, MtlsListening (JFin 3443)]"
    by (simp add: full_start_def sample_application_def)
  then show ?thesis using b by auto
qed

section \<open>Credentials\<close>

definition base64_law :: "(string \<Rightarrow> nat list) \<Rightarrow> bool" where
  "base64_law decode64 \<longleftrightarrow> (\<forall>bs. (\<forall>b\<in>set bs. b < 256) \<longrightarrow> decode64 (base64_encode bs) = bs)"

definition basic_header :: "string \<Rightarrow> string \<Rightarrow> string" where
  "basic_header u p = ''Basic '' @ base64_encode (utf8_bytes (u @ '':'' @ p))"

lemma utf8_inj: "utf8_bytes s = utf8_bytes t \<longleftrightarrow> s = t"
  by (metis option.inject utf8_round_trip)

text \<open>Only the configured credentials open the API documentation: a request passes exactly if its header is of the
  basic scheme and its decoded text is the user name and password joined by a colon; so the header a client makes from the
  right pair passes, and the header of another pair only if it is the same text, which for names without a colon means
  the same pair.  Every other request is answered with 401.\<close>

theorem docs_credentials:
  assumes "base64_law decode64"
  shows "(createSwaggerBasicAuthMiddleware decode64 u p h = NextHandler \<longleftrightarrow>
      (\<exists>t. h = Some (''Basic '' @ t) \<and> decode64 t = utf8_bytes (u @ '':'' @ p))) \<and>
    (createSwaggerBasicAuthMiddleware decode64 u p (Some (basic_header u' p')) = NextHandler \<longleftrightarrow> u' @ '':'' @ p' = u @ '':'' @ p) \<and>
    (CHR '':'' \<notin> set u \<and> CHR '':'' \<notin> set u' \<longrightarrow> u' @ '':'' @ p' = u @ '':'' @ p \<longrightarrow> u' = u \<and> p' = p) \<and>
    (createSwaggerBasicAuthMiddleware decode64 u p h \<noteq> NextHandler \<longrightarrow>
      (\<exists>headers body. createSwaggerBasicAuthMiddleware decode64 u p h = Refused 401 headers body))"
proof (intro conjI)
  let ?m = "createSwaggerBasicAuthMiddleware decode64 u p" and ?e = "utf8_bytes (u @ '':'' @ p)"
  have six: "length ''Basic '' = 6" by simp
  have m: "?m h = NextHandler \<longleftrightarrow> (case h of Some a \<Rightarrow> if starts_with ''Basic '' a then decode64 (drop 6 a) else [] | None \<Rightarrow> []) = ?e" for h
    unfolding createSwaggerBasicAuthMiddleware_def Let_def six by auto
  have "?e \<noteq> []" by (simp add: utf8_char_def Let_def)
  have s: "starts_with ''Basic '' a \<longleftrightarrow> (\<exists>t. a = ''Basic '' @ t)" for a
  proof
    assume "starts_with ''Basic '' a"
    then have "take 6 a = ''Basic ''" unfolding starts_with_def six .
    then have "a = ''Basic '' @ drop 6 a" by (metis append_take_drop_id)
    then show "\<exists>t. a = ''Basic '' @ t" ..
  qed (auto simp: starts_with_def)
  show 1: "?m h = NextHandler \<longleftrightarrow> (\<exists>t. h = Some (''Basic '' @ t) \<and> decode64 t = ?e)" for h
  proof (cases "\<exists>t. h = Some (''Basic '' @ t)")
    case True
    then obtain t where t: "h = Some (''Basic '' @ t)" by blast
    then have "starts_with ''Basic '' (''Basic '' @ t)" using s by blast
    with m [of h] t show ?thesis by simp
  next
    case False
    with s \<open>?e \<noteq> []\<close> m [of h] show ?thesis by (cases h) auto
  qed
  have d: "decode64 (base64_encode (utf8_bytes (u' @ '':'' @ p'))) = utf8_bytes (u' @ '':'' @ p')"
    using assms utf8_less unfolding base64_law_def by blast
  show "?m (Some (basic_header u' p')) = NextHandler \<longleftrightarrow> u' @ '':'' @ p' = u @ '':'' @ p"
    unfolding 1 basic_header_def using d utf8_inj [of "u' @ '':'' @ p'" "u @ '':'' @ p"] by auto
  show "CHR '':'' \<notin> set u \<and> CHR '':'' \<notin> set u' \<longrightarrow> u' @ '':'' @ p' = u @ '':'' @ p \<longrightarrow> u' = u \<and> p' = p"
    by (auto simp: append_eq_append_conv2 Cons_eq_append_conv append_eq_Cons_conv)
  show "?m h \<noteq> NextHandler \<longrightarrow> (\<exists>headers body. ?m h = Refused 401 headers body)"
    by (simp add: createSwaggerBasicAuthMiddleware_def Let_def)
qed

definition digit64 :: "char \<Rightarrow> nat" where
  "digit64 c = length (takeWhile (\<lambda>d. d \<noteq> c) base64_digits)"

fun base64_decode :: "string \<Rightarrow> nat list" where
  "base64_decode (w # x # y # z # r) =
     (let a = digit64 w; b = digit64 x; c = digit64 y; d = digit64 z
      in if y = CHR ''='' then [a * 4 + b div 16]
         else if z = CHR ''='' then [a * 4 + b div 16, b mod 16 * 16 + c div 4]
         else (a * 4 + b div 16) # (b mod 16 * 16 + c div 4) # (c mod 4 * 64 + d) # base64_decode r)"
| "base64_decode _ = []"

lemma digit64_less: "n < 64 \<Longrightarrow> digit64 (base64_digits ! n) = n \<and> base64_digits ! n \<noteq> CHR ''=''"
proof -
  have "list_all (\<lambda>n. digit64 (base64_digits ! n) = n \<and> base64_digits ! n \<noteq> CHR ''='') [0..<64]" by code_simp
  then show "n < 64 \<Longrightarrow> ?thesis" by (simp add: list_all_iff)
qed

lemma byte_parts:
  "b < 256 \<Longrightarrow> b div 16 div 16 = 0 \<and> b div 16 mod 16 * 16 + b mod 16 = b \<and> b div 64 div 4 = 0 \<and> b div 64 mod 4 * 64 + b mod 64 = b" for b :: nat
proof -
  assume "b < 256"
  then have "b div 16 < 16" "b div 64 < 4" by (simp_all add: less_mult_imp_div_less)
  then show ?thesis by (simp add: div_mult_mod_eq)
qed

lemma base64_sample: "base64_law base64_decode"
proof -
  have "base64_decode (base64_encode bs) = bs" if "\<forall>b\<in>set bs. b < 256" for bs
    using that
  proof (induction bs rule: base64_encode.induct)
    case (2 a)
    then have "a div 4 < 64" "a mod 4 * 16 < 64" by auto
    from this [THEN digit64_less] show ?case by (simp add: Let_def)
  next
    case (3 a b)
    then have "a div 4 < 64" "a mod 4 * 16 + b div 16 < 64" "b mod 16 * 4 < 64" by auto
    moreover have "b div 16 div 16 = 0" "b div 16 mod 16 * 16 + b mod 16 = b" using 3 byte_parts [of b] by simp_all
    ultimately show ?case using digit64_less by (simp add: Let_def)
  next
    case (4 a b c r)
    then have "a div 4 < 64" "a mod 4 * 16 + b div 16 < 64" "b mod 16 * 4 + c div 64 < 64" "c mod 64 < 64" by auto
    moreover have "b div 16 div 16 = 0" "b div 16 mod 16 * 16 + b mod 16 = b" "c div 64 div 4 = 0" "c div 64 mod 4 * 64 + c mod 64 = c"
      using 4 byte_parts [of b] byte_parts [of c] by simp_all
    ultimately show ?case using 4 digit64_less by (simp add: Let_def)
  qed simp
  then show ?thesis by (simp add: base64_law_def)
qed

lemma docs_credentials_witness:
  "createSwaggerBasicAuthMiddleware base64_decode ''docs'' ''secret'' (Some (basic_header ''docs'' ''secret'')) = NextHandler \<and>
   createSwaggerBasicAuthMiddleware base64_decode ''docs'' ''secret'' (Some (basic_header ''docs'' ''Secret'')) \<noteq> NextHandler"
proof
  note passes = docs_credentials [OF base64_sample, THEN conjunct2, THEN conjunct1]
  show "createSwaggerBasicAuthMiddleware base64_decode ''docs'' ''secret'' (Some (basic_header ''docs'' ''secret'')) = NextHandler"
    unfolding passes by (rule refl)
  show "createSwaggerBasicAuthMiddleware base64_decode ''docs'' ''secret'' (Some (basic_header ''docs'' ''Secret'')) \<noteq> NextHandler"
    unfolding passes by simp
qed

end
