(* ===== verification/BackendRoutes.thy ===== *)
theory BackendRoutes imports ApiBootstrap ModelAccess begin

text \<open>
  The way of a request from a page to an operation of the backend: the paths of the browser's client
  (\<open>web/src/lib/phase0/client.ts\<close>), the route handlers of the web server (\<open>web/src/app/api/phase0\<close>), its configuration
  and requests (\<open>server-config.ts\<close>, \<open>backend-client.ts\<close>), the paths of the backend's controllers, and the requests the
  web server makes for its own pages (\<open>server-data.ts\<close>).  \<open>fetch\<close> and the two routers split a path at its slashes,
  drop dot segments and decode each segment, as the URL standard says.
\<close>

section \<open>Paths\<close>

text \<open>\<open>encodeURIComponent\<close> and \<open>decodeURIComponent\<close>.\<close>

definition component_plain :: "nat \<Rightarrow> bool" where
  "component_plain b \<longleftrightarrow>
     48 \<le> b \<and> b \<le> 57 \<or> 65 \<le> b \<and> b \<le> 90 \<or> 97 \<le> b \<and> b \<le> 122 \<or> b \<in> {33, 39, 40, 41, 42, 45, 46, 95, 126}"

definition component_byte :: "nat \<Rightarrow> nat list" where
  "component_byte b =
     (if component_plain b then [b]
      else [37, hex_upper (b div 16), hex_upper (b mod 16)])"

definition encodeURIComponent :: "string \<Rightarrow> string" where
  "encodeURIComponent s = map char_of (concat (map component_byte (utf8_bytes s)))"

definition decodeURIComponent :: "string \<Rightarrow> string option" where
  "decodeURIComponent s = utf8_text (percent_decode (utf8_bytes s))"

definition single_dot :: "string \<Rightarrow> bool" where
  "single_dot s \<longleftrightarrow> js_lower s \<in> {''.'', ''%2e''}"

definition double_dot :: "string \<Rightarrow> bool" where
  "double_dot s \<longleftrightarrow> js_lower s \<in> {''..'', ''.%2e'', ''%2e.'', ''%2e%2e''}"

fun resolve_dots :: "string list \<Rightarrow> string list \<Rightarrow> string list" where
  "resolve_dots acc [] = rev acc"
| "resolve_dots acc (s # ss) =
     (if double_dot s then (if ss = [] then rev ([] # tl acc) else resolve_dots (tl acc) ss)
      else if single_dot s then (if ss = [] then rev ([] # acc) else resolve_dots acc ss)
      else resolve_dots (s # acc) ss)"

text \<open>The decoded segments of a path, \<^const>\<open>None\<close> for one no router matches.\<close>

definition path_segments :: "string \<Rightarrow> string list option" where
  "path_segments path = those (map decodeURIComponent (resolve_dots [] (tl (split_char (CHR ''/'') path))))"

section \<open>Operations and their paths\<close>

datatype http_verb = HttpGet | HttpPost

datatype backend_operation =
  ListDocuments | GetDocument string | CreateUploadUrl | EstimateBeforeUpload | ConfirmDocument string | GetDocumentQuiz string
| GetQuiz string | GetPracticeFeedback string | SubmitAttempt string | GetAttemptResult string string | ListModels

fun operation_verb :: "backend_operation \<Rightarrow> http_verb" where
  "operation_verb CreateUploadUrl = HttpPost"
| "operation_verb EstimateBeforeUpload = HttpPost"
| "operation_verb (ConfirmDocument d) = HttpPost"
| "operation_verb (GetPracticeFeedback q) = HttpPost"
| "operation_verb (SubmitAttempt q) = HttpPost"
| "operation_verb _ = HttpGet"

text \<open>The calls of the browser.\<close>

fun client_path :: "backend_operation \<Rightarrow> string" where
  "client_path ListDocuments = ''/api/phase0/documents''"
| "client_path (GetDocument d) = ''/api/phase0/documents/'' @ d"
| "client_path ListModels = ''/api/phase0/ai/models''"
| "client_path EstimateBeforeUpload = ''/api/phase0/documents/estimate''"
| "client_path CreateUploadUrl = ''/api/phase0/documents/upload-url''"
| "client_path (ConfirmDocument d) = ''/api/phase0/documents/'' @ d @ ''/confirm''"
| "client_path (GetDocumentQuiz d) = ''/api/phase0/documents/'' @ d @ ''/quiz''"
| "client_path (GetQuiz q) = ''/api/phase0/quizzes/'' @ q"
| "client_path (GetPracticeFeedback q) = ''/api/phase0/quizzes/'' @ q @ ''/practice-feedback''"
| "client_path (SubmitAttempt q) = ''/api/phase0/quizzes/'' @ q @ ''/attempts''"
| "client_path (GetAttemptResult q a) = ''/api/phase0/quizzes/'' @ q @ ''/attempts/'' @ a"

text \<open>The handler the web server chooses: a directory with a fixed name goes before one with a parameter.\<close>

definition next_handler :: "http_verb \<Rightarrow> string list \<Rightarrow> backend_operation option" where
  "next_handler v segments =
     (case segments of
        [a, p, s] \<Rightarrow>
          if a = ''api'' \<and> p = ''phase0'' \<and> s = ''documents'' \<and> v = HttpGet then Some ListDocuments else None
      | [a, p, s, x] \<Rightarrow>
          if a \<noteq> ''api'' \<or> p \<noteq> ''phase0'' then None
          else if s = ''ai'' then (if x = ''models'' \<and> v = HttpGet then Some ListModels else None)
          else if s = ''documents'' then
            (if x = ''upload-url'' then (if v = HttpPost then Some CreateUploadUrl else None)
             else if x = ''estimate'' then (if v = HttpPost then Some EstimateBeforeUpload else None)
             else if v = HttpGet then Some (GetDocument x) else None)
          else if s = ''quizzes'' \<and> v = HttpGet then Some (GetQuiz x) else None
      | [a, p, s, x, o'] \<Rightarrow>
          if a \<noteq> ''api'' \<or> p \<noteq> ''phase0'' then None
          else if s = ''documents'' then
            (if o' = ''quiz'' \<and> v = HttpGet then Some (GetDocumentQuiz x)
             else if o' = ''confirm'' \<and> v = HttpPost then Some (ConfirmDocument x) else None)
          else if s = ''quizzes'' \<and> v = HttpPost then
            (if o' = ''attempts'' then Some (SubmitAttempt x)
             else if o' = ''practice-feedback'' then Some (GetPracticeFeedback x) else None)
          else None
      | [a, p, s, x, o', y] \<Rightarrow>
          if a = ''api'' \<and> p = ''phase0'' \<and> s = ''quizzes'' \<and> o' = ''attempts'' \<and> v = HttpGet
          then Some (GetAttemptResult x y) else None
      | _ \<Rightarrow> None)"

text \<open>
  What each handler asks the backend for, one file of \<open>web/src/app/api/phase0\<close> each.  A handler of a POST with a body hands the
  browser's JSON on (\<^const>\<open>proxyPhase0JsonPost\<close>).
\<close>

definition documents_route :: "http_verb \<times> string" where
  "documents_route = (HttpGet, ''/documents'')"

definition document_route :: "string \<Rightarrow> http_verb \<times> string" where
  "document_route id' = (HttpGet, ''/documents/'' @ encodeURIComponent id')"

definition document_quiz_route :: "string \<Rightarrow> http_verb \<times> string" where
  "document_quiz_route id' = (HttpGet, (''/documents/'' @ encodeURIComponent id') @ ''/quiz'')"

definition document_confirm_route :: "string \<Rightarrow> http_verb \<times> string" where
  "document_confirm_route id' = (HttpPost, (''/documents/'' @ encodeURIComponent id') @ ''/confirm'')"

definition upload_url_route :: "http_verb \<times> string" where
  "upload_url_route = (HttpPost, ''/documents/upload-url'')"

definition estimate_route :: "http_verb \<times> string" where
  "estimate_route = (HttpPost, ''/documents/estimate'')"

definition models_route :: "http_verb \<times> string" where
  "models_route = (HttpGet, ''/ai/models'')"

definition quiz_route :: "string \<Rightarrow> http_verb \<times> string" where
  "quiz_route id' = (HttpGet, ''/quizzes/'' @ encodeURIComponent id')"

definition practice_feedback_route :: "string \<Rightarrow> http_verb \<times> string" where
  "practice_feedback_route id' = (HttpPost, ''/quizzes/'' @ encodeURIComponent id' @ ''/practice-feedback'')"

definition attempts_route :: "string \<Rightarrow> http_verb \<times> string" where
  "attempts_route id' = (HttpPost, ''/quizzes/'' @ encodeURIComponent id' @ ''/attempts'')"

definition attempt_route :: "string \<Rightarrow> string \<Rightarrow> http_verb \<times> string" where
  "attempt_route id' attemptId =
     (HttpGet, ''/quizzes/'' @ encodeURIComponent id' @ ''/attempts/'' @ encodeURIComponent attemptId)"

fun route_call :: "backend_operation \<Rightarrow> http_verb \<times> string" where
  "route_call ListDocuments = documents_route"
| "route_call (GetDocument d) = document_route d"
| "route_call ListModels = models_route"
| "route_call EstimateBeforeUpload = estimate_route"
| "route_call CreateUploadUrl = upload_url_route"
| "route_call (ConfirmDocument d) = document_confirm_route d"
| "route_call (GetDocumentQuiz d) = document_quiz_route d"
| "route_call (GetQuiz q) = quiz_route q"
| "route_call (GetPracticeFeedback q) = practice_feedback_route q"
| "route_call (SubmitAttempt q) = attempts_route q"
| "route_call (GetAttemptResult q a) = attempt_route q a"

lemmas route_defs = documents_route_def document_route_def document_quiz_route_def document_confirm_route_def upload_url_route_def
  estimate_route_def models_route_def quiz_route_def practice_feedback_route_def attempts_route_def attempt_route_def

text \<open>The controllers' handlers of a path, below the prefix of the API.\<close>

definition content_controller :: "http_verb \<Rightarrow> string list \<Rightarrow> backend_operation option" where
  "content_controller v segments =
     (case segments of
        [] \<Rightarrow> if v = HttpGet then Some ListDocuments else None
      | [x] \<Rightarrow>
          if v = HttpPost \<and> x = ''upload-url'' then Some CreateUploadUrl
          else if v = HttpPost \<and> x = ''estimate'' then Some EstimateBeforeUpload
          else if v = HttpGet \<and> x \<noteq> [] then Some (GetDocument x) else None
      | [x, o'] \<Rightarrow>
          if x = [] then None
          else if v = HttpGet \<and> o' = ''quiz'' then Some (GetDocumentQuiz x)
          else if v = HttpPost \<and> o' = ''confirm'' then Some (ConfirmDocument x) else None
      | _ \<Rightarrow> None)"

definition assessment_controller :: "http_verb \<Rightarrow> string list \<Rightarrow> backend_operation option" where
  "assessment_controller v segments =
     (case segments of
        [x] \<Rightarrow> if v = HttpGet \<and> x \<noteq> [] then Some (GetQuiz x) else None
      | [x, o'] \<Rightarrow>
          if x = [] \<or> v \<noteq> HttpPost then None
          else if o' = ''practice-feedback'' then Some (GetPracticeFeedback x)
          else if o' = ''attempts'' then Some (SubmitAttempt x) else None
      | [x, o', y] \<Rightarrow>
          if x \<noteq> [] \<and> o' = ''attempts'' \<and> y \<noteq> [] \<and> v = HttpGet then Some (GetAttemptResult x y) else None
      | _ \<Rightarrow> None)"

definition controller_operation :: "http_verb \<Rightarrow> string list \<Rightarrow> backend_operation option" where
  "controller_operation v segments =
     (case segments of
        s # ss \<Rightarrow>
          if s = ''documents'' then content_controller v ss
          else if s = ''quizzes'' then assessment_controller v ss
          else if s = ''ai'' \<and> ss = [''models''] \<and> v = HttpGet then Some ListModels else None
      | [] \<Rightarrow> None)"

section \<open>The request of the web server\<close>

record phase0_server_config =
  sc_apiBaseUrl :: string
  sc_ownerId :: string

definition readEnvironmentValue :: "(string \<rightharpoonup> string) \<Rightarrow> string \<Rightarrow> string + string" where
  "readEnvironmentValue env name =
     (case env name of
        Some v \<Rightarrow> if v = [] then Inl (name @ '' must be configured for the Phase 0 BFF.'') else Inr v
      | None \<Rightarrow> Inl (name @ '' must be configured for the Phase 0 BFF.''))"

definition readApiBaseUrl :: "(string \<Rightarrow> url_parts option) \<Rightarrow> (string \<rightharpoonup> string) \<Rightarrow> string + string" where
  "readApiBaseUrl parse env =
     and_then (readEnvironmentValue env ''PHASE0_API_BASE_URL'') (\<lambda>v.
       case parse v of
         None \<Rightarrow> Inl ''PHASE0_API_BASE_URL must be an absolute HTTP(S) URL.''
       | Some url \<Rightarrow>
           if url_protocol url \<noteq> ''http:'' \<and> url_protocol url \<noteq> ''https:''
           then Inl ''PHASE0_API_BASE_URL must use HTTP or HTTPS.''
           else Inr (let t = url_toString url in if ends_with ''/'' t then butlast t else t))"

definition readOwnerId :: "(string \<rightharpoonup> string) \<Rightarrow> string + string" where
  "readOwnerId env =
     and_then (readEnvironmentValue env ''PHASE0_DEV_OWNER_ID'') (\<lambda>v.
       if \<not> uuid_pattern ''12345'' v then Inl ''PHASE0_DEV_OWNER_ID must be a UUID.'' else Inr v)"

definition getPhase0ServerConfig ::
  "(string \<Rightarrow> url_parts option) \<Rightarrow> (string \<rightharpoonup> string) \<Rightarrow> string + phase0_server_config" where
  "getPhase0ServerConfig parse env =
     and_then (readApiBaseUrl parse env) (\<lambda>apiBaseUrl.
     and_then (readOwnerId env) (\<lambda>ownerId. Inr \<lparr>sc_apiBaseUrl = apiBaseUrl, sc_ownerId = ownerId\<rparr>))"

record backend_request =
  bq_verb :: http_verb
  bq_url :: string
  bq_headers :: "(string \<times> string) list"
  bq_body :: "string option"

text \<open>What \<open>requestPhase0Backend\<close> sends.\<close>

definition backend_request_of ::
  "number_text \<Rightarrow> phase0_server_config \<Rightarrow> http_verb \<Rightarrow> string \<Rightarrow> json option \<Rightarrow> backend_request" where
  "backend_request_of nt config verb path body =
     \<lparr>bq_verb = verb, bq_url = sc_apiBaseUrl config @ path,
      bq_headers = (''X-User-Id'', sc_ownerId config) # (if body = None then [] else [(''Content-Type'', ''application/json'')]),
      bq_body = map_option (json_str nt) body\<rparr>"

section \<open>Data for the pages of the web server\<close>

datatype server_failure = Phase0ServerError nat string | ServerThrows string

definition read_server_body :: "number_text \<Rightarrow> http_response \<Rightarrow> json" where
  "read_server_body nt r =
     (if hr_text r = [] then JNull else case json_parse nt (hr_text r) of None \<Rightarrow> JStr (hr_text r) | Some v \<Rightarrow> v)"

definition readErrorMessage :: "json \<Rightarrow> string" where
  "readErrorMessage v =
     (case v of
        JObj kvs \<Rightarrow> (case obj_get kvs ''message'' of Some (JStr m) \<Rightarrow> m | _ \<Rightarrow> no_message)
      | JStr s \<Rightarrow> if js_trim s \<noteq> [] then s else no_message
      | _ \<Rightarrow> no_message)"

definition requestServerData ::
  "number_text \<Rightarrow> (json option \<Rightarrow> string + 'a) \<Rightarrow> http_response option \<Rightarrow> server_failure + 'a" where
  "requestServerData nt mapper answer =
     (case requestPhase0Backend nt answer of
        None \<Rightarrow> Inl (ServerThrows ''invalid JSON'')
      | Some r \<Rightarrow>
          let body = read_server_body nt r
          in if \<not> response_ok r then Inl (Phase0ServerError (hr_status r) (readErrorMessage body))
             else map_sum ServerThrows id (mapper (Some body)))"

datatype 'a server_page = ServedPage 'a | NotFoundPage | ErrorPage

definition or_not_found :: "server_failure + 'a \<Rightarrow> 'a server_page" where
  "or_not_found r =
     (case r of
        Inr a \<Rightarrow> ServedPage a
      | Inl (Phase0ServerError status m) \<Rightarrow> if status = 404 then NotFoundPage else ErrorPage
      | Inl (ServerThrows m) \<Rightarrow> ErrorPage)"

text \<open>
  The calls of the pages, over the answers of the backend to a path.  The identifier of the page's address is put into the path
  as it is.
\<close>

definition getPhase0DocumentServer :: "number_text \<Rightarrow> (string \<Rightarrow> http_response option) \<Rightarrow> string \<Rightarrow> server_failure + phase0_document" where
  "getPhase0DocumentServer nt fetched documentId = requestServerData nt mapDocument (fetched (''/documents/'' @ documentId))"

definition getPhase0QuizServer :: "number_text \<Rightarrow> (string \<Rightarrow> http_response option) \<Rightarrow> string \<Rightarrow> server_failure + phase0_quiz" where
  "getPhase0QuizServer nt fetched quizId = requestServerData nt mapQuizResponse (fetched (''/quizzes/'' @ quizId))"

definition getPhase0AttemptResultServer ::
  "number_text \<Rightarrow> (string \<Rightarrow> http_response option) \<Rightarrow> string \<Rightarrow> string \<Rightarrow> server_failure + phase0_attempt_result" where
  "getPhase0AttemptResultServer nt fetched quizId attemptId =
     requestServerData nt mapAttemptResultResponse (fetched (''/quizzes/'' @ quizId @ ''/attempts/'' @ attemptId))"

definition loadQuizOr404 :: "number_text \<Rightarrow> (string \<Rightarrow> http_response option) \<Rightarrow> string \<Rightarrow> phase0_quiz server_page" where
  "loadQuizOr404 nt fetched id' = or_not_found (getPhase0QuizServer nt fetched id')"

definition loadDocument :: "number_text \<Rightarrow> (string \<Rightarrow> http_response option) \<Rightarrow> string \<Rightarrow> phase0_document server_page" where
  "loadDocument nt fetched id' = or_not_found (getPhase0DocumentServer nt fetched id')"

definition loadAttemptResultOr404 ::
  "number_text \<Rightarrow> (string \<Rightarrow> http_response option) \<Rightarrow> string \<Rightarrow> string \<Rightarrow> phase0_attempt_result server_page" where
  "loadAttemptResultOr404 nt fetched quizId attemptId = or_not_found (getPhase0AttemptResultServer nt fetched quizId attemptId)"


section \<open>Segments are read back\<close>

lemma component_decoded:
  assumes "b < 256"
  shows "percent_decode (component_byte b @ r) = b # percent_decode r"
proof -
  have d: "b div 16 < 16" "b mod 16 < 16" using assms by auto
  have e: "percent_decode ([37, hex_upper (b div 16), hex_upper (b mod 16)] @ r) = b # percent_decode r"
    using percent_decode_escape [OF hex_digit_upper [OF d(1)] hex_digit_upper [OF d(2)], of r] by simp
  show ?thesis
  proof (cases "component_plain b")
    case True
    then have "b \<noteq> 37" by (auto simp: component_plain_def)
    with True show ?thesis by (simp add: component_byte_def percent_decode_plain)
  next
    case False
    with e show ?thesis by (simp only: component_byte_def if_False)
  qed
qed

lemma components_decoded: "(\<And>b. b \<in> set bs \<Longrightarrow> b < 256) \<Longrightarrow> percent_decode (concat (map component_byte bs)) = bs"
proof (induction bs)
  case (Cons b bs)
  then show ?case using component_decoded [of b] by simp
qed simp

lemma component_bytes:
  assumes "b < 256" and "x \<in> set (component_byte b)"
  shows "x < 128 \<and> x \<noteq> 47"
proof -
  have h: "hex_upper d < 128 \<and> hex_upper d \<noteq> 47" if "d < 16" for d using that by (auto simp: hex_upper_def)
  have "b div 16 < 16" "b mod 16 < 16" using assms(1) by auto
  moreover have "component_plain b \<Longrightarrow> b < 128 \<and> b \<noteq> 47" by (auto simp: component_plain_def)
  ultimately show ?thesis using assms(2) h by (auto simp: component_byte_def split: if_splits)
qed

lemma encoded_byte: "x \<in> set (concat (map component_byte (utf8_bytes s))) \<Longrightarrow> x < 128 \<and> x \<noteq> 47"
proof -
  assume "x \<in> set (concat (map component_byte (utf8_bytes s)))"
  then obtain b where "b \<in> set (utf8_bytes s)" "x \<in> set (component_byte b)" by auto
  with component_bytes [of b x] utf8_less [of b s] show ?thesis by blast
qed

lemma component_round_trip: "decodeURIComponent (encodeURIComponent s) = Some s"
proof -
  let ?bs = "utf8_bytes s"
  have "utf8_bytes (encodeURIComponent s) = concat (map component_byte ?bs)"
    unfolding encodeURIComponent_def using encoded_byte by (intro utf8_ascii) blast
  moreover have "percent_decode (concat (map component_byte ?bs)) = ?bs" using utf8_less by (intro components_decoded)
  ultimately show ?thesis unfolding decodeURIComponent_def by (simp only: utf8_round_trip)
qed

lemma no_slash_encoded: "CHR ''/'' \<notin> set (encodeURIComponent s)"
proof
  assume "CHR ''/'' \<in> set (encodeURIComponent s)"
  then obtain x where x: "x \<in> set (concat (map component_byte (utf8_bytes s)))" "CHR ''/'' = char_of x"
    unfolding encodeURIComponent_def set_map by blast
  then have "x < 128 \<and> x \<noteq> 47" using encoded_byte by blast
  moreover have "(of_char (CHR ''/'') :: nat) = of_char (char_of x)" using x(2) by (rule arg_cong)
  ultimately show False by simp
qed


text \<open>Only the dots themselves are dot segments.\<close>

lemma lower_code:
  "(of_char (char_lower c) :: nat) =
     (let n = of_char c in if 65 \<le> n \<and> n \<le> 90 \<or> 192 \<le> n \<and> n \<le> 222 \<and> n \<noteq> 215 then n + 32 else n)"
  by (simp add: char_lower_def Let_def)

lemma lower_char:
  "char_lower c = CHR ''.'' \<longleftrightarrow> c = CHR ''.''" "char_lower c = CHR ''%'' \<longleftrightarrow> c = CHR ''%''"
  "char_lower c = CHR ''2'' \<longleftrightarrow> c = CHR ''2''" "char_lower c = CHR ''e'' \<longleftrightarrow> c = CHR ''e'' \<or> c = CHR ''E''"
proof -
  have code: "c = d \<longleftrightarrow> (of_char c :: nat) = of_char d" for c d :: char by (metis char_of_char)
  show "char_lower c = CHR ''.'' \<longleftrightarrow> c = CHR ''.''" "char_lower c = CHR ''%'' \<longleftrightarrow> c = CHR ''%''"
    "char_lower c = CHR ''2'' \<longleftrightarrow> c = CHR ''2''" "char_lower c = CHR ''e'' \<longleftrightarrow> c = CHR ''e'' \<or> c = CHR ''E''"
    unfolding code lower_code Let_def by auto
qed

lemma dot_texts: "decodeURIComponent ''.'' = Some ''.''" "decodeURIComponent ''%2e'' = Some ''.''" "decodeURIComponent ''%2E'' = Some ''.''"
  "decodeURIComponent ''..'' = Some ''..''" "decodeURIComponent ''.%2e'' = Some ''..''" "decodeURIComponent ''.%2E'' = Some ''..''"
  "decodeURIComponent ''%2e.'' = Some ''..''" "decodeURIComponent ''%2E.'' = Some ''..''"
  "decodeURIComponent ''%2e%2e'' = Some ''..''" "decodeURIComponent ''%2e%2E'' = Some ''..''"
  "decodeURIComponent ''%2E%2e'' = Some ''..''" "decodeURIComponent ''%2E%2E'' = Some ''..''"
  by code_simp+

lemma dot_decoded:
  "single_dot s \<Longrightarrow> decodeURIComponent s = Some ''.''"
  "double_dot s \<Longrightarrow> decodeURIComponent s = Some ''..''"
  unfolding single_dot_def double_dot_def js_lower_def
  by (auto simp: map_eq_Cons_conv lower_char dot_texts)

lemma encoded_no_dots:
  assumes "s \<noteq> ''.''" and "s \<noteq> ''..''"
  shows "\<not> single_dot (encodeURIComponent s)" and "\<not> double_dot (encodeURIComponent s)"
  using assms dot_decoded [of "encodeURIComponent s"] component_round_trip [of s] by auto

definition path_of :: "string list \<Rightarrow> string" where
  "path_of ss = concat (map (\<lambda>s. CHR ''/'' # encodeURIComponent s) ss)"

lemma resolve_plain:
  assumes "\<And>s. s \<in> set ss \<Longrightarrow> \<not> single_dot s \<and> \<not> double_dot s"
  shows "resolve_dots acc ss = rev acc @ ss"
  using assms by (induction ss arbitrary: acc) auto

lemma path_join: "ss \<noteq> [] \<Longrightarrow> path_of ss = CHR ''/'' # join_with ''/'' (map encodeURIComponent ss)"
proof (induction ss)
  case (Cons s ss)
  then show ?case by (cases ss) (simp_all add: path_of_def)
qed simp

lemma path_segments_of:
  assumes "ss \<noteq> []" and "''.'' \<notin> set ss" and "''..'' \<notin> set ss"
  shows "path_segments (path_of ss) = Some ss"
proof -
  let ?es = "map encodeURIComponent ss"
  have "split_char (CHR ''/'') (join_with ''/'' ?es) = ?es"
    using assms(1) no_slash_encoded by (intro split_join) auto
  with assms(1) have "tl (split_char (CHR ''/'') (path_of ss)) = ?es" by (simp add: path_join)
  moreover have "resolve_dots [] ?es = ?es"
  proof -
    have "\<not> single_dot e \<and> \<not> double_dot e" if "e \<in> set ?es" for e
    proof -
      from that obtain s where "s \<in> set ss" "e = encodeURIComponent s" by auto
      with assms(2,3) encoded_no_dots [of s] show ?thesis by (metis)
    qed
    then have "resolve_dots [] ?es = rev [] @ ?es" by (rule resolve_plain)
    then show ?thesis by simp
  qed
  moreover have "those (map decodeURIComponent ?es) = Some ss"
    by (induction ss) (simp_all add: component_round_trip)
  ultimately show ?thesis by (simp only: path_segments_def)
qed


section \<open>Properties\<close>

fun operation_ids :: "backend_operation \<Rightarrow> string list" where
  "operation_ids (GetDocument d) = [d]"
| "operation_ids (ConfirmDocument d) = [d]"
| "operation_ids (GetDocumentQuiz d) = [d]"
| "operation_ids (GetQuiz q) = [q]"
| "operation_ids (GetPracticeFeedback q) = [q]"
| "operation_ids (SubmitAttempt q) = [q]"
| "operation_ids (GetAttemptResult q a) = [q, a]"
| "operation_ids _ = []"

fun route_segments :: "backend_operation \<Rightarrow> string list" where
  "route_segments ListDocuments = [''documents'']"
| "route_segments (GetDocument d) = [''documents'', d]"
| "route_segments ListModels = [''ai'', ''models'']"
| "route_segments EstimateBeforeUpload = [''documents'', ''estimate'']"
| "route_segments CreateUploadUrl = [''documents'', ''upload-url'']"
| "route_segments (ConfirmDocument d) = [''documents'', d, ''confirm'']"
| "route_segments (GetDocumentQuiz d) = [''documents'', d, ''quiz'']"
| "route_segments (GetQuiz q) = [''quizzes'', q]"
| "route_segments (GetPracticeFeedback q) = [''quizzes'', q, ''practice-feedback'']"
| "route_segments (SubmitAttempt q) = [''quizzes'', q, ''attempts'']"
| "route_segments (GetAttemptResult q a) = [''quizzes'', q, ''attempts'', a]"

lemma plain_encoded:
  assumes "\<And>c. c \<in> set s \<Longrightarrow> component_plain (of_char c)"
  shows "encodeURIComponent s = s"
  using assms
proof (induction s)
  case (Cons c s)
  have p: "component_plain (of_char c)" using Cons.prems by simp
  then have "(of_char c :: nat) < 128" by (auto simp: component_plain_def)
  with p have "map char_of (concat (map component_byte (utf8_char c))) = [c]" by (simp add: utf8_char_def component_byte_def)
  with Cons show ?case by (simp add: encodeURIComponent_def)
qed (simp add: encodeURIComponent_def)

lemma plain_name: "list_all (\<lambda>c. component_plain (of_char c)) s \<Longrightarrow> encodeURIComponent s = s"
  by (rule plain_encoded) (simp add: list_all_iff)

lemma names_encoded:
  "encodeURIComponent ''documents'' = ''documents''" "encodeURIComponent ''ai'' = ''ai''" "encodeURIComponent ''models'' = ''models''"
  "encodeURIComponent ''estimate'' = ''estimate''" "encodeURIComponent ''upload-url'' = ''upload-url''"
  "encodeURIComponent ''confirm'' = ''confirm''" "encodeURIComponent ''quiz'' = ''quiz''" "encodeURIComponent ''quizzes'' = ''quizzes''"
  "encodeURIComponent ''practice-feedback'' = ''practice-feedback''" "encodeURIComponent ''attempts'' = ''attempts''"
  "encodeURIComponent ''api'' = ''api''" "encodeURIComponent ''phase0'' = ''phase0''"
  by (rule plain_name, simp add: component_plain_def)+

lemma route_call_of: "route_call op = (operation_verb op, path_of (route_segments op))"
  by (cases op) (simp_all add: path_of_def names_encoded route_defs)

lemma client_path_of:
  assumes "\<And>x. x \<in> set (operation_ids op) \<Longrightarrow> encodeURIComponent x = x"
  shows "client_path op = path_of (''api'' # ''phase0'' # route_segments op)"
  using assms by (cases op) (simp_all add: path_of_def names_encoded)

lemma segments_no_dots:
  "(\<And>x. x \<in> set (operation_ids op) \<Longrightarrow> x \<noteq> ''.'' \<and> x \<noteq> ''..'') \<Longrightarrow>
    ''.'' \<notin> set (route_segments op) \<and> ''..'' \<notin> set (route_segments op) \<and> route_segments op \<noteq> []"
  by (cases op) auto

lemma controller_finds:
  "(\<And>x. x \<in> set (operation_ids op) \<Longrightarrow> x \<noteq> []) \<Longrightarrow> controller_operation (operation_verb op) (route_segments op) = Some op"
  by (cases op) (simp_all add: controller_operation_def content_controller_def assessment_controller_def)

lemma next_finds:
  "(\<And>x. x \<in> set (operation_ids op) \<Longrightarrow> x \<noteq> ''upload-url'' \<and> x \<noteq> ''estimate'') \<Longrightarrow>
    next_handler (operation_verb op) (''api'' # ''phase0'' # route_segments op) = Some op"
  by (cases op) (simp_all add: next_handler_def)

lemma route_reaches:
  assumes "\<And>x. x \<in> set (operation_ids op) \<Longrightarrow> x \<noteq> [] \<and> x \<noteq> ''.'' \<and> x \<noteq> ''..''"
  shows "Option.bind (path_segments (snd (route_call op))) (controller_operation (fst (route_call op))) = Some op"
proof -
  have d: "''.'' \<notin> set (route_segments op) \<and> ''..'' \<notin> set (route_segments op) \<and> route_segments op \<noteq> []"
    using assms by (intro segments_no_dots) blast
  then have "path_segments (snd (route_call op)) = Some (route_segments op)"
    unfolding route_call_of snd_conv by (intro path_segments_of) blast+
  moreover have "controller_operation (operation_verb op) (route_segments op) = Some op" using assms by (intro controller_finds) blast
  ultimately show ?thesis by (simp add: route_call_of)
qed

lemma uuid_char:
  assumes "if A then c = CHR ''-'' else if B then c \<in> set ''12345678'' else if C then c \<in> set ''89ab'' else is_hex c"
  shows "(of_char c :: nat) = 45 \<or> 48 \<le> (of_char c :: nat) \<and> (of_char c :: nat) \<le> 57 \<or> 97 \<le> (of_char c :: nat) \<and> (of_char c :: nat) \<le> 102"
proof -
  consider "c = CHR ''-''" | "c \<in> set ''12345678''" | "c \<in> set ''89ab''" | "is_hex c" using assms by presburger
  then show ?thesis by cases (auto simp: is_hex_def Let_def)
qed

lemma lower_plain:
  assumes "(of_char (char_lower c) :: nat) = 45 \<or> 48 \<le> (of_char (char_lower c) :: nat) \<and> (of_char (char_lower c) :: nat) \<le> 57 \<or>
    97 \<le> (of_char (char_lower c) :: nat) \<and> (of_char (char_lower c) :: nat) \<le> 102"
  shows "component_plain (of_char c)"
proof -
  let ?n = "of_char c :: nat"
  consider (upper) "65 \<le> ?n \<and> ?n \<le> 90" | (latin) "192 \<le> ?n \<and> ?n \<le> 222 \<and> ?n \<noteq> 215"
    | (same) "\<not> (65 \<le> ?n \<and> ?n \<le> 90 \<or> 192 \<le> ?n \<and> ?n \<le> 222 \<and> ?n \<noteq> 215)" by blast
  then show ?thesis
  proof cases
    case upper
    then show ?thesis by (simp add: component_plain_def)
  next
    case latin
    then have "(of_char (char_lower c) :: nat) = ?n + 32" unfolding lower_code Let_def by (simp only: simp_thms if_True)
    with latin assms show ?thesis by linarith
  next
    case same
    then have "(of_char (char_lower c) :: nat) = ?n" unfolding lower_code Let_def by (simp only: if_False)
    with assms have "?n = 45 \<or> 48 \<le> ?n \<and> ?n \<le> 57 \<or> 97 \<le> ?n \<and> ?n \<le> 102" by (simp only:)
    then show ?thesis by (elim disjE) (simp_all add: component_plain_def)
  qed
qed

lemma uuid_plain:
  assumes "uuid_pattern ''12345678'' s"
  shows "length s = 36" and "encodeURIComponent s = s"
proof -
  show len: "length s = 36" using assms by (simp add: uuid_pattern_def)
  have "component_plain (of_char c)" if "c \<in> set s" for c
  proof -
    from that len obtain i where i: "i < 36" "c = s ! i" by (metis in_set_conv_nth)
    then have mem: "i \<in> set [0..<36]" by simp
    note all = assms [unfolded uuid_pattern_def list_all_iff, THEN conjunct2]
    have "let c = char_lower (s ! i)
       in if i \<in> {8, 13, 18, 23} then c = CHR ''-'' else if i = 14 then c \<in> set ''12345678''
          else if i = 19 then c \<in> set ''89ab'' else is_hex c"
      by (rule bspec [OF all mem])
    from lower_plain [OF uuid_char [OF this [unfolded Let_def]]] i(2) show ?thesis by (simp only:)
  qed
  then show "encodeURIComponent s = s" by (rule plain_encoded)
qed

lemma config_owner:
  assumes "getPhase0ServerConfig parse env = Inr config"
  shows "env ''PHASE0_DEV_OWNER_ID'' = Some (sc_ownerId config) \<and> uuid_pattern ''12345'' (sc_ownerId config) \<and> sc_ownerId config \<noteq> []"
  using assms
  by (auto simp: getPhase0ServerConfig_def readOwnerId_def readEnvironmentValue_def and_then_eq_Inr split: if_splits option.splits)

text \<open>C20 A request of a page reaches its own operation: for identifiers that are UUIDs, the path the browser asks for is
  matched by one handler of the web server, the path that handler asks the backend for is matched by one handler of the
  controllers, and it is the operation meant, with the same identifiers; and whatever other identifier a handler is given, as
  long as it is not empty and no dot segment, cannot make it reach another operation or another identifier.  Every
  request carries the one configured owner, a UUID, whatever the page sent.\<close>

theorem requests_reach_operation:
  assumes "getPhase0ServerConfig parse env = Inr config"
  shows "((\<forall>x\<in>set (operation_ids op). uuid_pattern ''12345678'' x) \<longrightarrow>
      Option.bind (path_segments (client_path op)) (next_handler (operation_verb op)) = Some op) \<and>
    ((\<forall>x\<in>set (operation_ids op). x \<noteq> [] \<and> x \<noteq> ''.'' \<and> x \<noteq> ''..'') \<longrightarrow>
      Option.bind (path_segments (snd (route_call op))) (controller_operation (fst (route_call op))) = Some op) \<and>
    (\<exists>owner. env ''PHASE0_DEV_OWNER_ID'' = Some owner \<and> uuid_pattern ''12345'' owner \<and>
      (let r = backend_request_of nt config (fst (route_call op)) (snd (route_call op)) body
       in map_of (bq_headers r) ''X-User-Id'' = Some owner \<and> bq_url r = sc_apiBaseUrl config @ snd (route_call op)))"
proof (intro conjI impI)
  assume uuids: "\<forall>x\<in>set (operation_ids op). uuid_pattern ''12345678'' x"
  have len: "length ''upload-url'' = 10" "length ''estimate'' = 8" "length ''.'' = 1" "length ''..'' = 2" by simp_all
  have plain: "encodeURIComponent x = x" "x \<noteq> ''upload-url'' \<and> x \<noteq> ''estimate''" "x \<noteq> ''.'' \<and> x \<noteq> ''..''" if "x \<in> set (operation_ids op)" for x
    using uuid_plain [OF bspec [OF uuids that]] len by auto
  let ?ss = "''api'' # ''phase0'' # route_segments op"
  from segments_no_dots [OF plain(3)] have "path_segments (path_of ?ss) = Some ?ss" by (intro path_segments_of) auto
  then show "Option.bind (path_segments (client_path op)) (next_handler (operation_verb op)) = Some op"
    using next_finds [OF plain(2)] by (simp add: client_path_of [OF plain(1)])
next
  assume "\<forall>x\<in>set (operation_ids op). x \<noteq> [] \<and> x \<noteq> ''.'' \<and> x \<noteq> ''..''"
  then show "Option.bind (path_segments (snd (route_call op))) (controller_operation (fst (route_call op))) = Some op"
    by (intro route_reaches) blast
next
  show "\<exists>owner. env ''PHASE0_DEV_OWNER_ID'' = Some owner \<and> uuid_pattern ''12345'' owner \<and>
      (let r = backend_request_of nt config (fst (route_call op)) (snd (route_call op)) body
       in map_of (bq_headers r) ''X-User-Id'' = Some owner \<and> bq_url r = sc_apiBaseUrl config @ snd (route_call op))"
    using config_owner [OF assms] by (intro exI [of _ "sc_ownerId config"]) (simp add: backend_request_of_def)
qed

definition sample_owner :: string where
  "sample_owner = ''00000000-0000-4000-8000-000000000001''"

definition sample_server_env :: "string \<rightharpoonup> string" where
  "sample_server_env = [''PHASE0_API_BASE_URL'' \<mapsto> ''https://x'', ''PHASE0_DEV_OWNER_ID'' \<mapsto> sample_owner]"

lemma sample_owner_uuid: "set ''4'' \<subseteq> set versions \<Longrightarrow> uuid_pattern versions sample_owner"
proof -
  have i: "[0..<36] = [0, 1, 2, 3, 4, 5, 6, 7, 8, 9, 10, 11, 12, 13, 14, 15, 16, 17, 18, 19, 20, 21, 22, 23, 24, 25, 26, 27, 28, 29, 30,
      31, 32, 33, 34, 35]" by (simp add: upt_rec)
  have h: "char_lower CHR ''0'' = CHR ''0''" "char_lower CHR ''1'' = CHR ''1''" "char_lower CHR ''4'' = CHR ''4''"
    "char_lower CHR ''8'' = CHR ''8''" "char_lower CHR ''-'' = CHR ''-''" "is_hex CHR ''0''" "is_hex CHR ''1''"
    by (simp_all add: is_hex_def char_lower_def)
  assume "set ''4'' \<subseteq> set versions"
  then show ?thesis unfolding uuid_pattern_def i by (simp add: sample_owner_def h Let_def)
qed

lemma requests_reach_operation_witness:
  "Option.bind (path_segments (client_path (GetDocumentQuiz sample_owner))) (next_handler HttpGet) = Some (GetDocumentQuiz sample_owner) \<and>
   Option.bind (path_segments (snd (route_call (GetDocumentQuiz ''a/../b'')))) (controller_operation (fst (route_call (GetDocumentQuiz ''a/../b'')))) = Some (GetDocumentQuiz ''a/../b'')"
proof -
  have owner: "uuid_pattern ''12345678'' sample_owner" "uuid_pattern ''12345'' sample_owner"
    by (rule sample_owner_uuid; simp)+
  have "\<exists>config. getPhase0ServerConfig (\<lambda>v. Some \<lparr>url_protocol = ''https:'', url_username = [], url_password = [], url_search = [],
      url_hash = [], url_hostname = ''x'', url_toString = ''https://x''\<rparr>) sample_server_env = Inr config"
    using owner(2) by (simp add: getPhase0ServerConfig_def readOwnerId_def readApiBaseUrl_def readEnvironmentValue_def sample_server_env_def
        sample_owner_def)
  then obtain parse config where c: "getPhase0ServerConfig parse sample_server_env = Inr config" by blast
  note reach = requests_reach_operation [OF c, where nt = safe_numbers and body = None]
  from reach [of "GetDocumentQuiz sample_owner"] owner(1)
  have "Option.bind (path_segments (client_path (GetDocumentQuiz sample_owner))) (next_handler HttpGet) = Some (GetDocumentQuiz sample_owner)"
    by simp
  moreover from reach [of "GetDocumentQuiz ''a/../b''"]
  have "Option.bind (path_segments (snd (route_call (GetDocumentQuiz ''a/../b'')))) (controller_operation (fst (route_call (GetDocumentQuiz ''a/../b'')))) = Some (GetDocumentQuiz ''a/../b'')"
    by simp
  ultimately show ?thesis ..
qed

end
