(* ===== verification/LearnerPages.thy ===== *)
theory LearnerPages imports LibraryView LearnerSession PracticeFeedback BackendRoutes begin

text \<open>
  The pages around a quiz: a document with its quiz (\<open>components/library/document-detail.tsx\<close>), the state of its processing
  (\<open>processing-status-sections.tsx\<close>, \<open>processing-focus.ts\<close>), the start of a quiz (\<open>quiz-start-screen.tsx\<close>,
  \<open>app/quiz/[id]/play/page.tsx\<close>), what the page of a quiz shows (\<open>quiz-play-screen.tsx\<close>, \<open>quiz-play-sections.tsx\<close>,
  \<open>practice-feedback-panel.tsx\<close>) and the result (\<open>app/quiz/[id]/result/[attemptId]/page.tsx\<close>).  \<^term>\<open>date_text\<close> is
  \<open>formatVietnameseDateTime\<close>, \<^term>\<open>credits\<close> the number format of the locale, \<^term>\<open>rnd\<close> the rounding of a real number
  to a double.  Texts are without accents, layout is left out.
\<close>

section \<open>The page of a document\<close>

record detail_page =
  dp_document :: phase0_document
  dp_quizDiscovery :: "(string \<times> string \<times> jsnum) option"
  dp_isQuizLoading :: bool
  dp_quizUnavailable :: bool
  dp_quizError :: "string option"
  dp_cancelled :: bool

text \<open>The page after its first effect.\<close>

definition detail_opened :: "phase0_document \<Rightarrow> detail_page" where
  "detail_opened d =
     \<lparr>dp_document = d, dp_quizDiscovery = None, dp_isQuizLoading = True, dp_quizUnavailable = False, dp_quizError = None,
      dp_cancelled = False\<rparr>"

definition thrown_error :: "client_failure \<Rightarrow> client_error" where
  "thrown_error f = (case f of Phase0ClientError status e \<Rightarrow> Phase0Error status e | ResponseTypeError m \<Rightarrow> PlainError m)"

definition detail_error_message :: "client_error \<Rightarrow> string" where
  "detail_error_message e =
     (case e of
        Phase0Error n se \<Rightarrow> se_message se
      | PlainError m \<Rightarrow> if js_trim m \<noteq> [] then m else ''Chua the kiem tra quiz cho tai lieu nay luc nay.''
      | NoError \<Rightarrow> ''Chua the kiem tra quiz cho tai lieu nay luc nay.'')"

text \<open>The rest of \<open>loadQuizDiscovery\<close> after its \<open>await\<close>.\<close>

definition discovery_answered :: "client_error + string \<times> string \<times> jsnum \<Rightarrow> detail_page \<Rightarrow> detail_page" where
  "discovery_answered a p =
     (if dp_cancelled p then p
      else (case a of
              Inr response \<Rightarrow> p\<lparr>dp_quizDiscovery := Some response, dp_isQuizLoading := False\<rparr>
            | Inl e \<Rightarrow>
                (case e of
                   Phase0Error status se \<Rightarrow>
                     if status = 404 then p\<lparr>dp_quizDiscovery := None, dp_quizUnavailable := True, dp_isQuizLoading := False\<rparr>
                     else p\<lparr>dp_quizError := Some (detail_error_message e), dp_isQuizLoading := False\<rparr>
                 | _ \<Rightarrow> p\<lparr>dp_quizError := Some (detail_error_message e), dp_isQuizLoading := False\<rparr>)))"

definition detail_closed :: "detail_page \<Rightarrow> detail_page" where
  "detail_closed p = p\<lparr>dp_cancelled := True\<rparr>"

definition canRetryFailure :: "phase0_document option \<Rightarrow> bool" where
  "canRetryFailure document =
     (case document of None \<Rightarrow> False
      | Some d \<Rightarrow> pd_status d = DOCUMENT_FAILED \<and> isRetryableDocumentFailureCode (pd_errorCode d))"

definition failurePresentation :: "phase0_document option \<Rightarrow> failure_presentation option" where
  "failurePresentation document =
     (case document of None \<Rightarrow> None
      | Some d \<Rightarrow> if pd_status d = DOCUMENT_FAILED then Some (getDocumentFailurePresentation (pd_errorCode d)) else None)"

text \<open>Address and label.\<close>

definition primaryAction :: "detail_page \<Rightarrow> string \<times> string" where
  "primaryAction p =
     (case dp_quizDiscovery p of
        Some (quizId, documentId, questionCount) \<Rightarrow> (''/quiz/'' @ quizId, ''Bat dau quiz'')
      | None \<Rightarrow>
          if mapStatus (pd_status (dp_document p)) = ShownProcessing
          then (''/processing/'' @ pd_id (dp_document p), ''Theo doi xu ly'')
          else if canRetryFailure (Some (dp_document p))
          then (''/processing/'' @ pd_id (dp_document p), ''Mo lai trang xu ly'')
          else (''/upload'', ''Tai tai lieu len''))"

text \<open>What the card about the quiz says.\<close>

definition quiz_notices :: "number_text \<Rightarrow> detail_page \<Rightarrow> string list" where
  "quiz_notices nt p =
     (if dp_isQuizLoading p then [''Dang kiem tra quiz cho tai lieu nay''] else [])
     @ (case dp_quizDiscovery p of
          Some (quizId, documentId, questionCount) \<Rightarrow>
            if dp_isQuizLoading p then [] else [''Quiz da san sang'', ''So cau hoi: '' @ number_shown nt questionCount]
        | None \<Rightarrow> [])
     @ (if \<not> dp_isQuizLoading p \<and> dp_quizUnavailable p
        then [''Tai lieu nay chua co quiz. Ban co the quay lai sau de kiem tra lai.''] else [])
     @ (case dp_quizError p of Some e \<Rightarrow> if \<not> dp_isQuizLoading p \<and> e \<noteq> [] then [e] else [] | None \<Rightarrow> [])
     @ [''Khi quiz da san sang, ban co the mo ngay tu day de bat dau lam bai.'']"

definition detail_specs :: "(string \<Rightarrow> string) \<Rightarrow> number_text \<Rightarrow> phase0_document \<Rightarrow> (string \<times> string) list" where
  "detail_specs date_text nt d =
     [(''Loai tai lieu'', if pd_type d = Phase0Text then ''TXT'' else ''PDF''),
      (''Kich thuoc'', size_text nt (pd_sizeBytes d)),
      (''Ngon ngu'', case pd_language d of None \<Rightarrow> ''Chua co'' | Some l \<Rightarrow> l),
      (''Tao luc'', date_text (pd_createdAt d)), (''Cap nhat luc'', date_text (pd_updatedAt d)),
      (''So trang'', case pd_pageCount d of None \<Rightarrow> ''Chua co'' | Some n \<Rightarrow> number_shown nt n)]"

section \<open>The page that follows the processing\<close>

record processing_header =
  ph_type :: "shown_type option"
  ph_status :: shown_status
  ph_title :: string
  ph_description :: string
  ph_links :: "(string \<times> string) list"
  ph_error :: "string option"

definition ProcessingHeader :: "phase0_document option \<Rightarrow> string \<Rightarrow> string \<Rightarrow> string option \<Rightarrow> processing_header" where
  "ProcessingHeader document detailHref libraryHref error =
     \<lparr>ph_type = map_option (\<lambda>d. mapType (pd_type d)) document,
      ph_status = (case document of None \<Rightarrow> ShownUploaded | Some d \<Rightarrow> mapStatus (pd_status d)),
      ph_title = (case document of None \<Rightarrow> ''Dang tai trang thai tai lieu'' | Some d \<Rightarrow> pd_originalName d),
      ph_description =
        (if map_option pd_status document = Some DOCUMENT_FAILED
         then ''Tai lieu nay chua xu ly thanh cong. Ban co the xem ly do ben duoi va thu lai neu he thong ho tro.''
         else ''Theo doi tien do xu ly, model da chon cung muc uoc tinh va credit chot khi co du lieu moi.''),
      ph_links = [(''Xem chi tiet tai lieu'', detailHref), (''Ve thu vien'', libraryHref)],
      ph_error = (if error = Some [] then None else error)\<rparr>"

text \<open>The button of the panel: its label and whether it is disabled.\<close>

record processing_panel =
  pn_loading :: bool
  pn_summary :: string
  pn_specs :: "(string \<times> string) list"
  pn_failure :: "(string \<times> string) option"
  pn_retry :: "(string \<times> bool) option"
  pn_retryError :: "string option"
  pn_budget :: string

definition status_summary :: "phase0_document option \<Rightarrow> string" where
  "status_summary document =
     (case document of
        None \<Rightarrow> ''Dang cho cap nhat''
      | Some d \<Rightarrow>
          if pd_status d = DOCUMENT_FAILED then ''Tai lieu chua xu ly thanh cong'' else getStatusLabel (pd_status d))"

definition ProcessingStatusPanel ::
  "(string \<Rightarrow> string) \<Rightarrow> (jsnum \<Rightarrow> string) \<Rightarrow> phase0_document option \<Rightarrow> bool \<Rightarrow> bool \<Rightarrow> string option \<Rightarrow> processing_panel" where
  "ProcessingStatusPanel date_text credits document isLoading isRetrySubmitting retryError =
     \<lparr>pn_loading = isLoading, pn_summary = status_summary document,
      pn_specs =
        [(''Model da chon'', case Option.bind document pd_selectedModelLabel of None \<Rightarrow> ''Chua co'' | Some l \<Rightarrow> l),
         (''Nguon xu ly'', getModelSourceLabel (Option.bind document pd_selectedModelKind)),
         (''Uoc tinh ban dau'', getEstimateStatusLabel credits document),
         (''Credit chot'', getSettledCreditsLabel credits document),
         (''Muc ngan sach'', getBudgetStatusLabel (Option.bind document pd_budgetStatus)),
         (''Cap nhat gan nhat'', case document of None \<Rightarrow> ''Chua co'' | Some d \<Rightarrow> date_text (pd_updatedAt d))],
      pn_failure = map_option (\<lambda>f. (fp_title f, fp_description f)) (failurePresentation document),
      pn_retry =
        (if failurePresentation document \<noteq> None \<and> canRetryFailure document
         then Some (if isRetrySubmitting then ''Dang thu lai'' else ''Thu lai'', isRetrySubmitting) else None),
      pn_retryError = (if failurePresentation document \<noteq> None \<and> retryError \<noteq> Some [] then retryError else None),
      pn_budget = getBudgetMessage document\<rparr>"

definition ProcessingDocumentInfoPanel ::
  "(string \<Rightarrow> string) \<Rightarrow> number_text \<Rightarrow> phase0_document option \<Rightarrow> (string \<times> string) list" where
  "ProcessingDocumentInfoPanel date_text nt document =
     (let shown = (\<lambda>f. case document of None \<Rightarrow> ''Chua co'' | Some d \<Rightarrow> f d)
      in [(''Ten file'', shown pd_originalName), (''Kich thuoc'', shown (\<lambda>d. size_text nt (pd_sizeBytes d))),
          (''Tao luc'', shown (\<lambda>d. date_text (pd_createdAt d))), (''Cap nhat luc'', shown (\<lambda>d. date_text (pd_updatedAt d))),
          (''Ngon ngu'', case Option.bind document pd_language of None \<Rightarrow> ''Chua co'' | Some l \<Rightarrow> l),
          (''So trang'', case Option.bind document pd_pageCount of None \<Rightarrow> ''Chua co'' | Some n \<Rightarrow> number_shown nt n),
          (''Model da chon'', case Option.bind document pd_selectedModelLabel of None \<Rightarrow> ''Chua co'' | Some l \<Rightarrow> l),
          (''Nguon xu ly'', getModelSourceLabel (Option.bind document pd_selectedModelKind))])"

definition shouldRestoreRetryFocus :: "string option \<Rightarrow> string option \<Rightarrow> bool \<Rightarrow> bool" where
  "shouldRestoreRetryFocus previousRetryError retryError isRetrySubmitting \<longleftrightarrow>
     previousRetryError = None \<and> retryError \<noteq> None \<and> \<not> isRetrySubmitting"


section \<open>Answers that pass the web server\<close>

lemma value_passes:
  assumes r: "is_json r" "hr_status r = 200" "json_parse nt (hr_text r) = Some v" and v: "json_plain nt v" "mapper (Some v) = Inr a"
  shows "\<exists>r'. proxyPhase0Request nt (Some r) = Some r' \<and> requestPhase0Api nt mapper r' = Inr a"
proof -
  obtain r' where r': "json_response nt 200 v = Some r'" by (simp add: json_response_def body_response_def)
  note r'_simps = json_response_read [OF r']
  have ok: "response_ok r" "response_ok r'" using r(2) r'_simps by (simp_all add: response_ok_def)
  have "proxyPhase0Request nt (Some r) = Some r'"
    using ok r r' by (simp add: proxyPhase0Request_def requestPhase0Backend_def)
  moreover have "readResponseBody nt r' = v" using r'_simps v(1) by (simp add: readResponseBody_def json_round_trip json_str_nonempty)
  then have "requestPhase0Api nt mapper r' = Inr a" using ok v(2) by (simp add: requestPhase0Api_def)
  ultimately show ?thesis by blast
qed

lemma failure_passes:
  assumes r: "is_json r" "400 \<le> hr_status r" "hr_status r \<le> 599" "json_parse nt (hr_text r) = Some v"
  shows "\<exists>r' e. proxyPhase0Request nt (Some r) = Some r' \<and> requestPhase0Api nt mapper r' = Inl (Phase0ClientError (hr_status r) e)"
proof -
  let ?v = "case mapSafeBackendError v of None \<Rightarrow> message_json no_message | Some e \<Rightarrow> safe_error_json e"
  obtain r' where r': "json_response nt (hr_status r) ?v = Some r'"
    using r by (simp add: json_response_def body_response_def)
  note r'_simps = json_response_read [OF r']
  have nok: "\<not> response_ok r" "\<not> response_ok r'" using r r'_simps by (auto simp: response_ok_def)
  have "proxyPhase0Request nt (Some r) = Some r'"
    using nok r r' by (simp add: proxyPhase0Request_def requestPhase0Backend_def toErrorResponse_def)
  moreover have "requestPhase0Api nt mapper r' = Inl (Phase0ClientError (hr_status r) (readApiError (readResponseBody nt r')))"
    using nok r'_simps(1) by (simp add: requestPhase0Api_def Let_def)
  ultimately show ?thesis by blast
qed

lemma coded_failure_passes:
  assumes r: "is_json r" "400 \<le> hr_status r" "hr_status r \<le> 599" "json_parse nt (hr_text r) = Some (JObj kvs)"
    and body: "obj_get kvs ''message'' = Some (JStr m)" "obj_get kvs ''code'' = Some (JStr c)" "obj_get kvs ''retryable'' = Some (JBool b)"
    and len: "length m \<le> 512" "length c \<le> 512"
  shows "\<exists>r'. proxyPhase0Request nt (Some r) = Some r' \<and> requestPhase0Api nt mapper r' =
    Inl (Phase0ClientError (hr_status r)
      \<lparr>se_message = sanitizeBackendErrorText m, se_code = Some (sanitizeBackendErrorText c), se_retryable = Some b\<rparr>)"
  using error_passes [OF r body(1) len(1), of mapper] body(2,3) len
  by (simp add: shown_code_def shown_retryable_def sanitized_text)

section \<open>The quiz of a document\<close>

definition document_quiz_json :: "quiz_summary \<Rightarrow> json" where
  "document_quiz_json q =
     JObj [(''quizId'', JStr (qs_quizId q)), (''documentId'', JStr (qs_documentId q)),
           (''questionCount'', json_int (int (qs_questionCount q)))]"

text \<open>The status of an exception, and the answers the backend may give: a value, or the object of the exception.\<close>

fun error_status :: "content_error \<Rightarrow> nat" where
  "error_status (ContentBadRequest m) = 400"
| "error_status (ContentNotFound m) = 404"
| "error_status (ContentConflict c m b) = 409"
| "error_status _ = 500"

definition discovery_answer :: "number_text \<Rightarrow> content_error + quiz_summary \<Rightarrow> http_response \<Rightarrow> bool" where
  "discovery_answer nt x r \<longleftrightarrow>
     is_json r \<and>
     (case x of
        Inr q \<Rightarrow> hr_status r = 200 \<and> json_parse nt (hr_text r) = Some (document_quiz_json q)
      | Inl e \<Rightarrow> hr_status r = error_status e \<and>
          (\<exists>kvs. json_parse nt (hr_text r) = Some (JObj kvs) \<and>
             (case e of
                ContentConflict c m b \<Rightarrow>
                  obj_get kvs ''code'' = Some (JStr c) \<and> obj_get kvs ''message'' = Some (JStr m) \<and> obj_get kvs ''retryable'' = Some (JBool b)
              | _ \<Rightarrow> True)))"

lemma discovery_read:
  assumes "int (qs_questionCount q) \<le> max_safe_integer"
  shows "json_plain nt (document_quiz_json q)"
    and "mapDocumentQuizResponse (Some (document_quiz_json q)) = Inr (qs_quizId q, qs_documentId q, JFin (of_nat (qs_questionCount q)))"
proof -
  have k: "\<not> is_array_index ''quizId'' \<and> \<not> is_array_index ''documentId'' \<and> \<not> is_array_index ''questionCount''" by code_simp
  have "number_ok nt (of_nat (qs_questionCount q))" using assms by (simp add: number_ok_def safe_integer_def)
  then show "json_plain nt (document_quiz_json q)"
    using k unfolding document_quiz_json_def json_plain.simps by (intro conjI object_entries_plain) (auto simp: json_int_def)
  show "mapDocumentQuizResponse (Some (document_quiz_json q)) = Inr (qs_quizId q, qs_documentId q, JFin (of_nat (qs_questionCount q)))"
    by (simp add: mapDocumentQuizResponse_def document_quiz_json_def wire_simps)
qed


text \<open>The page after the answer of the backend has passed the web server.\<close>

definition discovered :: "number_text \<Rightarrow> http_response \<Rightarrow> detail_page \<Rightarrow> detail_page" where
  "discovered nt r' p = discovery_answered (map_sum thrown_error id (requestPhase0Api nt mapDocumentQuizResponse r')) p"

lemma discovered_value:
  "requestPhase0Api nt mapDocumentQuizResponse r' = Inr a \<Longrightarrow> \<not> dp_cancelled p \<Longrightarrow>
    discovered nt r' p = p\<lparr>dp_quizDiscovery := Some a, dp_isQuizLoading := False\<rparr>"
  by (simp add: discovered_def discovery_answered_def)

lemma discovered_failure:
  "requestPhase0Api nt mapDocumentQuizResponse r' = Inl (Phase0ClientError st e) \<Longrightarrow> \<not> dp_cancelled p \<Longrightarrow>
    discovered nt r' p =
      (if st = 404 then p\<lparr>dp_quizDiscovery := None, dp_quizUnavailable := True, dp_isQuizLoading := False\<rparr>
       else p\<lparr>dp_quizError := Some (se_message e), dp_isQuizLoading := False\<rparr>)"
  by (simp add: discovered_def discovery_answered_def thrown_error_def detail_error_message_def)

lemma not_ready_text:
  "sanitizeBackendErrorText ''Quiz is still being prepared. Please try again shortly.'' =
    ''Quiz is still being prepared. Please try again shortly.''"
  by code_simp

definition detail_fresh :: "detail_page \<Rightarrow> bool" where
  "detail_fresh p \<longleftrightarrow> \<not> dp_cancelled p \<and> dp_quizDiscovery p = None \<and> \<not> dp_quizUnavailable p \<and> dp_quizError p = None"

lemma quiz_found_shown:
  assumes "discovery_answer nt (Inr q) r" and "int (qs_questionCount q) \<le> max_safe_integer" and "detail_fresh p"
  shows "\<exists>r'. proxyPhase0Request nt (Some r) = Some r' \<and>
    discovered nt r' p = p\<lparr>dp_quizDiscovery := Some (qs_quizId q, qs_documentId q, JFin (of_nat (qs_questionCount q))), dp_isQuizLoading := False\<rparr>"
proof -
  from assms(1) have "is_json r" "hr_status r = 200" "json_parse nt (hr_text r) = Some (document_quiz_json q)"
    by (simp_all add: discovery_answer_def)
  from value_passes [where mapper = mapDocumentQuizResponse, OF this discovery_read(1) [OF assms(2)] discovery_read(2) [OF assms(2)]] obtain r' where
    r': "proxyPhase0Request nt (Some r) = Some r'"
      "requestPhase0Api nt mapDocumentQuizResponse r' = Inr (qs_quizId q, qs_documentId q, JFin (of_nat (qs_questionCount q)))" by blast
  from assms(3) have "\<not> dp_cancelled p" by (simp add: detail_fresh_def)
  from discovered_value [OF r'(2) this] r'(1) show ?thesis by (intro exI [of _ r'] conjI)
qed

lemma quiz_error_shown:
  assumes "discovery_answer nt (Inl e) r" and "detail_fresh p"
  shows "\<exists>r'. proxyPhase0Request nt (Some r) = Some r' \<and> dp_isQuizLoading (discovered nt r' p) = False \<and>
    dp_quizDiscovery (discovered nt r' p) = None \<and> dp_quizUnavailable (discovered nt r' p) = (error_status e = 404) \<and>
    (dp_quizError (discovered nt r' p) = None \<longleftrightarrow> error_status e = 404) \<and>
    (e = ContentConflict ''QUIZ_NOT_READY'' ''Quiz is still being prepared. Please try again shortly.'' True \<longrightarrow>
      dp_quizError (discovered nt r' p) = Some ''Quiz is still being prepared. Please try again shortly.'')"
proof -
  from assms(1) obtain kvs where r: "is_json r" "hr_status r = error_status e" "json_parse nt (hr_text r) = Some (JObj kvs)"
    by (auto simp: discovery_answer_def)
  have st: "400 \<le> hr_status r" "hr_status r \<le> 599" by (simp_all add: r(2)) (cases e; simp)+
  show ?thesis
  proof (cases "e = ContentConflict ''QUIZ_NOT_READY'' ''Quiz is still being prepared. Please try again shortly.'' True")
    case True
    with assms(1) r(3) have body: "obj_get kvs ''message'' = Some (JStr ''Quiz is still being prepared. Please try again shortly.'')"
        "obj_get kvs ''code'' = Some (JStr ''QUIZ_NOT_READY'')" "obj_get kvs ''retryable'' = Some (JBool True)"
      by (auto simp: discovery_answer_def)
    from coded_failure_passes [OF r(1) st r(3) body, of mapDocumentQuizResponse, unfolded not_ready_text]
    obtain r' se where r': "proxyPhase0Request nt (Some r) = Some r'"
        "requestPhase0Api nt mapDocumentQuizResponse r' = Inl (Phase0ClientError (hr_status r) se)"
        "se_message se = ''Quiz is still being prepared. Please try again shortly.''"
      by (auto simp del: sanitizeBackendErrorText_def)
    from r(2) True have "hr_status r \<noteq> 404" "error_status e \<noteq> 404" by simp_all
    with discovered_failure [OF r'(2)] assms(2) r'(1,3) show ?thesis
      by (intro exI [of _ r']) (simp add: detail_fresh_def)
  next
    case False
    from failure_passes [OF r(1) st r(3), of mapDocumentQuizResponse] obtain r' se where
      r': "proxyPhase0Request nt (Some r) = Some r'" "requestPhase0Api nt mapDocumentQuizResponse r' = Inl (Phase0ClientError (hr_status r) se)"
      by blast
    with discovered_failure [OF r'(2)] assms(2) r(2) False show ?thesis
      by (intro exI [of _ r']) (simp add: detail_fresh_def)
  qed
qed


lemma findQuiz_cases:
  assumes "findByOwnerId w d db = Some row"
  shows "(\<exists>q. findByOwnerAndDocumentId w d quizzes = Some q \<and> findQuiz w d db quizzes = Inr q) \<or>
    (\<exists>e. findByOwnerAndDocumentId w d quizzes = None \<and> findQuiz w d db quizzes = Inl e \<and> error_status e \<noteq> 404 \<and>
      ((dc_status row = UPLOADED \<or> dc_status row = PROCESSING) \<longrightarrow>
        e = ContentConflict ''QUIZ_NOT_READY'' ''Quiz is still being prepared. Please try again shortly.'' True))"
  using assms by (cases "findByOwnerAndDocumentId w d quizzes") (simp_all add: findQuiz_def)


definition sample_shown :: phase0_document where
  "sample_shown = client_document (to_document_response tally_text sample_document)"

definition not_ready_answer :: http_response where
  "not_ready_answer =
     \<lparr>hr_status = 409, hr_contentType = Some ''application/json; charset=utf-8'',
      hr_text = json_str safe_numbers (JObj [(''code'', JStr ''QUIZ_NOT_READY''),
        (''message'', JStr ''Quiz is still being prepared. Please try again shortly.''), (''retryable'', JBool True)])\<rparr>"



section \<open>The start of a quiz\<close>

record start_page =
  sp_mode :: quiz_mode
  sp_draftByMode :: "quiz_mode \<Rightarrow> quiz_draft option"
  sp_storage :: session_storage

definition start_opened :: "session_storage \<Rightarrow> start_page" where
  "start_opened st = \<lparr>sp_mode = PRACTICE, sp_draftByMode = (\<lambda>m. None), sp_storage = st\<rparr>"

text \<open>The microtask of the effect.\<close>

definition drafts_read :: "number_text \<Rightarrow> phase0_quiz \<Rightarrow> start_page \<Rightarrow> start_page" where
  "drafts_read nt quiz p = p\<lparr>sp_draftByMode := readQuizDraft nt (sp_storage p) (pq_id quiz)\<rparr>"

definition mode_chosen :: "quiz_mode \<Rightarrow> start_page \<Rightarrow> start_page" where
  "mode_chosen m p = p\<lparr>sp_mode := m\<rparr>"

definition handleResetDraft :: "phase0_quiz \<Rightarrow> start_page \<Rightarrow> start_page" where
  "handleResetDraft quiz p =
     p\<lparr>sp_storage := clearQuizDraft (pq_id quiz) (sp_mode p) (sp_storage p), sp_draftByMode := (sp_draftByMode p)(sp_mode p := None)\<rparr>"

definition start_draft :: "start_page \<Rightarrow> quiz_draft option" where
  "start_draft p = sp_draftByMode p (sp_mode p)"

definition start_answeredCount :: "start_page \<Rightarrow> nat" where
  "start_answeredCount p =
     (case start_draft p of None \<Rightarrow> 0 | Some d \<Rightarrow> length (filter (\<lambda>kv. snd kv \<noteq> None) (ds_answers d)))"

definition quiz_play_path :: "string \<Rightarrow> string" where
  "quiz_play_path quizId = ''/quiz/'' @ quizId @ ''/play''"

definition startHref :: "phase0_quiz \<Rightarrow> start_page \<Rightarrow> string" where
  "startHref quiz p = quiz_play_path (pq_id quiz) @ ''?mode='' @ quiz_mode_str (sp_mode p)"

definition getResumeHref :: "string \<Rightarrow> quiz_mode \<Rightarrow> string" where
  "getResumeHref quizId mode = quiz_play_path quizId @ ''?mode='' @ quiz_mode_str mode @ ''&resume=1''"

definition resumeHref :: "phase0_quiz \<Rightarrow> start_page \<Rightarrow> string option" where
  "resumeHref quiz p = (if start_draft p = None then None else Some (getResumeHref (pq_id quiz) (sp_mode p)))"

inductive start_step :: "number_text \<Rightarrow> phase0_quiz \<Rightarrow> start_page \<Rightarrow> start_page \<Rightarrow> bool" for nt quiz where
  "start_step nt quiz p (drafts_read nt quiz p)"
| "start_step nt quiz p (mode_chosen m p)"
| "start_draft p \<noteq> None \<Longrightarrow> start_step nt quiz p (handleResetDraft quiz p)"

text \<open>The page of the quiz reads its mode and whether to resume from the address.\<close>

definition readMode :: "string option \<Rightarrow> quiz_mode" where
  "readMode v = (if v = Some ''test'' then TEST else PRACTICE)"

definition readResumeFlag :: "string option \<Rightarrow> bool" where
  "readResumeFlag v \<longleftrightarrow> v = Some ''1''"

definition link_params :: "string \<Rightarrow> search_params option" where
  "link_params href = params_of (drop (Suc (length (takeWhile (\<lambda>c. c \<noteq> CHR ''?'') href))) href)"

definition QuizPlayPage :: "number_text \<Rightarrow> string \<Rightarrow> phase0_quiz \<Rightarrow> search_params \<Rightarrow> session_storage \<Rightarrow> quiz_mode \<times> quiz_page" where
  "QuizPlayPage nt now quiz query st =
     (let mode = readMode (params_get ''mode'' query); resume = readResumeFlag (params_get ''resume'' query)
      in (mode, open_page nt now quiz mode resume st))"

section \<open>What the page of a quiz shows\<close>

text \<open>\<open>Math.round((x / n) * 100)\<close> of doubles.\<close>

definition rounded_percent :: "(rat \<Rightarrow> rat) \<Rightarrow> rat \<Rightarrow> rat \<Rightarrow> int" where
  "rounded_percent rnd x n = \<lfloor>rnd (rnd (x / n) * 100) + 1 / 2\<rfloor>"

definition answeredCount :: "phase0_quiz \<Rightarrow> draft_snapshot \<Rightarrow> nat" where
  "answeredCount quiz d = length (filter (\<lambda>q. answer_of (ds_answers d) (qq_id q) \<noteq> None) (pq_questions quiz))"

definition unansweredCount :: "phase0_quiz \<Rightarrow> draft_snapshot \<Rightarrow> nat" where
  "unansweredCount quiz d = length (pq_questions quiz) - answeredCount quiz d"

definition progressValue :: "(rat \<Rightarrow> rat) \<Rightarrow> phase0_quiz \<Rightarrow> draft_snapshot \<Rightarrow> int" where
  "progressValue rnd quiz d =
     (if pq_questions quiz = [] then 0
      else rounded_percent rnd (of_int (ds_currentIndex d + 1)) (of_nat (length (pq_questions quiz))))"

datatype question_tone = ToneCurrent | ToneFlagged | ToneAnswered | ToneOpen

definition getQuestionTone :: "string \<Rightarrow> string \<Rightarrow> string list \<Rightarrow> (string \<times> string option) list \<Rightarrow> question_tone" where
  "getQuestionTone questionId currentQuestionId flagged answers =
     (if questionId = currentQuestionId then ToneCurrent
      else if questionId \<in> set flagged then ToneFlagged
      else if answer_of answers questionId \<noteq> None \<and> answer_of answers questionId \<noteq> Some [] then ToneAnswered else ToneOpen)"

definition getDisplayPosition :: "int \<Rightarrow> int" where
  "getDisplayPosition index = index + 1"

text \<open>The buttons of the action bar: \<^term>\<open>leaving\<close> is the state of the dialog that leaves the page.\<close>

record action_bar =
  ab_leave :: bool
  ab_previous :: bool
  ab_flag :: bool
  ab_check :: "bool option"
  ab_forward :: bool
  ab_submit :: bool

definition QuizActionBar :: "quiz_mode \<Rightarrow> int \<Rightarrow> nat \<Rightarrow> bool \<Rightarrow> bool \<Rightarrow> bool \<Rightarrow> bool \<Rightarrow> action_bar" where
  "QuizActionBar mode currentIndex questionCount isSubmitting isLeaving canCheckCurrentAnswer isCheckingCurrentAnswer =
     (let busy = isSubmitting \<or> isLeaving
      in \<lparr>ab_leave = (\<not> busy), ab_previous = (\<not> (currentIndex = 0 \<or> busy)), ab_flag = (\<not> busy),
          ab_check = (if mode = PRACTICE
            then Some (\<not> (\<not> canCheckCurrentAnswer \<or> isCheckingCurrentAnswer \<or> busy)) else None),
          ab_forward = (\<not> (int questionCount - 1 \<le> currentIndex \<or> busy)), ab_submit = (\<not> busy)\<rparr>)"

text \<open>The palette: position, tone and whether the button is the current step, and the three counts.\<close>

definition QuizPalette ::
  "phase0_quiz \<Rightarrow> string \<Rightarrow> draft_snapshot \<Rightarrow> (int \<times> question_tone \<times> bool) list \<times> nat \<times> nat \<times> nat" where
  "QuizPalette quiz currentQuestionId d =
     (map (\<lambda>(i, q). (getDisplayPosition (int i),
         getQuestionTone (qq_id q) currentQuestionId (ds_flaggedQuestionIds d) (ds_answers d), qq_id q = currentQuestionId))
       (enumerate 0 (pq_questions quiz)),
      answeredCount quiz d, length (ds_flaggedQuestionIds d), unansweredCount quiz d)"


text \<open>The panel under a question in practice mode: what it says, and the answer's explanation with its source.\<close>

datatype feedback_panel =
  NoPanel | CheckingPanel string | FailedPanel string | AnswerPanel bool string string phase0_citation

definition PracticeFeedbackPanel :: "question_feedback option \<Rightarrow> feedback_panel" where
  "PracticeFeedbackPanel feedback =
     (case feedback of
        None \<Rightarrow> NoPanel
      | Some f \<Rightarrow>
          if fs_status f = Loading then CheckingPanel ''Dang kiem tra lua chon cua ban''
          else if fs_status f = Error then
            FailedPanel ''Chua the tai phan hoi cho cau nay. Ban van co the tiep tuc lam bai va nop binh thuong.''
          else (case fs_response f of
                  None \<Rightarrow> NoPanel
                | Some r \<Rightarrow> if fs_status f \<noteq> Ready then NoPanel
                            else AnswerPanel (pf_isCorrect r) (if pf_isCorrect r then ''Chinh xac'' else ''Chua dung'')
                              (pf_explanation r) (pf_citation r)))"

section \<open>The result\<close>

definition toPercent :: "(rat \<Rightarrow> rat) \<Rightarrow> jsnum \<Rightarrow> jsnum \<Rightarrow> int" where
  "toPercent rnd score questionCount =
     (case (score, questionCount) of
        (JFin s, JFin n) \<Rightarrow> if n = 0 then 0 else rounded_percent rnd s n
      | _ \<Rightarrow> 0)"

definition formatCitationLocator :: "number_text \<Rightarrow> phase0_locator \<Rightarrow> string" where
  "formatCitationLocator nt locator =
     (case locator of
        Phase0Page page \<Rightarrow> ''Trang '' @ number_shown nt page
      | Phase0TextRange start end' \<Rightarrow> ''Doan van lien quan''
      | Phase0Time startSec endSec \<Rightarrow> ''Giay '' @ number_shown nt startSec @ ''-'' @ number_shown nt endSec)"

record result_entry =
  re_isCorrect :: bool
  re_position :: nat
  re_stem :: string
  re_selected :: string
  re_correct :: string
  re_explanation :: string
  re_locator :: string
  re_snippet :: string

record result_page =
  rp_percent :: int
  rp_passed :: bool
  rp_correct :: nat
  rp_wrong :: jsnum
  rp_count :: jsnum
  rp_submittedAt :: string
  rp_entries :: "result_entry list"

fun js_minus_nat :: "jsnum \<Rightarrow> nat \<Rightarrow> jsnum" where
  "js_minus_nat (JFin r) n = JFin (r - of_nat n)"
| "js_minus_nat x n = x"

definition QuizResultPage ::
  "(string \<Rightarrow> string) \<Rightarrow> number_text \<Rightarrow> (rat \<Rightarrow> rat) \<Rightarrow> phase0_attempt_result \<Rightarrow> result_page" where
  "QuizResultPage date_text nt rnd attempt =
     (let scorePct = toPercent rnd (pt_score attempt) (pt_questionCount attempt);
          correctCount = length (filter pf_isCorrect (pt_results attempt))
      in \<lparr>rp_percent = scorePct, rp_passed = (70 \<le> scorePct), rp_correct = correctCount,
          rp_wrong = js_minus_nat (pt_questionCount attempt) correctCount, rp_count = pt_questionCount attempt,
          rp_submittedAt = date_text (pt_submittedAt attempt),
          rp_entries =
            map (\<lambda>(index, item).
                \<lparr>re_isCorrect = pf_isCorrect item, re_position = index + 1, re_stem = pi_stem item,
                 re_selected = pi_selectedOptionContent item, re_correct = pi_correctOptionContent item,
                 re_explanation = pf_explanation item,
                 re_locator = formatCitationLocator nt (pc_locator (pf_citation item)),
                 re_snippet = pc_snippet (pf_citation item)\<rparr>)
              (enumerate 0 (pt_results attempt))\<rparr>)"


section \<open>Percentages\<close>

text \<open>What is used of the rounding to doubles: it is monotone, exact on integers, and close on the numbers that occur.\<close>

definition double_rounding :: "(rat \<Rightarrow> rat) \<Rightarrow> bool" where
  "double_rounding rnd \<longleftrightarrow>
     (\<forall>x y. x \<le> y \<longrightarrow> rnd x \<le> rnd y) \<and> (\<forall>n. \<bar>n\<bar> \<le> 2 ^ 53 \<longrightarrow> rnd (of_int n) = of_int n) \<and>
     (\<forall>x. 1 / 2 ^ 60 \<le> \<bar>x\<bar> \<and> \<bar>x\<bar> \<le> 2 ^ 60 \<longrightarrow> \<bar>rnd x - x\<bar> \<le> \<bar>x\<bar> / 2 ^ 53)"

lemma rounding_facts:
  assumes "double_rounding rnd"
  shows "x \<le> y \<Longrightarrow> rnd x \<le> rnd y" and "rnd 0 = 0" and "rnd 1 = 1" and "rnd 100 = 100"
    and "1 / 2 ^ 60 \<le> x \<Longrightarrow> x \<le> 2 ^ 60 \<Longrightarrow> \<bar>rnd x - x\<bar> \<le> x / 2 ^ 53"
proof -
  note d = assms [unfolded double_rounding_def]
  show "x \<le> y \<Longrightarrow> rnd x \<le> rnd y" using d by blast
  have i: "\<bar>n\<bar> \<le> 2 ^ 53 \<Longrightarrow> rnd (of_int n) = of_int n" for n using d by blast
  show "rnd 0 = 0" "rnd 1 = 1" "rnd 100 = 100" using i [of 0] i [of 1] i [of 100] by simp_all
  assume x: "1 / 2 ^ 60 \<le> x" "x \<le> 2 ^ 60"
  then have a: "\<bar>x\<bar> = x" by (simp add: order_trans [of 0 "1 / 2 ^ 60"])
  have "1 / 2 ^ 60 \<le> \<bar>x\<bar> \<and> \<bar>x\<bar> \<le> 2 ^ 60 \<longrightarrow> \<bar>rnd x - x\<bar> \<le> \<bar>x\<bar> / 2 ^ 53" using d by blast
  with x show "\<bar>rnd x - x\<bar> \<le> x / 2 ^ 53" unfolding a by blast
qed

lemma percent_bounds:
  assumes "double_rounding rnd" and "0 \<le> x" and "x \<le> n" and "0 < n"
  shows "0 \<le> rounded_percent rnd x n \<and> rounded_percent rnd x n \<le> 100"
proof -
  note r = rounding_facts [OF assms(1)]
  have "0 \<le> x / n" "x / n \<le> 1" using assms(2-4) by simp_all
  from r(1) [OF this(1)] r(1) [OF this(2)] have "0 \<le> rnd (x / n) * 100" "rnd (x / n) * 100 \<le> 100" unfolding r(2,3) by simp_all
  from r(1) [OF this(1)] r(1) [OF this(2)] have "0 \<le> rnd (rnd (x / n) * 100)" "rnd (rnd (x / n) * 100) \<le> 100" unfolding r(2,4) .
  then show ?thesis unfolding rounded_percent_def by (simp add: le_floor_iff floor_le_iff)
qed

lemma percent_ends:
  assumes "double_rounding rnd" and "0 < n"
  shows "rounded_percent rnd 0 n = 0" and "rounded_percent rnd n n = 100"
proof -
  note r = rounding_facts [OF assms(1)]
  show "rounded_percent rnd 0 n = 0" by (simp add: rounded_percent_def r(2) floor_eq_iff)
  have "n / n = 1" using assms(2) by simp
  then show "rounded_percent rnd n n = 100" by (simp add: rounded_percent_def r(3,4) floor_eq_iff)
qed

lemma percent_close:
  assumes "double_rounding rnd" and "x = 0 \<or> 1 \<le> x" and "x \<le> n" and "0 < n" and "n \<le> 2 ^ 31"
  shows "\<bar>of_int (rounded_percent rnd x n) - 100 * x / n\<bar> \<le> 51 / 100"
proof (cases "x = 0")
  case True
  with percent_ends(1) [OF assms(1,4)] show ?thesis by simp
next
  case False
  with assms(2) have x: "1 \<le> x" by simp
  note r = rounding_facts [OF assms(1)]
  let ?q = "x / n" and ?a = "rnd (x / n)" and ?b = "rnd (rnd (x / n) * 100)"
  have q: "1 / 2 ^ 31 \<le> ?q" "?q \<le> 1" using x assms(3-5) frac_le [of 1 x n "2 ^ 31"] by simp_all
  have "(1 :: rat) / 2 ^ 60 \<le> 1 / 2 ^ 31" by simp
  from order_trans [OF this q(1)] have low: "1 / 2 ^ 60 \<le> ?q" .
  have "(1 :: rat) \<le> 2 ^ 60" by simp
  from order_trans [OF q(2) this] have "?q \<le> 2 ^ 60" .
  from r(5) [OF low this] have "\<bar>?a - ?q\<bar> \<le> ?q / 2 ^ 53" .
  moreover have "?q / 2 ^ 53 \<le> 1 / 2 ^ 53" using q(2) by (intro divide_right_mono) simp_all
  ultimately have a: "\<bar>?a - ?q\<bar> \<le> 1 / 2 ^ 53" by (rule order_trans)
  then have lo: "?q - 1 / 2 ^ 53 \<le> ?a" and hi: "?a \<le> ?q + 1 / 2 ^ 53" unfolding abs_le_iff by linarith+
  have "1 / 2 ^ 32 \<le> (1 / 2 ^ 31 - 1 / 2 ^ 53 :: rat)" "(1 :: rat) + 1 / 2 ^ 53 \<le> 2" by simp_all
  with lo hi q have a': "1 / 2 ^ 32 \<le> ?a" "?a \<le> 2" by linarith+
  then have "1 / 2 ^ 60 \<le> ?a * 100" "?a * 100 \<le> 2 ^ 60" by simp_all
  from r(5) [OF this] have "\<bar>?b - ?a * 100\<bar> \<le> ?a * 100 / 2 ^ 53" .
  moreover have "?a * 100 / 2 ^ 53 \<le> 200 / 2 ^ 53" using a'(2) by (intro divide_right_mono) simp_all
  ultimately have b: "\<bar>?b - ?a * 100\<bar> \<le> 200 / 2 ^ 53" by (rule order_trans)
  have "rat_of_int \<lfloor>?b + 1 / 2\<rfloor> \<le> ?b + 1 / 2" "?b + 1 / 2 < of_int \<lfloor>?b + 1 / 2\<rfloor> + 1" by linarith+
  then have c: "\<bar>of_int (rounded_percent rnd x n) - ?b\<bar> \<le> 1 / 2" unfolding rounded_percent_def abs_le_iff by linarith
  have e: "100 * x / n = 100 * ?q" by simp
  from a b c show ?thesis unfolding e abs_le_iff by simp
qed

lemma exact_rounding: "double_rounding (\<lambda>x. x)"
  by (simp add: double_rounding_def)

text \<open>The bar of a page of a quiz is between its ends, and the three counts of the palette agree.\<close>

lemma page_counts:
  assumes "draft_valid quiz d" and "double_rounding rnd" and "pq_questions quiz \<noteq> []"
  shows "answeredCount quiz d + unansweredCount quiz d = length (pq_questions quiz)"
    and "0 \<le> progressValue rnd quiz d \<and> progressValue rnd quiz d \<le> 100"
    and "ds_currentIndex d = int (length (pq_questions quiz)) - 1 \<Longrightarrow> progressValue rnd quiz d = 100"
proof -
  have "answeredCount quiz d \<le> length (pq_questions quiz)" by (simp add: answeredCount_def)
  then show "answeredCount quiz d + unansweredCount quiz d = length (pq_questions quiz)" by (simp add: unansweredCount_def)
  let ?n = "rat_of_nat (length (pq_questions quiz))"
  have n: "0 < ?n" using assms(3) by simp
  from assms(1) have "0 \<le> ds_currentIndex d" "ds_currentIndex d + 1 \<le> int (length (pq_questions quiz))" by (simp_all add: draft_valid_def)
  then have i: "0 \<le> rat_of_int (ds_currentIndex d + 1)" "rat_of_int (ds_currentIndex d + 1) \<le> ?n"
    by (simp, metis of_int_le_iff of_int_of_nat_eq)
  show "0 \<le> progressValue rnd quiz d \<and> progressValue rnd quiz d \<le> 100"
    using percent_bounds [OF assms(2) i n] assms(3) by (simp add: progressValue_def)
  assume "ds_currentIndex d = int (length (pq_questions quiz)) - 1"
  then have "rat_of_int (ds_currentIndex d + 1) = ?n" by simp
  with percent_ends(2) [OF assms(2) n] assms(3) show "progressValue rnd quiz d = 100" by (simp only: progressValue_def if_False)
qed


section \<open>The result page\<close>

lemma enumerate_from: "map (\<lambda>(i, x). f i x) (enumerate n xs) = map (\<lambda>i. f (n + i) (xs ! i)) [0..<length xs]"
proof (induction xs arbitrary: n)
  case (Cons x xs)
  have "map (\<lambda>i. f (n + i) ((x # xs) ! i)) [0..<length (x # xs)] =
      f n x # map (\<lambda>i. f (n + Suc i) (xs ! i)) [0..<length xs]"
    by (simp add: upt_conv_Cons map_Suc_upt [symmetric] comp_def del: upt_Suc)
  with Cons [of "Suc n"] show ?case by simp
qed simp

lemma result_entries:
  "map re_isCorrect (rp_entries (QuizResultPage date_text nt rnd view)) = map pf_isCorrect (pt_results view)"
  "map re_position (rp_entries (QuizResultPage date_text nt rnd view)) = [1..<Suc (length (pt_results view))]"
proof -
  have "map re_isCorrect (rp_entries (QuizResultPage date_text nt rnd view)) = map (\<lambda>(i, item). pf_isCorrect item) (enumerate 0 (pt_results view))"
    by (simp add: QuizResultPage_def Let_def comp_def case_prod_unfold)
  also have "\<dots> = map pf_isCorrect (pt_results view)"
    unfolding enumerate_from [of "\<lambda>i item. pf_isCorrect item"] by (rule nth_equalityI) simp_all
  finally show "map re_isCorrect (rp_entries (QuizResultPage date_text nt rnd view)) = map pf_isCorrect (pt_results view)" .
  have "map re_position (rp_entries (QuizResultPage date_text nt rnd view)) = map (\<lambda>(i, item). i + 1) (enumerate 0 (pt_results view))"
    by (simp add: QuizResultPage_def Let_def comp_def case_prod_unfold)
  also have "\<dots> = [1..<Suc (length (pt_results view))]"
    unfolding enumerate_from [of "\<lambda>i item. i + 1"] by (simp add: map_Suc_upt)
  finally show "map re_position (rp_entries (QuizResultPage date_text nt rnd view)) = [1..<Suc (length (pt_results view))]" .
qed

lemma result_numbers:
  fixes date_text :: "string \<Rightarrow> string" and nt :: number_text and rnd :: "rat \<Rightarrow> rat" and view :: phase0_attempt_result
  defines "v \<equiv> QuizResultPage date_text nt rnd view"
  assumes "double_rounding rnd"
    and "pt_score view = JFin (of_nat (length (filter pf_isCorrect (pt_results view))))"
    and "pt_questionCount view = JFin (of_nat (length (pt_results view)))"
    and "pt_results view \<noteq> []" and "length (pt_results view) \<le> 2147483647"
  shows "rp_correct v = length (filter id (map re_isCorrect (rp_entries v)))"
    and "rp_wrong v = JFin (of_nat (length (filter Not (map re_isCorrect (rp_entries v)))))"
    and "0 \<le> rp_percent v \<and> rp_percent v \<le> 100"
    and "\<bar>of_int (rp_percent v) - 100 * rat_of_nat (rp_correct v) / of_nat (length (rp_entries v))\<bar> \<le> 51 / 100"
    and "rp_correct v = length (rp_entries v) \<longrightarrow> rp_percent v = 100"
proof -
  let ?c = "length (filter pf_isCorrect (pt_results view))" and ?n = "length (pt_results view)"
  have len: "length (rp_entries v) = ?n" using arg_cong [OF result_entries(1), of length] by (simp add: v_def)
  have e: "map re_isCorrect (rp_entries v) = map pf_isCorrect (pt_results view)" unfolding v_def by (rule result_entries(1))
  have c: "rp_correct v = ?c" by (simp add: v_def QuizResultPage_def Let_def)
  have p: "rp_percent v = rounded_percent rnd (of_nat ?c) (of_nat ?n)"
    using assms(5) by (simp add: v_def QuizResultPage_def Let_def toPercent_def assms(3,4))
  have le: "?c \<le> ?n" by simp
  show "rp_correct v = length (filter id (map re_isCorrect (rp_entries v)))"
    unfolding c e by (rule filter_length_map)
  have "?c + length (filter (\<lambda>x. \<not> pf_isCorrect x) (pt_results view)) = ?n" by (rule sum_length_filter_compl)
  moreover have "length (filter Not (map pf_isCorrect (pt_results view))) = length (filter (\<lambda>x. \<not> pf_isCorrect x) (pt_results view))"
    by (simp add: filter_map comp_def)
  ultimately have "rat_of_nat ?n - of_nat ?c = of_nat (length (filter Not (map pf_isCorrect (pt_results view))))"
    by (metis add_diff_cancel_left' of_nat_add)
  then show "rp_wrong v = JFin (of_nat (length (filter Not (map re_isCorrect (rp_entries v)))))"
    unfolding e by (simp add: v_def QuizResultPage_def Let_def assms(4))
  have n: "0 < rat_of_nat ?n" using assms(5) by simp
  have i: "0 \<le> rat_of_nat ?c" "rat_of_nat ?c \<le> of_nat ?n" using le by simp_all
  show "0 \<le> rp_percent v \<and> rp_percent v \<le> 100" unfolding p by (rule percent_bounds [OF assms(2) i n])
  have z: "rat_of_nat ?c = 0 \<or> 1 \<le> rat_of_nat ?c" by (cases ?c) simp_all
  have "rat_of_nat ?n \<le> of_nat (2 ^ 31)" using assms(6) by (intro of_nat_mono) simp
  then have "rat_of_nat ?n \<le> 2 ^ 31" by simp
  from percent_close [OF assms(2) z i(2) n this]
  show "\<bar>of_int (rp_percent v) - 100 * rat_of_nat (rp_correct v) / of_nat (length (rp_entries v))\<bar> \<le> 51 / 100"
    unfolding p c len .
  show "rp_correct v = length (rp_entries v) \<longrightarrow> rp_percent v = 100"
    unfolding p c len using percent_ends(2) [OF assms(2) n] by simp
qed


lemma served_read:
  assumes "hr_status answer = 200" and "json_parse nt (hr_text answer) = Some v" and "mapper (Some v) = Inr a"
  shows "or_not_found (requestServerData nt mapper (Some answer)) = ServedPage a"
proof -
  have "hr_text answer \<noteq> []"
  proof
    assume "hr_text answer = []"
    moreover have "json_parse nt [] = None" by (simp add: json_parse_def skip_ws_def)
    ultimately show False using assms(2) by simp
  qed
  moreover have "response_ok answer" using assms(1) by (simp add: response_ok_def)
  ultimately show ?thesis
    using assms(2,3) by (simp add: or_not_found_def requestServerData_def requestPhase0Backend_def read_server_body_def)
qed

lemma result_page:
  assumes "distinct (map qq_id (pq_questions quiz))" and rnd: "double_rounding rnd"
    and view: "mapAttemptResultResponse (Some j) = Inr view"
    and ids: "map pf_questionId (pt_results view) = map qq_id (pq_questions quiz)"
    and score: "pt_score view = JFin (of_nat (length (filter pf_isCorrect (pt_results view))))"
    and count: "pt_questionCount view = JFin (of_nat (length (pt_results view)))"
    and len: "pq_questions quiz \<noteq> []" "length (pq_questions quiz) \<le> 2147483647"
    and answer: "hr_status answer = 200" "json_parse nt (hr_text answer) = Some j"
    and fetched: "fetched (''/quizzes/'' @ i @ ''/attempts/'' @ aid) = Some answer"
  shows "\<exists>v. loadAttemptResultOr404 nt fetched i aid = ServedPage view \<and> v = QuizResultPage date_text nt rnd view \<and>
    map re_position (rp_entries v) = [1..<Suc (length (pq_questions quiz))] \<and>
    rp_correct v = length (filter id (map re_isCorrect (rp_entries v))) \<and> pt_score view = JFin (of_nat (rp_correct v)) \<and>
    rp_wrong v = JFin (of_nat (length (filter Not (map re_isCorrect (rp_entries v))))) \<and>
    0 \<le> rp_percent v \<and> rp_percent v \<le> 100 \<and>
    \<bar>of_int (rp_percent v) - 100 * rat_of_nat (rp_correct v) / of_nat (length (pq_questions quiz))\<bar> \<le> 51 / 100 \<and>
    (rp_correct v = length (pq_questions quiz) \<longrightarrow> rp_percent v = 100)"
proof -
  let ?v = "QuizResultPage date_text nt rnd view"
  have n: "length (pt_results view) = length (pq_questions quiz)" using arg_cong [OF ids, of length] by simp
  with len have ne: "pt_results view \<noteq> []" "length (pt_results view) \<le> 2147483647" by auto
  note numbers = result_numbers [OF rnd score count ne, of date_text nt]
  have e: "length (rp_entries ?v) = length (pq_questions quiz)"
    using arg_cong [OF result_entries(1), of length date_text nt rnd view] n by simp
  have "loadAttemptResultOr404 nt fetched i aid = ServedPage view"
    unfolding loadAttemptResultOr404_def getPhase0AttemptResultServer_def fetched using answer view by (rule served_read)
  moreover have "pt_score view = JFin (of_nat (rp_correct ?v))" by (simp add: score QuizResultPage_def Let_def)
  ultimately show ?thesis
    using numbers result_entries(2) [of date_text nt rnd view] unfolding e n by (intro exI [of _ ?v]) simp
qed

text \<open>
  What an entry tells of its question: the question itself, its explanation and source, the answer the learner gave with
  its grade, and a right answer.
\<close>

definition entry_tells :: "number_text \<Rightarrow> (string \<times> string option) list \<Rightarrow> grading_question \<Rightarrow> result_entry \<Rightarrow> bool" where
  "entry_tells nt answers q e \<longleftrightarrow>
     re_stem e = gq_stem q \<and> re_explanation e = gq_explanation q \<and> re_snippet e = cit_snippet (gq_citation q) \<and>
     re_locator e = formatCitationLocator nt (client_locator (cit_locator (gq_citation q))) \<and>
     (\<exists>x\<in>set (gq_options q). answer_of answers (gq_id q) = Some (so_id x) \<and> re_selected e = so_content x
        \<and> re_isCorrect e = go_isCorrect x) \<and>
     (\<exists>x\<in>set (gq_options q). go_isCorrect x \<and> re_correct e = so_content x)"

definition entry_shown :: "number_text \<Rightarrow> nat \<Rightarrow> phase0_result_item \<Rightarrow> result_entry" where
  "entry_shown nt position item =
     \<lparr>re_isCorrect = pf_isCorrect item, re_position = position, re_stem = pi_stem item,
      re_selected = pi_selectedOptionContent item, re_correct = pi_correctOptionContent item,
      re_explanation = pf_explanation item, re_locator = formatCitationLocator nt (pc_locator (pf_citation item)),
      re_snippet = pc_snippet (pf_citation item)\<rparr>"

lemma entries_shown:
  "rp_entries (QuizResultPage date_text nt rnd view)
     = map (\<lambda>i. entry_shown nt (i + 1) (pt_results view ! i)) [0..<length (pt_results view)]"
proof -
  have "rp_entries (QuizResultPage date_text nt rnd view) = map (\<lambda>(i, item). entry_shown nt (i + 1) item) (enumerate 0 (pt_results view))"
    by (simp add: QuizResultPage_def Let_def entry_shown_def)
  also have "\<dots> = map (\<lambda>i. entry_shown nt (0 + i + 1) (pt_results view ! i)) [0..<length (pt_results view)]"
    by (rule enumerate_from)
  finally show ?thesis by simp
qed

lemma item_told:
  assumes "graded_item g x" and "distinct (map gq_id (gz_questions g))" and "q \<in> set (gz_questions g)" and "ga_questionId x = gq_id q"
    and "answer_of answers (ga_questionId x) = Some (ga_selectedOptionId x)"
  shows "entry_tells nt answers q (entry_shown nt n (client_result_item x))"
proof -
  from assms(1) obtain q' where q': "q' \<in> set (gz_questions g)" "gq_id q' = ga_questionId x" "gq_stem q' = aq_stem x"
    "gq_explanation q' = ga_explanation x" "gq_citation q' = ga_citation x"
    "\<exists>p\<in>set (gq_options q'). so_id p = ga_selectedOptionId x \<and> so_content p = aq_selectedOptionContent x \<and> go_isCorrect p = ga_isCorrect x"
    "\<exists>p\<in>set (gq_options q'). so_content p = aq_correctOptionContent x \<and> go_isCorrect p"
    unfolding graded_item_def by blast
  have "gq_id q' = gq_id q" using q'(2) assms(4) by simp
  with assms(2,3) q'(1) have eq: "q' = q" by (simp add: distinct_map inj_on_def)
  obtain p where p: "p \<in> set (gq_options q)" "so_id p = ga_selectedOptionId x" "so_content p = aq_selectedOptionContent x"
    "go_isCorrect p = ga_isCorrect x" using q'(6) unfolding eq by blast
  obtain p' where p': "p' \<in> set (gq_options q)" "so_content p' = aq_correctOptionContent x" "go_isCorrect p'"
    using q'(7) unfolding eq by blast
  show ?thesis
    unfolding entry_tells_def
  proof (intro conjI)
    show "\<exists>y\<in>set (gq_options q). answer_of answers (gq_id q) = Some (so_id y)
        \<and> re_selected (entry_shown nt n (client_result_item x)) = so_content y
        \<and> re_isCorrect (entry_shown nt n (client_result_item x)) = go_isCorrect y"
      using p assms(4,5) by (intro bexI [of _ p]) (simp_all add: entry_shown_def client_result_item_def)
    show "\<exists>y\<in>set (gq_options q). go_isCorrect y \<and> re_correct (entry_shown nt n (client_result_item x)) = so_content y"
      using p' by (intro bexI [of _ p']) (simp_all add: entry_shown_def client_result_item_def)
  qed (simp_all add: entry_shown_def client_result_item_def client_citation_def q'(3-5) [unfolded eq])
qed

lemma entries_told:
  assumes view: "view = client_attempt (to_attempt_result_response utc a)" and items: "\<forall>x\<in>set (at_results a). graded_item g x"
    and d: "distinct (map gq_id (gz_questions g))" and ids: "map pf_questionId (pt_results view) = map gq_id (gz_questions g)"
    and chosen: "\<forall>x\<in>set (pt_results view). answer_of answers (pf_questionId x) = Some (pf_selectedOptionId x)"
  shows "list_all2 (entry_tells nt answers) (gz_questions g) (rp_entries (QuizResultPage date_text nt rnd view))"
proof -
  have res: "pt_results view = map client_result_item (at_results a)"
    by (simp add: view client_attempt_def to_attempt_result_response_def)
  have len: "length (at_results a) = length (gz_questions g)" using arg_cong [OF ids, of length] by (simp add: res)
  have "entry_tells nt answers (gz_questions g ! k) (entry_shown nt (k + 1) (client_result_item (at_results a ! k)))"
    if k: "k < length (gz_questions g)" for k
  proof (rule item_told [OF _ d nth_mem [OF k]])
    have x: "at_results a ! k \<in> set (at_results a)" using k len by simp
    with items show "graded_item g (at_results a ! k)" by blast
    have "map pf_questionId (pt_results view) ! k = map gq_id (gz_questions g) ! k" by (simp only: ids)
    then show "ga_questionId (at_results a ! k) = gq_id (gz_questions g ! k)"
      using k len by (simp add: res client_result_item_def)
    have "client_result_item (at_results a ! k) \<in> set (pt_results view)" unfolding res using x by simp
    with chosen show "answer_of answers (ga_questionId (at_results a ! k)) = Some (ga_selectedOptionId (at_results a ! k))"
      by (force simp: client_result_item_def)
  qed
  then show ?thesis by (simp add: list_all2_conv_all_nth entries_shown res len)
qed

text \<open>C10 The result a learner sees is the graded attempt: after a submission from any reachable page of a served quiz, the
  result page loads what was stored and shows one entry per question, in the order of the quiz and numbered from 1.  The
  entry of a question shows its stem, explanation, source and snippet, the content of the option that the learner had
  chosen on the page with the grade of that option, and the content of a right option.  The page counts as many right and
  wrong entries as its two numbers say, the right ones are the score of the grading, and the percentage is between 0
  and 100, the rounded share of right answers, and 100 if all are right.\<close>

theorem result_page_shows:
  assumes "quiz_db_wf s" and "getQuiz findServedByOwnerId w i s = (Inr z :: store_error service_error + served_quiz_result)"
    and "findForGradingByOwnerId w i s = Some g"
    and "\<forall>q\<in>set (gz_questions g). isValidLocator (cit_locator (gq_citation q))"
    and "gz_questions g \<noteq> []" and "length (gz_questions g) \<le> 2147483647"
    and "mapQuizResponse (Some (quiz_json z)) = Inr quiz" and "st_readable st" and "st_writable st"
    and "page_reachable nt quiz mode st p" and "fst (handleSubmit quiz p) = Some body"
    and "aid \<notin> ar_id ` set (db_attempts s)" and "double_rounding rnd"
  shows "\<exists>r s' a. submitAttempt findForGradingByOwnerId (persistAttempt now) aid w i body s = (Inr r, s')
    \<and> getAttemptResult findByOwnerQuizAndAttemptId w i aid s' = (Inr a :: store_error service_error + attempt_result)
    \<and> (\<forall>fetched answer. fetched (''/quizzes/'' @ i @ ''/attempts/'' @ aid) = Some answer \<and> hr_status answer = 200 \<and>
          json_parse nt (hr_text answer) = Some (attempt_json (to_attempt_result_response utc a)) \<longrightarrow>
        (\<exists>view v. loadAttemptResultOr404 nt fetched i aid = ServedPage view \<and> v = QuizResultPage date_text nt rnd view \<and>
          map re_position (rp_entries v) = [1..<Suc (length (pq_questions quiz))] \<and>
          list_all2 (entry_tells nt (ds_answers (pg_draft p))) (gz_questions g) (rp_entries v) \<and> rp_correct v = gr_score r \<and>
          rp_correct v = length (filter id (map re_isCorrect (rp_entries v))) \<and> pt_score view = JFin (of_nat (rp_correct v)) \<and>
          rp_wrong v = JFin (of_nat (length (filter Not (map re_isCorrect (rp_entries v))))) \<and>
          0 \<le> rp_percent v \<and> rp_percent v \<le> 100 \<and>
          \<bar>of_int (rp_percent v) - 100 * rat_of_nat (rp_correct v) / of_nat (length (pq_questions quiz))\<bar> \<le> 51 / 100 \<and>
          (rp_correct v = length (pq_questions quiz) \<longrightarrow> rp_percent v = 100)))"
proof -
  have quiz: "quiz = client_quiz (served_view g)"
    using assms(7) quiz_read [of z] getQuiz_view [OF assms(2,3)] by simp
  have distinct: "distinct (map gq_id (gz_questions g))" using quiz_store.grading_ids [OF assms(1,3)] by simp
  then have ids: "distinct (map qq_id (pq_questions quiz))" "pq_questions quiz \<noteq> []" "length (pq_questions quiz) \<le> 2147483647"
    using assms(5,6) by (simp_all add: quiz client_question_ids) (simp_all add: client_served_simps)
  have valid: "answers_valid quiz (ds_answers (pg_draft p))"
    using reachable_inv [OF ids(1,2) assms(8-10)] by (simp add: page_inv_def draft_valid_def)
  obtain p' where "handleSubmit quiz p = (Some body, p')" using assms(11) by (cases "handleSubmit quiz p") auto
  note sub = submit_body [OF this]
  obtain r s' a view where graded: "submitAttempt findForGradingByOwnerId (persistAttempt now) aid w i body s = (Inr r, s')"
      "getAttemptResult findByOwnerQuizAndAttemptId w i aid s' = (Inr a :: store_error service_error + attempt_result)"
      "mapAttemptResultResponse (Some (attempt_json (to_attempt_result_response utc a))) = Inr view"
      "map pf_questionId (pt_results view) = map qq_id (pq_questions quiz)"
      "\<forall>x\<in>set (pt_results view). answer_of (ds_answers (pg_draft p)) (pf_questionId x) = Some (pf_selectedOptionId x)"
      "pt_score view = JFin (of_nat (length (filter pf_isCorrect (pt_results view))))"
      "pt_questionCount view = JFin (of_nat (length (pt_results view)))"
      "view = client_attempt (to_attempt_result_response utc a)" "\<forall>x\<in>set (at_results a). graded_item g x"
      "at_score a = int (gr_score r)"
    using attempt_graded_full [OF assms(1,3-6) valid [unfolded quiz] sub(1) [unfolded quiz] assms(12), of now utc]
    unfolding quiz [symmetric] sub(2) [symmetric] by blast
  have "map pf_questionId (pt_results view) = map gq_id (gz_questions g)"
    using graded(4) unfolding quiz client_question_ids .
  note told = entries_told [OF graded(8,9) distinct this graded(5), where nt = nt and date_text = date_text and rnd = rnd]
  let ?v = "QuizResultPage date_text nt rnd view"
  have "pt_score view = JFin (of_nat (gr_score r))"
    by (simp add: graded(8,10) client_attempt_def to_attempt_result_response_def)
  with graded(6) have correct: "rp_correct ?v = gr_score r" by (simp add: QuizResultPage_def Let_def)
  let ?shown = "\<lambda>fetched :: string \<Rightarrow> http_response option. \<exists>view v. loadAttemptResultOr404 nt fetched i aid = ServedPage view \<and>
          v = QuizResultPage date_text nt rnd view \<and> map re_position (rp_entries v) = [1..<Suc (length (pq_questions quiz))] \<and>
          list_all2 (entry_tells nt (ds_answers (pg_draft p))) (gz_questions g) (rp_entries v) \<and> rp_correct v = gr_score r \<and>
          rp_correct v = length (filter id (map re_isCorrect (rp_entries v))) \<and> pt_score view = JFin (of_nat (rp_correct v)) \<and>
          rp_wrong v = JFin (of_nat (length (filter Not (map re_isCorrect (rp_entries v))))) \<and>
          0 \<le> rp_percent v \<and> rp_percent v \<le> 100 \<and>
          \<bar>of_int (rp_percent v) - 100 * rat_of_nat (rp_correct v) / of_nat (length (pq_questions quiz))\<bar> \<le> 51 / 100 \<and>
          (rp_correct v = length (pq_questions quiz) \<longrightarrow> rp_percent v = 100)"
  have shown: "?shown fetched"
    if "fetched (''/quizzes/'' @ i @ ''/attempts/'' @ aid) = Some answer \<and> hr_status answer = 200 \<and>
      json_parse nt (hr_text answer) = Some (attempt_json (to_attempt_result_response utc a))" for fetched and answer :: http_response
  proof -
    from result_page [where fetched = fetched and i = i and aid = aid and date_text = date_text,
        OF ids(1) assms(13) graded(3,4,6,7) ids(2,3) conjunct1 [OF conjunct2 [OF that]]
          conjunct2 [OF conjunct2 [OF that]] conjunct1 [OF that]]
    obtain v where v: "v = ?v" and page: "loadAttemptResultOr404 nt fetched i aid = ServedPage view"
      "map re_position (rp_entries v) = [1..<Suc (length (pq_questions quiz))]"
      "rp_correct v = length (filter id (map re_isCorrect (rp_entries v)))" "pt_score view = JFin (of_nat (rp_correct v))"
      "rp_wrong v = JFin (of_nat (length (filter Not (map re_isCorrect (rp_entries v)))))" "0 \<le> rp_percent v" "rp_percent v \<le> 100"
      "\<bar>of_int (rp_percent v) - 100 * rat_of_nat (rp_correct v) / of_nat (length (pq_questions quiz))\<bar> \<le> 51 / 100"
      "rp_correct v = length (pq_questions quiz) \<longrightarrow> rp_percent v = 100" by (elim exE conjE) (rule that)
    show ?thesis
      by (rule exI [of _ view], rule exI [of _ v]) (intro conjI page v told [folded v] correct [folded v])
  qed
  have "\<forall>fetched answer. fetched (''/quizzes/'' @ i @ ''/attempts/'' @ aid) = Some answer \<and> hr_status answer = 200 \<and>
      json_parse nt (hr_text answer) = Some (attempt_json (to_attempt_result_response utc a)) \<longrightarrow> ?shown fetched"
    by (rule allI, rule allI, rule impI, rule shown)
  from conjI [OF graded(1) conjI [OF graded(2) this]] show ?thesis by (intro exI)
qed


lemma result_page_shows_witness:
  "\<exists>r s' a. submitAttempt findForGradingByOwnerId (persistAttempt 7) ''t'' ''w'' ''z''
      [\<lparr>sel_optionId = ''a'', sel_questionId = ''q''\<rparr>] (stored sample_quiz empty_quiz_db) = (Inr r, s')
    \<and> getAttemptResult findByOwnerQuizAndAttemptId ''w'' ''z'' ''t'' s' = (Inr a :: store_error service_error + attempt_result)
    \<and> (\<forall>fetched answer. fetched (''/quizzes/'' @ ''z'' @ ''/attempts/'' @ ''t'') = Some answer \<and> hr_status answer = 200 \<and>
        json_parse safe_numbers (hr_text answer) = Some (attempt_json (to_attempt_result_response int_str a)) \<longrightarrow>
        (\<exists>view v. loadAttemptResultOr404 safe_numbers fetched ''z'' ''t'' = ServedPage view \<and>
          v = QuizResultPage (\<lambda>t. t) safe_numbers (\<lambda>x. x) view \<and> map re_position (rp_entries v) = [1..<Suc 1]))"
proof -
  let ?g = "grading_view sample_quiz"
  have z: "getQuiz findServedByOwnerId ''w'' ''z'' (stored sample_quiz empty_quiz_db) = (Inr (served_view ?g) :: store_error service_error + served_quiz_result)"
    by (simp add: getQuiz_def served_is_stripped_grading grading_sample served_view_def comp_def)
  have g: "\<forall>q\<in>set (gz_questions ?g). isValidLocator (cit_locator (gq_citation q))"
      "gz_questions ?g \<noteq> []" "length (gz_questions ?g) \<le> 2147483647" "''t'' \<notin> ar_id ` set (db_attempts (stored sample_quiz empty_quiz_db))"
    by (simp_all add: grading_view_def sample_quiz_def stored_def empty_quiz_db_def max_safe_integer_def)
  have q: "mapQuizResponse (Some (quiz_json (served_view ?g))) = Inr sample_page_quiz" by (simp add: quiz_read sample_page_quiz_def)
  have n: "length (pq_questions sample_page_quiz) = 1" by code_simp
  have st: "st_readable empty_storage" "st_writable empty_storage" by (simp_all add: empty_storage_def)
  from result_page_shows [OF sample_wf z grading_sample g(1-3) q st answered_page_reachable answered_page_facts(3) g(4) exact_rounding,
      of 7 int_str "\<lambda>t. t", unfolded n]
  obtain r s' a where t: "submitAttempt findForGradingByOwnerId (persistAttempt 7) ''t'' ''w'' ''z''
      [\<lparr>sel_optionId = ''a'', sel_questionId = ''q''\<rparr>] (stored sample_quiz empty_quiz_db) = (Inr r, s')"
    "getAttemptResult findByOwnerQuizAndAttemptId ''w'' ''z'' ''t'' s' = (Inr a :: store_error service_error + attempt_result)"
    "\<And>fetched answer. fetched (''/quizzes/'' @ ''z'' @ ''/attempts/'' @ ''t'') = Some answer \<and> hr_status answer = 200 \<and>
        json_parse safe_numbers (hr_text answer) = Some (attempt_json (to_attempt_result_response int_str a)) \<Longrightarrow>
        (\<exists>view v. loadAttemptResultOr404 safe_numbers fetched ''z'' ''t'' = ServedPage view \<and>
          v = QuizResultPage (\<lambda>t. t) safe_numbers (\<lambda>x. x) view \<and> map re_position (rp_entries v) = [1..<Suc 1])"
    by blast
  then show ?thesis by (intro exI [of _ r] exI [of _ s'] exI [of _ a] conjI allI impI)
qed

section \<open>Resuming\<close>

lemma plain_form: "list_all (\<lambda>c. plain_byte (of_char c)) s \<Longrightarrow> form_encode s = s"
proof (induction s)
  case (Cons c s)
  then have p: "plain_byte (of_char c)" by simp
  then have "(of_char c :: nat) < 128" by (auto simp: plain_byte_def)
  with p have "map char_of (concat (map escape_byte (utf8_char c))) = [c]" by (simp add: utf8_char_def escape_byte_def)
  with Cons show ?case by (simp add: form_encode_def)
qed (simp add: form_encode_def)

lemma link_read:
  assumes "CHR ''?'' \<notin> set (pq_id quiz)"
  shows "link_params (startHref quiz p) = Some [(''mode'', quiz_mode_str (sp_mode p))]"
    and "link_params (getResumeHref (pq_id quiz) m) = Some [(''mode'', quiz_mode_str m), (''resume'', ''1'')]"
proof -
  have q: "link_params (quiz_play_path (pq_id quiz) @ CHR ''?'' # query) = params_of query" for query
  proof -
    have "takeWhile (\<lambda>c. c \<noteq> CHR ''?'') (quiz_play_path (pq_id quiz) @ CHR ''?'' # query) = quiz_play_path (pq_id quiz)"
      using assms by (subst takeWhile_append2) (auto simp: quiz_play_path_def)
    then show ?thesis by (simp add: link_params_def)
  qed
  have m: "params_of (''mode='' @ quiz_mode_str m) = Some [(''mode'', quiz_mode_str m)]"
    "params_of (''mode='' @ quiz_mode_str m @ ''&resume=1'') = Some [(''mode'', quiz_mode_str m), (''resume'', ''1'')]" for m
  proof -
    have e: "form_encode ''mode'' = ''mode''" "form_encode ''resume'' = ''resume''" "form_encode ''1'' = ''1''"
      "form_encode (quiz_mode_str m) = quiz_mode_str m"
      by (rule plain_form, cases m; simp add: plain_byte_def)+
    show "params_of (''mode='' @ quiz_mode_str m) = Some [(''mode'', quiz_mode_str m)]"
      using params_round_trip [of "[(''mode'', quiz_mode_str m)]"] by (simp add: params_text_def e)
    show "params_of (''mode='' @ quiz_mode_str m @ ''&resume=1'') = Some [(''mode'', quiz_mode_str m), (''resume'', ''1'')]"
      using params_round_trip [of "[(''mode'', quiz_mode_str m), (''resume'', ''1'')]"] by (simp add: params_text_def e)
  qed
  show "link_params (startHref quiz p) = Some [(''mode'', quiz_mode_str (sp_mode p))]"
    using q [of "''mode='' @ quiz_mode_str (sp_mode p)"] m(1) by (simp add: startHref_def)
  show "link_params (getResumeHref (pq_id quiz) m) = Some [(''mode'', quiz_mode_str m), (''resume'', ''1'')]"
    using q [of "''mode='' @ quiz_mode_str m @ ''&resume=1''"] m(2) by (simp add: getResumeHref_def)
qed

lemma read_modes: "readMode (Some (quiz_mode_str m)) = m"
  by (cases m) (simp_all add: readMode_def)


definition start_reachable :: "number_text \<Rightarrow> phase0_quiz \<Rightarrow> session_storage \<Rightarrow> start_page \<Rightarrow> bool" where
  "start_reachable nt quiz st sp \<longleftrightarrow> (start_step nt quiz)\<^sup>*\<^sup>* (start_opened st) sp"

lemma mode_str_inj: "quiz_mode_str m = quiz_mode_str m' \<longleftrightarrow> m = m'"
  by (cases m; cases m') simp_all

lemma draft_key_inj: "getQuizDraftKey i m = getQuizDraftKey i m' \<longleftrightarrow> m = m'"
  by (simp add: getQuizDraftKey_def mode_str_inj)

lemma draft_cleared:
  assumes "st_writable st"
  shows "readQuizDraft nt (clearQuizDraft i m st) i m' = (if m' = m then None else readQuizDraft nt st i m')"
  using assms by (simp add: readQuizDraft_def clearQuizDraft_def removeStorageValue_def readStorageValue_def draft_key_inj)

lemma start_step_inv:
  assumes "start_step nt quiz p p'" and "st_writable (sp_storage p)"
    and "\<forall>m d. sp_draftByMode p m = Some d \<longrightarrow> readQuizDraft nt (sp_storage p) (pq_id quiz) m = Some d"
  shows "st_writable (sp_storage p') \<and>
    (\<forall>m d. sp_draftByMode p' m = Some d \<longrightarrow> readQuizDraft nt (sp_storage p') (pq_id quiz) m = Some d)"
  using assms
proof cases
  case 3
  have "st_writable (clearQuizDraft (pq_id quiz) (sp_mode p) (sp_storage p))"
    using assms(2) by (simp add: clearQuizDraft_def removeStorageValue_def)
  with 3 assms(2,3) show ?thesis by (simp add: handleResetDraft_def draft_cleared)
qed (simp_all add: drafts_read_def mode_chosen_def)

lemma start_offers_stored:
  assumes "start_reachable nt quiz st sp" and "st_writable st"
  shows "\<forall>m d. sp_draftByMode sp m = Some d \<longrightarrow> readQuizDraft nt (sp_storage sp) (pq_id quiz) m = Some d"
proof -
  from assms(1) have "st_writable (sp_storage sp) \<and>
      (\<forall>m d. sp_draftByMode sp m = Some d \<longrightarrow> readQuizDraft nt (sp_storage sp) (pq_id quiz) m = Some d)"
    unfolding start_reachable_def
  proof (induction rule: rtranclp_induct)
    case base
    then show ?case using assms(2) by (simp add: start_opened_def)
  next
    case (step p p')
    then show ?case by (intro start_step_inv) blast+
  qed
  then show ?thesis ..
qed

lemma answers_counted:
  assumes "map fst answers = map qq_id qs" and "distinct (map fst answers)"
  shows "length (filter (\<lambda>kv. snd kv \<noteq> None) answers) = length (filter (\<lambda>q. answer_of answers (qq_id q) \<noteq> None) qs)"
proof -
  have n: "length answers = length qs" using arg_cong [OF assms(1), of length] by simp
  have "map (\<lambda>kv. snd kv \<noteq> None) answers = map (\<lambda>q. answer_of answers (qq_id q) \<noteq> None) qs"
  proof (rule nth_equalityI)
    fix i assume "i < length (map (\<lambda>kv. snd kv \<noteq> None) answers)"
    then have i: "i < length answers" "i < length qs" using n by simp_all
    have "fst (answers ! i) = qq_id (qs ! i)" using arg_cong [OF assms(1), of "\<lambda>xs. xs ! i"] i by simp
    moreover have "map_of answers (fst (answers ! i)) = Some (snd (answers ! i))"
      using i(1) assms(2) by (intro map_of_is_SomeI) simp_all
    ultimately have "answer_of answers (qq_id (qs ! i)) = snd (answers ! i)" by (simp add: answer_of_def)
    with i show "map (\<lambda>kv. snd kv \<noteq> None) answers ! i = map (\<lambda>q. answer_of answers (qq_id q) \<noteq> None) qs ! i" by simp
  qed (simp add: n)
  then show ?thesis
    unfolding filter_length_map [of "\<lambda>kv. snd kv \<noteq> None"] filter_length_map [of "\<lambda>q. answer_of answers (qq_id q) \<noteq> None"] by simp
qed

lemma fresh_unanswered:
  assumes "distinct (map qq_id (pq_questions quiz))"
  shows "answeredCount quiz (pg_draft (open_page nt now quiz mode False st)) = 0"
proof -
  have "answer_of (map (\<lambda>q. (qq_id q, None)) qs) k = None" for qs :: "phase0_quiz_question list" and k
    by (induction qs) (auto simp: answer_of_def)
  then show ?thesis
    by (simp add: answeredCount_def open_page_def persist_effect_def sanitizeDraft_def createEmptyAnswers_eq [OF assms]
        draft_snapshot.truncate_def)
qed


lemma resumed_page:
  assumes "CHR ''?'' \<notin> set (pq_id quiz)" and "start_draft sp \<noteq> None"
  shows "\<exists>href ps. resumeHref quiz sp = Some href \<and> link_params href = Some ps \<and>
    QuizPlayPage nt now quiz ps st = (sp_mode sp, open_page nt now quiz (sp_mode sp) True st)"
  using assms link_read(2) [OF assms(1), of "sp_mode sp"]
  by (simp add: resumeHref_def QuizPlayPage_def Let_def params_get_def read_modes readResumeFlag_def)

lemma started_page:
  assumes "CHR ''?'' \<notin> set (pq_id quiz)"
  shows "\<exists>ps. link_params (startHref quiz sp) = Some ps \<and>
    QuizPlayPage nt now quiz ps st = (sp_mode sp, open_page nt now quiz (sp_mode sp) False st)"
  using link_read(1) [OF assms, of sp] by (simp add: QuizPlayPage_def Let_def params_get_def read_modes readResumeFlag_def)

text \<open>C18 The start page and the stored work: in every state it only offers drafts that are stored; after any page of a
  quiz was left, it offers to resume in that mode with the number of answers given, and the link restores exactly that
  page; resetting removes the draft of this mode and of no other.  Following the link that starts the quiz opens an empty
  page and replaces the stored draft by it, so what was done before is lost, against what the page says.\<close>

theorem start_page_resumes:
  assumes "distinct (map qq_id (pq_questions quiz))" and "pq_questions quiz \<noteq> []"
    and "\<forall>q\<in>set (pq_questions quiz). \<not> is_array_index (qq_id q)" and "int (length (pq_questions quiz)) \<le> max_safe_integer"
    and "st_readable st" and "st_writable st" and "page_reachable nt quiz mode st p" and "\<not> pg_submitted p"
    and "ds_elapsedSec (pg_draft p) \<le> max_safe_integer" and "CHR ''?'' \<notin> set (pq_id quiz)"
    and "start_reachable nt quiz (pg_storage p) sp"
    and "sp0 = mode_chosen mode (drafts_read nt quiz (start_opened (pg_storage p)))"
  shows "(\<forall>m d. sp_draftByMode sp m = Some d \<longrightarrow> readQuizDraft nt (sp_storage sp) (pq_id quiz) m = Some d) \<and>
    start_answeredCount sp0 = answeredCount quiz (pg_draft p) \<and>
    (\<exists>href ps q. resumeHref quiz sp0 = Some href \<and> link_params href = Some ps \<and>
      QuizPlayPage nt now quiz ps (sp_storage sp0) = (mode, q) \<and> pg_draft q = pg_draft p) \<and>
    resumeHref quiz (handleResetDraft quiz sp0) = None \<and>
    (\<forall>m. readQuizDraft nt (sp_storage (handleResetDraft quiz sp0)) (pq_id quiz) m =
      (if m = mode then None else readQuizDraft nt (sp_storage sp0) (pq_id quiz) m)) \<and>
    (\<exists>ps q. link_params (startHref quiz sp0) = Some ps \<and> QuizPlayPage nt now quiz ps (sp_storage sp0) = (mode, q) \<and>
      answeredCount quiz (pg_draft q) = 0 \<and> pg_draft (open_page nt later quiz mode True (pg_storage q)) = pg_draft q)"
proof (intro conjI)
  have inv: "page_inv nt quiz mode p" by (rule reachable_inv [OF assms(1,2,5-7)])
  then have st: "st_readable (pg_storage p)" "st_writable (pg_storage p)" by (simp_all add: page_inv_def)
  show "\<forall>m d. sp_draftByMode sp m = Some d \<longrightarrow> readQuizDraft nt (sp_storage sp) (pq_id quiz) m = Some d"
    using assms(11) st(2) by (rule start_offers_stored)
  obtain t where t: "readQuizDraft nt (pg_storage p) (pq_id quiz) mode = Some (createDraftSnapshot (pg_draft p) mode t)"
    using assms(1,2) inv assms(8,3,4,9) by (rule draft_read_back)
  have sp0: "sp_storage sp0 = pg_storage p" "sp_mode sp0 = mode" "start_draft sp0 = Some (createDraftSnapshot (pg_draft p) mode t)"
    using t by (simp_all add: assms(12) mode_chosen_def drafts_read_def start_opened_def start_draft_def)
  have "map fst (ds_answers (pg_draft p)) = map qq_id (pq_questions quiz)"
    using inv by (simp add: page_inv_def draft_valid_def answers_valid_def)
  from answers_counted [OF this] this assms(1) show "start_answeredCount sp0 = answeredCount quiz (pg_draft p)"
    by (simp add: start_answeredCount_def sp0 answeredCount_def createDraftSnapshot_def)
  from resumed_page [OF assms(10), of sp0 nt now "pg_storage p"] sp0 reload_restores [OF assms(1,2) inv assms(8,3,4,9), of now]
  show "\<exists>href ps q. resumeHref quiz sp0 = Some href \<and> link_params href = Some ps \<and>
      QuizPlayPage nt now quiz ps (sp_storage sp0) = (mode, q) \<and> pg_draft q = pg_draft p" by auto
  show "resumeHref quiz (handleResetDraft quiz sp0) = None" by (simp add: resumeHref_def start_draft_def handleResetDraft_def)
  show "\<forall>m. readQuizDraft nt (sp_storage (handleResetDraft quiz sp0)) (pq_id quiz) m =
      (if m = mode then None else readQuizDraft nt (sp_storage sp0) (pq_id quiz) m)"
    using draft_cleared [OF st(2), of nt "pq_id quiz" mode] by (simp add: handleResetDraft_def sp0)
  let ?q = "open_page nt now quiz mode False (pg_storage p)"
  have fresh: "page_inv nt quiz mode ?q" by (rule open_page_inv [OF assms(1,2) st])
  have "\<not> pg_submitted ?q" "ds_elapsedSec (pg_draft ?q) \<le> max_safe_integer"
    by (simp_all add: open_page_def persist_effect_def sanitizeDraft_def draft_snapshot.truncate_def max_safe_integer_def)
  from reload_restores [OF assms(1,2) fresh this(1) assms(3,4) this(2), of later] fresh_unanswered [OF assms(1), of nt now mode "pg_storage p"]
    started_page [OF assms(10), of sp0 nt now "pg_storage p"] sp0
  show "\<exists>ps q. link_params (startHref quiz sp0) = Some ps \<and> QuizPlayPage nt now quiz ps (sp_storage sp0) = (mode, q) \<and>
      answeredCount quiz (pg_draft q) = 0 \<and> pg_draft (open_page nt later quiz mode True (pg_storage q)) = pg_draft q" by auto
qed

lemma start_page_resumes_witness:
  "resumeHref sample_page_quiz (mode_chosen TEST (drafts_read safe_numbers sample_page_quiz (start_opened (pg_storage answered_page)))) =
     Some ''/quiz/z/play?mode=test&resume=1''"
proof -
  let ?sp = "mode_chosen TEST (drafts_read safe_numbers sample_page_quiz (start_opened (pg_storage answered_page)))"
  have id: "pq_id sample_page_quiz = ''z''" by code_simp
  then have q: "CHR ''?'' \<notin> set (pq_id sample_page_quiz)" by simp
  have st: "st_readable empty_storage" "st_writable empty_storage" by (simp_all add: empty_storage_def)
  have "start_reachable safe_numbers sample_page_quiz (pg_storage answered_page) (start_opened (pg_storage answered_page))"
    by (simp add: start_reachable_def)
  from start_page_resumes [OF answered_page_facts(4-7) st answered_page_reachable answered_page_facts(2,1) q this refl]
  obtain href where "resumeHref sample_page_quiz ?sp = Some href" by blast
  then show ?thesis by (auto simp: resumeHref_def getResumeHref_def quiz_play_path_def id mode_chosen_def split: if_splits)
qed

end
