(* ===== verification/LeaveGuard.thy ===== *)
theory LeaveGuard imports LearnerPages begin

text \<open>
  Leaving a quiz: \<open>components/quiz/use-quiz-leave-navigation.ts\<close>, the dialog of \<open>quiz-play-screen.tsx\<close> and the history of
  the browser.  The effect that guards the page depends on functions that are new in every render, so every render of an
  open page runs its cleanup and then the effect again.
\<close>

section \<open>The page with its guard\<close>

datatype page_location = OnPage | LeavingTo string | Gone

text \<open>
  The runs of the effect are counted; \<^term>\<open>gd_registered\<close> are the runs whose listeners are registered,
  \<^term>\<open>gd_entries\<close> the entries of the history behind the current one that show this page, \<^term>\<open>gd_asked\<close> the
  questions the browser has put to the learner, by \<open>confirm\<close> or before an unload.
\<close>

record guarded_page =
  gd_page :: quiz_page
  gd_isNavigationConfirmed :: bool
  gd_registered :: "nat list"
  gd_cleanup :: "nat option"
  gd_runs :: nat
  gd_entries :: nat
  gd_asked :: nat
  gd_isLeaving :: bool
  gd_isLeaveDialogOpen :: bool
  gd_location :: page_location

definition guard_cleanup :: "guarded_page \<Rightarrow> guarded_page" where
  "guard_cleanup g =
     (if gd_runs g = 0 then g
      else g\<lparr>gd_registered := filter (\<lambda>r. r \<noteq> gd_runs g - 1) (gd_registered g),
             gd_cleanup := (if gd_cleanup g = Some (gd_runs g - 1) then None else gd_cleanup g)\<rparr>)"

definition guard_effect :: "guarded_page \<Rightarrow> guarded_page" where
  "guard_effect g =
     g\<lparr>gd_entries := gd_entries g + 1, gd_registered := gd_runs g # gd_registered g, gd_cleanup := Some (gd_runs g),
       gd_runs := gd_runs g + 1\<rparr>"

definition render_guard :: "guarded_page \<Rightarrow> guarded_page" where
  "render_guard g = guard_effect (guard_cleanup g)"

definition persistLatestDraft :: "number_text \<Rightarrow> string \<Rightarrow> phase0_quiz \<Rightarrow> quiz_mode \<Rightarrow> guarded_page \<Rightarrow> guarded_page" where
  "persistLatestDraft nt now quiz mode g =
     g\<lparr>gd_page := (gd_page g)\<lparr>pg_storage :=
       writeQuizDraft nt (pq_id quiz) mode (createDraftSnapshot (pg_draft (gd_page g)) mode now) (pg_storage (gd_page g))\<rparr>\<rparr>"

definition confirmInternalLeave ::
  "number_text \<Rightarrow> string \<Rightarrow> phase0_quiz \<Rightarrow> quiz_mode \<Rightarrow> guarded_page \<Rightarrow> guarded_page" where
  "confirmInternalLeave nt now quiz mode g =
     (let g1 = g\<lparr>gd_isNavigationConfirmed := True\<rparr>;
          g2 = (case gd_cleanup g1 of None \<Rightarrow> g1 | Some r \<Rightarrow> g1\<lparr>gd_registered := filter (\<lambda>i. i \<noteq> r) (gd_registered g1)\<rparr>);
          g3 = g2\<lparr>gd_cleanup := None, gd_isLeaveDialogOpen := False\<rparr>
      in persistLatestDraft nt now quiz mode g3)"

definition quiz_start_path :: "string \<Rightarrow> string" where
  "quiz_start_path quizId = ''/quiz/'' @ quizId"

text \<open>The handler of one run, for an answer of \<open>confirm\<close>; closing the dialog that is open renders the page.\<close>

definition handlePopState ::
  "number_text \<Rightarrow> string \<Rightarrow> phase0_quiz \<Rightarrow> quiz_mode \<Rightarrow> bool \<Rightarrow> guarded_page \<Rightarrow> guarded_page" where
  "handlePopState nt now quiz mode confirmed g =
     (if gd_isNavigationConfirmed g then g
      else let g0 = g\<lparr>gd_asked := gd_asked g + 1\<rparr> in
        if confirmed then
          (let g1 = confirmInternalLeave nt now quiz mode g0; g2 = (if gd_isLeaveDialogOpen g then render_guard g1 else g1)
           in g2\<lparr>gd_location := LeavingTo (quiz_start_path (pq_id quiz))\<rparr>)
        else g0\<lparr>gd_entries := gd_entries g + 1\<rparr>)"

text \<open>Back: the browser shows the entry before, or leaves the page if there is none, and calls the handlers.\<close>

definition back_pressed ::
  "number_text \<Rightarrow> string \<Rightarrow> phase0_quiz \<Rightarrow> quiz_mode \<Rightarrow> bool \<Rightarrow> guarded_page \<Rightarrow> guarded_page" where
  "back_pressed nt now quiz mode confirmed g =
     (if gd_entries g = 0 then g\<lparr>gd_location := Gone\<rparr>
      else fold (\<lambda>r. handlePopState nt now quiz mode confirmed) (gd_registered g) (g\<lparr>gd_entries := gd_entries g - 1\<rparr>))"

text \<open>Closing or reloading: \<^term>\<open>leave\<close> is the answer to the browser's own question, which only comes if a handler asks for it.\<close>

definition handleBeforeUnload ::
  "number_text \<Rightarrow> string \<Rightarrow> phase0_quiz \<Rightarrow> quiz_mode \<Rightarrow> bool \<Rightarrow> guarded_page \<Rightarrow> guarded_page" where
  "handleBeforeUnload nt now quiz mode leave g =
     (if gd_isNavigationConfirmed g \<or> gd_registered g = [] then g\<lparr>gd_location := Gone\<rparr>
      else let g1 = persistLatestDraft nt now quiz mode (g\<lparr>gd_asked := gd_asked g + 1\<rparr>) in if leave then g1\<lparr>gd_location := Gone\<rparr> else g1)"

definition leaveQuiz :: "number_text \<Rightarrow> string \<Rightarrow> phase0_quiz \<Rightarrow> quiz_mode \<Rightarrow> guarded_page \<Rightarrow> guarded_page" where
  "leaveQuiz nt now quiz mode g =
     (if pg_isSubmitting (gd_page g) \<or> gd_isLeaving g then g
      else render_guard ((confirmInternalLeave nt now quiz mode (g\<lparr>gd_isLeaving := True\<rparr>))
        \<lparr>gd_location := LeavingTo (quiz_start_path (pq_id quiz))\<rparr>))"

definition dialog_opened :: "guarded_page \<Rightarrow> guarded_page" where
  "dialog_opened g = render_guard (g\<lparr>gd_isLeaveDialogOpen := True\<rparr>)"

definition dialog_closed :: "guarded_page \<Rightarrow> guarded_page" where
  "dialog_closed g = (if gd_isLeaving g then g else render_guard (g\<lparr>gd_isLeaveDialogOpen := False\<rparr>))"

definition guard_opened :: "quiz_page \<Rightarrow> guarded_page" where
  "guard_opened p =
     render_guard \<lparr>gd_page = p, gd_isNavigationConfirmed = False, gd_registered = [], gd_cleanup = None, gd_runs = 0, gd_entries = 0, gd_asked = 0,
       gd_isLeaving = False, gd_isLeaveDialogOpen = False, gd_location = OnPage\<rparr>"

text \<open>A page whose address is being left stays alive until the new page has come.\<close>

inductive guard_step :: "number_text \<Rightarrow> phase0_quiz \<Rightarrow> quiz_mode \<Rightarrow> guarded_page \<Rightarrow> guarded_page \<Rightarrow> bool"
  for nt quiz mode
where
  page: "gd_location g \<noteq> Gone \<Longrightarrow> page_step nt quiz mode (gd_page g) p \<Longrightarrow>
    guard_step nt quiz mode g (render_guard (g\<lparr>gd_page := p\<rparr>))"
| open_dialog: "gd_location g \<noteq> Gone \<Longrightarrow> \<not> pg_isSubmitting (gd_page g) \<Longrightarrow> \<not> gd_isLeaving g \<Longrightarrow> guard_step nt quiz mode g (dialog_opened g)"
| close_dialog: "gd_location g \<noteq> Gone \<Longrightarrow> guard_step nt quiz mode g (dialog_closed g)"
| leave: "gd_location g \<noteq> Gone \<Longrightarrow> gd_isLeaveDialogOpen g \<Longrightarrow> guard_step nt quiz mode g (leaveQuiz nt now quiz mode g)"
| back': "gd_location g \<noteq> Gone \<Longrightarrow> guard_step nt quiz mode g (back_pressed nt now quiz mode confirmed g)"
| unload: "gd_location g \<noteq> Gone \<Longrightarrow> guard_step nt quiz mode g (handleBeforeUnload nt now quiz mode leave g)"
| arrive: "gd_location g = LeavingTo url \<Longrightarrow> guard_step nt quiz mode g (g\<lparr>gd_location := Gone\<rparr>)"

definition guard_reachable :: "number_text \<Rightarrow> phase0_quiz \<Rightarrow> quiz_mode \<Rightarrow> session_storage \<Rightarrow> guarded_page \<Rightarrow> bool" where
  "guard_reachable nt quiz mode st g \<longleftrightarrow>
     (\<exists>now resume. (guard_step nt quiz mode)\<^sup>*\<^sup>* (guard_opened (open_page nt now quiz mode resume st)) g)"

section \<open>The invariant\<close>

text \<open>
  At most one run has its listeners; before a confirmation the last run has them and there is an entry to go back to; and
  the page has only been left, or is being left, after a confirmation or a question.
\<close>

definition guard_inv :: "number_text \<Rightarrow> phase0_quiz \<Rightarrow> quiz_mode \<Rightarrow> guarded_page \<Rightarrow> bool" where
  "guard_inv nt quiz mode g \<longleftrightarrow>
     page_inv nt quiz mode (gd_page g) \<and> 0 < gd_runs g \<and>
     (gd_registered g = [] \<or> gd_registered g = [gd_runs g - 1]) \<and>
     (gd_cleanup g = None \<or> gd_cleanup g = Some (gd_runs g - 1)) \<and>
     (gd_isNavigationConfirmed g \<or>
        gd_registered g = [gd_runs g - 1] \<and> gd_cleanup g = Some (gd_runs g - 1) \<and> 0 < gd_entries g) \<and>
     (\<forall>url. gd_location g = LeavingTo url \<longrightarrow> url = quiz_start_path (pq_id quiz) \<and> gd_isNavigationConfirmed g)"

lemma render_fields [simp]:
  "gd_page (render_guard g) = gd_page g" "gd_entries (render_guard g) = gd_entries g + 1" "gd_runs (render_guard g) = gd_runs g + 1"
  "gd_isNavigationConfirmed (render_guard g) = gd_isNavigationConfirmed g" "gd_location (render_guard g) = gd_location g"
  "gd_isLeaving (render_guard g) = gd_isLeaving g" "gd_asked (render_guard g) = gd_asked g"
  by (simp_all add: render_guard_def guard_effect_def guard_cleanup_def)

text \<open>What a render needs of the page before.\<close>

definition renderable :: "number_text \<Rightarrow> phase0_quiz \<Rightarrow> quiz_mode \<Rightarrow> guarded_page \<Rightarrow> bool" where
  "renderable nt quiz mode g \<longleftrightarrow>
     page_inv nt quiz mode (gd_page g) \<and> (gd_registered g = [] \<or> 0 < gd_runs g \<and> gd_registered g = [gd_runs g - 1]) \<and>
     (\<forall>url. gd_location g = LeavingTo url \<longrightarrow> url = quiz_start_path (pq_id quiz) \<and> gd_isNavigationConfirmed g)"

lemma renderableI: "guard_inv nt quiz mode g \<Longrightarrow> renderable nt quiz mode g"
  by (auto simp: guard_inv_def renderable_def)

lemma guard_render_inv:
  assumes "renderable nt quiz mode g"
  shows "guard_inv nt quiz mode (render_guard g)"
proof -
  have "gd_registered (render_guard g) = [gd_runs g]" "gd_cleanup (render_guard g) = Some (gd_runs g)"
    using assms by (auto simp: renderable_def render_guard_def guard_effect_def guard_cleanup_def)
  with assms show ?thesis by (simp add: guard_inv_def renderable_def)
qed

lemma persist_latest:
  "persistLatestDraft nt now quiz mode g = g\<lparr>gd_page := persist_effect nt now quiz mode (gd_page g)\<rparr>"
  by (simp add: persistLatestDraft_def persist_effect_def)

lemma persisted_inv: "page_inv nt quiz mode p \<Longrightarrow> page_inv nt quiz mode (persist_effect nt now quiz mode p)"
  by (rule persist_effect_inv) (simp_all add: page_inv_def)

lemma confirmed_fields:
  "gd_page (confirmInternalLeave nt now quiz mode g) = persist_effect nt now quiz mode (gd_page g)"
  "gd_isNavigationConfirmed (confirmInternalLeave nt now quiz mode g)" "gd_cleanup (confirmInternalLeave nt now quiz mode g) = None"
  "gd_runs (confirmInternalLeave nt now quiz mode g) = gd_runs g" "gd_entries (confirmInternalLeave nt now quiz mode g) = gd_entries g"
  "gd_location (confirmInternalLeave nt now quiz mode g) = gd_location g" "gd_asked (confirmInternalLeave nt now quiz mode g) = gd_asked g"
  "gd_registered (confirmInternalLeave nt now quiz mode g) =
     (case gd_cleanup g of None \<Rightarrow> gd_registered g | Some r \<Rightarrow> filter (\<lambda>i. i \<noteq> r) (gd_registered g))"
  by (simp_all add: confirmInternalLeave_def persist_latest Let_def split: option.split)

lemma confirmed_inv:
  assumes "guard_inv nt quiz mode g"
  shows "guard_inv nt quiz mode (confirmInternalLeave nt now quiz mode (g\<lparr>gd_entries := n, gd_asked := a, gd_isLeaving := l\<rparr>))"
  using assms by (auto simp: guard_inv_def confirmed_fields persisted_inv split: option.split)

lemma leaving_inv:
  "guard_inv nt quiz mode g \<Longrightarrow> gd_isNavigationConfirmed g \<Longrightarrow>
   guard_inv nt quiz mode (g\<lparr>gd_location := LeavingTo (quiz_start_path (pq_id quiz))\<rparr>)"
  by (simp add: guard_inv_def)

lemma gone_inv: "guard_inv nt quiz mode g \<Longrightarrow> guard_inv nt quiz mode (g\<lparr>gd_location := Gone\<rparr>)"
  by (simp add: guard_inv_def)

text \<open>One press on back before a confirmation: it asks once, and nothing else has changed, or the page is being left.\<close>

lemma back_declined:
  assumes "guard_inv nt quiz mode g" and "\<not> gd_isNavigationConfirmed g"
  shows "back_pressed nt now quiz mode False g = g\<lparr>gd_asked := gd_asked g + 1\<rparr>"
proof -
  have "gd_registered g = [gd_runs g - 1]" "0 < gd_entries g" using assms by (simp_all add: guard_inv_def)
  then show ?thesis using assms(2) by (simp add: back_pressed_def handlePopState_def)
qed

definition back_confirmed_page :: "number_text \<Rightarrow> string \<Rightarrow> phase0_quiz \<Rightarrow> quiz_mode \<Rightarrow> guarded_page \<Rightarrow> guarded_page" where
  "back_confirmed_page nt now quiz mode g =
     (let g1 = confirmInternalLeave nt now quiz mode (g\<lparr>gd_entries := gd_entries g - 1, gd_asked := gd_asked g + 1\<rparr>)
      in (if gd_isLeaveDialogOpen g then render_guard g1 else g1)\<lparr>gd_location := LeavingTo (quiz_start_path (pq_id quiz))\<rparr>)"

lemma back_agreed:
  assumes "guard_inv nt quiz mode g" and "\<not> gd_isNavigationConfirmed g"
  shows "back_pressed nt now quiz mode True g = back_confirmed_page nt now quiz mode g"
proof -
  have "gd_registered g = [gd_runs g - 1]" "0 < gd_entries g" using assms by (simp_all add: guard_inv_def)
  then show ?thesis using assms(2) by (simp add: back_pressed_def handlePopState_def back_confirmed_page_def)
qed

lemma pop_ignored:
  assumes "gd_isNavigationConfirmed g"
  shows "fold (\<lambda>r. handlePopState nt now quiz mode c) rs g = g"
  using assms by (induction rs) (simp_all add: handlePopState_def)

lemma back_inv:
  assumes "guard_inv nt quiz mode g"
  shows "guard_inv nt quiz mode (back_pressed nt now quiz mode c g)"
proof (cases "gd_isNavigationConfirmed g")
  case True
  then show ?thesis using assms by (auto simp: back_pressed_def pop_ignored gone_inv) (simp add: guard_inv_def)
next
  case False
  have "guard_inv nt quiz mode (back_confirmed_page nt now quiz mode g)"
  proof -
    let ?g1 = "confirmInternalLeave nt now quiz mode (g\<lparr>gd_entries := gd_entries g - 1, gd_asked := gd_asked g + 1, gd_isLeaving := gd_isLeaving g\<rparr>)"
    have "guard_inv nt quiz mode (if gd_isLeaveDialogOpen g then render_guard ?g1 else ?g1)"
      by (cases "gd_isLeaveDialogOpen g")
        (simp_all only: if_True if_False confirmed_inv [OF assms] guard_render_inv [OF renderableI [OF confirmed_inv [OF assms]]])
    then have "guard_inv nt quiz mode ((if gd_isLeaveDialogOpen g then render_guard ?g1 else ?g1)
        \<lparr>gd_location := LeavingTo (quiz_start_path (pq_id quiz))\<rparr>)"
      by (rule leaving_inv) (simp add: confirmed_fields)
    moreover have "g\<lparr>gd_entries := gd_entries g - 1, gd_asked := gd_asked g + 1, gd_isLeaving := gd_isLeaving g\<rparr>
        = g\<lparr>gd_entries := gd_entries g - 1, gd_asked := gd_asked g + 1\<rparr>" by simp
    ultimately show ?thesis unfolding back_confirmed_page_def Let_def by (simp only:)
  qed
  moreover have "guard_inv nt quiz mode (g\<lparr>gd_asked := gd_asked g + 1\<rparr>)" using assms by (simp add: guard_inv_def)
  ultimately show ?thesis by (cases c) (simp_all only: back_declined [OF assms False] back_agreed [OF assms False])
qed

lemma leave_inv:
  assumes "guard_inv nt quiz mode g"
  shows "guard_inv nt quiz mode (leaveQuiz nt now quiz mode g)"
proof -
  let ?g1 = "confirmInternalLeave nt now quiz mode (g\<lparr>gd_entries := gd_entries g, gd_asked := gd_asked g, gd_isLeaving := True\<rparr>)"
  have "guard_inv nt quiz mode (?g1\<lparr>gd_location := LeavingTo (quiz_start_path (pq_id quiz))\<rparr>)"
    by (rule leaving_inv [OF confirmed_inv [OF assms]]) (simp add: confirmed_fields)
  from guard_render_inv [OF renderableI [OF this]] assms show ?thesis by (simp add: leaveQuiz_def)
qed

lemma unload_inv:
  assumes "guard_inv nt quiz mode g"
  shows "guard_inv nt quiz mode (handleBeforeUnload nt now quiz mode l g)"
proof -
  have "guard_inv nt quiz mode (persistLatestDraft nt now quiz mode (g\<lparr>gd_asked := gd_asked g + 1\<rparr>))"
    using assms by (simp add: guard_inv_def persist_latest persisted_inv)
  with assms show ?thesis by (simp add: handleBeforeUnload_def Let_def gone_inv)
qed

lemma renderable_fields:
  "renderable nt quiz mode (g\<lparr>gd_isLeaveDialogOpen := b\<rparr>) = renderable nt quiz mode g"
  by (simp add: renderable_def)

lemma guard_step_inv:
  assumes "distinct (map qq_id (pq_questions quiz))" and "pq_questions quiz \<noteq> []"
    and "guard_step nt quiz mode g g'" and "guard_inv nt quiz mode g"
  shows "guard_inv nt quiz mode g'"
  using assms(3)
proof (cases rule: guard_step.cases)
  case (page p)
  have "page_inv nt quiz mode p" using assms(4) by (intro page_step_inv [OF assms(1,2) page(3)]) (simp add: guard_inv_def)
  then have "renderable nt quiz mode (g\<lparr>gd_page := p\<rparr>)" using renderableI [OF assms(4)] by (simp add: renderable_def)
  then show ?thesis unfolding page(1) by (rule guard_render_inv)
next
  case open_dialog
  show ?thesis unfolding open_dialog(1) dialog_opened_def using renderableI [OF assms(4)] by (intro guard_render_inv) (simp add: renderable_fields)
next
  case close_dialog
  have "guard_inv nt quiz mode (render_guard (g\<lparr>gd_isLeaveDialogOpen := False\<rparr>))"
    using renderableI [OF assms(4)] by (intro guard_render_inv) (simp add: renderable_fields)
  with assms(4) show ?thesis unfolding close_dialog(1) dialog_closed_def by simp
next
  case (leave now)
  show ?thesis unfolding leave(1) by (rule leave_inv [OF assms(4)])
next
  case (back' now c)
  show ?thesis unfolding back'(1) by (rule back_inv [OF assms(4)])
next
  case (unload now l)
  show ?thesis unfolding unload(1) by (rule unload_inv [OF assms(4)])
next
  case arrive
  show ?thesis unfolding arrive(1) by (rule gone_inv [OF assms(4)])
qed

lemma guard_opened_inv:
  assumes "page_inv nt quiz mode p"
  shows "guard_inv nt quiz mode (guard_opened p)"
  unfolding guard_opened_def using assms by (intro guard_render_inv) (simp add: renderable_def)

lemma guard_reachable_inv:
  assumes "distinct (map qq_id (pq_questions quiz))" and "pq_questions quiz \<noteq> []" and "st_readable st" and "st_writable st"
    and "guard_reachable nt quiz mode st g"
  shows "guard_inv nt quiz mode g"
proof -
  from assms(5) obtain now resume where
    "(guard_step nt quiz mode)\<^sup>*\<^sup>* (guard_opened (open_page nt now quiz mode resume st)) g"
    unfolding guard_reachable_def by (elim exE)
  then show ?thesis
  proof (induction rule: rtranclp_induct)
    case base
    show ?case by (rule guard_opened_inv [OF open_page_inv [OF assms(1-4)]])
  next
    case (step y z)
    show ?case by (rule guard_step_inv [OF assms(1,2) step(2,3)])
  qed
qed

section \<open>Leaving\<close>

lemma left_pages:
  "gd_page (back_confirmed_page nt now quiz mode g) = persist_effect nt now quiz mode (gd_page g)"
  "gd_page (leaveQuiz nt now quiz mode g) \<in> {gd_page g, persist_effect nt now quiz mode (gd_page g)}"
  "gd_page (handleBeforeUnload nt now quiz mode l g) \<in> {gd_page g, persist_effect nt now quiz mode (gd_page g)}"
  by (simp_all add: back_confirmed_page_def leaveQuiz_def handleBeforeUnload_def confirmed_fields persist_latest Let_def)

lemma back_page:
  assumes "guard_inv nt quiz mode g"
  shows "gd_page (back_pressed nt now quiz mode c g) \<in> {gd_page g, persist_effect nt now quiz mode (gd_page g)}"
proof (cases "gd_isNavigationConfirmed g")
  case True
  then show ?thesis by (simp add: back_pressed_def pop_ignored)
next
  case False
  then show ?thesis using back_declined [OF assms False] back_agreed [OF assms False] by (cases c) (simp_all add: left_pages(1))
qed

lemma back_asks:
  assumes "guard_inv nt quiz mode g"
  shows "gd_asked (back_pressed nt now quiz mode c g) = gd_asked g + (if gd_isNavigationConfirmed g then 0 else 1)"
proof (cases "gd_isNavigationConfirmed g")
  case True
  then show ?thesis by (simp add: back_pressed_def pop_ignored)
next
  case False
  then show ?thesis using back_declined [OF assms False] back_agreed [OF assms False]
    by (cases c) (simp_all add: back_confirmed_page_def Let_def confirmed_fields)
qed

text \<open>The work stays in the storage for the link to resume; the link to start overwrites it.\<close>

definition work_kept :: "number_text \<Rightarrow> phase0_quiz \<Rightarrow> quiz_mode \<Rightarrow> draft_snapshot \<Rightarrow> guarded_page \<Rightarrow> bool" where
  "work_kept nt quiz mode d g \<longleftrightarrow>
     pg_draft (gd_page g) = d \<and> resumes_with nt quiz mode (pg_storage (gd_page g)) d \<and>
     (\<forall>now. pg_draft (open_page nt now quiz mode False (pg_storage (gd_page g))) = blank_draft quiz \<and>
       resumes_with nt quiz mode (pg_storage (open_page nt now quiz mode False (pg_storage (gd_page g)))) (blank_draft quiz))"

lemma work_keptI:
  assumes quiz: "distinct (map qq_id (pq_questions quiz))" "pq_questions quiz \<noteq> []"
      "\<forall>q\<in>set (pq_questions quiz). \<not> is_array_index (qq_id q)" "int (length (pq_questions quiz)) \<le> max_safe_integer"
    and inv: "page_inv nt quiz mode p" and open_page': "\<not> pg_submitted p" "ds_elapsedSec (pg_draft p) \<le> max_safe_integer"
    and g: "gd_page g \<in> {p, persist_effect nt now quiz mode p}"
  shows "work_kept nt quiz mode (pg_draft p) g"
proof -
  let ?q = "gd_page g"
  have i: "page_inv nt quiz mode ?q" using g inv persisted_inv [OF inv, of now] by auto
  have d: "pg_draft ?q = pg_draft p" and s: "\<not> pg_submitted ?q" using g open_page'(1) by (auto simp: persist_effect_def)
  have st: "st_readable (pg_storage ?q)" "st_writable (pg_storage ?q)" using i by (simp_all add: page_inv_def)
  have "resumes_with nt quiz mode (pg_storage ?q) (pg_draft p)"
    unfolding resumes_with_def using reload_restores [OF quiz(1,2) i s quiz(3,4)] open_page'(2) d by simp
  then show ?thesis
    unfolding work_kept_def using d started_draft [OF quiz(1)] started_resumes [OF quiz st] by blast
qed

text \<open>C17 Leaving a quiz keeps what the learner did and asks first.  On every page a learner can get to by clicks, ticks, the
  dialog, presses on back and attempts to close, until a submission is accepted: as long as nothing was confirmed, a
  press on back asks exactly once, whatever is answered, declining it changes nothing else, and agreeing goes to the
  start page of the quiz; closing asks once too, and declining stays; after a confirmation nothing is asked again.  The
  address is only ever changed to the start page of the quiz, after a confirmation.  On the page itself and after each of
  the ways to leave it, the link to resume restores the answers, position, flags and time of the moment; the link to
  start, which the same start page has, begins with an empty draft and overwrites them.  But every event renders the page
  anew and puts one more entry into the history, so back leads to the quiz again as many times.\<close>

theorem leaving_keeps_draft:
  assumes "distinct (map qq_id (pq_questions quiz))" and "pq_questions quiz \<noteq> []"
    and "\<forall>q\<in>set (pq_questions quiz). \<not> is_array_index (qq_id q)"
    and "int (length (pq_questions quiz)) \<le> max_safe_integer" and "st_readable st" and "st_writable st"
    and "guard_reachable nt quiz mode st g" and "\<not> pg_submitted (gd_page g)" and "ds_elapsedSec (pg_draft (gd_page g)) \<le> max_safe_integer"
  shows "work_kept nt quiz mode (pg_draft (gd_page g)) g
    \<and> work_kept nt quiz mode (pg_draft (gd_page g)) (back_pressed nt now quiz mode c g)
    \<and> work_kept nt quiz mode (pg_draft (gd_page g)) (leaveQuiz nt now quiz mode g)
    \<and> work_kept nt quiz mode (pg_draft (gd_page g)) (handleBeforeUnload nt now quiz mode c g)
    \<and> gd_asked (back_pressed nt now quiz mode c g) = gd_asked g + (if gd_isNavigationConfirmed g then 0 else 1)
    \<and> gd_asked (handleBeforeUnload nt now quiz mode c g) = gd_asked g + (if gd_isNavigationConfirmed g then 0 else 1)
    \<and> (\<not> gd_isNavigationConfirmed g \<longrightarrow>
         back_pressed nt now quiz mode False g = g\<lparr>gd_asked := gd_asked g + 1\<rparr>
       \<and> gd_location (back_pressed nt now quiz mode True g) = LeavingTo (quiz_start_path (pq_id quiz))
       \<and> gd_location (handleBeforeUnload nt now quiz mode False g) = gd_location g)
    \<and> (\<forall>url. gd_location g = LeavingTo url \<longrightarrow> url = quiz_start_path (pq_id quiz) \<and> gd_isNavigationConfirmed g)
    \<and> (\<forall>p. gd_entries (render_guard (g\<lparr>gd_page := p\<rparr>)) = gd_entries g + 1)"
proof -
  have inv: "guard_inv nt quiz mode g" by (rule guard_reachable_inv [OF assms(1,2,5-7)])
  then have p: "page_inv nt quiz mode (gd_page g)" by (simp add: guard_inv_def)
  note kept = work_keptI [OF assms(1-4) p assms(8,9)]
  have asks: "back_pressed nt now quiz mode False g = g\<lparr>gd_asked := gd_asked g + 1\<rparr>
      \<and> gd_location (back_pressed nt now quiz mode True g) = LeavingTo (quiz_start_path (pq_id quiz))
      \<and> gd_location (handleBeforeUnload nt now quiz mode False g) = gd_location g" if n: "\<not> gd_isNavigationConfirmed g"
    unfolding back_declined [OF inv n] back_agreed [OF inv n] using inv n
    by (simp add: back_confirmed_page_def handleBeforeUnload_def guard_inv_def persist_latest Let_def)
  have closes: "gd_asked (handleBeforeUnload nt now quiz mode c g) = gd_asked g + (if gd_isNavigationConfirmed g then 0 else 1)"
    using inv by (auto simp: handleBeforeUnload_def guard_inv_def persist_latest Let_def)
  have left: "\<forall>url. gd_location g = LeavingTo url \<longrightarrow> url = quiz_start_path (pq_id quiz) \<and> gd_isNavigationConfirmed g"
    using inv by (simp add: guard_inv_def)
  show ?thesis
    by (intro conjI kept [OF back_page [OF inv]] kept [OF left_pages(2)] kept [OF left_pages(3)] kept [where now = now]
        back_asks [OF inv] closes left impI asks) simp_all
qed

lemma answered_guard_reachable:
  "guard_reachable safe_numbers sample_page_quiz TEST empty_storage (render_guard
     ((guard_opened (open_page safe_numbers ''s'' sample_page_quiz TEST False empty_storage))\<lparr>gd_page := answered_page\<rparr>))"
proof -
  let ?o = "guard_opened (open_page safe_numbers ''s'' sample_page_quiz TEST False empty_storage)"
  have "\<exists>q\<in>set (pq_questions sample_page_quiz). \<exists>x\<in>set (qq_options q). qq_id q = ''q'' \<and> qo_id x = ''a''" by code_simp
  then obtain q x where q: "q \<in> set (pq_questions sample_page_quiz)" "x \<in> set (qq_options q)" "qq_id q = ''q''" "qo_id x = ''a''"
    by blast
  have "gd_page ?o = open_page safe_numbers ''s'' sample_page_quiz TEST False empty_storage" "gd_location ?o \<noteq> Gone"
    by (simp_all add: guard_opened_def)
  moreover have "page_step safe_numbers sample_page_quiz TEST (open_page safe_numbers ''s'' sample_page_quiz TEST False empty_storage) answered_page"
    using page_step.select [OF q(1,2)] unfolding answered_page_def q(3,4) .
  ultimately have "guard_step safe_numbers sample_page_quiz TEST ?o (render_guard (?o\<lparr>gd_page := answered_page\<rparr>))"
    by (intro guard_step.page) simp_all
  then show ?thesis unfolding guard_reachable_def by (intro exI) (rule r_into_rtranclp)
qed

lemma leaving_keeps_draft_witness:
  "back_pressed safe_numbers ''u'' sample_page_quiz TEST False (render_guard
     ((guard_opened (open_page safe_numbers ''s'' sample_page_quiz TEST False empty_storage))\<lparr>gd_page := answered_page\<rparr>))
   = (render_guard ((guard_opened (open_page safe_numbers ''s'' sample_page_quiz TEST False empty_storage))\<lparr>gd_page := answered_page\<rparr>))
     \<lparr>gd_asked := 1\<rparr>"
  using leaving_keeps_draft [OF answered_page_facts(4,5,6,7) _ _ answered_guard_reachable,
      where now = "''u''"] answered_page_facts(1,2)
  by (simp add: empty_storage_def) (simp add: guard_opened_def)

end
