(* ===== verification/Spec2Isabelle.thy ===== *)
theory Spec2Isabelle imports
  AssessmentService ProcessingJobs Billing ModelAccess Content ForwardRelay ReturnRelay Worker
  JsonText ClientApi LearnerSession PracticeFeedback DocumentPolling UploadClient LlmClient Migrations Runtime
  LibraryView ApiBootstrap BackendRoutes LearnerPages LeaveGuard
begin

text \<open>
  A model of the LearningPlatform backend (\<open>app/src\<close>) and of the parts of its web client (\<open>web/src\<close>) that
  work on the backend's data: an owner uploads a document, a worker cuts it into chunks and lets a language
  model write multiple-choice questions about them, the owner takes the quiz.

  \<^bold>\<open>The program and how its parts interact.\<close>  Three schemas of one PostgreSQL database are owned by
  three modules and are never written in one transaction.  \<open>content\<close> (schema \<open>course\<close>) keeps the
  documents and an outbox.  \<open>ai\<close> keeps the queue of processing jobs, the chunks, credits, usage, models
  and an outbox of results.  \<open>assessment\<close> (schema \<open>quiz\<close>) keeps quizzes and attempts.  A confirmed
  upload puts an event into the first outbox; the forward relay turns it into a job; a runner claims the
  job under a lease, processes it and ends the attempt, which writes a result event; the return relay
  stores the quiz of the event and projects the outcome onto the document.  Every delivery is at least
  once, so the theorems are about idempotence, fences and what a crash between two transactions
  leaves.  The web server passes the requests of the pages on with the owner added and with errors made safe to
  show; the pages upload a document, poll it, let the learner take the quiz and read the result back.  Every
  replica of the backend migrates the database under one advisory lock before it serves.

  \<^bold>\<open>Theories.\<close>
  \<^item> \<open>Prelude\<close>: numbers and strings of JavaScript, results with an error branch, JSON, sorting, the
    collections of rewrite rules.
  \<^item> \<open>DeterministicId\<close>: \<open>domain/deterministic-id.ts\<close> and the identifiers of \<open>chunk.service.ts\<close>.
  \<^item> \<open>QuizDomain\<close>, \<open>Attempt\<close>: the aggregate \<open>domain/quiz.ts\<close>, \<open>domain/question.ts\<close> and grading,
    \<open>domain/attempt.ts\<close>.  What becomes a question, with which number and identifier; a quiz does not depend
    on the order of the candidates; when a submission is graded.
  \<^item> \<open>QuizStore\<close>, \<open>AssessmentService\<close>: the repositories, services, controller, requests and responses of
    \<open>modules/assessment\<close>.  Round trips through the tables, every outcome of a submission, what a served quiz
    hides.
  \<^item> \<open>ProcessingJobs\<close>: \<open>repositories/processing-job.repository.ts\<close>.  The invariant of the queue over every
    sequence of transactions, leases as fences, the retry schedule.
  \<^item> \<open>Billing\<close>: reservation, settlement, entitlement, usage records.  Conservation of credits.
  \<^item> \<open>ModelAccess\<close>: catalog, custom models, URL and DNS checks, cipher, resolver.
  \<^item> \<open>Content\<close>: \<open>content.service.ts\<close>, \<open>content.repository.ts\<close>, the upload policy, the storage check, the
    projection of results, requests and responses.
  \<^item> \<open>ForwardRelay\<close>, \<open>ReturnRelay\<close>: the two relays with the outboxes, as lists of transactions.
  \<^item> \<open>Chunking\<close>, \<open>ChunkStore\<close>: \<open>chunk.service.ts\<close>, \<open>extraction.service.ts\<close>, \<open>chunk.repository.ts\<close>.
    All writes under a lease, the replacement of the chunks among them, against a stale fence.
  \<^item> \<open>GenerationOutput\<close>: the decoder of the model's answer, the check against copied source text, cache keys.
  \<^item> \<open>BoundedConcurrency\<close>, \<open>QuizGeneration\<close>: \<open>bounded-concurrency.ts\<close> and \<open>quiz-generation.service.ts\<close>.
    What generation does to the accounts, and that it ends for every order of completions.
  \<^item> \<open>JobProcessor\<close>, \<open>Configuration\<close>, \<open>Worker\<close>: \<open>extraction-job-processor.service.ts\<close>,
    \<open>config/application-config.service.ts\<close> and a cycle of either worker runner.
    The two ways in which a job of a configured worker ends.
  \<^item> \<open>LlmClient\<close>: \<open>openai-llm-provider.ts\<close>, the fake provider and the choice between them.  What every answer or
    error of the vendor's SDK becomes; text that wraps an answer is read back.
  \<^item> \<open>Migrations\<close>: \<open>database/migrate.ts\<close>, query by query, and a fleet of replicas against one server with its lock and
    transactions.  Refinement to whole migrations applied one after the other.
  \<^item> \<open>Runtime\<close>: the life of a runner, the health server and the reloading of certificates.
  \<^item> \<open>JsonText\<close>: \<open>JSON.parse\<close> and \<open>JSON.stringify\<close> on the values that cross the wire, with their round trip.
  \<^item> \<open>ClientApi\<close>: \<open>web/src/lib/phase0\<close>, the decoders of every response, the proxy and the error texts.
  \<^item> \<open>LearnerSession\<close>, \<open>PracticeFeedback\<close>: the page on which a quiz is taken, with its stored draft, its timer and
    the checks of single answers, as step relations over the handlers.
  \<^item> \<open>ApiBootstrap\<close>: \<open>main.ts\<close> of the backend with the documentation behind a password and the redaction of what a failed
    start reports.  The order of the stages and what is left open when one fails.
  \<^item> \<open>BackendRoutes\<close>: the paths of a request through the web server's handlers (\<open>web/src/app/api\<close>) to the controllers, and
    the data of the pages the server renders.  Each request reaches its own operation.
  \<^item> \<open>QueryText\<close>, \<open>DocumentTexts\<close>, \<open>LibraryView\<close>: the query part of an address, the texts about a document, and the library
    page that keeps its choices in the address.
  \<^item> \<open>LearnerPages\<close>, \<open>LeaveGuard\<close>: the page of a document, the processing panels, the start of a quiz, its result, and the
    guard that asks before a quiz is left and keeps the draft for the link to resume.
  \<^item> \<open>DocumentPolling\<close>, \<open>UploadClient\<close>: the polling of a document and the upload page, as step relations.

  \<^bold>\<open>Conventions.\<close>  A JavaScript string is a sequence of UTF-16 code units; the model uses \<^typ>\<open>string\<close>, so
  only code units below 256 occur, and character classes are those of JavaScript on that range.  A number
  is NaN, an infinity or a finite rational where the code compares or tests it; stored integers are \<^typ>\<open>int\<close>
  with the range of their column checked.  \<^const>\<open>Inl\<close> is a thrown error.  A transaction is a function from
  the state, at an instant \<open>now\<close>, to a result and a state; one that fails changes nothing.  Row locks make
  concurrent transactions serial, so an interleaving is a list of transactions.  Random identifiers are
  arguments.

  \<^bold>\<open>Parameters.\<close>  Code outside the repository is an argument of the definitions that use it: the digest (256
  bits), \<open>localeCompare\<close>, the URL parser, DNS, AES-GCM with node's UTF-8 and base64url, the answers
  of the object storage, each of which may be a failure, the segmenter of \<open>Intl\<close>, the PDF reader, the UTF-8 decoder, the language model and the vendor's SDK, the text of a number, the
  number and date formats of the locale, the time of a date text, the rounding of a rational to a double, node's base64
  decoder, the effect of a migration script and the collation of the database, \<open>createSecureContext\<close>, and the answer of the
  database driver to an UPDATE (rows alone, or rows and count).  Hypotheses on them are in the
  statements, for instance that the digest does not collide on the strings hashed.

  \<^bold>\<open>Interfaces.\<close>  The contracts between components are locales, interpreted on the repositories that provide
  them: \<open>quiz_attempt_store\<close>, \<open>attempt_reader\<close>, \<open>quiz_persistence\<close>, \<open>ingestion_port\<close> and
  \<open>fenced_write\<close>, the law of every write of the queue under a lease.

  \<^bold>\<open>Loops.\<close>  Structural recursion where a list is consumed; \<open>split_loop\<close> of the chunker has a measure,
  the distance from the start of a part to the end of the text, because each round starts at least one code
  unit further; \<open>insert_batches\<close> does not end for a batch size of zero and is a partial function into an
  option, total for the positive sizes the configuration accepts.  The concurrent calls of a generation
  complete in the order of a schedule, over which the theorems quantify; they end for every endless order in which each
  call comes up again and again (\<open>fair_order\<close>), from some point on.  The lock of a migration is tried at most
  61 times, because every round waits a second of the sixty; a replica takes at most 132 steps and four for each of
  its files.  The JSON reader has the length of its text as fuel, since every value consumes a character.

  \<^bold>\<open>Not modelled.\<close>  The layout of the pages and the pages that only show sample data (\<open>web/src/app\<close>, dashboards,
  teacher and admin views), the Go and mTLS deployment files, modules and dependency injection, logging and OpenAPI
  decorators, and the test support.  Texts shown to the user are written without their accents, because a character
  of the model has one byte.  Timestamps no operation reads are left out.
\<close>

end
